(* ===== verification/Prelude.thy ===== *)
theory Prelude
  imports Main
    "HOL-Library.Word"
    "HOL-Library.AList"
    "HOL-Library.Char_ord"
    "HOL-Library.List_Lexorder"
    "HOL-Library.Product_Lexorder"
    "HOL-Library.Multiset"
begin

text \<open>
  Shared material of the Watchtower development: the machine types, times, the textual
  identifiers every reducer builds (decimal, hexadecimal, length-prefixed parts), Go's
  \<^verbatim>\<open>sort.Slice\<close> with a comparison function, Go maps as association lists, and the
  generic notion of a run of a reducer. The locales here are interpreted by the
  component theories.

  Conventions.
  \<^item> A \<^verbatim>\<open>time.Time\<close> is its instant in nanoseconds since Go's zero time (1 January of
    year 1, UTC), an integer; \<^verbatim>\<open>IsZero\<close> is being 0; \<^verbatim>\<open>Before\<close>, \<^verbatim>\<open>After\<close> and
    \<^verbatim>\<open>Equal\<close> compare instants. A \<^verbatim>\<open>time.Duration\<close> is a number of nanoseconds.
  \<^item> \<^verbatim>\<open>uint64\<close> is a 64-bit word (it wraps); \<^verbatim>\<open>int64\<close> is an \<^verbatim>\<open>int\<close> in range, with
    the wrap-around of conversions and products written out by \<open>wrap64\<close>.
  \<^item> A Go string is its list of bytes (\<^verbatim>\<open>string\<close>), so \<^verbatim>\<open>len\<close> is \<open>length\<close> and
    \<^verbatim>\<open><\<close> is the lexicographic order of bytes.
\<close>

subsection \<open>Machine types and times\<close>

type_synonym u64 = "64 word"
type_synonym gotime = int
type_synonym duration = int

text \<open>Facts that unfold the operations of the component under proof.\<close>

named_theorems op_defs \<open>definitions of the operations of the components\<close>

text \<open>Facts that say what an operation leaves unchanged.\<close>

named_theorems frame \<open>frame conditions of the operations\<close>

definition isZero :: "gotime \<Rightarrow> bool" where
  "isZero t \<longleftrightarrow> t = 0"

lemma isZero_0 [simp]: "isZero 0"
  by (simp add: isZero_def)

text \<open>Conversion of an arbitrary integer to \<^verbatim>\<open>int64\<close>: two's complement wrap-around.\<close>

definition wrap64 :: "int \<Rightarrow> int" where
  "wrap64 x = (x + 2 ^ 63) mod 2 ^ 64 - 2 ^ 63"

lemma wrap64_id: "- (2 ^ 63) \<le> x \<Longrightarrow> x < 2 ^ 63 \<Longrightarrow> wrap64 x = x"
  by (simp add: wrap64_def)

lemma wrap64_range: "- (2 ^ 63) \<le> wrap64 x \<and> wrap64 x < 2 ^ 63"
  by (simp add: wrap64_def)

subsection \<open>Decimal and hexadecimal text\<close>

definition digit :: "nat \<Rightarrow> char" where
  "digit n = char_of (48 + n)"

fun decimal :: "nat \<Rightarrow> string" where
  "decimal n = (if n < 10 then [digit n] else decimal (n div 10) @ [digit (n mod 10)])"

declare decimal.simps [simp del]

definition digit_value :: "char \<Rightarrow> nat" where
  "digit_value c = of_char c - 48"

definition decimal_value :: "string \<Rightarrow> nat" where
  "decimal_value = foldl (\<lambda>a c. 10 * a + digit_value c) 0"

lemma of_char_digit: "n < 10 \<Longrightarrow> of_char (digit n) = (48 + n :: nat)"
  by (simp add: digit_def)

lemma digit_value_digit [simp]: "n < 10 \<Longrightarrow> digit_value (digit n) = n"
  by (simp add: digit_value_def of_char_digit)

lemma decimal_value_decimal [simp]: "decimal_value (decimal n) = n"
proof (induction n rule: decimal.induct)
  case (1 n)
  show ?case
  proof (cases "n < 10")
    case True
    then show ?thesis by (simp add: decimal.simps [of n] decimal_value_def)
  next
    case False
    with "1.IH" have "decimal_value (decimal (n div 10)) = n div 10" by simp
    with False show ?thesis by (simp add: decimal.simps [of n] decimal_value_def)
  qed
qed

lemma decimal_inject [simp]: "decimal m = decimal n \<longleftrightarrow> m = n"
  by (metis decimal_value_decimal)

lemma decimal_not_Nil [simp]: "decimal n \<noteq> []"
  by (subst decimal.simps) simp

lemma digit_code_range:
  "c \<in> set (decimal n) \<Longrightarrow> 48 \<le> (of_char c :: nat) \<and> (of_char c :: nat) < 58"
proof (induction n rule: decimal.induct)
  case (1 n)
  show ?case
  proof (cases "n < 10")
    case True
    with "1.prems" show ?thesis
      by (simp add: decimal.simps [of n] of_char_digit)
  next
    case False
    then have "decimal n = decimal (n div 10) @ [digit (n mod 10)]"
      by (simp add: decimal.simps [of n])
    with "1.prems" have "c \<in> set (decimal (n div 10)) \<or> c = digit (n mod 10)"
      by (metis Un_iff empty_iff insert_iff list.set set_append)
    with "1.IH" False show ?thesis by (auto simp: of_char_digit)
  qed
qed

lemma nondigit_notin_decimal:
  "(of_char c :: nat) < 48 \<or> 58 \<le> (of_char c :: nat) \<Longrightarrow> c \<notin> set (decimal n)"
  using digit_code_range [of c n] by auto

text \<open>An ASCII digit.\<close>

definition isDigit :: "char \<Rightarrow> bool" where
  "isDigit c \<longleftrightarrow> 48 \<le> (of_char c :: nat) \<and> (of_char c :: nat) \<le> 57"

lemma isDigit_decimal: "list_all isDigit (decimal n)"
proof -
  have "isDigit c" if "c \<in> set (decimal n)" for c
    using digit_code_range [OF that] by (simp add: isDigit_def)
  then show ?thesis by (simp add: list_all_iff)
qed

text \<open>\<^verbatim>\<open>strconv.FormatInt(i, 10)\<close> and \<^verbatim>\<open>strconv.FormatUint(w, 10)\<close>.\<close>

definition formatInt :: "int \<Rightarrow> string" where
  "formatInt i = (if i < 0 then CHR ''-'' # decimal (nat (- i)) else decimal (nat i))"

definition formatUint :: "u64 \<Rightarrow> string" where
  "formatUint w = decimal (unat w)"

lemma formatUint_inject [simp]: "formatUint v = formatUint w \<longleftrightarrow> v = w"
  by (simp add: formatUint_def unat_arith_simps)

lemma decimal_ne_minus: "decimal n \<noteq> CHR ''-'' # xs"
proof
  assume "decimal n = CHR ''-'' # xs"
  then have "CHR ''-'' \<in> set (decimal n)" by simp
  then show False using nondigit_notin_decimal [of "CHR ''-''" n] by simp
qed

lemma formatInt_inject [simp]: "formatInt i = formatInt j \<longleftrightarrow> i = j"
  using decimal_ne_minus decimal_ne_minus [symmetric]
  by (auto simp: formatInt_def split: if_splits)

definition hexDigit :: "nat \<Rightarrow> char" where
  "hexDigit n = (if n < 10 then char_of (48 + n) else char_of (87 + n))"

definition hexEncode :: "string \<Rightarrow> string" where
  "hexEncode s = concat (map (\<lambda>c. [hexDigit (of_char c div 16), hexDigit (of_char c mod 16)]) s)"

lemma of_char_hexDigit:
  "n < 16 \<Longrightarrow> of_char (hexDigit n) = (if n < 10 then 48 + n else 87 + n :: nat)"
  by (simp add: hexDigit_def)

lemma hexDigit_inject: "m < 16 \<Longrightarrow> n < 16 \<Longrightarrow> hexDigit m = hexDigit n \<longleftrightarrow> m = n"
  by (auto dest: arg_cong [where f = "of_char :: char \<Rightarrow> nat"]
      simp: of_char_hexDigit split: if_splits)

lemma of_char_less_256: "(of_char c :: nat) < 256"
  by (cases c) (simp split: if_splits)

lemma hexDigits_inject:
  assumes "hexDigit (of_char c div 16) = hexDigit (of_char d div 16)"
    and "hexDigit (of_char c mod 16) = hexDigit (of_char d mod 16)"
  shows "c = d"
proof -
  have bound: "(of_char e :: nat) div 16 < 16" for e
    using of_char_less_256 [of e] by (simp add: less_mult_imp_div_less)
  have "(of_char c :: nat) div 16 = of_char d div 16"
    using assms(1) bound by (simp add: hexDigit_inject)
  moreover have "(of_char c :: nat) mod 16 = of_char d mod 16"
    using assms(2) by (simp add: hexDigit_inject)
  ultimately have "(of_char c :: nat) = of_char d"
    by (metis div_mult_mod_eq)
  then show ?thesis by simp
qed

lemma hexEncode_inject [simp]: "hexEncode s = hexEncode t \<longleftrightarrow> s = t"
proof
  assume "hexEncode s = hexEncode t"
  then show "s = t"
  proof (induction s arbitrary: t)
    case Nil
    then show ?case by (cases t) (simp_all add: hexEncode_def)
  next
    case (Cons c s)
    then obtain d t' where t: "t = d # t'"
      by (cases t) (simp_all add: hexEncode_def)
    from Cons.prems have "c = d" and "hexEncode s = hexEncode t'"
      by (auto simp: t hexEncode_def intro: hexDigits_inject)
    with Cons.IH show ?case by (simp add: t)
  qed
qed simp

text \<open>Evaluation by the bits of a byte.\<close>

definition nibble :: "bool \<Rightarrow> bool \<Rightarrow> bool \<Rightarrow> bool \<Rightarrow> char" where
  "nibble a b c d =
     (if a then if b then if c then if d then CHR ''f'' else CHR ''e'' else if d then CHR ''d'' else CHR ''c''
        else if c then if d then CHR ''b'' else CHR ''a'' else if d then CHR ''9'' else CHR ''8''
      else if b then if c then if d then CHR ''7'' else CHR ''6'' else if d then CHR ''5'' else CHR ''4''
        else if c then if d then CHR ''3'' else CHR ''2'' else if d then CHR ''1'' else CHR ''0'')"

lemma hexDigit_nibble:
  "hexDigit (of_bool d + 2 * of_bool c + 4 * of_bool b + 8 * of_bool a) = nibble a b c d"
  by (cases a; cases b; cases c; cases d) (simp_all add: hexDigit_def nibble_def char_of_def bit_0)

lemma hexEncode_code [code]:
  "hexEncode [] = []"
  "hexEncode (Char b0 b1 b2 b3 b4 b5 b6 b7 # s) = nibble b7 b6 b5 b4 # nibble b3 b2 b1 b0 # hexEncode s"
proof -
  let ?n = "of_char (Char b0 b1 b2 b3 b4 b5 b6 b7) :: nat"
  have n: "?n = 16 * (of_bool b4 + 2 * of_bool b5 + 4 * of_bool b6 + 8 * of_bool b7) +
      (of_bool b0 + 2 * of_bool b1 + 4 * of_bool b2 + 8 * of_bool b3)"
    by (simp add: of_char_def horner_sum_simps)
  have lt: "of_bool b0 + 2 * of_bool b1 + 4 * of_bool b2 + 8 * of_bool b3 < (16 :: nat)"
    by (auto split: split_of_bool)
  have "?n div 16 = of_bool b4 + 2 * of_bool b5 + 4 * of_bool b6 + 8 * of_bool b7"
    "?n mod 16 = of_bool b0 + 2 * of_bool b1 + 4 * of_bool b2 + 8 * of_bool b3"
    unfolding n using lt by simp_all
  then show "hexEncode (Char b0 b1 b2 b3 b4 b5 b6 b7 # s) = nibble b7 b6 b5 b4 # nibble b3 b2 b1 b0 # hexEncode s"
    by (simp add: hexEncode_def hexDigit_nibble)
qed (simp add: hexEncode_def)

subsection \<open>Stable identifiers\<close>

text \<open>
  \<^verbatim>\<open>canonicalParts\<close> prefixes every component by its length, so that component
  boundaries can be read back; \<^verbatim>\<open>stableID\<close> encodes the result in hexadecimal under a
  readable prefix. Both are repeated in the packages \<^verbatim>\<open>conditions\<close>, \<^verbatim>\<open>alerts\<close> and
  \<^verbatim>\<open>notifications\<close>, with the same bodies.
\<close>

definition canonicalParts :: "string list \<Rightarrow> string" where
  "canonicalParts parts = concat (map (\<lambda>p. decimal (length p) @ '':'' @ p) parts)"

definition stableID :: "string \<Rightarrow> string \<Rightarrow> string" where
  "stableID prefix v = prefix @ ''_'' @ hexEncode v"

lemma append_sep_inject:
  assumes "xs @ c # us = ys @ c # vs" and "c \<notin> set xs" and "c \<notin> set ys"
  shows "xs = ys \<and> us = vs"
  using assms
proof (induction xs arbitrary: ys)
  case Nil
  then show ?case by (cases ys) auto
next
  case (Cons x xs)
  then show ?case by (cases ys) auto
qed

lemma colon_notin_decimal [simp]: "CHR '':'' \<notin> set (decimal n)"
  by (rule nondigit_notin_decimal) simp

lemma canonicalParts_inject [simp]: "canonicalParts ps = canonicalParts qs \<longleftrightarrow> ps = qs"
proof
  assume "canonicalParts ps = canonicalParts qs"
  then show "ps = qs"
  proof (induction ps arbitrary: qs)
    case Nil
    then show ?case by (cases qs) (simp_all add: canonicalParts_def)
  next
    case (Cons p ps)
    then obtain q qs' where qs: "qs = q # qs'"
      by (cases qs) (simp_all add: canonicalParts_def)
    from Cons.prems have eq: "decimal (length p) @ CHR '':'' # p @ canonicalParts ps =
        decimal (length q) @ CHR '':'' # q @ canonicalParts qs'"
      by (simp add: qs canonicalParts_def)
    then have "decimal (length p) = decimal (length q)"
      and "p @ canonicalParts ps = q @ canonicalParts qs'"
      using append_sep_inject [OF eq] by auto
    then have "p = q" and "canonicalParts ps = canonicalParts qs'" by simp_all
    with Cons.IH show ?case by (simp add: qs)
  qed
qed simp

lemma stableID_inject [simp]: "stableID p v = stableID p w \<longleftrightarrow> v = w"
  by (simp add: stableID_def)

lemma stableID_not_Nil [simp]: "stableID p v \<noteq> []" "[] \<noteq> stableID p v"
  by (simp_all add: stableID_def)

text \<open>
  The interface of an identifier scheme: the text determines what it names. A list of
  identifiers of distinct things has no repetition.
\<close>

locale id_scheme =
  fixes mk :: "'a \<Rightarrow> string"
  assumes mk_inject: "mk x = mk y \<Longrightarrow> x = y"
begin

lemma mk_eq_iff: "mk x = mk y \<longleftrightarrow> x = y"
  using mk_inject by auto

lemma distinct_ids: "distinct xs \<Longrightarrow> distinct (map mk xs)"
  by (auto simp: distinct_map inj_on_def dest: mk_inject)

lemma distinct_idsD: "distinct (map mk xs) \<Longrightarrow> distinct xs"
  by (simp add: distinct_map)

end

subsection \<open>Sorting by a comparison function\<close>

text \<open>
  \<^verbatim>\<open>sort.Slice(xs, less)\<close>, as insertion by \<^verbatim>\<open>lt\<close>. Every comparison of the program
  is the order of a key (the locale below), so the result is the key-sorted list, and it
  depends on the order of the input only where two elements have equal keys.
\<close>

fun insert_by :: "('a \<Rightarrow> 'a \<Rightarrow> bool) \<Rightarrow> 'a \<Rightarrow> 'a list \<Rightarrow> 'a list" where
  "insert_by lt x [] = [x]"
| "insert_by lt x (y # ys) = (if lt y x then y # insert_by lt x ys else x # y # ys)"

definition sort_by :: "('a \<Rightarrow> 'a \<Rightarrow> bool) \<Rightarrow> 'a list \<Rightarrow> 'a list" where
  "sort_by lt xs = foldr (insert_by lt) xs []"

locale key_order =
  fixes lt :: "'a \<Rightarrow> 'a \<Rightarrow> bool" and key :: "'a \<Rightarrow> 'k::linorder"
  assumes lt_iff: "lt x y \<longleftrightarrow> key x < key y"
begin

lemma insert_by_eq: "insert_by lt x ys = insort_key key x ys"
  by (induction ys) (auto simp: lt_iff)

lemma sort_by_eq: "sort_by lt xs = sort_key key xs"
  by (simp add: sort_by_def sort_key_def insert_by_eq [abs_def] fun_eq_iff insert_by_eq)

lemma set_sort_by: "set (sort_by lt xs) = set xs"
  by (simp add: sort_by_eq)

lemma mset_sort_by: "mset (sort_by lt xs) = mset xs"
  by (simp add: sort_by_eq)

lemma sorted_sort_by: "sorted (map key (sort_by lt xs))"
  by (simp add: sort_by_eq)

lemma distinct_sort_by: "distinct (sort_by lt xs) \<longleftrightarrow> distinct xs"
  by (simp add: sort_by_eq)

lemma filter_sort_by: "filter P (sort_by lt xs) = sort_by lt (filter P xs)"
  by (simp add: sort_by_eq filter_sort)

lemma sort_by_perm:
  assumes "mset xs = mset ys" and "inj_on key (set xs)"
  shows "sort_by lt xs = sort_by lt ys"
  unfolding sort_by_eq
proof (rule properties_for_sort_key)
  have same: "set xs = set ys" by (rule mset_eq_setD [OF assms(1)])
  show "mset (sort_key key ys) = mset xs" using assms(1) by simp
  show "filter (\<lambda>x. key k = key x) (sort_key key ys) = filter (\<lambda>x. key k = key x) xs"
    if "k \<in> set (sort_key key ys)" for k
  proof -
    have only_k: "filter (\<lambda>x. key k = key x) zs = replicate (count (mset zs) k) k"
      if "set zs = set xs" for zs
    proof -
      have "filter (\<lambda>x. key k = key x) zs = filter (\<lambda>x. k = x) zs"
        using that \<open>k \<in> set (sort_key key ys)\<close> assms(2) same
        by (intro filter_cong refl) (auto dest: inj_onD)
      also have "\<dots> = replicate (count (mset zs) k) k"
        by (induction zs) auto
      finally show ?thesis .
    qed
    show ?thesis
      using assms(1) same by (simp add: filter_sort only_k sort_key_id_if_sorted)
  qed
  show "sorted (map key (sort_key key ys))" by simp
qed

end

subsection \<open>Go maps that are iterated over: association lists\<close>

text \<open>
  Where the program ranges over a map, the map is an association list: \<open>map_of\<close> reads,
  \<open>AList.update\<close> stores, \<open>AList.delete\<close> deletes, and the order of the list stands for
  Go's unspecified iteration order.
\<close>

lemma map_of_update [simp]: "map_of (AList.update k v m) = (map_of m)(k \<mapsto> v)"
  by (rule update_conv')

lemma map_of_delete [simp]: "map_of (AList.delete k m) = (map_of m)(k := None)"
  by (rule delete_conv')

lemma distinct_keys_update [simp]:
  "distinct (map fst m) \<Longrightarrow> distinct (map fst (AList.update k v m))"
  by (rule distinct_update)

lemma distinct_keys_delete [simp]:
  "distinct (map fst m) \<Longrightarrow> distinct (map fst (AList.delete k m))"
  by (rule distinct_delete)

subsection \<open>Runs of a reducer\<close>

text \<open>
  A reducer takes a state and an input to a new state and the outputs it emits;
  \<open>run\<close> feeds it a list of inputs and collects the outputs in order.
\<close>

fun run :: "('s \<Rightarrow> 'e \<Rightarrow> 's \<times> 'o list) \<Rightarrow> 's \<Rightarrow> 'e list \<Rightarrow> 's \<times> 'o list" where
  "run step s [] = (s, [])"
| "run step s (e # es) =
     (let (s1, out1) = step s e; (s2, out2) = run step s1 es in (s2, out1 @ out2))"

lemma run_append:
  "run step s (xs @ ys) =
     (let (s1, out1) = run step s xs; (s2, out2) = run step s1 ys in (s2, out1 @ out2))"
  by (induction xs arbitrary: s) (auto simp: Let_def split: prod.splits)

locale invariant_machine =
  fixes step :: "'s \<Rightarrow> 'e \<Rightarrow> 's \<times> 'o list" and inv :: "'s \<Rightarrow> bool"
  assumes step_inv: "inv s \<Longrightarrow> inv (fst (step s e))"
begin

lemma run_inv: "inv s \<Longrightarrow> inv (fst (run step s es))"
proof (induction es arbitrary: s)
  case (Cons e es)
  from Cons.IH [OF step_inv [OF Cons.prems, of e]]
  show ?case by (simp add: Let_def case_prod_beta)
qed simp

end

text \<open>
  A reducer that journals its outputs: the journal of a state grows by exactly what a
  step emits. A clocked one never moves its clock back.
\<close>

locale journalled_machine = invariant_machine step inv
  for step :: "'s \<Rightarrow> 'e \<Rightarrow> 's \<times> 'o list" and inv :: "'s \<Rightarrow> bool" +
  fixes journal :: "'s \<Rightarrow> 'o list"
  assumes journal_step: "inv s \<Longrightarrow> journal (fst (step s e)) = journal s @ snd (step s e)"
begin

lemma journal_run: "inv s \<Longrightarrow> journal (fst (run step s es)) = journal s @ snd (run step s es)"
proof (induction es arbitrary: s)
  case (Cons e es)
  from Cons.IH [OF step_inv [OF Cons.prems, of e]] journal_step [OF Cons.prems, of e]
  show ?case by (simp add: Let_def case_prod_beta)
qed simp

end

locale clocked_machine = journalled_machine step inv journal
  for step :: "'s \<Rightarrow> 'e \<Rightarrow> 's \<times> 'o list" and inv :: "'s \<Rightarrow> bool" and journal :: "'s \<Rightarrow> 'o list" +
  fixes clock :: "'s \<Rightarrow> gotime"
  assumes clock_step: "inv s \<Longrightarrow> clock s \<le> clock (fst (step s e))"
begin

lemma clock_run: "inv s \<Longrightarrow> clock s \<le> clock (fst (run step s es))"
proof (induction es arbitrary: s)
  case (Cons e es)
  from Cons.IH [OF step_inv [OF Cons.prems, of e]] clock_step [OF Cons.prems, of e]
  show ?case by (simp add: Let_def case_prod_beta)
qed simp

end

subsection \<open>Lists sorted by a time\<close>

lemma takeWhile_sorted_filter:
  "sorted (map f xs) \<Longrightarrow> takeWhile (\<lambda>x. f x \<le> c) xs = filter (\<lambda>x. f x \<le> (c::'a::linorder)) xs"
  by (induction xs) (auto simp: empty_filter_conv not_le dest: less_le_trans)

lemma dropWhile_sorted_filter:
  "sorted (map f xs) \<Longrightarrow> dropWhile (\<lambda>x. f x \<le> c) xs = filter (\<lambda>x. f x > (c::'a::linorder)) xs"
  by (induction xs) (auto intro!: filter_True [symmetric])

subsection \<open>Distinctness group by group\<close>

lemma distinct_map_by_group:
  assumes "\<And>k. distinct (map f (filter (\<lambda>x. g x = k) xs))"
    and "\<And>x y. x \<in> set xs \<Longrightarrow> y \<in> set xs \<Longrightarrow> f x = f y \<Longrightarrow> g x = g y"
  shows "distinct (map f xs)"
  using assms
proof (induction xs)
  case (Cons a xs)
  have "distinct (map f (filter (\<lambda>x. g x = k) xs))" for k
    using Cons.prems(1) [of k] by (cases "g a = k") simp_all
  then have "distinct (map f xs)"
    by (rule Cons.IH) (use Cons.prems(2) in \<open>meson list.set_intros(2)\<close>)
  moreover have "f a \<notin> f ` set xs"
  proof
    assume "f a \<in> f ` set xs"
    then obtain x where x: "x \<in> set xs" "f x = f a" by auto
    have "g x = g a" by (rule Cons.prems(2)) (use x in simp_all)
    with x(1) have "f x \<in> set (map f (filter (\<lambda>x. g x = g a) xs))" by simp
    moreover have "f a \<notin> set (map f (filter (\<lambda>x. g x = g a) xs))"
      using Cons.prems(1) [of "g a"] by simp
    ultimately show False using x(2) by simp
  qed
  ultimately show ?case by simp
qed simp

end
