(* ===== verification/Conditions.thy ===== *)
theory Conditions
  imports Prelude
begin

text \<open>
  The condition reducer, \<^verbatim>\<open>internal/conditions/conditions.go\<close>: the data types, the
  reducer's state and every operation of the package, in the order of the source.
  A \<^verbatim>\<open>*trackerState\<close> is always the pointer stored in \<^verbatim>\<open>r.states[key]\<close>, so an
  operation takes the tracker as a value and stores it back under its key. The maps
  \<^verbatim>\<open>states\<close> and \<^verbatim>\<open>episodes\<close> are ranged over and are association lists.
\<close>

subsection \<open>Keys, results, directions\<close>

datatype subject_key = SubjectKey (Kind: string) (SubjID: string)

datatype condition_key = ConditionKey (RuleID: string) (Revision: int) (Subject: subject_key)

abbreviation SubjectQueue :: string where
  "SubjectQueue \<equiv> ''queue''"

abbreviation SubjectAgent :: string where
  "SubjectAgent \<equiv> ''agent''"

text \<open>
  \<^verbatim>\<open>Result\<close> and \<^verbatim>\<open>Direction\<close> are \<^verbatim>\<open>uint8\<close> with named constants. The last
  constructor holds the values no constant names, which the code rejects.
\<close>

datatype result = Unknown | RFalse | RTrue | InvalidResult nat

fun resultString :: "result \<Rightarrow> string" where
  "resultString RTrue = ''true''"
| "resultString RFalse = ''false''"
| "resultString _ = ''unknown''"

datatype direction = Trigger | Clear | InvalidDirection nat

definition directionString :: "direction \<Rightarrow> string" where
  "directionString d = (if d = Clear then ''clear'' else ''trigger'')"

text \<open>The number behind a direction: \<^verbatim>\<open>iota\<close> order.\<close>

fun directionCode :: "direction \<Rightarrow> nat" where
  "directionCode Trigger = 0"
| "directionCode Clear = 1"
| "directionCode (InvalidDirection n) = n + 2"

subsection \<open>Observations, transitions, episodes\<close>

record times =
  tmsEffectiveAt :: gotime
  tmsDueAt :: gotime
  tmsProcessingAt :: gotime
  tmsEvidenceAt :: gotime

record observation =
  obsKey :: condition_key
  obsDirection :: direction
  obsResult :: result
  obsEffectiveAt :: gotime
  obsProcessingAt :: gotime
  obsEvidenceAt :: gotime
  obsTrueSince :: gotime
  obsID :: string
  obsReason :: string

record transition =
  trID :: string
  trEpisodeID :: string
  trKey :: condition_key
  trDirection :: direction
  trAt :: gotime
  trTimes :: times
  trReason :: string
  trAttempt :: u64

record episode =
  epID :: string
  epKey :: condition_key
  epTrigger :: transition
  epClear :: "transition option"
  epOpenedAt :: gotime
  epClosedAt :: gotime

definition episodeOpen :: "episode \<Rightarrow> bool" where
  "episodeOpen e \<longleftrightarrow> epClear e = None"

subsection \<open>The reducer's state\<close>

record rule_config =
  cfgRuleID :: string
  cfgRevision :: int
  cfgTriggerDuration :: duration
  cfgClearDuration :: duration

datatype phase = PhInactive | PhTriggering | PhActive | PhClearing

record tracker =
  phase :: phase
  attempt :: u64
  startedAt :: gotime
  effectiveAt :: gotime
  evidenceAt :: gotime
  reason :: string
  episodeID :: string
  sequence :: u64

text \<open>\<^verbatim>\<open>&trackerState{}\<close>: every field at its zero value.\<close>

definition zeroTracker :: tracker where
  "zeroTracker = \<lparr>phase = PhInactive, attempt = 0, startedAt = 0, effectiveAt = 0,
     evidenceAt = 0, reason = [], episodeID = [], sequence = 0\<rparr>"

record reducer =
  config :: rule_config
  states :: "(condition_key \<times> tracker) list"
  seenOccurrences :: "string set"
  episodes :: "(string \<times> episode) list"
  transitions :: "transition list"
  logical :: gotime

datatype exported_phase = Inactive | PendingTrigger | Active | PendingClear

record tracker_snapshot =
  tsKey :: condition_key
  tsPhase :: exported_phase
  tsAttempt :: u64
  tsStartedAt :: gotime
  tsEffectiveAt :: gotime
  tsEvidenceAt :: gotime
  tsEpisodeID :: string

record timer =
  tmKey :: condition_key
  tmDirection :: direction
  tmDueAt :: gotime
  tmAttempt :: u64

text \<open>\<^verbatim>\<open>r.states[key]\<close> and \<^verbatim>\<open>r.episodes[id]\<close>.\<close>

definition trackerOf :: "reducer \<Rightarrow> condition_key \<rightharpoonup> tracker" where
  "trackerOf r = map_of (states r)"

definition episodeOf :: "reducer \<Rightarrow> string \<rightharpoonup> episode" where
  "episodeOf r = map_of (episodes r)"

fun exportPhase :: "phase \<Rightarrow> exported_phase" where
  "exportPhase PhTriggering = PendingTrigger"
| "exportPhase PhActive = Active"
| "exportPhase PhClearing = PendingClear"
| "exportPhase PhInactive = Inactive"

definition State :: "reducer \<Rightarrow> condition_key \<Rightarrow> tracker_snapshot option" where
  "State r key = (case trackerOf r key of None \<Rightarrow> None
     | Some s \<Rightarrow> Some \<lparr>tsKey = key, tsPhase = exportPhase (phase s), tsAttempt = attempt s,
         tsStartedAt = startedAt s, tsEffectiveAt = effectiveAt s, tsEvidenceAt = evidenceAt s,
         tsEpisodeID = episodeID s\<rparr>)"

text \<open>\<^verbatim>\<open>New\<close> panics on a negative duration: \<open>None\<close>.\<close>

definition New :: "rule_config \<Rightarrow> reducer option" where
  "New cfg = (if cfgTriggerDuration cfg < 0 \<or> cfgClearDuration cfg < 0 then None
     else Some \<lparr>config = cfg, states = [], seenOccurrences = {}, episodes = [],
       transitions = [], logical = 0\<rparr>)"

definition NewReducer :: "duration \<Rightarrow> duration \<Rightarrow> reducer option" where
  "NewReducer triggerDuration clearDuration =
     New \<lparr>cfgRuleID = [], cfgRevision = 0, cfgTriggerDuration = triggerDuration,
       cfgClearDuration = clearDuration\<rparr>"

subsection \<open>Committing a transition\<close>

definition phaseFor :: "direction \<Rightarrow> phase" where
  "phaseFor d = (if d = Clear then PhClearing else PhTriggering)"

definition directionFor :: "phase \<Rightarrow> direction" where
  "directionFor p = (if p = PhClearing then Clear else Trigger)"

definition keyParts :: "condition_key \<Rightarrow> string list" where
  "keyParts key = [RuleID key, formatInt (Revision key), Kind (Subject key), SubjID (Subject key)]"

definition transitionID :: "condition_key \<Rightarrow> direction \<Rightarrow> u64 \<Rightarrow> string" where
  "transitionID key dir n = stableID ''condition-transition''
     (canonicalParts (keyParts key @ [directionString dir, formatUint n]))"

definition conditionEpisodeID :: "condition_key \<Rightarrow> u64 \<Rightarrow> string" where
  "conditionEpisodeID key n = stableID ''condition-episode''
     (canonicalParts (keyParts key @ [formatUint n]))"

text \<open>The transition \<^verbatim>\<open>commit\<close> builds, and the tracker and the episodes it leaves.\<close>

definition commitTransition ::
  "condition_key \<Rightarrow> direction \<Rightarrow> tracker \<Rightarrow> gotime \<Rightarrow> gotime \<Rightarrow> gotime \<Rightarrow> observation \<Rightarrow> transition"
where
  "commitTransition key dir s commitAt due processing ob =
     \<lparr>trID = transitionID key dir (sequence s + 1),
      trEpisodeID = (if dir = Trigger then conditionEpisodeID key (sequence s + 1) else episodeID s),
      trKey = key, trDirection = dir, trAt = commitAt,
      trTimes = \<lparr>tmsEffectiveAt = (if isZero (obsEffectiveAt ob) then commitAt else obsEffectiveAt ob),
        tmsDueAt = due, tmsProcessingAt = processing,
        tmsEvidenceAt = (if isZero (obsEvidenceAt ob) then evidenceAt s else obsEvidenceAt ob)\<rparr>,
      trReason = obsReason ob, trAttempt = attempt s\<rparr>"

definition commit ::
  "reducer \<Rightarrow> condition_key \<Rightarrow> direction \<Rightarrow> tracker \<Rightarrow> gotime \<Rightarrow> gotime \<Rightarrow> gotime \<Rightarrow> observation
     \<Rightarrow> reducer \<times> transition list"
where
  "commit r key dir s commitAt due processing ob =
     (let s1 = s\<lparr>phase := (if dir = Clear then PhInactive else PhActive), sequence := sequence s + 1\<rparr>;
          t = commitTransition key dir s commitAt due processing ob;
          id' = trEpisodeID t;
          (s2, eps) =
            (if dir = Trigger then
               (s1\<lparr>episodeID := id'\<rparr>,
                AList.update id' \<lparr>epID = id', epKey = key, epTrigger = t, epClear = None,
                  epOpenedAt = commitAt, epClosedAt = 0\<rparr> (episodes r))
             else if id' \<noteq> [] then
               (s1\<lparr>episodeID := []\<rparr>,
                (case episodeOf r id' of None \<Rightarrow> episodes r
                 | Some ep \<Rightarrow> AList.update id' (ep\<lparr>epClear := Some t, epClosedAt := commitAt\<rparr>)
                     (episodes r)))
             else (s1, episodes r))
      in (r\<lparr>states := AList.update key s2 (states r), episodes := eps,
            transitions := transitions r @ [t]\<rparr>, [t]))"

definition start ::
  "reducer \<Rightarrow> condition_key \<Rightarrow> direction \<Rightarrow> tracker \<Rightarrow> duration \<Rightarrow> observation \<Rightarrow> gotime
     \<Rightarrow> reducer \<times> transition list"
where
  "start r key dir s d ob processing =
     (let onset = (if \<not> isZero (obsTrueSince ob) \<and> \<not> obsTrueSince ob > obsEffectiveAt ob
                   then obsTrueSince ob else obsEffectiveAt ob);
          begun = (if isZero onset then processing else onset);
          s1 = s\<lparr>startedAt := begun, phase := phaseFor dir, attempt := attempt s + 1\<rparr>;
          r1 = r\<lparr>states := AList.update key s1 (states r)\<rparr>;
          due = begun + d
      in if \<not> due > logical r then
           commit r1 key dir s1 (if due < logical r then logical r else due) due processing ob
         else (r1, []))"

subsection \<open>Timers\<close>

definition pending :: "tracker \<Rightarrow> bool" where
  "pending s \<longleftrightarrow> phase s = PhTriggering \<or> phase s = PhClearing"

definition durationFor :: "rule_config \<Rightarrow> direction \<Rightarrow> duration" where
  "durationFor cfg dir = (if dir = Clear then cfgClearDuration cfg else cfgTriggerDuration cfg)"

definition timerFor :: "rule_config \<Rightarrow> condition_key \<times> tracker \<Rightarrow> timer" where
  "timerFor cfg = (\<lambda>(k, s). \<lparr>tmKey = k, tmDirection = directionFor (phase s),
     tmDueAt = startedAt s + (if phase s = PhClearing then cfgClearDuration cfg else cfgTriggerDuration cfg),
     tmAttempt = attempt s\<rparr>)"

definition timerLess :: "timer \<Rightarrow> timer \<Rightarrow> bool" where
  "timerLess a b =
     (if tmDueAt a \<noteq> tmDueAt b then tmDueAt a < tmDueAt b
      else if RuleID (tmKey a) \<noteq> RuleID (tmKey b) then RuleID (tmKey a) < RuleID (tmKey b)
      else if Revision (tmKey a) \<noteq> Revision (tmKey b) then Revision (tmKey a) < Revision (tmKey b)
      else if Kind (Subject (tmKey a)) \<noteq> Kind (Subject (tmKey b))
        then Kind (Subject (tmKey a)) < Kind (Subject (tmKey b))
      else if SubjID (Subject (tmKey a)) \<noteq> SubjID (Subject (tmKey b))
        then SubjID (Subject (tmKey a)) < SubjID (Subject (tmKey b))
      else tmAttempt a < tmAttempt b)"

definition timers :: "reducer \<Rightarrow> timer list" where
  "timers r = sort_by timerLess
     (map (timerFor (config r)) (filter (\<lambda>(k, s). pending s) (states r)))"

text \<open>The observation a fired timer stands for.\<close>

definition timerObservation :: "timer \<Rightarrow> tracker \<Rightarrow> observation" where
  "timerObservation tm s = \<lparr>obsKey = tmKey tm, obsDirection = tmDirection tm, obsResult = RTrue,
     obsEffectiveAt = effectiveAt s, obsProcessingAt = 0, obsEvidenceAt = evidenceAt s,
     obsTrueSince = 0, obsID = [], obsReason = reason s\<rparr>"

definition timerMatches :: "timer \<Rightarrow> tracker \<Rightarrow> bool" where
  "timerMatches tm s \<longleftrightarrow> attempt s = tmAttempt tm \<and> phase s = phaseFor (tmDirection tm)"

text \<open>The inner loop of \<^verbatim>\<open>Advance\<close>: the first due timer that still matches its tracker.\<close>

fun chooseTimer :: "reducer \<Rightarrow> gotime \<Rightarrow> timer list \<Rightarrow> (timer \<times> tracker) option" where
  "chooseTimer r now [] = None"
| "chooseTimer r now (tm # tms) =
     (if tmDueAt tm > now then None
      else case trackerOf r (tmKey tm) of
        None \<Rightarrow> chooseTimer r now tms
      | Some s \<Rightarrow> if timerMatches tm s then Some (tm, s) else chooseTimer r now tms)"

subsection \<open>Termination of the timer loop\<close>

text \<open>
  Every round of the loop commits one pending tracker, so the number of pending trackers
  decreases.
\<close>

definition pendingCount :: "reducer \<Rightarrow> nat" where
  "pendingCount r = length (filter (\<lambda>(k, s). pending s) (states r))"

lemma chooseTimer_SomeD:
  "chooseTimer r now tms = Some (tm, s) \<Longrightarrow>
     tm \<in> set tms \<and> tmDueAt tm \<le> now \<and> trackerOf r (tmKey tm) = Some s \<and> timerMatches tm s"
  by (induction tms) (auto split: if_splits option.splits)

lemma phaseFor_pending: "timerMatches tm s \<Longrightarrow> pending s"
  by (auto simp: timerMatches_def pending_def phaseFor_def split: if_splits)

lemma length_filter_update_less:
  assumes "map_of m k = Some s" and "P (k, s)" and "\<not> P (k, s')"
  shows "length (filter P (AList.update k s' m)) < length (filter P m)"
  using assms(1)
proof (induction m)
  case (Cons a m)
  show ?case
  proof (cases "fst a = k")
    case True
    with Cons.prems have "a = (k, s)" by (cases a) auto
    with assms(2,3) show ?thesis by simp
  next
    case False
    with Cons show ?thesis by (cases a) auto
  qed
qed simp

lemma states_commit:
  "states (fst (commit r key dir s a due p ob)) =
     AList.update key
       (s\<lparr>phase := (if dir = Clear then PhInactive else PhActive), sequence := sequence s + 1,
          episodeID := (if dir = Trigger then conditionEpisodeID key (sequence s + 1) else [])\<rparr>)
       (states r)"
  by (cases s) (auto simp: commit_def commitTransition_def Let_def)

lemma pendingCount_commit:
  assumes "trackerOf r key = Some s" and "pending s"
  shows "pendingCount (fst (commit r key dir s a due p ob)) < pendingCount r"
  unfolding pendingCount_def states_commit
  by (rule length_filter_update_less)
    (use assms in \<open>auto simp: trackerOf_def pending_def\<close>)

subsection \<open>Advancing the clock\<close>

function advanceLoop :: "reducer \<Rightarrow> gotime \<Rightarrow> reducer \<times> transition list" where
  "advanceLoop r now =
     (case chooseTimer r now (timers r) of
        None \<Rightarrow> (r, [])
      | Some (tm, s) \<Rightarrow>
          (let (r1, ts) = commit r (tmKey tm) (tmDirection tm) s (tmDueAt tm) (tmDueAt tm) now
                            (timerObservation tm s);
               (r2, rest) = advanceLoop r1 now
           in (r2, ts @ rest)))"
  by pat_completeness auto
termination
proof (relation "measure (\<lambda>(r, now). pendingCount r)")
  fix r :: reducer and now :: gotime and x tm s y r1 ts
  assume c: "chooseTimer r now (timers r) = Some x" and x: "(tm, s) = x"
    and y: "y = commit r (tmKey tm) (tmDirection tm) s (tmDueAt tm) (tmDueAt tm) now
              (timerObservation tm s)"
    and r1: "(r1, ts) = y"
  have "r1 = fst y" using r1 by (metis fst_conv)
  with c x y show "((r1, now), (r, now)) \<in> measure (\<lambda>(r, now). pendingCount r)"
    by (auto dest: chooseTimer_SomeD phaseFor_pending intro: pendingCount_commit)
qed simp

declare advanceLoop.simps [simp del]

definition Advance :: "reducer \<Rightarrow> gotime \<Rightarrow> reducer \<times> transition list" where
  "Advance r now =
     (if isZero now then (r, [])
      else let now1 = (if now < logical r then logical r else now)
           in advanceLoop (r\<lparr>logical := now1\<rparr>) now1)"

definition Fire :: "reducer \<Rightarrow> timer \<Rightarrow> gotime \<Rightarrow> reducer \<times> transition list" where
  "Fire r tm now =
     (if isZero now then (r, [])
      else let r1 = (if now < logical r then r else r\<lparr>logical := now\<rparr>)
           in if tmDirection tm \<noteq> Trigger \<and> tmDirection tm \<noteq> Clear then (r1, [])
              else case trackerOf r1 (tmKey tm) of
                None \<Rightarrow> (r1, [])
              | Some s \<Rightarrow>
                  if tmDueAt tm > logical r1 \<or> \<not> timerMatches tm s then (r1, [])
                  else if tmDueAt tm \<noteq> startedAt s + durationFor (config r1) (tmDirection tm)
                    then (r1, [])
                  else commit r1 (tmKey tm) (tmDirection tm) s (tmDueAt tm) (tmDueAt tm) (logical r1)
                         (timerObservation tm s))"

subsection \<open>Applying an observation\<close>

text \<open>
  \<^verbatim>\<open>Apply\<close> in three parts: the guards, the recording of the evidence in the tracker
  after the clock has been advanced, and the phase change.
\<close>

definition validObservation :: "observation \<Rightarrow> bool" where
  "validObservation ob \<longleftrightarrow>
     (obsDirection ob = Trigger \<or> obsDirection ob = Clear) \<and>
     (obsResult ob = Unknown \<or> obsResult ob = RFalse \<or> obsResult ob = RTrue)"

definition recordEvidence :: "tracker \<Rightarrow> observation \<Rightarrow> tracker" where
  "recordEvidence s ob = s\<lparr>effectiveAt := obsEffectiveAt ob,
     evidenceAt := (if isZero (obsEvidenceAt ob) then obsEffectiveAt ob else obsEvidenceAt ob),
     reason := obsReason ob\<rparr>"

definition changePhase :: "reducer \<Rightarrow> tracker \<Rightarrow> observation \<Rightarrow> reducer \<times> transition list" where
  "changePhase r s ob =
     (let key = obsKey ob; processing = logical r in
      if obsDirection ob = Trigger then
        (if obsResult ob = RTrue \<and> phase s = PhInactive then
           start r key Trigger s (cfgTriggerDuration (config r)) ob processing
         else if obsResult ob \<noteq> RTrue \<and> phase s = PhTriggering then
           (r\<lparr>states := AList.update key (s\<lparr>phase := PhInactive, attempt := attempt s + 1\<rparr>) (states r)\<rparr>, [])
         else (r\<lparr>states := AList.update key s (states r)\<rparr>, []))
      else if obsResult ob = RTrue \<and> phase s = PhActive then
        start r key Clear s (cfgClearDuration (config r)) ob processing
      else if obsResult ob \<noteq> RTrue \<and> phase s = PhClearing then
        (r\<lparr>states := AList.update key (s\<lparr>phase := PhActive, attempt := attempt s + 1\<rparr>) (states r)\<rparr>, [])
      else (r\<lparr>states := AList.update key s (states r)\<rparr>, []))"

definition observe :: "reducer \<Rightarrow> observation \<Rightarrow> reducer \<times> transition list" where
  "observe r ob =
     (let s = (case trackerOf r (obsKey ob) of None \<Rightarrow> zeroTracker | Some s \<Rightarrow> s)
      in changePhase r (recordEvidence s ob) ob)"

definition Apply :: "reducer \<Rightarrow> observation \<Rightarrow> reducer \<times> transition list" where
  "Apply r ob =
     (if cfgRuleID (config r) \<noteq> [] \<and>
         (RuleID (obsKey ob) \<noteq> cfgRuleID (config r) \<or> Revision (obsKey ob) \<noteq> cfgRevision (config r))
      then (r, [])
      else if \<not> validObservation ob then (r, [])
      else let processing = (if isZero (obsProcessingAt ob) then obsEffectiveAt ob else obsProcessingAt ob)
      in if isZero processing then (r, [])
      else if obsID ob \<noteq> [] \<and> obsID ob \<in> seenOccurrences r then (r, [])
      else let r1 = (if obsID ob \<noteq> []
                     then r\<lparr>seenOccurrences := insert (obsID ob) (seenOccurrences r)\<rparr> else r);
               (r2, out) = Advance r1 processing;
               ob1 = (if isZero (obsEffectiveAt ob) then ob\<lparr>obsEffectiveAt := processing\<rparr> else ob);
               (r3, ts) = observe r2 ob1
           in (r3, out @ ts))"

subsection \<open>Reading the journal\<close>

definition Episodes :: "reducer \<Rightarrow> episode list" where
  "Episodes r = sort_by (\<lambda>a b. epID a < epID b) (map snd (episodes r))"

definition Transitions :: "reducer \<Rightarrow> transition list" where
  "Transitions r = transitions r"

definition Episode :: "reducer \<Rightarrow> string \<Rightarrow> episode option" where
  "Episode r i = episodeOf r i"

end
