(* ===== verification/Alerts.thy ===== *)
theory Alerts
  imports Conditions
begin

text \<open>
  The alert reducer, \<^verbatim>\<open>internal/alerts/alerts.go\<close>: the types, the state and every
  operation, in the order of the source. A \<^verbatim>\<open>*seriesState\<close> is always the pointer
  stored under its key, so an operation reads it as a value and stores it back; both maps
  of states are ranged over and are association lists, the set \<^verbatim>\<open>closed\<close> is a set.
\<close>

subsection \<open>Types\<close>

datatype series_key =
  SeriesKey (skRuleID: string) (skSubjectKind: string) (skSubjectID: string)

record contributor =
  coEpisodeID :: string
  coRevision :: int
  coOpenedAt :: gotime
  coEvidenceAt :: gotime

record alert_episode =
  aeID :: string
  aeSeries :: series_key
  aeRevision :: int
  aeOpened :: bool
  aeAt :: gotime
  aeEffectiveAt :: gotime
  aeEvidenceAt :: gotime

text \<open>\<^verbatim>\<open>TransitionKind\<close> is a \<^verbatim>\<open>uint8\<close>; the last constructor holds the values
  that no constant names, which the notification planner rejects.\<close>

datatype transition_kind = Open | Recovery | InvalidKind nat

definition kindString :: "transition_kind \<Rightarrow> string" where
  "kindString k = (if k = Recovery then ''recovery'' else ''open'')"

fun kindCode :: "transition_kind \<Rightarrow> nat" where
  "kindCode Open = 0"
| "kindCode Recovery = 1"
| "kindCode (InvalidKind n) = n + 2"

record alert_transition =
  atID :: string
  atSeries :: series_key
  atSeriesID :: string
  atGeneration :: u64
  atKind :: transition_kind
  atAt :: gotime
  atEffectiveAt :: gotime
  atEvidenceAt :: gotime
  atEpisodeID :: string
  atRevision :: int

record series =
  seKey :: series_key
  seID :: string
  seGeneration :: u64
  seOpen :: bool
  seContributors :: "contributor list"

record series_state =
  ssSeries :: series
  ssContributors :: "(string \<times> contributor) list"

record alert_reducer =
  seriesMap :: "(series_key \<times> series_state) list"
  closed :: "string set"
  alertJournal :: "alert_transition list"

definition NewAlerts :: alert_reducer where
  "NewAlerts = \<lparr>seriesMap = [], closed = {}, alertJournal = []\<rparr>"

subsection \<open>Operations\<close>

definition SeriesID :: "series_key \<Rightarrow> string" where
  "SeriesID k = stableID ''alert-series''
     (canonicalParts [skRuleID k, skSubjectKind k, skSubjectID k])"

definition newSeriesState :: "series_key \<Rightarrow> series_state" where
  "newSeriesState k = \<lparr>ssSeries = \<lparr>seKey = k, seID = SeriesID k, seGeneration = 0, seOpen = False,
     seContributors = []\<rparr>, ssContributors = []\<rparr>"

text \<open>\<^verbatim>\<open>get\<close> inserts the series it does not find.\<close>

definition getSeries :: "alert_reducer \<Rightarrow> series_key \<Rightarrow> alert_reducer \<times> series_state" where
  "getSeries r k = (case map_of (seriesMap r) k of Some s \<Rightarrow> (r, s)
     | None \<Rightarrow> (r\<lparr>seriesMap := AList.update k (newSeriesState k) (seriesMap r)\<rparr>, newSeriesState k))"

definition putSeries :: "alert_reducer \<Rightarrow> series_key \<Rightarrow> series_state \<Rightarrow> alert_reducer" where
  "putSeries r k s = r\<lparr>seriesMap := AList.update k s (seriesMap r)\<rparr>"

text \<open>\<^verbatim>\<open>fmt.Sprintf("%s|%d|%d", series ID, generation, kind)\<close>, encoded.\<close>

definition alertTransitionID :: "string \<Rightarrow> u64 \<Rightarrow> transition_kind \<Rightarrow> string" where
  "alertTransitionID sid gen kind = stableID ''alert-transition''
     (sid @ ''|'' @ formatUint gen @ ''|'' @ decimal (kindCode kind))"

definition openTransition :: "series \<Rightarrow> alert_episode \<Rightarrow> alert_transition" where
  "openTransition s e =
     (let eff0 = aeEffectiveAt e;
          eff1 = (if isZero eff0 then aeAt e else eff0);
          eff = (if isZero eff1 then aeEvidenceAt e else eff1)
      in \<lparr>atID = alertTransitionID (seID s) (seGeneration s) Open, atSeries = seKey s,
          atSeriesID = seID s, atGeneration = seGeneration s, atKind = Open, atAt = aeAt e,
          atEffectiveAt = eff, atEvidenceAt = aeEvidenceAt e, atEpisodeID = aeID e,
          atRevision = aeRevision e\<rparr>)"

definition ApplyStart :: "alert_reducer \<Rightarrow> alert_episode \<Rightarrow> alert_reducer \<times> alert_transition list" where
  "ApplyStart r e =
     (if aeID e = [] then (r, [])
      else if aeID e \<in> closed r then (r, [])
      else let (r1, s) = getSeries r (aeSeries e) in
        if map_of (ssContributors s) (aeID e) \<noteq> None then (r1, [])
        else let s1 = s\<lparr>ssContributors := AList.update (aeID e)
                   \<lparr>coEpisodeID = aeID e, coRevision = aeRevision e, coOpenedAt = aeAt e,
                    coEvidenceAt = aeEvidenceAt e\<rparr> (ssContributors s)\<rparr>
          in if seOpen (ssSeries s1) then (putSeries r1 (aeSeries e) s1, [])
          else let ser = (ssSeries s1)\<lparr>seOpen := True, seGeneration := seGeneration (ssSeries s1) + 1\<rparr>;
                   t = openTransition ser e;
                   r2 = putSeries r1 (aeSeries e) (s1\<lparr>ssSeries := ser\<rparr>)
               in (r2\<lparr>alertJournal := alertJournal r2 @ [t]\<rparr>, [t]))"

definition recoveryTransition ::
  "series \<Rightarrow> contributor \<Rightarrow> string \<Rightarrow> gotime \<Rightarrow> gotime \<Rightarrow> gotime \<Rightarrow> alert_transition"
where
  "recoveryTransition s c eid at eff ev =
     (let eff1 = (if isZero eff then at else eff);
          ev1 = (if isZero ev then coEvidenceAt c else ev)
      in \<lparr>atID = alertTransitionID (seID s) (seGeneration s) Recovery, atSeries = seKey s,
          atSeriesID = seID s, atGeneration = seGeneration s, atKind = Recovery, atAt = at,
          atEffectiveAt = (if isZero eff1 then at else eff1), atEvidenceAt = ev1, atEpisodeID = eid,
          atRevision = coRevision c\<rparr>)"

definition ApplyClear ::
  "alert_reducer \<Rightarrow> string \<Rightarrow> series_key \<Rightarrow> gotime \<Rightarrow> gotime \<Rightarrow> gotime
     \<Rightarrow> alert_reducer \<times> alert_transition list"
where
  "ApplyClear r eid key at eff ev =
     (if eid = [] then (r, [])
      else if eid \<in> closed r then (r, [])
      else let (r1, s) = getSeries r key in
        case map_of (ssContributors s) eid of
          None \<Rightarrow> (r1, [])
        | Some c \<Rightarrow>
            let s1 = s\<lparr>ssContributors := AList.delete eid (ssContributors s)\<rparr>;
                r2 = r1\<lparr>closed := insert eid (closed r1)\<rparr>
            in if length (ssContributors s1) > 0 \<or> \<not> seOpen (ssSeries s1)
               then (putSeries r2 key s1, [])
               else let ser = (ssSeries s1)\<lparr>seOpen := False\<rparr>;
                        t = recoveryTransition ser c eid at eff ev;
                        r3 = putSeries r2 key (s1\<lparr>ssSeries := ser\<rparr>)
                    in (r3\<lparr>alertJournal := alertJournal r3 @ [t]\<rparr>, [t]))"

definition seriesKeyOf :: "condition_key \<Rightarrow> series_key" where
  "seriesKeyOf k = SeriesKey (RuleID k) (Kind (Subject k)) (SubjID (Subject k))"

definition ApplyEpisode :: "alert_reducer \<Rightarrow> episode \<Rightarrow> alert_reducer \<times> alert_transition list" where
  "ApplyEpisode r e =
     (let key = seriesKeyOf (epKey e);
          (r1, out) = ApplyStart r \<lparr>aeID = epID e, aeSeries = key, aeRevision = Revision (epKey e),
             aeOpened = True, aeAt = trAt (epTrigger e),
             aeEffectiveAt = tmsEffectiveAt (trTimes (epTrigger e)),
             aeEvidenceAt = tmsEvidenceAt (trTimes (epTrigger e))\<rparr>
      in case epClear e of
           None \<Rightarrow> (r1, out)
         | Some c \<Rightarrow>
             let (r2, more) = ApplyClear r1 (epID e) key (trAt c) (tmsEffectiveAt (trTimes c))
                                (tmsEvidenceAt (trTimes c))
             in (r2, out @ more))"

subsection \<open>Reading\<close>

definition copySeries :: "series_state \<Rightarrow> series" where
  "copySeries s = (ssSeries s)\<lparr>seContributors :=
     sort_by (\<lambda>a b. coEpisodeID a < coEpisodeID b) (map snd (ssContributors s))\<rparr>"

definition Series :: "alert_reducer \<Rightarrow> series_key \<Rightarrow> series option" where
  "Series r k = map_option copySeries (map_of (seriesMap r) k)"

definition SeriesList :: "alert_reducer \<Rightarrow> series list" where
  "SeriesList r = sort_by (\<lambda>a b. seID a < seID b) (map (\<lambda>(k, s). copySeries s) (seriesMap r))"

definition AlertTransitions :: "alert_reducer \<Rightarrow> alert_transition list" where
  "AlertTransitions r = alertJournal r"

end
