(* ===== verification/AlertsInv.thy ===== *)
theory AlertsInv
  imports Alerts
begin

text \<open>
  Correctness of the alert reducer: what an operation does to the set of contributors of a
  series, the invariant that ties openness, generation and journal together, and the
  properties of runs of the reducer.
\<close>

subsection \<open>Observing a reducer\<close>

definition contributorOf :: "alert_reducer \<Rightarrow> series_key \<Rightarrow> string \<rightharpoonup> contributor" where
  "contributorOf r k = (case map_of (seriesMap r) k of None \<Rightarrow> Map.empty
     | Some s \<Rightarrow> map_of (ssContributors s))"

definition live :: "alert_reducer \<Rightarrow> series_key \<Rightarrow> string set" where
  "live r k = dom (contributorOf r k)"

definition isOpen :: "alert_reducer \<Rightarrow> series_key \<Rightarrow> bool" where
  "isOpen r k = (case map_of (seriesMap r) k of None \<Rightarrow> False | Some s \<Rightarrow> seOpen (ssSeries s))"

definition generationOf :: "alert_reducer \<Rightarrow> series_key \<Rightarrow> u64" where
  "generationOf r k = (case map_of (seriesMap r) k of None \<Rightarrow> 0
     | Some s \<Rightarrow> seGeneration (ssSeries s))"

definition seriesJournal :: "alert_reducer \<Rightarrow> series_key \<Rightarrow> alert_transition list" where
  "seriesJournal r k = filter (\<lambda>t. atSeries t = k) (alertJournal r)"

subsection \<open>The invariant\<close>

text \<open>The journal of a series: openings and recoveries alternate, generation by generation.\<close>

definition ledgerOk :: "alert_transition list \<Rightarrow> bool \<Rightarrow> u64 \<Rightarrow> bool" where
  "ledgerOk J opn gen \<longleftrightarrow> (opn \<longleftrightarrow> odd (length J)) \<and> gen = of_nat ((length J + 1) div 2) \<and>
     (\<forall>i < length J. atKind (J ! i) = (if even i then Open else Recovery) \<and>
        atGeneration (J ! i) = of_nat (i div 2 + 1))"

lemma ledger_Nil: "ledgerOk [] False 0"
  by (simp add: ledgerOk_def)

lemma ledger_opened:
  assumes "ledgerOk J False g" and "atKind t = Open" and "atGeneration t = g + 1"
  shows "ledgerOk (J @ [t]) True (g + 1)"
proof -
  obtain n where n: "length J = 2 * n" using assms(1) by (auto simp: ledgerOk_def elim: evenE)
  have "(2 * n + 1) div 2 = n" "(2 * n + 2) div 2 = n + 1" by simp_all
  with assms n show ?thesis
    by (auto simp: ledgerOk_def nth_append less_Suc_eq algebra_simps)
qed

lemma ledger_closed:
  assumes "ledgerOk J True g" and "atKind t = Recovery" and "atGeneration t = g"
  shows "ledgerOk (J @ [t]) False g"
proof -
  obtain n where n: "length J = 2 * n + 1" using assms(1) by (auto simp: ledgerOk_def elim: oddE)
  have "(2 * n + 2) div 2 = n + 1" "(2 * n + 3) div 2 = n + 1" "(2 * n + 1) div 2 = n"
    "Suc (Suc (2 * n)) = 2 * (n + 1)" by simp_all
  with assms n show ?thesis
    by (auto simp: ledgerOk_def nth_append less_Suc_eq algebra_simps)
qed

definition seriesOk :: "series_key \<Rightarrow> series_state \<Rightarrow> bool" where
  "seriesOk k s \<longleftrightarrow> seKey (ssSeries s) = k \<and> seID (ssSeries s) = SeriesID k \<and>
     (seOpen (ssSeries s) \<longleftrightarrow> ssContributors s \<noteq> []) \<and> distinct (map fst (ssContributors s)) \<and>
     (\<forall>i c. map_of (ssContributors s) i = Some c \<longrightarrow> coEpisodeID c = i \<and> i \<noteq> [])"

definition stampOk :: "alert_transition \<Rightarrow> bool" where
  "stampOk t \<longleftrightarrow> atSeriesID t = SeriesID (atSeries t) \<and>
     atID t = alertTransitionID (SeriesID (atSeries t)) (atGeneration t) (atKind t)"

definition alertInv :: "alert_reducer \<Rightarrow> bool" where
  "alertInv r \<longleftrightarrow> distinct (map fst (seriesMap r)) \<and>
     (\<forall>k s. map_of (seriesMap r) k = Some s \<longrightarrow> seriesOk k s) \<and>
     (\<forall>k. ledgerOk (seriesJournal r k) (isOpen r k) (generationOf r k)) \<and>
     (\<forall>t \<in> set (alertJournal r). stampOk t)"

subsection \<open>What one operation does\<close>

definition stateOf :: "alert_reducer \<Rightarrow> series_key \<Rightarrow> series_state" where
  "stateOf r k = (case map_of (seriesMap r) k of Some s \<Rightarrow> s | None \<Rightarrow> newSeriesState k)"

lemma getSeries_simps [simp]:
  "snd (getSeries r k) = stateOf r k"
  "closed (fst (getSeries r k)) = closed r"
  "alertJournal (fst (getSeries r k)) = alertJournal r"
  "seriesJournal (fst (getSeries r k)) = seriesJournal r"
  by (simp_all add: getSeries_def stateOf_def seriesJournal_def fun_eq_iff split: option.splits)

lemma update_twice [simp]: "AList.update k v (AList.update k w m) = AList.update k v m"
  by (induction m) auto

lemma getSeries_put [simp]:
  "putSeries (fst (getSeries r k)) k s = putSeries r k s"
  by (simp add: getSeries_def putSeries_def split: option.splits)

lemma newSeriesState_simps [simp]:
  "ssContributors (newSeriesState k) = []" "seOpen (ssSeries (newSeriesState k)) = False"
  "seGeneration (ssSeries (newSeriesState k)) = 0" "seKey (ssSeries (newSeriesState k)) = k"
  "seID (ssSeries (newSeriesState k)) = SeriesID k"
  by (simp_all add: newSeriesState_def)

lemma getSeries_observers [simp]:
  "contributorOf (fst (getSeries r k)) = contributorOf r" "live (fst (getSeries r k)) = live r"
  "isOpen (fst (getSeries r k)) = isOpen r" "generationOf (fst (getSeries r k)) = generationOf r"
  by (simp_all add: getSeries_def live_def contributorOf_def isOpen_def generationOf_def fun_eq_iff
      split: option.splits)

lemma putSeries_simps [simp]:
  "closed (putSeries r k s) = closed r" "alertJournal (putSeries r k s) = alertJournal r"
  "seriesJournal (putSeries r k s) = seriesJournal r"
  "map_of (seriesMap (putSeries r k s)) = (map_of (seriesMap r))(k \<mapsto> s)"
  by (simp_all add: putSeries_def seriesJournal_def fun_eq_iff)

lemma putSeries_observers [simp]:
  "live (putSeries r k s) k' = (if k' = k then dom (map_of (ssContributors s)) else live r k')"
  "isOpen (putSeries r k s) k' = (if k' = k then seOpen (ssSeries s) else isOpen r k')"
  "generationOf (putSeries r k s) k' = (if k' = k then seGeneration (ssSeries s) else generationOf r k')"
  by (simp_all add: live_def contributorOf_def isOpen_def generationOf_def)

lemma journal_simps [simp]:
  "live (r\<lparr>alertJournal := J\<rparr>) = live r" "isOpen (r\<lparr>alertJournal := J\<rparr>) = isOpen r"
  "generationOf (r\<lparr>alertJournal := J\<rparr>) = generationOf r"
  "live (r\<lparr>closed := C\<rparr>) = live r" "isOpen (r\<lparr>closed := C\<rparr>) = isOpen r"
  "generationOf (r\<lparr>closed := C\<rparr>) = generationOf r"
  "seriesJournal (r\<lparr>closed := C\<rparr>) = seriesJournal r"
  "seriesJournal (r\<lparr>alertJournal := J\<rparr>) k = filter (\<lambda>t. atSeries t = k) J"
  "putSeries (r\<lparr>closed := C\<rparr>) k s = (putSeries r k s)\<lparr>closed := C\<rparr>"
  by (simp_all add: fun_eq_iff live_def contributorOf_def isOpen_def generationOf_def
      seriesJournal_def putSeries_def)

lemma stateOf_observers:
  "contributorOf r k = map_of (ssContributors (stateOf r k))"
  "live r k = dom (map_of (ssContributors (stateOf r k)))"
  "isOpen r k = seOpen (ssSeries (stateOf r k))"
  "generationOf r k = seGeneration (ssSeries (stateOf r k))"
  by (simp_all add: live_def contributorOf_def isOpen_def generationOf_def stateOf_def
      split: option.splits)

lemma seriesOk_stateOf: "alertInv r \<Longrightarrow> seriesOk k (stateOf r k)"
  by (auto simp: alertInv_def stateOf_def seriesOk_def split: option.splits)

text \<open>An episode is taken as an opening contribution, or a clearing one, in these cases.\<close>

definition startsAt :: "alert_reducer \<Rightarrow> alert_episode \<Rightarrow> bool" where
  "startsAt r e \<longleftrightarrow> aeID e \<noteq> [] \<and> aeID e \<notin> closed r \<and> aeID e \<notin> live r (aeSeries e)"

definition clearsAt :: "alert_reducer \<Rightarrow> string \<Rightarrow> series_key \<Rightarrow> bool" where
  "clearsAt r i k \<longleftrightarrow> i \<noteq> [] \<and> i \<notin> closed r \<and> i \<in> live r k"

lemma ApplyStart_ignored:
  assumes "\<not> startsAt r e"
  shows "snd (ApplyStart r e) = [] \<and>
    (fst (ApplyStart r e) = r \<or> fst (ApplyStart r e) = fst (getSeries r (aeSeries e)))"
  using assms
  by (auto simp: ApplyStart_def startsAt_def Let_def case_prod_beta stateOf_observers domIff)

lemma ApplyClear_ignored:
  assumes "\<not> clearsAt r i k"
  shows "snd (ApplyClear r i k at eff ev) = [] \<and>
    (fst (ApplyClear r i k at eff ev) = r \<or> fst (ApplyClear r i k at eff ev) = fst (getSeries r k))"
  using assms
  by (auto simp: ApplyClear_def clearsAt_def Let_def case_prod_beta stateOf_observers domIff)


text \<open>Storing a series: without an entry in the journal, and with one.\<close>

lemma alertInv_put:
  assumes "alertInv r" and "seriesOk k s"
    and "seOpen (ssSeries s) = isOpen r k" and "seGeneration (ssSeries s) = generationOf r k"
  shows "alertInv (putSeries r k s)"
proof -
  have "distinct (map fst (seriesMap (putSeries r k s)))"
    using assms(1) by (simp add: alertInv_def putSeries_def)
  with assms show ?thesis
    by (simp add: alertInv_def)
qed

lemma alertInv_getSeries: "alertInv r \<Longrightarrow> alertInv (fst (getSeries r k))"
proof -
  assume r: "alertInv r"
  have "fst (getSeries r k) = r \<or> fst (getSeries r k) = putSeries r k (newSeriesState k) \<and>
      stateOf r k = newSeriesState k"
    by (simp add: getSeries_def putSeries_def stateOf_def split: option.splits)
  with r show ?thesis
    by (metis alertInv_put seriesOk_stateOf stateOf_observers(3,4))
qed

lemma alertInv_closed: "alertInv r \<Longrightarrow> alertInv (r\<lparr>closed := C\<rparr>)"
  by (simp add: alertInv_def)

lemma alertInv_put_journal:
  assumes inv: "alertInv r" and s: "seriesOk k s" and t: "stampOk t" "atSeries t = k"
    and l: "ledgerOk (seriesJournal r k @ [t]) (seOpen (ssSeries s)) (seGeneration (ssSeries s))"
  shows "alertInv ((putSeries r k s)\<lparr>alertJournal := alertJournal r @ [t]\<rparr>)"
proof -
  have "distinct (map fst (seriesMap (putSeries r k s)))"
    using inv by (simp add: alertInv_def putSeries_def)
  with assms show ?thesis
    by (simp add: alertInv_def) (metis seriesJournal_def)
qed

subsection \<open>The two operations\<close>

definition startedState :: "alert_reducer \<Rightarrow> alert_episode \<Rightarrow> series_state" where
  "startedState r e =
     (let s = stateOf r (aeSeries e);
          s1 = s\<lparr>ssContributors := AList.update (aeID e)
                 \<lparr>coEpisodeID = aeID e, coRevision = aeRevision e, coOpenedAt = aeAt e,
                  coEvidenceAt = aeEvidenceAt e\<rparr> (ssContributors s)\<rparr>
      in if seOpen (ssSeries s) then s1
         else s1\<lparr>ssSeries := (ssSeries s)\<lparr>seOpen := True, seGeneration := seGeneration (ssSeries s) + 1\<rparr>\<rparr>)"

lemma ApplyStart_started:
  assumes "startsAt r e"
  shows "ApplyStart r e =
    (let k = aeSeries e; r1 = putSeries r k (startedState r e);
         t = openTransition (ssSeries (startedState r e)) e
     in if isOpen r k then (r1, [])
        else (r1\<lparr>alertJournal := alertJournal r @ [t]\<rparr>, [t]))"
  using assms
  by (auto simp: ApplyStart_def startsAt_def startedState_def Let_def case_prod_beta
      stateOf_observers domIff)

lemma openTransition_simps [simp]:
  "atKind (openTransition s e) = Open" "atGeneration (openTransition s e) = seGeneration s"
  "atSeries (openTransition s e) = seKey s" "atSeriesID (openTransition s e) = seID s"
  "atID (openTransition s e) = alertTransitionID (seID s) (seGeneration s) Open"
  by (simp_all add: openTransition_def Let_def)

lemma recoveryTransition_simps [simp]:
  "atKind (recoveryTransition s c i at eff ev) = Recovery"
  "atGeneration (recoveryTransition s c i at eff ev) = seGeneration s"
  "atSeries (recoveryTransition s c i at eff ev) = seKey s"
  "atSeriesID (recoveryTransition s c i at eff ev) = seID s"
  "atID (recoveryTransition s c i at eff ev) = alertTransitionID (seID s) (seGeneration s) Recovery"
  by (simp_all add: recoveryTransition_def Let_def)

lemma startedState_simps [simp]:
  "map_of (ssContributors (startedState r e)) =
     (map_of (ssContributors (stateOf r (aeSeries e))))(aeID e \<mapsto>
       \<lparr>coEpisodeID = aeID e, coRevision = aeRevision e, coOpenedAt = aeAt e,
        coEvidenceAt = aeEvidenceAt e\<rparr>)"
  "seOpen (ssSeries (startedState r e))"
  "seGeneration (ssSeries (startedState r e)) =
     generationOf r (aeSeries e) + (if isOpen r (aeSeries e) then 0 else 1)"
  "seKey (ssSeries (startedState r e)) = seKey (ssSeries (stateOf r (aeSeries e)))"
  "seID (ssSeries (startedState r e)) = seID (ssSeries (stateOf r (aeSeries e)))"
  by (simp_all add: startedState_def Let_def stateOf_observers)

lemma startedState_ok:
  assumes "alertInv r" and "startsAt r e"
  shows "seriesOk (aeSeries e) (startedState r e)"
proof -
  have "seriesOk (aeSeries e) (stateOf r (aeSeries e))" by (rule seriesOk_stateOf [OF assms(1)])
  moreover have "ssContributors (startedState r e) \<noteq> []"
    "distinct (map fst (ssContributors (startedState r e)))"
    using calculation by (auto simp: startedState_def Let_def seriesOk_def)
  ultimately show ?thesis
    using assms(2) by (auto simp: seriesOk_def startsAt_def)
qed

lemma alertInv_ApplyStart:
  assumes inv: "alertInv r"
  shows "alertInv (fst (ApplyStart r e))"
proof (cases "startsAt r e")
  case True
  let ?k = "aeSeries e" and ?s = "startedState r e"
  have ok: "seriesOk ?k ?s" by (rule startedState_ok [OF inv True])
  show ?thesis
  proof (cases "isOpen r ?k")
    case True
    with ok show ?thesis
      by (simp add: ApplyStart_started [OF \<open>startsAt r e\<close>] alertInv_put [OF inv])
  next
    case False
    then have l: "ledgerOk (seriesJournal r ?k) False (generationOf r ?k)"
      using inv by (simp add: alertInv_def) metis
    have "alertInv ((putSeries r ?k ?s)\<lparr>alertJournal := alertJournal r @ [openTransition (ssSeries ?s) e]\<rparr>)"
    proof (rule alertInv_put_journal [OF inv ok])
      show "ledgerOk (seriesJournal r ?k @ [openTransition (ssSeries ?s) e]) (seOpen (ssSeries ?s))
          (seGeneration (ssSeries ?s))"
        using ledger_opened [OF l] False by simp
    qed (use ok in \<open>simp_all add: seriesOk_def stampOk_def\<close>)
    then show ?thesis
      using False by (simp add: ApplyStart_started [OF \<open>startsAt r e\<close>] Let_def)
  qed
next
  case False
  with ApplyStart_ignored [OF False] inv show ?thesis by (metis alertInv_getSeries)
qed

definition clearedState :: "alert_reducer \<Rightarrow> string \<Rightarrow> series_key \<Rightarrow> series_state" where
  "clearedState r i k =
     (let s = stateOf r k; s1 = s\<lparr>ssContributors := AList.delete i (ssContributors s)\<rparr>
      in if ssContributors s1 = [] then s1\<lparr>ssSeries := (ssSeries s)\<lparr>seOpen := False\<rparr>\<rparr> else s1)"

lemma ApplyClear_cleared:
  assumes inv: "alertInv r" and "clearsAt r i k"
  shows "\<exists>t. atKind t = Recovery \<and> atGeneration t = generationOf r k \<and> atSeries t = k \<and> stampOk t \<and>
    ApplyClear r i k at eff ev =
      (let r1 = (putSeries r k (clearedState r i k))\<lparr>closed := insert i (closed r)\<rparr>
       in if live r k = {i} then (r1\<lparr>alertJournal := alertJournal r @ [t]\<rparr>, [t]) else (r1, []))"
proof -
  let ?s = "stateOf r k"
  obtain c where c: "map_of (ssContributors ?s) i = Some c" and "i \<noteq> []" "i \<notin> closed r"
    using assms(2) by (auto simp: clearsAt_def stateOf_observers)
  have ok: "seriesOk k ?s" by (rule seriesOk_stateOf [OF inv])
  have opn: "seOpen (ssSeries ?s)" using ok c by (auto simp: seriesOk_def)
  have "live r k = {i} \<longleftrightarrow> dom (map_of (AList.delete i (ssContributors ?s))) = {}"
    using c by (auto simp: stateOf_observers)
  then have last: "live r k = {i} \<longleftrightarrow> AList.delete i (ssContributors ?s) = []"
    by (metis dom_empty list.exhaust map_of.simps(1) dom_eq_empty_conv map_of_eq_empty_iff)
  show ?thesis
    by (rule exI [of _ "recoveryTransition ((ssSeries ?s)\<lparr>seOpen := False\<rparr>) c i at eff ev"])
      (use c \<open>i \<noteq> []\<close> \<open>i \<notin> closed r\<close> ok opn in
       \<open>auto simp: ApplyClear_def Let_def case_prod_beta last clearedState_def seriesOk_def stampOk_def
          stateOf_observers(4) putSeries_def [of "fst (getSeries r k)"] putSeries_def [of r]\<close>)
qed


lemma clearedState_simps:
  assumes "alertInv r" and "clearsAt r i k"
  shows "seriesOk k (clearedState r i k)"
    and "map_of (ssContributors (clearedState r i k)) = (contributorOf r k)(i := None)"
    and "seOpen (ssSeries (clearedState r i k)) \<longleftrightarrow> live r k \<noteq> {i}"
    and "seGeneration (ssSeries (clearedState r i k)) = generationOf r k"
proof -
  have ok: "seriesOk k (stateOf r k)" by (rule seriesOk_stateOf [OF assms(1)])
  have i: "i \<in> live r k" using assms(2) by (simp add: clearsAt_def)
  then have c: "ssContributors (stateOf r k) \<noteq> []" by (auto simp: stateOf_observers)
  show m: "map_of (ssContributors (clearedState r i k)) = (contributorOf r k)(i := None)"
  proof -
    have "ssContributors (clearedState r i k) = AList.delete i (ssContributors (stateOf r k))"
      by (simp add: clearedState_def Let_def)
    then show ?thesis by (simp add: stateOf_observers(1))
  qed
  show "seGeneration (ssSeries (clearedState r i k)) = generationOf r k"
    by (simp add: clearedState_def Let_def stateOf_observers(4))
  have o: "seOpen (ssSeries (clearedState r i k)) \<longleftrightarrow> ssContributors (clearedState r i k) \<noteq> []"
    using ok c by (simp add: clearedState_def Let_def seriesOk_def)
  have "\<dots> \<longleftrightarrow> dom (map_of (ssContributors (clearedState r i k))) \<noteq> {}"
    by (simp add: dom_map_of_conv_image_fst)
  also have "\<dots> \<longleftrightarrow> live r k \<noteq> {i}"
    using i by (auto simp: m live_def)
  finally show "seOpen (ssSeries (clearedState r i k)) \<longleftrightarrow> live r k \<noteq> {i}"
    using o by simp
  have "seKey (ssSeries (clearedState r i k)) = k" "seID (ssSeries (clearedState r i k)) = SeriesID k"
    "distinct (map fst (ssContributors (clearedState r i k)))"
    using ok by (simp_all add: clearedState_def Let_def seriesOk_def)
  moreover have "\<forall>j c. map_of (ssContributors (clearedState r i k)) j = Some c \<longrightarrow> coEpisodeID c = j \<and> j \<noteq> []"
    using ok unfolding m by (simp add: stateOf_observers(1) seriesOk_def)
  ultimately show "seriesOk k (clearedState r i k)" using o by (simp add: seriesOk_def)
qed

lemma alertInv_isOpen: "alertInv r \<Longrightarrow> isOpen r k \<longleftrightarrow> live r k \<noteq> {}"
  using seriesOk_stateOf [of r k]
  by (simp add: stateOf_observers(2,3) seriesOk_def dom_map_of_conv_image_fst)

lemma alertInv_ApplyClear:
  assumes inv: "alertInv r"
  shows "alertInv (fst (ApplyClear r i k at eff ev))"
proof (cases "clearsAt r i k")
  case True
  let ?s = "clearedState r i k"
  note s = clearedState_simps [OF inv True]
  have o: "isOpen r k" using True by (auto simp: alertInv_isOpen [OF inv] clearsAt_def)
  then have l: "ledgerOk (seriesJournal r k) True (generationOf r k)"
    using inv by (simp add: alertInv_def) metis
  obtain t where t: "atKind t = Recovery" "atGeneration t = generationOf r k" "atSeries t = k" "stampOk t"
    and eq: "ApplyClear r i k at eff ev =
      (let r1 = (putSeries r k ?s)\<lparr>closed := insert i (closed r)\<rparr>
       in if live r k = {i} then (r1\<lparr>alertJournal := alertJournal r @ [t]\<rparr>, [t]) else (r1, []))"
    using ApplyClear_cleared [OF inv True] by blast
  show ?thesis
  proof (cases "live r k = {i}")
    case True
    have "alertInv ((putSeries r k ?s)\<lparr>alertJournal := alertJournal r @ [t]\<rparr>)"
      by (rule alertInv_put_journal [OF inv s(1) t(4,3)])
        (use ledger_closed [OF l t(1,2)] True s(3,4) in simp)
    from alertInv_closed [OF this, of "insert i (closed r)"] True show ?thesis
      by (simp add: eq Let_def alertInv_def flip: seriesJournal_def)
  next
    case False
    with o s show ?thesis
      by (simp add: eq Let_def alertInv_closed alertInv_put [OF inv])
  qed
next
  case False
  with ApplyClear_ignored [OF False, of at eff ev] inv show ?thesis by (metis alertInv_getSeries)
qed

lemma alertInv_ApplyEpisode: "alertInv r \<Longrightarrow> alertInv (fst (ApplyEpisode r e))"
  by (simp add: ApplyEpisode_def Let_def case_prod_beta alertInv_ApplyStart alertInv_ApplyClear
      split: option.split)

lemma alertInv_New: "alertInv NewAlerts"
  by (simp add: alertInv_def NewAlerts_def seriesJournal_def isOpen_def generationOf_def ledger_Nil)

subsection \<open>Contributors, closed episodes and outputs of one operation\<close>

lemma ApplyStart_ignored_frame:
  assumes "\<not> startsAt r e"
  shows "live (fst (ApplyStart r e)) = live r" "closed (fst (ApplyStart r e)) = closed r"
    "alertJournal (fst (ApplyStart r e)) = alertJournal r" "snd (ApplyStart r e) = []"
  using ApplyStart_ignored [OF assms] by (elim conjE disjE; simp)+

lemma ApplyClear_ignored_frame:
  assumes "\<not> clearsAt r i k"
  shows "live (fst (ApplyClear r i k at eff ev)) = live r"
    "closed (fst (ApplyClear r i k at eff ev)) = closed r"
    "alertJournal (fst (ApplyClear r i k at eff ev)) = alertJournal r"
    "snd (ApplyClear r i k at eff ev) = []"
  using ApplyClear_ignored [OF assms, of at eff ev] by (elim conjE disjE; simp)+

lemma live_ApplyStart:
  "live (fst (ApplyStart r e)) k =
     live r k \<union> (if k = aeSeries e \<and> startsAt r e then {aeID e} else {})"
  by (cases "startsAt r e")
    (simp_all add: ApplyStart_ignored_frame ApplyStart_started Let_def
      stateOf_observers(2) [of r "aeSeries e"])

lemma closed_ApplyStart [simp]: "closed (fst (ApplyStart r e)) = closed r"
  by (cases "startsAt r e") (simp_all add: ApplyStart_ignored_frame ApplyStart_started Let_def)

lemma live_clearedState:
  assumes "alertInv r" and "clearsAt r i k"
  shows "dom (map_of (ssContributors (clearedState r i k))) = live r k - {i}"
  unfolding clearedState_simps(2) [OF assms] by (auto simp: live_def)

lemma live_ApplyClear:
  assumes "alertInv r"
  shows "live (fst (ApplyClear r i k' at eff ev)) k =
    live r k - (if k = k' \<and> clearsAt r i k' then {i} else {})"
proof (cases "clearsAt r i k'")
  case True
  with ApplyClear_cleared [OF assms True, of at eff ev] live_clearedState [OF assms True]
  show ?thesis by (cases "live r k' = {i}") (force simp: Let_def)+
qed (simp add: ApplyClear_ignored_frame)

lemma closed_ApplyClear:
  assumes "alertInv r"
  shows "closed (fst (ApplyClear r i k at eff ev)) = closed r \<union> (if clearsAt r i k then {i} else {})"
proof (cases "clearsAt r i k")
  case True
  with ApplyClear_cleared [OF assms True, of at eff ev]
  show ?thesis by (cases "live r k = {i}") (force simp: Let_def)+
qed (simp add: ApplyClear_ignored_frame)

lemma ApplyStart_output:
  assumes "alertInv r"
  shows "map atKind (snd (ApplyStart r e)) =
      (if startsAt r e \<and> live r (aeSeries e) = {} then [Open] else []) \<and>
    (\<forall>t \<in> set (snd (ApplyStart r e)). atSeries t = aeSeries e) \<and>
    alertJournal (fst (ApplyStart r e)) = alertJournal r @ snd (ApplyStart r e)"
  using seriesOk_stateOf [OF assms, of "aeSeries e"]
  by (cases "startsAt r e")
    (simp_all add: ApplyStart_ignored_frame ApplyStart_started Let_def alertInv_isOpen [OF assms]
      seriesOk_def)

lemma ApplyClear_output:
  assumes "alertInv r"
  shows "map atKind (snd (ApplyClear r i k at eff ev)) =
      (if clearsAt r i k \<and> live r k = {i} then [Recovery] else []) \<and>
    (\<forall>t \<in> set (snd (ApplyClear r i k at eff ev)). atSeries t = k) \<and>
    alertJournal (fst (ApplyClear r i k at eff ev)) = alertJournal r @ snd (ApplyClear r i k at eff ev)"
proof (cases "clearsAt r i k")
  case True
  with ApplyClear_cleared [OF assms True, of at eff ev]
  show ?thesis by (cases "live r k = {i}") (force simp: Let_def)+
qed (simp add: ApplyClear_ignored_frame)

subsection \<open>Runs\<close>

datatype alert_input = InStart alert_episode | InClear string series_key gotime gotime gotime
  | InEpisode episode

fun alertStep :: "alert_reducer \<Rightarrow> alert_input \<Rightarrow> alert_reducer \<times> alert_transition list" where
  "alertStep r (InStart e) = ApplyStart r e"
| "alertStep r (InClear i k at eff ev) = ApplyClear r i k at eff ev"
| "alertStep r (InEpisode e) = ApplyEpisode r e"

lemma alertJournal_ApplyEpisode:
  "alertInv r \<Longrightarrow> alertJournal (fst (ApplyEpisode r e)) = alertJournal r @ snd (ApplyEpisode r e)"
  by (simp add: ApplyEpisode_def Let_def case_prod_beta ApplyStart_output ApplyClear_output
      alertInv_ApplyStart split: option.split)

interpretation alert_machine: journalled_machine alertStep alertInv AlertTransitions
proof unfold_locales
  show "alertInv (fst (alertStep r x))" if "alertInv r" for r x
    using that by (cases x) (simp_all add: alertInv_ApplyStart alertInv_ApplyClear alertInv_ApplyEpisode)
  show "AlertTransitions (fst (alertStep r x)) = AlertTransitions r @ snd (alertStep r x)"
    if "alertInv r" for r x
    using that by (cases x)
      (simp_all add: AlertTransitions_def ApplyStart_output ApplyClear_output alertJournal_ApplyEpisode)
qed

abbreviation alertsAfter :: "alert_input list \<Rightarrow> alert_reducer" where
  "alertsAfter es \<equiv> fst (run alertStep NewAlerts es)"

lemma alertsAfter_inv: "alertInv (alertsAfter es)"
  by (rule alert_machine.run_inv [OF alertInv_New])

lemma SeriesID_inject [simp]: "SeriesID k = SeriesID k' \<longleftrightarrow> k = k'"
  by (auto simp: SeriesID_def series_key.expand)

interpretation series_ids: id_scheme SeriesID
  by unfold_locales simp

lemma alertTransitionID_inject:
  assumes "CHR ''|'' \<notin> set s" and "CHR ''|'' \<notin> set s'"
  shows "alertTransitionID s g k = alertTransitionID s' g' k' \<longleftrightarrow>
    s = s' \<and> g = g' \<and> kindCode k = kindCode k'"
proof
  assume "alertTransitionID s g k = alertTransitionID s' g' k'"
  then have eq: "s @ CHR ''|'' # formatUint g @ CHR ''|'' # decimal (kindCode k) =
      s' @ CHR ''|'' # formatUint g' @ CHR ''|'' # decimal (kindCode k')"
    by (simp add: alertTransitionID_def)
  have bar: "CHR ''|'' \<notin> set (formatUint h)" for h
    unfolding formatUint_def by (rule nondigit_notin_decimal) simp
  from append_sep_inject [OF eq assms] have "s = s'"
    and eq2: "formatUint g @ CHR ''|'' # decimal (kindCode k) =
      formatUint g' @ CHR ''|'' # decimal (kindCode k')" by auto
  from append_sep_inject [OF eq2 bar bar] \<open>s = s'\<close>
  show "s = s' \<and> g = g' \<and> kindCode k = kindCode k'" by simp
qed (simp add: alertTransitionID_def)

lemma hexEncode_chars:
  assumes "c \<in> set (hexEncode s)"
  shows "48 \<le> (of_char c :: nat) \<and> (of_char c :: nat) \<le> 102"
proof -
  obtain d :: char where "c = hexDigit (of_char d div 16) \<or> c = hexDigit (of_char d mod 16)"
    using assms by (auto simp: hexEncode_def)
  moreover have "(of_char d :: nat) div 16 < 16" "(of_char d :: nat) mod 16 < 16"
    using of_char_less_256 [of d] by (simp_all add: less_mult_imp_div_less)
  ultimately show ?thesis by (auto simp: of_char_hexDigit split: if_splits)
qed

lemma bar_notin_SeriesID: "CHR ''|'' \<notin> set (SeriesID k)"
  using hexEncode_chars [of "CHR ''|''"] by (auto simp: SeriesID_def stableID_def)

lemma kindCode_inject [simp]: "kindCode k = kindCode k' \<longleftrightarrow> k = k'"
  by (cases k; cases k') auto

end
