(* ===== verification/ConditionsInv.thy ===== *)
theory ConditionsInv
  imports Conditions
begin

text \<open>
  Correctness of the condition reducer: what a commit changes, the invariant of every
  reachable reducer (episodes, sequence numbers, times), the functional specification of
  \<^verbatim>\<open>Advance\<close>, and the properties of the package.
\<close>

subsection \<open>The order of timers\<close>

definition timerKey :: "timer \<Rightarrow> gotime \<times> string \<times> int \<times> string \<times> string \<times> u64" where
  "timerKey tm = (tmDueAt tm, RuleID (tmKey tm), Revision (tmKey tm), Kind (Subject (tmKey tm)),
     SubjID (Subject (tmKey tm)), tmAttempt tm)"

interpretation timer_order: key_order timerLess timerKey
  by unfold_locales (auto simp: timerLess_def timerKey_def less_prod_def' split: if_splits)

lemma timerFor_simps [simp]:
  "tmKey (timerFor cfg x) = fst x"
  "tmDirection (timerFor cfg x) = directionFor (phase (snd x))"
  "tmAttempt (timerFor cfg x) = attempt (snd x)"
  by (auto simp: timerFor_def split: prod.splits)

lemma timerFor_inj_on:
  assumes "distinct (map fst m)"
  shows "inj_on timerKey (set (map (timerFor cfg) (filter P m)))"
proof (rule inj_onI)
  fix a b
  assume "a \<in> set (map (timerFor cfg) (filter P m))" "b \<in> set (map (timerFor cfg) (filter P m))"
    and eq: "timerKey a = timerKey b"
  then obtain x y where xy: "x \<in> set m" "y \<in> set m" "a = timerFor cfg x" "b = timerFor cfg y"
    by auto
  have "tmKey a = tmKey b"
    using eq by (simp add: timerKey_def condition_key.expand subject_key.expand)
  then have "fst x = fst y" using xy by simp
  with xy assms have "x = y" by (simp add: distinct_map inj_on_def)
  then show "a = b" using xy by simp
qed

subsection \<open>What the basic steps change\<close>

definition committed :: "condition_key \<Rightarrow> direction \<Rightarrow> tracker \<Rightarrow> tracker" where
  "committed key dir s = s\<lparr>phase := (if dir = Clear then PhInactive else PhActive),
     sequence := sequence s + 1,
     episodeID := (if dir = Trigger then conditionEpisodeID key (sequence s + 1) else [])\<rparr>"

lemma committed_simps [simp]:
  "phase (committed key dir s) = (if dir = Clear then PhInactive else PhActive)"
  "sequence (committed key dir s) = sequence s + 1"
  "episodeID (committed key dir s) =
     (if dir = Trigger then conditionEpisodeID key (sequence s + 1) else [])"
  "attempt (committed key dir s) = attempt s"
  "startedAt (committed key dir s) = startedAt s"
  by (simp_all add: committed_def)

lemma commit_frame [simp, frame]:
  "config (fst (commit r key dir s a due p ob)) = config r"
  "logical (fst (commit r key dir s a due p ob)) = logical r"
  "seenOccurrences (fst (commit r key dir s a due p ob)) = seenOccurrences r"
  by (simp_all add: commit_def Let_def case_prod_beta)

lemma states_commit': "states (fst (commit r key dir s a due p ob)) =
    AList.update key (committed key dir s) (states r)"
  by (simp add: states_commit committed_def)

lemma trackerOf_commit [simp]:
  "trackerOf (fst (commit r key dir s a due p ob)) = (trackerOf r)(key \<mapsto> committed key dir s)"
  by (simp add: trackerOf_def states_commit')

lemma transitions_commit [simp]:
  "transitions (fst (commit r key dir s a due p ob)) =
     transitions r @ [commitTransition key dir s a due p ob]"
  by (simp add: commit_def Let_def case_prod_beta)

lemma snd_commit [simp]:
  "snd (commit r key dir s a due p ob) = [commitTransition key dir s a due p ob]"
  by (simp add: commit_def Let_def case_prod_beta)

lemma commitTransition_simps [simp]:
  "trKey (commitTransition key dir s a due p ob) = key"
  "trDirection (commitTransition key dir s a due p ob) = dir"
  "trAt (commitTransition key dir s a due p ob) = a"
  "tmsDueAt (trTimes (commitTransition key dir s a due p ob)) = due"
  "tmsProcessingAt (trTimes (commitTransition key dir s a due p ob)) = p"
  "trAttempt (commitTransition key dir s a due p ob) = attempt s"
  "trID (commitTransition key dir s a due p ob) = transitionID key dir (sequence s + 1)"
  "trEpisodeID (commitTransition key dir s a due p ob) =
     (if dir = Trigger then conditionEpisodeID key (sequence s + 1) else episodeID s)"
  by (simp_all add: commitTransition_def)

lemma episodes_commit_Trigger:
  "episodes (fst (commit r key Trigger s a due p ob)) =
     AList.update (conditionEpisodeID key (sequence s + 1))
       \<lparr>epID = conditionEpisodeID key (sequence s + 1), epKey = key,
        epTrigger = commitTransition key Trigger s a due p ob, epClear = None,
        epOpenedAt = a, epClosedAt = 0\<rparr> (episodes r)"
  by (simp add: commit_def Let_def)

lemma episodes_commit_Clear:
  assumes "episodeID s \<noteq> []" and "episodeOf r (episodeID s) = Some ep"
  shows "episodes (fst (commit r key Clear s a due p ob)) =
    AList.update (episodeID s)
      (ep\<lparr>epClear := Some (commitTransition key Clear s a due p ob), epClosedAt := a\<rparr>) (episodes r)"
  using assms by (simp add: commit_def Let_def)

lemma conditionEpisodeID_inject [simp]:
  "conditionEpisodeID k m = conditionEpisodeID k' n \<longleftrightarrow> k = k' \<and> m = n"
  by (auto simp: conditionEpisodeID_def keyParts_def condition_key.expand subject_key.expand)

lemma conditionEpisodeID_not_Nil [simp]: "conditionEpisodeID k n \<noteq> []" "[] \<noteq> conditionEpisodeID k n"
  by (simp_all add: conditionEpisodeID_def)

lemma transitionID_inject:
  "transitionID k d m = transitionID k' d' n \<longleftrightarrow>
     k = k' \<and> directionString d = directionString d' \<and> m = n"
  by (auto simp: transitionID_def keyParts_def condition_key.expand subject_key.expand)

interpretation episode_ids: id_scheme "\<lambda>(k, n). conditionEpisodeID k n"
  by unfold_locales auto

subsection \<open>The lifecycle automaton\<close>

text \<open>
  The abstract view of one key's journal: an automaton whose state is the identifier of
  the open episode, if any. \<^verbatim>\<open>None\<close> as result means that the journal is not a
  sequence of a trigger that opens an episode and the clear that closes that episode.
\<close>

fun openAfter :: "string option \<Rightarrow> transition list \<Rightarrow> string option option" where
  "openAfter cur [] = Some cur"
| "openAfter cur (t # ts) =
     (case (trDirection t, cur) of
        (Trigger, None) \<Rightarrow> openAfter (Some (trEpisodeID t)) ts
      | (Clear, Some e) \<Rightarrow> if trEpisodeID t = e then openAfter None ts else None
      | _ \<Rightarrow> None)"

lemma openAfter_append:
  "openAfter cur (xs @ ys) = (case openAfter cur xs of None \<Rightarrow> None | Some c \<Rightarrow> openAfter c ys)"
proof (induction xs arbitrary: cur)
  case (Cons t xs)
  then show ?case by (cases "trDirection t"; cases cur) auto
qed simp

definition journalOf :: "reducer \<Rightarrow> condition_key \<Rightarrow> transition list" where
  "journalOf r k = filter (\<lambda>t. trKey t = k) (transitions r)"

definition engaged :: "tracker \<Rightarrow> bool" where
  "engaged s \<longleftrightarrow> phase s = PhActive \<or> phase s = PhClearing"

definition openEpisode :: "reducer \<Rightarrow> condition_key \<Rightarrow> string option" where
  "openEpisode r k = (case trackerOf r k of None \<Rightarrow> None
     | Some s \<Rightarrow> if engaged s then Some (episodeID s) else None)"

lemma journalOf_commit [simp]:
  "journalOf (fst (commit r key dir s a due p ob)) k =
     journalOf r k @ (if k = key then [commitTransition key dir s a due p ob] else [])"
  by (simp add: journalOf_def)

subsection \<open>The invariant\<close>

definition invKeys :: "reducer \<Rightarrow> bool" where
  "invKeys r \<longleftrightarrow> distinct (map fst (states r)) \<and> distinct (map fst (episodes r))"

definition invLifecycle :: "reducer \<Rightarrow> bool" where
  "invLifecycle r \<longleftrightarrow>
     (\<forall>k. openAfter None (journalOf r k) = Some (openEpisode r k)) \<and>
     (\<forall>k s. trackerOf r k = Some s \<longrightarrow> \<not> engaged s \<longrightarrow> episodeID s = [])"

definition invEpisodes :: "reducer \<Rightarrow> bool" where
  "invEpisodes r \<longleftrightarrow>
     (\<forall>i e. episodeOf r i = Some e \<longrightarrow>
        epID e = i \<and> (\<exists>n. i = conditionEpisodeID (epKey e) n) \<and>
        (epClear e = None \<longleftrightarrow> openEpisode r (epKey e) = Some i)) \<and>
     (\<forall>k i. openEpisode r k = Some i \<longrightarrow> (\<exists>e. episodeOf r i = Some e \<and> epKey e = k))"

definition sequenceOf :: "reducer \<Rightarrow> condition_key \<Rightarrow> u64" where
  "sequenceOf r k = (case trackerOf r k of None \<Rightarrow> 0 | Some s \<Rightarrow> sequence s)"

definition invSequence :: "reducer \<Rightarrow> bool" where
  "invSequence r \<longleftrightarrow>
     (\<forall>k. sequenceOf r k = of_nat (length (journalOf r k))) \<and>
     (\<forall>k i. i < length (journalOf r k) \<longrightarrow>
        trID (journalOf r k ! i) =
          transitionID k (trDirection (journalOf r k ! i)) (of_nat (Suc i)))"

definition invTimes :: "reducer \<Rightarrow> bool" where
  "invTimes r \<longleftrightarrow> (\<forall>t \<in> set (transitions r). tmsDueAt (trTimes t) \<le> trAt t \<and>
     trAt t \<le> tmsProcessingAt (trTimes t) \<and> tmsProcessingAt (trTimes t) \<le> logical r)"

definition condInv :: "reducer \<Rightarrow> bool" where
  "condInv r \<longleftrightarrow> invKeys r \<and> invLifecycle r \<and> invEpisodes r \<and> invSequence r \<and> invTimes r"

subsection \<open>Steps that keep the invariant\<close>

text \<open>Storing a tracker that agrees with the old one on what the invariant reads.\<close>

definition sameEpisode :: "reducer \<Rightarrow> condition_key \<Rightarrow> tracker \<Rightarrow> bool" where
  "sameEpisode r k s' \<longleftrightarrow>
     (let s = (case trackerOf r k of None \<Rightarrow> zeroTracker | Some s \<Rightarrow> s)
      in engaged s' = engaged s \<and> episodeID s' = episodeID s \<and> sequence s' = sequence s)"

definition store :: "reducer \<Rightarrow> condition_key \<Rightarrow> tracker \<Rightarrow> reducer" where
  "store r k s = r\<lparr>states := AList.update k s (states r)\<rparr>"

lemma store_simps [simp]:
  "config (store r k s) = config r" "logical (store r k s) = logical r"
  "seenOccurrences (store r k s) = seenOccurrences r" "episodes (store r k s) = episodes r"
  "transitions (store r k s) = transitions r"
  "trackerOf (store r k s) = (trackerOf r)(k \<mapsto> s)"
  "episodeOf (store r k s) = episodeOf r" "journalOf (store r k s) = journalOf r"
  by (simp_all add: store_def trackerOf_def episodeOf_def journalOf_def fun_eq_iff)

lemma openEpisode_store:
  "sameEpisode r k s \<Longrightarrow> openEpisode (store r k s) = openEpisode r"
  by (rule ext) (auto simp: openEpisode_def sameEpisode_def Let_def engaged_def zeroTracker_def
      split: option.splits)

lemma condInv_store:
  assumes "condInv r" and same: "sameEpisode r k s"
  shows "condInv (store r k s)"
proof -
  note open_eq = openEpisode_store [OF same]
  have "invKeys (store r k s)"
    using assms(1) by (simp add: condInv_def invKeys_def store_def)
  moreover have "invLifecycle (store r k s)"
    using assms unfolding condInv_def invLifecycle_def open_eq
    by (auto simp: sameEpisode_def Let_def zeroTracker_def split: option.splits)
  moreover have "invEpisodes (store r k s)"
    using assms(1) by (simp add: condInv_def invEpisodes_def open_eq)
  moreover have "sequenceOf (store r k s) = sequenceOf r"
    using same by (auto simp: sequenceOf_def sameEpisode_def Let_def zeroTracker_def fun_eq_iff
        split: option.splits)
  then have "invSequence (store r k s)"
    using assms(1) by (simp add: condInv_def invSequence_def)
  moreover have "invTimes (store r k s)"
    using assms(1) by (simp add: condInv_def invTimes_def)
  ultimately show ?thesis by (simp add: condInv_def)
qed

text \<open>Moving the clock forward, and remembering an occurrence.\<close>

lemma clock_simps [simp]:
  "trackerOf (r\<lparr>logical := now\<rparr>) = trackerOf r" "episodeOf (r\<lparr>logical := now\<rparr>) = episodeOf r"
  "journalOf (r\<lparr>logical := now\<rparr>) = journalOf r" "openEpisode (r\<lparr>logical := now\<rparr>) = openEpisode r"
  "sequenceOf (r\<lparr>logical := now\<rparr>) = sequenceOf r" "timers (r\<lparr>logical := now\<rparr>) = timers r"
  by (simp_all add: fun_eq_iff trackerOf_def episodeOf_def journalOf_def openEpisode_def
      sequenceOf_def timers_def)

lemma seen_simps [simp]:
  "trackerOf (r\<lparr>seenOccurrences := S\<rparr>) = trackerOf r"
  "episodeOf (r\<lparr>seenOccurrences := S\<rparr>) = episodeOf r"
  "journalOf (r\<lparr>seenOccurrences := S\<rparr>) = journalOf r"
  "openEpisode (r\<lparr>seenOccurrences := S\<rparr>) = openEpisode r"
  "sequenceOf (r\<lparr>seenOccurrences := S\<rparr>) = sequenceOf r"
  "timers (r\<lparr>seenOccurrences := S\<rparr>) = timers r"
  by (simp_all add: fun_eq_iff trackerOf_def episodeOf_def journalOf_def openEpisode_def
      sequenceOf_def timers_def)

lemma condInv_logical:
  "condInv r \<Longrightarrow> logical r \<le> now \<Longrightarrow> condInv (r\<lparr>logical := now\<rparr>)"
  unfolding condInv_def invKeys_def invLifecycle_def invEpisodes_def invSequence_def invTimes_def
  by simp force

lemma condInv_seen: "condInv r \<Longrightarrow> condInv (r\<lparr>seenOccurrences := S\<rparr>)"
  by (simp add: condInv_def invKeys_def invLifecycle_def invEpisodes_def invSequence_def
      invTimes_def)

text \<open>Committing a pending tracker.\<close>

lemma openEpisode_commit:
  "openEpisode (fst (commit r key dir s a due p ob)) k =
     (if k = key then (if dir = Clear then None
        else Some (if dir = Trigger then conditionEpisodeID key (sequence s + 1) else []))
      else openEpisode r k)"
  by (simp add: openEpisode_def engaged_def)

lemma invKeys_commit: "invKeys r \<Longrightarrow> invKeys (fst (commit r key dir s a due p ob))"
  by (auto simp: invKeys_def states_commit')
    (auto simp: commit_def Let_def case_prod_beta split: option.splits)

lemma invLifecycle_commit:
  assumes inv: "invLifecycle r" and s: "trackerOf r key = Some s"
    and d: "dir = Trigger \<and> phase s = PhTriggering \<or> dir = Clear \<and> phase s = PhClearing"
  shows "invLifecycle (fst (commit r key dir s a due p ob))"
proof -
  have "openAfter None (journalOf r key) = Some (openEpisode r key)"
    using inv by (simp add: invLifecycle_def)
  then have "openAfter None (journalOf r key @ [commitTransition key dir s a due p ob]) =
      Some (openEpisode (fst (commit r key dir s a due p ob)) key)"
    unfolding openEpisode_commit using d s
    by (auto simp: openAfter_append openEpisode_def engaged_def)
  then show ?thesis
    using inv d by (auto simp: invLifecycle_def openEpisode_commit engaged_def)
qed

lemma invSequence_commit:
  assumes inv: "invSequence r" and s: "trackerOf r key = Some s"
  shows "invSequence (fst (commit r key dir s a due p ob))"
proof -
  have seq: "sequence s = of_nat (length (journalOf r key))"
    using inv s unfolding invSequence_def by (auto simp: sequenceOf_def dest: spec [where x = key])
  have "trID (journalOf (fst (commit r key dir s a due p ob)) k ! i) =
      transitionID k (trDirection (journalOf (fst (commit r key dir s a due p ob)) k ! i)) (of_nat (Suc i))"
    if "i < length (journalOf (fst (commit r key dir s a due p ob)) k)" for k i
    using that inv seq unfolding invSequence_def
    by (cases "i < length (journalOf r k)")
      (auto simp: nth_append less_Suc_eq add.commute split: if_splits)
  moreover have "sequenceOf (fst (commit r key dir s a due p ob)) k =
      of_nat (length (journalOf (fst (commit r key dir s a due p ob)) k))" for k
    using inv seq unfolding invSequence_def by (auto simp: sequenceOf_def add.commute)
  ultimately show ?thesis by (simp add: invSequence_def)
qed

lemma invEpisodes_commit_Trigger:
  assumes inv: "invEpisodes r" and s: "trackerOf r key = Some s" and p: "phase s = PhTriggering"
  shows "invEpisodes (fst (commit r key Trigger s a due p' ob))"
proof -
  let ?i = "conditionEpisodeID key (sequence s + 1)"
  let ?r = "fst (commit r key Trigger s a due p' ob)"
  have none: "openEpisode r key = None"
    using s p by (simp add: openEpisode_def engaged_def)
  have eps: "episodeOf ?r = (episodeOf r)(?i \<mapsto>
      \<lparr>epID = ?i, epKey = key, epTrigger = commitTransition key Trigger s a due p' ob,
       epClear = None, epOpenedAt = a, epClosedAt = 0\<rparr>)"
    by (simp add: episodeOf_def episodes_commit_Trigger)
  have opens: "openEpisode ?r k = (if k = key then Some ?i else openEpisode r k)" for k
    by (simp add: openEpisode_commit)
  have A: "epID e = i \<and> (\<exists>n. i = conditionEpisodeID (epKey e) n) \<and>
      (epClear e = None \<longleftrightarrow> openEpisode ?r (epKey e) = Some i)"
    if e: "episodeOf ?r i = Some e" for i e
  proof (cases "i = ?i")
    case True
    with e show ?thesis by (auto simp: eps opens)
  next
    case False
    with e have old: "episodeOf r i = Some e" by (simp add: eps)
    with inv have "epID e = i \<and> (\<exists>n. i = conditionEpisodeID (epKey e) n) \<and>
      (epClear e = None \<longleftrightarrow> openEpisode r (epKey e) = Some i)"
      by (simp add: invEpisodes_def)
    with False none show ?thesis by (auto simp: opens)
  qed
  have B: "\<exists>e. episodeOf ?r i = Some e \<and> epKey e = k" if o: "openEpisode ?r k = Some i" for k i
  proof (cases "k = key")
    case True
    with o show ?thesis by (auto simp: eps opens)
  next
    case False
    with o have "openEpisode r k = Some i" by (simp add: opens)
    with inv obtain e where e: "episodeOf r i = Some e" "epKey e = k"
      unfolding invEpisodes_def by blast
    moreover from inv e(1) obtain n where "i = conditionEpisodeID (epKey e) n"
      unfolding invEpisodes_def by blast
    ultimately show ?thesis using False by (auto simp: eps)
  qed
  from A B show ?thesis unfolding invEpisodes_def by blast
qed

lemma invEpisodes_commit_Clear:
  assumes inv: "invEpisodes r" and s: "trackerOf r key = Some s" and p: "phase s = PhClearing"
  shows "invEpisodes (fst (commit r key Clear s a due p' ob))"
proof -
  let ?r = "fst (commit r key Clear s a due p' ob)"
  have cur: "openEpisode r key = Some (episodeID s)"
    using s p by (simp add: openEpisode_def engaged_def)
  with inv obtain ep where ep: "episodeOf r (episodeID s) = Some ep" "epKey ep = key"
    unfolding invEpisodes_def by blast
  with inv have epid: "epID ep = episodeID s" "\<exists>n. episodeID s = conditionEpisodeID key n"
    unfolding invEpisodes_def by blast+
  then have ne: "episodeID s \<noteq> []" by auto
  have eps: "episodeOf ?r = (episodeOf r)(episodeID s \<mapsto>
      ep\<lparr>epClear := Some (commitTransition key Clear s a due p' ob), epClosedAt := a\<rparr>)"
    by (simp add: episodeOf_def episodes_commit_Clear [OF ne ep(1)])
  have opens: "openEpisode ?r k = (if k = key then None else openEpisode r k)" for k
    by (simp add: openEpisode_commit)
  have A: "epID e = i \<and> (\<exists>n. i = conditionEpisodeID (epKey e) n) \<and>
      (epClear e = None \<longleftrightarrow> openEpisode ?r (epKey e) = Some i)"
    if e: "episodeOf ?r i = Some e" for i e
  proof (cases "i = episodeID s")
    case True
    with e epid ep(2) show ?thesis by (auto simp: eps opens)
  next
    case False
    with e have old: "episodeOf r i = Some e" by (simp add: eps)
    with inv have "epID e = i \<and> (\<exists>n. i = conditionEpisodeID (epKey e) n) \<and>
      (epClear e = None \<longleftrightarrow> openEpisode r (epKey e) = Some i)"
      by (simp add: invEpisodes_def)
    with False cur show ?thesis by (auto simp: opens)
  qed
  have B: "\<exists>e. episodeOf ?r i = Some e \<and> epKey e = k" if o: "openEpisode ?r k = Some i" for k i
  proof -
    from o have k: "k \<noteq> key" "openEpisode r k = Some i" by (auto simp: opens split: if_splits)
    with inv obtain e where "episodeOf r i = Some e" "epKey e = k"
      unfolding invEpisodes_def by blast
    with ep k(1) show ?thesis by (auto simp: eps)
  qed
  from A B show ?thesis unfolding invEpisodes_def by blast
qed

lemma condInv_commit:
  assumes inv: "condInv r" and s: "trackerOf r key = Some s"
    and m: "dir = Trigger \<and> phase s = PhTriggering \<or> dir = Clear \<and> phase s = PhClearing"
    and t: "due \<le> commitAt" "commitAt \<le> processing" "processing \<le> logical r"
  shows "condInv (fst (commit r key dir s commitAt due processing ob))"
proof -
  have "invEpisodes (fst (commit r key dir s commitAt due processing ob))"
    using m inv s by (auto simp: condInv_def invEpisodes_commit_Trigger invEpisodes_commit_Clear)
  moreover have "invTimes (fst (commit r key dir s commitAt due processing ob))"
    using inv t unfolding condInv_def invTimes_def by auto
  ultimately show ?thesis
    using inv by (simp add: condInv_def invKeys_commit invLifecycle_commit [OF _ s m]
        invSequence_commit [OF _ s])
qed

subsection \<open>The pending timers\<close>

lemma timerFor_matches: "pending s \<Longrightarrow> timerMatches (timerFor cfg (k, s)) s"
  by (auto simp: timerMatches_def pending_def phaseFor_def directionFor_def)

lemma timerFor_due:
  "pending s \<Longrightarrow> tmDueAt (timerFor cfg (k, s)) = startedAt s + durationFor cfg (directionFor (phase s))"
  by (auto simp: timerFor_def durationFor_def directionFor_def pending_def)

lemma set_timers:
  assumes "invKeys r"
  shows "tm \<in> set (timers r) \<longleftrightarrow>
    (\<exists>s. trackerOf r (tmKey tm) = Some s \<and> pending s \<and> tm = timerFor (config r) (tmKey tm, s))"
  using assms
  by (force simp: timers_def timer_order.set_sort_by invKeys_def trackerOf_def)

lemma distinct_timer_keys:
  assumes "invKeys r"
  shows "distinct (map tmKey (timers r))"
proof -
  have "mset (map tmKey (timers r)) = mset (map fst (filter (\<lambda>(k, s). pending s) (states r)))"
    by (simp add: timers_def timer_order.mset_sort_by image_mset.compositionality comp_def)
  then have "distinct (map tmKey (timers r)) \<longleftrightarrow>
      distinct (map fst (filter (\<lambda>(k, s). pending s) (states r)))"
    by (rule mset_eq_imp_distinct_iff)
  then show ?thesis using assms by (simp add: invKeys_def distinct_map_filter)
qed

lemma filter_update:
  "distinct (map fst m) \<Longrightarrow> \<not> P (k, v) \<Longrightarrow>
     filter P (AList.update k v m) = filter (\<lambda>x. P x \<and> fst x \<noteq> k) m"
proof (induction m)
  case (Cons a m)
  then show ?case by (cases a) (auto intro!: filter_cong)
qed simp

lemma not_pending_committed [simp]: "\<not> pending (committed k d s)"
  by (simp add: pending_def)

lemma timers_commit:
  assumes "invKeys r"
  shows "timers (fst (commit r k dir s a due p ob)) = filter (\<lambda>tm. tmKey tm \<noteq> k) (timers r)"
proof -
  have "filter (\<lambda>(k, s). pending s) (AList.update k (committed k dir s) (states r)) =
      filter (\<lambda>x. (case x of (k, s) \<Rightarrow> pending s) \<and> fst x \<noteq> k) (states r)"
    using assms by (intro filter_update) (simp_all add: invKeys_def)
  then show ?thesis
    by (simp add: timers_def states_commit' timer_order.filter_sort_by filter_map comp_def
        conj_commute flip: filter_filter)
qed

lemma later_timer_key:
  assumes "invKeys r" and "timers r = tm # tms" and "t \<in> set tms"
  shows "tmKey t \<noteq> tmKey tm"
  using distinct_timer_keys [OF assms(1)] assms(2,3) by (metis distinct.simps(2) image_eqI
      list.set_map list.simps(9))

lemma timers_commit_head:
  assumes inv: "invKeys r" and t: "timers r = tm # tms"
  shows "timers (fst (commit r (tmKey tm) dir s a due p ob)) = tms"
proof -
  have "filter (\<lambda>t. tmKey t \<noteq> tmKey tm) tms = tms"
    using later_timer_key [OF inv t] by (simp add: filter_id_conv)
  then show ?thesis by (simp add: timers_commit [OF inv] t)
qed

definition pendingTracker :: "reducer \<Rightarrow> timer \<Rightarrow> tracker" where
  "pendingTracker r tm = (case trackerOf r (tmKey tm) of Some s \<Rightarrow> s | None \<Rightarrow> zeroTracker)"

lemma timers_Cons:
  assumes "invKeys r" and "timers r = tm # tms"
  shows "trackerOf r (tmKey tm) = Some (pendingTracker r tm)"
    and "timerMatches tm (pendingTracker r tm)" and "pending (pendingTracker r tm)"
    and "tm = timerFor (config r) (tmKey tm, pendingTracker r tm)"
proof -
  have "tm \<in> set (timers r)" by (simp add: assms(2))
  then obtain s where s: "trackerOf r (tmKey tm) = Some s" "pending s"
      "tm = timerFor (config r) (tmKey tm, s)"
    using set_timers [OF assms(1)] by blast
  then have "pendingTracker r tm = s" by (simp add: pendingTracker_def)
  with s timerFor_matches show "trackerOf r (tmKey tm) = Some (pendingTracker r tm)"
    and "timerMatches tm (pendingTracker r tm)" and "pending (pendingTracker r tm)"
    and "tm = timerFor (config r) (tmKey tm, pendingTracker r tm)" by metis+
qed

lemma chooseTimer_timers:
  assumes "invKeys r"
  shows "chooseTimer r now (timers r) = (case timers r of [] \<Rightarrow> None
    | tm # tms \<Rightarrow> if tmDueAt tm > now then None else Some (tm, pendingTracker r tm))"
proof (cases "timers r")
  case (Cons tm tms)
  note t = timers_Cons [OF assms Cons]
  show ?thesis using t(1,2) by (simp add: Cons)
qed simp

text \<open>Unfolding the loop over the sorted timers.\<close>

definition fireDue :: "reducer \<Rightarrow> gotime \<Rightarrow> timer \<Rightarrow> reducer \<times> transition list" where
  "fireDue r now tm = commit r (tmKey tm) (tmDirection tm) (pendingTracker r tm) (tmDueAt tm)
     (tmDueAt tm) now (timerObservation tm (pendingTracker r tm))"

definition firedTransition :: "reducer \<Rightarrow> gotime \<Rightarrow> timer \<Rightarrow> transition" where
  "firedTransition r now tm = commitTransition (tmKey tm) (tmDirection tm) (pendingTracker r tm)
     (tmDueAt tm) (tmDueAt tm) now (timerObservation tm (pendingTracker r tm))"

lemma advanceLoop_Nil: "invKeys r \<Longrightarrow> timers r = [] \<Longrightarrow> advanceLoop r now = (r, [])"
  by (subst advanceLoop.simps) (simp add: chooseTimer_timers)

lemma advanceLoop_later:
  "invKeys r \<Longrightarrow> timers r = tm # tms \<Longrightarrow> tmDueAt tm > now \<Longrightarrow> advanceLoop r now = (r, [])"
  by (subst advanceLoop.simps) (simp add: chooseTimer_timers)

lemma advanceLoop_due:
  assumes "invKeys r" and "timers r = tm # tms" and "tmDueAt tm \<le> now"
  shows "advanceLoop r now =
    (fst (advanceLoop (fst (fireDue r now tm)) now),
     firedTransition r now tm # snd (advanceLoop (fst (fireDue r now tm)) now))"
proof -
  have c: "chooseTimer r now (timers r) = Some (tm, pendingTracker r tm)"
    using chooseTimer_timers [OF assms(1), of now] assms(2,3) by simp
  show ?thesis
    by (subst advanceLoop.simps)
      (simp add: c fireDue_def firedTransition_def case_prod_beta Let_def)
qed

lemma fireDue_frame [simp]:
  "config (fst (fireDue r now tm)) = config r" "logical (fst (fireDue r now tm)) = logical r"
  "seenOccurrences (fst (fireDue r now tm)) = seenOccurrences r"
  "trackerOf (fst (fireDue r now tm)) =
     (trackerOf r)(tmKey tm \<mapsto> committed (tmKey tm) (tmDirection tm) (pendingTracker r tm))"
  "invKeys r \<Longrightarrow> invKeys (fst (fireDue r now tm))"
  by (simp_all add: fireDue_def invKeys_commit)

text \<open>Induction over the rounds of the loop.\<close>

lemma advance_induct [consumes 1, case_names stop fire]:
  assumes "invKeys r"
    and stop: "\<And>r. invKeys r \<Longrightarrow> takeWhile (\<lambda>tm. tmDueAt tm \<le> now) (timers r) = [] \<Longrightarrow>
      advanceLoop r now = (r, []) \<Longrightarrow> P r"
    and fire: "\<And>r tm tms. invKeys r \<Longrightarrow> timers r = tm # tms \<Longrightarrow> tmDueAt tm \<le> now \<Longrightarrow>
      timers (fst (fireDue r now tm)) = tms \<Longrightarrow>
      advanceLoop r now =
        (fst (advanceLoop (fst (fireDue r now tm)) now),
         firedTransition r now tm # snd (advanceLoop (fst (fireDue r now tm)) now)) \<Longrightarrow>
      P (fst (fireDue r now tm)) \<Longrightarrow> P r"
  shows "P r"
  using assms(1)
proof (induction "timers r" arbitrary: r)
  case Nil
  then show ?case by (intro stop) (simp_all add: advanceLoop_Nil flip: Nil.hyps)
next
  case (Cons tm tms)
  note t = Cons.hyps(2) [symmetric]
  show ?case
  proof (cases "tmDueAt tm \<le> now")
    case True
    have rest: "timers (fst (fireDue r now tm)) = tms"
      using timers_commit_head [OF Cons.prems t] by (simp add: fireDue_def)
    show ?thesis
      by (rule fire [OF Cons.prems t True rest advanceLoop_due [OF Cons.prems t True]])
        (rule Cons.hyps(1) [OF rest [symmetric]], simp add: Cons.prems)
  next
    case False
    with t Cons.prems show ?thesis by (intro stop) (simp_all add: advanceLoop_later)
  qed
qed

lemma advanceLoop_frame:
  assumes "invKeys r"
  shows "config (fst (advanceLoop r now)) = config r \<and>
    logical (fst (advanceLoop r now)) = logical r \<and>
    seenOccurrences (fst (advanceLoop r now)) = seenOccurrences r \<and>
    invKeys (fst (advanceLoop r now)) \<and>
    transitions (fst (advanceLoop r now)) = transitions r @ snd (advanceLoop r now)"
  using assms
  by (induction r rule: advance_induct [where now = now])
    (simp_all add: fireDue_def firedTransition_def)

definition dueTimers :: "reducer \<Rightarrow> gotime \<Rightarrow> timer list" where
  "dueTimers r now = takeWhile (\<lambda>tm. tmDueAt tm \<le> now) (timers r)"

lemma pendingTracker_fireDue:
  "tmKey t \<noteq> tmKey tm \<Longrightarrow> pendingTracker (fst (fireDue r now tm)) t = pendingTracker r t"
  by (simp add: pendingTracker_def)

lemma advanceLoop_timers:
  assumes "invKeys r"
  shows "timers (fst (advanceLoop r now)) = dropWhile (\<lambda>tm. tmDueAt tm \<le> now) (timers r)"
  using assms
proof (induction r rule: advance_induct [where now = now])
  case (stop r)
  then show ?case by (cases "timers r") (auto split: if_splits)
qed simp

lemma advanceLoop_output:
  assumes "invKeys r"
  shows "snd (advanceLoop r now) = map (firedTransition r now) (dueTimers r now)"
  using assms
proof (induction r rule: advance_induct [where now = now])
  case (stop r)
  then show ?case by (simp add: dueTimers_def)
next
  case (fire r tm tms)
  have "firedTransition (fst (fireDue r now tm)) now t = firedTransition r now t"
    if "t \<in> set tms" for t
    using later_timer_key [OF fire(1,2) that]
    by (simp add: firedTransition_def pendingTracker_fireDue)
  with fire show ?case
    by (auto simp: dueTimers_def dest: set_takeWhileD)
qed

lemma advanceLoop_trackers:
  assumes "invKeys r"
  shows "trackerOf (fst (advanceLoop r now)) k =
    (case find (\<lambda>tm. tmKey tm = k) (dueTimers r now) of None \<Rightarrow> trackerOf r k
     | Some tm \<Rightarrow> Some (committed k (tmDirection tm) (pendingTracker r tm)))"
  using assms
proof (induction r rule: advance_induct [where now = now])
  case (stop r)
  then show ?case by (simp add: dueTimers_def)
next
  case (fire r tm tms)
  show ?case
  proof (cases "k = tmKey tm")
    case True
    have "find (\<lambda>t. tmKey t = k) (takeWhile (\<lambda>tm. tmDueAt tm \<le> now) tms) = None"
      using later_timer_key [OF fire(1,2)] True by (auto simp: find_None_iff dest: set_takeWhileD)
    with fire True show ?thesis by (simp add: dueTimers_def)
  next
    case False
    have "pendingTracker (fst (fireDue r now tm)) t = pendingTracker r t"
      if "find (\<lambda>t. tmKey t = k) (takeWhile (\<lambda>tm. tmDueAt tm \<le> now) tms) = Some t" for t
      using that False by (intro pendingTracker_fireDue) (auto simp: find_Some_iff)
    with fire False show ?thesis
      by (auto simp: dueTimers_def split: option.splits)
  qed
qed

lemma pending_direction:
  "pending s \<Longrightarrow> directionFor (phase s) = Trigger \<and> phase s = PhTriggering \<or>
     directionFor (phase s) = Clear \<and> phase s = PhClearing"
  by (auto simp: pending_def directionFor_def)

lemma timers_Cons_direction:
  assumes "invKeys r" and "timers r = tm # tms"
  shows "tmDirection tm = Trigger \<and> phase (pendingTracker r tm) = PhTriggering \<or>
    tmDirection tm = Clear \<and> phase (pendingTracker r tm) = PhClearing"
proof -
  have "tmDirection tm = directionFor (phase (pendingTracker r tm))"
    by (subst timers_Cons(4) [OF assms]) simp
  with pending_direction [OF timers_Cons(3) [OF assms]] show ?thesis by simp
qed

lemma condInv_advanceLoop:
  assumes "condInv r" and "now \<le> logical r"
  shows "condInv (fst (advanceLoop r now))"
proof -
  have "invKeys r" using assms(1) by (simp add: condInv_def)
  then show ?thesis using assms
  proof (induction r rule: advance_induct [where now = now])
    case (fire r tm tms)
    have "condInv (fst (fireDue r now tm))"
      unfolding fireDue_def using fire.prems
      by (intro condInv_commit timers_Cons(1) [OF fire(1,2)] timers_Cons_direction [OF fire(1,2)]
          fire(3) order_refl)
    with fire show ?case by simp
  qed simp
qed

subsection \<open>Every operation keeps the invariant\<close>

lemma condInv_Advance: "condInv r \<Longrightarrow> condInv (fst (Advance r now))"
  by (simp add: Advance_def Let_def condInv_advanceLoop condInv_logical)

lemma timerMatches_direction:
  "timerMatches tm s \<Longrightarrow> tmDirection tm = Trigger \<or> tmDirection tm = Clear \<Longrightarrow>
     tmDirection tm = Trigger \<and> phase s = PhTriggering \<or>
     tmDirection tm = Clear \<and> phase s = PhClearing"
  by (auto simp: timerMatches_def phaseFor_def)

lemma condInv_Fire:
  assumes "condInv r"
  shows "condInv (fst (Fire r tm now))"
proof -
  define r1 where "r1 = (if now < logical r then r else r\<lparr>logical := now\<rparr>)"
  have inv1: "condInv r1" using assms by (simp add: r1_def condInv_logical)
  have "condInv (fst (commit r1 (tmKey tm) (tmDirection tm) s (tmDueAt tm) (tmDueAt tm)
      (logical r1) (timerObservation tm s)))"
    if "trackerOf r1 (tmKey tm) = Some s" and "\<not> tmDueAt tm > logical r1" and "timerMatches tm s"
      and "tmDirection tm = Trigger \<or> tmDirection tm = Clear" for s
    using that by (intro condInv_commit inv1 timerMatches_direction) auto
  with assms inv1 show ?thesis
    unfolding Fire_def r1_def [symmetric] Let_def by (auto split: option.splits)
qed

lemma condInv_start:
  assumes inv: "condInv r" and s: "sameEpisode r key s"
    and d: "dir = Trigger \<and> \<not> engaged s \<or> dir = Clear \<and> engaged s"
  shows "condInv (fst (start r key dir s dur ob (logical r)))"
proof -
  define onset where "onset = (if \<not> isZero (obsTrueSince ob) \<and> \<not> obsTrueSince ob > obsEffectiveAt ob
    then obsTrueSince ob else obsEffectiveAt ob)"
  define begun where "begun = (if isZero onset then logical r else onset)"
  define s1 where "s1 = s\<lparr>startedAt := begun, phase := phaseFor dir, attempt := attempt s + 1\<rparr>"
  have "sameEpisode r key s1"
    using s d by (auto simp: sameEpisode_def Let_def s1_def engaged_def phaseFor_def)
  then have inv1: "condInv (store r key s1)" by (rule condInv_store [OF inv])
  have "condInv (fst (commit (store r key s1) key dir s1
      (if begun + dur < logical r then logical r else begun + dur) (begun + dur) (logical r) ob))"
    if "\<not> begun + dur > logical r"
    using that d by (intro condInv_commit inv1) (auto simp: s1_def phaseFor_def)
  with inv1 show ?thesis
    unfolding start_def Let_def onset_def [symmetric] begun_def [symmetric] s1_def [symmetric]
      store_def [symmetric] by simp
qed

lemma condInv_observe:
  assumes "condInv r"
  shows "condInv (fst (observe r ob))"
proof -
  define s where "s = recordEvidence (case trackerOf r (obsKey ob) of None \<Rightarrow> zeroTracker | Some s \<Rightarrow> s) ob"
  have same: "sameEpisode r (obsKey ob) s"
    by (simp add: s_def recordEvidence_def sameEpisode_def engaged_def)
  then have cancel: "sameEpisode r (obsKey ob) (s\<lparr>phase := PhInactive, attempt := n\<rparr>)"
    if "phase s = PhTriggering" for n
    using that by (auto simp: sameEpisode_def Let_def engaged_def)
  from same have resume: "sameEpisode r (obsKey ob) (s\<lparr>phase := PhActive, attempt := n\<rparr>)"
    if "phase s = PhClearing" for n
    using that by (auto simp: sameEpisode_def Let_def engaged_def)
  show ?thesis
    unfolding observe_def changePhase_def Let_def s_def [symmetric] store_def [symmetric]
    using same cancel resume
    by (auto intro!: condInv_start condInv_store assms simp: engaged_def)
qed

lemma condInv_Apply: "condInv r \<Longrightarrow> condInv (fst (Apply r ob))"
  by (auto simp: Apply_def Let_def case_prod_beta intro!: condInv_observe condInv_Advance condInv_seen)

lemma condInv_New: "New cfg = Some r \<Longrightarrow> condInv r"
  by (auto simp: New_def condInv_def invKeys_def invLifecycle_def invEpisodes_def invSequence_def
      invTimes_def openEpisode_def trackerOf_def episodeOf_def journalOf_def sequenceOf_def
      split: if_splits)

subsection \<open>Reachable reducers\<close>

inductive reachable :: "rule_config \<Rightarrow> reducer \<Rightarrow> bool" for cfg where
  new: "New cfg = Some r \<Longrightarrow> reachable cfg r"
| apply_obs: "reachable cfg r \<Longrightarrow> reachable cfg (fst (Apply r ob))"
| advance: "reachable cfg r \<Longrightarrow> reachable cfg (fst (Advance r now))"
| fire: "reachable cfg r \<Longrightarrow> reachable cfg (fst (Fire r tm now))"

lemma reachable_condInv: "reachable cfg r \<Longrightarrow> condInv r"
  by (induction rule: reachable.induct)
    (auto intro: condInv_New condInv_Apply condInv_Advance condInv_Fire)

end
