(* ===== verification/ConditionsProps.thy ===== *)
theory ConditionsProps
  imports ConditionsInv
begin

text \<open>
  The properties of the condition reducer, from the invariant and the specification of
  the timer loop in \<^verbatim>\<open>ConditionsInv\<close>, each with its witness where it has hypotheses.
\<close>

subsection \<open>The reducer as a machine\<close>

datatype cond_input = InApply observation | InAdvance gotime | InFire timer gotime

fun condStep :: "reducer \<Rightarrow> cond_input \<Rightarrow> reducer \<times> transition list" where
  "condStep r (InApply ob) = Apply r ob"
| "condStep r (InAdvance now) = Advance r now"
| "condStep r (InFire tm now) = Fire r tm now"

text \<open>What \<^verbatim>\<open>start\<close>, \<^verbatim>\<open>observe\<close> and the three entry points leave alone.\<close>

lemma start_frame [simp, frame]:
  "config (fst (start r key dir s d ob p)) = config r"
  "logical (fst (start r key dir s d ob p)) = logical r"
  "seenOccurrences (fst (start r key dir s d ob p)) = seenOccurrences r"
  "transitions (fst (start r key dir s d ob p)) = transitions r @ snd (start r key dir s d ob p)"
  by (simp_all add: start_def Let_def)

lemma changePhase_frame [simp, frame]:
  "config (fst (changePhase r s ob)) = config r"
  "logical (fst (changePhase r s ob)) = logical r"
  "seenOccurrences (fst (changePhase r s ob)) = seenOccurrences r"
  "transitions (fst (changePhase r s ob)) = transitions r @ snd (changePhase r s ob)"
  by (simp_all add: changePhase_def Let_def)

lemma observe_frame [simp, frame]:
  "config (fst (observe r ob)) = config r"
  "logical (fst (observe r ob)) = logical r"
  "seenOccurrences (fst (observe r ob)) = seenOccurrences r"
  "transitions (fst (observe r ob)) = transitions r @ snd (observe r ob)"
  by (simp_all add: observe_def)

lemma Advance_frame:
  assumes "invKeys r"
  shows "config (fst (Advance r now)) = config r"
    and "logical (fst (Advance r now)) = (if isZero now then logical r else max (logical r) now)"
    and "seenOccurrences (fst (Advance r now)) = seenOccurrences r"
    and "transitions (fst (Advance r now)) = transitions r @ snd (Advance r now)"
    and "invKeys (fst (Advance r now))"
proof -
  have "invKeys (r\<lparr>logical := n\<rparr>)" for n using assms by (simp add: invKeys_def)
  note f = advanceLoop_frame [OF this]
  show "config (fst (Advance r now)) = config r"
    and "logical (fst (Advance r now)) = (if isZero now then logical r else max (logical r) now)"
    and "seenOccurrences (fst (Advance r now)) = seenOccurrences r"
    and "transitions (fst (Advance r now)) = transitions r @ snd (Advance r now)"
    and "invKeys (fst (Advance r now))"
    using assms f by (auto simp: Advance_def Let_def)
qed

lemma Fire_frame:
  shows "config (fst (Fire r tm now)) = config r"
    and "logical (fst (Fire r tm now)) = (if isZero now then logical r else max (logical r) now)"
    and "seenOccurrences (fst (Fire r tm now)) = seenOccurrences r"
    and "transitions (fst (Fire r tm now)) = transitions r @ snd (Fire r tm now)"
  by (auto simp: Fire_def Let_def split: option.splits)

definition processingTime :: "observation \<Rightarrow> gotime" where
  "processingTime ob = (if isZero (obsProcessingAt ob) then obsEffectiveAt ob else obsProcessingAt ob)"

text \<open>The guards of \<^verbatim>\<open>Apply\<close> let an observation through.\<close>

definition accepts :: "reducer \<Rightarrow> observation \<Rightarrow> bool" where
  "accepts r ob \<longleftrightarrow>
     (cfgRuleID (config r) = [] \<or>
        RuleID (obsKey ob) = cfgRuleID (config r) \<and> Revision (obsKey ob) = cfgRevision (config r)) \<and>
     validObservation ob \<and> \<not> isZero (processingTime ob) \<and>
     (obsID ob = [] \<or> obsID ob \<notin> seenOccurrences r)"

definition remember :: "reducer \<Rightarrow> observation \<Rightarrow> reducer" where
  "remember r ob = (if obsID ob \<noteq> []
     then r\<lparr>seenOccurrences := insert (obsID ob) (seenOccurrences r)\<rparr> else r)"

definition withEffective :: "observation \<Rightarrow> observation" where
  "withEffective ob =
     (if isZero (obsEffectiveAt ob) then ob\<lparr>obsEffectiveAt := processingTime ob\<rparr> else ob)"

lemma Apply_rejected: "\<not> accepts r ob \<Longrightarrow> Apply r ob = (r, [])"
  by (auto simp: Apply_def accepts_def processingTime_def Let_def)

lemma Apply_accepted:
  assumes "accepts r ob"
  shows "Apply r ob =
    (fst (observe (fst (Advance (remember r ob) (processingTime ob))) (withEffective ob)),
     snd (Advance (remember r ob) (processingTime ob)) @
     snd (observe (fst (Advance (remember r ob) (processingTime ob))) (withEffective ob)))"
proof -
  have g: "\<not> (cfgRuleID (config r) \<noteq> [] \<and> (RuleID (obsKey ob) \<noteq> cfgRuleID (config r) \<or>
      Revision (obsKey ob) \<noteq> cfgRevision (config r)))" "validObservation ob"
    "\<not> isZero (processingTime ob)" "\<not> (obsID ob \<noteq> [] \<and> obsID ob \<in> seenOccurrences r)"
    using assms by (auto simp: accepts_def)
  show ?thesis
    unfolding Apply_def processingTime_def [symmetric] Let_def if_not_P [OF g(1)]
      if_not_P [OF g(3)] if_not_P [OF g(4)] remember_def [symmetric] withEffective_def [symmetric]
    using g(2) by (simp add: case_prod_beta)
qed

lemma remember_frame [simp]:
  "config (remember r ob) = config r" "logical (remember r ob) = logical r"
  "transitions (remember r ob) = transitions r" "states (remember r ob) = states r"
  "trackerOf (remember r ob) = trackerOf r" "timers (remember r ob) = timers r"
  "invKeys (remember r ob) = invKeys r"
  "seenOccurrences (remember r ob) =
     seenOccurrences r \<union> (if obsID ob = [] then {} else {obsID ob})"
  by (simp_all add: remember_def invKeys_def)

lemma withEffective_simps [simp]:
  "obsKey (withEffective ob) = obsKey ob" "obsDirection (withEffective ob) = obsDirection ob"
  "obsResult (withEffective ob) = obsResult ob" "obsTrueSince (withEffective ob) = obsTrueSince ob"
  "obsEffectiveAt (withEffective ob) =
     (if isZero (obsEffectiveAt ob) then processingTime ob else obsEffectiveAt ob)"
  by (simp_all add: withEffective_def)

lemma Apply_frame:
  assumes "invKeys r"
  shows "config (fst (Apply r ob)) = config r"
    and "logical (fst (Apply r ob)) =
      (if accepts r ob then max (logical r) (processingTime ob) else logical r)"
    and "seenOccurrences (fst (Apply r ob)) =
      seenOccurrences r \<union> (if accepts r ob \<and> obsID ob \<noteq> [] then {obsID ob} else {})"
    and "transitions (fst (Apply r ob)) = transitions r @ snd (Apply r ob)"
proof -
  have k: "invKeys (remember r ob)" using assms by simp
  have nz: "\<not> isZero (processingTime ob)" if "accepts r ob" using that by (simp add: accepts_def)
  show "config (fst (Apply r ob)) = config r"
    and "logical (fst (Apply r ob)) =
      (if accepts r ob then max (logical r) (processingTime ob) else logical r)"
    and "seenOccurrences (fst (Apply r ob)) =
      seenOccurrences r \<union> (if accepts r ob \<and> obsID ob \<noteq> [] then {obsID ob} else {})"
    and "transitions (fst (Apply r ob)) = transitions r @ snd (Apply r ob)"
    using nz by (cases "accepts r ob";
        simp add: Apply_rejected Apply_accepted Advance_frame [OF k])+
qed

interpretation cond_machine: clocked_machine condStep condInv transitions logical
proof
  fix r e assume inv: "condInv r"
  then have k: "invKeys r" by (simp add: condInv_def)
  show "condInv (fst (condStep r e))"
    using inv by (cases e) (simp_all add: condInv_Apply condInv_Advance condInv_Fire)
  show "transitions (fst (condStep r e)) = transitions r @ snd (condStep r e)"
    by (cases e) (simp_all add: Apply_frame [OF k] Advance_frame [OF k] Fire_frame)
  show "logical r \<le> logical (fst (condStep r e))"
    by (cases e) (simp_all add: Apply_frame [OF k] Advance_frame [OF k] Fire_frame)
qed

lemma reachable_step: "reachable cfg r \<Longrightarrow> reachable cfg (fst (condStep r e))"
  by (cases e) (auto intro: reachable.intros)

lemma reachable_run: "reachable cfg r \<Longrightarrow> reachable cfg (fst (run condStep r es))"
  by (induction es arbitrary: r) (simp_all add: Let_def case_prod_beta reachable_step)

lemma reachable_invKeys: "reachable cfg r \<Longrightarrow> invKeys r"
  using reachable_condInv by (auto simp: condInv_def)

subsection \<open>A concrete rule and its observations, for the witnesses\<close>

definition demoConfig :: rule_config where
  "demoConfig = \<lparr>cfgRuleID = ''r'', cfgRevision = 1, cfgTriggerDuration = 60, cfgClearDuration = 0\<rparr>"

definition demoKey :: condition_key where
  "demoKey = ConditionKey ''r'' 1 (SubjectKey ''agent'' ''a'')"

definition demoObservation :: "direction \<Rightarrow> result \<Rightarrow> gotime \<Rightarrow> string \<Rightarrow> observation" where
  "demoObservation d res t i = \<lparr>obsKey = demoKey, obsDirection = d, obsResult = res,
     obsEffectiveAt = t, obsProcessingAt = t, obsEvidenceAt = t, obsTrueSince = 0, obsID = i,
     obsReason = []\<rparr>"

definition demoReducer :: reducer where
  "demoReducer = \<lparr>config = demoConfig, states = [], seenOccurrences = {}, episodes = [],
     transitions = [], logical = 0\<rparr>"

text \<open>The demo reducer with a pending trigger since time 100, due at 160.\<close>

definition demoPending :: reducer where
  "demoPending = fst (Apply demoReducer (demoObservation Trigger RTrue 100 ''o1''))"

lemma demo_reachable: "reachable demoConfig demoReducer" "reachable demoConfig demoPending"
proof -
  show "reachable demoConfig demoReducer"
    by (rule reachable.new) (simp add: New_def demoReducer_def demoConfig_def)
  then show "reachable demoConfig demoPending"
    unfolding demoPending_def by (rule reachable.apply_obs)
qed

interpretation episode_order: key_order "\<lambda>a b. epID a < epID b" epID
  by unfold_locales simp

subsection \<open>One key of an advance\<close>

lemma sorted_timers: "sorted (map tmDueAt (timers r))"
proof -
  have "sorted (map timerKey (timers r))"
    by (simp add: timers_def timer_order.sorted_sort_by)
  then show ?thesis
    by (auto simp: sorted_wrt_map timerKey_def elim!: sorted_wrt_mono_rel [rotated])
qed

lemma Advance_spec:
  assumes "invKeys r" and "\<not> isZero now"
  shows "snd (Advance r now) =
      map (firedTransition r (max (logical r) now))
        (filter (\<lambda>tm. tmDueAt tm \<le> max (logical r) now) (timers r))"
    and "timers (fst (Advance r now)) = filter (\<lambda>tm. tmDueAt tm > max (logical r) now) (timers r)"
    and "trackerOf (fst (Advance r now)) k =
      (case find (\<lambda>tm. tmKey tm = k) (filter (\<lambda>tm. tmDueAt tm \<le> max (logical r) now) (timers r)) of
         None \<Rightarrow> trackerOf r k
       | Some tm \<Rightarrow> Some (committed k (tmDirection tm) (pendingTracker r tm)))"
proof -
  let ?c = "max (logical r) now"
  have A: "Advance r now = advanceLoop (r\<lparr>logical := ?c\<rparr>) ?c"
    using assms(2) by (auto simp: Advance_def Let_def max_def)
  have inv: "invKeys (r\<lparr>logical := ?c\<rparr>)" using assms(1) by (simp add: invKeys_def)
  have fired: "firedTransition (r\<lparr>logical := ?c\<rparr>) c = firedTransition r c" for c
    by (simp add: firedTransition_def pendingTracker_def fun_eq_iff)
  have tracker: "pendingTracker (r\<lparr>logical := ?c\<rparr>) = pendingTracker r"
    by (simp add: pendingTracker_def fun_eq_iff)
  have due: "dueTimers (r\<lparr>logical := ?c\<rparr>) ?c = filter (\<lambda>tm. tmDueAt tm \<le> ?c) (timers r)"
    by (simp add: dueTimers_def takeWhile_sorted_filter [OF sorted_timers])
  show "snd (Advance r now) = map (firedTransition r ?c) (filter (\<lambda>tm. tmDueAt tm \<le> ?c) (timers r))"
    by (simp only: A advanceLoop_output [OF inv] due fired)
  show "timers (fst (Advance r now)) = filter (\<lambda>tm. tmDueAt tm > ?c) (timers r)"
    by (simp add: A advanceLoop_timers [OF inv] dropWhile_sorted_filter [OF sorted_timers])
  show "trackerOf (fst (Advance r now)) k =
      (case find (\<lambda>tm. tmKey tm = k) (filter (\<lambda>tm. tmDueAt tm \<le> ?c) (timers r)) of
         None \<Rightarrow> trackerOf r k
       | Some tm \<Rightarrow> Some (committed k (tmDirection tm) (pendingTracker r tm)))"
    by (simp add: A advanceLoop_trackers [OF inv] due tracker split: option.splits)
qed

lemma filter_distinct_key:
  "distinct (map f xs) \<Longrightarrow> x \<in> set xs \<Longrightarrow> filter (\<lambda>y. f y = f x) xs = [x]"
proof (induction xs)
  case (Cons a xs)
  show ?case
  proof (cases "a = x")
    case True
    with Cons.prems(1) have "f y \<noteq> f x" if "y \<in> set xs" for y
      using that by (metis distinct.simps(2) image_eqI list.set_map list.simps(9))
    with True show ?thesis by (simp add: filter_empty_conv)
  next
    case False
    with Cons.prems have "x \<in> set xs" "f a \<noteq> f x" by auto
    with Cons show ?thesis by simp
  qed
qed simp

lemma timers_of_key:
  assumes "invKeys r"
  shows "filter (\<lambda>tm. tmKey tm = k) (timers r) =
    (case trackerOf r k of Some s \<Rightarrow> if pending s then [timerFor (config r) (k, s)] else [] | None \<Rightarrow> [])"
proof (cases "\<exists>s. trackerOf r k = Some s \<and> pending s")
  case True
  then obtain s where s: "trackerOf r k = Some s" "pending s" by blast
  have "timerFor (config r) (k, s) \<in> set (timers r)"
    using s by (simp add: set_timers [OF assms])
  from filter_distinct_key [OF distinct_timer_keys [OF assms] this] s
  show ?thesis by simp
next
  case False
  then have "filter (\<lambda>tm. tmKey tm = k) (timers r) = []"
    by (auto simp: filter_empty_conv set_timers [OF assms])
  with False show ?thesis by (auto split: option.splits)
qed

lemma Advance_of_key:
  assumes "invKeys r" and "\<not> isZero now"
  shows "filter (\<lambda>t. trKey t = k) (snd (Advance r now)) =
    (case trackerOf r k of None \<Rightarrow> []
     | Some s \<Rightarrow> if pending s \<and> tmDueAt (timerFor (config r) (k, s)) \<le> max (logical r) now
         then [firedTransition r (max (logical r) now) (timerFor (config r) (k, s))] else [])"
proof -
  have "filter (\<lambda>t. trKey t = k) (snd (Advance r now)) =
      map (firedTransition r (max (logical r) now))
        (filter (\<lambda>tm. tmDueAt tm \<le> max (logical r) now) (filter (\<lambda>tm. tmKey tm = k) (timers r)))"
    by (simp add: Advance_spec(1) [OF assms] filter_map comp_def firedTransition_def conj_commute)
  then show ?thesis by (simp add: timers_of_key [OF assms(1)] split: option.splits)
qed

lemma Advance_tracker_of_key:
  assumes "invKeys r" and "\<not> isZero now"
  shows "trackerOf (fst (Advance r now)) k =
    (case trackerOf r k of None \<Rightarrow> None
     | Some s \<Rightarrow> if pending s \<and> tmDueAt (timerFor (config r) (k, s)) \<le> max (logical r) now
         then Some (committed k (directionFor (phase s)) s) else Some s)"
proof -
  let ?c = "max (logical r) now"
  have f: "find P xs = (case filter P xs of [] \<Rightarrow> None | x # _ \<Rightarrow> Some x)" for P and xs :: "timer list"
    by (induction xs) auto
  have "filter (\<lambda>tm. tmKey tm = k) (filter (\<lambda>tm. tmDueAt tm \<le> ?c) (timers r)) =
      filter (\<lambda>tm. tmDueAt tm \<le> ?c) (filter (\<lambda>tm. tmKey tm = k) (timers r))"
    by (simp add: conj_commute)
  then show ?thesis
    unfolding Advance_spec(3) [OF assms] f
    by (simp add: timers_of_key [OF assms(1)] pendingTracker_def split: option.splits)
qed

subsection \<open>Properties: the timer loop\<close>

text \<open>C37. Advancing a reachable reducer to a nonzero time fires exactly the pending timers
  that are due at the new clock (the larger of the old clock and the given time), in the
  canonical order of timers, each transition dated at its own due time; every later timer
  stays pending, the clock is the larger time and the journal grows by what was emitted.\<close>

theorem advance_fires_due_timers:
  assumes "reachable cfg r" and "\<not> isZero now"
  shows "let clock = max (logical r) now; due = filter (\<lambda>tm. tmDueAt tm \<le> clock) (timers r);
             r' = fst (Advance r now); out = snd (Advance r now)
         in out = map (firedTransition r clock) due \<and> map trAt out = map tmDueAt due \<and>
            sorted (map timerKey due) \<and> timers r' = filter (\<lambda>tm. tmDueAt tm > clock) (timers r) \<and>
            logical r' = clock \<and> transitions r' = transitions r @ out"
proof -
  note k = reachable_invKeys [OF assms(1)]
  have "sorted (map timerKey (filter P (timers r)))" for P
    by (simp add: timers_def timer_order.filter_sort_by timer_order.sorted_sort_by)
  then show ?thesis
    using assms(2)
    by (simp add: Let_def Advance_spec [OF k assms(2)] Advance_frame [OF k] firedTransition_def
        comp_def)
qed

theorem advance_fires_due_timers_witness:
  "map trAt (snd (Advance demoPending 170)) = [160] \<and> logical (fst (Advance demoPending 170)) = 170"
proof -
  have t: "timers demoPending =
      [\<lparr>tmKey = demoKey, tmDirection = Trigger, tmDueAt = 160, tmAttempt = 1\<rparr>]" by code_simp
  have l: "logical demoPending = 100" by code_simp
  show ?thesis
    using advance_fires_due_timers [OF demo_reachable(2), of 170]
    by (simp add: t l Let_def isZero_def firedTransition_def)
qed

text \<open>A claimed callback does what the replay would do: firing a pending timer that is
  due at the new clock emits the same transition that \<^verbatim>\<open>Advance\<close> emits for it, and
  removes exactly that timer; firing a timer that is not due emits nothing and keeps all timers.\<close>

theorem fire_agrees_with_advance:
  assumes "reachable cfg r" and "\<not> isZero now" and "tm \<in> set (timers r)"
  shows "let clock = max (logical r) now; res = Fire r tm now in
    (if tmDueAt tm \<le> clock
     then snd res = [firedTransition r clock tm] \<and> snd res = filter (\<lambda>t. trKey t = tmKey tm) (snd (Advance r now)) \<and>
       timers (fst res) = filter (\<lambda>t. tmKey t \<noteq> tmKey tm) (timers r)
     else snd res = [] \<and> timers (fst res) = timers r)"
proof -
  note k = reachable_invKeys [OF assms(1)]
  obtain s where s: "trackerOf r (tmKey tm) = Some s" "pending s"
      "tm = timerFor (config r) (tmKey tm, s)"
    using assms(3) set_timers [OF k] by blast
  have m: "timerMatches tm s" by (subst s(3)) (rule timerFor_matches [OF s(2)])
  have d: "tmDirection tm = directionFor (phase s)" by (subst s(3)) simp
  then have d': "tmDirection tm = Trigger \<or> tmDirection tm = Clear"
    by (simp add: directionFor_def)
  have due: "tmDueAt tm = startedAt s + durationFor (config r) (tmDirection tm)"
    by (subst s(3)) (simp add: d timerFor_due [OF s(2)])
  have ks: "invKeys (r\<lparr>logical := n\<rparr>)" for n using k by (simp add: invKeys_def)
  have p: "pendingTracker r tm = s" by (simp add: pendingTracker_def s(1))
  show ?thesis
    using assms(2) d' m
    by (auto simp: Fire_def Let_def s(1) due max_def firedTransition_def p timers_commit k ks
        Advance_of_key [OF k assms(2)] s(2) s(3) [symmetric])
qed

theorem fire_agrees_with_advance_witness:
  "snd (Fire demoPending \<lparr>tmKey = demoKey, tmDirection = Trigger, tmDueAt = 160, tmAttempt = 1\<rparr> 170) \<noteq> []"
proof -
  have t: "timers demoPending =
      [\<lparr>tmKey = demoKey, tmDirection = Trigger, tmDueAt = 160, tmAttempt = 1\<rparr>]" by code_simp
  have l: "logical demoPending = 100" by code_simp
  show ?thesis
    using fire_agrees_with_advance [OF demo_reachable(2), of 170 "hd (timers demoPending)"]
    by (simp add: t l Let_def isZero_def)
qed

text \<open>The result of \<^verbatim>\<open>Timers\<close> does not depend on the order in which Go ranges over the
  map of trackers: any two lists of the same entries give the same timers.\<close>

theorem timers_independent_of_map_order:
  assumes "mset (states r1) = mset (states r2)" and "config r1 = config r2"
    and "distinct (map fst (states r1))"
  shows "timers r1 = timers r2"
  unfolding timers_def
proof (rule timer_order.sort_by_perm)
  show "mset (map (timerFor (config r1)) (filter (\<lambda>(k, s). pending s) (states r1))) =
      mset (map (timerFor (config r2)) (filter (\<lambda>(k, s). pending s) (states r2)))"
    using assms(1,2) by (simp add: mset_map mset_filter)
  show "inj_on timerKey (set (map (timerFor (config r1)) (filter (\<lambda>(k, s). pending s) (states r1))))"
    by (rule timerFor_inj_on [OF assms(3)])
qed

theorem timers_independent_of_map_order_witness:
  "timers (demoReducer\<lparr>states := [(demoKey, zeroTracker\<lparr>phase := PhTriggering\<rparr>),
      (ConditionKey ''q'' 1 (SubjectKey ''agent'' ''a''), zeroTracker\<lparr>phase := PhClearing\<rparr>)]\<rparr>) =
   timers (demoReducer\<lparr>states := [(ConditionKey ''q'' 1 (SubjectKey ''agent'' ''a''),
      zeroTracker\<lparr>phase := PhClearing\<rparr>), (demoKey, zeroTracker\<lparr>phase := PhTriggering\<rparr>)]\<rparr>)"
  by (rule timers_independent_of_map_order) (simp_all add: demoKey_def)

subsection \<open>Properties: episodes and identifiers\<close>

text \<open>C10. In every reachable reducer the journal of a key is a sequence of triggers and
  clears in which every clear closes the episode opened by the trigger before it, and the
  episode open at the end is the one its tracker holds (none, when the tracker is neither
  active nor clearing).\<close>

theorem journal_is_episode_sequence:
  assumes "reachable cfg r"
  shows "openAfter None (filter (\<lambda>t. trKey t = k) (Transitions r)) = Some (openEpisode r k)"
  using reachable_condInv [OF assms]
  by (simp add: condInv_def invLifecycle_def journalOf_def Transitions_def)

theorem journal_is_episode_sequence_witness:
  "openAfter None (filter (\<lambda>t. trKey t = demoKey) (Transitions (fst (Advance demoPending 170)))) =
     Some (Some (conditionEpisodeID demoKey 1))"
proof -
  have "openEpisode (fst (Advance demoPending 170)) demoKey = Some (conditionEpisodeID demoKey 1)"
    by code_simp
  then show ?thesis
    using journal_is_episode_sequence [OF reachable.advance [OF demo_reachable(2), where now = 170],
        where k = demoKey]
    by simp
qed

lemma distinct_epIDs:
  assumes "condInv r"
  shows "distinct (map epID (Episodes r))"
proof -
  have k: "distinct (map fst (episodes r))" and e: "invEpisodes r"
    using assms by (simp_all add: condInv_def invKeys_def)
  have "map epID (map snd (episodes r)) = map fst (episodes r)"
    using e k by (auto simp: invEpisodes_def episodeOf_def map_of_eq_Some_iff)
  then have "distinct (map epID (map snd (episodes r)))" using k by (simp only:)
  moreover have "mset (map epID (Episodes r)) = mset (map epID (map snd (episodes r)))"
    by (simp add: Episodes_def episode_order.mset_sort_by image_mset.compositionality)
  ultimately show ?thesis using mset_eq_imp_distinct_iff by blast
qed

text \<open>A condition key has an open episode exactly while its exported phase is
  \<^verbatim>\<open>Active\<close> or \<^verbatim>\<open>PendingClear\<close>, it is the only one, and the snapshot names it.\<close>

theorem one_open_episode_per_key:
  assumes "reachable cfg r"
  shows "map epID (filter (\<lambda>e. epKey e = k \<and> episodeOpen e) (Episodes r)) =
    (case State r k of None \<Rightarrow> []
     | Some sn \<Rightarrow> if tsPhase sn = Active \<or> tsPhase sn = PendingClear then [tsEpisodeID sn] else [])"
proof -
  note inv = reachable_condInv [OF assms]
  have ei: "invEpisodes r" using inv by (simp add: condInv_def)
  have dk: "distinct (map fst (episodes r))" using inv by (simp add: condInv_def invKeys_def)
  have mem: "e \<in> set (Episodes r) \<longleftrightarrow> episodeOf r (epID e) = Some e" for e
  proof -
    have "e \<in> set (Episodes r) \<longleftrightarrow> (\<exists>i. (i, e) \<in> set (episodes r))"
      by (force simp: Episodes_def episode_order.set_sort_by)
    also have "\<dots> \<longleftrightarrow> (\<exists>i. episodeOf r i = Some e)"
      using dk by (simp add: episodeOf_def)
    also have "\<dots> \<longleftrightarrow> episodeOf r (epID e) = Some e"
      using ei unfolding invEpisodes_def by blast
    finally show ?thesis .
  qed
  have st: "openEpisode r k = (case State r k of None \<Rightarrow> None
      | Some sn \<Rightarrow> if tsPhase sn = Active \<or> tsPhase sn = PendingClear then Some (tsEpisodeID sn) else None)"
    by (cases "trackerOf r k") (auto simp: openEpisode_def State_def engaged_def
        elim!: exportPhase.elims)
  have "map epID (filter (\<lambda>e. epKey e = k \<and> episodeOpen e) (Episodes r)) =
      (case openEpisode r k of None \<Rightarrow> [] | Some i \<Rightarrow> [i])"
  proof (cases "openEpisode r k")
    case None
    have "\<not> (epKey e = k \<and> episodeOpen e)" if "e \<in> set (Episodes r)" for e
    proof -
      have "episodeOf r (epID e) = Some e" using that by (simp only: mem)
      with ei have "epClear e = None \<longleftrightarrow> openEpisode r (epKey e) = Some (epID e)"
        unfolding invEpisodes_def by blast
      with None show ?thesis by (auto simp: episodeOpen_def)
    qed
    then have "filter (\<lambda>e. epKey e = k \<and> episodeOpen e) (Episodes r) = []"
      by (simp add: filter_empty_conv)
    with None show ?thesis by simp
  next
    case (Some i)
    with ei obtain e where e: "episodeOf r i = Some e" "epKey e = k" unfolding invEpisodes_def by blast
    with ei have i: "epID e = i" unfolding invEpisodes_def by blast
    have "filter (\<lambda>e. epKey e = k \<and> episodeOpen e) (Episodes r) = filter (\<lambda>x. epID x = epID e) (Episodes r)"
    proof (rule filter_cong [OF refl])
      fix x assume "x \<in> set (Episodes r)"
      then have x: "episodeOf r (epID x) = Some x" by (simp only: mem)
      with ei have iff: "epClear x = None \<longleftrightarrow> openEpisode r (epKey x) = Some (epID x)"
        unfolding invEpisodes_def by blast
      show "(epKey x = k \<and> episodeOpen x) = (epID x = epID e)"
      proof
        assume "epKey x = k \<and> episodeOpen x"
        with iff Some i show "epID x = epID e" by (simp add: episodeOpen_def)
      next
        assume "epID x = epID e"
        with x e(1) i have "x = e" by (metis option.inject)
        with iff e(2) i Some show "epKey x = k \<and> episodeOpen x" by (simp add: episodeOpen_def)
      qed
    qed
    also have "\<dots> = [e]"
      by (rule filter_distinct_key [OF distinct_epIDs [OF inv]]) (simp only: mem e(1) i)
    finally show ?thesis using Some i by simp
  qed
  then show ?thesis by (simp add: st split: option.splits)
qed

theorem one_open_episode_per_key_witness:
  "map epID (filter (\<lambda>e. epKey e = demoKey \<and> episodeOpen e) (Episodes (fst (Advance demoPending 170)))) =
     [conditionEpisodeID demoKey 1]"
proof -
  have "map_option tsPhase (State (fst (Advance demoPending 170)) demoKey) = Some Active"
    and "map_option tsEpisodeID (State (fst (Advance demoPending 170)) demoKey) =
      Some (conditionEpisodeID demoKey 1)" by code_simp+
  then show ?thesis
    using one_open_episode_per_key [OF reachable.advance [OF demo_reachable(2), where now = 170],
        where k = demoKey]
    by (auto split: option.splits)
qed

text \<open>Transition identifiers never collide: as long as a reachable reducer has journalled
  fewer than 2^64 transitions (the counters are 64 bits wide), all identifiers of its
  journal are different, across keys, directions and recurrences.\<close>

theorem transition_ids_distinct:
  assumes "reachable cfg r" and "length (Transitions r) < 2 ^ 64"
  shows "distinct (map trID (Transitions r))"
proof -
  have seq: "trID (journalOf r k ! i) = transitionID k (trDirection (journalOf r k ! i)) (of_nat (Suc i))"
    if "i < length (journalOf r k)" for k i
    using reachable_condInv [OF assms(1)] that by (simp add: condInv_def invSequence_def)
  have len: "length (journalOf r k) < 2 ^ 64" for k
    using assms(2) length_filter_le [of "\<lambda>t. trKey t = k" "transitions r"]
    unfolding journalOf_def Transitions_def by linarith
  have per_key: "distinct (map trID (filter (\<lambda>t. trKey t = k) (transitions r)))" for k
  proof -
    have "trID (journalOf r k ! i) \<noteq> trID (journalOf r k ! j)"
      if "i < length (journalOf r k)" "j < length (journalOf r k)" "i \<noteq> j" for i j
    proof -
      have "(of_nat i :: u64) \<noteq> of_nat j"
        using that len [of k] by (simp add: word_of_nat_eq_iff take_bit_nat_eq_self)
      then have "(of_nat (Suc i) :: u64) \<noteq> of_nat (Suc j)" by simp
      with that show ?thesis by (simp add: seq transitionID_inject del: of_nat_Suc)
    qed
    then show ?thesis
      unfolding journalOf_def [symmetric] by (simp add: distinct_conv_nth)
  qed
  have keys: "trKey s = trKey t"
    if "s \<in> set (transitions r)" "t \<in> set (transitions r)" "trID s = trID t" for s t
  proof -
    have "\<exists>d n. trID t = transitionID (trKey t) d n" if "t \<in> set (transitions r)" for t
    proof -
      have "t \<in> set (journalOf r (trKey t))" using that by (simp add: journalOf_def)
      then obtain i where "i < length (journalOf r (trKey t))" "journalOf r (trKey t) ! i = t"
        by (auto simp: in_set_conv_nth)
      with seq show ?thesis by metis
    qed
    with that show ?thesis by (metis transitionID_inject)
  qed
  show ?thesis
    unfolding Transitions_def using per_key keys by (rule distinct_map_by_group)
qed

theorem transition_ids_distinct_witness:
  "distinct (map trID (Transitions (fst (Apply demoPending (demoObservation Clear RTrue 200 ''o2''))))) \<and>
   length (Transitions (fst (Apply demoPending (demoObservation Clear RTrue 200 ''o2'')))) = 2"
proof -
  let ?r = "fst (Apply demoPending (demoObservation Clear RTrue 200 ''o2''))"
  have l: "length (Transitions ?r) = 2" by code_simp
  show ?thesis
    using transition_ids_distinct [OF reachable.apply_obs [OF demo_reachable(2),
          where ob = "demoObservation Clear RTrue 200 ''o2''"]]
    by (simp add: l)
qed

lemma seen_step:
  assumes "condInv r"
  shows "seenOccurrences r \<subseteq> seenOccurrences (fst (condStep r e)) \<and> config (fst (condStep r e)) = config r"
proof -
  have k: "invKeys r" using assms by (simp add: condInv_def)
  show ?thesis by (cases e) (auto simp: Apply_frame [OF k] Advance_frame [OF k] Fire_frame)
qed

lemma seen_run:
  assumes "condInv r"
  shows "seenOccurrences r \<subseteq> seenOccurrences (fst (run condStep r es)) \<and>
    config (fst (run condStep r es)) = config r"
  using assms
proof (induction es arbitrary: r)
  case (Cons e es)
  from Cons.IH [OF cond_machine.step_inv [OF Cons.prems, of e]] seen_step [OF Cons.prems, of e]
  show ?case by (simp add: Let_def case_prod_beta) blast
qed simp

text \<open>An application occurrence is applied once: after an observation that carries an
  identifier has been given to \<^verbatim>\<open>Apply\<close>, giving it again changes nothing and emits
  nothing, whatever observations, clock advances and timer callbacks came in between.\<close>

theorem occurrence_applied_once:
  assumes "reachable cfg r" and "obsID ob \<noteq> []"
  shows "let r' = fst (run condStep (fst (Apply r ob)) es) in Apply r' ob = (r', [])"
proof -
  let ?r1 = "fst (Apply r ob)" and ?r' = "fst (run condStep (fst (Apply r ob)) es)"
  have inv: "condInv r" by (rule reachable_condInv [OF assms(1)])
  then have k: "invKeys r" by (simp add: condInv_def)
  have later: "seenOccurrences ?r1 \<subseteq> seenOccurrences ?r'" "config ?r' = config r"
    using seen_run [OF condInv_Apply [OF inv]] Apply_frame(1) [OF k] by auto
  have "\<not> accepts ?r' ob"
  proof (cases "accepts r ob")
    case True
    then have "obsID ob \<in> seenOccurrences ?r'"
      using later(1) assms(2) Apply_frame(3) [OF k, of ob] by auto
    with assms(2) show ?thesis by (simp add: accepts_def)
  next
    case False
    then have "\<not> accepts r ob" .
    moreover have "seenOccurrences r \<subseteq> seenOccurrences ?r'"
      using later(1) Apply_frame(3) [OF k, of ob] by auto
    ultimately show ?thesis using later(2) by (auto simp: accepts_def)
  qed
  then show ?thesis by (simp add: Let_def Apply_rejected)
qed

theorem occurrence_applied_once_witness:
  "snd (Apply (fst (Advance demoPending 170)) (demoObservation Trigger RTrue 100 ''o1'')) = []"
  using occurrence_applied_once [OF demo_reachable(1),
      of "demoObservation Trigger RTrue 100 ''o1''" "[InAdvance 170]"]
  by (simp add: demoObservation_def demoPending_def Let_def case_prod_beta)

lemma observe_tracker_cancel:
  assumes "trackerOf r (obsKey ob) = Some s" and "obsResult ob \<noteq> RTrue"
    and "obsDirection ob = Trigger \<or> obsDirection ob = Clear"
  shows "\<exists>s'. trackerOf (fst (observe r ob)) (obsKey ob) = Some s' \<and>
    phase s' \<noteq> phaseFor (obsDirection ob)"
  using assms
  by (auto simp: observe_def changePhase_def Let_def recordEvidence_def phaseFor_def trackerOf_def)



end
