(* ===== verification/AlertsProps.thy ===== *)
theory AlertsProps
  imports AlertsInv ConditionsProps
begin

text \<open>
  The properties of the alert reducer, each with its statement in words.
\<close>

subsection \<open>Journal\<close>

lemma filter_by_index:
  "filter P xs = map ((!) xs) (filter (\<lambda>i. P (xs ! i)) [0..<length xs])"
  using filter_map [of P "(!) xs" "[0..<length xs]"] by (simp add: map_nth comp_def)

lemma length_filter_even_upt: "length (filter even [0..<n]) = (n + 1) div 2"
  by (induction n) auto

text \<open>The journal of a series alternates: in every run of the reducer the transitions of
  one series are Open, Recovery, Open, Recovery and so on, the pair number n carrying
  generation n + 1, and the series is open exactly when their number is odd; its generation
  is then the number of openings.\<close>

theorem alert_journal_alternates:
  "let r = alertsAfter es; J = filter (\<lambda>t. atSeries t = k) (AlertTransitions r) in
   map (\<lambda>t. (atKind t, atGeneration t)) J =
     map (\<lambda>i. (if even i then Open else Recovery, of_nat (i div 2 + 1))) [0..<length J] \<and>
   isOpen r k = odd (length J) \<and>
   generationOf r k = of_nat (length (filter (\<lambda>t. atKind t = Open) J))"
proof -
  let ?r = "alertsAfter es"
  let ?J = "seriesJournal ?r k"
  have l: "ledgerOk ?J (isOpen ?r k) (generationOf ?r k)"
    using alertsAfter_inv [of es] by (simp add: alertInv_def)
  have "map (\<lambda>t. (atKind t, atGeneration t)) ?J =
      map (\<lambda>i. (if even i then Open else Recovery, of_nat (i div 2 + 1))) [0..<length ?J]"
    using l by (intro nth_equalityI) (simp_all add: ledgerOk_def)
  moreover have "length (filter (\<lambda>t. atKind t = Open) ?J) = (length ?J + 1) div 2"
  proof -
    have "length (filter (\<lambda>t. atKind t = Open) ?J) =
        length (filter (\<lambda>i. atKind (?J ! i) = Open) [0..<length ?J])"
      by (subst filter_by_index) simp
    also have "\<dots> = length (filter even [0..<length ?J])"
      using l by (intro arg_cong [where f = length] filter_cong refl) (simp add: ledgerOk_def)
    also have "\<dots> = (length ?J + 1) div 2"
      by (rule length_filter_even_upt)
    finally show ?thesis .
  qed
  ultimately show ?thesis
    using l unfolding Let_def AlertTransitions_def seriesJournal_def [symmetric]
    by (simp add: ledgerOk_def)
qed


lemma distinct_alert_ids:
  assumes "length (AlertTransitions (alertsAfter es)) < 2 ^ 64"
  shows "distinct (map atID (AlertTransitions (alertsAfter es)))"
proof (rule distinct_map_by_group [where g = atSeries])
  let ?r = "alertsAfter es"
  have inv: "alertInv ?r" by (rule alertsAfter_inv)
  have stamp: "\<forall>t \<in> set (AlertTransitions ?r). stampOk t"
    using inv by (simp add: alertInv_def AlertTransitions_def)
  then show "atSeries x = atSeries y"
    if "x \<in> set (AlertTransitions ?r)" "y \<in> set (AlertTransitions ?r)" "atID x = atID y" for x y
    using that by (simp add: stampOk_def alertTransitionID_inject bar_notin_SeriesID)
  fix k
  let ?J = "seriesJournal ?r k"
  have small: "length ?J < 2 ^ 64"
    using assms unfolding AlertTransitions_def seriesJournal_def
    by (rule le_less_trans [OF length_filter_le])
  have "atID (?J ! i) \<noteq> atID (?J ! j)" if "i < j" "j < length ?J" for i j
  proof
    assume eq: "atID (?J ! i) = atID (?J ! j)"
    have "stampOk (?J ! n)" if "n < length ?J" for n
      using stamp nth_mem [OF that] by (simp add: AlertTransitions_def seriesJournal_def)
    then have "atGeneration (?J ! i) = atGeneration (?J ! j)" "atKind (?J ! i) = atKind (?J ! j)"
      using that eq by (simp_all add: stampOk_def alertTransitionID_inject bar_notin_SeriesID)
    moreover have l: "ledgerOk ?J (isOpen ?r k) (generationOf ?r k)"
      using inv by (simp add: alertInv_def)
    moreover have "of_nat (i div 2 + 1) \<noteq> (of_nat (j div 2 + 1) :: u64)" if "i div 2 \<noteq> j div 2"
    proof -
      have "i div 2 + 1 < 2 ^ 64" "j div 2 + 1 < 2 ^ 64"
        using \<open>i < j\<close> \<open>j < length ?J\<close> small by linarith+
      then show ?thesis using that
        by (simp add: word_of_nat_eq_iff take_bit_nat_eq_self del: of_nat_add of_nat_Suc)
    qed
    ultimately have "i div 2 = j div 2" "even i = even j"
      using \<open>i < j\<close> \<open>j < length ?J\<close> by (auto simp: ledgerOk_def split: if_splits)
    with \<open>i < j\<close> show False by (metis even_iff_mod_2_eq_zero div_mult_mod_eq nat_neq_iff not_mod_2_eq_0_eq_1)
  qed
  then show "distinct (map atID (filter (\<lambda>t. atSeries t = k) (AlertTransitions ?r)))"
    unfolding AlertTransitions_def seriesJournal_def [symmetric]
    by (simp add: distinct_conv_nth) (metis nat_neq_iff)
qed

text \<open>Alert transitions are told apart by their identifiers: in a run that has journalled
  fewer than \<open>2 ^ 64\<close> transitions, no two of them share an identifier (the generation
  counter is a \<^verbatim>\<open>uint64\<close>).\<close>

theorem alert_transition_ids_distinct:
  assumes "length (AlertTransitions (alertsAfter es)) < 2 ^ 64"
  shows "distinct (map atID (AlertTransitions (alertsAfter es)))"
  by (rule distinct_alert_ids [OF assms])

definition demoAlertEpisode :: "transition option \<Rightarrow> episode" where
  "demoAlertEpisode c = \<lparr>epID = ''e1'', epKey = demoKey,
     epTrigger = commitTransition demoKey Trigger zeroTracker 100 100 100
       (demoObservation Trigger RTrue 100 ''o1''),
     epClear = c, epOpenedAt = 100, epClosedAt = 0\<rparr>"

definition demoClear :: transition where
  "demoClear = commitTransition demoKey Clear zeroTracker 200 200 200
     (demoObservation Clear RTrue 200 ''o2'')"

theorem alert_transition_ids_distinct_witness:
  "distinct (map atID (AlertTransitions (alertsAfter [InEpisode (demoAlertEpisode (Some demoClear))]))) \<and>
   length (AlertTransitions (alertsAfter [InEpisode (demoAlertEpisode (Some demoClear))])) = 2"
proof -
  have l: "length (AlertTransitions (alertsAfter [InEpisode (demoAlertEpisode (Some demoClear))])) = 2"
    by code_simp
  show ?thesis
    using alert_transition_ids_distinct [of "[InEpisode (demoAlertEpisode (Some demoClear))]"]
    unfolding l by simp
qed

subsection \<open>Contributors\<close>

text \<open>An alert opens and recovers at the edges of its set of contributors: in every state a
  run reaches, an opening contribution emits exactly one Open transition when the series goes
  from no contributor to one, a clearing contribution exactly one Recovery when it goes from
  one to none, both for the series named, and otherwise they emit nothing; a series is open
  exactly when it has a contributor.\<close>

theorem alert_edges:
  "let r = alertsAfter es; k = aeSeries e; r1 = fst (ApplyStart r e);
       r2 = fst (ApplyClear r i k at eff ev)
   in map (\<lambda>t. (atKind t, atSeries t)) (snd (ApplyStart r e)) =
        (if live r k = {} \<and> live r1 k \<noteq> {} then [(Open, k)] else []) \<and>
      map (\<lambda>t. (atKind t, atSeries t)) (snd (ApplyClear r i k at eff ev)) =
        (if live r k \<noteq> {} \<and> live r2 k = {} then [(Recovery, k)] else []) \<and>
      (isOpen r1 k \<longleftrightarrow> live r1 k \<noteq> {}) \<and> (isOpen r2 k \<longleftrightarrow> live r2 k \<noteq> {})"
proof -
  let ?r = "alertsAfter es" and ?k = "aeSeries e"
  have inv: "alertInv ?r" by (rule alertsAfter_inv)
  have pair: "map (\<lambda>t. (atKind t, atSeries t)) ts = map (\<lambda>x. (x, k)) kinds"
    if "map atKind ts = kinds \<and> (\<forall>t \<in> set ts. atSeries t = k) \<and> X" for ts k kinds X
    using that by auto
  have start: "map (\<lambda>t. (atKind t, atSeries t)) (snd (ApplyStart ?r e)) =
      map (\<lambda>x. (x, ?k)) (if startsAt ?r e \<and> live ?r ?k = {} then [Open] else [])"
    by (rule pair [OF ApplyStart_output [OF inv]])
  have clear: "map (\<lambda>t. (atKind t, atSeries t)) (snd (ApplyClear ?r i ?k at eff ev)) =
      map (\<lambda>x. (x, ?k)) (if clearsAt ?r i ?k \<and> live ?r ?k = {i} then [Recovery] else [])"
    by (rule pair [OF ApplyClear_output [OF inv]])
  show ?thesis
    unfolding Let_def start clear live_ApplyStart live_ApplyClear [OF inv]
      alertInv_isOpen [OF alertInv_ApplyStart [OF inv]] alertInv_isOpen [OF alertInv_ApplyClear [OF inv]]
    by (simp add: clearsAt_def) blast
qed


subsection \<open>Applying episodes\<close>

definition startOf :: "episode \<Rightarrow> alert_episode" where
  "startOf e = \<lparr>aeID = epID e, aeSeries = seriesKeyOf (epKey e), aeRevision = Revision (epKey e),
     aeOpened = True, aeAt = trAt (epTrigger e),
     aeEffectiveAt = tmsEffectiveAt (trTimes (epTrigger e)),
     aeEvidenceAt = tmsEvidenceAt (trTimes (epTrigger e))\<rparr>"

lemma startOf_simps [simp]:
  "aeID (startOf e) = epID e" "aeSeries (startOf e) = seriesKeyOf (epKey e)"
  by (simp_all add: startOf_def)

lemma live_ApplyEpisode:
  assumes "alertInv r"
  shows "live (fst (ApplyEpisode r e)) k =
      (live r k \<union> (if k = seriesKeyOf (epKey e) \<and> startsAt r (startOf e) then {epID e} else {})) -
      (if k = seriesKeyOf (epKey e) \<and> epClear e \<noteq> None \<and>
          clearsAt (fst (ApplyStart r (startOf e))) (epID e) k then {epID e} else {})"
    and "closed (fst (ApplyEpisode r e)) = closed r \<union>
      (if epClear e \<noteq> None \<and>
          clearsAt (fst (ApplyStart r (startOf e))) (epID e) (seriesKeyOf (epKey e)) then {epID e} else {})"
  by (auto simp: ApplyEpisode_def Let_def case_prod_beta live_ApplyStart
      live_ApplyClear [OF alertInv_ApplyStart [OF assms]] closed_ApplyClear [OF alertInv_ApplyStart [OF assms]]
      simp flip: startOf_def split: option.splits)

text \<open>An episode is settled in a state when applying it there is a no-op.\<close>

definition settled :: "alert_reducer \<Rightarrow> episode \<Rightarrow> bool" where
  "settled r e \<longleftrightarrow> epID e = [] \<or> epID e \<in> closed r \<or>
     epClear e = None \<and> epID e \<in> live r (seriesKeyOf (epKey e))"

lemma settled_ApplyEpisode: "alertInv r \<Longrightarrow> settled (fst (ApplyEpisode r e)) e"
  by (auto simp: settled_def live_ApplyEpisode startsAt_def clearsAt_def live_ApplyStart)

lemma settled_noop:
  assumes "settled r e"
  shows "ApplyEpisode r e = (r, [])"
proof -
  let ?k = "seriesKeyOf (epKey e)"
  have "fst (getSeries r ?k) = r \<and> (\<exists>c. map_of (ssContributors (stateOf r ?k)) (epID e) = Some c)"
    if "epID e \<in> live r ?k"
    using that by (auto simp: live_def contributorOf_def getSeries_def stateOf_def split: option.splits)
  with assms show ?thesis
    by (auto simp: ApplyEpisode_def ApplyStart_def ApplyClear_def settled_def Let_def case_prod_beta
        split: option.splits)
qed

lemma settled_step:
  assumes "alertInv r" and "settled r e"
  shows "settled (fst (alertStep r x)) e"
proof (cases x)
  case (InStart a)
  with assms(2) show ?thesis by (auto simp: settled_def live_ApplyStart)
next
  case (InClear i k at eff ev)
  with assms show ?thesis by (auto simp: settled_def live_ApplyClear closed_ApplyClear)
next
  case (InEpisode f)
  with assms show ?thesis by (auto simp: settled_def live_ApplyEpisode)
qed

lemma settled_run:
  assumes "alertInv r" and "settled r e"
  shows "settled (fst (run alertStep r es)) e"
  using assms
proof (induction es arbitrary: r)
  case (Cons x es)
  from Cons.IH [OF alert_machine.step_inv settled_step] Cons.prems
  show ?case by (simp add: Let_def case_prod_beta)
qed simp

text \<open>Applying an episode is idempotent: once a condition episode has been applied, applying
  the same episode again, after any further inputs, changes nothing and emits no transition.
  The coordinator relies on it when it applies every episode it has after every step.\<close>

theorem alert_episode_idempotent:
  "let r = alertsAfter (before @ InEpisode e # after) in ApplyEpisode r e = (r, [])"
proof -
  let ?r1 = "fst (ApplyEpisode (alertsAfter before) e)"
  have "settled (fst (run alertStep ?r1 after)) e"
    by (rule settled_run [OF alertInv_ApplyEpisode [OF alertsAfter_inv]
          settled_ApplyEpisode [OF alertsAfter_inv]])
  then show ?thesis
    by (simp add: run_append Let_def case_prod_beta settled_noop)
qed

lemma alerts_of_episodes:
  assumes "\<forall>e \<in> set es. epID e \<noteq> []"
    and "\<forall>e \<in> set es. \<forall>e' \<in> set es. epID e = epID e' \<longrightarrow> seriesKeyOf (epKey e) = seriesKeyOf (epKey e')"
  shows "closed (alertsAfter (map InEpisode es)) = epID ` {e \<in> set es. epClear e \<noteq> None} \<and>
    live (alertsAfter (map InEpisode es)) k =
      epID ` {e \<in> set es. seriesKeyOf (epKey e) = k} - epID ` {e \<in> set es. epClear e \<noteq> None}"
  using assms
proof (induction es arbitrary: k rule: rev_induct)
  case Nil
  then show ?case by (simp add: NewAlerts_def live_def contributorOf_def)
next
  case (snoc e es)
  let ?r = "alertsAfter (map InEpisode es)"
  have inv: "alertInv ?r" by (rule alertsAfter_inv)
  have run: "alertsAfter (map InEpisode (es @ [e])) = fst (ApplyEpisode ?r e)"
    by (simp add: run_append Let_def case_prod_beta)
  have sub: "set es \<subseteq> set (es @ [e])" "e \<in> set (es @ [e])" by auto
  have p1: "\<forall>x \<in> set es. epID x \<noteq> []" using snoc.prems(1) by simp
  have p2: "\<forall>x \<in> set es. \<forall>y \<in> set es. epID x = epID y \<longrightarrow> seriesKeyOf (epKey x) = seriesKeyOf (epKey y)"
    using snoc.prems(2) sub by blast
  have p3: "\<forall>x \<in> set es. epID x = epID e \<longrightarrow> seriesKeyOf (epKey x) = seriesKeyOf (epKey e)"
    using snoc.prems(2) sub by blast
  have c: "closed ?r = epID ` {e \<in> set es. epClear e \<noteq> None}"
    and l: "\<And>k. live ?r k = epID ` {e \<in> set es. seriesKeyOf (epKey e) = k} -
      epID ` {e \<in> set es. epClear e \<noteq> None}"
    using snoc.IH [OF p1 p2] by blast+
  have set_step: "(A - D \<union> B) - (D \<union> E) = (A \<union> B) - (D \<union> E)" for A B D E :: "string set"
    by blast
  have snoc_image: "epID ` {x \<in> set (es @ [e]). P x} =
      epID ` {x \<in> set es. P x} \<union> (if P e then {epID e} else {})" for P
    by auto
  have id: "epID e \<noteq> []" using snoc.prems(1) by simp
  have home: "seriesKeyOf (epKey e) = k" if "epID e \<in> live ?r k" for k
  proof -
    from that have "epID e \<in> epID ` {x \<in> set es. seriesKeyOf (epKey x) = k}"
      unfolding l by (rule DiffD1)
    then obtain x where "x \<in> set es" "epID x = epID e" "seriesKeyOf (epKey x) = k" by force
    with p3 show ?thesis by simp
  qed
  have closed': "closed (fst (ApplyEpisode ?r e)) =
      closed ?r \<union> (if epClear e \<noteq> None then {epID e} else {})"
    using id by (auto simp: live_ApplyEpisode [OF inv] clearsAt_def startsAt_def live_ApplyStart)
  have live': "live (fst (ApplyEpisode ?r e)) k =
      (live ?r k \<union> (if k = seriesKeyOf (epKey e) then {epID e} else {})) -
      closed (fst (ApplyEpisode ?r e))" for k
  proof -
    have d: "i \<notin> closed ?r" if "i \<in> live ?r k" for i
      using DiffD2 [OF that [unfolded l]] unfolding c by blast
    have st: "startsAt ?r (startOf e) \<longleftrightarrow> epID e \<notin> closed ?r \<and> epID e \<notin> live ?r (seriesKeyOf (epKey e))"
      using id by (simp add: startsAt_def)
    have cl: "clearsAt (fst (ApplyStart ?r (startOf e))) (epID e) (seriesKeyOf (epKey e)) \<longleftrightarrow>
        epID e \<notin> closed ?r"
      using id by (auto simp: clearsAt_def live_ApplyStart st)
    show ?thesis
    proof (cases "k = seriesKeyOf (epKey e)")
      case True
      show ?thesis
        unfolding closed' live_ApplyEpisode(1) [OF inv] True cl st using d [unfolded True] by auto
    next
      case False
      then have "epID e \<notin> live ?r k" using home by blast
      with False show ?thesis
        unfolding closed' live_ApplyEpisode(1) [OF inv] using d by auto
    qed
  qed
  show ?case
    unfolding run live' closed' snoc_image l c set_step eq_commute [of k] by (intro conjI refl)
qed

text \<open>C13. An alert is open exactly while some condition episode is: after any list of episodes,
  applied in any order and any number of times, the series of a rule and subject is open
  exactly when one of its episodes has never been applied in closed form. Episodes of several
  revisions of the rule count together.\<close>

theorem alert_open_iff_uncleared_episode:
  assumes "\<forall>e \<in> set es. epID e \<noteq> []"
    and "\<forall>e \<in> set es. \<forall>e' \<in> set es. epID e = epID e' \<longrightarrow> seriesKeyOf (epKey e) = seriesKeyOf (epKey e')"
  shows "isOpen (alertsAfter (map InEpisode es)) k \<longleftrightarrow>
    (\<exists>e \<in> set es. seriesKeyOf (epKey e) = k \<and>
       (\<forall>e' \<in> set es. epID e' = epID e \<longrightarrow> epClear e' = None))"
  unfolding alertInv_isOpen [OF alertsAfter_inv]
  using alerts_of_episodes [OF assms, of k] by (auto simp: image_iff) metis+

theorem alert_open_iff_uncleared_episode_witness:
  "isOpen (alertsAfter [InEpisode (demoAlertEpisode None)]) (seriesKeyOf demoKey) \<and>
   \<not> isOpen (alertsAfter [InEpisode (demoAlertEpisode None),
       InEpisode (demoAlertEpisode (Some demoClear))]) (seriesKeyOf demoKey)"
  using alert_open_iff_uncleared_episode [of "[demoAlertEpisode None]" "seriesKeyOf demoKey"]
    alert_open_iff_uncleared_episode [of "[demoAlertEpisode None, demoAlertEpisode (Some demoClear)]"
      "seriesKeyOf demoKey"]
  by (simp add: demoAlertEpisode_def)

subsection \<open>Listing\<close>

interpretation series_order: key_order "\<lambda>a b. seID a < seID b" seID
  by unfold_locales simp

lemma copySeries_simps [simp]:
  "seKey (copySeries s) = seKey (ssSeries s)" "seID (copySeries s) = seID (ssSeries s)"
  by (simp_all add: copySeries_def)

lemma map_of_filter_key:
  assumes "distinct (map fst m)" and "\<And>k s. (k, s) \<in> set m \<Longrightarrow> g (f s) = k"
  shows "filter (\<lambda>x. g x = k) (map (\<lambda>(k, s). f s) m) =
    (case map_of m k of None \<Rightarrow> [] | Some s \<Rightarrow> [f s])"
  using assms
proof (induction m)
  case (Cons a m)
  obtain k' s' where a: "a = (k', s')" by (cases a)
  have "g (f s') = k'" using Cons.prems(2) by (simp add: a)
  moreover have "map_of m k' = None" using Cons.prems(1) by (simp add: a map_of_eq_None_iff)
  moreover have "filter (\<lambda>x. g x = k) (map (\<lambda>(k, s). f s) m) =
      (case map_of m k of None \<Rightarrow> [] | Some s \<Rightarrow> [f s])"
    by (rule Cons.IH) (use Cons.prems in simp_all)
  ultimately show ?case by (auto simp: a)
qed simp

text \<open>\<^verbatim>\<open>SeriesList\<close> lists every series once, in the order of identifiers, whatever
  order Go iterates its map in: a state whose series map holds the same entries in another
  order lists the same series, and the entry of a key in the list is what \<^verbatim>\<open>Series\<close>
  returns for it.\<close>

theorem series_list_canonical:
  assumes "mset (seriesMap r) = mset (seriesMap (alertsAfter es))"
  shows "SeriesList r = SeriesList (alertsAfter es) \<and> sorted (map seID (SeriesList r)) \<and>
    filter (\<lambda>s. seKey s = k) (SeriesList r) =
      (case Series (alertsAfter es) k of None \<Rightarrow> [] | Some s \<Rightarrow> [s])"
proof -
  let ?R = "alertsAfter es"
  let ?list = "\<lambda>r. map (\<lambda>(k, s). copySeries s) (seriesMap r)"
  have keys: "distinct (map fst (seriesMap ?R))"
    and "\<And>k s. map_of (seriesMap ?R) k = Some s \<Longrightarrow> seriesOk k s"
    using alertsAfter_inv [of es] by (simp_all add: alertInv_def)
  then have ok: "seriesOk k s" if "(k, s) \<in> set (seriesMap ?R)" for k s
    using that by simp
  have seK: "seKey (copySeries s) = k" and sid: "seID (copySeries s) = SeriesID k"
    if "(k, s) \<in> set (seriesMap ?R)" for k s
    using ok [OF that] by (simp_all add: seriesOk_def)
  have inj: "inj_on seID (set (?list ?R))"
  proof (rule inj_onI)
    fix x y assume "x \<in> set (?list ?R)" "y \<in> set (?list ?R)" "seID x = seID y"
    then obtain k s k' s' where ks: "(k, s) \<in> set (seriesMap ?R)" "(k', s') \<in> set (seriesMap ?R)"
      and xy: "x = copySeries s" "y = copySeries s'" by auto
    have "k = k'" using \<open>seID x = seID y\<close> sid [OF ks(1)] sid [OF ks(2)] xy by simp
    with ks keys xy show "x = y" by (metis map_of_eq_Some_iff option.inject)
  qed
  have "mset (?list ?R) = mset (?list r)" using assms by simp
  then have eq: "SeriesList r = SeriesList ?R"
    unfolding SeriesList_def by (metis series_order.sort_by_perm [OF _ inj])
  have "filter (\<lambda>s. seKey s = k) (?list ?R) = (case Series ?R k of None \<Rightarrow> [] | Some s \<Rightarrow> [s])"
    using map_of_filter_key [OF keys, of seKey copySeries k] seK
    by (simp add: Series_def split: option.splits)
  then have "filter (\<lambda>s. seKey s = k) (SeriesList ?R) = (case Series ?R k of None \<Rightarrow> [] | Some s \<Rightarrow> [s])"
    unfolding SeriesList_def series_order.filter_sort_by by (simp add: sort_by_def split: option.splits)
  with eq show ?thesis
    by (simp add: SeriesList_def series_order.sorted_sort_by)
qed

theorem series_list_canonical_witness:
  "map seID (SeriesList (alertsAfter [InEpisode (demoAlertEpisode None)])) =
     [SeriesID (seriesKeyOf demoKey)] \<and>
   sorted (map seID (SeriesList (alertsAfter [InEpisode (demoAlertEpisode None)])))"
proof -
  have "map seID (SeriesList (alertsAfter [InEpisode (demoAlertEpisode None)])) =
     [SeriesID (seriesKeyOf demoKey)]" by code_simp
  with series_list_canonical [OF refl, where es = "[InEpisode (demoAlertEpisode None)]"]
  show ?thesis by blast
qed

end
