(* ===== verification/Notifications.thy ===== *)
theory Notifications
  imports AlertsInv
begin

text \<open>
  Notification planning and the delivery state machine,
  \<^verbatim>\<open>internal/notifications/notifications.go\<close>: the types and every operation, in the
  order of the source. The planner's map is ranged over and is an association list; the map
  of deliveries is only read and stored by key and is a function to \<open>option\<close>. A
  \<^verbatim>\<open>*Delivery\<close> is always the pointer stored under its identifier, so an operation
  stores the delivery it changed; the copies handed out are values. The mutex makes every
  operation of the delivery reducer atomic, so a run is a sequence of operations.
\<close>

subsection \<open>Planning\<close>

record policy =
  onOpen :: bool
  onRecovery :: bool
  audience :: string

record intent =
  inID :: string
  inAlertTransitionID :: string
  inSeriesID :: string
  inGeneration :: u64
  inKind :: transition_kind
  inAudience :: string
  inAt :: gotime
  inEffectiveAt :: gotime
  inEvidenceAt :: gotime

type_synonym planner = "(string \<times> intent) list"

definition NewPlanner :: planner where
  "NewPlanner = []"

definition IntentID :: "alert_transition \<Rightarrow> string" where
  "IntentID t = stableID ''notification-intent''
     (canonicalParts [atID t, formatUint (atGeneration t), decimal (kindCode (atKind t))])"

definition planIntent :: "alert_transition \<Rightarrow> policy \<Rightarrow> intent" where
  "planIntent t pol = \<lparr>inID = IntentID t, inAlertTransitionID = atID t, inSeriesID = atSeriesID t,
     inGeneration = atGeneration t, inKind = atKind t, inAudience = audience pol, inAt = atAt t,
     inEffectiveAt = atEffectiveAt t, inEvidenceAt = atEvidenceAt t\<rparr>"

text \<open>\<^verbatim>\<open>Plan\<close> returns an intent and whether it is new; \<open>None\<close> stands for the empty
  \<^verbatim>\<open>Intent{}\<close> of the branches that plan nothing.\<close>

definition Plan :: "planner \<Rightarrow> alert_transition \<Rightarrow> policy \<Rightarrow> planner \<times> intent option \<times> bool" where
  "Plan p t pol =
     (if atKind t \<noteq> Open \<and> atKind t \<noteq> Recovery then (p, None, False)
      else if atKind t = Open \<and> \<not> onOpen pol \<or> atKind t = Recovery \<and> \<not> onRecovery pol
        then (p, None, False)
      else case map_of p (IntentID t) of
        Some existing \<Rightarrow> (p, Some existing, False)
      | None \<Rightarrow> (AList.update (IntentID t) (planIntent t pol) p, Some (planIntent t pol), True))"

definition PlanTransition :: "alert_transition \<Rightarrow> policy \<Rightarrow> intent option \<times> bool" where
  "PlanTransition t pol = snd (Plan NewPlanner t pol)"

definition Intents :: "planner \<Rightarrow> intent list" where
  "Intents p = sort_by (\<lambda>a b. inID a < inID b) (map snd p)"

definition Intent :: "planner \<Rightarrow> string \<Rightarrow> intent option" where
  "Intent p i = map_of p i"

subsection \<open>Delivery\<close>

datatype delivery_status = Pending | Claimed | Delivered | Failed

record delivery_attempt =
  daNumber :: u64
  daToken :: string
  daStatus :: delivery_status
  daStartedAt :: gotime
  daFinishedAt :: gotime
  daError :: string

record delivery =
  dlIntentID :: string
  dlStatus :: delivery_status
  dlClaimToken :: string
  dlAttempts :: "delivery_attempt list"

type_synonym delivery_reducer = "string \<rightharpoonup> delivery"

definition NewDeliveryReducer :: delivery_reducer where
  "NewDeliveryReducer = Map.empty"

definition Ensure :: "delivery_reducer \<Rightarrow> intent \<Rightarrow> delivery_reducer \<times> delivery" where
  "Ensure r i = (case r (inID i) of
       Some d \<Rightarrow> (r, d)
     | None \<Rightarrow> let d = \<lparr>dlIntentID = inID i, dlStatus = Pending, dlClaimToken = [], dlAttempts = []\<rparr>
               in (r(inID i \<mapsto> d), d))"

definition claimToken :: "string \<Rightarrow> u64 \<Rightarrow> string" where
  "claimToken intentID n = stableID ''delivery-claim'' (canonicalParts [intentID, formatUint n])"

definition Begin :: "delivery_reducer \<Rightarrow> string \<Rightarrow> gotime \<Rightarrow> delivery_reducer \<times> delivery option" where
  "Begin r intentID at = (case r intentID of
       None \<Rightarrow> (r, None)
     | Some d \<Rightarrow>
         if dlStatus d = Delivered \<or> dlStatus d = Claimed then (r, None)
         else let n = of_nat (length (dlAttempts d) + 1) :: u64;
                  token = claimToken intentID n;
                  d' = d\<lparr>dlStatus := Claimed, dlClaimToken := token,
                    dlAttempts := dlAttempts d @ [\<lparr>daNumber = n, daToken = token, daStatus = Claimed,
                      daStartedAt = at, daFinishedAt = 0, daError = []\<rparr>]\<rparr>
              in (r(intentID \<mapsto> d'), Some d'))"

text \<open>The claim fence that \<^verbatim>\<open>Complete\<close> and \<^verbatim>\<open>Fail\<close> share.\<close>

definition fenced :: "delivery \<Rightarrow> string \<Rightarrow> bool" where
  "fenced d token \<longleftrightarrow>
     \<not> (dlStatus d \<noteq> Claimed \<or> dlClaimToken d \<noteq> token \<or> length (dlAttempts d) = 0) \<and>
     \<not> (daStatus (last (dlAttempts d)) \<noteq> Claimed \<or> daToken (last (dlAttempts d)) \<noteq> token)"

definition finishAttempt ::
  "delivery \<Rightarrow> delivery_status \<Rightarrow> gotime \<Rightarrow> string option \<Rightarrow> delivery"
where
  "finishAttempt d st at err =
     (let a = last (dlAttempts d);
          a' = a\<lparr>daStatus := st, daFinishedAt := at,
                daError := (case err of None \<Rightarrow> daError a | Some e \<Rightarrow> e)\<rparr>
      in d\<lparr>dlStatus := st, dlClaimToken := [],
           dlAttempts := (dlAttempts d)[length (dlAttempts d) - 1 := a']\<rparr>)"

definition Complete ::
  "delivery_reducer \<Rightarrow> string \<Rightarrow> string \<Rightarrow> gotime \<Rightarrow> delivery_reducer \<times> delivery option"
where
  "Complete r intentID token at = (case r intentID of
       None \<Rightarrow> (r, None)
     | Some d \<Rightarrow> if \<not> fenced d token then (r, None)
         else let d' = finishAttempt d Delivered at None in (r(intentID \<mapsto> d'), Some d'))"

definition Fail ::
  "delivery_reducer \<Rightarrow> string \<Rightarrow> string \<Rightarrow> gotime \<Rightarrow> string option \<Rightarrow> delivery_reducer \<times> delivery option"
where
  "Fail r intentID token at err = (case r intentID of
       None \<Rightarrow> (r, None)
     | Some d \<Rightarrow> if \<not> fenced d token then (r, None)
         else let d' = finishAttempt d Failed at err in (r(intentID \<mapsto> d'), Some d'))"

definition Delivery :: "delivery_reducer \<Rightarrow> string \<Rightarrow> delivery option" where
  "Delivery r i = r i"

end
