(* ===== verification/NotificationsProps.thy ===== *)
theory NotificationsProps
  imports Notifications AlertsProps
begin

text \<open>
  Correctness of notification planning and of the delivery state machine: one intent per
  alert transition that the policy wants, and claims fenced by their tokens.
\<close>

subsection \<open>The planner\<close>

definition wanted :: "policy \<Rightarrow> alert_transition \<Rightarrow> bool" where
  "wanted pol t \<longleftrightarrow> (atKind t = Open \<and> onOpen pol) \<or> (atKind t = Recovery \<and> onRecovery pol)"

lemma Plan_unwanted: "\<not> wanted pol t \<Longrightarrow> Plan p t pol = (p, None, False)"
  by (auto simp: Plan_def wanted_def)

lemma Plan_wanted:
  "wanted pol t \<Longrightarrow> Plan p t pol = (case map_of p (IntentID t) of
       Some existing \<Rightarrow> (p, Some existing, False)
     | None \<Rightarrow> (AList.update (IntentID t) (planIntent t pol) p, Some (planIntent t pol), True))"
  by (auto simp: Plan_def wanted_def)

lemma map_of_Plan:
  "map_of (fst (Plan p t pol)) i =
     (if i = IntentID t \<and> wanted pol t \<and> map_of p i = None then Some (planIntent t pol) else map_of p i)"
  by (cases "wanted pol t") (auto simp: Plan_wanted Plan_unwanted split: option.splits)

lemma distinct_Plan: "distinct (map fst p) \<Longrightarrow> distinct (map fst (fst (Plan p t pol)))"
  by (cases "wanted pol t") (auto simp: Plan_wanted Plan_unwanted split: option.splits)

lemma planIntent_simps [simp]:
  "inID (planIntent t pol) = IntentID t" "inAlertTransitionID (planIntent t pol) = atID t"
  by (simp_all add: planIntent_def)

lemma IntentID_inject [simp]:
  "IntentID t = IntentID u \<longleftrightarrow> atID t = atID u \<and> atGeneration t = atGeneration u \<and> atKind t = atKind u"
  by (auto simp: IntentID_def)

fun planAll :: "planner \<Rightarrow> (alert_transition \<times> policy) list \<Rightarrow> planner" where
  "planAll p [] = p"
| "planAll p ((t, pol) # ts) = planAll (fst (Plan p t pol)) ts"

lemma planAll_keeps: "map_of p i = Some x \<Longrightarrow> map_of (planAll p ts) i = Some x"
  by (induction p ts rule: planAll.induct) (auto simp: map_of_Plan)

lemma planAll_append: "planAll p (xs @ ys) = planAll (planAll p xs) ys"
  by (induction p xs rule: planAll.induct) auto

lemma distinct_planAll: "distinct (map fst p) \<Longrightarrow> distinct (map fst (planAll p ts))"
  by (induction p ts rule: planAll.induct) (auto simp: distinct_Plan)

lemma dom_planAll:
  "dom (map_of (planAll p ts)) = dom (map_of p) \<union> IntentID ` fst ` {x \<in> set ts. wanted (snd x) (fst x)}"
proof (induction p ts rule: planAll.induct)
  case (2 p t pol ts)
  have "dom (map_of (fst (Plan p t pol))) = dom (map_of p) \<union> (if wanted pol t then {IntentID t} else {})"
    by (auto simp: map_of_Plan split: if_splits)
  moreover have "{x \<in> set ((t, pol) # ts). wanted (snd x) (fst x)} =
      (if wanted pol t then {(t, pol)} else {}) \<union> {x \<in> set ts. wanted (snd x) (fst x)}"
    by auto
  ultimately show ?case using 2 by (simp split: if_splits)
qed simp

lemma planAll_ids:
  assumes "\<And>i x. map_of p i = Some x \<Longrightarrow> inID x = i \<and>
      (\<exists>t. atID t = inAlertTransitionID x \<and> IntentID t = i)"
    and "map_of (planAll p ts) i = Some x"
  shows "inID x = i \<and> (\<exists>t. atID t = inAlertTransitionID x \<and> IntentID t = i)"
  using assms
proof (induction p ts rule: planAll.induct)
  case (2 p t pol ts)
  show ?case
  proof (rule "2.IH")
    show "map_of (planAll (fst (Plan p t pol)) ts) i = Some x" using "2.prems"(2) by simp
    show "inID y = j \<and> (\<exists>t. atID t = inAlertTransitionID y \<and> IntentID t = j)"
      if "map_of (fst (Plan p t pol)) j = Some y" for j y
      using that "2.prems"(1) [of j y] by (auto simp: map_of_Plan split: if_splits)
  qed
qed simp

text \<open>Planning is idempotent: once a transition has been planned, planning it again under
  any policy that wants it, after any other plans, returns the intent that was planned first,
  reports it as not new and changes nothing.\<close>

theorem plan_idempotent:
  assumes "wanted pol t" and "wanted pol' t"
  shows "let (p1, i, fresh) = Plan p t pol; p2 = planAll p1 ts
    in Plan p2 t pol' = (p2, i, False) \<and> i \<noteq> None"
proof -
  obtain x where x: "map_of (fst (Plan p t pol)) (IntentID t) = Some x"
    "fst (snd (Plan p t pol)) = Some x"
    by (cases "map_of p (IntentID t)") (simp_all add: Plan_wanted [OF assms(1)])
  from planAll_keeps [OF x(1), of ts] show ?thesis
    by (simp add: Let_def case_prod_beta Plan_wanted [OF assms(2)] x(2))
qed

definition demoPolicy :: policy where
  "demoPolicy = \<lparr>onOpen = True, onRecovery = False, audience = ''ops''\<rparr>"

definition demoAlerts :: "alert_transition list" where
  "demoAlerts = AlertTransitions (alertsAfter [InEpisode (demoAlertEpisode (Some demoClear))])"

lemma demoAlerts_kinds: "map atKind demoAlerts = [Open, Recovery]"
  by (simp add: demoAlerts_def AlertTransitions_def NewAlerts_def ApplyEpisode_def ApplyStart_def
        ApplyClear_def getSeries_def putSeries_def newSeriesState_def demoAlertEpisode_def Let_def
        openTransition_def recoveryTransition_def)

theorem plan_idempotent_witness:
  "snd (snd (Plan NewPlanner (hd demoAlerts) demoPolicy)) \<and>
   (let (p1, i, fresh) = Plan NewPlanner (hd demoAlerts) demoPolicy
    in Plan p1 (hd demoAlerts) (demoPolicy\<lparr>audience := ''all''\<rparr>) = (p1, i, False))"
proof -
  obtain a b where ab: "demoAlerts = [a, b]" "atKind a = Open" "atKind b = Recovery"
    using demoAlerts_kinds by auto
  have "atKind (hd demoAlerts) = Open" using ab(2) unfolding ab(1) by simp
  then have w: "wanted demoPolicy (hd demoAlerts)"
    "wanted (demoPolicy\<lparr>audience := ''all''\<rparr>) (hd demoAlerts)"
    by (simp_all add: wanted_def demoPolicy_def)
  have "snd (snd (Plan NewPlanner (hd demoAlerts) demoPolicy))"
    by (simp add: Plan_wanted [OF w(1)] NewPlanner_def)
  with plan_idempotent [OF w, of NewPlanner "[]"] show ?thesis
    by (simp add: Let_def case_prod_beta)
qed

interpretation intent_order: key_order "\<lambda>a b. inID a < inID b" inID
  by unfold_locales simp

text \<open>What is planned of the transitions of a journal, some of them planned again.\<close>

lemma planned_dom:
  assumes "set again \<subseteq> set ts"
  shows "dom (map_of (planAll NewPlanner (map (\<lambda>t. (t, pol)) (ts @ again)))) = IntentID ` {t \<in> set ts. wanted pol t}"
proof -
  have "fst ` {x \<in> set (map (\<lambda>t. (t, pol)) (ts @ again)). wanted (snd x) (fst x)} = {t \<in> set ts. wanted pol t}"
    using assms by force
  then show ?thesis unfolding dom_planAll by (simp add: NewPlanner_def)
qed

lemma planned_transition:
  "map_of (planAll NewPlanner ps) (IntentID t) = Some x \<Longrightarrow> inAlertTransitionID x = atID t"
  by (drule planAll_ids [rotated]) (auto simp: NewPlanner_def)

lemma planned_set:
  fixes pol :: policy
  assumes "set again \<subseteq> set ts"
  defines "p \<equiv> planAll NewPlanner (map (\<lambda>t. (t, pol)) (ts @ again))"
  shows "set (map inAlertTransitionID (map snd p)) = set (map atID (filter (wanted pol) ts))"
proof -
  have dom: "dom (map_of p) = IntentID ` {t \<in> set ts. wanted pol t}"
    unfolding p_def by (rule planned_dom [OF assms(1)])
  have atid: "inAlertTransitionID x = atID t" if "map_of p (IntentID t) = Some x" for t x
    using planned_transition that unfolding p_def by blast
  have "distinct (map fst p)" unfolding p_def by (rule distinct_planAll) (simp add: NewPlanner_def)
  then have "set (map snd p) = ran (map_of p)" by (simp add: ran_distinct)
  also have "inAlertTransitionID ` \<dots> = atID ` {t \<in> set ts. wanted pol t}"
  proof (intro equalityI subsetI)
    fix a assume "a \<in> inAlertTransitionID ` ran (map_of p)"
    then obtain i x where x: "map_of p i = Some x" "a = inAlertTransitionID x" by (auto simp: ran_def)
    then have "i \<in> IntentID ` {t \<in> set ts. wanted pol t}" using dom by blast
    then obtain t where t: "i = IntentID t" "t \<in> {t \<in> set ts. wanted pol t}" by (rule imageE)
    have "a = atID t" using x atid t(1) by metis
    with t(2) show "a \<in> atID ` {t \<in> set ts. wanted pol t}" by blast
  next
    fix a assume "a \<in> atID ` {t \<in> set ts. wanted pol t}"
    then obtain t where t: "t \<in> set ts" "wanted pol t" "a = atID t" by auto
    then have "IntentID t \<in> dom (map_of p)" unfolding dom by blast
    then obtain x where x: "map_of p (IntentID t) = Some x" by blast
    then have "x \<in> ran (map_of p)" by (rule ranI)
    with atid [OF x] t(3) show "a \<in> inAlertTransitionID ` ran (map_of p)" by (metis image_eqI)
  qed
  finally show ?thesis by auto
qed

lemma planned_length:
  assumes "set again \<subseteq> set ts" and "distinct (map atID ts)"
  shows "length (planAll NewPlanner (map (\<lambda>t. (t, pol)) (ts @ again))) = length (filter (wanted pol) ts)"
proof -
  let ?p = "planAll NewPlanner (map (\<lambda>t. (t, pol)) (ts @ again))"
  have dist: "distinct (map fst ?p)" by (rule distinct_planAll) (simp add: NewPlanner_def)
  have "inj_on IntentID {t \<in> set ts. wanted pol t}" using assms(2) by (auto simp: inj_on_def distinct_map)
  then have "card (set (map fst ?p)) = card {t \<in> set ts. wanted pol t}"
    using planned_dom [OF assms(1), of pol] card_image [of IntentID] by (simp add: dom_map_of_conv_image_fst)
  moreover have "card (set (map fst ?p)) = length ?p" using distinct_card [OF dist] by simp
  moreover have "distinct (filter (wanted pol) ts)" using assms(2) by (simp add: distinct_map)
  from distinct_card [OF this] have "card {t \<in> set ts. wanted pol t} = length (filter (wanted pol) ts)" by simp
  ultimately show ?thesis by simp
qed

lemma planned_journal:
  assumes "set again \<subseteq> set ts" and "distinct (map atID ts)"
  shows "mset (map inAlertTransitionID (map snd (planAll NewPlanner (map (\<lambda>t. (t, pol)) (ts @ again))))) =
    mset (map atID (filter (wanted pol) ts))"
proof -
  let ?p = "planAll NewPlanner (map (\<lambda>t. (t, pol)) (ts @ again))"
  have set_eq: "set (map inAlertTransitionID (map snd ?p)) = set (map atID (filter (wanted pol) ts))"
    by (rule planned_set [OF assms(1)])
  have wanted_ids: "distinct (map atID (filter (wanted pol) ts))" using assms(2) by (simp add: distinct_map inj_on_def)
  have "card (set (map inAlertTransitionID (map snd ?p))) = length (map inAlertTransitionID (map snd ?p))"
    unfolding set_eq distinct_card [OF wanted_ids] using planned_length [OF assms] by simp
  then have "distinct (map inAlertTransitionID (map snd ?p))" by (rule card_distinct)
  from set_eq_iff_mset_eq_distinct [OF this wanted_ids] set_eq show ?thesis by (rule iffD1)
qed

text \<open>C36. Every wanted alert transition is notified once: planning the journal of an alert
  reducer, with any of its transitions planned again in any order, yields exactly one intent
  for every transition that the policy wants and none for the others, listed by identifier.\<close>

theorem one_intent_per_alert_transition:
  assumes "length (AlertTransitions (alertsAfter es)) < 2 ^ 64"
    and "set again \<subseteq> set (AlertTransitions (alertsAfter es))"
  shows "let ts = AlertTransitions (alertsAfter es);
             out = Intents (planAll NewPlanner (map (\<lambda>t. (t, pol)) (ts @ again)))
    in mset (map inAlertTransitionID out) = mset (map atID (filter (wanted pol) ts)) \<and>
       sorted (map inID out)"
proof -
  let ?ts = "AlertTransitions (alertsAfter es)"
  let ?p = "planAll NewPlanner (map (\<lambda>t. (t, pol)) (?ts @ again))"
  have "distinct (map atID ?ts)" using assms(1) distinct_alert_ids by blast
  from planned_journal [OF assms(2) this, of pol]
  have "mset (map inAlertTransitionID (Intents ?p)) = mset (map atID (filter (wanted pol) ?ts))"
    by (simp only: Intents_def mset_map intent_order.mset_sort_by)
  moreover have "sorted (map inID (Intents ?p))"
    unfolding Intents_def by (rule intent_order.sorted_sort_by)
  ultimately show ?thesis unfolding Let_def by (intro conjI) (simp_all only:)
qed

theorem one_intent_per_alert_transition_witness:
  "mset (map inAlertTransitionID (Intents (planAll NewPlanner
     (map (\<lambda>t. (t, demoPolicy)) (demoAlerts @ demoAlerts))))) = {# atID (hd demoAlerts) #}"
proof -
  have l: "length demoAlerts = 2" by code_simp
  obtain a b where ab: "demoAlerts = [a, b]" "atKind a = Open" "atKind b = Recovery"
    using demoAlerts_kinds by auto
  have f: "filter (wanted demoPolicy) demoAlerts = [hd demoAlerts]"
    using ab(2,3) unfolding ab(1) by (simp add: wanted_def demoPolicy_def)
  show ?thesis
    using one_intent_per_alert_transition [of "[InEpisode (demoAlertEpisode (Some demoClear))]"
        demoAlerts demoPolicy] l
    unfolding demoAlerts_def [symmetric] Let_def f by simp
qed

subsection \<open>The delivery state machine\<close>

datatype delivery_op = OpEnsure intent | OpBegin string gotime | OpComplete string string gotime
  | OpFail string string gotime "string option"

text \<open>One operation, with the delivery it hands back when it succeeds.\<close>

fun deliveryStep :: "delivery_reducer \<Rightarrow> delivery_op \<Rightarrow> delivery_reducer \<times> delivery list" where
  "deliveryStep r (OpEnsure i) = (let (r', d) = Ensure r i in (r', [d]))"
| "deliveryStep r (OpBegin i at) = (let (r', d) = Begin r i at in (r', case d of None \<Rightarrow> [] | Some d \<Rightarrow> [d]))"
| "deliveryStep r (OpComplete i tok at) =
     (let (r', d) = Complete r i tok at in (r', case d of None \<Rightarrow> [] | Some d \<Rightarrow> [d]))"
| "deliveryStep r (OpFail i tok at err) =
     (let (r', d) = Fail r i tok at err in (r', case d of None \<Rightarrow> [] | Some d \<Rightarrow> [d]))"

abbreviation deliveriesAfter :: "delivery_op list \<Rightarrow> delivery_reducer" where
  "deliveriesAfter ops \<equiv> fst (run deliveryStep NewDeliveryReducer ops)"

text \<open>The shape of a delivery: attempts are numbered from one and carry their own tokens, every
  attempt but the last has failed, the last has the status of the delivery, and the delivery
  holds a claim token exactly while it is claimed, that of the last attempt.\<close>

definition deliveryOk :: "string \<Rightarrow> delivery \<Rightarrow> bool" where
  "deliveryOk i d \<longleftrightarrow> dlIntentID d = i \<and>
     (\<forall>n < length (dlAttempts d).
        daNumber (dlAttempts d ! n) = of_nat (n + 1) \<and>
        daToken (dlAttempts d ! n) = claimToken i (of_nat (n + 1)) \<and>
        daStatus (dlAttempts d ! n) = (if n + 1 = length (dlAttempts d) then dlStatus d else Failed)) \<and>
     (dlAttempts d = [] \<longleftrightarrow> dlStatus d = Pending) \<and>
     dlClaimToken d = (if dlStatus d = Claimed then daToken (last (dlAttempts d)) else [])"

definition deliveriesOk :: "delivery_reducer \<Rightarrow> bool" where
  "deliveriesOk r \<longleftrightarrow> (\<forall>i d. r i = Some d \<longrightarrow> deliveryOk i d)"

lemma claimToken_inject [simp]: "claimToken i m = claimToken j n \<longleftrightarrow> i = j \<and> m = n"
  by (auto simp: claimToken_def)

lemma claimToken_not_Nil [simp]: "claimToken i n \<noteq> []" "[] \<noteq> claimToken i n"
  by (simp_all add: claimToken_def)

lemma deliveryOk_last:
  assumes "deliveryOk i d" and "dlStatus d \<noteq> Pending"
  shows "daStatus (last (dlAttempts d)) = dlStatus d"
    and "daToken (last (dlAttempts d)) = claimToken i (of_nat (length (dlAttempts d)))"
  using assms by (auto simp: deliveryOk_def last_conv_nth simp del: of_nat_Suc
      dest: spec [of _ "length (dlAttempts d) - 1"])

text \<open>The claim fence accepts exactly the current claim.\<close>

lemma fenced_iff:
  assumes "deliveryOk i d"
  shows "fenced d token \<longleftrightarrow>
    dlStatus d = Claimed \<and> token = claimToken i (of_nat (length (dlAttempts d)))"
proof (cases "dlStatus d = Claimed")
  case True
  then have "dlAttempts d \<noteq> []" "dlClaimToken d = claimToken i (of_nat (length (dlAttempts d)))"
    using assms deliveryOk_last(2) [OF assms] by (auto simp: deliveryOk_def)
  with True deliveryOk_last [OF assms] show ?thesis by (auto simp: fenced_def)
qed (simp add: fenced_def)

lemma deliveryOk_begun:
  assumes "deliveryOk i d" and "dlStatus d \<noteq> Delivered" and "dlStatus d \<noteq> Claimed"
    and n: "n = of_nat (length (dlAttempts d) + 1)"
  shows "deliveryOk i (d\<lparr>dlStatus := Claimed, dlClaimToken := claimToken i n,
    dlAttempts := dlAttempts d @ [\<lparr>daNumber = n, daToken = claimToken i n, daStatus = Claimed,
      daStartedAt = at, daFinishedAt = 0, daError = []\<rparr>]\<rparr>)"
  using assms(1-3) unfolding n
  by (cases "dlStatus d") (auto simp: deliveryOk_def nth_append less_Suc_eq)

lemma deliveryOk_new:
  "deliveryOk i \<lparr>dlIntentID = i, dlStatus = Pending, dlClaimToken = [], dlAttempts = []\<rparr>"
  by (simp add: deliveryOk_def)

lemma deliveryOk_finished:
  assumes "deliveryOk i d" and "fenced d token" and "st = Delivered \<or> st = Failed"
  shows "deliveryOk i (finishAttempt d st at err)"
  using assms by (auto simp: deliveryOk_def finishAttempt_def Let_def fenced_def nth_list_update
      last_conv_nth)

interpretation delivery_machine: invariant_machine deliveryStep deliveriesOk
proof
  show "deliveriesOk (fst (deliveryStep r x))" if "deliveriesOk r" for r x
    using that
    by (cases x) (auto simp: deliveriesOk_def Ensure_def Begin_def Complete_def Fail_def Let_def
        deliveryOk_begun deliveryOk_finished deliveryOk_new split: option.splits)
qed

lemma deliveriesAfter_ok: "deliveriesAfter ops i = Some d \<Longrightarrow> deliveryOk i d"
  using delivery_machine.run_inv [of NewDeliveryReducer ops]
  by (simp add: deliveriesOk_def NewDeliveryReducer_def)

text \<open>Deliveries go through their attempts in order: in every state a run reaches, the
  attempts of a delivery are numbered from one with distinct claim tokens, all but the last
  have failed, the last has the delivery's status, there is no attempt exactly while it is
  pending, and the delivery carries a claim token exactly while it is claimed: the last
  attempt's.\<close>

theorem delivery_attempts_in_order:
  assumes "deliveriesAfter ops i = Some d"
  shows "map daNumber (dlAttempts d) = map (\<lambda>n. of_nat (n + 1)) [0..<length (dlAttempts d)] \<and>
    map daToken (dlAttempts d) = map (claimToken i) (map daNumber (dlAttempts d)) \<and>
    (\<forall>a \<in> set (butlast (dlAttempts d)). daStatus a = Failed) \<and>
    (dlAttempts d = [] \<longleftrightarrow> dlStatus d = Pending) \<and>
    (dlAttempts d \<noteq> [] \<longrightarrow> daStatus (last (dlAttempts d)) = dlStatus d) \<and>
    dlClaimToken d = (if dlStatus d = Claimed then daToken (last (dlAttempts d)) else [])"
proof -
  have ok: "deliveryOk i d" by (rule deliveriesAfter_ok [OF assms])
  have "daStatus a = Failed" if a: "a \<in> set (butlast (dlAttempts d))" for a
  proof -
    obtain n where "n < length (dlAttempts d) - 1" "a = dlAttempts d ! n"
      using a by (auto simp: in_set_conv_nth nth_butlast)
    with ok show ?thesis by (auto simp: deliveryOk_def)
  qed
  moreover have "map daNumber (dlAttempts d) = map (\<lambda>n. of_nat (n + 1)) [0..<length (dlAttempts d)]"
    using ok by (intro nth_equalityI) (simp_all add: deliveryOk_def)
  moreover have "map daToken (dlAttempts d) = map (claimToken i) (map daNumber (dlAttempts d))"
    using ok by (intro nth_equalityI) (simp_all add: deliveryOk_def)
  moreover have "dlAttempts d = [] \<longleftrightarrow> dlStatus d = Pending"
    "dlClaimToken d = (if dlStatus d = Claimed then daToken (last (dlAttempts d)) else [])"
    using ok by (simp_all add: deliveryOk_def)
  ultimately show ?thesis
    using deliveryOk_last(1) [OF ok] by (simp only:) blast
qed

definition demoIntent :: intent where
  "demoIntent = \<lparr>inID = ''i1'', inAlertTransitionID = ''t1'', inSeriesID = ''s1'', inGeneration = 1,
     inKind = Open, inAudience = ''ops'', inAt = 100, inEffectiveAt = 100, inEvidenceAt = 100\<rparr>"

definition demoOps :: "delivery_op list" where
  "demoOps = [OpEnsure demoIntent, OpBegin ''i1'' 100,
     OpFail ''i1'' (claimToken ''i1'' 1) 110 (Some ''down''), OpBegin ''i1'' 120]"

definition demoDelivery :: delivery where
  "demoDelivery = \<lparr>dlIntentID = ''i1'', dlStatus = Claimed, dlClaimToken = claimToken ''i1'' 2,
     dlAttempts = [\<lparr>daNumber = 1, daToken = claimToken ''i1'' 1, daStatus = Failed,
       daStartedAt = 100, daFinishedAt = 110, daError = ''down''\<rparr>,
       \<lparr>daNumber = 2, daToken = claimToken ''i1'' 2, daStatus = Claimed,
       daStartedAt = 120, daFinishedAt = 0, daError = []\<rparr>]\<rparr>"

lemma demoDelivery_reached: "deliveriesAfter demoOps ''i1'' = Some demoDelivery"
  by (simp add: demoOps_def NewDeliveryReducer_def Ensure_def Begin_def Fail_def fenced_def
      finishAttempt_def demoIntent_def demoDelivery_def Let_def)

theorem delivery_attempts_in_order_witness:
  "map daNumber (dlAttempts demoDelivery) = [1, 2] \<and>
   map daStatus (butlast (dlAttempts demoDelivery)) = [Failed]"
  using delivery_attempts_in_order [OF demoDelivery_reached]
  by (simp add: demoDelivery_def upt_rec)

text \<open>The claim fence: in every state a run reaches, a delivery can be begun exactly when it
  is pending or failed, and completed or failed exactly when it is claimed and the callback
  carries the token of the attempt in progress. A rejected call changes nothing.\<close>

theorem claim_fence:
  assumes "deliveriesAfter ops i = Some d"
  shows "let r = deliveriesAfter ops; current = claimToken i (of_nat (length (dlAttempts d))) in
    (snd (Begin r i at) \<noteq> None \<longleftrightarrow> dlStatus d = Pending \<or> dlStatus d = Failed) \<and>
    (snd (Complete r i token at) \<noteq> None \<longleftrightarrow> dlStatus d = Claimed \<and> token = current) \<and>
    (snd (Fail r i token at err) \<noteq> None \<longleftrightarrow> dlStatus d = Claimed \<and> token = current) \<and>
    (snd (Begin r i at) = None \<longrightarrow> fst (Begin r i at) = r) \<and>
    (snd (Complete r i token at) = None \<longrightarrow> fst (Complete r i token at) = r) \<and>
    (snd (Fail r i token at err) = None \<longrightarrow> fst (Fail r i token at err) = r)"
  using fenced_iff [OF deliveriesAfter_ok [OF assms], of token] assms
  by (cases "dlStatus d") (simp_all add: Begin_def Complete_def Fail_def Let_def)

theorem claim_fence_witness:
  "snd (Complete (deliveriesAfter demoOps) ''i1'' (claimToken ''i1'' 1) 130) = None \<and>
   snd (Complete (deliveriesAfter demoOps) ''i1'' (claimToken ''i1'' 2) 130) \<noteq> None"
  using claim_fence [OF demoDelivery_reached, of 130 "claimToken ''i1'' 1"]
    claim_fence [OF demoDelivery_reached, of 130 "claimToken ''i1'' 2"]
  by (simp add: Let_def demoDelivery_def)

subsection \<open>Claims that are over\<close>

text \<open>A claim is over when its attempt is not the one in progress; it stays over.\<close>

definition claimOver :: "delivery_reducer \<Rightarrow> string \<Rightarrow> nat \<Rightarrow> bool" where
  "claimOver r i n \<longleftrightarrow> (\<exists>d. r i = Some d \<and>
     (n < length (dlAttempts d) \<or> n = length (dlAttempts d) \<and> dlStatus d \<noteq> Claimed))"

lemma finishAttempt_simps [simp]:
  "dlStatus (finishAttempt d st at err) = st"
  "length (dlAttempts (finishAttempt d st at err)) = length (dlAttempts d)"
  by (simp_all add: finishAttempt_def Let_def)

lemma claimOver_step:
  assumes "claimOver r i n"
  shows "claimOver (fst (deliveryStep r x)) i n"
  using assms
  by (cases x) (auto simp: claimOver_def Ensure_def Begin_def Complete_def Fail_def Let_def
      split: option.splits)

lemma claimOver_run: "claimOver r i n \<Longrightarrow> claimOver (fst (run deliveryStep r ops)) i n"
proof (induction ops arbitrary: r)
  case (Cons x ops)
  from Cons.IH [OF claimOver_step [OF Cons.prems]] show ?case
    by (simp add: Let_def case_prod_beta)
qed simp

text \<open>A claim is used once: after \<^verbatim>\<open>Complete\<close> or \<^verbatim>\<open>Fail\<close> has accepted a token,
  no later callback with that token is accepted, whatever operations came in between, retries
  of the same delivery included (as long as it has fewer than \<open>2 ^ 64\<close> attempts, the range of
  their number).\<close>

theorem claim_used_once:
  assumes "snd (Complete (deliveriesAfter ops) i token at) \<noteq> None \<and> fin = OpComplete i token at \<or>
      snd (Fail (deliveriesAfter ops) i token at err) \<noteq> None \<and> fin = OpFail i token at err"
    and "deliveriesAfter (ops @ fin # later) i = Some d" and "length (dlAttempts d) < 2 ^ 64"
  shows "snd (Complete (deliveriesAfter (ops @ fin # later)) i token at') = None \<and>
    snd (Fail (deliveriesAfter (ops @ fin # later)) i token at' err') = None"
proof -
  let ?r = "deliveriesAfter ops"
  obtain e where e: "?r i = Some e" and f: "fenced e token"
    using assms(1) by (auto simp: Complete_def Fail_def Let_def split: option.splits if_splits)
  let ?n = "length (dlAttempts e)"
  have tok: "token = claimToken i (of_nat ?n)"
    using f fenced_iff [OF deliveriesAfter_ok [OF e]] by blast
  have "claimOver (fst (deliveryStep ?r fin)) i ?n"
    using assms(1) e f by (auto simp: Complete_def Fail_def Let_def claimOver_def)
  then have "claimOver (deliveriesAfter (ops @ fin # later)) i ?n"
    using claimOver_run by (simp add: run_append Let_def case_prod_beta)
  then have over: "?n < length (dlAttempts d) \<or> ?n = length (dlAttempts d) \<and> dlStatus d \<noteq> Claimed"
    using assms(2) by (simp add: claimOver_def)
  have "\<not> fenced d token"
  proof
    assume "fenced d token"
    then have "dlStatus d = Claimed" "(of_nat ?n :: u64) = of_nat (length (dlAttempts d))"
      using fenced_iff [OF deliveriesAfter_ok [OF assms(2)]] tok by simp_all
    with over assms(3) show False
      by (auto simp: word_of_nat_eq_iff take_bit_nat_eq_self)
  qed
  then show ?thesis
    using assms(2) by (simp add: Complete_def Fail_def)
qed

theorem claim_used_once_witness:
  "snd (Complete (deliveriesAfter demoOps) ''i1'' (claimToken ''i1'' 1) 130) = None \<and>
   dlStatus demoDelivery = Claimed"
proof -
  let ?before = "[OpEnsure demoIntent, OpBegin ''i1'' 100]"
  let ?fail = "OpFail ''i1'' (claimToken ''i1'' 1) 110 (Some ''down'')"
  have ops: "?before @ ?fail # [OpBegin ''i1'' 120] = demoOps" by (simp add: demoOps_def)
  have "snd (Fail (deliveriesAfter ?before) ''i1'' (claimToken ''i1'' 1) 110 (Some ''down'')) \<noteq> None"
    by (simp add: NewDeliveryReducer_def Ensure_def Begin_def Fail_def fenced_def demoIntent_def Let_def)
  with claim_used_once [of ?before "''i1''" "claimToken ''i1'' 1" 110 ?fail "Some ''down''"
      "[OpBegin ''i1'' 120]" demoDelivery] demoDelivery_reached
  show ?thesis unfolding ops by (simp add: demoDelivery_def)
qed

lemma delivered_step:
  assumes "r i = Some d" and "dlStatus d = Delivered"
  shows "fst (deliveryStep r x) i = Some d"
  using assms
  by (cases x) (auto simp: Ensure_def Begin_def Complete_def Fail_def Let_def fenced_def
      split: option.splits)

lemma delivered_run:
  "r i = Some d \<Longrightarrow> dlStatus d = Delivered \<Longrightarrow> fst (run deliveryStep r ops) i = Some d"
proof (induction ops arbitrary: r)
  case (Cons x ops)
  from Cons.prems have "fst (deliveryStep r x) i = Some d" by (rule delivered_step)
  with Cons.IH [of "fst (deliveryStep r x)"] Cons.prems(2) show ?case
    by (simp add: Let_def case_prod_beta)
qed simp

text \<open>Delivered is final: once \<^verbatim>\<open>Complete\<close> has been accepted, every later operation
  leaves the delivery as it was handed back, and no operation begins it again.\<close>

theorem delivered_is_final:
  assumes "Complete r i token at = (r1, Some d)"
  shows "let r2 = fst (run deliveryStep r1 ops) in
    Delivery r2 i = Some d \<and> dlStatus d = Delivered \<and> snd (Begin r2 i at') = None"
proof -
  have "r1 i = Some d" "dlStatus d = Delivered"
    using assms by (auto simp: Complete_def Let_def split: option.splits if_splits)
  then show ?thesis
    by (simp add: Let_def Delivery_def delivered_run Begin_def)
qed

theorem delivered_is_final_witness:
  "let r1 = fst (Complete (deliveriesAfter demoOps) ''i1'' (claimToken ''i1'' 2) 130)
   in snd (Begin (fst (run deliveryStep r1 [OpEnsure demoIntent])) ''i1'' 140) = None"
proof -
  let ?c = "Complete (deliveriesAfter demoOps) ''i1'' (claimToken ''i1'' 2) 130"
  have "\<exists>d. snd ?c = Some d"
    using demoDelivery_reached by (simp add: Complete_def fenced_def demoDelivery_def Let_def)
  then obtain d where "?c = (fst ?c, Some d)" by (metis prod.collapse)
  from delivered_is_final [OF this, of "[OpEnsure demoIntent]" 140] show ?thesis
    by (simp only: Let_def)
qed

end
