(* ===== verification/Rules.thy ===== *)
theory Rules
  imports Prelude
begin

text \<open>
  Rule definitions, \<^verbatim>\<open>internal/rules\<close>: durations and the typed definition
  (\<^verbatim>\<open>types.go\<close>), validation (\<^verbatim>\<open>validate.go\<close>), compilation
  (\<^verbatim>\<open>compile.go\<close>, \<^verbatim>\<open>groups.go\<close>) and three-valued evaluation
  (\<^verbatim>\<open>evaluate.go\<close>), in the order of the source. A group resolver and a field
  lookup are interfaces that other packages implement: they are arguments.
\<close>

subsection \<open>Durations\<close>

abbreviation second :: duration where "second \<equiv> 1000000000"
abbreviation minute :: duration where "minute \<equiv> 60000000000"
abbreviation hour :: duration where "hour \<equiv> 3600000000000"
abbreviation year :: duration where "year \<equiv> 31536000000000000"

datatype duration_error = DurationSyntax | DurationTooLarge | DurationExceedsYear

text \<open>The submatches of \<^verbatim>\<open>^(0|[1-9][0-9]*)(s|m|h)$\<close>.\<close>

definition durationPattern :: "string \<Rightarrow> (string \<times> char) option" where
  "durationPattern s = (if s = [] then None
     else let ds = butlast s; u = last s in
       if (u = CHR ''s'' \<or> u = CHR ''m'' \<or> u = CHR ''h'') \<and> ds \<noteq> [] \<and> list_all isDigit ds \<and>
          (ds = ''0'' \<or> hd ds \<noteq> CHR ''0'')
       then Some (ds, u) else None)"

definition ParseDuration :: "string \<Rightarrow> duration_error + duration" where
  "ParseDuration s = (case durationPattern s of
       None \<Rightarrow> Inl DurationSyntax
     | Some (ds, u) \<Rightarrow>
         let n = int (decimal_value ds) in
         if n > 2 ^ 63 - 1 then Inl DurationTooLarge
         else let mult = (if u = CHR ''m'' then second * 60 else if u = CHR ''h'' then second * 3600
                          else second)
              in if n > year div mult then Inl DurationExceedsYear else Inr (n * mult))"

definition canonicalDurationString :: "duration \<Rightarrow> string option" where
  "canonicalDurationString d =
     (if d < 0 \<or> d > year \<or> d mod second \<noteq> 0 then None
      else let n = d div hour in
        if n > 0 \<and> d mod hour = 0 then Some (formatInt n @ ''h'')
        else let n = d div minute in
          if n > 0 \<and> d mod minute = 0 then Some (formatInt n @ ''m'')
          else Some (formatInt (d div second) @ ''s''))"

definition durationString :: "duration \<Rightarrow> string" where
  "durationString d = (case canonicalDurationString d of None \<Rightarrow> [] | Some s \<Rightarrow> s)"

definition timeDurationInvalid :: "duration \<Rightarrow> bool" where
  "timeDurationInvalid d \<longleftrightarrow> d < 0 \<or> d mod second \<noteq> 0 \<or> d > year"

subsection \<open>Definitions\<close>

record targets =
  tgKind :: string
  tgIDs :: "string list"
  tgGroupIDs :: "string list"

text \<open>\<^verbatim>\<open>OperandKind\<close> is a string; the last constructor holds the strings no constant
  names.\<close>

datatype operand_kind = OperandField | OperandInteger | OperandDuration | OperandBoolean
  | OperandAgentState | OtherOperand string

record operand =
  opKind :: operand_kind
  opField :: string
  opInteger :: int
  opDuration :: duration
  opBoolean :: bool
  opAgentState :: string

definition zeroOperand :: "operand_kind \<Rightarrow> operand" where
  "zeroOperand k = \<lparr>opKind = k, opField = [], opInteger = 0, opDuration = 0, opBoolean = False,
     opAgentState = []\<rparr>"

definition FieldOperand :: "string \<Rightarrow> operand" where
  "FieldOperand v = (zeroOperand OperandField)\<lparr>opField := v\<rparr>"

definition IntegerOperand :: "int \<Rightarrow> operand" where
  "IntegerOperand v = (zeroOperand OperandInteger)\<lparr>opInteger := v\<rparr>"

definition DurationOperand :: "duration \<Rightarrow> operand" where
  "DurationOperand v = (zeroOperand OperandDuration)\<lparr>opDuration := v\<rparr>"

definition BooleanOperand :: "bool \<Rightarrow> operand" where
  "BooleanOperand v = (zeroOperand OperandBoolean)\<lparr>opBoolean := v\<rparr>"

definition AgentStateOperand :: "string \<Rightarrow> operand" where
  "AgentStateOperand v = (zeroOperand OperandAgentState)\<lparr>opAgentState := v\<rparr>"

record comparison =
  cmLeft :: operand
  cmOperator :: string
  cmRight :: operand

text \<open>
  The interface \<^verbatim>\<open>Expression\<close>: its nil value, and the two struct types, each as a
  value and as a pointer (a nil pointer is \<open>None\<close>). The JSON decoder builds pointers, the
  constructors build values.
\<close>

datatype expression = NilExpression
  | CompareExpression comparison | CompareRef "comparison option"
  | AllExpression "expression list" | AllRef "expression list option"

record condition =
  cdPredicate :: expression
  cdFor :: duration

record notification_policy =
  npOnOpen :: bool
  npOnRecovery :: bool
  npAudience :: string

record rule_definition =
  rdSchemaVersion :: int
  rdName :: string
  rdDescription :: string
  rdTargets :: targets
  rdTrigger :: condition
  rdClear :: condition
  rdNotifications :: notification_policy

definition NewCompare :: "operand \<Rightarrow> string \<Rightarrow> operand \<Rightarrow> expression" where
  "NewCompare l op r = CompareExpression \<lparr>cmLeft = l, cmOperator = op, cmRight = r\<rparr>"

definition NewRuleDefinition ::
  "string \<Rightarrow> string \<Rightarrow> targets \<Rightarrow> condition \<Rightarrow> condition \<Rightarrow> notification_policy \<Rightarrow> rule_definition"
where
  "NewRuleDefinition name desc tgs trig clr notif = \<lparr>rdSchemaVersion = 1, rdName = name,
     rdDescription = desc, rdTargets = tgs, rdTrigger = trig, rdClear = clr, rdNotifications = notif\<rparr>"

subsection \<open>The field catalog\<close>

datatype field_type = TypeDuration | TypeCount | TypeBoolean | TypeAgentState

record field_spec =
  fsName :: string
  fsSubject :: string
  fsType :: field_type
  fsOperators :: "string list"
  fsSourceProjection :: string
  fsDependency :: string

definition orderOperators :: "string list" where
  "orderOperators = [''eq'', ''ne'', ''gt'', ''gte'', ''lt'', ''lte'']"

definition queueField :: "string \<Rightarrow> field_type \<Rightarrow> string \<Rightarrow> string \<times> field_spec" where
  "queueField name ty src = (name, \<lparr>fsName = name, fsSubject = ''queue'', fsType = ty,
     fsOperators = orderOperators, fsSourceProjection = src, fsDependency = ''queue_snapshot''\<rparr>)"

definition fieldCatalog :: "(string \<times> field_spec) list" where
  "fieldCatalog =
     [queueField ''queue.longest_wait'' TypeDuration ''longest_wait_sec'',
      queueField ''queue.sla_target'' TypeDuration ''sla_target_sec'',
      queueField ''queue.tickets_waiting'' TypeCount ''tickets_waiting'',
      queueField ''queue.agents_available'' TypeCount ''agents_available'',
      queueField ''queue.agents_on_call'' TypeCount ''agents_on_call'',
      queueField ''queue.volume_last_15m'' TypeCount ''volume_last_15m'',
      queueField ''queue.volume_forecast_next_15m'' TypeCount ''volume_forecast_next_15m'',
      (''adherence.violation'', \<lparr>fsName = ''adherence.violation'', fsSubject = ''agent'',
        fsType = TypeBoolean, fsOperators = [''eq'', ''ne''], fsSourceProjection = ''in_violation'',
        fsDependency = ''adherence''\<rparr>),
      (''agent.current_state'', \<lparr>fsName = ''agent.current_state'', fsSubject = ''agent'',
        fsType = TypeAgentState, fsOperators = [''eq'', ''ne''], fsSourceProjection = ''new_state'',
        fsDependency = ''agent_state''\<rparr>)]"

definition FieldSpecFor :: "string \<Rightarrow> field_spec option" where
  "FieldSpecFor name = map_of fieldCatalog name"

text \<open>\<^verbatim>\<open>sort.Strings\<close>.\<close>

definition sortStrings :: "string list \<Rightarrow> string list" where
  "sortStrings = sort_by (<)"

definition FieldCatalog :: "field_spec list" where
  "FieldCatalog = map (\<lambda>n. the (FieldSpecFor n)) (sortStrings (map fst fieldCatalog))"

definition validAgentState :: "string \<Rightarrow> bool" where
  "validAgentState s \<longleftrightarrow> s = ''available'' \<or> s = ''on_call'' \<or> s = ''on_break'' \<or> s = ''in_meeting''"

subsection \<open>Validation\<close>

record validation_error =
  veCode :: string
  vePath :: string
  veMessage :: string

abbreviation verr :: "string \<Rightarrow> string \<Rightarrow> string \<Rightarrow> validation_error" where
  "verr c p m \<equiv> \<lparr>veCode = c, vePath = p, veMessage = m\<rparr>"

text \<open>A JSON pointer step: \<^verbatim>\<open>~\<close> is replaced first, then \<^verbatim>\<open>/\<close>.\<close>

definition replaceChar :: "char \<Rightarrow> string \<Rightarrow> string \<Rightarrow> string" where
  "replaceChar c new s = concat (map (\<lambda>x. if x = c then new else [x]) s)"

definition ptr :: "string \<Rightarrow> string \<Rightarrow> string" where
  "ptr base part = base @ ''/'' @ replaceChar (CHR ''/'') ''~1'' (replaceChar (CHR ''~'') ''~0'' part)"

text \<open>The loop over the selectors of one kind; \<open>seen\<close> maps an identifier to the path of its
  first occurrence.\<close>

fun validateSelectors ::
  "string \<Rightarrow> string \<Rightarrow> string \<Rightarrow> nat \<Rightarrow> (string \<rightharpoonup> string) \<Rightarrow> string list \<Rightarrow> validation_error list"
where
  "validateSelectors base what dup i seen [] = []"
| "validateSelectors base what dup i seen (x # xs) =
     (let p = ptr base (decimal i) in
      (if x = [] then [verr ''invalid_selector'' p (what @ '' cannot be empty'')] else []) @
      (case seen x of
         Some j \<Rightarrow> verr ''duplicate_selector'' p (dup @ '' duplicates '' @ j) #
                   validateSelectors base what dup (i + 1) seen xs
       | None \<Rightarrow> validateSelectors base what dup (i + 1) (seen(x \<mapsto> p)) xs))"

text \<open>The type of an operand; \<open>None\<close> is the empty \<^verbatim>\<open>FieldType\<close>.\<close>

definition validateOperand ::
  "operand \<Rightarrow> string \<Rightarrow> string \<Rightarrow> validation_error list \<times> field_type option"
where
  "validateOperand o' p subject = (case opKind o' of
       OperandField \<Rightarrow> (case FieldSpecFor (opField o') of
           None \<Rightarrow> ([verr ''unknown_field_name'' (ptr p ''name'') ''unknown field''], None)
         | Some f \<Rightarrow>
             if fsSubject f \<noteq> subject
             then ([verr ''subject_mismatch'' (ptr p ''name'') ''field does not apply to target subject''], None)
             else ([], Some (fsType f)))
     | OperandInteger \<Rightarrow>
         ((if opInteger o' < 0
           then [verr ''invalid_value'' (ptr p ''value'') ''count/integer cannot be negative''] else []),
          Some TypeCount)
     | OperandDuration \<Rightarrow>
         ((if timeDurationInvalid (opDuration o')
           then [verr ''invalid_duration'' (ptr p ''value'') ''invalid duration''] else []),
          Some TypeDuration)
     | OperandBoolean \<Rightarrow> ([], Some TypeBoolean)
     | OperandAgentState \<Rightarrow>
         ((if \<not> validAgentState (opAgentState o')
           then [verr ''invalid_value'' (ptr p ''value'') ''unknown agent state''] else []),
          Some TypeAgentState)
     | OtherOperand _ \<Rightarrow> ([verr ''unsupported_operand'' p ''unsupported operand kind''], None))"

definition allowedOperatorType :: "field_type \<Rightarrow> string \<Rightarrow> bool" where
  "allowedOperatorType t op = (case t of
       TypeDuration \<Rightarrow> op \<in> set orderOperators
     | TypeCount \<Rightarrow> op \<in> set orderOperators
     | TypeBoolean \<Rightarrow> op = ''eq'' \<or> op = ''ne''
     | TypeAgentState \<Rightarrow> op = ''eq'' \<or> op = ''ne'')"

definition validateCompare :: "comparison \<Rightarrow> string \<Rightarrow> string \<Rightarrow> validation_error list" where
  "validateCompare e p subject =
     (let (es1, left) = validateOperand (cmLeft e) (ptr p ''left'') subject;
          (es2, right) = validateOperand (cmRight e) (ptr p ''right'') subject
      in es1 @ es2 @ (case (left, right) of
           (Some l, Some r) \<Rightarrow>
             if l \<noteq> r then [verr ''operand_type_mismatch'' p ''comparison operands must have compatible types'']
             else if \<not> allowedOperatorType l (cmOperator e)
               then [verr ''invalid_operator'' (ptr p ''op'') ''operator is not allowed for this type'']
             else []
         | _ \<Rightarrow> []))"

text \<open>
  The closure \<^verbatim>\<open>walk\<close> with its counter threaded. An \<^verbatim>\<open>all\<close> only walks into
  comparisons, so the recursion is one level deep; the value form of an \<^verbatim>\<open>all\<close> is walked
  again as a pointer, which counts it twice.
\<close>

definition sizeError :: "string \<Rightarrow> validation_error" where
  "sizeError p = verr ''size_limit'' p ''expression exceeds maximum node count''"

definition unsupported :: "string \<Rightarrow> string \<Rightarrow> validation_error" where
  "unsupported p m = verr ''unsupported_expression'' p m"

fun walkCompare :: "string \<Rightarrow> expression \<Rightarrow> string \<Rightarrow> nat \<Rightarrow> validation_error list \<times> nat" where
  "walkCompare subject (CompareRef None) p n =
     (if n + 1 > 32 then ([sizeError p], n + 1)
      else ([unsupported p ''expression cannot be nil''], n + 1))"
| "walkCompare subject (CompareRef (Some e)) p n =
     (if n + 1 > 32 then ([sizeError p], n + 1) else (validateCompare e p subject, n + 1))"
| "walkCompare subject (CompareExpression e) p n =
     (if n + 1 > 32 then ([sizeError p], n + 1) else (validateCompare e p subject, n + 1))"
| "walkCompare subject _ p n = ([], n)"

fun isCompare :: "expression \<Rightarrow> bool" where
  "isCompare (CompareRef _) = True"
| "isCompare (CompareExpression _) = True"
| "isCompare _ = False"

fun walkConditions ::
  "string \<Rightarrow> string \<Rightarrow> nat \<Rightarrow> expression list \<Rightarrow> nat \<Rightarrow> validation_error list \<times> nat"
where
  "walkConditions subject p i [] n = ([], n)"
| "walkConditions subject p i (c # cs) n =
     (let q = ptr (ptr p ''conditions'') (decimal i);
          (es1, n1) = (if isCompare c then walkCompare subject c q n
            else ([unsupported q ''all may contain compare expressions only''], n));
          (es2, n2) = walkConditions subject p (i + 1) cs n1
      in (es1 @ es2, n2))"

text \<open>\<open>walkAll\<close> is the \<^verbatim>\<open>*AllExpression\<close> branch of a walk that starts with \<open>n\<close> nodes
  counted; the flag \<^verbatim>\<open>nested\<close> is never set for it.\<close>

definition walkAll ::
  "string \<Rightarrow> expression list option \<Rightarrow> string \<Rightarrow> nat \<Rightarrow> validation_error list \<times> nat"
where
  "walkAll subject e p n =
     (if n + 1 > 32 then ([sizeError p], n + 1)
      else case e of
        None \<Rightarrow> ([unsupported p ''expression cannot be nil''], n + 1)
      | Some cs \<Rightarrow>
          let es0 = (if cs = [] then [unsupported (ptr p ''conditions'') ''all requires at least one condition'']
                     else []);
              (es, n') = walkConditions subject p 0 cs (n + 1)
          in (es0 @ es, n'))"

definition walk :: "string \<Rightarrow> expression \<Rightarrow> string \<Rightarrow> nat \<Rightarrow> validation_error list \<times> nat" where
  "walk subject x p n = (case x of
       CompareRef _ \<Rightarrow> walkCompare subject x p n
     | CompareExpression _ \<Rightarrow> walkCompare subject x p n
     | AllRef e \<Rightarrow> walkAll subject e p n
     | AllExpression cs \<Rightarrow>
         if n + 1 > 32 then ([sizeError p], n + 1) else walkAll subject (Some cs) p (n + 1)
     | NilExpression \<Rightarrow>
         if n + 1 > 32 then ([sizeError p], n + 1)
         else ([unsupported p ''unsupported expression''], n + 1))"

definition validateExpression :: "expression \<Rightarrow> string \<Rightarrow> string \<Rightarrow> validation_error list" where
  "validateExpression x path subject = fst (walk subject x path 0)"

definition validateCondition :: "condition \<Rightarrow> string \<Rightarrow> string \<Rightarrow> validation_error list" where
  "validateCondition c name subject =
     (if cdPredicate c = NilExpression
      then [verr ''required'' (''/'' @ name @ ''/predicate'') (name @ '' predicate is required'')]
      else validateExpression (cdPredicate c) (''/'' @ name @ ''/predicate'') subject) @
     (if timeDurationInvalid (cdFor c)
      then [verr ''invalid_duration'' (''/'' @ name @ ''/for'') ''duration must be non-negative whole seconds'']
      else [])"

definition validationErrors :: "rule_definition \<Rightarrow> validation_error list" where
  "validationErrors r =
     (if rdSchemaVersion r \<noteq> 1
      then [verr ''invalid_schema_version'' ''/schema_version'' ''schema_version must be 1''] else []) @
     (if rdName r = [] then [verr ''required'' ''/name'' ''name is required'']
      else if length (rdName r) > 200
        then [verr ''size_limit'' ''/name'' ''name must be at most 200 characters'']
      else []) @
     (if length (rdDescription r) > 2000
      then [verr ''size_limit'' ''/description'' ''description must be at most 2000 characters''] else []) @
     (if tgKind (rdTargets r) \<noteq> ''queue'' \<and> tgKind (rdTargets r) \<noteq> ''agent''
      then [verr ''invalid_subject_kind'' ''/targets/kind'' ''kind must be queue or agent''] else []) @
     (if tgIDs (rdTargets r) = [] \<and> tgGroupIDs (rdTargets r) = []
      then [verr ''empty_targets'' ''/targets'' ''at least one explicit ID or group ID is required''] else []) @
     validateSelectors ''/targets/ids'' ''selector ID'' ''selector'' 0 Map.empty (tgIDs (rdTargets r)) @
     validateSelectors ''/targets/group_ids'' ''group ID'' ''group ID'' 0 Map.empty (tgGroupIDs (rdTargets r)) @
     validateCondition (rdTrigger r) ''trigger'' (tgKind (rdTargets r)) @
     validateCondition (rdClear r) ''clear'' (tgKind (rdTargets r)) @
     (if npAudience (rdNotifications r) = []
      then [verr ''required'' ''/notifications/audience'' ''audience is required'']
      else if length (npAudience (rdNotifications r)) > 200
        then [verr ''size_limit'' ''/notifications/audience'' ''audience must be at most 200 characters'']
      else [])"

definition errorLess :: "validation_error \<Rightarrow> validation_error \<Rightarrow> bool" where
  "errorLess a b = (if vePath a \<noteq> vePath b then vePath a < vePath b else veCode a < veCode b)"

text \<open>\<^verbatim>\<open>Validate\<close> returns the sorted errors; the empty list is success.\<close>

definition Validate :: "rule_definition \<Rightarrow> validation_error list" where
  "Validate r = (let es = validationErrors r in if length es = 0 then [] else sort_by errorLess es)"

subsection \<open>Compilation\<close>

record group_snapshot =
  gsKind :: string
  gsRevision :: int
  gsMembers :: "string list"

type_synonym group_resolver = "string \<Rightarrow> string \<Rightarrow> string + group_snapshot"

record resolved_target =
  rtKind :: string
  rtID :: string

record pinned_group =
  pgID :: string
  pgRevision :: int
  pgMembers :: "string list"

record compiled_plan =
  plSubject :: string
  plExplicitIDs :: "string list"
  plGroupIDs :: "string list"
  plPinnedGroups :: "pinned_group list"
  plPinnedTargetIDs :: "string list"
  plTargetIndex :: "string set"
  plTrigger :: "comparison list"
  plClear :: "comparison list"
  plTriggerFor :: duration
  plClearFor :: duration
  plNotifications :: notification_policy

datatype compile_error = InvalidDefinition "validation_error list" | ResolverRequired
  | ResolveFailed string string | WrongGroupKind string | InvalidGroupRevision string

text \<open>The in-place removal of adjacent duplicates: \<open>prev\<close> is \<^verbatim>\<open>out[end-1]\<close>.\<close>

fun dropRepeats :: "string option \<Rightarrow> string list \<Rightarrow> string list" where
  "dropRepeats prev [] = []"
| "dropRepeats prev (v # vs) =
     (if prev = Some v then dropRepeats prev vs else v # dropRepeats (Some v) vs)"

definition canonicalIDs :: "string list \<Rightarrow> string list" where
  "canonicalIDs values = (if length values = 0 then [] else dropRepeats None (sortStrings values))"

fun flatten :: "expression \<Rightarrow> comparison list" where
  "flatten NilExpression = []"
| "flatten (CompareRef None) = []"
| "flatten (CompareRef (Some e)) = [e]"
| "flatten (CompareExpression e) = [e]"
| "flatten (AllRef None) = []"
| "flatten (AllRef (Some cs)) = concat (map flatten cs)"
| "flatten (AllExpression cs) = concat (map flatten cs)"

fun pinGroups ::
  "group_resolver \<Rightarrow> string \<Rightarrow> string list \<Rightarrow> compile_error + pinned_group list"
where
  "pinGroups resolver kind [] = Inr []"
| "pinGroups resolver kind (i # is) = (case resolver kind i of
       Inl err \<Rightarrow> Inl (ResolveFailed i err)
     | Inr snap \<Rightarrow>
         if gsKind snap \<noteq> kind then Inl (WrongGroupKind i)
         else if gsRevision snap \<le> 0 then Inl (InvalidGroupRevision i)
         else (case pinGroups resolver kind is of
             Inl err \<Rightarrow> Inl err
           | Inr gs \<Rightarrow> Inr (\<lparr>pgID = i, pgRevision = gsRevision snap, pgMembers = canonicalIDs (gsMembers snap)\<rparr> # gs)))"

definition Compile :: "rule_definition \<Rightarrow> group_resolver option \<Rightarrow> compile_error + compiled_plan" where
  "Compile r resolver =
     (if Validate r \<noteq> [] then Inl (InvalidDefinition (Validate r))
      else let kind = tgKind (rdTargets r);
               explicit = canonicalIDs (tgIDs (rdTargets r));
               groups = canonicalIDs (tgGroupIDs (rdTargets r));
               pinned = (case resolver of
                   None \<Rightarrow> if tgGroupIDs (rdTargets r) \<noteq> [] then Inl ResolverRequired else Inr []
                 | Some res \<Rightarrow> pinGroups res kind groups)
        in case pinned of
             Inl err \<Rightarrow> Inl err
           | Inr gs \<Rightarrow>
               let ids = canonicalIDs (explicit @ concat (map pgMembers gs))
               in Inr \<lparr>plSubject = kind, plExplicitIDs = explicit, plGroupIDs = groups,
                    plPinnedGroups = gs, plPinnedTargetIDs = ids, plTargetIndex = set ids,
                    plTrigger = flatten (cdPredicate (rdTrigger r)),
                    plClear = flatten (cdPredicate (rdClear r)),
                    plTriggerFor = cdFor (rdTrigger r), plClearFor = cdFor (rdClear r),
                    plNotifications = rdNotifications r\<rparr>)"

definition Targets :: "compiled_plan \<Rightarrow> resolved_target list" where
  "Targets p = map (\<lambda>i. \<lparr>rtKind = plSubject p, rtID = i\<rparr>) (plPinnedTargetIDs p)"

definition HasTarget :: "compiled_plan \<Rightarrow> string \<Rightarrow> string \<Rightarrow> bool" where
  "HasTarget p kind i \<longleftrightarrow> (if plSubject p \<noteq> kind then False else i \<in> plTargetIndex p)"

definition PinnedGroups :: "compiled_plan \<Rightarrow> pinned_group list" where
  "PinnedGroups p = plPinnedGroups p"

text \<open>\<^verbatim>\<open>ValidateWithGroups\<close>: the messages of the resolver's errors are its own.\<close>

fun groupErrors :: "group_resolver \<Rightarrow> string \<Rightarrow> nat \<Rightarrow> string list \<Rightarrow> validation_error list" where
  "groupErrors resolver kind i [] = []"
| "groupErrors resolver kind i (g # gs) =
     (let p = ptr ''/targets/group_ids'' (decimal i) in
      (case resolver kind g of
         Inl err \<Rightarrow> [verr ''group_resolution_failed'' p err]
       | Inr snap \<Rightarrow> if gsKind snap \<noteq> kind \<or> gsRevision snap \<le> 0
           then [verr ''group_resolution_failed'' p ''group snapshot has wrong kind or revision''] else []) @
      groupErrors resolver kind (i + 1) gs)"

definition ValidateWithGroups :: "rule_definition \<Rightarrow> group_resolver option \<Rightarrow> validation_error list" where
  "ValidateWithGroups r resolver =
     (let base = validationErrors r @ (case resolver of None \<Rightarrow> []
            | Some res \<Rightarrow> groupErrors res (tgKind (rdTargets r)) 0 (tgGroupIDs (rdTargets r)))
      in if length base = 0 then [] else sort_by errorLess base)"

subsection \<open>Evaluation\<close>

datatype predicate_result = PredicateUnknown | PredicateFalse | PredicateTrue

text \<open>\<^verbatim>\<open>FieldLookup\<close>: \<open>None\<close> is the nil interface, and the function returns \<open>None\<close> where
  the field is not known.\<close>

type_synonym field_lookup = "(field_spec \<Rightarrow> operand option) option"

definition validFieldValue :: "operand \<Rightarrow> field_type \<Rightarrow> bool" where
  "validFieldValue v ty = (case ty of
       TypeCount \<Rightarrow> opKind v = OperandInteger \<and> opInteger v \<ge> 0
     | TypeDuration \<Rightarrow> opKind v = OperandDuration \<and> \<not> timeDurationInvalid (opDuration v)
     | TypeBoolean \<Rightarrow> opKind v = OperandBoolean
     | TypeAgentState \<Rightarrow> opKind v = OperandAgentState \<and> validAgentState (opAgentState v))"

definition resolveOperand :: "operand \<Rightarrow> field_lookup \<Rightarrow> operand option" where
  "resolveOperand o' lookup =
     (if opKind o' \<noteq> OperandField then
        (if opKind o' = OperandInteger \<or> opKind o' = OperandDuration \<or> opKind o' = OperandBoolean \<or>
            opKind o' = OperandAgentState then Some o' else None)
      else case lookup of
        None \<Rightarrow> None
      | Some look \<Rightarrow> (case FieldSpecFor (opField o') of
            None \<Rightarrow> None
          | Some f \<Rightarrow> (case look f of
                None \<Rightarrow> None
              | Some v \<Rightarrow> if \<not> validFieldValue v (fsType f) then None else Some v)))"

definition compareValues :: "'a::linorder \<Rightarrow> 'a \<Rightarrow> int" where
  "compareValues l r = (if l < r then -1 else if l > r then 1 else 0)"

definition truth :: "bool \<Rightarrow> predicate_result" where
  "truth v = (if v then PredicateTrue else PredicateFalse)"

definition relationOf :: "operand \<Rightarrow> operand \<Rightarrow> int option" where
  "relationOf l r = (case opKind l of
       OperandInteger \<Rightarrow> Some (compareValues (opInteger l) (opInteger r))
     | OperandDuration \<Rightarrow> Some (compareValues (opDuration l) (opDuration r))
     | OperandBoolean \<Rightarrow> Some (if opBoolean l = opBoolean r then 0 else if \<not> opBoolean l then -1 else 1)
     | OperandAgentState \<Rightarrow> Some (compareValues (opAgentState l) (opAgentState r))
     | _ \<Rightarrow> None)"

definition applyOperator :: "string \<Rightarrow> int \<Rightarrow> predicate_result" where
  "applyOperator op rel =
     (if op = ''eq'' then truth (rel = 0)
      else if op = ''ne'' then truth (rel \<noteq> 0)
      else if op = ''gt'' then truth (rel > 0)
      else if op = ''gte'' then truth (rel \<ge> 0)
      else if op = ''lt'' then truth (rel < 0)
      else if op = ''lte'' then truth (rel \<le> 0)
      else PredicateUnknown)"

definition evaluateComparison :: "comparison \<Rightarrow> field_lookup \<Rightarrow> predicate_result" where
  "evaluateComparison c lookup = (case resolveOperand (cmLeft c) lookup of
       None \<Rightarrow> PredicateUnknown
     | Some l \<Rightarrow> (case resolveOperand (cmRight c) lookup of
           None \<Rightarrow> PredicateUnknown
         | Some r \<Rightarrow>
             if opKind l \<noteq> opKind r then PredicateUnknown
             else (case relationOf l r of
                 None \<Rightarrow> PredicateUnknown
               | Some rel \<Rightarrow> applyOperator (cmOperator c) rel)))"

text \<open>The loop of \<^verbatim>\<open>evaluateAll\<close> with its flag.\<close>

fun evaluateLoop :: "bool \<Rightarrow> comparison list \<Rightarrow> field_lookup \<Rightarrow> predicate_result" where
  "evaluateLoop unknown [] lookup = (if unknown then PredicateUnknown else PredicateTrue)"
| "evaluateLoop unknown (c # cs) lookup =
     (case evaluateComparison c lookup of
        PredicateFalse \<Rightarrow> PredicateFalse
      | PredicateUnknown \<Rightarrow> evaluateLoop True cs lookup
      | PredicateTrue \<Rightarrow> evaluateLoop unknown cs lookup)"

definition evaluateAll :: "comparison list \<Rightarrow> field_lookup \<Rightarrow> predicate_result" where
  "evaluateAll cs lookup = evaluateLoop False cs lookup"

definition EvaluateTrigger :: "compiled_plan \<Rightarrow> field_lookup \<Rightarrow> predicate_result" where
  "EvaluateTrigger p lookup = evaluateAll (plTrigger p) lookup"

definition EvaluateClear :: "compiled_plan \<Rightarrow> field_lookup \<Rightarrow> predicate_result" where
  "EvaluateClear p lookup = evaluateAll (plClear p) lookup"

end
