(* ===== verification/RulesProps.thy ===== *)
theory RulesProps
  imports Rules
begin

text \<open>
  Correctness of the rules package: durations, validation against a declarative typing
  judgement, compilation, and three-valued evaluation.
\<close>

subsection \<open>Durations\<close>

lemma decimal_head: "hd (decimal n) = CHR ''0'' \<Longrightarrow> n = 0"
proof (induction n rule: decimal.induct)
  case (1 n)
  show ?case
  proof (cases "n < 10")
    case True
    with "1.prems" have "of_char (digit n) = (48 :: nat)" by (simp add: decimal.simps [of n])
    with True show ?thesis by (simp add: of_char_digit)
  next
    case False
    then have "hd (decimal (n div 10)) = CHR ''0''"
      using "1.prems" by (simp add: decimal.simps [of n])
    with "1.IH" False show ?thesis by auto
  qed
qed

lemma decimal_0: "decimal 0 = ''0''"
  by code_simp

lemma durationPattern_canonical:
  assumes "0 \<le> n" and "u = CHR ''s'' \<or> u = CHR ''m'' \<or> u = CHR ''h''"
  shows "durationPattern (formatInt n @ [u]) = Some (decimal (nat n), u)"
  using assms isDigit_decimal [of "nat n"] decimal_head [of "nat n"] decimal_0
  by (auto simp: durationPattern_def formatInt_def Let_def)

lemma ParseDuration_canonical:
  assumes "0 \<le> n"
  shows "n \<le> 31536000 \<Longrightarrow> ParseDuration (formatInt n @ ''s'') = Inr (n * second)"
    and "n \<le> 525600 \<Longrightarrow> ParseDuration (formatInt n @ ''m'') = Inr (n * minute)"
    and "n \<le> 8760 \<Longrightarrow> ParseDuration (formatInt n @ ''h'') = Inr (n * hour)"
  using assms by (simp_all add: ParseDuration_def durationPattern_canonical Let_def)

lemma duration_print_parse:
  assumes "canonicalDurationString d = Some s"
  shows "ParseDuration s = Inr d"
proof -
  have d: "0 \<le> d" "d \<le> year" "d mod second = 0"
    using assms by (auto simp: canonicalDurationString_def split: if_splits)
  consider "s = formatInt (d div hour) @ ''h''" "d mod hour = 0"
    | "s = formatInt (d div minute) @ ''m''" "d mod minute = 0"
    | "s = formatInt (d div second) @ ''s''"
    using assms d by (auto simp: canonicalDurationString_def Let_def split: if_splits)
  then show ?thesis
  proof cases
    case 1
    moreover have "0 \<le> d div hour" "d div hour \<le> 8760" "d div hour * hour = d"
      using d 1(2) by (auto simp: pos_imp_zdiv_nonneg_iff)
    ultimately show ?thesis by (simp add: ParseDuration_canonical(3))
  next
    case 2
    moreover have "0 \<le> d div minute" "d div minute \<le> 525600" "d div minute * minute = d"
      using d 2(2) by (auto simp: pos_imp_zdiv_nonneg_iff)
    ultimately show ?thesis by (simp add: ParseDuration_canonical(2))
  next
    case 3
    moreover have "0 \<le> d div second" "d div second \<le> 31536000" "d div second * second = d"
      using d by (auto simp: pos_imp_zdiv_nonneg_iff)
    ultimately show ?thesis by (simp add: ParseDuration_canonical(1))
  qed
qed

lemma ParseDuration_valid:
  assumes "ParseDuration s = Inr d"
  shows "\<not> timeDurationInvalid d"
proof -
  obtain n :: int and m :: int where "d = n * m" "0 \<le> n" "n \<le> year div m"
    "m = second \<or> m = minute \<or> m = hour"
    using assms by (auto simp: ParseDuration_def Let_def split: option.splits if_splits)
  then show ?thesis
    by (auto simp: timeDurationInvalid_def)
qed

lemma canonicalDurationString_None: "canonicalDurationString d = None \<longleftrightarrow> timeDurationInvalid d"
  by (auto simp: canonicalDurationString_def timeDurationInvalid_def Let_def)

text \<open>Durations survive the wire: printing fails exactly on the durations that validation
  rejects, a printed duration parses back to itself, and whatever text a duration was parsed
  from, it is valid and its printed form parses to it again.\<close>

theorem duration_roundtrip:
  "(canonicalDurationString d = None \<longleftrightarrow> timeDurationInvalid d) \<and>
   (case canonicalDurationString d of None \<Rightarrow> True | Some s \<Rightarrow> ParseDuration s = Inr d) \<and>
   (case ParseDuration t of Inl _ \<Rightarrow> True
    | Inr e \<Rightarrow> \<not> timeDurationInvalid e \<and> ParseDuration (durationString e) = Inr e)"
proof (intro conjI)
  show "canonicalDurationString d = None \<longleftrightarrow> timeDurationInvalid d"
    by (rule canonicalDurationString_None)
  show "case canonicalDurationString d of None \<Rightarrow> True | Some s \<Rightarrow> ParseDuration s = Inr d"
    using duration_print_parse by (simp split: option.split)
  show "case ParseDuration t of Inl _ \<Rightarrow> True
    | Inr e \<Rightarrow> \<not> timeDurationInvalid e \<and> ParseDuration (durationString e) = Inr e"
  proof (cases "ParseDuration t")
    case (Inr e)
    have valid: "\<not> timeDurationInvalid e" by (rule ParseDuration_valid [OF Inr])
    then obtain s where "canonicalDurationString e = Some s"
      using canonicalDurationString_None [of e] by auto
    with duration_print_parse [OF this] valid Inr show ?thesis by (simp add: durationString_def)
  qed simp
qed


subsection \<open>Well-formed definitions\<close>

text \<open>The typing judgement that validation decides.\<close>

inductive has_type :: "string \<Rightarrow> operand \<Rightarrow> field_type \<Rightarrow> bool" for subject where
  field: "opKind v = OperandField \<Longrightarrow> FieldSpecFor (opField v) = Some f \<Longrightarrow> fsSubject f = subject \<Longrightarrow>
    has_type subject v (fsType f)"
| integer: "opKind v = OperandInteger \<Longrightarrow> 0 \<le> opInteger v \<Longrightarrow> has_type subject v TypeCount"
| duration: "opKind v = OperandDuration \<Longrightarrow> \<not> timeDurationInvalid (opDuration v) \<Longrightarrow>
    has_type subject v TypeDuration"
| boolean: "opKind v = OperandBoolean \<Longrightarrow> has_type subject v TypeBoolean"
| agent_state: "opKind v = OperandAgentState \<Longrightarrow> validAgentState (opAgentState v) \<Longrightarrow>
    has_type subject v TypeAgentState"

inductive well_typed :: "string \<Rightarrow> comparison \<Rightarrow> bool" for subject where
  "has_type subject (cmLeft c) t \<Longrightarrow> has_type subject (cmRight c) t \<Longrightarrow>
    allowedOperatorType t (cmOperator c) \<Longrightarrow> well_typed subject c"

inductive wf_compare :: "string \<Rightarrow> expression \<Rightarrow> bool" for subject where
  "well_typed subject e \<Longrightarrow> wf_compare subject (CompareExpression e)"
| "well_typed subject e \<Longrightarrow> wf_compare subject (CompareRef (Some e))"

inductive wf_expression :: "string \<Rightarrow> expression \<Rightarrow> bool" for subject where
  compare: "wf_compare subject x \<Longrightarrow> wf_expression subject x"
| all_ref: "cs \<noteq> [] \<Longrightarrow> length cs \<le> 31 \<Longrightarrow> \<forall>c \<in> set cs. wf_compare subject c \<Longrightarrow>
    wf_expression subject (AllRef (Some cs))"
| all_value: "cs \<noteq> [] \<Longrightarrow> length cs \<le> 30 \<Longrightarrow> \<forall>c \<in> set cs. wf_compare subject c \<Longrightarrow>
    wf_expression subject (AllExpression cs)"

inductive_simps wf_compare_simps [simp]:
  "wf_compare subject NilExpression" "wf_compare subject (CompareExpression e)"
  "wf_compare subject (CompareRef e)" "wf_compare subject (AllExpression cs)"
  "wf_compare subject (AllRef e)"

inductive_simps wf_expression_simps:
  "wf_expression subject NilExpression" "wf_expression subject (CompareExpression e)"
  "wf_expression subject (CompareRef e)" "wf_expression subject (AllExpression cs)"
  "wf_expression subject (AllRef e)"

inductive_simps has_type_iff: "has_type subject v t"

definition wf_condition :: "string \<Rightarrow> condition \<Rightarrow> bool" where
  "wf_condition subject c \<longleftrightarrow> wf_expression subject (cdPredicate c) \<and> \<not> timeDurationInvalid (cdFor c)"

definition wf_definition :: "rule_definition \<Rightarrow> bool" where
  "wf_definition r \<longleftrightarrow> rdSchemaVersion r = 1 \<and>
     rdName r \<noteq> [] \<and> length (rdName r) \<le> 200 \<and> length (rdDescription r) \<le> 2000 \<and>
     (let t = rdTargets r in (tgKind t = ''queue'' \<or> tgKind t = ''agent'') \<and>
       (tgIDs t \<noteq> [] \<or> tgGroupIDs t \<noteq> []) \<and> distinct (tgIDs t) \<and> [] \<notin> set (tgIDs t) \<and>
       distinct (tgGroupIDs t) \<and> [] \<notin> set (tgGroupIDs t) \<and>
       wf_condition (tgKind t) (rdTrigger r) \<and> wf_condition (tgKind t) (rdClear r)) \<and>
     npAudience (rdNotifications r) \<noteq> [] \<and> length (npAudience (rdNotifications r)) \<le> 200"

subsection \<open>Validation decides well-formedness\<close>

lemma validateOperand_ok:
  "has_type subject v t \<longleftrightarrow> validateOperand v p subject = ([], Some t)"
  by (cases "opKind v") (auto simp: has_type_iff validateOperand_def split: option.splits)

lemma has_type_unique: "has_type subject v t \<Longrightarrow> has_type subject v u \<Longrightarrow> t = u"
  by (auto simp: validateOperand_ok [where p = "[]"])

lemma validateOperand_untyped: "snd (validateOperand v p subject) = None \<Longrightarrow> fst (validateOperand v p subject) \<noteq> []"
  by (auto simp: validateOperand_def split: operand_kind.splits option.splits if_splits)

lemma validateCompare_ok: "validateCompare e p subject = [] \<longleftrightarrow> well_typed subject e"
proof
  assume ok: "validateCompare e p subject = []"
  let ?l = "validateOperand (cmLeft e) (ptr p ''left'') subject"
  let ?r = "validateOperand (cmRight e) (ptr p ''right'') subject"
  have es: "fst ?l = []" "fst ?r = []"
    using ok by (auto simp: validateCompare_def Let_def split: prod.splits)
  then obtain t u where tu: "?l = ([], Some t)" "?r = ([], Some u)"
    using validateOperand_untyped by (metis option.exhaust prod.collapse)
  with ok have "t = u" "allowedOperatorType t (cmOperator e)"
    by (auto simp: validateCompare_def split: if_splits)
  with tu show "well_typed subject e"
    using validateOperand_ok well_typed.intros by metis
next
  assume "well_typed subject e"
  then obtain t where "has_type subject (cmLeft e) t" "has_type subject (cmRight e) t"
    "allowedOperatorType t (cmOperator e)" by (auto elim: well_typed.cases)
  then show "validateCompare e p subject = []"
    using validateOperand_ok [of subject "cmLeft e" t "ptr p ''left''"]
      validateOperand_ok [of subject "cmRight e" t "ptr p ''right''"]
    by (simp add: validateCompare_def)
qed

lemma walkCompare_ok:
  "isCompare c \<Longrightarrow> fst (walkCompare subject c p n) = [] \<longleftrightarrow> wf_compare subject c \<and> n + 1 \<le> 32"
  "isCompare c \<Longrightarrow> snd (walkCompare subject c p n) = n + 1"
  by (induction subject c p n rule: walkCompare.induct) (auto simp: validateCompare_ok)

lemma walkConditions_ok:
  "fst (walkConditions subject p i cs n) = [] \<longleftrightarrow>
     (\<forall>c \<in> set cs. wf_compare subject c) \<and> (cs \<noteq> [] \<longrightarrow> n + length cs \<le> 32)"
proof (induction cs arbitrary: i n)
  case (Cons c cs)
  show ?case
  proof (cases "isCompare c")
    case True
    then show ?thesis
      using Cons.IH [of "i + 1" "n + 1"] by (auto simp: Let_def case_prod_beta walkCompare_ok)
  next
    case False
    then have "\<not> wf_compare subject c" by (cases c) auto
    with False show ?thesis by (simp add: Let_def case_prod_beta)
  qed
qed simp

lemma validateExpression_ok: "validateExpression x p subject = [] \<longleftrightarrow> wf_expression subject x"
  by (cases x)
    (auto simp: validateExpression_def walk_def walkAll_def wf_expression_simps case_prod_beta
      walkCompare_ok walkConditions_ok validateCompare_ok split: option.splits)

lemma validateSelectors_ok:
  "validateSelectors base what dup i seen xs = [] \<longleftrightarrow>
     distinct xs \<and> [] \<notin> set xs \<and> (\<forall>x \<in> set xs. seen x = None)"
proof (induction xs arbitrary: i seen)
  case (Cons x xs)
  show ?case
    using Cons.IH by (auto simp: Let_def split: option.splits)
qed simp

lemma validateCondition_ok: "validateCondition c name subject = [] \<longleftrightarrow> wf_condition subject c"
  by (auto simp: validateCondition_def wf_condition_def validateExpression_ok wf_expression_simps)

lemma validationErrors_ok: "validationErrors r = [] \<longleftrightarrow> wf_definition r"
  by (auto simp: validationErrors_def wf_definition_def Let_def validateSelectors_ok
      validateCondition_ok not_less)

definition errorKey :: "validation_error \<Rightarrow> string \<times> string" where
  "errorKey e = (vePath e, veCode e)"

interpretation error_order: key_order errorLess errorKey
  by unfold_locales (auto simp: errorLess_def errorKey_def less_prod_def')

lemma Validate_ok: "Validate r = [] \<longleftrightarrow> wf_definition r"
proof -
  have "sort_by errorLess es = [] \<longleftrightarrow> es = []" for es
    by (metis error_order.mset_sort_by mset_zero_iff)
  then show ?thesis by (simp add: Validate_def Let_def validationErrors_ok [symmetric])
qed

text \<open>C31. Validation decides well-formedness: a definition validates exactly when its texts are
  within their limits, its selectors are non-empty and without repetitions, its durations are
  whole seconds of at most a year, and its predicates are comparisons, or conjunctions of up to
  31 comparisons (30 when the conjunction is a Go value rather than a pointer), whose operands
  have the same type and whose operator that type allows. Otherwise the errors come sorted by
  path and code.\<close>

theorem validation_decides:
  "(Validate r = [] \<longleftrightarrow> wf_definition r) \<and>
   mset (Validate r) = mset (validationErrors r) \<and>
   sorted (map (\<lambda>e. (vePath e, veCode e)) (Validate r))"
  using Validate_ok [of r] error_order.sorted_sort_by [of "validationErrors r"]
  by (simp add: Validate_def Let_def error_order.mset_sort_by errorKey_def [abs_def])


subsection \<open>Targets\<close>

interpretation string_order: key_order "(<)" "\<lambda>x :: string. x"
  by unfold_locales simp

lemma sortStrings_simps [simp]:
  "set (sortStrings xs) = set xs" "sorted (sortStrings xs)"
  using string_order.sorted_sort_by [of xs]
  by (simp_all add: sortStrings_def string_order.set_sort_by)

lemma dropRepeats_sorted:
  assumes "sorted xs" and "\<And>p x. prev = Some p \<Longrightarrow> x \<in> set xs \<Longrightarrow> p \<le> x"
  shows "set (dropRepeats prev xs) = set xs - set_option prev \<and>
    sorted (dropRepeats prev xs) \<and> distinct (dropRepeats prev xs)"
  using assms
proof (induction prev xs rule: dropRepeats.induct)
  case (2 prev v vs)
  show ?case
  proof (cases "prev = Some v")
    case True
    then show ?thesis using "2.IH"(1) [OF True] "2.prems" by auto
  next
    case False
    have IH: "set (dropRepeats (Some v) vs) = set vs - {v} \<and> sorted (dropRepeats (Some v) vs) \<and>
        distinct (dropRepeats (Some v) vs)"
      using "2.IH"(2) [OF False] "2.prems"(1) by auto
    have "p \<notin> set vs" if "prev = Some p" for p
    proof
      assume "p \<in> set vs"
      with "2.prems"(1) have "v \<le> p" by simp
      moreover have "p \<le> v" using "2.prems"(2) [OF that] by simp
      ultimately show False using False that by simp
    qed
    with IH False "2.prems"(1) show ?thesis by (cases prev) auto
  qed
qed simp

lemma canonicalIDs_simps [simp]:
  "set (canonicalIDs xs) = set xs" "sorted (canonicalIDs xs)" "distinct (canonicalIDs xs)"
  using dropRepeats_sorted [of "sortStrings xs" None] by (simp_all add: canonicalIDs_def)

lemma pinGroups_ok:
  "pinGroups res kind gs = Inr pinned \<longleftrightarrow>
     list_all2 (\<lambda>g pg. \<exists>s. res kind g = Inr s \<and> gsKind s = kind \<and> gsRevision s > 0 \<and>
       pg = \<lparr>pgID = g, pgRevision = gsRevision s, pgMembers = canonicalIDs (gsMembers s)\<rparr>) gs pinned"
proof (induction gs arbitrary: pinned)
  case (Cons g gs)
  show ?case
  proof (cases "res kind g")
    case (Inr s)
    show ?thesis
      using Cons.IH Inr
      by (cases pinned; cases "pinGroups res kind gs") (auto simp: not_le list_all2_Cons1)
  qed (auto simp: list_all2_Cons1)
qed (auto simp: list_all2_Nil)

lemma pinGroups_succeeds:
  "(\<exists>pinned. pinGroups res kind gs = Inr pinned) \<longleftrightarrow>
     (\<forall>g \<in> set gs. \<exists>s. res kind g = Inr s \<and> gsKind s = kind \<and> gsRevision s > 0)"
proof (induction gs)
  case (Cons g gs)
  then show ?case
    by (cases "res kind g"; cases "pinGroups res kind gs") (auto simp: not_le)
qed simp

definition pinnedOf :: "rule_definition \<Rightarrow> group_resolver option \<Rightarrow> compile_error + pinned_group list" where
  "pinnedOf r resolver = (case resolver of
       None \<Rightarrow> if tgGroupIDs (rdTargets r) \<noteq> [] then Inl ResolverRequired else Inr []
     | Some res \<Rightarrow> pinGroups res (tgKind (rdTargets r)) (canonicalIDs (tgGroupIDs (rdTargets r))))"

lemma Compile_Inr:
  "Compile r resolver = Inr p \<longleftrightarrow> wf_definition r \<and> (\<exists>gs. pinnedOf r resolver = Inr gs \<and>
     (let ids = canonicalIDs (canonicalIDs (tgIDs (rdTargets r)) @ concat (map pgMembers gs)) in
      p = \<lparr>plSubject = tgKind (rdTargets r), plExplicitIDs = canonicalIDs (tgIDs (rdTargets r)),
        plGroupIDs = canonicalIDs (tgGroupIDs (rdTargets r)), plPinnedGroups = gs,
        plPinnedTargetIDs = ids, plTargetIndex = set ids,
        plTrigger = flatten (cdPredicate (rdTrigger r)), plClear = flatten (cdPredicate (rdClear r)),
        plTriggerFor = cdFor (rdTrigger r), plClearFor = cdFor (rdClear r),
        plNotifications = rdNotifications r\<rparr>))"
  by (cases "pinnedOf r resolver")
    (auto simp: Compile_def pinnedOf_def [symmetric] Validate_ok Let_def)

text \<open>A group as the resolver gives it, when it is usable.\<close>

definition groupOf :: "group_resolver option \<Rightarrow> string \<Rightarrow> string \<Rightarrow> group_snapshot option" where
  "groupOf resolver kind g = (case resolver of None \<Rightarrow> None
     | Some res \<Rightarrow> (case res kind g of Inl _ \<Rightarrow> None
         | Inr s \<Rightarrow> if gsKind s = kind \<and> gsRevision s > 0 then Some s else None))"

lemma pinnedOf_succeeds:
  "(\<exists>gs. pinnedOf r resolver = Inr gs) \<longleftrightarrow>
     (\<forall>g \<in> set (tgGroupIDs (rdTargets r)). groupOf resolver (tgKind (rdTargets r)) g \<noteq> None)"
proof (cases resolver)
  case None
  then show ?thesis by (cases "tgGroupIDs (rdTargets r)") (auto simp: pinnedOf_def groupOf_def)
next
  case (Some res)
  have "groupOf resolver k g \<noteq> None \<longleftrightarrow> (\<exists>s. res k g = Inr s \<and> gsKind s = k \<and> gsRevision s > 0)" for k g
    by (cases "res k g") (auto simp: Some groupOf_def)
  then show ?thesis by (simp add: Some pinnedOf_def pinGroups_succeeds)
qed

lemma pinnedOf_members:
  assumes "pinnedOf r resolver = Inr gs"
  shows "set (concat (map pgMembers gs)) =
    (\<Union>g \<in> set (tgGroupIDs (rdTargets r)). case groupOf resolver (tgKind (rdTargets r)) g of
       None \<Rightarrow> {} | Some s \<Rightarrow> set (gsMembers s))"
proof (cases resolver)
  case None
  with assms show ?thesis by (auto simp: pinnedOf_def split: if_splits)
next
  case (Some res)
  let ?k = "tgKind (rdTargets r)"
  let ?m = "\<lambda>g. case groupOf resolver ?k g of None \<Rightarrow> {} | Some s \<Rightarrow> set (gsMembers s)"
  have "set (concat (map pgMembers pinned)) = (\<Union>g \<in> set groups. ?m g)"
    if "pinGroups res ?k groups = Inr pinned" for groups pinned
    using that unfolding pinGroups_ok
    by (induction groups pinned rule: list_all2_induct) (auto simp: groupOf_def Some)
  from this [of "canonicalIDs (tgGroupIDs (rdTargets r))" gs] assms show ?thesis
    by (simp add: pinnedOf_def Some)
qed

definition groupMembers :: "group_resolver option \<Rightarrow> targets \<Rightarrow> string set" where
  "groupMembers resolver t = (\<Union>g \<in> set (tgGroupIDs t). case groupOf resolver (tgKind t) g of
     None \<Rightarrow> {} | Some s \<Rightarrow> set (gsMembers s))"

text \<open>Compilation pins the selected subjects: it succeeds exactly on well-formed definitions
  whose groups all resolve to a snapshot of the right kind with a positive revision; the plan
  then has as targets exactly the explicit identifiers and the members of those snapshots, of
  the definition's kind, listed once each in order.\<close>

theorem compile_pins_targets:
  "((\<exists>p. Compile r resolver = Inr p) \<longleftrightarrow> wf_definition r \<and>
      set (tgGroupIDs (rdTargets r)) \<subseteq> {g. groupOf resolver (tgKind (rdTargets r)) g \<noteq> None}) \<and>
   (case Compile r resolver of Inl _ \<Rightarrow> True
    | Inr p \<Rightarrow>
        (HasTarget p k i \<longleftrightarrow> k = tgKind (rdTargets r) \<and>
           i \<in> set (tgIDs (rdTargets r)) \<union> groupMembers resolver (rdTargets r)) \<and>
        set (map rtID (Targets p)) = set (tgIDs (rdTargets r)) \<union> groupMembers resolver (rdTargets r) \<and>
        sorted (map rtID (Targets p)) \<and> distinct (map rtID (Targets p)))"
proof (intro conjI)
  show "(\<exists>p. Compile r resolver = Inr p) \<longleftrightarrow> wf_definition r \<and>
      set (tgGroupIDs (rdTargets r)) \<subseteq> {g. groupOf resolver (tgKind (rdTargets r)) g \<noteq> None}"
    using pinnedOf_succeeds [of r resolver] by (auto simp: Compile_Inr Let_def)
next
  show "case Compile r resolver of Inl _ \<Rightarrow> True | Inr p \<Rightarrow>
        (HasTarget p k i \<longleftrightarrow> k = tgKind (rdTargets r) \<and>
           i \<in> set (tgIDs (rdTargets r)) \<union> groupMembers resolver (rdTargets r)) \<and>
        set (map rtID (Targets p)) = set (tgIDs (rdTargets r)) \<union> groupMembers resolver (rdTargets r) \<and>
        sorted (map rtID (Targets p)) \<and> distinct (map rtID (Targets p))"
  proof (cases "Compile r resolver")
    case (Inr p)
    then obtain gs where gs: "pinnedOf r resolver = Inr gs"
      and p: "plSubject p = tgKind (rdTargets r)" "plTargetIndex p = set (plPinnedTargetIDs p)"
        "plPinnedTargetIDs p = canonicalIDs (canonicalIDs (tgIDs (rdTargets r)) @ concat (map pgMembers gs))"
      unfolding Compile_Inr by (auto simp: Let_def)
    have ids: "set (plPinnedTargetIDs p) = set (tgIDs (rdTargets r)) \<union> groupMembers resolver (rdTargets r)"
      unfolding p groupMembers_def using pinnedOf_members [OF gs] by simp
    have "map rtID (Targets p) = plPinnedTargetIDs p" by (simp add: Targets_def comp_def)
    then show ?thesis
      using ids by (simp add: Inr HasTarget_def p(1,2)) (simp add: p(3))
  qed simp
qed


subsection \<open>Evaluation\<close>

lemma evaluateLoop_simps:
  "evaluateLoop unknown cs lookup = PredicateFalse \<longleftrightarrow>
     (\<exists>c \<in> set cs. evaluateComparison c lookup = PredicateFalse)"
  "evaluateLoop unknown cs lookup = PredicateTrue \<longleftrightarrow>
     \<not> unknown \<and> (\<forall>c \<in> set cs. evaluateComparison c lookup = PredicateTrue)"
  by (induction unknown cs lookup rule: evaluateLoop.induct)
    (auto split: predicate_result.splits if_splits)

text \<open>One lookup knows what another knows, and maybe more.\<close>

definition extends :: "(field_spec \<Rightarrow> operand option) \<Rightarrow> (field_spec \<Rightarrow> operand option) \<Rightarrow> bool" where
  "extends look' look \<longleftrightarrow> (\<forall>f. look f = None \<or> look' f = look f)"

lemma resolveOperand_extends:
  assumes "extends look' look" and "resolveOperand v (Some look) = Some w"
  shows "resolveOperand v (Some look') = Some w"
  using assms
  by (auto simp: resolveOperand_def split: if_splits option.splits)
    (metis extends_def option.distinct(1) option.inject)+

lemma evaluateComparison_extends:
  assumes "extends look' look" and "evaluateComparison c (Some look) \<noteq> PredicateUnknown"
  shows "evaluateComparison c (Some look') = evaluateComparison c (Some look)"
proof -
  obtain l r where "resolveOperand (cmLeft c) (Some look) = Some l"
    "resolveOperand (cmRight c) (Some look) = Some r"
    using assms(2) by (auto simp: evaluateComparison_def split: option.splits)
  with resolveOperand_extends [OF assms(1)] show ?thesis
    by (simp add: evaluateComparison_def)
qed

definition demoCompare :: "string \<Rightarrow> comparison" where
  "demoCompare op = \<lparr>cmLeft = FieldOperand ''queue.longest_wait'', cmOperator = op,
     cmRight = FieldOperand ''queue.sla_target''\<rparr>"

definition demoRule :: rule_definition where
  "demoRule = NewRuleDefinition ''SLA'' [] \<lparr>tgKind = ''queue'', tgIDs = [''q2''], tgGroupIDs = [''g'']\<rparr>
     \<lparr>cdPredicate = CompareExpression (demoCompare ''gt''), cdFor = 5 * minute\<rparr>
     \<lparr>cdPredicate = CompareExpression (demoCompare ''lte''), cdFor = 0\<rparr>
     \<lparr>npOnOpen = True, npOnRecovery = True, npAudience = ''ops''\<rparr>"

definition demoResolver :: group_resolver where
  "demoResolver kind g = (if kind = ''queue'' \<and> g = ''g''
     then Inr \<lparr>gsKind = ''queue'', gsRevision = 3, gsMembers = [''q3'', ''q1'', ''q3'']\<rparr> else Inl ''unknown'')"

definition demoLookup :: "field_spec \<Rightarrow> operand option" where
  "demoLookup f = (case fsType f of
       TypeDuration \<Rightarrow> Some (DurationOperand (if fsName f = ''queue.longest_wait'' then 90 * second else minute))
     | TypeCount \<Rightarrow> Some (IntegerOperand 7)
     | _ \<Rightarrow> None)"

text \<open>Missing evidence never decides: a conjunction is false exactly when some comparison is
  false, true exactly when all are true, and unknown otherwise; and a predicate that some
  evidence makes true or false keeps that value when more fields become known.\<close>

theorem unknown_is_conservative:
  assumes "extends look' look"
  shows "(evaluateAll cs (Some look) = PredicateFalse \<longleftrightarrow>
      PredicateFalse \<in> set (map (\<lambda>c. evaluateComparison c (Some look)) cs)) \<and>
    (evaluateAll cs (Some look) = PredicateTrue \<longleftrightarrow>
      set (map (\<lambda>c. evaluateComparison c (Some look)) cs) \<subseteq> {PredicateTrue}) \<and>
    (evaluateAll cs (Some look) = PredicateUnknown \<or>
      evaluateAll cs (Some look') = evaluateAll cs (Some look))"
proof (intro conjI)
  show "evaluateAll cs (Some look) = PredicateFalse \<longleftrightarrow>
      PredicateFalse \<in> set (map (\<lambda>c. evaluateComparison c (Some look)) cs)"
    unfolding evaluateAll_def evaluateLoop_simps set_map image_iff by metis
  show "evaluateAll cs (Some look) = PredicateTrue \<longleftrightarrow>
      set (map (\<lambda>c. evaluateComparison c (Some look)) cs) \<subseteq> {PredicateTrue}"
    by (auto simp: evaluateAll_def evaluateLoop_simps)
  note more = evaluateComparison_extends [OF assms]
  show "evaluateAll cs (Some look) = PredicateUnknown \<or>
      evaluateAll cs (Some look') = evaluateAll cs (Some look)"
  proof (cases "evaluateAll cs (Some look)")
    case PredicateFalse
    then show ?thesis unfolding evaluateAll_def using more
      by (metis evaluateLoop_simps(1) predicate_result.distinct(1))
  next
    case PredicateTrue
    then show ?thesis unfolding evaluateAll_def using more
      by (metis evaluateLoop_simps(2) predicate_result.distinct(3))
  qed simp
qed

theorem unknown_is_conservative_witness:
  "let partial = (\<lambda>f. if fsName f = ''queue.sla_target'' then None else demoLookup f);
       cs = [\<lparr>cmLeft = FieldOperand ''queue.longest_wait'', cmOperator = ''lt'',
              cmRight = DurationOperand second\<rparr>, demoCompare ''gt'']
   in evaluateAll cs (Some partial) = PredicateFalse \<and> evaluateAll cs (Some demoLookup) = PredicateFalse"
proof -
  let ?partial = "\<lambda>f. if fsName f = ''queue.sla_target'' then None else demoLookup f"
  let ?cs = "[\<lparr>cmLeft = FieldOperand ''queue.longest_wait'', cmOperator = ''lt'',
      cmRight = DurationOperand second\<rparr>, demoCompare ''gt'']"
  have f: "evaluateAll ?cs (Some ?partial) = PredicateFalse" by code_simp
  have "extends demoLookup ?partial" by (simp add: extends_def)
  from unknown_is_conservative [OF this, of ?cs] f show ?thesis
    by (simp only: Let_def predicate_result.distinct simp_thms)
qed

text \<open>The boolean meaning of a comparison under complete evidence.\<close>

definition valueOf :: "(field_spec \<Rightarrow> operand option) \<Rightarrow> operand \<Rightarrow> operand" where
  "valueOf look v = (if opKind v = OperandField then the (look (the (FieldSpecFor (opField v)))) else v)"

definition opHolds :: "string \<Rightarrow> 'a::linorder \<Rightarrow> 'a \<Rightarrow> bool" where
  "opHolds op a b \<longleftrightarrow> op = ''eq'' \<and> a = b \<or> op = ''ne'' \<and> a \<noteq> b \<or> op = ''gt'' \<and> a > b \<or>
     op = ''gte'' \<and> a \<ge> b \<or> op = ''lt'' \<and> a < b \<or> op = ''lte'' \<and> a \<le> b"

definition holds :: "(field_spec \<Rightarrow> operand option) \<Rightarrow> comparison \<Rightarrow> bool" where
  "holds look c = (let l = valueOf look (cmLeft c); r = valueOf look (cmRight c); op = cmOperator c in
     case opKind l of
       OperandInteger \<Rightarrow> opHolds op (opInteger l) (opInteger r)
     | OperandDuration \<Rightarrow> opHolds op (opDuration l) (opDuration r)
     | OperandBoolean \<Rightarrow> opHolds op (opBoolean l) (opBoolean r)
     | OperandAgentState \<Rightarrow> opHolds op (opAgentState l) (opAgentState r)
     | _ \<Rightarrow> False)"

text \<open>Evidence is complete for a kind of subject when it has a value of the right type for
  every field of the catalog that applies to the kind.\<close>

definition complete_lookup :: "string \<Rightarrow> (field_spec \<Rightarrow> operand option) \<Rightarrow> bool" where
  "complete_lookup subject look \<longleftrightarrow>
     (\<forall>(name, f) \<in> set fieldCatalog. fsSubject f = subject \<longrightarrow>
        (case look f of None \<Rightarrow> False | Some v \<Rightarrow> validFieldValue v (fsType f)))"

fun typeKind :: "field_type \<Rightarrow> operand_kind" where
  "typeKind TypeDuration = OperandDuration" | "typeKind TypeCount = OperandInteger"
| "typeKind TypeBoolean = OperandBoolean" | "typeKind TypeAgentState = OperandAgentState"

lemma typeKind_not_field [simp]: "typeKind t \<noteq> OperandField" "OperandField \<noteq> typeKind t"
  by (cases t; simp)+

lemma resolveOperand_typed:
  assumes "complete_lookup subject look" and "has_type subject v t"
  shows "resolveOperand v (Some look) = Some (valueOf look v) \<and> opKind (valueOf look v) = typeKind t"
  using assms(2)
proof (cases rule: has_type.cases)
  case (field f)
  then have "(opField v, f) \<in> set fieldCatalog" by (simp add: FieldSpecFor_def map_of_SomeD)
  with assms(1) field obtain w where "look f = Some w" "validFieldValue w (fsType f)"
    by (auto simp: complete_lookup_def split: option.splits)
  with field show ?thesis
    by (cases "fsType f") (auto simp: resolveOperand_def valueOf_def validFieldValue_def)
qed (auto simp: resolveOperand_def valueOf_def)

lemma compareValues_simps:
  "compareValues a b = 0 \<longleftrightarrow> a = b" "compareValues a b > 0 \<longleftrightarrow> a > b"
  "compareValues a b \<ge> 0 \<longleftrightarrow> a \<ge> b" "compareValues a b < 0 \<longleftrightarrow> a < b"
  "compareValues a b \<le> 0 \<longleftrightarrow> a \<le> b"
  by (auto simp: compareValues_def not_less)

lemma applyOperator_compareValues:
  assumes "allowedOperatorType t op"
  shows "applyOperator op (compareValues a b) = truth (opHolds op a b)"
proof -
  have "op \<in> set orderOperators"
  proof -
    have "''eq'' \<in> set orderOperators" "''ne'' \<in> set orderOperators"
      by (simp_all add: orderOperators_def)
    with assms show ?thesis
      unfolding allowedOperatorType_def by (cases t) (simp_all only: field_type.case, metis+)
  qed
  then consider "op = ''eq''" | "op = ''ne''" | "op = ''gt''" | "op = ''gte''" | "op = ''lt''" | "op = ''lte''"
    unfolding orderOperators_def list.set insert_iff by blast
  then show ?thesis
    by cases (simp_all add: applyOperator_def opHolds_def compareValues_simps)
qed

lemma applyOperator_bool:
  assumes "allowedOperatorType t op"
  shows "applyOperator op (if a = b then 0 else if \<not> a then -1 else 1) = truth (opHolds op a (b :: bool))"
  using applyOperator_compareValues [OF assms, of a b]
  by (cases a; cases b) (simp_all add: compareValues_def)

lemma evaluateComparison_typed:
  assumes "complete_lookup subject look" and "well_typed subject c"
  shows "evaluateComparison c (Some look) = truth (holds look c)"
proof -
  obtain t where t: "has_type subject (cmLeft c) t" "has_type subject (cmRight c) t"
    "allowedOperatorType t (cmOperator c)" using assms(2) by (auto elim: well_typed.cases)
  note l = resolveOperand_typed [OF assms(1) t(1)] and r = resolveOperand_typed [OF assms(1) t(2)]
  show ?thesis
    using l r by (cases t) (simp_all add: evaluateComparison_def relationOf_def holds_def Let_def
        applyOperator_compareValues [OF t(3)] applyOperator_bool [OF t(3)])
qed

lemma flatten_typed:
  assumes "wf_expression subject x"
  shows "\<forall>c \<in> set (flatten x). well_typed subject c"
proof -
  have "\<forall>c \<in> set (flatten y). well_typed subject c" if "wf_compare subject y" for y
    using that by (cases rule: wf_compare.cases) auto
  with assms show ?thesis by (cases rule: wf_expression.cases) auto
qed

lemma evaluateAll_typed:
  assumes "complete_lookup subject look" and "\<forall>c \<in> set cs. well_typed subject c"
  shows "evaluateAll cs (Some look) = truth (\<forall>c \<in> set cs. holds look c)"
proof -
  have ev: "evaluateComparison c (Some look) = truth (holds look c)" if "c \<in> set cs" for c
    using evaluateComparison_typed [OF assms(1)] assms(2) that by blast
  show ?thesis
  proof (cases "\<forall>c \<in> set cs. holds look c")
    case True
    then have "evaluateLoop False cs (Some look) = PredicateTrue"
      using ev by (simp add: evaluateLoop_simps truth_def)
    with True show ?thesis by (simp add: evaluateAll_def truth_def)
  next
    case False
    then have "evaluateLoop False cs (Some look) = PredicateFalse"
      unfolding evaluateLoop_simps using ev by (metis truth_def)
    with False show ?thesis by (simp only: evaluateAll_def truth_def if_False)
  qed
qed

text \<open>C22. Well-typed rules decide: with complete evidence for the subject kind of a rule, the
  compiled plan of the rule never answers unknown; its trigger and clear predicates have the
  boolean meaning of their comparisons, all of which must hold.\<close>

theorem plan_decides:
  assumes "Compile r resolver = Inr p" and "complete_lookup (tgKind (rdTargets r)) look"
  shows "EvaluateTrigger p (Some look) =
      truth (list_all (holds look) (flatten (cdPredicate (rdTrigger r)))) \<and>
    EvaluateClear p (Some look) =
      truth (list_all (holds look) (flatten (cdPredicate (rdClear r))))"
proof -
  have wf: "wf_definition r" and p: "plTrigger p = flatten (cdPredicate (rdTrigger r))"
    "plClear p = flatten (cdPredicate (rdClear r))"
    using assms(1) unfolding Compile_Inr by (auto simp: Let_def)
  have "wf_expression (tgKind (rdTargets r)) (cdPredicate (rdTrigger r))"
    "wf_expression (tgKind (rdTargets r)) (cdPredicate (rdClear r))"
    using wf by (simp_all add: wf_definition_def Let_def wf_condition_def)
  from this [THEN flatten_typed, THEN evaluateAll_typed [OF assms(2)]]
  show ?thesis
    by (simp add: EvaluateTrigger_def EvaluateClear_def p list_all_iff)
qed


lemma demoRule_wf: "wf_definition demoRule"
  unfolding Validate_ok [symmetric] by code_simp

lemma demoPlan: "\<exists>p. Compile demoRule (Some demoResolver) = Inr p"
  unfolding Compile_Inr pinnedOf_succeeds [symmetric] using demoRule_wf
  by (auto simp: Let_def pinnedOf_def demoRule_def NewRuleDefinition_def demoResolver_def
      canonicalIDs_def sortStrings_def sort_by_def)

lemma demoLookup_complete: "complete_lookup ''queue'' demoLookup"
  by (simp add: complete_lookup_def fieldCatalog_def queueField_def demoLookup_def validFieldValue_def
      DurationOperand_def IntegerOperand_def zeroOperand_def timeDurationInvalid_def)

theorem plan_decides_witness:
  "\<exists>p. Compile demoRule (Some demoResolver) = Inr p \<and> EvaluateTrigger p (Some demoLookup) = PredicateTrue \<and>
     EvaluateClear p (Some demoLookup) = PredicateFalse"
proof -
  obtain p where p: "Compile demoRule (Some demoResolver) = Inr p" using demoPlan by blast
  have "list_all (holds demoLookup) (flatten (cdPredicate (rdTrigger demoRule)))"
    "\<not> list_all (holds demoLookup) (flatten (cdPredicate (rdClear demoRule)))"
    by code_simp+
  moreover have "complete_lookup (tgKind (rdTargets demoRule)) demoLookup"
    using demoLookup_complete by (simp add: demoRule_def NewRuleDefinition_def)
  ultimately show ?thesis
    using plan_decides [OF p, of demoLookup] p by (intro exI [of _ p]) (simp add: truth_def)
qed

subsection \<open>The two forms of a conjunction\<close>

text \<open>A conjunction built in Go is held to a lower limit than the same conjunction read
  from JSON: with 31 well-typed comparisons the pointer that the decoder builds validates,
  and the value that \<^verbatim>\<open>NewAll\<close> builds is rejected for its size, because the walk
  counts a value twice.\<close>

theorem all_value_counts_twice:
  assumes "well_typed subject e"
  shows "validateExpression (AllRef (Some (replicate 31 (CompareExpression e)))) p subject = [] \<and>
    validateExpression (AllExpression (replicate 31 (CompareExpression e))) p subject \<noteq> []"
  using assms by (simp add: validateExpression_ok wf_expression_simps)

theorem all_value_counts_twice_witness:
  "validateExpression (AllExpression (replicate 31 (CompareExpression (demoCompare ''gt'')))) ''/p'' ''queue'' \<noteq> []"
proof -
  have "well_typed ''queue'' (demoCompare ''gt'')"
    unfolding validateCompare_ok [where p = "[]", symmetric] by code_simp
  from all_value_counts_twice [OF this] show ?thesis by blast
qed

end
