(* ===== verification/Json.thy ===== *)
theory Json
  imports Prelude
begin

text \<open>
  JSON values as \<^verbatim>\<open>encoding/json\<close> hands them to the decoders of the program: an object is
  its list of members in order, a number is its text, a string its decoded bytes. The package
  turns text into such a value and back, one to one for strings that are valid UTF-8. The
  operations here are what the program uses of it: decoding an object into a struct with
  unknown fields disallowed, and integers from number texts.
\<close>

datatype json = JNull | JBool bool | JNum string | JStr string | JArr "json list"
  | JObj "(string \<times> json) list"

text \<open>Decoding all elements of a slice, or failing.\<close>

fun sequenceOpt :: "'a option list \<Rightarrow> 'a list option" where
  "sequenceOpt [] = Some []"
| "sequenceOpt (x # xs) = (case x of None \<Rightarrow> None | Some a \<Rightarrow> map_option ((#) a) (sequenceOpt xs))"

lemma sequenceOpt_map_Some [simp]: "sequenceOpt (map (\<lambda>x. Some (f x)) xs) = Some (map f xs)"
  by (induction xs) simp_all

lemma sequenceOpt_None: "sequenceOpt xs = None \<longleftrightarrow> None \<in> set xs"
  by (induction xs) (auto split: option.splits)

lemma sequenceOpt_eq_Some: "sequenceOpt xs = Some ys \<longleftrightarrow> xs = map Some ys"
  by (induction xs arbitrary: ys) (auto split: option.splits)

subsection \<open>Structs\<close>

text \<open>
  A member belongs to the struct field whose name equals the member's up to Unicode case
  folding. The field names of the program are ASCII; besides the ASCII letters only the long s
  (bytes C5 BF) and the Kelvin sign (bytes E2 84 AA) fold to one.
\<close>

definition upperASCII :: "char \<Rightarrow> char" where
  "upperASCII c = (if 97 \<le> (of_char c :: nat) \<and> (of_char c :: nat) \<le> 122
     then char_of ((of_char c :: nat) - 32) else c)"

function foldName :: "string \<Rightarrow> string" where
  "foldName s = (if s = [] then []
     else if take 2 s = [CHR 0xC5, CHR 0xBF] then CHR ''S'' # foldName (drop 2 s)
     else if take 3 s = [CHR 0xE2, CHR 0x84, CHR 0xAA] then CHR ''K'' # foldName (drop 3 s)
     else upperASCII (hd s) # foldName (tl s))"
  by pat_completeness auto
termination by (relation "measure length") auto

declare foldName.simps [simp del]

definition fieldOf :: "string list \<Rightarrow> string \<Rightarrow> string option" where
  "fieldOf names k = find (\<lambda>n. foldName n = foldName k) names"

fun membersOf :: "string list \<Rightarrow> (string \<times> json) list \<Rightarrow> (string \<times> json) list option" where
  "membersOf names [] = Some []"
| "membersOf names ((k, v) # ms) = (case fieldOf names k of None \<Rightarrow> None
     | Some n \<Rightarrow> map_option ((#) (n, v)) (membersOf names ms))"

text \<open>\<^verbatim>\<open>strictObject\<close>: the members by field; null decodes into a struct without effect.\<close>

fun strictObject :: "string list \<Rightarrow> json \<Rightarrow> (string \<times> json) list option" where
  "strictObject names (JObj ms) = membersOf names ms"
| "strictObject names JNull = Some []"
| "strictObject names _ = None"

text \<open>A field of type \<^verbatim>\<open>json.RawMessage\<close>: the last member of that name, null included.\<close>

definition rawField :: "string \<Rightarrow> (string \<times> json) list \<Rightarrow> json option" where
  "rawField n ms = map_of (rev ms) n"

text \<open>
  A pointer field: every member of the name has to decode, null gives the nil pointer, the last
  one stays. The outer option is the decoding error. (A member that is repeated and holds an
  array with null elements would keep elements of the earlier array; such inputs are outside
  the model.)
\<close>

definition ptrField :: "(json \<Rightarrow> 'a option) \<Rightarrow> string \<Rightarrow> (string \<times> json) list \<Rightarrow> 'a option option" where
  "ptrField dec n ms =
     (if list_all (\<lambda>(k, v). k = n \<longrightarrow> v = JNull \<or> dec v \<noteq> None) ms
      then Some (case map_of (rev ms) n of None \<Rightarrow> None | Some v \<Rightarrow> if v = JNull then None else dec v)
      else None)"

text \<open>\<^verbatim>\<open>json.Unmarshal\<close> into a string, a Boolean and a slice of strings, of values that are
  not null; a null element of an array leaves the element's zero value.\<close>

fun asString :: "json \<Rightarrow> string option" where
  "asString (JStr s) = Some s"
| "asString _ = None"

fun asBool :: "json \<Rightarrow> bool option" where
  "asBool (JBool b) = Some b"
| "asBool _ = None"

fun stringElement :: "json \<Rightarrow> string option" where
  "stringElement (JStr s) = Some s"
| "stringElement JNull = Some []"
| "stringElement _ = None"

fun asStrings :: "json \<Rightarrow> string list option" where
  "asStrings (JArr xs) = sequenceOpt (map stringElement xs)"
| "asStrings _ = None"

subsection \<open>Numbers\<close>

text \<open>\<^verbatim>\<open>strconv.ParseInt(s, 10, 64)\<close> and \<^verbatim>\<open>strconv.ParseUint(s, 10, 64)\<close> on number
  texts, which have no plus sign.\<close>

definition parseUint64 :: "string \<Rightarrow> nat option" where
  "parseUint64 s = (if s \<noteq> [] \<and> list_all isDigit s \<and> int (decimal_value s) < 2 ^ 64
     then Some (decimal_value s) else None)"

definition parseInt64 :: "string \<Rightarrow> int option" where
  "parseInt64 s =
     (let neg = (s \<noteq> [] \<and> hd s = CHR ''-''); ds = (if neg then tl s else s);
          n = int (decimal_value ds)
      in if ds = [] \<or> \<not> list_all isDigit ds then None
         else if neg then (if n > 2 ^ 63 then None else Some (- n))
         else (if n \<ge> 2 ^ 63 then None else Some n))"

lemma parseUint64_decimal: "n < 2 ^ 64 \<Longrightarrow> parseUint64 (decimal n) = Some n"
  using of_nat_less_iff [of n "2 ^ 64", where ?'a = int] by (simp add: parseUint64_def isDigit_decimal)

lemma hd_decimal: "hd (decimal n) \<noteq> CHR ''-''"
  using decimal_ne_minus [of n "tl (decimal n)"] by (metis decimal_not_Nil list.collapse)

lemma parseInt64_formatInt:
  assumes "- (2 ^ 63) \<le> i" and "i < 2 ^ 63"
  shows "parseInt64 (formatInt i) = Some i"
  using assms isDigit_decimal hd_decimal by (auto simp: parseInt64_def formatInt_def Let_def)

end
