(* ===== verification/RulesJson.thy ===== *)
theory RulesJson
  imports Rules Json
begin

text \<open>
  The JSON form of rule definitions, the marshalling half of
  \<^verbatim>\<open>internal/rules/json.go\<close>, as JSON values: an object is its list of members in
  order, a number is its text. \<^verbatim>\<open>encoding/json\<close> turns such a value into text, one to
  one for texts that are valid UTF-8.
\<close>

text \<open>\<^verbatim>\<open>Duration.MarshalJSON\<close>; \<open>None\<close> is its error.\<close>

definition marshalDuration :: "duration \<Rightarrow> json option" where
  "marshalDuration d = map_option JStr (canonicalDurationString d)"

definition marshalOperand :: "operand \<Rightarrow> json option" where
  "marshalOperand v = (case opKind v of
       OperandField \<Rightarrow> Some (JObj [(''kind'', JStr ''field''), (''name'', JStr (opField v))])
     | OperandInteger \<Rightarrow>
         Some (JObj [(''kind'', JStr ''integer''), (''value'', JNum (formatInt (opInteger v)))])
     | OperandDuration \<Rightarrow>
         map_option (\<lambda>d. JObj [(''kind'', JStr ''duration''), (''value'', d)]) (marshalDuration (opDuration v))
     | OperandBoolean \<Rightarrow> Some (JObj [(''kind'', JStr ''boolean''), (''value'', JBool (opBoolean v))])
     | OperandAgentState \<Rightarrow>
         Some (JObj [(''kind'', JStr ''agent_state''), (''value'', JStr (opAgentState v))])
     | OtherOperand _ \<Rightarrow> None)"

definition marshalCompare :: "comparison \<Rightarrow> json option" where
  "marshalCompare e = (case marshalOperand (cmLeft e) of None \<Rightarrow> None
     | Some l \<Rightarrow> (case marshalOperand (cmRight e) of None \<Rightarrow> None
         | Some r \<Rightarrow> Some (JObj [(''kind'', JStr ''compare''), (''left'', l),
             (''op'', JStr (cmOperator e)), (''right'', r)])))"

definition marshalAll :: "json list \<Rightarrow> json" where
  "marshalAll cs = JObj [(''kind'', JStr ''all''), (''conditions'', JArr cs)]"

fun marshalExpression :: "expression \<Rightarrow> json option" where
  "marshalExpression NilExpression = Some JNull"
| "marshalExpression (CompareRef None) = Some JNull"
| "marshalExpression (CompareRef (Some e)) = marshalCompare e"
| "marshalExpression (CompareExpression e) = marshalCompare e"
| "marshalExpression (AllRef None) = Some JNull"
| "marshalExpression (AllRef (Some cs)) = map_option marshalAll (sequenceOpt (map marshalExpression cs))"
| "marshalExpression (AllExpression cs) = map_option marshalAll (sequenceOpt (map marshalExpression cs))"

definition marshalTargets :: "targets \<Rightarrow> json" where
  "marshalTargets t = JObj [(''kind'', JStr (tgKind t)), (''ids'', JArr (map JStr (tgIDs t))),
     (''group_ids'', JArr (map JStr (tgGroupIDs t)))]"

definition marshalCondition :: "condition \<Rightarrow> json option" where
  "marshalCondition c = (case marshalExpression (cdPredicate c) of None \<Rightarrow> None
     | Some p \<Rightarrow> (case marshalDuration (cdFor c) of None \<Rightarrow> None
         | Some d \<Rightarrow> Some (JObj [(''predicate'', p), (''for'', d)])))"

definition marshalNotifications :: "notification_policy \<Rightarrow> json" where
  "marshalNotifications n = JObj [(''on_open'', JBool (npOnOpen n)),
     (''on_recovery'', JBool (npOnRecovery n)), (''audience'', JStr (npAudience n))]"

text \<open>\<^verbatim>\<open>RuleDefinition.MarshalJSON\<close>: the description is left out when it is empty.\<close>

definition marshalDefinition :: "rule_definition \<Rightarrow> json option" where
  "marshalDefinition r = (case marshalCondition (rdTrigger r) of None \<Rightarrow> None
     | Some trig \<Rightarrow> (case marshalCondition (rdClear r) of None \<Rightarrow> None
         | Some clr \<Rightarrow> Some (JObj (
             [(''schema_version'', JNum (formatInt (rdSchemaVersion r))), (''name'', JStr (rdName r))] @
             (if rdDescription r = [] then [] else [(''description'', JStr (rdDescription r))]) @
             [(''targets'', marshalTargets (rdTargets r)), (''trigger'', trig), (''clear'', clr),
              (''notifications'', marshalNotifications (rdNotifications r))]))))"

end
