(* ===== verification/RulesDecode.thy ===== *)
theory RulesDecode
  imports RulesJson
begin

text \<open>
  The unmarshalling half of \<^verbatim>\<open>internal/rules/json.go\<close> and
  \<^verbatim>\<open>internal/rules/decode.go\<close>, on JSON values. The required members of a definition are
  checked in the random order of a Go map, so which error is reported is not determined:
  decoding returns \<open>None\<close> for any error.
\<close>

definition unmarshalDuration :: "json \<Rightarrow> duration option" where
  "unmarshalDuration j = (case j of
       JStr s \<Rightarrow> (case ParseDuration s of Inl _ \<Rightarrow> None | Inr d \<Rightarrow> Some d)
     | JNull \<Rightarrow> (case ParseDuration [] of Inl _ \<Rightarrow> None | Inr d \<Rightarrow> Some d)
     | _ \<Rightarrow> None)"

definition presentField :: "string \<Rightarrow> (string \<times> json) list \<Rightarrow> json option" where
  "presentField n ms = (case rawField n ms of None \<Rightarrow> None
     | Some v \<Rightarrow> if v = JNull then None else Some v)"

fun asInteger :: "json \<Rightarrow> int option" where
  "asInteger (JNum t) = parseInt64 t"
| "asInteger _ = None"

definition operandOfKind :: "string \<Rightarrow> json \<Rightarrow> operand option" where
  "operandOfKind k v =
     (if k = ''integer'' then map_option IntegerOperand (asInteger v)
      else if k = ''duration'' then map_option DurationOperand (unmarshalDuration v)
      else if k = ''boolean'' then map_option BooleanOperand (asBool v)
      else if k = ''agent_state'' then map_option AgentStateOperand (asString v)
      else None)"

definition unmarshalOperand :: "json \<Rightarrow> operand option" where
  "unmarshalOperand j = (if j = JNull then None else
     case strictObject [''kind'', ''name'', ''value''] j of None \<Rightarrow> None
     | Some ms \<Rightarrow> (case ptrField asString ''kind'' ms of None \<Rightarrow> None | Some None \<Rightarrow> None
       | Some (Some k) \<Rightarrow>
           if k = ''field'' then
             (case presentField ''name'' ms of None \<Rightarrow> None
              | Some v \<Rightarrow> if rawField ''value'' ms \<noteq> None then None
                  else map_option FieldOperand (asString v))
           else if rawField ''name'' ms \<noteq> None then None
           else (case presentField ''value'' ms of None \<Rightarrow> None | Some v \<Rightarrow> operandOfKind k v)))"

definition expressionEnvelope :: "string list" where
  "expressionEnvelope = [''kind'', ''left'', ''op'', ''right'', ''conditions'']"

definition unmarshalCompare :: "json \<Rightarrow> comparison option" where
  "unmarshalCompare j = (case strictObject expressionEnvelope j of None \<Rightarrow> None
     | Some ms \<Rightarrow>
         if ptrField asString ''kind'' ms \<noteq> Some (Some ''compare'') then None
         else if rawField ''conditions'' ms \<noteq> None then None
         else (case (presentField ''left'' ms, presentField ''op'' ms, presentField ''right'' ms) of
             (Some l, Some op, Some r) \<Rightarrow> (case (asString op, unmarshalOperand l, unmarshalOperand r) of
                 (Some op', Some l', Some r') \<Rightarrow> Some \<lparr>cmLeft = l', cmOperator = op', cmRight = r'\<rparr>
               | _ \<Rightarrow> None)
           | _ \<Rightarrow> None))"

text \<open>The guards of \<^verbatim>\<open>AllExpression.UnmarshalJSON\<close>, to the raw conditions.\<close>

definition allConditions :: "json \<Rightarrow> json list option" where
  "allConditions j = (case strictObject expressionEnvelope j of None \<Rightarrow> None
     | Some ms \<Rightarrow>
         if ptrField asString ''kind'' ms \<noteq> Some (Some ''all'') then None
         else if rawField ''left'' ms \<noteq> None \<or> rawField ''op'' ms \<noteq> None \<or> rawField ''right'' ms \<noteq> None
           then None
         else (case presentField ''conditions'' ms of
             Some (JArr raws) \<Rightarrow> if length raws = 0 then None
               else if length raws + 1 > 32 then None else Some raws
           | _ \<Rightarrow> None))"

lemma membersOf_in: "membersOf names ms = Some out \<Longrightarrow> (n, v) \<in> set out \<Longrightarrow> v \<in> snd ` set ms"
  by (induction ms arbitrary: out) (auto split: option.splits)

lemma rawField_size:
  assumes "strictObject names j = Some ms" and "rawField n ms = Some v"
  shows "size v < size j"
proof -
  have "(n, v) \<in> set ms" using assms(2) by (auto simp: rawField_def dest: map_of_SomeD)
  moreover from this obtain ms' where j: "j = JObj ms'" and "membersOf names ms' = Some ms"
    using assms(1) by (cases j) auto
  ultimately obtain k where "(k, v) \<in> set ms'" using membersOf_in by fastforce
  then have "size_prod (\<lambda>_. 0) size (k, v) \<le> size_list (size_prod (\<lambda>_. 0) size) ms'"
    by (rule size_list_estimation') simp
  then show ?thesis by (simp add: j)
qed

lemma allConditions_size:
  assumes "allConditions j = Some raws" and "r \<in> set raws"
  shows "size r < size j"
proof -
  obtain ms where "strictObject expressionEnvelope j = Some ms" "rawField ''conditions'' ms = Some (JArr raws)"
    using assms(1)
    by (auto simp: allConditions_def presentField_def split: option.splits if_splits json.splits)
  from rawField_size [OF this] have "size (JArr raws) < size j" .
  moreover have "size r \<le> size_list size raws" by (rule size_list_estimation' [OF assms(2)]) simp
  ultimately show ?thesis by simp
qed

function decodeExpression :: "json \<Rightarrow> expression option" where
  "decodeExpression j = (case strictObject expressionEnvelope j of None \<Rightarrow> None
     | Some ms \<Rightarrow> (case ptrField asString ''kind'' ms of None \<Rightarrow> None | Some None \<Rightarrow> None
       | Some (Some k) \<Rightarrow>
           if k = ''compare'' then map_option (\<lambda>e. CompareRef (Some e)) (unmarshalCompare j)
           else if k = ''all'' then (case allConditions j of None \<Rightarrow> None
             | Some raws \<Rightarrow> (case sequenceOpt (map decodeExpression raws) of None \<Rightarrow> None
                 | Some cs \<Rightarrow> if list_all isCompare cs then Some (AllRef (Some cs)) else None))
           else None))"
  by pat_completeness auto
termination
  by (relation "measure size") (auto dest: allConditions_size)

declare decodeExpression.simps [simp del]

definition unmarshalTargets :: "json \<Rightarrow> targets option" where
  "unmarshalTargets j = (case strictObject [''kind'', ''ids'', ''group_ids''] j of None \<Rightarrow> None
     | Some ms \<Rightarrow> (case (ptrField asString ''kind'' ms, ptrField asStrings ''ids'' ms,
           ptrField asStrings ''group_ids'' ms) of
         (Some (Some k), Some (Some ids), Some (Some groups)) \<Rightarrow>
           if j = JNull then None else Some \<lparr>tgKind = k, tgIDs = ids, tgGroupIDs = groups\<rparr>
       | _ \<Rightarrow> None))"

definition unmarshalCondition :: "json \<Rightarrow> condition option" where
  "unmarshalCondition j = (case strictObject [''predicate'', ''for''] j of None \<Rightarrow> None
     | Some ms \<Rightarrow> (case (presentField ''predicate'' ms, ptrField unmarshalDuration ''for'' ms) of
         (Some p, Some (Some d)) \<Rightarrow>
           map_option (\<lambda>x. \<lparr>cdPredicate = x, cdFor = d\<rparr>) (decodeExpression p)
       | _ \<Rightarrow> None))"

definition unmarshalNotifications :: "json \<Rightarrow> notification_policy option" where
  "unmarshalNotifications j = (case strictObject [''on_open'', ''on_recovery'', ''audience''] j of None \<Rightarrow> None
     | Some ms \<Rightarrow> (case (ptrField asBool ''on_open'' ms, ptrField asBool ''on_recovery'' ms,
           ptrField asString ''audience'' ms) of
         (Some (Some op), Some (Some rec), Some (Some aud)) \<Rightarrow>
           Some \<lparr>npOnOpen = op, npOnRecovery = rec, npAudience = aud\<rparr>
       | _ \<Rightarrow> None))"

text \<open>\<^verbatim>\<open>json.Unmarshal\<close> of null into a type with an \<^verbatim>\<open>UnmarshalJSON\<close> method calls it; the
  members read here are never null.\<close>

definition unmarshalDefinition :: "json \<Rightarrow> rule_definition option" where
  "unmarshalDefinition j = (case strictObject [''schema_version'', ''name'', ''description'', ''targets'',
        ''trigger'', ''clear'', ''notifications''] j of None \<Rightarrow> None
     | Some ms \<Rightarrow> (case (presentField ''schema_version'' ms, presentField ''name'' ms, presentField ''targets'' ms,
           presentField ''trigger'' ms, presentField ''clear'' ms, presentField ''notifications'' ms) of
         (Some v, Some n, Some t, Some tr, Some cl, Some no) \<Rightarrow>
           (case (asInteger v, asString n, unmarshalTargets t, unmarshalCondition tr, unmarshalCondition cl,
               unmarshalNotifications no) of
              (Some v', Some n', Some t', Some tr', Some cl', Some no') \<Rightarrow>
                (let r = (\<lambda>desc. \<lparr>rdSchemaVersion = v', rdName = n', rdDescription = desc, rdTargets = t',
                     rdTrigger = tr', rdClear = cl', rdNotifications = no'\<rparr>)
                 in case rawField ''description'' ms of None \<Rightarrow> Some (r [])
                    | Some d \<Rightarrow> if d = JNull then None else map_option r (asString d))
            | _ \<Rightarrow> None)
       | _ \<Rightarrow> None))"

datatype decode_rule_error = DefinitionNotDecoded | DefinitionNotValid "validation_error list"

definition DecodeRuleDefinition :: "json \<Rightarrow> decode_rule_error + rule_definition" where
  "DecodeRuleDefinition j = (case unmarshalDefinition j of
       None \<Rightarrow> Inl DefinitionNotDecoded
     | Some r \<Rightarrow> if Validate r \<noteq> [] then Inl (DefinitionNotValid (Validate r)) else Inr r)"

end
