(* ===== verification/RulesJsonProps.thy ===== *)
theory RulesJsonProps
  imports RulesDecode RulesProps
begin

text \<open>
  The JSON form of rule definitions: what is marshalled decodes to the same definition up to
  the canonical form of its expressions and operands, decoding yields canonical definitions
  only, and a definition's signature identifies it.
\<close>

subsection \<open>Members\<close>

lemma fieldOf_self:
  assumes "distinct (map foldName names)" and "n \<in> set names"
  shows "fieldOf names n = Some n"
proof -
  obtain i where i: "i < length names" "names ! i = n" using assms(2) by (auto simp: in_set_conv_nth)
  have "foldName (names ! j) \<noteq> foldName n" if "j < i" for j
    using assms(1) i that by (auto simp: distinct_conv_nth)
  then show ?thesis using i by (auto simp: fieldOf_def find_Some_iff)
qed

lemma field_names_distinct:
  "distinct (map foldName [''kind'', ''name'', ''value''])"
  "distinct (map foldName expressionEnvelope)"
  "distinct (map foldName [''kind'', ''ids'', ''group_ids''])"
  "distinct (map foldName [''predicate'', ''for''])"
  "distinct (map foldName [''on_open'', ''on_recovery'', ''audience''])"
  "distinct (map foldName [''schema_version'', ''name'', ''description'', ''targets'', ''trigger'',
     ''clear'', ''notifications''])"
  by code_simp+

lemma expressionEnvelope_set: "set expressionEnvelope = {''kind'', ''left'', ''op'', ''right'', ''conditions''}"
  by (simp add: expressionEnvelope_def)

lemmas members_self = field_names_distinct [THEN fieldOf_self] expressionEnvelope_set

lemmas field_defs = ptrField_def rawField_def presentField_def

subsection \<open>Canonical definitions\<close>

text \<open>A decoded operand holds only the value of its kind; decoded expressions are pointers.\<close>

definition canonicalOperand :: "operand \<Rightarrow> operand" where
  "canonicalOperand v = (case opKind v of
       OperandField \<Rightarrow> FieldOperand (opField v)
     | OperandInteger \<Rightarrow> IntegerOperand (opInteger v)
     | OperandDuration \<Rightarrow> DurationOperand (opDuration v)
     | OperandBoolean \<Rightarrow> BooleanOperand (opBoolean v)
     | OperandAgentState \<Rightarrow> AgentStateOperand (opAgentState v)
     | OtherOperand _ \<Rightarrow> v)"

definition canonicalCompare :: "comparison \<Rightarrow> comparison" where
  "canonicalCompare e = \<lparr>cmLeft = canonicalOperand (cmLeft e), cmOperator = cmOperator e,
     cmRight = canonicalOperand (cmRight e)\<rparr>"

fun canonicalExpression :: "expression \<Rightarrow> expression" where
  "canonicalExpression (CompareExpression e) = CompareRef (Some (canonicalCompare e))"
| "canonicalExpression (CompareRef (Some e)) = CompareRef (Some (canonicalCompare e))"
| "canonicalExpression (AllExpression cs) = AllRef (Some (map canonicalExpression cs))"
| "canonicalExpression (AllRef (Some cs)) = AllRef (Some (map canonicalExpression cs))"
| "canonicalExpression x = x"

definition canonicalDefinition :: "rule_definition \<Rightarrow> rule_definition" where
  "canonicalDefinition r =
     r\<lparr>rdTrigger := (rdTrigger r)\<lparr>cdPredicate := canonicalExpression (cdPredicate (rdTrigger r))\<rparr>,
       rdClear := (rdClear r)\<lparr>cdPredicate := canonicalExpression (cdPredicate (rdClear r))\<rparr>\<rparr>"

text \<open>The integers of a definition fit \<^verbatim>\<open>int64\<close>, as they do in Go.\<close>

definition int64Operand :: "operand \<Rightarrow> bool" where
  "int64Operand v \<longleftrightarrow> - (2 ^ 63) \<le> opInteger v \<and> opInteger v < 2 ^ 63"

definition int64Definition :: "rule_definition \<Rightarrow> bool" where
  "int64Definition r \<longleftrightarrow> list_all (\<lambda>e. int64Operand (cmLeft e) \<and> int64Operand (cmRight e))
     (flatten (cdPredicate (rdTrigger r)) @ flatten (cdPredicate (rdClear r)))"

subsection \<open>Round trips, level by level\<close>

lemma duration_unmarshal:
  "marshalDuration d = Some j \<Longrightarrow> unmarshalDuration j = Some d \<and> j \<noteq> JNull"
  using duration_print_parse by (auto simp: marshalDuration_def unmarshalDuration_def)

lemma operand_unmarshal:
  assumes "has_type subject v t" and "int64Operand v"
  shows "\<exists>j. marshalOperand v = Some j \<and> j \<noteq> JNull \<and> unmarshalOperand j = Some (canonicalOperand v)"
  using assms(1)
proof cases
  case (field f)
  then show ?thesis
    by (auto simp: marshalOperand_def unmarshalOperand_def canonicalOperand_def members_self field_defs)
next
  case integer
  then show ?thesis using assms(2)
    by (auto simp: marshalOperand_def unmarshalOperand_def canonicalOperand_def members_self field_defs
        operandOfKind_def int64Operand_def parseInt64_formatInt)
next
  case duration
  then obtain j where j: "marshalDuration (opDuration v) = Some j"
    using canonicalDurationString_None [of "opDuration v"] by (auto simp: marshalDuration_def)
  then show ?thesis using duration duration_unmarshal [OF j]
    by (auto simp: marshalOperand_def unmarshalOperand_def canonicalOperand_def members_self field_defs
        operandOfKind_def)
next
  case boolean
  then show ?thesis
    by (auto simp: marshalOperand_def unmarshalOperand_def canonicalOperand_def members_self field_defs
        operandOfKind_def)
next
  case agent_state
  then show ?thesis
    by (auto simp: marshalOperand_def unmarshalOperand_def canonicalOperand_def members_self field_defs
        operandOfKind_def)
qed

lemma compare_unmarshal:
  assumes "well_typed subject e" and "int64Operand (cmLeft e)" and "int64Operand (cmRight e)"
  shows "\<exists>j. marshalCompare e = Some j \<and> j \<noteq> JNull \<and> unmarshalCompare j = Some (canonicalCompare e) \<and>
    decodeExpression j = Some (CompareRef (Some (canonicalCompare e)))"
proof -
  obtain t where t: "has_type subject (cmLeft e) t" "has_type subject (cmRight e) t"
    using assms(1) by (auto elim: well_typed.cases)
  obtain l where l: "marshalOperand (cmLeft e) = Some l" "l \<noteq> JNull"
      "unmarshalOperand l = Some (canonicalOperand (cmLeft e))"
    using operand_unmarshal [OF t(1) assms(2)] by blast
  obtain r where r: "marshalOperand (cmRight e) = Some r" "r \<noteq> JNull"
      "unmarshalOperand r = Some (canonicalOperand (cmRight e))"
    using operand_unmarshal [OF t(2) assms(3)] by blast
  let ?j = "JObj [(''kind'', JStr ''compare''), (''left'', l), (''op'', JStr (cmOperator e)), (''right'', r)]"
  have m: "marshalCompare e = Some ?j" by (simp add: marshalCompare_def l(1) r(1))
  have s: "strictObject expressionEnvelope ?j =
      Some [(''kind'', JStr ''compare''), (''left'', l), (''op'', JStr (cmOperator e)), (''right'', r)]"
    by (simp add: members_self)
  have u: "unmarshalCompare ?j = Some (canonicalCompare e)"
    unfolding unmarshalCompare_def s
    by (simp add: field_defs l(2,3) r(2,3) canonicalCompare_def)
  have "decodeExpression ?j = Some (CompareRef (Some (canonicalCompare e)))"
    unfolding decodeExpression.simps [of ?j] s by (simp add: field_defs u)
  with m u show ?thesis by blast
qed

lemma wf_compare_unmarshal:
  assumes "wf_compare subject c"
    and "list_all (\<lambda>e. int64Operand (cmLeft e) \<and> int64Operand (cmRight e)) (flatten c)"
  shows "\<exists>j. marshalExpression c = Some j \<and> j \<noteq> JNull \<and> decodeExpression j = Some (canonicalExpression c)"
  using assms by (cases rule: wf_compare.cases) (auto dest: compare_unmarshal)

lemma all_unmarshal:
  assumes "\<forall>c \<in> set cs. wf_compare subject c"
    and "list_all (\<lambda>e. int64Operand (cmLeft e) \<and> int64Operand (cmRight e)) (concat (map flatten cs))"
  shows "\<exists>js. map marshalExpression cs = map Some js \<and>
    map decodeExpression js = map (\<lambda>c. Some (canonicalExpression c)) cs"
  using assms
proof (induction cs)
  case (Cons c cs)
  then obtain js where "map marshalExpression cs = map Some js"
    "map decodeExpression js = map (\<lambda>c. Some (canonicalExpression c)) cs" by auto
  moreover obtain j where "marshalExpression c = Some j" "decodeExpression j = Some (canonicalExpression c)"
    using wf_compare_unmarshal [of subject c] Cons.prems by auto
  ultimately show ?case by (intro exI [of _ "j # js"]) simp
qed simp

lemma canonical_isCompare: "wf_compare subject c \<Longrightarrow> isCompare (canonicalExpression c)"
  by (auto elim: wf_compare.cases)

lemma marshalAll_unmarshal:
  assumes "cs \<noteq> []" and "length cs \<le> 31" and "\<forall>c \<in> set cs. wf_compare subject c"
    and "list_all (\<lambda>e. int64Operand (cmLeft e) \<and> int64Operand (cmRight e)) (concat (map flatten cs))"
  shows "\<exists>j. map_option marshalAll (sequenceOpt (map marshalExpression cs)) = Some j \<and> j \<noteq> JNull \<and>
    decodeExpression j = Some (AllRef (Some (map canonicalExpression cs)))"
proof -
  obtain js where js: "map marshalExpression cs = map Some js"
    "map decodeExpression js = map (\<lambda>c. Some (canonicalExpression c)) cs"
    using all_unmarshal [OF assms(3,4)] by blast
  have len: "length js = length cs" using js(1) by (metis length_map)
  have s: "strictObject expressionEnvelope (marshalAll js) =
      Some [(''kind'', JStr ''all''), (''conditions'', JArr js)]"
    by (simp add: members_self marshalAll_def)
  have a: "allConditions (marshalAll js) = Some js"
    unfolding allConditions_def s using len assms(1,2) by (simp add: field_defs)
  have "list_all isCompare (map canonicalExpression cs)"
    using assms(3) canonical_isCompare by (auto simp: list_all_iff)
  then have "decodeExpression (marshalAll js) = Some (AllRef (Some (map canonicalExpression cs)))"
    unfolding decodeExpression.simps [of "marshalAll js"] s by (simp add: field_defs a js(2))
  then show ?thesis by (simp add: js(1) marshalAll_def)
qed

lemma expression_unmarshal:
  assumes "wf_expression subject x"
    and "list_all (\<lambda>e. int64Operand (cmLeft e) \<and> int64Operand (cmRight e)) (flatten x)"
  shows "\<exists>j. marshalExpression x = Some j \<and> j \<noteq> JNull \<and> decodeExpression j = Some (canonicalExpression x)"
  using assms(1)
proof cases
  case compare
  then show ?thesis using wf_compare_unmarshal assms(2) by blast
next
  case (all_ref cs)
  then show ?thesis using marshalAll_unmarshal [of cs subject] assms(2) by simp
next
  case (all_value cs)
  then show ?thesis using marshalAll_unmarshal [of cs subject] assms(2) by simp
qed

lemma condition_unmarshal:
  assumes "wf_condition subject c"
    and "list_all (\<lambda>e. int64Operand (cmLeft e) \<and> int64Operand (cmRight e)) (flatten (cdPredicate c))"
  shows "\<exists>j. marshalCondition c = Some j \<and> j \<noteq> JNull \<and>
    unmarshalCondition j = Some (c\<lparr>cdPredicate := canonicalExpression (cdPredicate c)\<rparr>)"
proof -
  obtain p where p: "marshalExpression (cdPredicate c) = Some p" "p \<noteq> JNull"
      "decodeExpression p = Some (canonicalExpression (cdPredicate c))"
    using expression_unmarshal assms by (auto simp: wf_condition_def)
  obtain d where d: "marshalDuration (cdFor c) = Some d"
    using assms(1) canonicalDurationString_None [of "cdFor c"] by (auto simp: wf_condition_def marshalDuration_def)
  let ?ms = "[(''predicate'', p), (''for'', d)]"
  have "strictObject [''predicate'', ''for''] (JObj ?ms) = Some ?ms" by (simp add: members_self)
  then show ?thesis
    using duration_unmarshal [OF d] p d
    by (simp add: marshalCondition_def unmarshalCondition_def field_defs)
qed

lemma strings_unmarshal [simp]: "asStrings (JArr (map JStr xs)) = Some xs"
  by (simp add: comp_def)

lemma targets_unmarshal: "unmarshalTargets (marshalTargets t) = Some t"
proof -
  let ?ms = "[(''kind'', JStr (tgKind t)), (''ids'', JArr (map JStr (tgIDs t))),
     (''group_ids'', JArr (map JStr (tgGroupIDs t)))]"
  have "strictObject [''kind'', ''ids'', ''group_ids''] (JObj ?ms) = Some ?ms" by (simp add: members_self)
  then show ?thesis
    by (simp add: marshalTargets_def unmarshalTargets_def field_defs del: asStrings.simps)
qed

lemma notifications_unmarshal: "unmarshalNotifications (marshalNotifications n) = Some n"
proof -
  let ?ms = "[(''on_open'', JBool (npOnOpen n)), (''on_recovery'', JBool (npOnRecovery n)),
     (''audience'', JStr (npAudience n))]"
  have "strictObject [''on_open'', ''on_recovery'', ''audience''] (JObj ?ms) = Some ?ms" by (simp add: members_self)
  then show ?thesis by (simp add: marshalNotifications_def unmarshalNotifications_def field_defs)
qed

lemma definition_unmarshal:
  assumes "wf_definition r" and "int64Definition r"
  shows "\<exists>j. marshalDefinition r = Some j \<and> unmarshalDefinition j = Some (canonicalDefinition r)"
proof -
  have wf: "wf_condition (tgKind (rdTargets r)) (rdTrigger r)" "wf_condition (tgKind (rdTargets r)) (rdClear r)"
    "rdSchemaVersion r = 1"
    using assms(1) by (auto simp: wf_definition_def Let_def)
  obtain tr where tr: "marshalCondition (rdTrigger r) = Some tr" "tr \<noteq> JNull" "unmarshalCondition tr =
      Some ((rdTrigger r)\<lparr>cdPredicate := canonicalExpression (cdPredicate (rdTrigger r))\<rparr>)"
    using condition_unmarshal [OF wf(1)] assms(2) by (auto simp: int64Definition_def)
  obtain cl where cl: "marshalCondition (rdClear r) = Some cl" "cl \<noteq> JNull" "unmarshalCondition cl =
      Some ((rdClear r)\<lparr>cdPredicate := canonicalExpression (cdPredicate (rdClear r))\<rparr>)"
    using condition_unmarshal [OF wf(2)] assms(2) by (auto simp: int64Definition_def)
  let ?ms = "[(''schema_version'', JNum (formatInt (rdSchemaVersion r))), (''name'', JStr (rdName r))] @
     (if rdDescription r = [] then [] else [(''description'', JStr (rdDescription r))]) @
     [(''targets'', marshalTargets (rdTargets r)), (''trigger'', tr), (''clear'', cl),
      (''notifications'', marshalNotifications (rdNotifications r))]"
  have m: "marshalDefinition r = Some (JObj ?ms)" by (simp add: marshalDefinition_def tr cl)
  have s: "strictObject [''schema_version'', ''name'', ''description'', ''targets'', ''trigger'', ''clear'',
      ''notifications''] (JObj ?ms) = Some ?ms" by (simp add: members_self)
  have v: "asInteger (JNum (formatInt (rdSchemaVersion r))) = Some (rdSchemaVersion r)"
    using parseInt64_formatInt [of 1] by (simp add: wf(3))
  have "marshalTargets t \<noteq> JNull" "marshalNotifications n \<noteq> JNull" for t n
    by (simp_all add: marshalTargets_def marshalNotifications_def)
  then have "unmarshalDefinition (JObj ?ms) = Some (canonicalDefinition r)"
    unfolding unmarshalDefinition_def s
    by (simp add: field_defs tr cl v targets_unmarshal notifications_unmarshal canonicalDefinition_def Let_def
        del: asInteger.simps)
  with m show ?thesis by blast
qed

subsection \<open>Canonical definitions are the decoded ones\<close>

lemma canonicalOperand_simps [simp]:
  "opKind (canonicalOperand v) = opKind v" "has_type subject (canonicalOperand v) t = has_type subject v t"
  "canonicalOperand (canonicalOperand v) = canonicalOperand v"
  "marshalOperand (canonicalOperand v) = marshalOperand v"
  "int64Operand v \<Longrightarrow> int64Operand (canonicalOperand v)"
  by (cases "opKind v"; simp add: canonicalOperand_def has_type_iff marshalOperand_def int64Operand_def
      FieldOperand_def IntegerOperand_def DurationOperand_def BooleanOperand_def AgentStateOperand_def
      zeroOperand_def)+

lemma canonicalCompare_simps [simp]:
  "well_typed subject (canonicalCompare e) = well_typed subject e"
  "canonicalCompare (canonicalCompare e) = canonicalCompare e"
  "marshalCompare (canonicalCompare e) = marshalCompare e"
  by (simp_all add: canonicalCompare_def well_typed.simps marshalCompare_def cong: option.case_cong)

lemma canonicalExpression_idem [simp]: "canonicalExpression (canonicalExpression x) = canonicalExpression x"
  by (induction x rule: canonicalExpression.induct) auto

lemma marshal_canonicalExpression [simp]: "marshalExpression (canonicalExpression x) = marshalExpression x"
proof (induction x rule: canonicalExpression.induct)
  case (3 cs)
  then show ?case by (simp add: comp_def cong: map_cong)
next
  case (4 cs)
  then show ?case by (simp add: comp_def cong: map_cong)
qed simp_all

lemma wf_canonicalCompare: "wf_compare subject c \<Longrightarrow> wf_compare subject (canonicalExpression c)"
  by (auto elim!: wf_compare.cases)

lemma wf_canonicalExpression: "wf_expression subject x \<Longrightarrow> wf_expression subject (canonicalExpression x)"
proof (induction rule: wf_expression.induct)
  case (compare x)
  then show ?case by (intro wf_expression.compare wf_canonicalCompare)
qed (auto simp: wf_expression_simps intro: wf_canonicalCompare)

lemma wf_canonicalDefinition: "wf_definition r \<Longrightarrow> wf_definition (canonicalDefinition r)"
  by (auto simp: wf_definition_def canonicalDefinition_def Let_def wf_condition_def
      intro: wf_canonicalExpression)

lemma canonicalDefinition_idem [simp]: "canonicalDefinition (canonicalDefinition r) = canonicalDefinition r"
  by (simp add: canonicalDefinition_def)

lemma marshal_canonicalDefinition [simp]: "marshalDefinition (canonicalDefinition r) = marshalDefinition r"
  by (simp add: marshalDefinition_def marshalCondition_def canonicalDefinition_def cong: option.case_cong)

text \<open>Whatever the decoder builds is canonical, with integers in range.\<close>

lemma parseInt64_range: "parseInt64 t = Some i \<Longrightarrow> - (2 ^ 63) \<le> i \<and> i < 2 ^ 63"
  by (auto simp: parseInt64_def Let_def split: if_splits)

lemma asInteger_range: "asInteger j = Some i \<Longrightarrow> - (2 ^ 63) \<le> i \<and> i < 2 ^ 63"
  by (cases j) (auto dest: parseInt64_range)

lemma unmarshalOperand_canonical:
  assumes "unmarshalOperand j = Some v"
  shows "canonicalOperand v = v \<and> int64Operand v"
proof -
  consider s where "v = FieldOperand s" | i where "v = IntegerOperand i" "- (2 ^ 63) \<le> i \<and> i < 2 ^ 63"
    | d where "v = DurationOperand d" | b where "v = BooleanOperand b" | a where "v = AgentStateOperand a"
    using assms
    by (auto simp: unmarshalOperand_def operandOfKind_def dest!: asInteger_range split: option.splits if_splits)
  then show ?thesis
    by cases (simp_all add: canonicalOperand_def int64Operand_def FieldOperand_def IntegerOperand_def
        DurationOperand_def BooleanOperand_def AgentStateOperand_def zeroOperand_def)
qed

lemma unmarshalCompare_canonical:
  "unmarshalCompare j = Some e \<Longrightarrow>
     canonicalCompare e = e \<and> int64Operand (cmLeft e) \<and> int64Operand (cmRight e)"
  by (auto simp: unmarshalCompare_def canonicalCompare_def dest: unmarshalOperand_canonical
      split: option.splits if_splits)

lemma decodeExpression_canonical:
  "decodeExpression j = Some x \<Longrightarrow> canonicalExpression x = x \<and>
     list_all (\<lambda>e. int64Operand (cmLeft e) \<and> int64Operand (cmRight e)) (flatten x)"
proof (induction j arbitrary: x rule: decodeExpression.induct)
  case (1 j)
  obtain ms k where ms: "strictObject expressionEnvelope j = Some ms" "ptrField asString ''kind'' ms = Some (Some k)"
    using "1.prems" by (subst (asm) decodeExpression.simps) (auto split: option.splits)
  show ?case
  proof (cases "k = ''compare''")
    case True
    then obtain e where "unmarshalCompare j = Some e" "x = CompareRef (Some e)"
      using "1.prems" ms by (subst (asm) decodeExpression.simps) auto
    then show ?thesis using unmarshalCompare_canonical by simp
  next
    case False
    then obtain raws cs where raws: "k = ''all''" "allConditions j = Some raws"
      "map decodeExpression raws = map Some cs" "x = AllRef (Some cs)"
      using "1.prems" ms
      by (subst (asm) decodeExpression.simps) (auto simp: sequenceOpt_eq_Some split: option.splits if_splits)
    have "canonicalExpression c = c \<and>
        list_all (\<lambda>e. int64Operand (cmLeft e) \<and> int64Operand (cmRight e)) (flatten c)" if c: "c \<in> set cs" for c
    proof -
      obtain i where i: "i < length cs" "cs ! i = c" using c by (auto simp: in_set_conv_nth)
      have len: "length raws = length cs" using raws(3) by (metis length_map)
      have "decodeExpression (raws ! i) = Some c"
        using raws(3) i len by (metis nth_map)
      then show ?thesis
        using "1.IH" [OF ms(1,2) refl] i(1) len False raws(1,2) by (metis nth_mem)
    qed
    then show ?thesis by (auto simp: raws(4) map_idI list_all_iff)
  qed
qed

lemma unmarshalDefinition_canonical:
  assumes "unmarshalDefinition j = Some r"
  shows "canonicalDefinition r = r \<and> int64Definition r"
proof -
  have c: "canonicalExpression (cdPredicate c) = cdPredicate c \<and>
      list_all (\<lambda>e. int64Operand (cmLeft e) \<and> int64Operand (cmRight e)) (flatten (cdPredicate c))"
    if "unmarshalCondition j' = Some c" for j' c
    using that decodeExpression_canonical
    by (auto simp: unmarshalCondition_def split: option.splits)
  obtain tr cl where "unmarshalCondition tr = Some (rdTrigger r)" "unmarshalCondition cl = Some (rdClear r)"
    using assms by (auto simp: unmarshalDefinition_def Let_def split: option.splits if_splits)
  from c [OF this(1)] c [OF this(2)] show ?thesis
    by (simp add: canonicalDefinition_def int64Definition_def)
qed

subsection \<open>The properties\<close>

text \<open>A valid definition survives the wire: it can be marshalled, the result decodes and
  validates, and it decodes to the same definition in the decoder's form (expressions as
  pointers, operands with the value of their kind only).\<close>

theorem rule_json_roundtrip:
  assumes "wf_definition r" and "int64Definition r"
  shows "case marshalDefinition r of None \<Rightarrow> False
    | Some j \<Rightarrow> DecodeRuleDefinition j = Inr (canonicalDefinition r)"
  using definition_unmarshal [OF assms] wf_canonicalDefinition [OF assms(1)]
  by (auto simp: DecodeRuleDefinition_def Validate_ok)

theorem rule_json_roundtrip_witness:
  "\<exists>j. marshalDefinition demoRule = Some j \<and> DecodeRuleDefinition j = Inr (canonicalDefinition demoRule) \<and>
     canonicalDefinition demoRule \<noteq> demoRule"
proof -
  have "int64Definition demoRule" by code_simp
  then show ?thesis
    using rule_json_roundtrip [OF demoRule_wf]
    by (auto simp: demoRule_def NewRuleDefinition_def canonicalDefinition_def split: option.splits)
qed

text \<open>The strict decoder only lets valid definitions in, in one form: what
  \<^verbatim>\<open>DecodeRuleDefinition\<close> accepts is well-formed and canonical, and marshalling it and
  decoding it again gives the very same definition.\<close>

theorem decoded_definition_stable:
  "case DecodeRuleDefinition j of Inl _ \<Rightarrow> True
   | Inr r \<Rightarrow> wf_definition r \<and> canonicalDefinition r = r \<and>
       Option.bind (marshalDefinition r) (\<lambda>j'. Some (DecodeRuleDefinition j')) = Some (Inr r)"
proof (cases "DecodeRuleDefinition j")
  case (Inr r)
  then have r: "unmarshalDefinition j = Some r" "wf_definition r"
    by (auto simp: DecodeRuleDefinition_def Validate_ok split: option.splits if_splits)
  note c = unmarshalDefinition_canonical [OF r(1)]
  obtain j' where "marshalDefinition r = Some j'" "unmarshalDefinition j' = Some r"
    using definition_unmarshal [OF r(2)] c by auto
  moreover from this have "DecodeRuleDefinition j' = Inr r"
    using r(2) by (simp add: DecodeRuleDefinition_def Validate_ok)
  ultimately show ?thesis using r(2) c by (simp add: Inr)
qed simp

end
