(* ===== verification/App.thy ===== *)
theory App
  imports Rules Notifications
begin

text \<open>
  The decoded events of \<^verbatim>\<open>internal/events/events.go\<close> and the application contracts of
  \<^verbatim>\<open>internal/app/contracts.go\<close>: accepted occurrences, evaluation requests and
  results, semantic commits, with their validation. Every \<^verbatim>\<open>fmt.Errorf\<close> of the
  contracts is a constructor of \<open>contract_error\<close>.
\<close>

subsection \<open>Events\<close>

text \<open>\<^verbatim>\<open>State\<close> is a string type.\<close>

definition validState :: "string \<Rightarrow> bool" where
  "validState s \<longleftrightarrow> s = ''available'' \<or> s = ''on_call'' \<or> s = ''on_break'' \<or> s = ''in_meeting''"

record common =
  evEventID :: string
  evTimestamp :: gotime
  evType :: string

record queue_snapshot =
  qsCommon :: common
  qsQueueID :: string
  qsTicketsWaiting :: u64
  qsLongestWaitSec :: u64
  qsSLATargetSec :: u64
  qsAgentsAvailable :: u64
  qsAgentsOnCall :: u64
  qsVolumeLast15m :: u64
  qsVolumeForecastNext15m :: "u64 option"

record agent_state_change =
  asCommon :: common
  asAgentID :: string
  asPreviousState :: "string option"
  asNewState :: string
  asPreviousStateDurationSec :: "u64 option"
  asQueueIDs :: "string list"

record adherence_check =
  acCommon :: common
  acAgentID :: string
  acScheduledState :: string
  acActualState :: string
  acInViolation :: bool
  acViolationStartedAt :: "gotime option"
  acQueueIDs :: "string list"

text \<open>
  The interface \<^verbatim>\<open>Event\<close>. Its unexported method restricts it to the three struct
  types of the package, as values or as pointers; the type switches of the program only know
  the values, so a pointer is \<open>OtherEvent\<close> with the identifier its method returns.
\<close>

datatype event = QueueSnapshot queue_snapshot | AgentStateChange agent_state_change
  | AdherenceCheck adherence_check | OtherEvent string

fun GetEventID :: "event \<Rightarrow> string" where
  "GetEventID (QueueSnapshot q) = evEventID (qsCommon q)"
| "GetEventID (AgentStateChange a) = evEventID (asCommon a)"
| "GetEventID (AdherenceCheck a) = evEventID (acCommon a)"
| "GetEventID (OtherEvent i) = i"

text \<open>\<^verbatim>\<open>OccurrenceID.String\<close>: \<^verbatim>\<open>fmt.Sprintf("%s:%d", id.StreamID, id.Line)\<close>.\<close>

record occurrence_id =
  oidStreamID :: string
  oidLine :: u64

definition occurrenceIDString :: "occurrence_id \<Rightarrow> string" where
  "occurrenceIDString i = oidStreamID i @ '':'' @ formatUint (oidLine i)"

record envelope =
  envID :: occurrence_id
  envLine :: u64
  envEvent :: event
  envRaw :: string

subsection \<open>Accepted occurrences\<close>

record accepted_occurrence =
  aoID :: string
  aoSource :: string
  aoIdempotencyKey :: string
  aoIngestPosition :: u64
  aoSourceEventID :: string
  aoEffectiveAt :: gotime
  aoEvent :: "event option"
  aoRaw :: string

datatype occurrence_error = OccurrenceIDRequired | SourceRequired | IdempotencyKeyRequired
  | IngestPositionRequired | SourceEventIDRequired | IDIsSourceEventID | KeyIsSourceEventID
  | EffectiveTimeRequired | EventRequired | EventIDMismatch | EffectiveTimeMismatch | RawRequired

fun eventEffectiveAt :: "event \<Rightarrow> gotime" where
  "eventEffectiveAt (QueueSnapshot q) = evTimestamp (qsCommon q)"
| "eventEffectiveAt (AgentStateChange a) = evTimestamp (asCommon a)"
| "eventEffectiveAt (AdherenceCheck a) = evTimestamp (acCommon a)"
| "eventEffectiveAt (OtherEvent _) = 0"

definition validateOccurrence :: "accepted_occurrence \<Rightarrow> occurrence_error option" where
  "validateOccurrence ao =
     (if aoID ao = [] then Some OccurrenceIDRequired
      else if aoSource ao = [] then Some SourceRequired
      else if aoIdempotencyKey ao = [] then Some IdempotencyKeyRequired
      else if aoIngestPosition ao = 0 then Some IngestPositionRequired
      else if aoSourceEventID ao = [] then Some SourceEventIDRequired
      else if aoID ao = aoSourceEventID ao then Some IDIsSourceEventID
      else if aoIdempotencyKey ao = aoSourceEventID ao then Some KeyIsSourceEventID
      else if isZero (aoEffectiveAt ao) then Some EffectiveTimeRequired
      else case aoEvent ao of
        None \<Rightarrow> Some EventRequired
      | Some ev \<Rightarrow>
          if GetEventID ev \<noteq> aoSourceEventID ao then Some EventIDMismatch
          else if eventEffectiveAt ev \<noteq> aoEffectiveAt ao then Some EffectiveTimeMismatch
          else if length (aoRaw ao) = 0 then Some RawRequired
          else None)"

subsection \<open>Evaluation requests\<close>

record active_rule =
  arID :: string
  arRevision :: int
  arDefinition :: rule_definition

datatype contract_error =
    OccurrenceInvalid occurrence_error
  | RuleIDRequired | RuleRevisionNotPositive string | RuleDefinitionInvalid string "validation_error list"
  | LogicalTimeRequired | LogicalTimePrecedesOccurrence | DuplicateRuleRevision string int
  | RequestInvalid contract_error
  | ObservationIDRequired | ObservationIDIsSourceEventID | InactiveRuleRevision string int
  | ObservationSubjectInvalid | ObservationDirectionInvalid | ObservationResultInvalid
  | ObservationTimesRequired | ObservationProcessingTime | ObservationEffectiveTime
  | DuplicateObservationID string
  | TransitionIDRequired string | DuplicateTransitionID string string

definition validateActiveRule :: "active_rule \<Rightarrow> contract_error option" where
  "validateActiveRule r =
     (if arID r = [] then Some RuleIDRequired
      else if arRevision r \<le> 0 then Some (RuleRevisionNotPositive (arID r))
      else if Validate (arDefinition r) \<noteq> []
        then Some (RuleDefinitionInvalid (arID r) (Validate (arDefinition r)))
      else None)"

definition activeRuleLess :: "active_rule \<Rightarrow> active_rule \<Rightarrow> bool" where
  "activeRuleLess a b = (if arID a \<noteq> arID b then arID a < arID b else arRevision a < arRevision b)"

record evaluation_request =
  erOccurrence :: accepted_occurrence
  erLogicalTime :: gotime
  erActiveRules :: "active_rule list"

text \<open>The loop over the sorted rules; \<open>prev\<close> is the rule before.\<close>

fun checkActiveRules :: "active_rule option \<Rightarrow> active_rule list \<Rightarrow> contract_error option" where
  "checkActiveRules prev [] = None"
| "checkActiveRules prev (r # rs) = (case validateActiveRule r of
       Some err \<Rightarrow> Some err
     | None \<Rightarrow> (case prev of
           Some q \<Rightarrow> if arID q = arID r \<and> arRevision q = arRevision r
             then Some (DuplicateRuleRevision (arID r) (arRevision r)) else checkActiveRules (Some r) rs
         | None \<Rightarrow> checkActiveRules (Some r) rs))"

definition NewEvaluationRequest ::
  "accepted_occurrence \<Rightarrow> gotime \<Rightarrow> active_rule list \<Rightarrow> contract_error + evaluation_request"
where
  "NewEvaluationRequest occ logicalTime activeRules =
     (case validateOccurrence occ of
        Some err \<Rightarrow> Inl (OccurrenceInvalid err)
      | None \<Rightarrow>
          if isZero logicalTime then Inl LogicalTimeRequired
          else if logicalTime < aoEffectiveAt occ then Inl LogicalTimePrecedesOccurrence
          else let rules = sort_by activeRuleLess activeRules in
            case checkActiveRules None rules of
              Some err \<Rightarrow> Inl err
            | None \<Rightarrow> Inr \<lparr>erOccurrence = occ, erLogicalTime = logicalTime, erActiveRules = rules\<rparr>)"

subsection \<open>Evaluation results\<close>

definition lessObservation :: "observation \<Rightarrow> observation \<Rightarrow> bool" where
  "lessObservation a b =
     (let ka = obsKey a; kb = obsKey b in
      if RuleID ka \<noteq> RuleID kb then RuleID ka < RuleID kb
      else if Revision ka \<noteq> Revision kb then Revision ka < Revision kb
      else if Kind (Subject ka) \<noteq> Kind (Subject kb) then Kind (Subject ka) < Kind (Subject kb)
      else if SubjID (Subject ka) \<noteq> SubjID (Subject kb) then SubjID (Subject ka) < SubjID (Subject kb)
      else if obsDirection a \<noteq> obsDirection b
        then directionCode (obsDirection a) < directionCode (obsDirection b)
      else obsID a < obsID b)"

definition validateObservation ::
  "evaluation_request \<Rightarrow> (string \<times> int) set \<Rightarrow> observation \<Rightarrow> contract_error option"
where
  "validateObservation req active ob =
     (if obsID ob = [] then Some ObservationIDRequired
      else if obsID ob = aoSourceEventID (erOccurrence req) then Some ObservationIDIsSourceEventID
      else if (RuleID (obsKey ob), Revision (obsKey ob)) \<notin> active
        then Some (InactiveRuleRevision (RuleID (obsKey ob)) (Revision (obsKey ob)))
      else if Kind (Subject (obsKey ob)) \<noteq> SubjectQueue \<and> Kind (Subject (obsKey ob)) \<noteq> SubjectAgent \<or>
              SubjID (Subject (obsKey ob)) = []
        then Some ObservationSubjectInvalid
      else if obsDirection ob \<noteq> Trigger \<and> obsDirection ob \<noteq> Clear then Some ObservationDirectionInvalid
      else if obsResult ob \<noteq> Unknown \<and> obsResult ob \<noteq> RFalse \<and> obsResult ob \<noteq> RTrue
        then Some ObservationResultInvalid
      else if isZero (obsEffectiveAt ob) \<or> isZero (obsProcessingAt ob) then Some ObservationTimesRequired
      else if obsProcessingAt ob \<noteq> erLogicalTime req then Some ObservationProcessingTime
      else if obsEffectiveAt ob > obsProcessingAt ob then Some ObservationEffectiveTime
      else None)"

fun checkObservations ::
  "evaluation_request \<Rightarrow> (string \<times> int) set \<Rightarrow> string set \<Rightarrow> observation list \<Rightarrow> contract_error option"
where
  "checkObservations req active seen [] = None"
| "checkObservations req active seen (ob # obs) = (case validateObservation req active ob of
       Some err \<Rightarrow> Some err
     | None \<Rightarrow> if obsID ob \<in> seen then Some (DuplicateObservationID (obsID ob))
         else checkObservations req active (insert (obsID ob) seen) obs)"

text \<open>An \<^verbatim>\<open>EvaluationResult\<close> is its list of observations.\<close>

definition NewEvaluationResult ::
  "evaluation_request \<Rightarrow> observation list \<Rightarrow> contract_error + observation list"
where
  "NewEvaluationResult req observations =
     (case NewEvaluationRequest (erOccurrence req) (erLogicalTime req) (erActiveRules req) of
        Inl err \<Rightarrow> Inl (RequestInvalid err)
      | Inr _ \<Rightarrow>
          let active = set (map (\<lambda>r. (arID r, arRevision r)) (erActiveRules req));
              out = sort_by lessObservation observations
          in case checkObservations req active {} out of Some err \<Rightarrow> Inl err | None \<Rightarrow> Inr out)"

subsection \<open>Semantic commits\<close>

record semantic_commit =
  scOccurrence :: accepted_occurrence
  scLogicalTime :: gotime
  scConditionTransitions :: "transition list"
  scAlertTransitions :: "alert_transition list"
  scNotificationIntents :: "intent list"

fun uniqueIDsFrom :: "string \<Rightarrow> string set \<Rightarrow> string list \<Rightarrow> contract_error option" where
  "uniqueIDsFrom what seen [] = None"
| "uniqueIDsFrom what seen (i # is) =
     (if i = [] then Some (TransitionIDRequired what)
      else if i \<in> seen then Some (DuplicateTransitionID what i)
      else uniqueIDsFrom what (insert i seen) is)"

definition uniqueIDs :: "string \<Rightarrow> string list \<Rightarrow> contract_error option" where
  "uniqueIDs what ids = uniqueIDsFrom what {} ids"

definition NewSemanticCommit ::
  "accepted_occurrence \<Rightarrow> gotime \<Rightarrow> transition list \<Rightarrow> alert_transition list \<Rightarrow> intent list
     \<Rightarrow> contract_error + semantic_commit"
where
  "NewSemanticCommit occ logicalTime cts ats nis =
     (case validateOccurrence occ of
        Some err \<Rightarrow> Inl (OccurrenceInvalid err)
      | None \<Rightarrow>
          if isZero logicalTime then Inl LogicalTimeRequired
          else if logicalTime < aoEffectiveAt occ then Inl LogicalTimePrecedesOccurrence
          else case uniqueIDs ''condition transition'' (map trID cts) of
            Some err \<Rightarrow> Inl err
          | None \<Rightarrow> (case uniqueIDs ''alert transition'' (map atID ats) of
              Some err \<Rightarrow> Inl err
            | None \<Rightarrow> (case uniqueIDs ''notification intent'' (map inID nis) of
                Some err \<Rightarrow> Inl err
              | None \<Rightarrow> Inr \<lparr>scOccurrence = occ, scLogicalTime = logicalTime,
                  scConditionTransitions = cts, scAlertTransitions = ats, scNotificationIntents = nis\<rparr>)))"

end
