(* ===== verification/Projections.thy ===== *)
theory Projections
  imports App
begin

text \<open>
  The source projections, \<^verbatim>\<open>internal/projections/projections.go\<close>: the observations,
  the live states, the builder and every operation, in the order of the source. The clone
  functions copy pointers and slices and are the identity on values. The builder's maps are
  only read and stored by key. \<^verbatim>\<open>reflect.DeepEqual\<close> on two events also compares the
  time zones and the nil-ness of slices, which a value here does not have: two events that
  differ only there are equal in the model.
\<close>

subsection \<open>Observations and live states\<close>

record provenance =
  pvOccurrenceID :: string
  pvSource :: string
  pvIdempotencyKey :: string
  pvIngestPosition :: u64
  pvSourceEventID :: string
  pvEffectiveAt :: gotime

record queue_observation =
  qoProvenance :: provenance
  qoSnapshot :: queue_snapshot

record agent_state_observation =
  aoProvenance :: provenance
  aoChange :: agent_state_change

record adherence_observation =
  adProvenance :: provenance
  adCheck :: adherence_check

record queue_state =
  quQueueID :: string
  quTicketsWaiting :: u64
  quLongestWaitSec :: u64
  quSLATargetSec :: u64
  quAgentsAvailable :: u64
  quAgentsOnCall :: u64
  quVolumeLast15m :: u64
  quVolumeForecastNext15m :: "u64 option"
  quProvenance :: provenance

record agent_source_state =
  agAgentID :: string
  agCurrent :: string
  agProvenance :: provenance

record adherence_state =
  ahAgentID :: string
  ahScheduledState :: string
  ahActualState :: string
  ahInViolation :: bool
  ahViolationStartedAt :: "gotime option"
  ahKnownViolationSince :: gotime
  ahProvenance :: provenance

text \<open>An update holds exactly one of the three source updates: observation, live state after
  it, and whether the live state changed.\<close>

datatype source_update =
    QueueUpdate queue_observation queue_state bool
  | AgentStateUpdate agent_state_observation agent_source_state bool
  | AdherenceUpdate adherence_observation adherence_state bool

record update =
  upDuplicate :: bool
  upSource :: source_update

record accepted_identity =
  idSource :: string
  idIdempotencyKey :: string
  idSourceEventID :: string
  idIngestPosition :: u64
  idEffectiveAt :: gotime
  idEvent :: "event option"
  idRaw :: string

record builder =
  queues :: "string \<rightharpoonup> queue_state"
  agents :: "string \<rightharpoonup> agent_source_state"
  adherence :: "string \<rightharpoonup> adherence_state"
  queueHistory :: "string \<Rightarrow> queue_observation list"
  agentHistory :: "string \<Rightarrow> agent_state_observation list"
  adherenceHistory :: "string \<Rightarrow> adherence_observation list"
  occurrences :: "string \<rightharpoonup> accepted_identity"
  admissions :: "string \<times> string \<rightharpoonup> string"
  lastPosition :: u64

definition NewBuilder :: builder where
  "NewBuilder = \<lparr>queues = Map.empty, agents = Map.empty, adherence = Map.empty,
     queueHistory = (\<lambda>_. []), agentHistory = (\<lambda>_. []), adherenceHistory = (\<lambda>_. []),
     occurrences = Map.empty, admissions = Map.empty, lastPosition = 0\<rparr>"

datatype build_error = InvalidOccurrence occurrence_error | ConflictingIdentity string
  | ReusedAdmission string string | PositionNotIncreasing string u64 u64 | UnsupportedEvent
  | DuplicateWithoutState string

subsection \<open>Building blocks\<close>

definition provenanceOf :: "accepted_occurrence \<Rightarrow> provenance" where
  "provenanceOf ao = \<lparr>pvOccurrenceID = aoID ao, pvSource = aoSource ao,
     pvIdempotencyKey = aoIdempotencyKey ao, pvIngestPosition = aoIngestPosition ao,
     pvSourceEventID = aoSourceEventID ao, pvEffectiveAt = aoEffectiveAt ao\<rparr>"

definition queueObservation :: "accepted_occurrence \<Rightarrow> queue_snapshot \<Rightarrow> queue_observation" where
  "queueObservation ao ev = \<lparr>qoProvenance = provenanceOf ao, qoSnapshot = ev\<rparr>"

definition agentObservation :: "accepted_occurrence \<Rightarrow> agent_state_change \<Rightarrow> agent_state_observation" where
  "agentObservation ao ev = \<lparr>aoProvenance = provenanceOf ao, aoChange = ev\<rparr>"

definition adherenceObservation :: "accepted_occurrence \<Rightarrow> adherence_check \<Rightarrow> adherence_observation" where
  "adherenceObservation ao ev = \<lparr>adProvenance = provenanceOf ao, adCheck = ev\<rparr>"

definition newer :: "provenance \<Rightarrow> provenance \<Rightarrow> bool" where
  "newer candidate current \<longleftrightarrow> pvEffectiveAt candidate > pvEffectiveAt current \<or>
     pvEffectiveAt candidate = pvEffectiveAt current \<and>
     pvIngestPosition candidate > pvIngestPosition current"

definition identityOf :: "accepted_occurrence \<Rightarrow> accepted_identity" where
  "identityOf ao = \<lparr>idSource = aoSource ao, idIdempotencyKey = aoIdempotencyKey ao,
     idSourceEventID = aoSourceEventID ao, idIngestPosition = aoIngestPosition ao,
     idEffectiveAt = aoEffectiveAt ao,
     idEvent = (case aoEvent ao of Some (OtherEvent _) \<Rightarrow> None | ev \<Rightarrow> ev), idRaw = aoRaw ao\<rparr>"

definition sameIdentity :: "accepted_identity \<Rightarrow> accepted_identity \<Rightarrow> bool" where
  "sameIdentity a b \<longleftrightarrow> idSource a = idSource b \<and> idIdempotencyKey a = idIdempotencyKey b \<and>
     idSourceEventID a = idSourceEventID b \<and> idIngestPosition a = idIngestPosition b \<and>
     idEffectiveAt a = idEffectiveAt b \<and> idEvent a = idEvent b \<and> idRaw a = idRaw b"

subsection \<open>Building\<close>

definition queueCandidate :: "accepted_occurrence \<Rightarrow> queue_snapshot \<Rightarrow> queue_state" where
  "queueCandidate ao s = \<lparr>quQueueID = qsQueueID s, quTicketsWaiting = qsTicketsWaiting s,
     quLongestWaitSec = qsLongestWaitSec s, quSLATargetSec = qsSLATargetSec s,
     quAgentsAvailable = qsAgentsAvailable s, quAgentsOnCall = qsAgentsOnCall s,
     quVolumeLast15m = qsVolumeLast15m s, quVolumeForecastNext15m = qsVolumeForecastNext15m s,
     quProvenance = provenanceOf ao\<rparr>"

definition buildQueue :: "builder \<Rightarrow> accepted_occurrence \<Rightarrow> queue_snapshot \<Rightarrow> builder \<times> source_update" where
  "buildQueue b ao s =
     (let obs = queueObservation ao s;
          b1 = b\<lparr>queueHistory := (queueHistory b)(qsQueueID s := queueHistory b (qsQueueID s) @ [obs])\<rparr>;
          cand = queueCandidate ao s
      in case queues b1 (qsQueueID s) of
           None \<Rightarrow> (b1\<lparr>queues := (queues b1)(qsQueueID s \<mapsto> cand)\<rparr>, QueueUpdate obs cand True)
         | Some cur \<Rightarrow>
             if newer (quProvenance cand) (quProvenance cur)
             then (b1\<lparr>queues := (queues b1)(qsQueueID s \<mapsto> cand)\<rparr>, QueueUpdate obs cand True)
             else (b1, QueueUpdate obs cur False))"

definition agentCandidate :: "accepted_occurrence \<Rightarrow> agent_state_change \<Rightarrow> agent_source_state" where
  "agentCandidate ao c = \<lparr>agAgentID = asAgentID c, agCurrent = asNewState c, agProvenance = provenanceOf ao\<rparr>"

definition buildAgentState ::
  "builder \<Rightarrow> accepted_occurrence \<Rightarrow> agent_state_change \<Rightarrow> builder \<times> source_update"
where
  "buildAgentState b ao c =
     (let obs = agentObservation ao c;
          b1 = b\<lparr>agentHistory := (agentHistory b)(asAgentID c := agentHistory b (asAgentID c) @ [obs])\<rparr>;
          cand = agentCandidate ao c
      in case agents b1 (asAgentID c) of
           None \<Rightarrow> (b1\<lparr>agents := (agents b1)(asAgentID c \<mapsto> cand)\<rparr>, AgentStateUpdate obs cand True)
         | Some cur \<Rightarrow>
             if newer (agProvenance cand) (agProvenance cur)
             then (b1\<lparr>agents := (agents b1)(asAgentID c \<mapsto> cand)\<rparr>, AgentStateUpdate obs cand True)
             else (b1, AgentStateUpdate obs cur False))"

text \<open>The onset of a violation that \<^verbatim>\<open>buildAdherence\<close> derives.\<close>

definition violationSince :: "accepted_occurrence \<Rightarrow> adherence_check \<Rightarrow> adherence_state option \<Rightarrow> gotime" where
  "violationSince ao c prior =
     (if \<not> acInViolation c then 0
      else case acViolationStartedAt c of
        Some t \<Rightarrow> t
      | None \<Rightarrow> (case prior of
          Some p \<Rightarrow> if ahInViolation p \<and> \<not> isZero (ahKnownViolationSince p)
            then ahKnownViolationSince p else aoEffectiveAt ao
        | None \<Rightarrow> aoEffectiveAt ao))"

definition adherenceCandidate ::
  "accepted_occurrence \<Rightarrow> adherence_check \<Rightarrow> adherence_state option \<Rightarrow> adherence_state"
where
  "adherenceCandidate ao c prior = \<lparr>ahAgentID = acAgentID c, ahScheduledState = acScheduledState c,
     ahActualState = acActualState c, ahInViolation = acInViolation c,
     ahViolationStartedAt = acViolationStartedAt c,
     ahKnownViolationSince = violationSince ao c prior, ahProvenance = provenanceOf ao\<rparr>"

definition buildAdherence ::
  "builder \<Rightarrow> accepted_occurrence \<Rightarrow> adherence_check \<Rightarrow> builder \<times> source_update"
where
  "buildAdherence b ao c =
     (let obs = adherenceObservation ao c;
          b1 = b\<lparr>adherenceHistory := (adherenceHistory b)(acAgentID c := adherenceHistory b (acAgentID c) @ [obs])\<rparr>;
          prior = adherence b1 (acAgentID c);
          cand = adherenceCandidate ao c prior
      in case prior of
           None \<Rightarrow> (b1\<lparr>adherence := (adherence b1)(acAgentID c \<mapsto> cand)\<rparr>, AdherenceUpdate obs cand True)
         | Some cur \<Rightarrow>
             if newer (ahProvenance cand) (ahProvenance cur)
             then (b1\<lparr>adherence := (adherence b1)(acAgentID c \<mapsto> cand)\<rparr>, AdherenceUpdate obs cand True)
             else (b1, AdherenceUpdate obs cur False))"

definition duplicateOf :: "builder \<Rightarrow> accepted_occurrence \<Rightarrow> build_error + update" where
  "duplicateOf b ao = (case aoEvent ao of
       Some (QueueSnapshot s) \<Rightarrow> (case queues b (qsQueueID s) of
           None \<Rightarrow> Inl (DuplicateWithoutState (aoID ao))
         | Some cur \<Rightarrow> Inr \<lparr>upDuplicate = True, upSource = QueueUpdate (queueObservation ao s) cur False\<rparr>)
     | Some (AgentStateChange c) \<Rightarrow> (case agents b (asAgentID c) of
           None \<Rightarrow> Inl (DuplicateWithoutState (aoID ao))
         | Some cur \<Rightarrow> Inr \<lparr>upDuplicate = True, upSource = AgentStateUpdate (agentObservation ao c) cur False\<rparr>)
     | Some (AdherenceCheck c) \<Rightarrow> (case adherence b (acAgentID c) of
           None \<Rightarrow> Inl (DuplicateWithoutState (aoID ao))
         | Some cur \<Rightarrow> Inr \<lparr>upDuplicate = True, upSource = AdherenceUpdate (adherenceObservation ao c) cur False\<rparr>)
     | _ \<Rightarrow> Inl UnsupportedEvent)"

definition Build :: "builder \<Rightarrow> accepted_occurrence \<Rightarrow> builder \<times> (build_error + update)" where
  "Build b ao = (case validateOccurrence ao of
       Some err \<Rightarrow> (b, Inl (InvalidOccurrence err))
     | None \<Rightarrow> (case occurrences b (aoID ao) of
         Some prior \<Rightarrow>
           if \<not> sameIdentity prior (identityOf ao) then (b, Inl (ConflictingIdentity (aoID ao)))
           else (b, duplicateOf b ao)
       | None \<Rightarrow> (case admissions b (aoSource ao, aoIdempotencyKey ao) of
           Some priorID \<Rightarrow> (b, Inl (ReusedAdmission (aoID ao) priorID))
         | None \<Rightarrow>
             if aoIngestPosition ao \<le> lastPosition b
             then (b, Inl (PositionNotIncreasing (aoID ao) (aoIngestPosition ao) (lastPosition b)))
             else (let built = (case aoEvent ao of
                       Some (QueueSnapshot s) \<Rightarrow> Some (buildQueue b ao s)
                     | Some (AgentStateChange c) \<Rightarrow> Some (buildAgentState b ao c)
                     | Some (AdherenceCheck c) \<Rightarrow> Some (buildAdherence b ao c)
                     | _ \<Rightarrow> None)
                   in case built of
                        None \<Rightarrow> (b, Inl UnsupportedEvent)
                      | Some (b1, u) \<Rightarrow>
                          (b1\<lparr>occurrences := (occurrences b1)(aoID ao \<mapsto> identityOf ao),
                              admissions := (admissions b1)((aoSource ao, aoIdempotencyKey ao) \<mapsto> aoID ao),
                              lastPosition := aoIngestPosition ao\<rparr>,
                           Inr \<lparr>upDuplicate = False, upSource = u\<rparr>)))))"

subsection \<open>Reading\<close>

definition Queue :: "builder \<Rightarrow> string \<Rightarrow> queue_state option" where
  "Queue b i = queues b i"

definition Agent :: "builder \<Rightarrow> string \<Rightarrow> agent_source_state option" where
  "Agent b i = agents b i"

definition Adherence :: "builder \<Rightarrow> string \<Rightarrow> adherence_state option" where
  "Adherence b i = adherence b i"

definition QueueHistory :: "builder \<Rightarrow> string \<Rightarrow> queue_observation list" where
  "QueueHistory b i = queueHistory b i"

definition AgentStateHistory :: "builder \<Rightarrow> string \<Rightarrow> agent_state_observation list" where
  "AgentStateHistory b i = agentHistory b i"

definition AdherenceHistory :: "builder \<Rightarrow> string \<Rightarrow> adherence_observation list" where
  "AdherenceHistory b i = adherenceHistory b i"

end
