(* ===== verification/ProjectionsProps.thy ===== *)
theory ProjectionsProps
  imports Projections
begin

text \<open>
  Correctness of the projection builder: the live state of every source is the latest
  observation of its history, histories only grow, building is idempotent and all or
  nothing, and the derived onset of a violation.
\<close>

subsection \<open>Runs of the builder\<close>

definition buildStep :: "builder \<Rightarrow> accepted_occurrence \<Rightarrow> builder \<times> (build_error + update) list" where
  "buildStep b ao = (let (b', r) = Build b ao in (b', [r]))"

abbreviation builtFrom :: "accepted_occurrence list \<Rightarrow> builder" where
  "builtFrom aos \<equiv> fst (run buildStep NewBuilder aos)"

lemma fst_buildStep [simp]: "fst (buildStep b ao) = fst (Build b ao)"
  by (simp add: buildStep_def case_prod_beta Let_def)

lemma builtFrom_snoc: "builtFrom (aos @ [ao]) = fst (Build (builtFrom aos) ao)"
  by (simp add: run_append Let_def case_prod_beta)

lemma Build_reject: "\<exists>err. snd (Build b ao) = Inl err \<Longrightarrow> fst (Build b ao) = b"
  by (auto simp: Build_def Let_def split: option.splits if_splits prod.splits)

text \<open>A fresh occurrence: it validates, is neither a repetition nor a reused admission, and its
  position follows.\<close>

definition fresh :: "builder \<Rightarrow> accepted_occurrence \<Rightarrow> bool" where
  "fresh b ao \<longleftrightarrow> validateOccurrence ao = None \<and> occurrences b (aoID ao) = None \<and>
     admissions b (aoSource ao, aoIdempotencyKey ao) = None \<and> lastPosition b < aoIngestPosition ao"

text \<open>What a fresh occurrence does to the builder.\<close>

definition built :: "builder \<Rightarrow> accepted_occurrence \<Rightarrow> builder \<times> source_update" where
  "built b ao = (case aoEvent ao of
       Some (QueueSnapshot s) \<Rightarrow> buildQueue b ao s
     | Some (AgentStateChange c) \<Rightarrow> buildAgentState b ao c
     | Some (AdherenceCheck c) \<Rightarrow> buildAdherence b ao c)"

definition admitted :: "builder \<Rightarrow> accepted_occurrence \<Rightarrow> builder" where
  "admitted b ao = b\<lparr>occurrences := (occurrences b)(aoID ao \<mapsto> identityOf ao),
     admissions := (admissions b)((aoSource ao, aoIdempotencyKey ao) \<mapsto> aoID ao),
     lastPosition := aoIngestPosition ao\<rparr>"

lemma validated_event:
  assumes "validateOccurrence ao = None"
  obtains s where "aoEvent ao = Some (QueueSnapshot s)"
  | c where "aoEvent ao = Some (AgentStateChange c)"
  | c where "aoEvent ao = Some (AdherenceCheck c)"
proof -
  obtain ev where "aoEvent ao = Some ev" "eventEffectiveAt ev \<noteq> 0"
    using assms by (auto simp: validateOccurrence_def isZero_def split: if_splits option.splits)
  with that show ?thesis by (cases ev) auto
qed

lemma Build_fresh:
  assumes "fresh b ao"
  shows "Build b ao = (admitted (fst (built b ao)) ao, Inr \<lparr>upDuplicate = False, upSource = snd (built b ao)\<rparr>)"
proof -
  have v: "validateOccurrence ao = None" using assms by (simp add: fresh_def)
  show ?thesis
    using assms by (rule_tac validated_event [OF v])
      (simp_all add: fresh_def Build_def built_def admitted_def Let_def case_prod_beta not_le)
qed

lemma Build_not_fresh:
  assumes "\<not> fresh b ao"
  shows "fst (Build b ao) = b"
  using assms by (auto simp: fresh_def Build_def Let_def not_less split: option.splits if_splits)

subsection \<open>The live pointer of a source\<close>

text \<open>
  What the three sources share: a history that a fresh occurrence may extend at one key with
  an observation, and a live state that the same occurrence replaces when it is newer.
\<close>

locale live_pointer =
  fixes hist :: "builder \<Rightarrow> string \<Rightarrow> 'o list" and live :: "builder \<Rightarrow> string \<rightharpoonup> 's"
    and oprov :: "'o \<Rightarrow> provenance" and sprov :: "'s \<Rightarrow> provenance" and made :: "'o \<Rightarrow> 's \<Rightarrow> bool"
  assumes start: "hist NewBuilder q = []" "live NewBuilder q = None"
    and step: "fresh b ao \<Longrightarrow>
      hist (fst (built b ao)) = hist b \<and> live (fst (built b ao)) = live b \<or>
      (\<exists>q ob cand. made ob cand \<and> oprov ob = provenanceOf ao \<and>
         hist (fst (built b ao)) = (hist b)(q := hist b q @ [ob]) \<and>
         live (fst (built b ao)) = (live b)(q := (case live b q of None \<Rightarrow> Some cand
           | Some cur \<Rightarrow> if newer (sprov cand) (sprov cur) then Some cand else Some cur)))"
    and made_prov: "made ob s \<Longrightarrow> sprov s = oprov ob"
    and admitted_hist: "hist (admitted b ao) = hist b" "live (admitted b ao) = live b"
begin

definition pointed :: "builder \<Rightarrow> bool" where
  "pointed b \<longleftrightarrow> (\<forall>q. (live b q = None \<longleftrightarrow> hist b q = []) \<and>
     (\<forall>s. live b q = Some s \<longrightarrow> (\<exists>ob \<in> set (hist b q). made ob s \<and>
        (\<forall>ob' \<in> set (hist b q). \<not> newer (oprov ob') (oprov ob)))) \<and>
     sorted_wrt (<) (map (pvIngestPosition \<circ> oprov) (hist b q)) \<and>
     (\<forall>ob \<in> set (hist b q). pvIngestPosition (oprov ob) \<le> lastPosition b))"

lemma newer_trans: "\<not> newer a b \<Longrightarrow> newer c b \<Longrightarrow> \<not> newer a c"
  by (auto simp: newer_def)

lemma pointed_NewBuilder: "pointed NewBuilder"
  by (simp add: pointed_def start)

lemma pointed_extend:
  assumes inv: "pointed b" and f: "fresh b ao" and m: "made ob cand" "oprov ob = provenanceOf ao"
    and h: "hist b' = (hist b)(q := hist b q @ [ob])"
    and l: "live b' = (live b)(q := (case live b q of None \<Rightarrow> Some cand
           | Some cur \<Rightarrow> if newer (sprov cand) (sprov cur) then Some cand else Some cur))"
    and p: "lastPosition b' = aoIngestPosition ao"
  shows "pointed b'"
proof -
  have pos: "pvIngestPosition (oprov ob) = aoIngestPosition ao" by (simp add: m(2) provenanceOf_def)
  have less: "pvIngestPosition (oprov x) < aoIngestPosition ao" if "x \<in> set (hist b k)" for x k
  proof (rule le_less_trans)
    show "pvIngestPosition (oprov x) \<le> lastPosition b" using inv that by (simp add: pointed_def)
    show "lastPosition b < aoIngestPosition ao" using f by (simp add: fresh_def)
  qed
  have "\<exists>o' \<in> set (hist b q @ [ob]). made o' s \<and>
      (\<forall>x \<in> set (hist b q @ [ob]). \<not> newer (oprov x) (oprov o'))"
    if s: "live b' q = Some s" for s
  proof (cases "live b q")
    case None
    then have "hist b q = []" "s = cand" using inv s by (auto simp: pointed_def l)
    then show ?thesis using m by (simp add: newer_def)
  next
    case (Some cur)
    then obtain oc where oc: "oc \<in> set (hist b q)" "made oc cur"
        "\<forall>x \<in> set (hist b q). \<not> newer (oprov x) (oprov oc)"
      using inv unfolding pointed_def by blast
    have prov: "sprov cur = oprov oc" "sprov cand = oprov ob"
      using made_prov oc(2) m(1) by auto
    show ?thesis
    proof (cases "newer (oprov ob) (oprov oc)")
      case True
      then have "s = cand" using s Some by (simp add: l prov)
      moreover have "\<not> newer (oprov x) (oprov ob)" if "x \<in> set (hist b q @ [ob])" for x
        using that oc(3) newer_trans [OF _ True] by (auto simp: newer_def)
      ultimately show ?thesis using m(1) by auto
    next
      case False
      then have "s = cur" using s Some by (simp add: l prov)
      with oc False show ?thesis by auto
    qed
  qed
  moreover have "sorted_wrt (<) (map (pvIngestPosition \<circ> oprov) (hist b q @ [ob]))"
    using inv less by (auto simp: pointed_def sorted_wrt_append pos)
  ultimately show ?thesis
    using inv less unfolding pointed_def h l p
    by (auto simp: pos less_imp_le split: option.splits)
qed

lemma pointed_same:
  assumes "pointed b" and "hist b' = hist b" and "live b' = live b" and "lastPosition b \<le> lastPosition b'"
  shows "pointed b'"
  using assms(1,4) unfolding pointed_def assms(2,3) by (meson order_trans)

lemma pointed_Build:
  assumes "pointed b"
  shows "pointed (fst (Build b ao))"
proof (cases "fresh b ao")
  case True
  have pos: "lastPosition (admitted c ao) = aoIngestPosition ao" for c by (simp add: admitted_def)
  from step [OF True] show ?thesis
  proof (elim disjE exE conjE)
    fix q ob cand
    assume "made ob cand" "oprov ob = provenanceOf ao"
      "hist (fst (built b ao)) = (hist b)(q := hist b q @ [ob])"
      "live (fst (built b ao)) = (live b)(q := (case live b q of None \<Rightarrow> Some cand
           | Some cur \<Rightarrow> if newer (sprov cand) (sprov cur) then Some cand else Some cur))"
    from pointed_extend [OF assms True this(1,2), of "admitted (fst (built b ao)) ao" q] this(3,4) pos
    show ?thesis by (simp add: Build_fresh [OF True] admitted_hist)
  next
    assume "hist (fst (built b ao)) = hist b" "live (fst (built b ao)) = live b"
    with pointed_same [OF assms, of "admitted (fst (built b ao)) ao"] pos True show ?thesis
      by (simp add: Build_fresh [OF True] admitted_hist fresh_def less_imp_le)
  qed
qed (simp add: Build_not_fresh assms)

lemma pointed_builtFrom: "pointed (builtFrom aos)"
  by (induction aos rule: rev_induct) (simp_all add: pointed_NewBuilder builtFrom_snoc pointed_Build)

lemma live_is_latest:
  "(live (builtFrom aos) q = None \<longleftrightarrow> hist (builtFrom aos) q = []) \<and>
   sorted_wrt (<) (map (pvIngestPosition \<circ> oprov) (hist (builtFrom aos) q)) \<and>
   (\<forall>s. live (builtFrom aos) q = Some s \<longrightarrow> (\<exists>ob \<in> set (hist (builtFrom aos) q). made ob s \<and>
      (\<forall>ob' \<in> set (hist (builtFrom aos) q). \<not> newer (oprov ob') (oprov ob))))"
  using pointed_builtFrom by (simp add: pointed_def)

lemma history_grows: "\<exists>more. hist (fst (Build b ao)) q = hist b q @ more"
proof (cases "fresh b ao")
  case True
  from step [OF True] show ?thesis by (auto simp: Build_fresh [OF True] admitted_hist)
qed (simp add: Build_not_fresh)

lemma history_prefix: "\<exists>more. hist (builtFrom (xs @ ys)) q = hist (builtFrom xs) q @ more"
proof (induction ys rule: rev_induct)
  case (snoc y ys)
  then show ?case
    using history_grows [of "builtFrom (xs @ ys)" y q] unfolding append_assoc [symmetric] builtFrom_snoc
    by (metis append_assoc)
qed simp

end

text \<open>The live state that an observation gives.\<close>

definition queueStateOf :: "queue_observation \<Rightarrow> queue_state" where
  "queueStateOf ob = (let s = qoSnapshot ob in \<lparr>quQueueID = qsQueueID s,
     quTicketsWaiting = qsTicketsWaiting s, quLongestWaitSec = qsLongestWaitSec s,
     quSLATargetSec = qsSLATargetSec s, quAgentsAvailable = qsAgentsAvailable s,
     quAgentsOnCall = qsAgentsOnCall s, quVolumeLast15m = qsVolumeLast15m s,
     quVolumeForecastNext15m = qsVolumeForecastNext15m s, quProvenance = qoProvenance ob\<rparr>)"

definition agentStateOf :: "agent_state_observation \<Rightarrow> agent_source_state" where
  "agentStateOf ob = \<lparr>agAgentID = asAgentID (aoChange ob), agCurrent = asNewState (aoChange ob),
     agProvenance = aoProvenance ob\<rparr>"

definition adherenceStateOf :: "adherence_observation \<Rightarrow> gotime \<Rightarrow> adherence_state" where
  "adherenceStateOf ob since = (let c = adCheck ob in \<lparr>ahAgentID = acAgentID c,
     ahScheduledState = acScheduledState c, ahActualState = acActualState c,
     ahInViolation = acInViolation c, ahViolationStartedAt = acViolationStartedAt c,
     ahKnownViolationSince = since, ahProvenance = adProvenance ob\<rparr>)"

lemma fresh_validated: "fresh b ao \<Longrightarrow> validateOccurrence ao = None"
  by (simp add: fresh_def)

interpretation queue_pointer: live_pointer queueHistory queues qoProvenance quProvenance
  "\<lambda>ob s. s = queueStateOf ob"
proof unfold_locales
  fix b ao assume "fresh b ao"
  then show "queueHistory (fst (built b ao)) = queueHistory b \<and> queues (fst (built b ao)) = queues b \<or>
      (\<exists>q ob cand. cand = queueStateOf ob \<and> qoProvenance ob = provenanceOf ao \<and>
         queueHistory (fst (built b ao)) = (queueHistory b)(q := queueHistory b q @ [ob]) \<and>
         queues (fst (built b ao)) = (queues b)(q := (case queues b q of None \<Rightarrow> Some cand
           | Some cur \<Rightarrow> if newer (quProvenance cand) (quProvenance cur) then Some cand else Some cur)))"
  proof (rule validated_event [OF fresh_validated])
    fix s assume ev: "aoEvent ao = Some (QueueSnapshot s)"
    have "queueCandidate ao s = queueStateOf (queueObservation ao s)"
      by (simp add: queueCandidate_def queueStateOf_def queueObservation_def Let_def)
    then show ?thesis
      by (intro disjI2 exI [of _ "qsQueueID s"] exI [of _ "queueObservation ao s"]
            exI [of _ "queueCandidate ao s"])
        (auto simp: built_def ev buildQueue_def Let_def queueObservation_def fun_eq_iff split: option.splits)
  qed (simp_all add: built_def buildAgentState_def buildAdherence_def Let_def split: option.splits)
qed (simp_all add: NewBuilder_def admitted_def queueStateOf_def Let_def)

interpretation agent_pointer: live_pointer agentHistory agents aoProvenance agProvenance
  "\<lambda>ob s. s = agentStateOf ob"
proof unfold_locales
  fix b ao assume "fresh b ao"
  then show "agentHistory (fst (built b ao)) = agentHistory b \<and> agents (fst (built b ao)) = agents b \<or>
      (\<exists>q ob cand. cand = agentStateOf ob \<and> aoProvenance ob = provenanceOf ao \<and>
         agentHistory (fst (built b ao)) = (agentHistory b)(q := agentHistory b q @ [ob]) \<and>
         agents (fst (built b ao)) = (agents b)(q := (case agents b q of None \<Rightarrow> Some cand
           | Some cur \<Rightarrow> if newer (agProvenance cand) (agProvenance cur) then Some cand else Some cur)))"
  proof (rule validated_event [OF fresh_validated])
    fix c assume ev: "aoEvent ao = Some (AgentStateChange c)"
    have "agentCandidate ao c = agentStateOf (agentObservation ao c)"
      by (simp add: agentCandidate_def agentStateOf_def agentObservation_def)
    then show ?thesis
      by (intro disjI2 exI [of _ "asAgentID c"] exI [of _ "agentObservation ao c"]
            exI [of _ "agentCandidate ao c"])
        (auto simp: built_def ev buildAgentState_def Let_def agentObservation_def fun_eq_iff split: option.splits)
  qed (simp_all add: built_def buildQueue_def buildAdherence_def Let_def split: option.splits)
qed (simp_all add: NewBuilder_def admitted_def agentStateOf_def)

interpretation adherence_pointer: live_pointer adherenceHistory adherence adProvenance ahProvenance
  "\<lambda>ob s. s = adherenceStateOf ob (ahKnownViolationSince s)"
proof unfold_locales
  fix b ao assume "fresh b ao"
  then show "adherenceHistory (fst (built b ao)) = adherenceHistory b \<and>
      adherence (fst (built b ao)) = adherence b \<or>
      (\<exists>q ob cand. cand = adherenceStateOf ob (ahKnownViolationSince cand) \<and> adProvenance ob = provenanceOf ao \<and>
         adherenceHistory (fst (built b ao)) = (adherenceHistory b)(q := adherenceHistory b q @ [ob]) \<and>
         adherence (fst (built b ao)) = (adherence b)(q := (case adherence b q of None \<Rightarrow> Some cand
           | Some cur \<Rightarrow> if newer (ahProvenance cand) (ahProvenance cur) then Some cand else Some cur)))"
  proof (rule validated_event [OF fresh_validated])
    fix c assume ev: "aoEvent ao = Some (AdherenceCheck c)"
    let ?cand = "adherenceCandidate ao c (adherence b (acAgentID c))"
    have "?cand = adherenceStateOf (adherenceObservation ao c) (ahKnownViolationSince ?cand)"
      by (simp add: adherenceCandidate_def adherenceStateOf_def adherenceObservation_def Let_def)
    then show ?thesis
      by (intro disjI2 exI [of _ "acAgentID c"] exI [of _ "adherenceObservation ao c"]
            exI [of _ ?cand])
        (auto simp: built_def ev buildAdherence_def Let_def adherenceObservation_def fun_eq_iff
          split: option.splits)
  qed (simp_all add: built_def buildQueue_def buildAgentState_def Let_def split: option.splits)
next
  show "ahProvenance s = adProvenance ob" if "s = adherenceStateOf ob (ahKnownViolationSince s)" for ob s
    using arg_cong [OF that, of ahProvenance] by (simp add: adherenceStateOf_def Let_def)
qed (simp_all add: NewBuilder_def admitted_def)


subsection \<open>Live states and histories\<close>

text \<open>C29. The live state of a source is its latest observation: after any sequence of
  occurrences, a queue, agent or adherence state is held exactly when there is an observation
  for it, it is the state that some observation of its history gives, and no observation of
  the history is newer by effective time and, for equal times, ingestion position. Late
  evidence is kept and never replaces a newer state.\<close>

theorem live_state_is_latest:
  "(case Queue (builtFrom aos) q of None \<Rightarrow> QueueHistory (builtFrom aos) q = []
     | Some s \<Rightarrow> list_ex (\<lambda>ob. s = queueStateOf ob \<and>
         list_all (\<lambda>ob'. \<not> newer (qoProvenance ob') (qoProvenance ob)) (QueueHistory (builtFrom aos) q))
         (QueueHistory (builtFrom aos) q)) \<and>
   (case Agent (builtFrom aos) a of None \<Rightarrow> AgentStateHistory (builtFrom aos) a = []
     | Some s \<Rightarrow> list_ex (\<lambda>ob. s = agentStateOf ob \<and>
         list_all (\<lambda>ob'. \<not> newer (aoProvenance ob') (aoProvenance ob)) (AgentStateHistory (builtFrom aos) a))
         (AgentStateHistory (builtFrom aos) a)) \<and>
   (case Adherence (builtFrom aos) a of None \<Rightarrow> AdherenceHistory (builtFrom aos) a = []
     | Some s \<Rightarrow> list_ex (\<lambda>ob. s = adherenceStateOf ob (ahKnownViolationSince s) \<and>
         list_all (\<lambda>ob'. \<not> newer (adProvenance ob') (adProvenance ob)) (AdherenceHistory (builtFrom aos) a))
         (AdherenceHistory (builtFrom aos) a))"
  using queue_pointer.live_is_latest [of aos q] agent_pointer.live_is_latest [of aos a]
    adherence_pointer.live_is_latest [of aos a]
  by (simp add: Queue_def QueueHistory_def Agent_def AgentStateHistory_def Adherence_def
      AdherenceHistory_def list_ex_iff list_all_iff split: option.split)

text \<open>Histories are append-only and in ingestion order: further occurrences only extend the
  history of a queue, an agent or an adherence source, and ingestion positions strictly
  increase along it.\<close>

theorem history_append_only:
  "(\<exists>more. QueueHistory (builtFrom (xs @ ys)) q = QueueHistory (builtFrom xs) q @ more) \<and>
   (\<exists>more. AgentStateHistory (builtFrom (xs @ ys)) q = AgentStateHistory (builtFrom xs) q @ more) \<and>
   (\<exists>more. AdherenceHistory (builtFrom (xs @ ys)) q = AdherenceHistory (builtFrom xs) q @ more) \<and>
   sorted_wrt (<) (map (\<lambda>ob. pvIngestPosition (qoProvenance ob)) (QueueHistory (builtFrom xs) q)) \<and>
   sorted_wrt (<) (map (\<lambda>ob. pvIngestPosition (aoProvenance ob)) (AgentStateHistory (builtFrom xs) q)) \<and>
   sorted_wrt (<) (map (\<lambda>ob. pvIngestPosition (adProvenance ob)) (AdherenceHistory (builtFrom xs) q))"
  using queue_pointer.history_prefix [of xs ys q] agent_pointer.history_prefix [of xs ys q]
    adherence_pointer.history_prefix [of xs ys q] queue_pointer.live_is_latest [of xs q]
    agent_pointer.live_is_latest [of xs q] adherence_pointer.live_is_latest [of xs q]
  by (simp add: QueueHistory_def AgentStateHistory_def AdherenceHistory_def comp_def)

subsection \<open>Repetitions\<close>

text \<open>Every occurrence that was built still has a live state to report.\<close>

definition represented :: "builder \<Rightarrow> bool" where
  "represented b \<longleftrightarrow> (\<forall>i idn. occurrences b i = Some idn \<longrightarrow> (case idEvent idn of
       Some (QueueSnapshot s) \<Rightarrow> queues b (qsQueueID s) \<noteq> None
     | Some (AgentStateChange c) \<Rightarrow> agents b (asAgentID c) \<noteq> None
     | Some (AdherenceCheck c) \<Rightarrow> adherence b (acAgentID c) \<noteq> None
     | _ \<Rightarrow> False))"

lemma built_grows:
  assumes "validateOccurrence ao = None"
  shows "occurrences (fst (built b ao)) = occurrences b \<and> admissions (fst (built b ao)) = admissions b \<and>
    (queues b q \<noteq> None \<longrightarrow> queues (fst (built b ao)) q \<noteq> None) \<and>
    (agents b q \<noteq> None \<longrightarrow> agents (fst (built b ao)) q \<noteq> None) \<and>
    (adherence b q \<noteq> None \<longrightarrow> adherence (fst (built b ao)) q \<noteq> None) \<and>
    (case aoEvent ao of
       Some (QueueSnapshot s) \<Rightarrow> queues (fst (built b ao)) (qsQueueID s) \<noteq> None
     | Some (AgentStateChange c) \<Rightarrow> agents (fst (built b ao)) (asAgentID c) \<noteq> None
     | Some (AdherenceCheck c) \<Rightarrow> adherence (fst (built b ao)) (acAgentID c) \<noteq> None
     | _ \<Rightarrow> False)"
  by (rule validated_event [OF assms])
    (auto simp: built_def buildQueue_def buildAgentState_def buildAdherence_def Let_def split: option.split)

lemma represented_Build:
  assumes inv: "represented b"
  shows "represented (fst (Build b ao))"
proof (cases "fresh b ao")
  case True
  then have v: "validateOccurrence ao = None" by (simp add: fresh_def)
  then have ev: "idEvent (identityOf ao) = aoEvent ao"
    by (rule validated_event) (simp_all add: identityOf_def)
  note g = built_grows [OF v, of b]
  show ?thesis
    unfolding represented_def
  proof (intro allI impI)
    fix i idn
    assume "occurrences (fst (Build b ao)) i = Some idn"
    then have c: "i = aoID ao \<and> idn = identityOf ao \<or> occurrences b i = Some idn"
      using g by (auto simp: Build_fresh [OF True] admitted_def split: if_splits)
    have live: "queues (fst (Build b ao)) = queues (fst (built b ao))"
      "agents (fst (Build b ao)) = agents (fst (built b ao))"
      "adherence (fst (Build b ao)) = adherence (fst (built b ao))"
      by (simp_all add: Build_fresh [OF True] admitted_def)
    from c show "case idEvent idn of
       Some (QueueSnapshot s) \<Rightarrow> queues (fst (Build b ao)) (qsQueueID s) \<noteq> None
     | Some (AgentStateChange c) \<Rightarrow> agents (fst (Build b ao)) (asAgentID c) \<noteq> None
     | Some (AdherenceCheck c) \<Rightarrow> adherence (fst (Build b ao)) (acAgentID c) \<noteq> None
     | _ \<Rightarrow> False"
    proof
      assume "i = aoID ao \<and> idn = identityOf ao"
      with g show ?thesis unfolding live by (simp add: ev)
    next
      assume "occurrences b i = Some idn"
      with inv have "case idEvent idn of Some (QueueSnapshot s) \<Rightarrow> queues b (qsQueueID s) \<noteq> None
         | Some (AgentStateChange c) \<Rightarrow> agents b (asAgentID c) \<noteq> None
         | Some (AdherenceCheck c) \<Rightarrow> adherence b (acAgentID c) \<noteq> None | _ \<Rightarrow> False"
        by (simp add: represented_def)
      with g show ?thesis unfolding live by (simp split: option.splits event.splits)
    qed
  qed
qed (simp add: Build_not_fresh assms)

lemma represented_builtFrom: "represented (builtFrom aos)"
  by (induction aos rule: rev_induct)
    (simp_all add: builtFrom_snoc represented_Build, simp add: represented_def NewBuilder_def)

lemma occurrences_stay:
  assumes "occurrences b i = Some idn"
  shows "occurrences (fst (Build b ao)) i = Some idn"
proof (cases "fresh b ao")
  case True
  then show ?thesis
    using assms built_grows [OF fresh_validated [OF True], of b]
    by (auto simp: Build_fresh [OF True] admitted_def fresh_def)
qed (simp add: Build_not_fresh assms)

lemma occurrences_stay_run:
  "occurrences b i = Some idn \<Longrightarrow> occurrences (fst (run buildStep b aos)) i = Some idn"
proof (induction aos arbitrary: b)
  case (Cons ao aos)
  from Cons.IH [OF occurrences_stay [OF Cons.prems, of ao]] show ?case
    by (simp add: Let_def case_prod_beta)
qed simp

lemma Build_Inr:
  assumes "snd (Build b ao) = Inr u"
  shows "fresh b ao \<or> (\<exists>idn. occurrences b (aoID ao) = Some idn \<and> sameIdentity idn (identityOf ao))"
proof (cases "occurrences b (aoID ao)")
  case None
  have "validateOccurrence ao = None" using assms by (auto simp: Build_def split: option.splits)
  with None assms show ?thesis
    by (simp add: Build_def fresh_def Let_def not_le split: option.splits if_splits)
next
  case (Some idn)
  with assms show ?thesis by (auto simp: Build_def split: option.splits if_splits)
qed

text \<open>Building is idempotent and guards identity: once an occurrence has been built, after
  any further occurrences, building it again reports a duplicate and changes nothing, and an
  occurrence that carries its identifier with any other content is rejected and changes
  nothing.\<close>

theorem build_idempotent:
  assumes "snd (Build (builtFrom before) ao) = Inr u"
    and "validateOccurrence other = None" and "aoID other = aoID ao"
    and "\<not> sameIdentity (identityOf ao) (identityOf other)"
  shows "let b = builtFrom (before @ ao # after) in
    (\<exists>u'. Build b ao = (b, Inr u') \<and> upDuplicate u') \<and>
    Build b other = (b, Inl (ConflictingIdentity (aoID ao)))"
proof -
  let ?first = "builtFrom before" and ?b = "builtFrom (before @ ao # after)"
  have v: "validateOccurrence ao = None"
    using assms(1) by (auto simp: Build_def split: option.splits)
  have "\<exists>idn. occurrences (fst (Build ?first ao)) (aoID ao) = Some idn \<and> sameIdentity idn (identityOf ao)"
  proof (cases "fresh ?first ao")
    case True
    then show ?thesis by (simp add: Build_fresh admitted_def sameIdentity_def)
  next
    case False
    with Build_Inr [OF assms(1)] show ?thesis by (simp add: Build_not_fresh [OF False])
  qed
  then obtain idn where "occurrences (fst (Build ?first ao)) (aoID ao) = Some idn"
    and same: "sameIdentity idn (identityOf ao)" by blast
  from occurrences_stay_run [OF this(1), of after]
  have seen: "occurrences ?b (aoID ao) = Some idn"
    by (simp add: run_append Let_def case_prod_beta)
  have idn: "idn = identityOf ao"
    using same by (simp add: sameIdentity_def)
  have rep: "case idEvent (identityOf ao) of Some (QueueSnapshot s) \<Rightarrow> queues ?b (qsQueueID s) \<noteq> None
     | Some (AgentStateChange c) \<Rightarrow> agents ?b (asAgentID c) \<noteq> None
     | Some (AdherenceCheck c) \<Rightarrow> adherence ?b (acAgentID c) \<noteq> None | _ \<Rightarrow> False"
    using represented_builtFrom [of "before @ ao # after", unfolded represented_def, rule_format, OF seen]
    unfolding idn .
  have "\<exists>u'. duplicateOf ?b ao = Inr u' \<and> upDuplicate u'"
    by (rule validated_event [OF v]; use rep in \<open>auto simp: duplicateOf_def identityOf_def\<close>)
  moreover have "\<not> sameIdentity idn (identityOf other)" using assms(4) idn by simp
  ultimately show ?thesis
    using seen same v assms(2,3) by (simp add: Let_def Build_def)
qed

definition demoAdherence :: "nat \<Rightarrow> bool \<Rightarrow> gotime option \<Rightarrow> accepted_occurrence" where
  "demoAdherence n viol since = \<lparr>aoID = ''occ'' @ decimal n, aoSource = ''s'',
     aoIdempotencyKey = ''key'' @ decimal n, aoIngestPosition = of_nat n, aoSourceEventID = ''e'',
     aoEffectiveAt = int (100 * n),
     aoEvent = Some (AdherenceCheck \<lparr>acCommon = \<lparr>evEventID = ''e'', evTimestamp = int (100 * n),
         evType = ''adherence_check''\<rparr>, acAgentID = ''a1'', acScheduledState = ''available'',
       acActualState = ''on_break'', acInViolation = viol, acViolationStartedAt = since, acQueueIDs = []\<rparr>),
     aoRaw = ''{}''\<rparr>"

lemma demoAdherence_valid: "validateOccurrence (demoAdherence 1 viol since) = None"
  by (simp add: demoAdherence_def validateOccurrence_def isZero_def)

theorem build_idempotent_witness:
  "snd (Build (builtFrom [demoAdherence 1 True None]) (demoAdherence 1 False None)) =
     Inl (ConflictingIdentity ''occ1'')"
proof -
  have ok: "\<exists>u. snd (Build (builtFrom []) (demoAdherence 1 True None)) = Inr u"
    using demoAdherence_valid [of True None]
    by (simp add: Build_def NewBuilder_def demoAdherence_def buildAdherence_def Let_def)
  have i: "aoID (demoAdherence 1 False None) = aoID (demoAdherence 1 True None)"
    "aoID (demoAdherence 1 True None) = ''occ1''" by (simp_all add: demoAdherence_def) code_simp
  have d: "\<not> sameIdentity (identityOf (demoAdherence 1 True None)) (identityOf (demoAdherence 1 False None))"
    by (simp add: sameIdentity_def identityOf_def demoAdherence_def)
  from ok obtain u where "snd (Build (builtFrom []) (demoAdherence 1 True None)) = Inr u" by blast
  from build_idempotent [OF this demoAdherence_valid i(1) d, of "[]"] show ?thesis
    by (simp add: Let_def i(2) del: One_nat_def)
qed

subsection \<open>The onset of a violation\<close>

text \<open>The observations of a history that became live, in order.\<close>

definition becameLive :: "adherence_observation list \<Rightarrow> adherence_observation list" where
  "becameLive h = foldl (\<lambda>acc ob. if acc = [] \<or> newer (adProvenance ob) (adProvenance (last acc))
     then acc @ [ob] else acc) [] h"

definition inViolation :: "adherence_observation \<Rightarrow> bool" where
  "inViolation ob = acInViolation (adCheck ob)"

text \<open>The onset: of the violations that end the list without interruption, the last supplied
  start, or else the effective time of the first.\<close>

definition onset :: "adherence_observation list \<Rightarrow> gotime" where
  "onset chain =
     (let now = rev (takeWhile inViolation (rev chain));
          starts = concat (map (\<lambda>ob. case acViolationStartedAt (adCheck ob) of None \<Rightarrow> [] | Some t \<Rightarrow> [t]) now)
      in if now = [] then 0
         else if starts = [] then pvEffectiveAt (adProvenance (hd now)) else last starts)"

lemma becameLive_snoc:
  "becameLive (h @ [ob]) =
     (if becameLive h = [] \<or> newer (adProvenance ob) (adProvenance (last (becameLive h)))
      then becameLive h @ [ob] else becameLive h)"
  by (simp add: becameLive_def)

lemma becameLive_subset: "set (becameLive h) \<subseteq> set h"
  by (induction h rule: rev_induct) (auto simp: becameLive_snoc, simp add: becameLive_def)

lemma becameLive_Nil [simp]: "becameLive h = [] \<longleftrightarrow> h = []"
  by (induction h rule: rev_induct) (simp_all add: becameLive_snoc, simp add: becameLive_def)

lemma onset_snoc:
  "onset (chain @ [ob]) =
     (if \<not> inViolation ob then 0
      else case acViolationStartedAt (adCheck ob) of
        Some t \<Rightarrow> t
      | None \<Rightarrow> if chain \<noteq> [] \<and> inViolation (last chain) then onset chain
          else pvEffectiveAt (adProvenance ob))"
proof -
  have "takeWhile inViolation (rev chain) = [] \<longleftrightarrow> chain = [] \<or> \<not> inViolation (last chain)"
    by (cases chain rule: rev_cases) auto
  then show ?thesis
    by (auto simp: onset_def Let_def hd_append split: option.splits)
qed

lemma onset_nonzero:
  assumes "\<forall>ob \<in> set chain. pvEffectiveAt (adProvenance ob) \<noteq> 0 \<and> acViolationStartedAt (adCheck ob) \<noteq> Some 0"
    and "chain \<noteq> []" and "inViolation (last chain)"
  shows "onset chain \<noteq> 0"
  using assms
proof (induction chain rule: rev_induct)
  case (snoc ob chain)
  then show ?case by (auto simp: onset_snoc split: option.splits)
qed simp

definition noZeroStarts :: "adherence_observation list \<Rightarrow> bool" where
  "noZeroStarts h \<longleftrightarrow> (\<forall>ob \<in> set h. acViolationStartedAt (adCheck ob) \<noteq> Some 0)"

definition onsetInv :: "builder \<Rightarrow> bool" where
  "onsetInv b \<longleftrightarrow> (\<forall>q. (\<forall>ob \<in> set (adherenceHistory b q). pvEffectiveAt (adProvenance ob) \<noteq> 0) \<and>
     (noZeroStarts (adherenceHistory b q) \<longrightarrow>
      adherence b q = (let c = becameLive (adherenceHistory b q) in
        if c = [] then None else Some (adherenceStateOf (last c) (onset c)))))"

lemma adherenceStateOf_simps [simp]:
  "ahInViolation (adherenceStateOf ob t) = inViolation ob"
  "ahKnownViolationSince (adherenceStateOf ob t) = t"
  "ahProvenance (adherenceStateOf ob t) = adProvenance ob"
  by (simp_all add: adherenceStateOf_def inViolation_def Let_def)

lemma onsetInv_adherence:
  assumes inv: "onsetInv b" and z: "aoEffectiveAt ao \<noteq> 0"
  shows "onsetInv (fst (buildAdherence b ao c))"
  unfolding onsetInv_def
proof (intro allI conjI impI)
  fix q
  let ?b = "fst (buildAdherence b ao c)" and ?a = "acAgentID c" and ?ob = "adherenceObservation ao c"
  let ?h = "adherenceHistory b (acAgentID c)"
  have h: "adherenceHistory ?b q = (if q = ?a then ?h @ [?ob] else adherenceHistory b q)"
    by (simp add: buildAdherence_def Let_def split: option.splits)
  have prov: "adProvenance ?ob = provenanceOf ao" "pvEffectiveAt (provenanceOf ao) = aoEffectiveAt ao"
    "adCheck ?ob = c" by (simp_all add: adherenceObservation_def provenanceOf_def)
  show "\<forall>ob \<in> set (adherenceHistory ?b q). pvEffectiveAt (adProvenance ob) \<noteq> 0"
    using inv z by (auto simp: h prov onsetInv_def)
  assume nz: "noZeroStarts (adherenceHistory ?b q)"
  show "adherence ?b q = (let c = becameLive (adherenceHistory ?b q) in
        if c = [] then None else Some (adherenceStateOf (last c) (onset c)))"
  proof (cases "q = ?a")
    case False
    then have "adherence ?b q = adherence b q"
      by (simp add: buildAdherence_def Let_def split: option.splits)
    with False nz inv show ?thesis by (simp add: h onsetInv_def)
  next
    case True
    have "noZeroStarts ?h" using nz [unfolded h] True by (simp add: noZeroStarts_def)
    then have live: "adherence b ?a = (let c = becameLive ?h in
        if c = [] then None else Some (adherenceStateOf (last c) (onset c)))"
      using inv by (simp add: onsetInv_def)
    have cand: "adherenceCandidate ao c (adherence b ?a) = adherenceStateOf ?ob (onset (becameLive ?h @ [?ob]))"
    proof -
      have "violationSince ao c (adherence b ?a) = onset (becameLive ?h @ [?ob])"
      proof (cases "acInViolation c \<and> acViolationStartedAt c = None \<and> ?h \<noteq> [] \<and>
          inViolation (last (becameLive ?h))")
        case True
        have "onset (becameLive ?h) \<noteq> 0"
        proof (rule onset_nonzero)
          show "\<forall>ob \<in> set (becameLive ?h). pvEffectiveAt (adProvenance ob) \<noteq> 0 \<and>
              acViolationStartedAt (adCheck ob) \<noteq> Some 0"
            using inv \<open>noZeroStarts ?h\<close> becameLive_subset [of ?h]
            by (auto simp: onsetInv_def noZeroStarts_def)
        qed (use True in simp_all)
        with True show ?thesis
          by (simp add: violationSince_def live onset_snoc isZero_def inViolation_def [of ?ob] prov Let_def)
      next
        case False
        then show ?thesis
          by (auto simp: violationSince_def live onset_snoc inViolation_def [of ?ob] prov Let_def
              split: option.splits)
      qed
      then show ?thesis
        by (simp add: adherenceCandidate_def adherenceStateOf_def prov Let_def)
    qed
    show ?thesis
      unfolding h using True cand live
      by (auto simp: buildAdherence_def Let_def becameLive_snoc prov split: option.splits if_splits)
  qed
qed

lemma onsetInv_Build:
  assumes "onsetInv b"
  shows "onsetInv (fst (Build b ao))"
proof (cases "fresh b ao")
  case True
  note v = fresh_validated [OF True]
  have z: "aoEffectiveAt ao \<noteq> 0"
    using v by (auto simp: validateOccurrence_def isZero_def split: if_splits)
  have "onsetInv (fst (built b ao))"
  proof (rule validated_event [OF v])
    fix c assume "aoEvent ao = Some (AdherenceCheck c)"
    then show ?thesis using onsetInv_adherence [OF assms z] by (simp add: built_def)
  qed (use assms in \<open>simp_all add: built_def onsetInv_def buildQueue_def buildAgentState_def Let_def
      split: option.splits\<close>)
  then show ?thesis by (simp add: Build_fresh [OF True] admitted_def onsetInv_def)
qed (simp add: Build_not_fresh assms)

lemma onsetInv_builtFrom: "onsetInv (builtFrom aos)"
  by (induction aos rule: rev_induct)
    (simp_all add: builtFrom_snoc onsetInv_Build,
     simp add: onsetInv_def NewBuilder_def)

text \<open>The derived onset of a violation comes from continuous evidence: of the adherence
  observations that became live, take those that end the sequence with a violation without
  interruption; if there is none the onset is unset, otherwise it is the last start the source
  supplied among them, and without any the effective time of the first (no supplied start
  being the zero time, which the code takes for unset).\<close>

theorem known_violation_since:
  assumes "noZeroStarts (AdherenceHistory (builtFrom aos) a)"
  shows "map_option ahKnownViolationSince (Adherence (builtFrom aos) a) =
    (let chain = becameLive (AdherenceHistory (builtFrom aos) a) in
     if chain = [] then None else Some (onset chain))"
  using onsetInv_builtFrom [of aos] assms
  by (simp add: onsetInv_def Adherence_def AdherenceHistory_def Let_def)


theorem known_violation_since_witness:
  "map_option ahKnownViolationSince (Adherence (builtFrom [demoAdherence 1 True None,
     demoAdherence 2 True None]) ''a1'') = Some 100"
proof -
  let ?aos = "[demoAdherence 1 True None, demoAdherence 2 True None]"
  have h: "AdherenceHistory (builtFrom ?aos) ''a1'' =
      [adherenceObservation (demoAdherence 1 True None) (case the (aoEvent (demoAdherence 1 True None)) of AdherenceCheck c \<Rightarrow> c),
       adherenceObservation (demoAdherence 2 True None) (case the (aoEvent (demoAdherence 2 True None)) of AdherenceCheck c \<Rightarrow> c)]"
    by code_simp
  have z: "noZeroStarts (AdherenceHistory (builtFrom ?aos) ''a1'')"
    unfolding h noZeroStarts_def by (simp add: demoAdherence_def adherenceObservation_def)
  have "becameLive (AdherenceHistory (builtFrom ?aos) ''a1'') \<noteq> []"
    unfolding h by simp
  moreover have "onset (becameLive (AdherenceHistory (builtFrom ?aos) ''a1'')) = 100"
    unfolding h by code_simp
  ultimately show ?thesis
    using known_violation_since [OF z] by (simp only: Let_def if_False)
qed

end
