(* ===== verification/Evaluation.thy ===== *)
theory Evaluation
  imports App RulesJson Conditions
begin

text \<open>
  The evaluation runtime, \<^verbatim>\<open>internal/evaluation/runtime.go\<close>: activation of rule
  revisions, the global timer loop, evaluation of an occurrence and application of its
  observations, in the order of the source. An activation holds its reducer as a value and is
  stored back under its index. The package repeats \<^verbatim>\<open>lessObservation\<close> of the
  application contracts word for word; the model uses that one. The timer loop of
  \<^verbatim>\<open>Advance\<close> is a partial function: \<open>None\<close> would be a loop that does not end.
\<close>

subsection \<open>State\<close>

record evidence =
  evLookup :: field_lookup
  evTrueSince :: gotime
  evClearTrueSince :: gotime
  evReason :: string

text \<open>An \<^verbatim>\<open>EvidenceProvider\<close>; \<open>None\<close> is the nil interface.\<close>

type_synonym evidence_provider = "(resolved_target \<Rightarrow> evidence option) option"

record activation =
  avKey :: "string \<times> int"
  avSignature :: json
  avPlan :: compiled_plan
  avReducer :: reducer

record runtime =
  ruActive :: "activation list"
  ruByKey :: "string \<times> int \<rightharpoonup> nat"
  ruLogical :: gotime

datatype eval_error =
    ActiveRuleIDRequired | ActiveRevisionNotPositive string | DuplicateActiveRevision string int
  | CompileFailed string int compile_error | SignatureFailed string int | ReducerPanic
  | AdvanceTimeRequired | AdvancePrecedesClock
  | BadRequest contract_error | ClockMismatch | RevisionCountMismatch | UnactivatedRevision string int
  | DefinitionDiffers string int
  | UnsupportedAcceptedEvent | BadResult contract_error
  | UnselectedSubject string | EvalObservationIDRequired | EvalDuplicateObservationID string
  | EvalProcessingTime | EvalEffectiveTime | EvalDirection | EvalResult | NotCanonicalOrder

subsection \<open>Activation\<close>

definition definitionSignature :: "rule_definition \<Rightarrow> json option" where
  "definitionSignature d = marshalDefinition d"

definition activateOne :: "active_rule \<Rightarrow> group_resolver option \<Rightarrow> eval_error + activation" where
  "activateOne rl resolver =
     (case Compile (arDefinition rl) resolver of
        Inl err \<Rightarrow> Inl (CompileFailed (arID rl) (arRevision rl) err)
      | Inr plan \<Rightarrow> (case definitionSignature (arDefinition rl) of
          None \<Rightarrow> Inl (SignatureFailed (arID rl) (arRevision rl))
        | Some sig \<Rightarrow> (case New \<lparr>cfgRuleID = arID rl, cfgRevision = arRevision rl,
              cfgTriggerDuration = plTriggerFor plan, cfgClearDuration = plClearFor plan\<rparr> of
            None \<Rightarrow> Inl ReducerPanic
          | Some red \<Rightarrow> Inr \<lparr>avKey = (arID rl, arRevision rl), avSignature = sig, avPlan = plan,
              avReducer = red\<rparr>)))"

text \<open>The loop over the sorted rules; \<open>prev\<close> is \<^verbatim>\<open>values[i-1]\<close>.\<close>

fun activateLoop ::
  "group_resolver option \<Rightarrow> active_rule option \<Rightarrow> active_rule list \<Rightarrow> runtime \<Rightarrow> eval_error + runtime"
where
  "activateLoop resolver prev [] rt = Inr rt"
| "activateLoop resolver prev (rl # rls) rt =
     (if arID rl = [] then Inl ActiveRuleIDRequired
      else if arRevision rl \<le> 0 then Inl (ActiveRevisionNotPositive (arID rl))
      else if (case prev of None \<Rightarrow> False | Some p \<Rightarrow> arID p = arID rl \<and> arRevision p = arRevision rl)
        then Inl (DuplicateActiveRevision (arID rl) (arRevision rl))
      else case activateOne rl resolver of
        Inl err \<Rightarrow> Inl err
      | Inr entry \<Rightarrow> activateLoop resolver (Some rl) rls
          (rt\<lparr>ruActive := ruActive rt @ [entry],
              ruByKey := (ruByKey rt)(avKey entry \<mapsto> length (ruActive rt))\<rparr>))"

definition Activate :: "active_rule list \<Rightarrow> group_resolver option \<Rightarrow> eval_error + runtime" where
  "Activate activeRules resolver = activateLoop resolver None (sort_by activeRuleLess activeRules)
     \<lparr>ruActive = [], ruByKey = Map.empty, ruLogical = 0\<rparr>"

definition LogicalTime :: "runtime \<Rightarrow> gotime" where
  "LogicalTime rt = ruLogical rt"

subsection \<open>Advancing the clock\<close>

definition lessTimer :: "timer \<Rightarrow> timer \<Rightarrow> bool" where
  "lessTimer l r =
     (if tmDueAt l \<noteq> tmDueAt r then tmDueAt l < tmDueAt r
      else if RuleID (tmKey l) \<noteq> RuleID (tmKey r) then RuleID (tmKey l) < RuleID (tmKey r)
      else if Revision (tmKey l) \<noteq> Revision (tmKey r) then Revision (tmKey l) < Revision (tmKey r)
      else if Kind (Subject (tmKey l)) \<noteq> Kind (Subject (tmKey r))
        then Kind (Subject (tmKey l)) < Kind (Subject (tmKey r))
      else if SubjID (Subject (tmKey l)) \<noteq> SubjID (Subject (tmKey r))
        then SubjID (Subject (tmKey l)) < SubjID (Subject (tmKey r))
      else tmAttempt l < tmAttempt r)"

text \<open>The two loops of \<^verbatim>\<open>nextDue\<close>, over the timers of one reducer and over the reducers.\<close>

fun scanTimers :: "gotime \<Rightarrow> nat \<Rightarrow> timer list \<Rightarrow> (nat \<times> timer) option \<Rightarrow> (nat \<times> timer) option" where
  "scanTimers now i [] sel = sel"
| "scanTimers now i (tm # tms) sel =
     (if tmDueAt tm > now then sel
      else scanTimers now i tms (case sel of None \<Rightarrow> Some (i, tm)
        | Some (j, t) \<Rightarrow> if lessTimer tm t then Some (i, tm) else sel))"

fun scanActive :: "gotime \<Rightarrow> nat \<Rightarrow> activation list \<Rightarrow> (nat \<times> timer) option \<Rightarrow> (nat \<times> timer) option" where
  "scanActive now i [] sel = sel"
| "scanActive now i (a # as) sel = scanActive now (i + 1) as (scanTimers now i (timers (avReducer a)) sel)"

definition nextDue :: "runtime \<Rightarrow> gotime \<Rightarrow> (nat \<times> timer) option" where
  "nextDue rt now = scanActive now 0 (ruActive rt) None"

definition setReducer :: "runtime \<Rightarrow> nat \<Rightarrow> reducer \<Rightarrow> runtime" where
  "setReducer rt i red = rt\<lparr>ruActive := (ruActive rt)[i := (ruActive rt ! i)\<lparr>avReducer := red\<rparr>]\<rparr>"

partial_function (option) fireLoop :: "runtime \<Rightarrow> gotime \<Rightarrow> (runtime \<times> transition list) option" where
  "fireLoop rt now = (case nextDue rt now of
       None \<Rightarrow> Some (rt, [])
     | Some (i, tm) \<Rightarrow>
         Option.bind (fireLoop (setReducer rt i (fst (Fire (avReducer (ruActive rt ! i)) tm now))) now)
           (\<lambda>(rt', rest). Some (rt', snd (Fire (avReducer (ruActive rt ! i)) tm now) @ rest)))"

declare fireLoop.simps [code]

text \<open>The second loop: every reducer is advanced to synchronise its clock.\<close>

definition advanceReducers :: "runtime \<Rightarrow> gotime \<Rightarrow> runtime \<times> transition list" where
  "advanceReducers rt now =
     (rt\<lparr>ruActive := map (\<lambda>a. a\<lparr>avReducer := fst (Advance (avReducer a) now)\<rparr>) (ruActive rt)\<rparr>,
      concat (map (\<lambda>a. snd (Advance (avReducer a) now)) (ruActive rt)))"

definition AdvanceRuntime ::
  "runtime \<Rightarrow> gotime \<Rightarrow> (runtime \<times> (eval_error + transition list)) option"
where
  "AdvanceRuntime rt now =
     (if isZero now then Some (rt, Inl AdvanceTimeRequired)
      else if \<not> isZero (ruLogical rt) \<and> now < ruLogical rt then Some (rt, Inl AdvancePrecedesClock)
      else case fireLoop rt now of
        None \<Rightarrow> None
      | Some (rt1, out) \<Rightarrow>
          let (rt2, more) = advanceReducers rt1 now
          in Some (rt2\<lparr>ruLogical := now\<rparr>, Inr (out @ more)))"

subsection \<open>Evaluating an occurrence\<close>

fun occurrenceTarget :: "event \<Rightarrow> resolved_target option" where
  "occurrenceTarget (QueueSnapshot q) = Some \<lparr>rtKind = ''queue'', rtID = qsQueueID q\<rparr>"
| "occurrenceTarget (AgentStateChange a) = Some \<lparr>rtKind = ''agent'', rtID = asAgentID a\<rparr>"
| "occurrenceTarget (AdherenceCheck a) = Some \<lparr>rtKind = ''agent'', rtID = acAgentID a\<rparr>"
| "occurrenceTarget (OtherEvent _) = None"

definition conditionSubject :: "resolved_target \<Rightarrow> subject_key" where
  "conditionSubject t = SubjectKey (rtKind t) (rtID t)"

fun conditionResult :: "predicate_result \<Rightarrow> result" where
  "conditionResult PredicateTrue = RTrue"
| "conditionResult PredicateFalse = RFalse"
| "conditionResult PredicateUnknown = Unknown"

definition observationID :: "string \<Rightarrow> condition_key \<Rightarrow> direction \<Rightarrow> string" where
  "observationID occID key dir = stableID ''evaluation''
     (canonicalParts [occID, RuleID key, formatInt (Revision key), Kind (Subject key),
        SubjID (Subject key), directionString dir])"

definition evalObservation ::
  "evaluation_request \<Rightarrow> condition_key \<Rightarrow> direction \<Rightarrow> result \<Rightarrow> gotime \<Rightarrow> string \<Rightarrow> observation"
where
  "evalObservation req key dir res trueSince rsn =
     \<lparr>obsKey = key, obsDirection = dir, obsResult = res,
      obsEffectiveAt = aoEffectiveAt (erOccurrence req), obsProcessingAt = erLogicalTime req,
      obsEvidenceAt = aoEffectiveAt (erOccurrence req), obsTrueSince = trueSince,
      obsID = observationID (aoID (erOccurrence req)) key dir, obsReason = rsn\<rparr>"

fun checkRevisions :: "runtime \<Rightarrow> active_rule list \<Rightarrow> eval_error option" where
  "checkRevisions rt [] = None"
| "checkRevisions rt (rl # rls) = (case ruByKey rt (arID rl, arRevision rl) of
       None \<Rightarrow> Some (UnactivatedRevision (arID rl) (arRevision rl))
     | Some i \<Rightarrow> (case definitionSignature (arDefinition rl) of
         None \<Rightarrow> Some (SignatureFailed (arID rl) (arRevision rl))
       | Some sig \<Rightarrow>
           if sig \<noteq> avSignature (ruActive rt ! i) then Some (DefinitionDiffers (arID rl) (arRevision rl))
           else checkRevisions rt rls))"

definition validateRequest :: "runtime \<Rightarrow> evaluation_request \<Rightarrow> eval_error option" where
  "validateRequest rt req =
     (case NewEvaluationRequest (erOccurrence req) (erLogicalTime req) (erActiveRules req) of
        Inl err \<Rightarrow> Some (BadRequest err)
      | Inr v \<Rightarrow>
          if ruLogical rt \<noteq> erLogicalTime v then Some ClockMismatch
          else if length (erActiveRules v) \<noteq> length (ruActive rt) then Some RevisionCountMismatch
          else checkRevisions rt (erActiveRules v))"

text \<open>The zero \<^verbatim>\<open>Evidence{}\<close>, and the two observations of one activation.\<close>

definition zeroEvidence :: evidence where
  "zeroEvidence = \<lparr>evLookup = None, evTrueSince = 0, evClearTrueSince = 0, evReason = []\<rparr>"

definition observeEntry ::
  "evaluation_request \<Rightarrow> resolved_target \<Rightarrow> evidence option \<Rightarrow> activation \<Rightarrow> observation list"
where
  "observeEntry req target ev a =
     (if \<not> HasTarget (avPlan a) (rtKind target) (rtID target) then []
      else let e = (case ev of None \<Rightarrow> zeroEvidence | Some e \<Rightarrow> e);
               trig = (if ev \<noteq> None then conditionResult (EvaluateTrigger (avPlan a) (evLookup e)) else Unknown);
               clr = (if ev \<noteq> None then conditionResult (EvaluateClear (avPlan a) (evLookup e)) else Unknown);
               key = ConditionKey (fst (avKey a)) (snd (avKey a)) (conditionSubject target)
           in [evalObservation req key Trigger trig (evTrueSince e) (evReason e),
               evalObservation req key Clear clr (evClearTrueSince e) (evReason e)])"

definition Evaluate ::
  "runtime \<Rightarrow> evaluation_request \<Rightarrow> evidence_provider \<Rightarrow> eval_error + observation list"
where
  "Evaluate rt req provider = (case validateRequest rt req of
       Some err \<Rightarrow> Inl err
     | None \<Rightarrow> (case aoEvent (erOccurrence req) of
         None \<Rightarrow> Inl UnsupportedAcceptedEvent
       | Some event \<Rightarrow> (case occurrenceTarget event of
           None \<Rightarrow> Inl UnsupportedAcceptedEvent
         | Some target \<Rightarrow>
             let ev = (case provider of None \<Rightarrow> None | Some p \<Rightarrow> p target);
                 observations = concat (map (observeEntry req target ev) (ruActive rt))
             in case NewEvaluationResult req observations of
                  Inl err \<Rightarrow> Inl (BadResult err) | Inr out \<Rightarrow> Inr out)))"

subsection \<open>Applying a result\<close>

text \<open>The loop of \<^verbatim>\<open>validateResult\<close>; \<open>prev\<close> is the observation before.\<close>

fun checkResult ::
  "runtime \<Rightarrow> string set \<Rightarrow> observation option \<Rightarrow> observation list \<Rightarrow> eval_error option"
where
  "checkResult rt seen prev [] = None"
| "checkResult rt seen prev (ob # obs) =
     (let key = obsKey ob in
      case ruByKey rt (RuleID key, Revision key) of
        None \<Rightarrow> Some (UnactivatedRevision (RuleID key) (Revision key))
      | Some i \<Rightarrow>
          if \<not> HasTarget (avPlan (ruActive rt ! i)) (Kind (Subject key)) (SubjID (Subject key))
            then Some (UnselectedSubject (SubjID (Subject key)))
          else if obsID ob = [] then Some EvalObservationIDRequired
          else if obsID ob \<in> seen then Some (EvalDuplicateObservationID (obsID ob))
          else if obsProcessingAt ob \<noteq> ruLogical rt then Some EvalProcessingTime
          else if isZero (obsEffectiveAt ob) \<or> obsEffectiveAt ob > obsProcessingAt ob then Some EvalEffectiveTime
          else if obsDirection ob \<noteq> Trigger \<and> obsDirection ob \<noteq> Clear then Some EvalDirection
          else if obsResult ob \<noteq> Unknown \<and> obsResult ob \<noteq> RFalse \<and> obsResult ob \<noteq> RTrue then Some EvalResult
          else if (case prev of None \<Rightarrow> False | Some p \<Rightarrow> lessObservation ob p) then Some NotCanonicalOrder
          else checkResult rt (insert (obsID ob) seen) (Some ob) obs)"

definition indexOf :: "runtime \<Rightarrow> condition_key \<Rightarrow> nat" where
  "indexOf rt key = (case ruByKey rt (RuleID key, Revision key) of None \<Rightarrow> 0 | Some i \<Rightarrow> i)"

fun applyLoop :: "runtime \<Rightarrow> observation list \<Rightarrow> runtime \<times> transition list" where
  "applyLoop rt [] = (rt, [])"
| "applyLoop rt (ob # obs) =
     (let i = indexOf rt (obsKey ob);
          (red, ts) = Apply (avReducer (ruActive rt ! i)) ob;
          (rt', rest) = applyLoop (setReducer rt i red) obs
      in (rt', ts @ rest))"

definition ApplyResult :: "runtime \<Rightarrow> observation list \<Rightarrow> runtime \<times> (eval_error + transition list)" where
  "ApplyResult rt observations = (case checkResult rt {} None observations of
       Some err \<Rightarrow> (rt, Inl err)
     | None \<Rightarrow> (let (rt', ts) = applyLoop rt observations in (rt', Inr ts)))"

end
