(* ===== verification/EvaluationInv.thy ===== *)
theory EvaluationInv
  imports Evaluation ConditionsProps
begin

text \<open>
  Lemmas on the evaluation runtime: the choice of the next timer, the merge of the reducers'
  timers into one global order, and the invariant of the runtimes that activation, advance
  and application of results reach.
\<close>

subsection \<open>The next due timer\<close>

lemma lessTimer_eq: "lessTimer = timerLess"
  by (rule ext)+ (simp add: lessTimer_def timerLess_def)

interpretation runtime_timer_order: key_order lessTimer timerKey
  unfolding lessTimer_eq by (rule timer_order.key_order_axioms)

lemma sorted_timer_keys: "sorted (map timerKey (timers r))"
  by (simp add: timers_def timer_order.sorted_sort_by)

text \<open>The first timer of a reducer, when it is due.\<close>

definition headDue :: "reducer \<Rightarrow> gotime \<Rightarrow> timer option" where
  "headDue r now = (case timers r of [] \<Rightarrow> None | tm # _ \<Rightarrow> if tmDueAt tm > now then None else Some tm)"

definition earlier :: "(nat \<times> timer) option \<Rightarrow> nat \<Rightarrow> timer \<Rightarrow> (nat \<times> timer) option" where
  "earlier sel i tm = (case sel of None \<Rightarrow> Some (i, tm)
     | Some (j, t) \<Rightarrow> if lessTimer tm t then Some (i, tm) else sel)"

lemma earlier_least:
  obtains j t where "earlier sel i tm = Some (j, t)" and "timerKey t \<le> timerKey tm"
    and "\<And>j' t'. sel = Some (j', t') \<Longrightarrow> timerKey t \<le> timerKey t'"
proof (cases sel)
  case None
  then show ?thesis by (intro that [of i tm]) (simp_all add: earlier_def)
next
  case (Some p)
  obtain j t where p: "p = (j, t)" by (cases p)
  show ?thesis
  proof (cases "lessTimer tm t")
    case True
    then show ?thesis
      by (intro that [of i tm]) (simp_all add: earlier_def Some p runtime_timer_order.lt_iff)
  next
    case False
    then show ?thesis
      by (intro that [of j t]) (simp_all add: earlier_def Some p runtime_timer_order.lt_iff)
  qed
qed

lemma scanTimers_Cons:
  "scanTimers now i (tm # tms) sel =
     (if tmDueAt tm > now then sel else scanTimers now i tms (earlier sel i tm))"
  by (simp add: earlier_def)

declare scanTimers.simps(2) [simp del]

lemma scanTimers_keeps:
  assumes "\<forall>tm \<in> set tms. timerKey t \<le> timerKey tm"
  shows "scanTimers now i tms (Some (j, t)) = Some (j, t)"
  using assms
  by (induction tms) (auto simp: scanTimers_Cons earlier_def runtime_timer_order.lt_iff)

lemma scanTimers_sorted:
  assumes "sorted (map timerKey (tm # tms))"
  shows "scanTimers now i (tm # tms) sel =
    (if tmDueAt tm > now then sel else earlier sel i tm)"
proof (cases "tmDueAt tm > now")
  case False
  obtain j t where e: "earlier sel i tm = Some (j, t)" and le: "timerKey t \<le> timerKey tm"
    using earlier_least [of sel i tm] by metis
  have "\<forall>tm' \<in> set tms. timerKey t \<le> timerKey tm'"
    using assms le by (auto intro: order_trans)
  then show ?thesis using False by (simp add: scanTimers_Cons e scanTimers_keeps)
qed (simp add: scanTimers_Cons)

lemma scanTimers_headDue:
  "scanTimers now i (timers r) sel = (case headDue r now of None \<Rightarrow> sel | Some tm \<Rightarrow> earlier sel i tm)"
  using sorted_timer_keys [of r] by (cases "timers r") (auto simp: headDue_def scanTimers_sorted)

text \<open>What a scan from index \<open>i\<close> selects: nothing, or the least of the due head timers.\<close>

lemma scanActive_None:
  "scanActive now i as sel = None \<longleftrightarrow> sel = None \<and> (\<forall>a \<in> set as. headDue (avReducer a) now = None)"
  by (induction as arbitrary: i sel)
    (auto simp: scanTimers_headDue earlier_def split: option.splits)

lemma scanActive_Some:
  assumes "scanActive now i as sel = Some (j, t)"
  shows "(sel = Some (j, t) \<or>
      (\<exists>n < length as. j = i + n \<and> headDue (avReducer (as ! n)) now = Some t)) \<and>
    (\<forall>j' t'. sel = Some (j', t') \<longrightarrow> timerKey t \<le> timerKey t') \<and>
    (\<forall>a \<in> set as. \<forall>t'. headDue (avReducer a) now = Some t' \<longrightarrow> timerKey t \<le> timerKey t')"
  using assms
proof (induction as arbitrary: i sel)
  case (Cons a as)
  define sel' where "sel' = scanTimers now i (timers (avReducer a)) sel"
  have ih: "(sel' = Some (j, t) \<or>
      (\<exists>n < length as. j = (i + 1) + n \<and> headDue (avReducer (as ! n)) now = Some t)) \<and>
    (\<forall>j' t'. sel' = Some (j', t') \<longrightarrow> timerKey t \<le> timerKey t') \<and>
    (\<forall>a \<in> set as. \<forall>t'. headDue (avReducer a) now = Some t' \<longrightarrow> timerKey t \<le> timerKey t')"
    by (rule Cons.IH) (use Cons.prems in \<open>simp add: sel'_def\<close>)
  have s': "sel' = (case headDue (avReducer a) now of None \<Rightarrow> sel | Some tm \<Rightarrow> earlier sel i tm)"
    by (simp add: sel'_def scanTimers_headDue)
  have where_: "sel = Some (j, t) \<or>
      (\<exists>n < length (a # as). j = i + n \<and> headDue (avReducer ((a # as) ! n)) now = Some t)"
  proof (cases "sel' = Some (j, t)")
    case True
    then show ?thesis
      by (auto simp: s' earlier_def split: option.splits if_splits)
  next
    case False
    with ih obtain n where "n < length as" "j = (i + 1) + n"
      "headDue (avReducer (as ! n)) now = Some t" by blast
    then show ?thesis by (intro disjI2 exI [of _ "Suc n"]) simp
  qed
  have below: "timerKey t \<le> timerKey t'" if sel_or: "sel = Some (j', t') \<or> headDue (avReducer a) now = Some t'" for j' t'
  proof -
    obtain j2 t2 where e: "sel' = Some (j2, t2)" and le2: "timerKey t2 \<le> timerKey t'"
    proof (atomize_elim, cases "headDue (avReducer a) now")
      case None
      then show "\<exists>j2 t2. sel' = Some (j2, t2) \<and> timerKey t2 \<le> timerKey t'"
        using sel_or by (auto simp: s')
    next
      case (Some tm)
      then show "\<exists>j2 t2. sel' = Some (j2, t2) \<and> timerKey t2 \<le> timerKey t'"
        using sel_or by (auto simp: s' intro: earlier_least [of sel i tm])
    qed
    have "timerKey t \<le> timerKey t2" using ih e by blast
    then show ?thesis using le2 by (rule order_trans)
  qed
  show ?case
    using where_ ih below by (metis set_ConsD)
qed simp

lemma nextDue_None: "nextDue rt now = None \<longleftrightarrow> (\<forall>a \<in> set (ruActive rt). headDue (avReducer a) now = None)"
  by (simp add: nextDue_def scanActive_None)

lemma nextDue_Some:
  assumes "nextDue rt now = Some (i, tm)"
  shows "i < length (ruActive rt)"
    and "headDue (avReducer (ruActive rt ! i)) now = Some tm"
    and "\<And>a t. a \<in> set (ruActive rt) \<Longrightarrow> headDue (avReducer a) now = Some t \<Longrightarrow> timerKey tm \<le> timerKey t"
  using scanActive_Some [of now 0 "ruActive rt" None i tm] assms
  by (auto simp: nextDue_def)

subsection \<open>Firing the first timer of a reducer, then advancing it\<close>

lemma headDue_Some: "headDue r now = Some tm \<longleftrightarrow> (\<exists>tms. timers r = tm # tms) \<and> tmDueAt tm \<le> now"
  by (auto simp: headDue_def split: list.splits)

lemma headDue_None:
  "headDue r now = None \<longleftrightarrow> filter (\<lambda>tm. tmDueAt tm \<le> now) (timers r) = []"
proof -
  have "filter (\<lambda>tm. tmDueAt tm \<le> now) (timers r) = takeWhile (\<lambda>tm. tmDueAt tm \<le> now) (timers r)"
    by (rule takeWhile_sorted_filter [OF sorted_timers, symmetric])
  then show ?thesis by (auto simp: headDue_def split: list.splits)
qed

lemma Fire_head:
  assumes inv: "invKeys r" and t: "timers r = tm # tms" and due: "tmDueAt tm \<le> now"
    and clock: "logical r \<le> now" and nz: "\<not> isZero now"
  shows "Fire r tm now = (fst (fireDue (r\<lparr>logical := now\<rparr>) now tm),
    [firedTransition (r\<lparr>logical := now\<rparr>) now tm])"
proof -
  let ?r = "r\<lparr>logical := now\<rparr>"
  have inv': "invKeys ?r" using inv by (simp add: invKeys_def)
  have t': "timers ?r = tm # tms" using t by simp
  note tc = timers_Cons [OF inv' t']
  have d: "tmDirection tm = Trigger \<or> tmDirection tm = Clear"
    using timers_Cons_direction [OF inv' t'] by auto
  have dur: "tmDueAt tm = startedAt (pendingTracker ?r tm) + durationFor (config ?r) (tmDirection tm)"
    by (subst (1 3) tc(4)) (simp add: timerFor_due [OF tc(3)])
  have r1: "(if now < logical r then r else ?r) = ?r" using clock by simp
  have c: "fireDue ?r now tm = commit ?r (tmKey tm) (tmDirection tm) (pendingTracker ?r tm) (tmDueAt tm)
     (tmDueAt tm) (logical ?r) (timerObservation tm (pendingTracker ?r tm))"
    by (simp add: fireDue_def)
  have "Fire r tm now = fireDue ?r now tm"
    unfolding Fire_def Let_def r1
    using nz d tc(1,2) due dur by (auto simp: c)
  moreover have "snd (fireDue ?r now tm) = [firedTransition ?r now tm]"
    by (simp add: fireDue_def firedTransition_def)
  ultimately show ?thesis by (metis prod.collapse)
qed

lemma Fire_then_Advance:
  assumes inv: "invKeys r" and h: "headDue r now = Some tm"
    and clock: "logical r \<le> now" and nz: "\<not> isZero now"
  shows "Advance r now = (fst (Advance (fst (Fire r tm now)) now),
      snd (Fire r tm now) @ snd (Advance (fst (Fire r tm now)) now))"
    and "invKeys (fst (Fire r tm now))" and "logical (fst (Fire r tm now)) = now"
    and "timers (fst (Fire r tm now)) = tl (timers r)"
    and "snd (Fire r tm now) = [firedTransition (r\<lparr>logical := now\<rparr>) now tm]"
proof -
  from h obtain tms where t: "timers r = tm # tms" and due: "tmDueAt tm \<le> now"
    by (auto simp: headDue_Some)
  let ?r = "r\<lparr>logical := now\<rparr>"
  have inv': "invKeys ?r" using inv by (simp add: invKeys_def)
  have t': "timers ?r = tm # tms" using t by simp
  note f = Fire_head [OF inv t due clock nz]
  show inv2: "invKeys (fst (Fire r tm now))" and l2: "logical (fst (Fire r tm now)) = now"
    and "snd (Fire r tm now) = [firedTransition ?r now tm]"
    using inv' by (simp_all add: f)
  show "timers (fst (Fire r tm now)) = tl (timers r)"
    using timers_commit_head [OF inv' t'] by (simp add: f t fireDue_def)
  have adv: "Advance s now = advanceLoop (s\<lparr>logical := now\<rparr>) now" if "logical s \<le> now" for s
    using that nz by (simp add: Advance_def Let_def)
  have same: "fst (Fire r tm now)\<lparr>logical := now\<rparr> = fst (Fire r tm now)"
    using l2 by (metis (no_types, lifting) reducer.surjective reducer.update_convs(6) reducer.select_convs(6))
  show "Advance r now = (fst (Advance (fst (Fire r tm now)) now),
      snd (Fire r tm now) @ snd (Advance (fst (Fire r tm now)) now))"
    using advanceLoop_due [OF inv' t' due] l2
    by (simp add: adv clock same) (simp add: f)
qed

subsection \<open>The global loop merges the reducers' timers\<close>

text \<open>The place of a transition in the global order: that of the timer it fired.\<close>

definition transitionRank :: "transition \<Rightarrow> gotime \<times> string \<times> int \<times> string \<times> string \<times> u64" where
  "transitionRank t = (trAt t, RuleID (trKey t), Revision (trKey t), Kind (Subject (trKey t)),
     SubjID (Subject (trKey t)), trAttempt t)"

definition ready :: "runtime \<Rightarrow> gotime \<Rightarrow> bool" where
  "ready rt now \<longleftrightarrow> \<not> isZero now \<and>
     (\<forall>a \<in> set (ruActive rt). invKeys (avReducer a) \<and> logical (avReducer a) \<le> now)"

definition dueCount :: "runtime \<Rightarrow> gotime \<Rightarrow> nat" where
  "dueCount rt now =
     sum_list (map (\<lambda>a. length (filter (\<lambda>tm. tmDueAt tm \<le> now) (timers (avReducer a)))) (ruActive rt))"

lemma rank_firedTransition:
  assumes "invKeys r" and "tm \<in> set (timers r)"
  shows "transitionRank (firedTransition (r\<lparr>logical := now'\<rparr>) now tm) = timerKey tm"
    and "transitionRank (firedTransition r now tm) = timerKey tm"
proof -
  obtain s where s: "trackerOf r (tmKey tm) = Some s" "pending s" "tm = timerFor (config r) (tmKey tm, s)"
    using assms set_timers by blast
  then have a: "attempt s = tmAttempt tm" by (metis timerFor_simps(3) snd_conv)
  show "transitionRank (firedTransition (r\<lparr>logical := now'\<rparr>) now tm) = timerKey tm"
    and "transitionRank (firedTransition r now tm) = timerKey tm"
    using s(1) a by (simp_all add: transitionRank_def timerKey_def firedTransition_def pendingTracker_def)
qed

lemma Advance_ranks:
  assumes "invKeys r" and "logical r \<le> now" and "\<not> isZero now" and "t \<in> set (snd (Advance r now))"
  obtains h where "headDue r now = Some h" and "timerKey h \<le> transitionRank t"
proof -
  have m: "max (logical r) now = now" using assms(2) by simp
  from assms(4) obtain tm where tm: "tm \<in> set (timers r)" "tmDueAt tm \<le> now"
      "t = firedTransition r now tm"
    by (auto simp: Advance_spec(1) [OF assms(1,3)] m)
  then have k: "transitionRank t = timerKey tm" by (simp add: rank_firedTransition(2) [OF assms(1)])
  obtain h tms where t: "timers r = h # tms" using tm(1) by (cases "timers r") auto
  have "timerKey h \<le> timerKey tm"
    using sorted_timer_keys [of r] tm(1) by (auto simp: t)
  moreover have "tmDueAt h \<le> tmDueAt tm"
    using sorted_timers [of r] tm(1) by (auto simp: t)
  ultimately show ?thesis
    using tm(2) that [of h] by (simp add: k headDue_Some t)
qed

lemma setReducer_split:
  assumes "ruActive rt = as @ a # bs" and "length as = i"
  shows "ruActive (setReducer rt i r) = as @ a\<lparr>avReducer := r\<rparr> # bs"
    and "ruByKey (setReducer rt i r) = ruByKey rt" and "ruLogical (setReducer rt i r) = ruLogical rt"
  using assms(1) unfolding assms(2) [symmetric]
  by (simp_all add: setReducer_def nth_append list_update_append)

lemma fireLoop_merges:
  assumes "ready rt now"
  shows "\<exists>rt' out. fireLoop rt now = Some (rt', out) \<and>
    ruByKey rt' = ruByKey rt \<and> ruLogical rt' = ruLogical rt \<and>
    ruActive (fst (advanceReducers rt' now)) = ruActive (fst (advanceReducers rt now)) \<and>
    snd (advanceReducers rt' now) = [] \<and>
    mset out = mset (snd (advanceReducers rt now)) \<and> sorted (map transitionRank out)"
  using assms
proof (induction "dueCount rt now" arbitrary: rt rule: less_induct)
  case less
  have nz: "\<not> isZero now"
    and ok: "\<And>a. a \<in> set (ruActive rt) \<Longrightarrow> invKeys (avReducer a) \<and> logical (avReducer a) \<le> now"
    using less.prems by (auto simp: ready_def)
  show ?case
  proof (cases "nextDue rt now")
    case None
    have "fireLoop rt now = Some (rt, [])" by (subst fireLoop.simps) (simp add: None)
    moreover have "snd (Advance (avReducer a) now) = []" if a: "a \<in> set (ruActive rt)" for a
    proof -
      have "headDue (avReducer a) now = None" using None a by (simp add: nextDue_None)
      moreover have "max (logical (avReducer a)) now = now" using ok [OF a] by simp
      ultimately show ?thesis
        using ok [OF a] nz by (simp add: Advance_spec(1) headDue_None)
    qed
    ultimately show ?thesis by (intro exI [of _ rt] exI [of _ "[]"]) (simp add: advanceReducers_def)
  next
    case (Some p)
    obtain i tm where p: "p = (i, tm)" by (cases p)
    note n = nextDue_Some [OF Some [unfolded p]]
    define a where "a = ruActive rt ! i"
    obtain as bs where split: "ruActive rt = as @ a # bs" and len: "length as = i"
      using id_take_nth_drop [OF n(1)] n(1) unfolding a_def by (metis length_take min.absorb4)
    have a_in: "a \<in> set (ruActive rt)" by (simp add: split)
    define r2 where "r2 = fst (Fire (avReducer a) tm now)"
    have h: "headDue (avReducer a) now = Some tm" using n(2) by (simp add: a_def)
    have ic: "invKeys (avReducer a)" "logical (avReducer a) \<le> now" using ok [OF a_in] by simp_all
    note F = Fire_then_Advance [OF ic(1) h ic(2) nz, folded r2_def]
    define rt2 where "rt2 = setReducer rt i r2"
    note s2 = setReducer_split [OF split len, of r2, folded rt2_def]
    obtain tms where tms: "timers (avReducer a) = tm # tms" and due: "tmDueAt tm \<le> now"
      using h by (auto simp: headDue_Some)
    have "dueCount rt2 now < dueCount rt now"
      by (simp add: dueCount_def s2(1) split F(4) tms due)
    moreover have "ready rt2 now"
      using ok nz F(2,3) by (auto simp: ready_def s2(1) split)
    ultimately obtain rt' out where ih: "fireLoop rt2 now = Some (rt', out)"
      "ruByKey rt' = ruByKey rt2" "ruLogical rt' = ruLogical rt2"
      "ruActive (fst (advanceReducers rt' now)) = ruActive (fst (advanceReducers rt2 now))"
      "snd (advanceReducers rt' now) = []"
      "mset out = mset (snd (advanceReducers rt2 now))" "sorted (map transitionRank out)"
      using less.hyps by blast
    define t where "t = firedTransition (avReducer a\<lparr>logical := now\<rparr>) now tm"
    have "fireLoop rt now = Some (rt', t # out)"
      by (subst fireLoop.simps)
        (simp add: Some p a_def [symmetric] r2_def [symmetric] rt2_def [symmetric] ih(1) F(5) t_def)
    moreover have "ruActive (fst (advanceReducers rt2 now)) = ruActive (fst (advanceReducers rt now))"
      by (simp add: advanceReducers_def s2(1) split F(1))
    moreover have "mset (t # out) = mset (snd (advanceReducers rt now))"
      by (simp add: ih(6) advanceReducers_def s2(1) split F(1) F(5) t_def)
    moreover have "transitionRank t \<le> transitionRank t'" if t': "t' \<in> set out" for t'
    proof -
      have "t' \<in># mset (snd (advanceReducers rt2 now))" using t' by (simp flip: ih(6))
      then obtain b where b: "b \<in> set (ruActive rt2)" "t' \<in> set (snd (Advance (avReducer b) now))"
        by (auto simp: advanceReducers_def)
      have bok: "invKeys (avReducer b)" "logical (avReducer b) \<le> now"
        using b(1) \<open>ready rt2 now\<close> by (auto simp: ready_def)
      obtain hb where hb: "headDue (avReducer b) now = Some hb" "timerKey hb \<le> transitionRank t'"
        by (rule Advance_ranks [OF bok nz b(2)])
      have le: "timerKey tm \<le> timerKey hb"
      proof (cases "b \<in> set (ruActive rt)")
        case True
        then show ?thesis using n(3) hb(1) by blast
      next
        case False
        then have "avReducer b = r2" using b(1) by (auto simp: s2(1) split)
        then have "hb \<in> set tms" using hb(1) F(4) tms by (auto simp: headDue_Some)
        then show ?thesis using sorted_timer_keys [of "avReducer a"] by (simp add: tms)
      qed
      have "transitionRank t = timerKey tm"
        unfolding t_def by (rule rank_firedTransition(1) [OF ic(1)]) (simp add: tms)
      then show ?thesis using order_trans [OF le hb(2)] by simp
    qed
    ultimately show ?thesis
      using ih s2(2,3) by (intro exI [of _ rt'] exI [of _ "t # out"]) simp
  qed
qed

lemma AdvanceRuntime_merges:
  assumes "ready rt now" and "isZero (ruLogical rt) \<or> ruLogical rt \<le> now"
  obtains out where
    "AdvanceRuntime rt now = Some (fst (advanceReducers rt now)\<lparr>ruLogical := now\<rparr>, Inr out)"
    "mset out = mset (snd (advanceReducers rt now))" "sorted (map transitionRank out)"
proof -
  obtain rt' out where f: "fireLoop rt now = Some (rt', out)"
    "ruByKey rt' = ruByKey rt" "ruLogical rt' = ruLogical rt"
    "ruActive (fst (advanceReducers rt' now)) = ruActive (fst (advanceReducers rt now))"
    "snd (advanceReducers rt' now) = []"
    "mset out = mset (snd (advanceReducers rt now))" "sorted (map transitionRank out)"
    using fireLoop_merges [OF assms(1)] by blast
  have "fst (advanceReducers rt' now)\<lparr>ruLogical := now\<rparr> = fst (advanceReducers rt now)\<lparr>ruLogical := now\<rparr>"
    using f(2,4) by (simp add: advanceReducers_def)
  moreover have "\<not> isZero now" using assms(1) by (simp add: ready_def)
  ultimately have "AdvanceRuntime rt now = Some (fst (advanceReducers rt now)\<lparr>ruLogical := now\<rparr>, Inr out)"
    using assms(2) f(5) by (auto simp: AdvanceRuntime_def f(1) Let_def case_prod_beta)
  then show ?thesis using f(6,7) that by blast
qed

subsection \<open>Reached runtimes\<close>

text \<open>
  The runtimes an activation set reaches, with advances at instants after Go's zero time.
  \<^verbatim>\<open>Evaluate\<close> changes nothing.
\<close>

inductive runtimeReached :: "active_rule list \<Rightarrow> group_resolver option \<Rightarrow> runtime \<Rightarrow> bool"
  for rules resolver
where
  activated: "Activate rules resolver = Inr rt \<Longrightarrow> runtimeReached rules resolver rt"
| advanced: "runtimeReached rules resolver rt \<Longrightarrow> 0 < now \<Longrightarrow> AdvanceRuntime rt now = Some (rt', res) \<Longrightarrow>
    runtimeReached rules resolver rt'"
| applied: "runtimeReached rules resolver rt \<Longrightarrow> ApplyResult rt obs = (rt', res) \<Longrightarrow>
    runtimeReached rules resolver rt'"

text \<open>What an activation keeps of the rule it was made from.\<close>

definition pinned :: "group_resolver option \<Rightarrow> active_rule \<Rightarrow> activation \<Rightarrow> bool" where
  "pinned resolver rl a \<longleftrightarrow> avKey a = (arID rl, arRevision rl) \<and> arID rl \<noteq> [] \<and> 0 < arRevision rl \<and>
     Compile (arDefinition rl) resolver = Inr (avPlan a) \<and>
     definitionSignature (arDefinition rl) = Some (avSignature a) \<and>
     reachable \<lparr>cfgRuleID = arID rl, cfgRevision = arRevision rl,
       cfgTriggerDuration = cdFor (rdTrigger (arDefinition rl)),
       cfgClearDuration = cdFor (rdClear (arDefinition rl))\<rparr> (avReducer a)"

definition indexed :: "runtime \<Rightarrow> bool" where
  "indexed rt \<longleftrightarrow> (\<forall>i < length (ruActive rt). ruByKey rt (avKey (ruActive rt ! i)) = Some i) \<and>
     (\<forall>k i. ruByKey rt k = Some i \<longrightarrow> i < length (ruActive rt) \<and> avKey (ruActive rt ! i) = k)"

definition clocked :: "runtime \<Rightarrow> bool" where
  "clocked rt \<longleftrightarrow> 0 \<le> ruLogical rt \<and> (\<forall>a \<in> set (ruActive rt). logical (avReducer a) \<le> ruLogical rt)"

definition runtimeInv :: "active_rule list \<Rightarrow> group_resolver option \<Rightarrow> runtime \<Rightarrow> bool" where
  "runtimeInv rules resolver rt \<longleftrightarrow>
     list_all2 (pinned resolver) (sort_by activeRuleLess rules) (ruActive rt) \<and> indexed rt \<and> clocked rt"

definition activeKey :: "active_rule \<Rightarrow> string \<times> int" where
  "activeKey rl = (arID rl, arRevision rl)"

interpretation active_order: key_order activeRuleLess activeKey
  by unfold_locales (auto simp: activeRuleLess_def activeKey_def less_prod_def')

subsection \<open>Activation\<close>

lemma Compile_durations:
  "Compile d resolver = Inr p \<Longrightarrow> plTriggerFor p = cdFor (rdTrigger d) \<and> plClearFor p = cdFor (rdClear d)"
  by (auto simp: Compile_def Let_def split: if_splits sum.splits)

lemma activateOne_pinned:
  assumes "activateOne rl resolver = Inr a" and "arID rl \<noteq> []" and "0 < arRevision rl"
  shows "pinned resolver rl a" and "logical (avReducer a) = 0" and "avKey a = activeKey rl"
proof -
  from assms(1) obtain p sig red where c: "Compile (arDefinition rl) resolver = Inr p"
    "definitionSignature (arDefinition rl) = Some sig"
    "New \<lparr>cfgRuleID = arID rl, cfgRevision = arRevision rl, cfgTriggerDuration = plTriggerFor p,
       cfgClearDuration = plClearFor p\<rparr> = Some red"
    "a = \<lparr>avKey = (arID rl, arRevision rl), avSignature = sig, avPlan = p, avReducer = red\<rparr>"
    by (auto simp: activateOne_def split: sum.splits option.splits)
  have "logical red = 0" using c(3) by (auto simp: New_def split: if_splits)
  with c assms(2,3) Compile_durations [OF c(1)]
  show "pinned resolver rl a" and "logical (avReducer a) = 0" and "avKey a = activeKey rl"
    by (auto simp: pinned_def activeKey_def intro: reachable.new)
qed

lemma indexed_snoc:
  assumes "indexed rt" and "avKey a \<notin> avKey ` set (ruActive rt)"
  shows "indexed (rt\<lparr>ruActive := ruActive rt @ [a],
    ruByKey := (ruByKey rt)(avKey a \<mapsto> length (ruActive rt))\<rparr>)"
proof -
  have "avKey (ruActive rt ! i) \<noteq> avKey a" if "i < length (ruActive rt)" for i
    using assms(2) that by (metis image_eqI nth_mem)
  with assms(1) show ?thesis
    by (auto simp: indexed_def nth_append less_Suc_eq split: if_splits)
qed

lemma activateLoop_inv:
  assumes "activateLoop resolver prev rls rt = Inr rt'"
    and "list_all2 (pinned resolver) before (ruActive rt)" and "indexed rt"
    and "ruLogical rt = 0" and "\<forall>a \<in> set (ruActive rt). logical (avReducer a) = 0"
    and "sorted (map activeKey (before @ rls))"
    and "prev = (if before = [] then None else Some (last before))"
  shows "list_all2 (pinned resolver) (before @ rls) (ruActive rt') \<and> indexed rt' \<and>
    ruLogical rt' = 0 \<and> (\<forall>a \<in> set (ruActive rt'). logical (avReducer a) = 0)"
  using assms
proof (induction rls arbitrary: prev rt before)
  case (Cons rl rls)
  from Cons.prems(1) obtain a where id: "arID rl \<noteq> []" "0 < arRevision rl"
    and dup: "\<not> (case prev of None \<Rightarrow> False | Some p \<Rightarrow> arID p = arID rl \<and> arRevision p = arRevision rl)"
    and a: "activateOne rl resolver = Inr a"
    and rest: "activateLoop resolver (Some rl) rls (rt\<lparr>ruActive := ruActive rt @ [a],
      ruByKey := (ruByKey rt)(avKey a \<mapsto> length (ruActive rt))\<rparr>) = Inr rt'"
    by (auto split: if_splits sum.splits)
  note p = activateOne_pinned [OF a id]
  have keys: "avKey ` set (ruActive rt) = activeKey ` set before"
    using Cons.prems(2)
    by (auto simp: list_all2_conv_all_nth set_conv_nth pinned_def activeKey_def image_def)
  have "activeKey b < activeKey rl" if b: "b \<in> set before" for b
  proof -
    have ne: "before \<noteq> []" using b by auto
    have "activeKey (last before) \<noteq> activeKey rl"
      using dup Cons.prems(7) ne by (simp add: activeKey_def)
    moreover have "activeKey b \<le> activeKey (last before)"
      using Cons.prems(6) b ne by (cases before rule: rev_cases) (auto simp: sorted_append)
    moreover have "activeKey (last before) \<le> activeKey rl"
      using Cons.prems(6) ne by (simp add: sorted_append)
    ultimately show ?thesis by (meson order_le_less order_le_less_trans)
  qed
  then have "activeKey b \<noteq> activeKey rl" if "b \<in> set before" for b
    using that by (metis less_irrefl)
  then have "activeKey rl \<notin> activeKey ` set before" by (metis imageE)
  then have "avKey a \<notin> avKey ` set (ruActive rt)" by (simp add: keys p(3))
  note ind = indexed_snoc [OF Cons.prems(3) this]
  have "list_all2 (pinned resolver) ((before @ [rl]) @ rls) (ruActive rt') \<and> indexed rt' \<and>
    ruLogical rt' = 0 \<and> (\<forall>a \<in> set (ruActive rt'). logical (avReducer a) = 0)"
    by (rule Cons.IH [OF rest _ ind])
      (use Cons.prems(2,4,5,6) p in \<open>simp_all add: list_all2_appendI\<close>)
  then show ?case by simp
qed simp

lemma Activate_inv: "Activate rules resolver = Inr rt \<Longrightarrow> runtimeInv rules resolver rt"
  using activateLoop_inv [of resolver None "sort_by activeRuleLess rules"
      "\<lparr>ruActive = [], ruByKey = Map.empty, ruLogical = 0\<rparr>" rt "[]"]
  by (auto simp: Activate_def runtimeInv_def clocked_def indexed_def active_order.sorted_sort_by)

subsection \<open>Advance and application keep the invariant\<close>

lemma runtimeInv_length:
  "runtimeInv rules resolver rt \<Longrightarrow> length (ruActive rt) = length rules"
  by (auto simp: runtimeInv_def active_order.sort_by_eq dest: list_all2_lengthD)

lemma runtimeInv_pinned:
  assumes "runtimeInv rules resolver rt" and "a \<in> set (ruActive rt)"
  obtains rl where "rl \<in> set rules" and "pinned resolver rl a"
  using assms
  by (auto simp: runtimeInv_def list_all2_conv_all_nth in_set_conv_nth [of a])
    (metis active_order.set_sort_by nth_mem)

lemma runtimeInv_invKeys:
  "runtimeInv rules resolver rt \<Longrightarrow> a \<in> set (ruActive rt) \<Longrightarrow> invKeys (avReducer a)"
  by (erule runtimeInv_pinned) (auto simp: pinned_def intro: reachable_invKeys)

lemma runtimeInv_ready:
  assumes "runtimeInv rules resolver rt" and "0 < now" and "ruLogical rt \<le> now"
  shows "ready rt now"
  using assms runtimeInv_invKeys [OF assms(1)]
  by (fastforce simp: ready_def runtimeInv_def clocked_def isZero_def)

lemma runtimeInv_setReducer:
  assumes inv: "runtimeInv rules resolver rt" and i: "i < length (ruActive rt)"
    and keep: "\<And>cfg. reachable cfg (avReducer (ruActive rt ! i)) \<Longrightarrow> reachable cfg r"
    and clk: "logical r \<le> ruLogical rt"
  shows "runtimeInv rules resolver (setReducer rt i r)"
proof -
  have "list_all2 (pinned resolver) (sort_by activeRuleLess rules) (ruActive (setReducer rt i r))"
    using inv i keep by (auto simp: runtimeInv_def setReducer_def list_all2_conv_all_nth nth_list_update pinned_def)
  moreover have "indexed (setReducer rt i r)"
    using inv i by (auto simp: runtimeInv_def indexed_def setReducer_def nth_list_update)
  moreover have "clocked (setReducer rt i r)"
    using inv clk set_update_subset_insert [of "ruActive rt" i "(ruActive rt ! i)\<lparr>avReducer := r\<rparr>"]
    by (auto simp: runtimeInv_def clocked_def setReducer_def)
  ultimately show ?thesis by (simp add: runtimeInv_def)
qed

lemma runtimeInv_advanceReducers:
  assumes inv: "runtimeInv rules resolver rt" and "0 < now" and "ruLogical rt \<le> now"
  shows "runtimeInv rules resolver (fst (advanceReducers rt now)\<lparr>ruLogical := now\<rparr>)"
proof -
  have "logical (fst (Advance (avReducer a) now)) \<le> now" if a: "a \<in> set (ruActive rt)" for a
  proof -
    have "logical (avReducer a) \<le> now"
      using inv assms(3) a by (fastforce simp: runtimeInv_def clocked_def)
    then show ?thesis using Advance_frame(2) [OF runtimeInv_invKeys [OF inv a]] by simp
  qed
  then have "clocked (fst (advanceReducers rt now)\<lparr>ruLogical := now\<rparr>)"
    using assms(2) by (auto simp: clocked_def advanceReducers_def)
  moreover have "indexed (fst (advanceReducers rt now)\<lparr>ruLogical := now\<rparr>)"
    using inv by (auto simp: runtimeInv_def indexed_def advanceReducers_def)
  moreover have "list_all2 (pinned resolver) (sort_by activeRuleLess rules)
      (ruActive (fst (advanceReducers rt now)))"
    using inv by (auto simp: runtimeInv_def advanceReducers_def list_all2_conv_all_nth pinned_def
        intro: reachable.advance)
  ultimately show ?thesis by (simp add: runtimeInv_def)
qed

lemma runtimeInv_AdvanceRuntime:
  assumes "runtimeInv rules resolver rt" and "0 < now" and "AdvanceRuntime rt now = Some (rt', res)"
  shows "runtimeInv rules resolver rt'"
proof (cases "ruLogical rt \<le> now")
  case True
  obtain out where
    "AdvanceRuntime rt now = Some (fst (advanceReducers rt now)\<lparr>ruLogical := now\<rparr>, Inr out)"
    using AdvanceRuntime_merges [OF runtimeInv_ready [OF assms(1,2) True]] True by blast
  with runtimeInv_advanceReducers [OF assms(1,2) True] assms(3) show ?thesis by simp
next
  case False
  then have "rt' = rt" using assms(2,3)
    by (auto simp: AdvanceRuntime_def isZero_def split: if_splits)
  then show ?thesis using assms(1) by simp
qed

text \<open>The observations that \<open>checkResult\<close> lets through.\<close>

definition timely :: "runtime \<Rightarrow> observation \<Rightarrow> bool" where
  "timely rt ob \<longleftrightarrow> ruByKey rt (RuleID (obsKey ob), Revision (obsKey ob)) \<noteq> None \<and>
     processingTime ob \<le> ruLogical rt"

lemma checkResult_timely:
  "checkResult rt seen prev obs = None \<Longrightarrow> ob \<in> set obs \<Longrightarrow> timely rt ob"
  by (induction rt seen prev obs rule: checkResult.induct)
    (auto simp: timely_def processingTime_def Let_def split: option.splits if_splits)

lemma setReducer_frame [simp]:
  "ruByKey (setReducer rt i r) = ruByKey rt" "ruLogical (setReducer rt i r) = ruLogical rt"
  "length (ruActive (setReducer rt i r)) = length (ruActive rt)"
  by (simp_all add: setReducer_def)

lemma runtimeInv_applyLoop:
  assumes "runtimeInv rules resolver rt" and "\<forall>ob \<in> set obs. timely rt ob"
  shows "runtimeInv rules resolver (fst (applyLoop rt obs))"
  using assms
proof (induction obs arbitrary: rt)
  case (Cons ob obs)
  define i where "i = indexOf rt (obsKey ob)"
  have i: "i < length (ruActive rt)"
    using Cons.prems by (auto simp: runtimeInv_def indexed_def timely_def i_def indexOf_def)
  let ?red = "fst (Apply (avReducer (ruActive rt ! i)) ob)"
  have a: "ruActive rt ! i \<in> set (ruActive rt)" using i by simp
  have "logical (avReducer (ruActive rt ! i)) \<le> ruLogical rt"
    using Cons.prems(1) a by (auto simp: runtimeInv_def clocked_def)
  then have "logical ?red \<le> ruLogical rt"
    using Cons.prems(2) Apply_frame(2) [OF runtimeInv_invKeys [OF Cons.prems(1) a]]
    by (simp add: timely_def)
  then have "runtimeInv rules resolver (setReducer rt i ?red)"
    by (intro runtimeInv_setReducer [OF Cons.prems(1) i]) (auto intro: reachable.apply_obs)
  moreover have "\<forall>ob \<in> set obs. timely (setReducer rt i ?red) ob"
    using Cons.prems(2) by (simp add: timely_def)
  ultimately show ?case
    using Cons.IH by (simp add: Let_def case_prod_beta i_def [symmetric])
qed simp

lemma runtimeInv_ApplyResult:
  "runtimeInv rules resolver rt \<Longrightarrow> ApplyResult rt obs = (rt', res) \<Longrightarrow> runtimeInv rules resolver rt'"
  using runtimeInv_applyLoop [of rules resolver rt obs] checkResult_timely [of rt "{}" None obs]
  by (auto simp: ApplyResult_def Let_def case_prod_beta split: option.splits)

lemma runtimeReached_inv: "runtimeReached rules resolver rt \<Longrightarrow> runtimeInv rules resolver rt"
  by (induction rule: runtimeReached.induct)
    (auto intro: Activate_inv runtimeInv_AdvanceRuntime runtimeInv_ApplyResult)

end
