(* ===== verification/EvaluationObs.thy ===== *)
theory EvaluationObs
  imports EvaluationInv
begin

text \<open>
  Lemmas on requests and observations: a request made from the activated rules is accepted by
  the runtime they reached, and the observations \<^verbatim>\<open>Evaluate\<close> builds are in canonical order
  and pass both validations.
\<close>

subsection \<open>The keys of a runtime\<close>

lemma runtimeInv_keys:
  assumes "runtimeInv rules resolver rt"
  shows "map avKey (ruActive rt) = map activeKey (sort_by activeRuleLess rules)"
    and "dom (ruByKey rt) = set (map activeKey rules)"
    and "sorted (map avKey (ruActive rt))" and "distinct (map avKey (ruActive rt))"
proof -
  show keys: "map avKey (ruActive rt) = map activeKey (sort_by activeRuleLess rules)"
    using assms by (auto simp: runtimeInv_def list_all2_conv_all_nth pinned_def activeKey_def
        intro!: nth_equalityI)
  have "dom (ruByKey rt) = set (map avKey (ruActive rt))"
    using assms by (force simp: runtimeInv_def indexed_def in_set_conv_nth)
  then show "dom (ruByKey rt) = set (map activeKey rules)"
    unfolding keys by (simp add: active_order.set_sort_by)
  show "sorted (map avKey (ruActive rt))"
    unfolding keys by (rule active_order.sorted_sort_by)
  show "distinct (map avKey (ruActive rt))"
    using assms by (auto simp: runtimeInv_def indexed_def distinct_conv_nth) (metis option.inject)
qed

subsection \<open>Requests\<close>

lemma checkActiveRules_ok:
  assumes "sorted (map activeKey rs)" and "distinct (map activeKey rs)"
    and "\<forall>r \<in> set rs. validateActiveRule r = None"
    and "\<And>q. prev = Some q \<Longrightarrow> activeKey q \<notin> activeKey ` set rs"
  shows "checkActiveRules prev rs = None"
  using assms
proof (induction rs arbitrary: prev)
  case (Cons r rs)
  have "checkActiveRules (Some r) rs = None" by (rule Cons.IH) (use Cons.prems in auto)
  moreover have "\<not> (arID q = arID r \<and> arRevision q = arRevision r)" if "prev = Some q" for q
    using Cons.prems(4) [OF that] by (simp add: activeKey_def)
  ultimately show ?case using Cons.prems(3) by (auto split: option.splits)
qed simp

lemma NewEvaluationRequest_Inr:
  "NewEvaluationRequest occ t rules = Inr req \<longleftrightarrow> validateOccurrence occ = None \<and> \<not> isZero t \<and>
     aoEffectiveAt occ \<le> t \<and> checkActiveRules None (sort_by activeRuleLess rules) = None \<and>
     req = \<lparr>erOccurrence = occ, erLogicalTime = t, erActiveRules = sort_by activeRuleLess rules\<rparr>"
  by (auto simp: NewEvaluationRequest_def Let_def split: option.splits)

lemma active_sort_idem [simp]:
  "sort_by activeRuleLess (sort_by activeRuleLess rs) = sort_by activeRuleLess rs"
  by (simp add: active_order.sort_by_eq sort_key_id_if_sorted)

text \<open>Building a request from a request gives the same request.\<close>

lemma NewEvaluationRequest_idem:
  assumes "NewEvaluationRequest occ t rules = Inr req"
  shows "NewEvaluationRequest (erOccurrence req) (erLogicalTime req) (erActiveRules req) = Inr req"
  using assms by (simp add: NewEvaluationRequest_Inr)

lemma runtimeInv_lookup:
  assumes "runtimeInv rules resolver rt" and "rl \<in> set (sort_by activeRuleLess rules)"
  obtains i where "ruByKey rt (arID rl, arRevision rl) = Some i" and "i < length (ruActive rt)"
    and "pinned resolver rl (ruActive rt ! i)"
proof -
  obtain i where "i < length (ruActive rt)" "pinned resolver rl (ruActive rt ! i)"
    using assms by (auto simp: runtimeInv_def list_all2_conv_all_nth in_set_conv_nth)
  then show ?thesis
    using assms(1) that [of i] by (auto simp: runtimeInv_def indexed_def pinned_def)
qed

lemma checkRevisions_ok:
  assumes "runtimeInv rules resolver rt" and "set rls \<subseteq> set (sort_by activeRuleLess rules)"
  shows "checkRevisions rt rls = None"
  using assms(2)
proof (induction rls)
  case (Cons rl rls)
  obtain i where "ruByKey rt (arID rl, arRevision rl) = Some i" "pinned resolver rl (ruActive rt ! i)"
    using Cons.prems by (auto intro: runtimeInv_lookup [OF assms(1), of rl])
  then show ?case using Cons by (simp add: pinned_def)
qed simp

lemma request_accepted:
  assumes "runtimeInv rules resolver rt" and "NewEvaluationRequest occ (ruLogical rt) rules = Inr req"
  shows "validateRequest rt req = None"
proof -
  have "erLogicalTime req = ruLogical rt" "erActiveRules req = sort_by activeRuleLess rules"
    using assms(2) by (auto simp: NewEvaluationRequest_Inr)
  moreover from this have "length (erActiveRules req) = length (ruActive rt)"
    using runtimeInv_length [OF assms(1)] by (simp add: active_order.sort_by_eq)
  ultimately show ?thesis
    using checkRevisions_ok [OF assms(1)]
    unfolding validateRequest_def NewEvaluationRequest_idem [OF assms(2)] by simp
qed

subsection \<open>Observations\<close>

definition observationRank :: "observation \<Rightarrow> string \<times> int \<times> string \<times> string \<times> nat \<times> string" where
  "observationRank ob = (RuleID (obsKey ob), Revision (obsKey ob), Kind (Subject (obsKey ob)),
     SubjID (Subject (obsKey ob)), directionCode (obsDirection ob), obsID ob)"

lemma directionCode_inject: "directionCode d = directionCode e \<longleftrightarrow> d = e"
  by (cases d; cases e) simp_all

interpretation observation_order: key_order lessObservation observationRank
  by unfold_locales
    (auto simp: lessObservation_def observationRank_def less_prod_def' Let_def directionCode_inject)

text \<open>What \<open>Evaluate\<close> builds before validation.\<close>

definition observationsOf ::
  "runtime \<Rightarrow> evaluation_request \<Rightarrow> resolved_target \<Rightarrow> evidence option \<Rightarrow> observation list"
where
  "observationsOf rt req target ev = concat (map (observeEntry req target ev) (ruActive rt))"

definition selects :: "resolved_target \<Rightarrow> activation \<Rightarrow> bool" where
  "selects target a \<longleftrightarrow> HasTarget (avPlan a) (rtKind target) (rtID target)"

definition keyFor :: "resolved_target \<Rightarrow> activation \<Rightarrow> condition_key" where
  "keyFor target a = ConditionKey (fst (avKey a)) (snd (avKey a)) (conditionSubject target)"

lemma observeEntry_fields:
  assumes "ob \<in> set (observeEntry req target ev a)"
  shows "selects target a" and "obsKey ob = keyFor target a"
    and "obsDirection ob = Trigger \<or> obsDirection ob = Clear"
    and "obsResult ob = RTrue \<or> obsResult ob = RFalse \<or> obsResult ob = Unknown"
    and "obsID ob = observationID (aoID (erOccurrence req)) (obsKey ob) (obsDirection ob)"
    and "obsEffectiveAt ob = aoEffectiveAt (erOccurrence req)"
    and "obsProcessingAt ob = erLogicalTime req"
proof -
  have [intro]: "conditionResult r \<noteq> RTrue \<Longrightarrow> conditionResult r \<noteq> Unknown \<Longrightarrow> conditionResult r = RFalse"
    for r by (cases r) auto
  show "selects target a" and "obsKey ob = keyFor target a"
    and "obsDirection ob = Trigger \<or> obsDirection ob = Clear"
    and "obsResult ob = RTrue \<or> obsResult ob = RFalse \<or> obsResult ob = Unknown"
    and "obsID ob = observationID (aoID (erOccurrence req)) (obsKey ob) (obsDirection ob)"
    and "obsEffectiveAt ob = aoEffectiveAt (erOccurrence req)"
    and "obsProcessingAt ob = erLogicalTime req"
    using assms
    by (auto simp: observeEntry_def Let_def selects_def keyFor_def evalObservation_def split: if_splits)
qed

lemma observationID_inject:
  "observationID i k d = observationID j k' d' \<longleftrightarrow> i = j \<and> k = k' \<and> directionString d = directionString d'"
  by (auto simp: observationID_def condition_key.expand subject_key.expand)

lemma observationsOf_sorted:
  assumes "sorted (map avKey as)" and "distinct (map avKey as)"
  shows "sorted (map observationRank (concat (map (observeEntry req target ev) as))) \<and>
    distinct (map obsID (concat (map (observeEntry req target ev) as)))"
  using assms
proof (induction as)
  case (Cons a as)
  have less: "avKey a < avKey b" if "b \<in> set as" for b
    using Cons.prems that by (auto simp: order.strict_iff_order)
  have later: "observationRank x \<le> observationRank y \<and> obsID x \<noteq> obsID y"
    if x: "x \<in> set (observeEntry req target ev a)" and y: "y \<in> set (concat (map (observeEntry req target ev) as))" for x y
  proof -
    obtain b where b: "b \<in> set as" "y \<in> set (observeEntry req target ev b)" using y by auto
    note X = observeEntry_fields [OF x] and Y = observeEntry_fields [OF b(2)]
    have k: "avKey a < avKey b" by (rule less [OF b(1)])
    then have "observationRank x \<le> observationRank y"
      by (auto simp: observationRank_def X(2) Y(2) keyFor_def less_prod_def' less_eq_prod_def split: prod.splits)
    moreover have "obsKey x \<noteq> obsKey y"
      using k by (auto simp: X(2) Y(2) keyFor_def less_prod_def')
    ultimately show ?thesis by (simp add: X(5) Y(5) observationID_inject)
  qed
  have "sorted (map observationRank (observeEntry req target ev a)) \<and>
      distinct (map obsID (observeEntry req target ev a))"
    by (simp add: observeEntry_def Let_def evalObservation_def observationRank_def observationID_inject
        less_eq_prod_def directionString_def)
  then show ?case
    using Cons later by (auto simp: sorted_append image_iff)
qed simp

text \<open>The observations pass both validations.\<close>

definition sourceOf :: "evaluation_request \<Rightarrow> string" where
  "sourceOf req = aoSourceEventID (erOccurrence req)"

lemma checkObservations_ok:
  assumes "\<forall>ob \<in> set obs. validateObservation req active ob =
      (if obsID ob = sourceOf req then Some ObservationIDIsSourceEventID else None)"
    and "distinct (map obsID obs)" and "\<forall>ob \<in> set obs. obsID ob \<notin> seen"
  shows "checkObservations req active seen obs =
    (if sourceOf req \<in> obsID ` set obs then Some ObservationIDIsSourceEventID else None)"
  using assms
proof (induction obs arbitrary: seen)
  case (Cons ob obs)
  have "checkObservations req active (insert (obsID ob) seen) obs =
      (if sourceOf req \<in> obsID ` set obs then Some ObservationIDIsSourceEventID else None)"
  proof (rule Cons.IH)
    show "\<forall>x \<in> set obs. obsID x \<notin> insert (obsID ob) seen"
      using Cons.prems(2,3) by (auto simp: rev_image_eqI)
  qed (use Cons.prems in auto)
  with Cons.prems show ?case by auto
qed simp

lemma checkResult_ok:
  assumes "\<forall>ob \<in> set obs. \<exists>i. ruByKey rt (RuleID (obsKey ob), Revision (obsKey ob)) = Some i \<and>
      HasTarget (avPlan (ruActive rt ! i)) (Kind (Subject (obsKey ob))) (SubjID (Subject (obsKey ob)))"
    and "\<forall>ob \<in> set obs. obsID ob \<noteq> [] \<and> obsProcessingAt ob = ruLogical rt \<and> \<not> isZero (obsEffectiveAt ob) \<and>
      obsEffectiveAt ob \<le> obsProcessingAt ob \<and> validObservation ob"
    and "distinct (map obsID obs)" and "\<forall>ob \<in> set obs. obsID ob \<notin> seen"
    and "sorted (map observationRank (case prev of None \<Rightarrow> obs | Some p \<Rightarrow> p # obs))"
  shows "checkResult rt seen prev obs = None"
  using assms
proof (induction obs arbitrary: seen prev)
  case (Cons ob obs)
  have ih: "checkResult rt (insert (obsID ob) seen) (Some ob) obs = None"
  proof (rule Cons.IH)
    show "\<forall>x \<in> set obs. obsID x \<notin> insert (obsID ob) seen"
      using Cons.prems(3,4) by (auto simp: rev_image_eqI)
  qed (use Cons.prems in \<open>auto split: option.splits\<close>)
  have "\<not> lessObservation ob p" if "prev = Some p" for p
    using Cons.prems(5) that by (auto simp: observation_order.lt_iff dest: leD)
  then have "\<not> (case prev of None \<Rightarrow> False | Some p \<Rightarrow> lessObservation ob p)" by (simp split: option.splits)
  then show ?case
    using Cons.prems(1-4) ih by (auto simp: Let_def validObservation_def)
qed simp

lemma Evaluate_observations:
  fixes provider :: evidence_provider
  assumes inv: "runtimeInv rules resolver rt"
    and req: "NewEvaluationRequest occ (ruLogical rt) rules = Inr req"
    and ev: "aoEvent occ = Some event" "occurrenceTarget event = Some target" "rtID target \<noteq> []"
  defines "obs \<equiv> observationsOf rt req target (case provider of None \<Rightarrow> None | Some p \<Rightarrow> p target)"
  shows "Evaluate rt req provider =
      (if aoSourceEventID occ \<in> obsID ` set obs then Inl (BadResult ObservationIDIsSourceEventID) else Inr obs)"
    and "checkResult rt {} None obs = None"
proof -
  have r: "erOccurrence req = occ" "erLogicalTime req = ruLogical rt"
      "erActiveRules req = sort_by activeRuleLess rules" "\<not> isZero (ruLogical rt)" "aoEffectiveAt occ \<le> ruLogical rt"
      "validateOccurrence occ = None"
    using req by (auto simp: NewEvaluationRequest_Inr)
  have eff: "\<not> isZero (aoEffectiveAt occ)"
    using r(6) by (auto simp: validateOccurrence_def split: if_splits)
  have keys: "map avKey (ruActive rt) = map activeKey (sort_by activeRuleLess rules)"
    using inv by (auto simp: runtimeInv_def list_all2_conv_all_nth pinned_def activeKey_def
        intro!: nth_equalityI)
  have sorted: "sorted (map observationRank obs)" and dist: "distinct (map obsID obs)"
    using observationsOf_sorted [of "ruActive rt" req target] runtimeInv_keys [OF inv]
    by (auto simp: obs_def observationsOf_def)
  have kind: "rtKind target = SubjectQueue \<or> rtKind target = SubjectAgent"
    using ev(2) by (cases event) auto
  have fields: "\<exists>a \<in> set (ruActive rt). ob \<in> set (observeEntry req target
      (case provider of None \<Rightarrow> None | Some p \<Rightarrow> p target) a)" if "ob \<in> set obs" for ob
    using that by (auto simp: obs_def observationsOf_def)
  define act where "act = set (map (\<lambda>r. (arID r, arRevision r)) (erActiveRules req))"
  have v: "validateObservation req act ob =
      (if obsID ob = sourceOf req then Some ObservationIDIsSourceEventID else None)" if ob: "ob \<in> set obs" for ob
  proof -
    obtain a where a: "a \<in> set (ruActive rt)" and in_a: "ob \<in> set (observeEntry req target
      (case provider of None \<Rightarrow> None | Some p \<Rightarrow> p target) a)" using fields [OF ob] by blast
    note f = observeEntry_fields [OF in_a]
    have "avKey a \<in> set (map activeKey (erActiveRules req))"
      using a keys by (metis image_eqI list.set_map r(3))
    then have "(RuleID (obsKey ob), Revision (obsKey ob)) \<in> act"
      by (simp add: act_def f(2) keyFor_def activeKey_def [abs_def])
    moreover have "obsID ob \<noteq> []" by (simp add: f(5) observationID_def)
    ultimately show ?thesis
      using f(3,4) kind eff ev(3) r(4,5)
      by (auto simp: validateObservation_def sourceOf_def f(2,6,7) keyFor_def conditionSubject_def r(1,2))
  qed
  have "sort_by lessObservation obs = obs"
    using sorted by (simp add: observation_order.sort_by_eq sort_key_id_if_sorted)
  then have "NewEvaluationResult req obs =
      (if aoSourceEventID occ \<in> obsID ` set obs then Inl ObservationIDIsSourceEventID else Inr obs)"
    unfolding NewEvaluationResult_def NewEvaluationRequest_idem [OF req] act_def [symmetric]
    using checkObservations_ok [of obs req act "{}", OF _ dist] v r(1) by (simp add: Let_def sourceOf_def)
  then show "Evaluate rt req provider =
      (if aoSourceEventID occ \<in> obsID ` set obs then Inl (BadResult ObservationIDIsSourceEventID) else Inr obs)"
    using request_accepted [OF inv req] ev(1,2)
    by (simp add: Evaluate_def r(1) Let_def obs_def [symmetric] observationsOf_def [symmetric])
  show "checkResult rt {} None obs = None"
  proof (rule checkResult_ok [OF _ _ dist])
    show "\<forall>ob \<in> set obs. \<exists>i. ruByKey rt (RuleID (obsKey ob), Revision (obsKey ob)) = Some i \<and>
        HasTarget (avPlan (ruActive rt ! i)) (Kind (Subject (obsKey ob))) (SubjID (Subject (obsKey ob)))"
    proof
      fix ob assume "ob \<in> set obs"
      then obtain a where a: "a \<in> set (ruActive rt)" and in_a: "ob \<in> set (observeEntry req target
        (case provider of None \<Rightarrow> None | Some p \<Rightarrow> p target) a)" using fields by blast
      note f = observeEntry_fields [OF in_a]
      obtain i where "i < length (ruActive rt)" "ruActive rt ! i = a" using a by (auto simp: in_set_conv_nth)
      moreover from this have "ruByKey rt (avKey a) = Some i" using inv by (auto simp: runtimeInv_def indexed_def)
      ultimately show "\<exists>i. ruByKey rt (RuleID (obsKey ob), Revision (obsKey ob)) = Some i \<and>
        HasTarget (avPlan (ruActive rt ! i)) (Kind (Subject (obsKey ob))) (SubjID (Subject (obsKey ob)))"
        using f(1) by (simp add: f(2) keyFor_def conditionSubject_def selects_def)
    qed
    show "\<forall>ob \<in> set obs. obsID ob \<noteq> [] \<and> obsProcessingAt ob = ruLogical rt \<and> \<not> isZero (obsEffectiveAt ob) \<and>
        obsEffectiveAt ob \<le> obsProcessingAt ob \<and> validObservation ob"
    proof
      fix ob assume "ob \<in> set obs"
      then obtain a where in_a: "ob \<in> set (observeEntry req target
        (case provider of None \<Rightarrow> None | Some p \<Rightarrow> p target) a)" using fields by blast
      note f = observeEntry_fields [OF in_a]
      show "obsID ob \<noteq> [] \<and> obsProcessingAt ob = ruLogical rt \<and> \<not> isZero (obsEffectiveAt ob) \<and>
        obsEffectiveAt ob \<le> obsProcessingAt ob \<and> validObservation ob"
        using f(3,4) eff r(5) by (auto simp: f(5,6,7) r observationID_def validObservation_def)
    qed
  qed (use sorted in simp_all)
qed

end
