(* ===== verification/EvaluationProps.thy ===== *)
theory EvaluationProps
  imports EvaluationObs RulesProps
begin

text \<open>
  The properties of the evaluation runtime: activation, the global timer order, the observations
  of an occurrence, and their application.
\<close>

subsection \<open>Well-formed definitions can be marshalled\<close>

lemma marshalDuration_ok: "\<not> timeDurationInvalid d \<Longrightarrow> marshalDuration d \<noteq> None"
  using canonicalDurationString_None [of d] by (simp add: marshalDuration_def)

lemma marshalOperand_ok: "has_type subject v t \<Longrightarrow> marshalOperand v \<noteq> None"
  by (cases rule: has_type.cases) (use marshalDuration_ok in \<open>auto simp: marshalOperand_def\<close>)

lemma marshalCompare_ok: "well_typed subject e \<Longrightarrow> marshalCompare e \<noteq> None"
  by (auto simp: marshalCompare_def split: option.splits elim!: well_typed.cases dest!: marshalOperand_ok)

lemma marshal_wf_compare: "wf_compare subject x \<Longrightarrow> marshalExpression x \<noteq> None"
  by (auto elim!: wf_compare.cases dest: marshalCompare_ok)

lemma marshalExpression_ok: "wf_expression subject x \<Longrightarrow> marshalExpression x \<noteq> None"
  by (induction rule: wf_expression.induct)
    (auto simp: sequenceOpt_None dest: marshal_wf_compare, (metis marshal_wf_compare)+)

lemma marshalDefinition_ok: "wf_definition d \<Longrightarrow> marshalDefinition d \<noteq> None"
  using marshalExpression_ok [of "tgKind (rdTargets d)" "cdPredicate (rdTrigger d)"]
    marshalExpression_ok [of "tgKind (rdTargets d)" "cdPredicate (rdClear d)"]
    marshalDuration_ok [of "cdFor (rdTrigger d)"] marshalDuration_ok [of "cdFor (rdClear d)"]
  by (auto simp: wf_definition_def wf_condition_def Let_def marshalDefinition_def marshalCondition_def
      split: option.splits)

subsection \<open>Activation\<close>

lemma wf_definition_durations:
  "wf_definition d \<Longrightarrow> 0 \<le> cdFor (rdTrigger d) \<and> 0 \<le> cdFor (rdClear d)"
  by (auto simp: wf_definition_def wf_condition_def Let_def timeDurationInvalid_def)

lemma activateOne_compiled:
  "activateOne rl resolver = (case Compile (arDefinition rl) resolver of
     Inl err \<Rightarrow> Inl (CompileFailed (arID rl) (arRevision rl) err)
   | Inr p \<Rightarrow> Inr \<lparr>avKey = activeKey rl, avSignature = the (marshalDefinition (arDefinition rl)),
       avPlan = p, avReducer = \<lparr>config = \<lparr>cfgRuleID = arID rl, cfgRevision = arRevision rl,
         cfgTriggerDuration = plTriggerFor p, cfgClearDuration = plClearFor p\<rparr>,
         states = [], seenOccurrences = {}, episodes = [], transitions = [], logical = 0\<rparr>\<rparr>)"
proof (cases "Compile (arDefinition rl) resolver")
  case (Inr p)
  then have wf: "wf_definition (arDefinition rl)" by (simp add: Compile_Inr)
  obtain sig where "marshalDefinition (arDefinition rl) = Some sig"
    using marshalDefinition_ok [OF wf] by blast
  with wf_definition_durations [OF wf] Compile_durations [OF Inr] show ?thesis
    by (auto simp: activateOne_def Inr definitionSignature_def New_def activeKey_def)
qed (simp add: activateOne_def)

definition activatable :: "group_resolver option \<Rightarrow> active_rule \<Rightarrow> bool" where
  "activatable resolver rl \<longleftrightarrow> arID rl \<noteq> [] \<and> 0 < arRevision rl \<and>
     (\<exists>p. Compile (arDefinition rl) resolver = Inr p)"

lemma activateLoop_succeeds:
  assumes "sorted (map activeKey rls)" and "\<And>p rl. prev = Some p \<Longrightarrow> rl \<in> set rls \<Longrightarrow> activeKey p \<le> activeKey rl"
  shows "(\<exists>rt'. activateLoop resolver prev rls rt = Inr rt') \<longleftrightarrow>
    list_all (activatable resolver) rls \<and> distinct (map activeKey rls) \<and>
    (case prev of None \<Rightarrow> True | Some p \<Rightarrow> activeKey p \<notin> activeKey ` set rls)"
  using assms
proof (induction rls arbitrary: prev rt)
  case (Cons rl rls)
  have ih: "(\<exists>rt'. activateLoop resolver (Some rl) rls rt = Inr rt') \<longleftrightarrow>
      list_all (activatable resolver) rls \<and> distinct (map activeKey rls) \<and> activeKey rl \<notin> activeKey ` set rls"
    for rt
    using Cons.IH [of "Some rl"] Cons.prems(1) by auto
  have same: "activeKey p \<in> activeKey ` set (rl # rls) \<longleftrightarrow> activeKey p = activeKey rl"
    if "prev = Some p" for p
  proof -
    have "activeKey p \<noteq> activeKey r" if "r \<in> set rls" "activeKey p \<noteq> activeKey rl" for r
      using Cons.prems(2) [OF \<open>prev = Some p\<close>] Cons.prems(1) that
      by (metis antisym list.set_intros(1) list.simps(9) sorted_simps(2) image_eqI set_map)
    then show ?thesis by auto
  qed
  show ?case
  proof (cases "activatable resolver rl \<and> (case prev of None \<Rightarrow> True | Some p \<Rightarrow> activeKey p \<noteq> activeKey rl)")
    case True
    then have "activateLoop resolver prev (rl # rls) rt = activateLoop resolver (Some rl) rls
        (rt\<lparr>ruActive := ruActive rt @ [projr (activateOne rl resolver)],
            ruByKey := (ruByKey rt)(avKey (projr (activateOne rl resolver)) \<mapsto> length (ruActive rt))\<rparr>)"
      by (auto simp: activatable_def activateOne_compiled activeKey_def split: option.splits)
    with True ih same show ?thesis by (auto split: option.splits)
  next
    case False
    then have "\<nexists>rt'. activateLoop resolver prev (rl # rls) rt = Inr rt'"
      by (auto simp: activatable_def activateOne_compiled activeKey_def split: option.splits sum.splits if_splits)
    with False same show ?thesis by (auto split: option.splits)
  qed
qed (simp split: option.splits)

lemma activateLoop_errors:
  "activateLoop resolver prev rls rt = Inl err \<Longrightarrow>
     err \<noteq> ReducerPanic \<and> err \<notin> range (case_prod SignatureFailed)"
  by (induction rls arbitrary: prev rt)
    (auto simp: activateOne_compiled split: if_splits sum.splits)

text \<open>Activation accepts exactly the sets of rules that have non-empty identifiers and positive
  revisions, compile with the given resolver, and do not repeat an identifier and revision. An
  accepted set gives one activation per rule, in the order of identifiers and revisions, with an
  index that finds each, and a compiled definition can neither fail to marshal nor make the
  reducer's constructor panic.\<close>

theorem activation_decides:
  "((\<exists>rt. Activate rules resolver = Inr rt) \<longleftrightarrow>
      list_all (activatable resolver) rules \<and> distinct (map activeKey rules)) \<and>
   (case Activate rules resolver of
      Inl err \<Rightarrow> err \<noteq> ReducerPanic \<and> err \<notin> range (case_prod SignatureFailed)
    | Inr rt \<Rightarrow> map avKey (ruActive rt) = map activeKey (sort_by activeRuleLess rules) \<and>
        sorted (map avKey (ruActive rt)) \<and> ruLogical rt = 0 \<and>
        dom (ruByKey rt) = set (map activeKey rules))"
proof (rule conjI)
  have "sorted (map activeKey (sort_by activeRuleLess rules))" by (rule active_order.sorted_sort_by)
  from activateLoop_succeeds [OF this, of None resolver] show "(\<exists>rt. Activate rules resolver = Inr rt) \<longleftrightarrow>
      list_all (activatable resolver) rules \<and> distinct (map activeKey rules)"
    by (auto simp: Activate_def list_all_iff active_order.sort_by_eq distinct_map)
next
  show "case Activate rules resolver of
      Inl err \<Rightarrow> err \<noteq> ReducerPanic \<and> err \<notin> range (case_prod SignatureFailed)
    | Inr rt \<Rightarrow> map avKey (ruActive rt) = map activeKey (sort_by activeRuleLess rules) \<and>
        sorted (map avKey (ruActive rt)) \<and> ruLogical rt = 0 \<and>
        dom (ruByKey rt) = set (map activeKey rules)"
  proof (cases "Activate rules resolver")
    case (Inl err)
    then show ?thesis by (simp add: Activate_def activateLoop_errors)
  next
    case (Inr rt)
    moreover have "ruLogical rt = 0"
      using Inr activateLoop_inv [of resolver None "sort_by activeRuleLess rules" _ rt "[]"]
      by (simp add: Activate_def indexed_def active_order.sorted_sort_by)
    ultimately show ?thesis using runtimeInv_keys [OF Activate_inv [OF Inr]] by simp
  qed
qed

subsection \<open>The global order of timers\<close>

text \<open>A concrete runtime for the witnesses: one rule, waiting for its trigger duration.\<close>

definition demoActive :: "active_rule list" where
  "demoActive = [\<lparr>arID = ''r'', arRevision = 1, arDefinition = demoRule\<rparr>]"

definition demoRuntime :: runtime where
  "demoRuntime = projr (Activate demoActive (Some demoResolver))"

definition demoClock :: runtime where
  "demoClock = fst (advanceReducers demoRuntime 100)\<lparr>ruLogical := 100\<rparr>"

definition demoTrue :: observation where
  "demoTrue = \<lparr>obsKey = ConditionKey ''r'' 1 (SubjectKey ''queue'' ''q2''), obsDirection = Trigger,
     obsResult = RTrue, obsEffectiveAt = 90, obsProcessingAt = 100, obsEvidenceAt = 90,
     obsTrueSince = 0, obsID = ''o'', obsReason = []\<rparr>"

definition demoWaiting :: runtime where
  "demoWaiting = fst (ApplyResult demoClock [demoTrue])"

lemma demoRuntime_activated: "Activate demoActive (Some demoResolver) = Inr demoRuntime"
proof -
  have "\<not> isl (Activate demoActive (Some demoResolver))" by code_simp
  then show ?thesis unfolding demoRuntime_def by simp
qed

lemma demoRuntime_reached: "runtimeReached demoActive (Some demoResolver) demoRuntime"
  by (rule runtimeReached.activated [OF demoRuntime_activated])

lemma demoRuntime_clock: "ruLogical demoRuntime = 0"
  by code_simp

lemma demoClock_reached: "runtimeReached demoActive (Some demoResolver) demoClock"
proof -
  have "ruLogical demoRuntime \<le> 100" by (simp add: demoRuntime_clock)
  then obtain out where "AdvanceRuntime demoRuntime 100 = Some (demoClock, Inr out)"
    using AdvanceRuntime_merges [OF runtimeInv_ready [OF runtimeReached_inv [OF demoRuntime_reached]], of 100]
    by (auto simp: demoClock_def)
  then show ?thesis by (intro runtimeReached.advanced [OF demoRuntime_reached, of 100]) simp
qed

lemma demoClock_accepts: "\<exists>ts. ApplyResult demoClock [demoTrue] = (demoWaiting, Inr ts)"
proof -
  have "\<not> isl (snd (ApplyResult demoClock [demoTrue]))" by code_simp
  then show ?thesis
    unfolding demoWaiting_def by (metis prod.collapse sum.collapse(2))
qed

lemma demoWaiting_reached: "runtimeReached demoActive (Some demoResolver) demoWaiting"
  using runtimeReached.applied [OF demoClock_reached] demoClock_accepts by blast

lemma demoWaiting_timers:
  "map (\<lambda>a. timers (avReducer a)) (ruActive demoWaiting) =
     [[\<lparr>tmKey = obsKey demoTrue, tmDirection = Trigger, tmDueAt = 90 + 5 * minute, tmAttempt = 1\<rparr>]]"
  by code_simp

text \<open>C12. Advancing a runtime returns, and is the merge of its reducers: whatever runtime an
  activation set has reached, advancing it to a clock that is not earlier leaves every reducer
  as its own \<^verbatim>\<open>Advance\<close> leaves it, and emits exactly the transitions those advances
  emit, in the global order of due time, rule, revision, subject and attempt.\<close>

theorem advance_merges_reducers:
  assumes "runtimeReached rules resolver rt" and "0 < now" and "ruLogical rt \<le> now"
  shows "case AdvanceRuntime rt now of
      Some (rt', Inr out) \<Rightarrow>
        map avReducer (ruActive rt') = map (\<lambda>a. fst (Advance (avReducer a) now)) (ruActive rt) \<and>
        map avKey (ruActive rt') = map avKey (ruActive rt) \<and> ruLogical rt' = now \<and>
        mset out = mset (concat (map (\<lambda>a. snd (Advance (avReducer a) now)) (ruActive rt))) \<and>
        sorted (map transitionRank out)
    | _ \<Rightarrow> False"
proof -
  obtain out where "AdvanceRuntime rt now = Some (fst (advanceReducers rt now)\<lparr>ruLogical := now\<rparr>, Inr out)"
    "mset out = mset (snd (advanceReducers rt now))" "sorted (map transitionRank out)"
    using AdvanceRuntime_merges [OF runtimeInv_ready [OF runtimeReached_inv [OF assms(1)] assms(2,3)]] assms(3)
    by blast
  then show ?thesis by (simp add: advanceReducers_def comp_def)
qed

theorem advance_merges_reducers_witness:
  "\<exists>rt' t. AdvanceRuntime demoWaiting hour = Some (rt', Inr [t]) \<and> trAt t = 90 + 5 * minute \<and>
     ruLogical rt' = hour"
proof -
  let ?tm = "\<lparr>tmKey = obsKey demoTrue, tmDirection = Trigger, tmDueAt = 90 + 5 * minute, tmAttempt = 1\<rparr>"
  obtain a where a: "ruActive demoWaiting = [a]" "timers (avReducer a) = [?tm]"
    using demoWaiting_timers by auto
  note inv = runtimeReached_inv [OF demoWaiting_reached]
  have clock: "ruLogical demoWaiting = 100" by code_simp
  have "invKeys (avReducer a)" "logical (avReducer a) \<le> 100"
    using runtimeInv_invKeys [OF inv] inv by (simp_all add: a runtimeInv_def clocked_def clock)
  then have "snd (Advance (avReducer a) hour) = [firedTransition (avReducer a) hour ?tm]"
    by (simp add: Advance_spec(1) a(2) isZero_def max_def)
  then show ?thesis
    using advance_merges_reducers [OF demoWaiting_reached, of hour]
    by (auto simp: clock a(1) firedTransition_def split: option.splits sum.splits)
qed

subsection \<open>A runtime is the product of its reducers\<close>

definition ofRule :: "activation \<Rightarrow> observation \<Rightarrow> bool" where
  "ofRule a ob \<longleftrightarrow> avKey a = (RuleID (obsKey ob), Revision (obsKey ob))"

lemma applyLoop_product:
  assumes "runtimeInv rules resolver rt" and "\<forall>ob \<in> set obs. timely rt ob"
  shows "ruActive (fst (applyLoop rt obs)) =
    map (\<lambda>a. a\<lparr>avReducer := fst (run Apply (avReducer a) (filter (ofRule a) obs))\<rparr>) (ruActive rt)"
  using assms
proof (induction obs arbitrary: rt)
  case Nil
  then show ?case by (simp add: map_idI)
next
  case (Cons ob obs)
  define i where "i = indexOf rt (obsKey ob)"
  define red where "red = fst (Apply (avReducer (ruActive rt ! i)) ob)"
  have ix: "ruByKey rt (RuleID (obsKey ob), Revision (obsKey ob)) = Some i"
    using Cons.prems(2) by (auto simp: timely_def i_def indexOf_def)
  have i: "i < length (ruActive rt)" and key: "avKey (ruActive rt ! i) = (RuleID (obsKey ob), Revision (obsKey ob))"
    using Cons.prems(1) ix by (auto simp: runtimeInv_def indexed_def)
  have only: "ofRule (ruActive rt ! j) ob \<longleftrightarrow> j = i" if "j < length (ruActive rt)" for j
    using Cons.prems(1) ix that key by (auto simp: ofRule_def runtimeInv_def indexed_def)
  have "runtimeInv rules resolver (fst (applyLoop rt [ob]))"
    by (rule runtimeInv_applyLoop [OF Cons.prems(1)]) (use Cons.prems(2) in simp)
  then have inv: "runtimeInv rules resolver (setReducer rt i red)"
    by (simp add: Let_def case_prod_beta i_def red_def)
  have "\<forall>ob \<in> set obs. timely (setReducer rt i red) ob"
    using Cons.prems(2) by (simp add: timely_def)
  from Cons.IH [OF inv this] have ih: "ruActive (fst (applyLoop (setReducer rt i red) obs)) =
      map (\<lambda>a. a\<lparr>avReducer := fst (run Apply (avReducer a) (filter (ofRule a) obs))\<rparr>)
        (ruActive (setReducer rt i red))" .
  have "fst (applyLoop rt (ob # obs)) = fst (applyLoop (setReducer rt i red) obs)"
    by (simp add: Let_def case_prod_beta i_def red_def)
  moreover have "ruActive (fst (applyLoop (setReducer rt i red) obs)) =
      map (\<lambda>a. a\<lparr>avReducer := fst (run Apply (avReducer a) (filter (ofRule a) (ob # obs)))\<rparr>) (ruActive rt)"
    (is "?l = ?r")
  proof (rule nth_equalityI)
    show "length ?l = length ?r" unfolding ih by (simp add: setReducer_def)
  next
    fix j assume "j < length ?l"
    then have j: "j < length (ruActive rt)" unfolding ih by (simp add: setReducer_def)
    show "?l ! j = ?r ! j"
    proof (cases "j = i")
      case True
      have "ofRule (ruActive rt ! i) ob" using only [OF i] by simp
      moreover have "ofRule ((ruActive rt ! i)\<lparr>avReducer := red\<rparr>) = ofRule (ruActive rt ! i)"
        by (simp add: ofRule_def fun_eq_iff)
      ultimately show ?thesis
        unfolding ih using i by (simp add: True setReducer_def red_def Let_def case_prod_beta)
    next
      case False
      then have "\<not> ofRule (ruActive rt ! j) ob" using only [OF j] by simp
      then show ?thesis unfolding ih using j False by (simp add: setReducer_def)
    qed
  qed
  ultimately show ?case by simp
qed

lemma ApplyResult_Inr:
  assumes "runtimeInv rules resolver rt" and "ApplyResult rt obs = (rt', Inr ts)"
  shows "ruActive rt' = map (\<lambda>a. a\<lparr>avReducer := fst (run Apply (avReducer a) (filter (ofRule a) obs))\<rparr>)
      (ruActive rt)" and "\<forall>ob \<in> set obs. timely rt ob"
proof -
  have c: "checkResult rt {} None obs = None" and a: "applyLoop rt obs = (rt', ts)"
    using assms(2) by (auto simp: ApplyResult_def Let_def case_prod_beta split: option.splits)
  show "\<forall>ob \<in> set obs. timely rt ob" using checkResult_timely [OF c] by blast
  then show "ruActive rt' = map (\<lambda>a. a\<lparr>avReducer := fst (run Apply (avReducer a) (filter (ofRule a) obs))\<rparr>)
      (ruActive rt)"
    using applyLoop_product [OF assms(1), of obs] by (simp add: a)
qed

text \<open>C14. Rules do not interfere: applying an accepted result to a runtime leaves every rule's
  reducer in the state it reaches by applying, in order, only the observations of its own
  identifier and revision; the index and the clock stay as they were. A rejected result changes
  nothing.\<close>

theorem rules_do_not_interfere:
  assumes "runtimeReached rules resolver rt"
  shows "case ApplyResult rt obs of
      (rt', Inl _) \<Rightarrow> rt' = rt
    | (rt', Inr _) \<Rightarrow>
        map avReducer (ruActive rt') =
          map (\<lambda>a. fst (run Apply (avReducer a) (filter (ofRule a) obs))) (ruActive rt) \<and>
        map avKey (ruActive rt') = map avKey (ruActive rt) \<and>
        ruByKey rt' = ruByKey rt \<and> ruLogical rt' = ruLogical rt"
proof -
  have frame: "ruByKey (fst (applyLoop rt obs)) = ruByKey rt \<and> ruLogical (fst (applyLoop rt obs)) = ruLogical rt"
    for rt by (induction obs arbitrary: rt) (simp_all add: Let_def case_prod_beta)
  obtain rt' res where a: "ApplyResult rt obs = (rt', res)" by fastforce
  show ?thesis
  proof (cases res)
    case (Inl err)
    with a show ?thesis by (auto simp: ApplyResult_def Let_def case_prod_beta split: option.splits)
  next
    case (Inr ts)
    have "rt' = fst (applyLoop rt obs)"
      using a Inr by (auto simp: ApplyResult_def Let_def case_prod_beta split: option.splits)
    with frame a Inr ApplyResult_Inr(1) [OF runtimeReached_inv [OF assms], of obs rt' ts]
    show ?thesis by (simp add: comp_def)
  qed
qed

theorem rules_do_not_interfere_witness:
  "\<exists>ts. ApplyResult demoClock [demoTrue] = (demoWaiting, Inr ts) \<and>
     map avReducer (ruActive demoWaiting) = map (\<lambda>a. fst (Apply (avReducer a) demoTrue)) (ruActive demoClock)"
proof -
  have "list_all (\<lambda>a. ofRule a demoTrue) (ruActive demoClock)" by code_simp
  then show ?thesis
    using demoClock_accepts rules_do_not_interfere [OF demoClock_reached, of "[demoTrue]"]
    by (auto simp: list_all_iff case_prod_beta Let_def)
qed

subsection \<open>From an occurrence to transitions\<close>

text \<open>C19. An admitted occurrence is evaluated for exactly the rules that select its subject. Given a
  request made from the activated rules at the runtime's clock, \<^verbatim>\<open>Evaluate\<close> returns, in
  canonical order and for each selecting rule, one trigger and one clear observation of that
  subject, at the occurrence's effective time and the logical time, unknown when there is no
  evidence; the only way it can fail is an observation identifier that equals the source's own
  event identifier.\<close>

theorem evaluate_observes_active_rules:
  fixes provider :: evidence_provider
  assumes "runtimeReached rules resolver rt"
    and "NewEvaluationRequest occ (ruLogical rt) rules = Inr req"
    and "aoEvent occ = Some event" and "occurrenceTarget event = Some target" and "rtID target \<noteq> []"
  shows "let ev = (case provider of None \<Rightarrow> None | Some p \<Rightarrow> p target);
             obs = concat (map (observeEntry req target ev) (ruActive rt))
         in Evaluate rt req provider = (if aoSourceEventID occ \<in> obsID ` set obs
              then Inl (BadResult ObservationIDIsSourceEventID) else Inr obs) \<and>
            map (\<lambda>ob. (obsKey ob, obsDirection ob, obsEffectiveAt ob, obsProcessingAt ob)) obs =
              concat (map (\<lambda>a. map (\<lambda>d. (keyFor target a, d, aoEffectiveAt occ, ruLogical rt)) [Trigger, Clear])
                (filter (selects target) (ruActive rt))) \<and>
            (ev = None \<longrightarrow> list_all (\<lambda>ob. obsResult ob = Unknown) obs)"
proof -
  let ?ev = "case provider of None \<Rightarrow> None | Some p \<Rightarrow> p target"
  note inv = runtimeReached_inv [OF assms(1)]
  have r: "erOccurrence req = occ" "erLogicalTime req = ruLogical rt"
    using assms(2) by (auto simp: NewEvaluationRequest_Inr)
  have "map (\<lambda>ob. (obsKey ob, obsDirection ob, obsEffectiveAt ob, obsProcessingAt ob))
        (concat (map (observeEntry req target ?ev) as)) =
      concat (map (\<lambda>a. map (\<lambda>d. (keyFor target a, d, aoEffectiveAt occ, ruLogical rt)) [Trigger, Clear])
        (filter (selects target) as))" for as
    by (induction as) (simp_all add: observeEntry_def selects_def keyFor_def evalObservation_def Let_def r)
  moreover have "list_all (\<lambda>ob. obsResult ob = Unknown) (concat (map (observeEntry req target None) as))" for as
    by (induction as) (simp_all add: observeEntry_def evalObservation_def Let_def)
  ultimately show ?thesis
    using Evaluate_observations(1) [OF inv assms(2-5), of provider]
    by (simp add: Let_def observationsOf_def)
qed

text \<open>The request of the witnesses: a snapshot of the queue that the rule selects.\<close>

definition demoSnapshot :: queue_snapshot where
  "demoSnapshot = \<lparr>qsCommon = \<lparr>evEventID = ''e7'', evTimestamp = 90, evType = ''queue_snapshot''\<rparr>,
     qsQueueID = ''q2'', qsTicketsWaiting = 3, qsLongestWaitSec = 90, qsSLATargetSec = 60,
     qsAgentsAvailable = 1, qsAgentsOnCall = 2, qsVolumeLast15m = 4, qsVolumeForecastNext15m = None\<rparr>"

definition demoOccurrence :: accepted_occurrence where
  "demoOccurrence = \<lparr>aoID = ''s:1'', aoSource = ''s'', aoIdempotencyKey = ''s:1'', aoIngestPosition = 1,
     aoSourceEventID = ''e7'', aoEffectiveAt = 90, aoEvent = Some (QueueSnapshot demoSnapshot), aoRaw = ''{}''\<rparr>"

definition demoRequest :: evaluation_request where
  "demoRequest = \<lparr>erOccurrence = demoOccurrence, erLogicalTime = 100, erActiveRules = demoActive\<rparr>"

lemma demoRequest_ok: "NewEvaluationRequest demoOccurrence (ruLogical demoClock) demoActive = Inr demoRequest"
proof -
  have "validateActiveRule (hd demoActive) = None" by code_simp
  moreover have "validateOccurrence demoOccurrence = None"
    by (simp add: validateOccurrence_def demoOccurrence_def demoSnapshot_def isZero_def)
  ultimately show ?thesis
    by (simp add: NewEvaluationRequest_Inr demoClock_def demoRequest_def demoActive_def sort_by_def
        demoOccurrence_def isZero_def)
qed

lemma demoClock_selects: "list_all (selects \<lparr>rtKind = ''queue'', rtID = ''q2''\<rparr>) (ruActive demoClock) \<and>
    length (ruActive demoClock) = 1"
  by code_simp

theorem evaluate_observes_active_rules_witness:
  "\<exists>obs. Evaluate demoClock demoRequest None = Inr obs \<and> map obsDirection obs = [Trigger, Clear] \<and>
     map obsResult obs = [Unknown, Unknown]"
proof -
  let ?t = "\<lparr>rtKind = ''queue'', rtID = ''q2''\<rparr>"
  obtain a where a: "ruActive demoClock = [a]" "HasTarget (avPlan a) ''queue'' ''q2''"
    using demoClock_selects by (auto simp: selects_def length_Suc_conv)
  have "aoEvent demoOccurrence = Some (QueueSnapshot demoSnapshot)"
    "occurrenceTarget (QueueSnapshot demoSnapshot) = Some ?t"
    by (simp_all add: demoOccurrence_def demoSnapshot_def)
  from evaluate_observes_active_rules [OF demoClock_reached demoRequest_ok this, of None] show ?thesis
    by (simp add: a observeEntry_def evalObservation_def Let_def observationID_def stableID_def demoOccurrence_def)
qed

text \<open>The stages fit together: whatever \<^verbatim>\<open>Evaluate\<close> returns for a request made from the
  activated rules at the runtime's clock, \<^verbatim>\<open>Apply\<close> accepts, so no evaluated occurrence
  is lost between the two.\<close>

theorem evaluated_result_applies:
  fixes provider :: evidence_provider
  assumes "runtimeReached rules resolver rt"
    and "NewEvaluationRequest occ (ruLogical rt) rules = Inr req"
    and "aoEvent occ = Some event" and "occurrenceTarget event = Some target" and "rtID target \<noteq> []"
    and "Evaluate rt req provider = Inr obs"
  shows "\<exists>rt' ts. ApplyResult rt obs = (rt', Inr ts)"
  using Evaluate_observations [OF runtimeReached_inv [OF assms(1)] assms(2-5), of provider] assms(6)
  by (auto simp: ApplyResult_def Let_def case_prod_beta split: if_splits)

theorem evaluated_result_applies_witness:
  "\<exists>obs rt' ts. Evaluate demoClock demoRequest None = Inr obs \<and> length obs = 2 \<and>
     ApplyResult demoClock obs = (rt', Inr ts)"
proof -
  let ?t = "\<lparr>rtKind = ''queue'', rtID = ''q2''\<rparr>"
  have d: "aoEvent demoOccurrence = Some (QueueSnapshot demoSnapshot)"
    "occurrenceTarget (QueueSnapshot demoSnapshot) = Some ?t" "rtID ?t \<noteq> []"
    by (simp_all add: demoOccurrence_def demoSnapshot_def)
  obtain a where a: "ruActive demoClock = [a]" "HasTarget (avPlan a) ''queue'' ''q2''"
    using demoClock_selects by (auto simp: selects_def length_Suc_conv)
  have "Evaluate demoClock demoRequest None = Inr (observeEntry demoRequest ?t None a)"
    using Evaluate_observations(1) [OF runtimeReached_inv [OF demoClock_reached] demoRequest_ok d, of None]
    by (simp add: observationsOf_def a observeEntry_def evalObservation_def Let_def observationID_def
        stableID_def demoOccurrence_def)
  with evaluated_result_applies [OF demoClock_reached demoRequest_ok d this] show ?thesis
    by (simp add: a observeEntry_def Let_def)
qed

end
