(* ===== verification/Events.thy ===== *)
theory Events
  imports App Json
begin

text \<open>
  The strict event decoder and the line reader of \<^verbatim>\<open>internal/events/events.go\<close>.
  \<open>Decode\<close> works on the JSON value of a line; turning the bytes of a line into that value,
  and failing on a syntax error or trailing data, is \<^verbatim>\<open>encoding/json\<close>'s and an argument of
  \<open>Stream\<close>. Where the program ranges over a Go map to find an unknown or a missing field,
  which one it names is not determined, and the error does not name one.
\<close>

subsection \<open>Fields\<close>

datatype field_problem = MustBeString | MustBeNonEmptyString | StringTooLong | MustBeNonnegativeInteger
  | MustBeTimestamp | UnknownAgentState string | MustBeBoolean | MustBeStringArray
  | ItemEmpty nat | ItemTooLong nat | ItemDuplicate nat

datatype event_error = DuplicateField string | NotAnObject | UnknownEventType string
  | UnknownField | MissingField | FieldError string field_problem

text \<open>The object as a Go map from names to raw values; a missing key reads as the nil slice.\<close>

type_synonym json_object = "string \<rightharpoonup> json"

definition isNullField :: "json_object \<Rightarrow> string \<Rightarrow> bool" where
  "isNullField o' k \<longleftrightarrow> o' k = Some JNull"

definition str :: "json_object \<Rightarrow> string \<Rightarrow> event_error + string" where
  "str o' k =
     (if isNullField o' k then Inl (FieldError k MustBeString)
      else case Option.bind (o' k) asString of
        None \<Rightarrow> Inl (FieldError k MustBeNonEmptyString)
      | Some v \<Rightarrow> if v = [] then Inl (FieldError k MustBeNonEmptyString)
          else if length v > 256 then Inl (FieldError k StringTooLong) else Inr v)"

definition uint :: "json_object \<Rightarrow> string \<Rightarrow> event_error + u64" where
  "uint o' k = (case o' k of
       Some (JNum t) \<Rightarrow> (case parseUint64 t of
           None \<Rightarrow> Inl (FieldError k MustBeNonnegativeInteger) | Some n \<Rightarrow> Inr (of_nat n))
     | _ \<Rightarrow> Inl (FieldError k MustBeNonnegativeInteger))"

text \<open>A nullable field: null is the nil pointer.\<close>

definition nullable ::
  "(json_object \<Rightarrow> string \<Rightarrow> event_error + 'a) \<Rightarrow> json_object \<Rightarrow> string \<Rightarrow> event_error + 'a option"
where
  "nullable get o' k = (if isNullField o' k then Inr None
     else case get o' k of Inl err \<Rightarrow> Inl err | Inr v \<Rightarrow> Inr (Some v))"

subsection \<open>Timestamps\<close>

text \<open>
  \<^verbatim>\<open>strictTimestamp\<close> fixes the places of the digits and separators; \<open>timeVal\<close> reads
  them and checks the ranges that \<^verbatim>\<open>time.Parse\<close> and the check of the offset impose.
  Digits of the fraction after the ninth are dropped, as \<^verbatim>\<open>time.Parse\<close> does.
\<close>

definition twoDigits :: "string \<Rightarrow> nat \<Rightarrow> nat" where
  "twoDigits s i = decimal_value (take 2 (drop i s))"

definition digitsAt :: "string \<Rightarrow> nat list \<Rightarrow> bool" where
  "digitsAt s is \<longleftrightarrow> list_all (\<lambda>i. isDigit (s ! i)) is"

text \<open>The zone of a time stamp in seconds east of UTC, if it is one and in range.\<close>

definition zoneSeconds :: "string \<Rightarrow> int option" where
  "zoneSeconds z =
     (if z = ''Z'' then Some 0
      else if length z = 6 \<and> (z ! 0 = CHR ''+'' \<or> z ! 0 = CHR ''-'') \<and> z ! 3 = CHR '':'' \<and>
          digitsAt z [1, 2, 4, 5]
        then (if twoDigits z 1 > 23 \<or> twoDigits z 4 > 59 then None
          else let m = int (twoDigits z 1 * 60 + twoDigits z 4) * 60
               in Some (if z ! 0 = CHR ''-'' then - m else m))
      else None)"

text \<open>The fraction and the zone, the part after the seconds.\<close>

definition fractionNanos :: "string \<Rightarrow> nat" where
  "fractionNanos ds = decimal_value (take 9 (ds @ replicate 9 (CHR ''0'')))"

definition fractionAndZone :: "string \<Rightarrow> (nat \<times> int) option" where
  "fractionAndZone r =
     (if r \<noteq> [] \<and> hd r = CHR ''.'' then
        (let ds = takeWhile isDigit (tl r); z = dropWhile isDigit (tl r)
         in if ds = [] then None else map_option (\<lambda>s. (fractionNanos ds, s)) (zoneSeconds z))
      else map_option (\<lambda>s. (0, s)) (zoneSeconds r))"

definition isLeap :: "int \<Rightarrow> bool" where
  "isLeap y \<longleftrightarrow> y mod 4 = 0 \<and> (y mod 100 \<noteq> 0 \<or> y mod 400 = 0)"

definition daysIn :: "int \<Rightarrow> nat \<Rightarrow> nat" where
  "daysIn y m = (if m = 2 then if isLeap y then 29 else 28
     else if m = 4 \<or> m = 6 \<or> m = 9 \<or> m = 11 then 30 else 31)"

text \<open>Days from 1 January of year 1 to a date of the Gregorian calendar.\<close>

definition daysBeforeYear :: "int \<Rightarrow> int" where
  "daysBeforeYear y = 365 * (y - 1) + (y - 1) div 4 - (y - 1) div 100 + (y - 1) div 400"

definition daysBeforeMonth :: "int \<Rightarrow> nat \<Rightarrow> nat" where
  "daysBeforeMonth y m = sum_list (map (daysIn y) [1..<m])"

definition dayNumber :: "int \<Rightarrow> nat \<Rightarrow> nat \<Rightarrow> int" where
  "dayNumber y m d = daysBeforeYear y + int (daysBeforeMonth y m) + int (d - 1)"

definition parseTimestamp :: "string \<Rightarrow> gotime option" where
  "parseTimestamp s =
     (if length s < 20 \<or> \<not> digitsAt s [0, 1, 2, 3, 5, 6, 8, 9, 11, 12, 14, 15, 17, 18] \<or>
         s ! 4 \<noteq> CHR ''-'' \<or> s ! 7 \<noteq> CHR ''-'' \<or> s ! 10 \<noteq> CHR ''T'' \<or> s ! 13 \<noteq> CHR '':'' \<or> s ! 16 \<noteq> CHR '':''
      then None
      else let y = int (decimal_value (take 4 s)); mo = twoDigits s 5; d = twoDigits s 8;
               h = twoDigits s 11; mi = twoDigits s 14; sec = twoDigits s 17
        in if mo < 1 \<or> mo > 12 \<or> d < 1 \<or> d > daysIn y mo \<or> h > 23 \<or> mi > 59 \<or> sec > 59 then None
           else map_option (\<lambda>(nanos, zone).
               (dayNumber y mo d * 86400 + (int h * 3600 + int mi * 60 + int sec) - zone) * 1000000000 + int nanos)
             (fractionAndZone (drop 19 s)))"

definition timeVal :: "json_object \<Rightarrow> string \<Rightarrow> event_error + gotime" where
  "timeVal o' k = (case Option.bind (o' k) asString of
       None \<Rightarrow> Inl (FieldError k MustBeTimestamp)
     | Some v \<Rightarrow> (case parseTimestamp v of None \<Rightarrow> Inl (FieldError k MustBeTimestamp) | Some t \<Rightarrow> Inr t))"

subsection \<open>States, booleans, arrays\<close>

definition state :: "json_object \<Rightarrow> string \<Rightarrow> event_error + string" where
  "state o' k = (case str o' k of Inl err \<Rightarrow> Inl err
     | Inr s \<Rightarrow> if \<not> validState s then Inl (FieldError k (UnknownAgentState s)) else Inr s)"

definition boolean :: "json_object \<Rightarrow> string \<Rightarrow> event_error + bool" where
  "boolean o' k = (case Option.bind (o' k) asBool of None \<Rightarrow> Inl (FieldError k MustBeBoolean) | Some b \<Rightarrow> Inr b)"

fun checkItems :: "string \<Rightarrow> nat \<Rightarrow> string set \<Rightarrow> string list \<Rightarrow> event_error option" where
  "checkItems k i seen [] = None"
| "checkItems k i seen (v # vs) =
     (if v = [] then Some (FieldError k (ItemEmpty i))
      else if length v > 256 then Some (FieldError k (ItemTooLong i))
      else if v \<in> seen then Some (FieldError k (ItemDuplicate i))
      else checkItems k (i + 1) (insert v seen) vs)"

text \<open>A nil slice and an empty one are both the empty list.\<close>

definition stringsArr :: "json_object \<Rightarrow> string \<Rightarrow> bool \<Rightarrow> event_error + string list" where
  "stringsArr o' k nullable' =
     (if isNullField o' k then (if nullable' then Inr [] else Inl (FieldError k MustBeStringArray))
      else case Option.bind (o' k) asStrings of
        None \<Rightarrow> Inl (FieldError k MustBeStringArray)
      | Some vs \<Rightarrow> (case checkItems k 0 {} vs of Some err \<Rightarrow> Inl err | None \<Rightarrow> Inr vs))"

subsection \<open>Decoding an event\<close>

text \<open>Sequencing of fallible reads: the first error ends the decoding.\<close>

definition andThen :: "'e + 'a \<Rightarrow> ('a \<Rightarrow> 'e + 'b) \<Rightarrow> 'e + 'b" where
  "andThen m f = (case m of Inl err \<Rightarrow> Inl err | Inr v \<Rightarrow> f v)"

definition schemas :: "(string \<times> string list) list" where
  "schemas =
     [(''queue_snapshot'', [''event_id'', ''ts'', ''type'', ''queue_id'', ''tickets_waiting'',
         ''longest_wait_sec'', ''sla_target_sec'', ''agents_available'', ''agents_on_call'',
         ''volume_last_15m'', ''volume_forecast_next_15m'']),
      (''agent_state_change'', [''event_id'', ''ts'', ''type'', ''agent_id'', ''previous_state'',
         ''previous_state_duration_sec'', ''new_state'', ''queue_ids'']),
      (''adherence_check'', [''event_id'', ''ts'', ''type'', ''agent_id'', ''scheduled_state'',
         ''actual_state'', ''in_violation'', ''violation_started_at'', ''queue_ids''])]"

definition commonFields :: "json_object \<Rightarrow> string \<Rightarrow> event_error + common" where
  "commonFields o' typ = andThen (str o' ''event_id'') (\<lambda>i. andThen (timeVal o' ''ts'') (\<lambda>ts.
     Inr \<lparr>evEventID = i, evTimestamp = ts, evType = typ\<rparr>))"

definition decodeQueueSnapshot :: "json_object \<Rightarrow> common \<Rightarrow> event_error + event" where
  "decodeQueueSnapshot o' c =
     andThen (str o' ''queue_id'') (\<lambda>q. andThen (uint o' ''tickets_waiting'') (\<lambda>tw.
     andThen (uint o' ''longest_wait_sec'') (\<lambda>lw. andThen (uint o' ''sla_target_sec'') (\<lambda>sla.
     andThen (uint o' ''agents_available'') (\<lambda>av. andThen (uint o' ''agents_on_call'') (\<lambda>oc.
     andThen (uint o' ''volume_last_15m'') (\<lambda>vl.
     andThen (nullable uint o' ''volume_forecast_next_15m'') (\<lambda>vf.
       Inr (QueueSnapshot \<lparr>qsCommon = c, qsQueueID = q, qsTicketsWaiting = tw, qsLongestWaitSec = lw,
         qsSLATargetSec = sla, qsAgentsAvailable = av, qsAgentsOnCall = oc, qsVolumeLast15m = vl,
         qsVolumeForecastNext15m = vf\<rparr>)))))))))"

definition decodeAgentStateChange :: "json_object \<Rightarrow> common \<Rightarrow> event_error + event" where
  "decodeAgentStateChange o' c =
     andThen (str o' ''agent_id'') (\<lambda>a. andThen (nullable state o' ''previous_state'') (\<lambda>ps.
     andThen (state o' ''new_state'') (\<lambda>ns.
     andThen (nullable uint o' ''previous_state_duration_sec'') (\<lambda>pd.
     andThen (stringsArr o' ''queue_ids'' True) (\<lambda>qs.
       Inr (AgentStateChange \<lparr>asCommon = c, asAgentID = a, asPreviousState = ps, asNewState = ns,
         asPreviousStateDurationSec = pd, asQueueIDs = qs\<rparr>))))))"

definition decodeAdherenceCheck :: "json_object \<Rightarrow> common \<Rightarrow> event_error + event" where
  "decodeAdherenceCheck o' c =
     andThen (str o' ''agent_id'') (\<lambda>a. andThen (state o' ''scheduled_state'') (\<lambda>ss.
     andThen (state o' ''actual_state'') (\<lambda>as. andThen (boolean o' ''in_violation'') (\<lambda>iv.
     andThen (nullable timeVal o' ''violation_started_at'') (\<lambda>vs.
     andThen (stringsArr o' ''queue_ids'' False) (\<lambda>qs.
       Inr (AdherenceCheck \<lparr>acCommon = c, acAgentID = a, acScheduledState = ss, acActualState = as,
         acInViolation = iv, acViolationStartedAt = vs, acQueueIDs = qs\<rparr>)))))))"

text \<open>\<^verbatim>\<open>walkJSON\<close>: the first name that an object of the value repeats, in text order.\<close>

fun firstRepeat :: "string set \<Rightarrow> (string \<times> string option) list \<Rightarrow> string option" where
  "firstRepeat seen [] = None"
| "firstRepeat seen ((k, inner) # ms) =
     (if k \<in> seen then Some k
      else case inner of Some d \<Rightarrow> Some d | None \<Rightarrow> firstRepeat (insert k seen) ms)"

fun firstSome :: "'a option list \<Rightarrow> 'a option" where
  "firstSome [] = None"
| "firstSome (x # xs) = (case x of Some a \<Rightarrow> Some a | None \<Rightarrow> firstSome xs)"

primrec walkJSON :: "json \<Rightarrow> string option" where
  "walkJSON JNull = None"
| "walkJSON (JBool b) = None"
| "walkJSON (JNum t) = None"
| "walkJSON (JStr s) = None"
| "walkJSON (JArr xs) = firstSome (map walkJSON xs)"
| "walkJSON (JObj ms) = firstRepeat {} (map (map_prod (\<lambda>k. k) walkJSON) ms)"

definition decodeObject :: "(string \<times> json) list \<Rightarrow> event_error + event" where
  "decodeObject ms = (let o' = map_of ms in andThen (str o' ''type'') (\<lambda>typ.
     case map_of schemas typ of
       None \<Rightarrow> Inl (UnknownEventType typ)
     | Some allowed \<Rightarrow>
         if \<not> list_all (\<lambda>(k, v). k \<in> set allowed) ms then Inl UnknownField
         else if \<not> list_all (\<lambda>k. o' k \<noteq> None) allowed then Inl MissingField
         else andThen (commonFields o' typ) (\<lambda>c.
           if typ = ''queue_snapshot'' then decodeQueueSnapshot o' c
           else if typ = ''agent_state_change'' then decodeAgentStateChange o' c
           else decodeAdherenceCheck o' c)))"

definition Decode :: "json \<Rightarrow> event_error + event" where
  "Decode j = (case walkJSON j of
       Some name \<Rightarrow> Inl (DuplicateField name)
     | None \<Rightarrow> (case j of JObj ms \<Rightarrow> decodeObject ms | JNull \<Rightarrow> decodeObject [] | _ \<Rightarrow> Inl NotAnObject))"

subsection \<open>Reading a stream of lines\<close>

definition MaxLineBytes :: int where
  "MaxLineBytes = 16 * 1024 * 1024"

text \<open>\<^verbatim>\<open>splitPhysicalLine\<close> on all the remaining input: how much it consumes, and the line.\<close>

definition dropCR :: "string \<Rightarrow> string" where
  "dropCR token = (if token \<noteq> [] \<and> last token = CHR 0x0D then butlast token else token)"

definition splitPhysicalLine :: "string \<Rightarrow> (nat \<times> string) option" where
  "splitPhysicalLine data =
     (let token = takeWhile (\<lambda>c. c \<noteq> CHR 0x0A) data in
      if length token < length data then Some (length token + 1, dropCR token)
      else if data \<noteq> [] then Some (length data, data) else None)"

text \<open>
  The scanner's buffer holds \<^verbatim>\<open>MaxLineBytes+2\<close> bytes: it gives up on a line that does not
  fit with its delimiter, and on an unterminated one that fills it.
\<close>

definition overflowsBuffer :: "string \<Rightarrow> nat \<Rightarrow> bool" where
  "overflowsBuffer data advance =
     (if CHR 0x0A \<in> set (take advance data) then int advance > MaxLineBytes + 2
      else int advance \<ge> MaxLineBytes + 2)"

text \<open>\<^verbatim>\<open>TrimSpace\<close> leaves nothing: the string is a sequence of the UTF-8 encodings of
  Unicode white space.\<close>

definition spaceLength :: "string \<Rightarrow> nat" where
  "spaceLength s =
     (if s = [] then 0
      else if hd s \<in> {CHR 0x09, CHR 0x0A, CHR 0x0B, CHR 0x0C, CHR 0x0D, CHR 0x20} then 1
      else if take 2 s \<in> {[CHR 0xC2, CHR 0x85], [CHR 0xC2, CHR 0xA0]} then 2
      else if take 3 s \<in> {[CHR 0xE1, CHR 0x9A, CHR 0x80], [CHR 0xE2, CHR 0x80, CHR 0xA8],
          [CHR 0xE2, CHR 0x80, CHR 0xA9], [CHR 0xE2, CHR 0x80, CHR 0xAF], [CHR 0xE2, CHR 0x81, CHR 0x9F],
          [CHR 0xE3, CHR 0x80, CHR 0x80]} \<or>
          take 2 s = [CHR 0xE2, CHR 0x80] \<and> length s > 2 \<and>
          128 \<le> (of_char (s ! 2) :: nat) \<and> (of_char (s ! 2) :: nat) \<le> 138 then 3
      else 0)"

function blank :: "string \<Rightarrow> bool" where
  "blank s = (if s = [] then True else if spaceLength s = 0 then False else blank (drop (spaceLength s) s))"
  by pat_completeness auto
termination by (relation "measure length") auto

declare blank.simps [simp del]

datatype 'e stream_error = StreamIDRequired | LineTooLong u64 | EmptyLine u64 | LineSyntax u64
  | LineDecode u64 event_error | LineCallback u64 'e | LineRead u64

lemma splitPhysicalLine_advance: "splitPhysicalLine data = Some (n, token) \<Longrightarrow> 0 < n \<and> n \<le> length data"
  by (auto simp: splitPhysicalLine_def Let_def split: if_splits)

text \<open>\<open>parse\<close> is the JSON parser of a line, \<open>fn\<close> the callback on the caller's state.\<close>

function streamLoop ::
  "(string \<Rightarrow> json option) \<Rightarrow> string \<Rightarrow> ('s \<Rightarrow> envelope \<Rightarrow> 's \<times> 'e option) \<Rightarrow> u64 \<Rightarrow> string \<Rightarrow> 's
     \<Rightarrow> 's \<times> 'e stream_error option"
where
  "streamLoop parse streamID fn line data s = (case splitPhysicalLine data of
       None \<Rightarrow> (s, None)
     | Some (advance, token) \<Rightarrow>
         if overflowsBuffer data advance then (s, Some (LineRead (line + 1)))
         else if int (length token) > MaxLineBytes then (s, Some (LineTooLong (line + 1)))
         else if blank token then (s, Some (EmptyLine (line + 1)))
         else case parse token of None \<Rightarrow> (s, Some (LineSyntax (line + 1)))
         | Some j \<Rightarrow> (case Decode j of Inl err \<Rightarrow> (s, Some (LineDecode (line + 1) err))
           | Inr ev \<Rightarrow> (case fn s \<lparr>envID = \<lparr>oidStreamID = streamID, oidLine = line + 1\<rparr>,
                 envLine = line + 1, envEvent = ev, envRaw = token\<rparr> of
               (s', Some err) \<Rightarrow> (s', Some (LineCallback (line + 1) err))
             | (s', None) \<Rightarrow> streamLoop parse streamID fn (line + 1) (drop advance data) s')))"
  by pat_completeness auto
termination
  by (relation "measure (\<lambda>(_, _, _, _, data, _). length data)")
    (auto dest: splitPhysicalLine_advance)

declare streamLoop.simps [simp del]

definition Stream ::
  "(string \<Rightarrow> json option) \<Rightarrow> string \<Rightarrow> string \<Rightarrow> ('s \<Rightarrow> envelope \<Rightarrow> 's \<times> 'e option) \<Rightarrow> 's
     \<Rightarrow> 's \<times> 'e stream_error option"
where
  "Stream parse input streamID fn s =
     (if blank streamID then (s, Some StreamIDRequired) else streamLoop parse streamID fn 0 input s)"

end
