(* ===== verification/EventsProps.thy ===== *)
theory EventsProps
  imports Events
begin

text \<open>
  The event boundary: what the decoder lets through is well-formed, time stamps lie in the
  calendar, and the line reader loses and invents nothing.
\<close>

subsection \<open>Decoded events are well-formed\<close>

definition wf_id :: "string \<Rightarrow> bool" where
  "wf_id s \<longleftrightarrow> s \<noteq> [] \<and> length s \<le> 256"

definition wf_ids :: "string list \<Rightarrow> bool" where
  "wf_ids xs \<longleftrightarrow> list_all wf_id xs \<and> distinct xs"

fun wf_event :: "event \<Rightarrow> bool" where
  "wf_event (QueueSnapshot q) \<longleftrightarrow> wf_id (evEventID (qsCommon q)) \<and>
     evType (qsCommon q) = ''queue_snapshot'' \<and> wf_id (qsQueueID q)"
| "wf_event (AgentStateChange a) \<longleftrightarrow> wf_id (evEventID (asCommon a)) \<and>
     evType (asCommon a) = ''agent_state_change'' \<and> wf_id (asAgentID a) \<and> validState (asNewState a) \<and>
     (case asPreviousState a of None \<Rightarrow> True | Some s \<Rightarrow> validState s) \<and> wf_ids (asQueueIDs a)"
| "wf_event (AdherenceCheck c) \<longleftrightarrow> wf_id (evEventID (acCommon c)) \<and>
     evType (acCommon c) = ''adherence_check'' \<and> wf_id (acAgentID c) \<and> validState (acScheduledState c) \<and>
     validState (acActualState c) \<and> wf_ids (acQueueIDs c)"
| "wf_event (OtherEvent i) \<longleftrightarrow> False"

lemma andThen_Inr: "andThen m f = Inr v \<longleftrightarrow> (\<exists>x. m = Inr x \<and> f x = Inr v)"
  by (simp add: andThen_def split: sum.splits)

lemma str_Inr: "str o' k = Inr v \<Longrightarrow> wf_id v \<and> o' k = Some (JStr v)"
  by (auto simp: str_def wf_id_def bind_eq_Some_conv split: option.splits if_splits elim!: asString.elims)

lemma state_Inr: "state o' k = Inr v \<Longrightarrow> validState v"
  by (auto simp: state_def split: sum.splits if_splits)

lemma checkItems_None:
  "checkItems k i seen vs = None \<Longrightarrow> wf_ids vs \<and> seen \<inter> set vs = {}"
proof (induction vs arbitrary: i seen)
  case (Cons v vs)
  then have "checkItems k (i + 1) (insert v seen) vs = None" "wf_id v" "v \<notin> seen"
    by (auto simp: wf_id_def split: if_splits)
  with Cons.IH [OF this(1)] show ?case by (auto simp: wf_ids_def)
qed (simp add: wf_ids_def)

lemma stringsArr_Inr: "stringsArr o' k n = Inr v \<Longrightarrow> wf_ids v"
  by (auto simp: stringsArr_def wf_ids_def dest: checkItems_None split: option.splits if_splits)

lemma nullable_Inr: "nullable get o' k = Inr v \<Longrightarrow> v = None \<or> (\<exists>x. v = Some x \<and> get o' k = Inr x)"
  by (auto simp: nullable_def split: sum.splits if_splits)

lemma decodeObject_steps:
  assumes "decodeObject ms = Inr ev"
  obtains ty c allowed where "commonFields (map_of ms) ty = Inr c"
    and "(if ty = ''queue_snapshot'' then decodeQueueSnapshot (map_of ms) c
           else if ty = ''agent_state_change'' then decodeAgentStateChange (map_of ms) c
           else decodeAdherenceCheck (map_of ms) c) = Inr ev"
    and "map_of schemas ty = Some allowed" and "list_all (\<lambda>(k, v). k \<in> set allowed) ms"
    and "list_all (\<lambda>k. map_of ms k \<noteq> None) allowed"
proof -
  from assms obtain ty where ty: "(case map_of schemas ty of
       None \<Rightarrow> Inl (UnknownEventType ty)
     | Some allowed \<Rightarrow>
         if \<not> list_all (\<lambda>(k, v). k \<in> set allowed) ms then Inl UnknownField
         else if \<not> list_all (\<lambda>k. map_of ms k \<noteq> None) allowed then Inl MissingField
         else andThen (commonFields (map_of ms) ty) (\<lambda>c.
           if ty = ''queue_snapshot'' then decodeQueueSnapshot (map_of ms) c
           else if ty = ''agent_state_change'' then decodeAgentStateChange (map_of ms) c
           else decodeAdherenceCheck (map_of ms) c)) = Inr ev"
    unfolding decodeObject_def Let_def andThen_Inr [where m = "str (map_of ms) ''type''"] by blast
  then obtain allowed where t: "map_of schemas ty = Some allowed"
    "list_all (\<lambda>(k, v). k \<in> set allowed) ms" "list_all (\<lambda>k. map_of ms k \<noteq> None) allowed"
    by (cases "map_of schemas ty") (auto split: if_splits)
  with ty obtain c where "commonFields (map_of ms) ty = Inr c"
    "(if ty = ''queue_snapshot'' then decodeQueueSnapshot (map_of ms) c
           else if ty = ''agent_state_change'' then decodeAgentStateChange (map_of ms) c
           else decodeAdherenceCheck (map_of ms) c) = Inr ev"
    by (simp add: andThen_Inr) blast
  with t that show thesis by blast
qed

lemma decodeObject_wf:
  assumes "decodeObject ms = Inr ev"
  shows "wf_event ev" and "\<exists>typ allowed. map_of schemas typ = Some allowed \<and> fst ` set ms = set allowed"
proof -
  from assms obtain ty c allowed where c: "commonFields (map_of ms) ty = Inr c"
    and d: "(if ty = ''queue_snapshot'' then decodeQueueSnapshot (map_of ms) c
           else if ty = ''agent_state_change'' then decodeAgentStateChange (map_of ms) c
           else decodeAdherenceCheck (map_of ms) c) = Inr ev"
    and t: "map_of schemas ty = Some allowed" "list_all (\<lambda>(k, v). k \<in> set allowed) ms"
    "list_all (\<lambda>k. map_of ms k \<noteq> None) allowed"
    by (rule decodeObject_steps)
  have "fst ` set ms = set allowed"
    using t(2,3) by (force simp: list_all_iff map_of_eq_None_iff)
  with t(1) show "\<exists>typ allowed. map_of schemas typ = Some allowed \<and> fst ` set ms = set allowed" by blast
  have w: "wf_id (evEventID c)" "evType c = ty"
    using c by (auto simp: commonFields_def andThen_Inr dest: str_Inr)
  have typs: "ty = ''queue_snapshot'' \<or> ty = ''agent_state_change'' \<or> ty = ''adherence_check''"
    using t(1) by (auto simp: schemas_def split: if_splits)
  show "wf_event ev"
    using d w typs
    by (auto simp: decodeQueueSnapshot_def decodeAgentStateChange_def decodeAdherenceCheck_def andThen_Inr
        dest: str_Inr state_Inr stringsArr_Inr dest!: nullable_Inr split: if_splits)
qed

lemma firstRepeat_None: "firstRepeat seen ms = None \<Longrightarrow> distinct (map fst ms) \<and> seen \<inter> fst ` set ms = {}"
  by (induction seen ms rule: firstRepeat.induct) (auto split: if_splits option.splits)

text \<open>The decoder admits only well-formed events: an accepted value is an object whose members
  are exactly those of its type's schema, each once, and the event it yields has a non-empty
  identifier of at most 256 bytes, the type its schema names, known agent states, and queue
  identifiers that are non-empty, short enough and not repeated.\<close>

theorem decoded_event_well_formed:
  "case Decode j of Inl _ \<Rightarrow> True
   | Inr ev \<Rightarrow> wf_event ev \<and> (\<exists>ms typ allowed. j = JObj ms \<and> distinct (map fst ms) \<and>
       map_of schemas typ = Some allowed \<and> set (map fst ms) = set allowed)"
proof (cases "Decode j")
  case (Inr ev)
  have no_null: "decodeObject [] \<noteq> Inr ev" by (simp add: decodeObject_def str_def isNullField_def andThen_def)
  then obtain ms where j: "j = JObj ms" "decodeObject ms = Inr ev" "walkJSON j = None"
    using Inr by (auto simp: Decode_def split: option.splits json.splits)
  have "map fst (map (map_prod (\<lambda>k. k) walkJSON) ms) = map fst ms" by simp
  moreover have "firstRepeat {} (map (map_prod (\<lambda>k. k) walkJSON) ms) = None" using j(1,3) by simp
  ultimately have "distinct (map fst ms)" using firstRepeat_None by metis
  then show ?thesis using decodeObject_wf [OF j(2)] j(1) Inr by auto
qed simp

subsection \<open>Time stamps lie in the calendar\<close>

lemma decimal_value_bound: "list_all isDigit ds \<Longrightarrow> decimal_value ds < 10 ^ length ds"
proof (induction ds rule: rev_induct)
  case (snoc c ds)
  then have "(of_char c :: nat) \<le> 57" by (simp add: isDigit_def)
  then have "digit_value c \<le> 9" by (simp add: digit_value_def)
  moreover have "decimal_value (ds @ [c]) = 10 * decimal_value ds + digit_value c"
    by (simp add: decimal_value_def)
  ultimately show ?case using snoc by simp
qed (simp add: decimal_value_def)

lemma zoneSeconds_bound: "zoneSeconds z = Some s \<Longrightarrow> - 86340 \<le> s \<and> s \<le> 86340"
  by (auto simp: zoneSeconds_def Let_def split: if_splits)

lemma numeral_pow_nine: "(10 :: nat) ^ 9 = 1000000000"
  by simp

lemma fractionNanos_bound: "list_all isDigit ds \<Longrightarrow> fractionNanos ds < 1000000000"
proof -
  assume "list_all isDigit ds"
  then have "list_all isDigit (take 9 (ds @ replicate 9 (CHR ''0'')))"
    by (auto simp: list_all_iff isDigit_def dest!: in_set_takeD)
  moreover have "length (take 9 (ds @ replicate 9 (CHR ''0''))) = 9" by simp
  ultimately show ?thesis
    using decimal_value_bound unfolding fractionNanos_def by (metis numeral_pow_nine)
qed

lemma fractionAndZone_bound:
  assumes "fractionAndZone r = Some (n, z)"
  shows "n < 1000000000 \<and> - 86340 \<le> z \<and> z \<le> 86340"
proof -
  have "list_all isDigit (takeWhile isDigit xs)" for xs
    by (auto simp: list_all_iff dest: set_takeWhileD)
  with assms show ?thesis
    by (auto simp: fractionAndZone_def Let_def intro: fractionNanos_bound dest: zoneSeconds_bound split: if_splits)
qed

lemma day_in_year:
  assumes "1 \<le> m" and "m \<le> 12" and "d \<le> daysIn y m"
  shows "daysBeforeMonth y m + d \<le> (if isLeap y then 366 else 365)"
proof -
  have "m = 1 \<or> m = 2 \<or> m = 3 \<or> m = 4 \<or> m = 5 \<or> m = 6 \<or> m = 7 \<or> m = 8 \<or> m = 9 \<or> m = 10 \<or>
      m = 11 \<or> m = 12" using assms(1,2) by arith
  then show ?thesis using assms(3)
    by (elim disjE) (simp_all add: daysBeforeMonth_def daysIn_def upt_rec split: if_splits)
qed

lemma div_step:
  fixes y k :: int
  assumes "0 < k"
  shows "y div k = (y - 1) div k + (if y mod k = 0 then 1 else 0)"
proof (cases "y mod k = 0")
  case True
  then have "y - 1 = k * (y div k - 1) + (k - 1)"
    using mult_div_mod_eq [of k y] by (simp add: right_diff_distrib)
  then have "(y - 1) div k = y div k - 1"
    by (rule int_div_pos_eq) (use assms in simp_all)
  then show ?thesis using True by simp
next
  case False
  then have "0 < y mod k" using pos_mod_sign [OF assms, of y] by simp
  have "y - 1 = k * (y div k) + (y mod k - 1)" using mult_div_mod_eq [of k y] by simp
  then have "(y - 1) div k = y div k"
    by (rule int_div_pos_eq) (use \<open>0 < y mod k\<close> pos_mod_bound [OF assms, of y] in simp_all)
  then show ?thesis using False by simp
qed

lemma isLeap_step:
  "daysBeforeYear (y + 1) = daysBeforeYear y + (if isLeap y then 366 else 365)"
proof -
  define a b c where "a = (y - 1) div 4" and "b = (y - 1) div 100" and "c = (y - 1) div 400"
  define P Q R where "P \<longleftrightarrow> y mod 4 = 0" and "Q \<longleftrightarrow> y mod 100 = 0" and "R \<longleftrightarrow> y mod 400 = 0"
  have "y div 4 = a + (if P then 1 else 0)" "y div 100 = b + (if Q then 1 else 0)"
    "y div 400 = c + (if R then 1 else 0)"
    unfolding a_def b_def c_def P_def Q_def R_def by (rule div_step, simp)+
  then have "daysBeforeYear (y + 1) = 365 * y + (a + (if P then 1 else 0)) -
      (b + (if Q then 1 else 0)) + (c + (if R then 1 else 0))"
    by (simp only: daysBeforeYear_def add_diff_cancel_right')
  moreover have "daysBeforeYear y = 365 * y - 365 + a - b + c"
    by (simp add: daysBeforeYear_def a_def b_def c_def)
  moreover have "isLeap y \<longleftrightarrow> P \<and> (\<not> Q \<or> R)" by (simp add: isLeap_def P_def Q_def R_def)
  moreover have "R \<Longrightarrow> Q" "Q \<Longrightarrow> P"
    unfolding P_def Q_def R_def dvd_eq_mod_eq_0 [symmetric] by (rule dvd_trans [rotated], assumption, simp)+
  ultimately show ?thesis by (cases P; cases Q; cases R) simp_all
qed

lemma daysBeforeYear_mono: "y \<le> y' \<Longrightarrow> daysBeforeYear y \<le> daysBeforeYear y'"
proof (induction y' rule: int_ge_induct)
  case (step i)
  then show ?case using isLeap_step [of i] by (simp split: if_splits)
qed simp

lemma dayNumber_bound:
  assumes "0 \<le> y" and "y \<le> 9999" and "1 \<le> m" and "m \<le> 12" and "1 \<le> d" and "d \<le> daysIn y m"
  shows "- 366 \<le> dayNumber y m d \<and> dayNumber y m d \<le> 3652058"
proof -
  have "daysBeforeYear 0 \<le> daysBeforeYear y" "daysBeforeYear (y + 1) \<le> daysBeforeYear 10000"
    using assms(1,2) by (auto intro: daysBeforeYear_mono)
  moreover have "daysBeforeYear 0 = - 366" "daysBeforeYear 10000 = 3652059"
    by (simp_all add: daysBeforeYear_def)
  ultimately show ?thesis
    using day_in_year [OF assms(3,4,6)] isLeap_step [of y] assms(5)
    by (auto simp: dayNumber_def split: if_splits)
qed

text \<open>Accepted time stamps lie in the calendar of four-digit years: whatever text the decoder
  accepts as a time, its instant is not before 0000-01-01T00:00:00+23:59 and not after
  9999-12-31T23:59:59.999999999-23:59, in nanoseconds from year 1.\<close>

theorem timestamp_in_calendar:
  "case timeVal o' k of Inl _ \<Rightarrow> True
   | Inr t \<Rightarrow> (- 366 * 86400 - 86340) * 1000000000 \<le> t \<and> t < (3652059 * 86400 + 86340) * 1000000000"
proof (cases "timeVal o' k")
  case (Inr t)
  then obtain s where s: "parseTimestamp s = Some t"
    by (auto simp: timeVal_def split: option.splits)
  define y mo d where "y = int (decimal_value (take 4 s))" and "mo = twoDigits s 5" and "d = twoDigits s 8"
  define h mi sec where "h = twoDigits s 11" and "mi = twoDigits s 14" and "sec = twoDigits s 17"
  obtain n z where r: "length s \<ge> 20" "digitsAt s [0, 1, 2, 3]" "1 \<le> mo" "mo \<le> 12" "1 \<le> d" "d \<le> daysIn y mo"
    "h \<le> 23" "mi \<le> 59" "sec \<le> 59" "fractionAndZone (drop 19 s) = Some (n, z)"
    "t = (dayNumber y mo d * 86400 + (int h * 3600 + int mi * 60 + int sec) - z) * 1000000000 + int n"
    using s unfolding parseTimestamp_def Let_def y_def [symmetric] mo_def [symmetric] d_def [symmetric]
      h_def [symmetric] mi_def [symmetric] sec_def [symmetric]
    by (auto simp: digitsAt_def not_less split: if_splits)
  have "take 4 s = [s ! 0, s ! 1, s ! 2, s ! 3]"
    using r(1) by (auto intro!: nth_equalityI simp: less_Suc_eq numeral_eq_Suc nth_Cons')
  then have "decimal_value (take 4 s) < 10 ^ length (take 4 s)"
    using r(2) by (intro decimal_value_bound) (simp add: digitsAt_def)
  then have "y \<le> 9999" using r(1) by (simp add: y_def)
  moreover have "0 \<le> y" by (simp add: y_def)
  ultimately have "- 366 \<le> dayNumber y mo d \<and> dayNumber y mo d \<le> 3652058"
    using r(3-6) by (intro dayNumber_bound)
  then show ?thesis
    using fractionAndZone_bound [OF r(10)] r(7-9) by (simp add: Inr r(11))
qed simp

subsection \<open>The line reader\<close>

definition lineEnds :: "string set" where
  "lineEnds = {[], [CHR 0x0A], [CHR 0x0D, CHR 0x0A]}"

definition collect :: "envelope list \<Rightarrow> envelope \<Rightarrow> envelope list \<times> unit option" where
  "collect envs e = (envs @ [e], None)"

text \<open>The input as delivered lines with their line ends, and a rest.\<close>

definition delivered :: "string \<Rightarrow> envelope list \<Rightarrow> string \<Rightarrow> bool" where
  "delivered data envs rest \<longleftrightarrow> (\<exists>ends. length ends = length envs \<and> set ends \<subseteq> lineEnds \<and>
     data = concat (map2 (\<lambda>e d. envRaw e @ d) envs ends) @ rest)"

definition faithful :: "(string \<Rightarrow> json option) \<Rightarrow> string \<Rightarrow> envelope \<Rightarrow> bool" where
  "faithful parse streamID e \<longleftrightarrow> envID e = \<lparr>oidStreamID = streamID, oidLine = envLine e\<rparr> \<and>
     CHR 0x0A \<notin> set (envRaw e) \<and> int (length (envRaw e)) \<le> MaxLineBytes \<and> \<not> blank (envRaw e) \<and>
     map_option Decode (parse (envRaw e)) = Some (Inr (envEvent e))"

lemma splitPhysicalLine_take:
  assumes "splitPhysicalLine data = Some (n, token)"
  shows "\<exists>d \<in> lineEnds. data = token @ d @ drop n data" and "CHR 0x0A \<notin> set token"
proof -
  define t where "t = takeWhile (\<lambda>c. c \<noteq> CHR 0x0A) data"
  have nl: "CHR 0x0A \<notin> set t" by (auto simp: t_def dest: set_takeWhileD)
  have cr: "t = dropCR t \<or> t = dropCR t @ [CHR 0x0D]"
    by (metis append_butlast_last_id dropCR_def)
  then have nl': "CHR 0x0A \<notin> set (dropCR t)" using nl by (metis Un_iff set_append)
  have "token = dropCR t \<or> token = t"
  proof (cases "length t < length data")
    case True
    then show ?thesis using assms by (simp add: splitPhysicalLine_def Let_def t_def [symmetric])
  next
    case False
    have "t = take (length t) data" unfolding t_def by (rule takeWhile_eq_take)
    then have "t = data" using False by simp
    then show ?thesis
      using assms False by (auto simp: splitPhysicalLine_def Let_def t_def [symmetric] split: if_splits)
  qed
  then show "CHR 0x0A \<notin> set token" using nl nl' by auto
  show "\<exists>d \<in> lineEnds. data = token @ d @ drop n data"
  proof (cases "length t < length data")
    case True
    define u where "u = dropWhile (\<lambda>c. c \<noteq> CHR 0x0A) data"
    have data: "data = t @ u" by (simp add: t_def u_def)
    with True have "u \<noteq> []" by auto
    then have "\<not> (hd u \<noteq> CHR 0x0A)" unfolding u_def by (rule hd_dropWhile)
    then have "hd u = CHR 0x0A" by simp
    with \<open>u \<noteq> []\<close> obtain r where r: "u = CHR 0x0A # r" by (cases u) auto
    have n: "n = length t + 1" "token = dropCR t"
      using assms True by (simp_all add: splitPhysicalLine_def Let_def t_def [symmetric])
    from cr show ?thesis
    proof
      assume "t = dropCR t"
      then show ?thesis by (intro bexI [of _ "[CHR 0x0A]"]) (simp_all add: n data r lineEnds_def)
    next
      assume c: "t = dropCR t @ [CHR 0x0D]"
      have "t @ u = (dropCR t @ [CHR 0x0D]) @ u" using c by (rule arg_cong)
      then have "data = dropCR t @ [CHR 0x0D, CHR 0x0A] @ r" by (simp add: data r)
      moreover have "drop n data = r" by (simp add: n data r)
      ultimately show ?thesis by (intro bexI [of _ "[CHR 0x0D, CHR 0x0A]"]) (simp_all add: n lineEnds_def)
    qed
  next
    case False
    then have "n = length data" "token = data"
      using assms by (auto simp: splitPhysicalLine_def Let_def t_def [symmetric] split: if_splits)
    then show ?thesis by (simp add: lineEnds_def)
  qed
qed

lemma delivered_Cons:
  assumes "data = envRaw e @ d @ data'" and "d \<in> lineEnds" and "delivered data' envs rest"
  shows "delivered data (e # envs) rest"
proof -
  obtain ends where "length ends = length envs" "set ends \<subseteq> lineEnds"
    "data' = concat (map2 (\<lambda>e d. envRaw e @ d) envs ends) @ rest"
    using assms(3) by (auto simp: delivered_def)
  then show ?thesis using assms(1,2) unfolding delivered_def by (intro exI [of _ "d # ends"]) simp
qed

lemma streamLoop_collect:
  "\<exists>envs rest. fst (streamLoop parse sid collect line data acc) = acc @ envs \<and> delivered data envs rest \<and>
     (snd (streamLoop parse sid collect line data acc) = None \<longrightarrow> rest = []) \<and>
     map envLine envs = map (\<lambda>i. line + of_nat i) [1..<length envs + 1] \<and> list_all (faithful parse sid) envs"
proof (induction "length data" arbitrary: line data acc rule: less_induct)
  case less
  let ?stop = "fst (streamLoop parse sid collect line data acc) = acc"
  have none: ?case if ?stop and "snd (streamLoop parse sid collect line data acc) = None \<longrightarrow> data = []"
    using that by (intro exI [of _ "[]"] exI [of _ data]) (auto simp: delivered_def)
  show ?case
  proof (cases "splitPhysicalLine data")
    case None
    then have "data = []" by (auto simp: splitPhysicalLine_def Let_def split: if_splits)
    moreover have "streamLoop parse sid collect line data acc = (acc, None)"
      by (subst streamLoop.simps) (simp add: None)
    ultimately show ?thesis by (intro none) simp_all
  next
    case (Some p)
    obtain n token where p: "p = (n, token)" by (cases p)
    note split = Some [unfolded p]
    show ?thesis
    proof (cases "overflowsBuffer data n \<or> int (length token) > MaxLineBytes \<or> blank token \<or>
        (\<forall>ev. map_option Decode (parse token) \<noteq> Some (Inr ev))")
      case True
      then show ?thesis
        by (intro none) (auto simp: streamLoop.simps [of _ _ _ _ data] split split: option.splits sum.splits)
    next
      case False
      then obtain j ev where ok: "\<not> overflowsBuffer data n" "\<not> int (length token) > MaxLineBytes" "\<not> blank token"
        "parse token = Some j" "Decode j = Inr ev" by auto
      define e where "e = \<lparr>envID = \<lparr>oidStreamID = sid, oidLine = line + 1\<rparr>, envLine = line + 1,
        envEvent = ev, envRaw = token\<rparr>"
      have step: "streamLoop parse sid collect line data acc =
          streamLoop parse sid collect (line + 1) (drop n data) (acc @ [e])"
        by (subst streamLoop.simps) (simp add: split ok collect_def e_def)
      have "length (drop n data) < length data" using splitPhysicalLine_advance [OF split] by auto
      from less.hyps [OF this, of "line + 1" "acc @ [e]"] obtain envs rest where
        ih: "fst (streamLoop parse sid collect (line + 1) (drop n data) (acc @ [e])) = (acc @ [e]) @ envs"
        "delivered (drop n data) envs rest"
        "snd (streamLoop parse sid collect (line + 1) (drop n data) (acc @ [e])) = None \<longrightarrow> rest = []"
        "map envLine envs = map (\<lambda>i. line + 1 + of_nat i) [1..<length envs + 1]" "list_all (faithful parse sid) envs"
        by (elim exE conjE) (rule that)
      obtain d where d: "d \<in> lineEnds" "data = token @ d @ drop n data"
        using splitPhysicalLine_take(1) [OF split] by blast
      have "delivered data (e # envs) rest"
        by (rule delivered_Cons [OF _ d(1) ih(2)]) (use d(2) in \<open>simp add: e_def\<close>)
      moreover have "faithful parse sid e"
        using ok splitPhysicalLine_take(2) [OF split] by (simp add: faithful_def e_def)
      moreover have "map envLine (e # envs) = map (\<lambda>i. line + of_nat i) [1..<length (e # envs) + 1]"
        by (simp add: ih(4) e_def upt_conv_Cons map_Suc_upt [symmetric] comp_def add.assoc
            del: upt_Suc map_Suc_upt)
      ultimately show ?thesis
        using ih(1,3,5) step by (intro exI [of _ "e # envs"] exI [of _ rest]) simp
    qed
  qed
qed


end
