(* ===== verification/Preview.thy ===== *)
theory Preview
  imports Events Evaluation RulesDecode
begin

text \<open>
  The preview of active rules over a stream of events, \<^verbatim>\<open>internal/runtime/preview.go\<close>:
  loading the rules, the in-memory projections and their evidence, and the replay, which puts
  the evaluation runtime, the alert reducer and the notification planner together. The variables
  that the closures of \<^verbatim>\<open>Replay\<close> share are the fields of \<open>preview\<close>. An error of the
  source is a constructor; \<open>AdvanceDoesNotReturn\<close> would be a timer loop that does not end.
\<close>

subsection \<open>Loading rules\<close>

record preview_rule =
  prID :: string
  prRevision :: int
  prDefinition :: rule_definition

datatype load_error = RulesReaderRequired | RulesNotDecoded | InvalidLoadedRule string int
  | DuplicateLoadedRule string | LoadedRuleInvalid string "validation_error list"

text \<open>A struct field that is a value: null leaves it as it is, the last other member stays.\<close>

fun valueField :: "(json \<Rightarrow> 'a option) \<Rightarrow> string \<Rightarrow> 'a \<Rightarrow> (string \<times> json) list \<Rightarrow> 'a option" where
  "valueField dec n x [] = Some x"
| "valueField dec n x ((k, v) # ms) =
     (if k \<noteq> n \<or> v = JNull then valueField dec n x ms
      else case dec v of None \<Rightarrow> None | Some y \<Rightarrow> valueField dec n y ms)"

definition zeroDefinition :: rule_definition where
  "zeroDefinition = \<lparr>rdSchemaVersion = 0, rdName = [], rdDescription = [],
     rdTargets = \<lparr>tgKind = [], tgIDs = [], tgGroupIDs = []\<rparr>,
     rdTrigger = \<lparr>cdPredicate = NilExpression, cdFor = 0\<rparr>, rdClear = \<lparr>cdPredicate = NilExpression, cdFor = 0\<rparr>,
     rdNotifications = \<lparr>npOnOpen = False, npOnRecovery = False, npAudience = []\<rparr>\<rparr>"

text \<open>The definition has its own \<^verbatim>\<open>UnmarshalJSON\<close>, which is called for null too.\<close>

definition definitionField :: "(string \<times> json) list \<Rightarrow> rule_definition option" where
  "definitionField ms =
     (if list_all (\<lambda>(k, v). k = ''definition'' \<longrightarrow> unmarshalDefinition v \<noteq> None) ms
      then (case rawField ''definition'' ms of None \<Rightarrow> Some zeroDefinition | Some v \<Rightarrow> unmarshalDefinition v)
      else None)"

definition decodeRule :: "json \<Rightarrow> preview_rule option" where
  "decodeRule j = (case strictObject [''id'', ''revision'', ''definition''] j of None \<Rightarrow> None
     | Some ms \<Rightarrow> (case (valueField asString ''id'' [] ms, valueField asInteger ''revision'' 0 ms, definitionField ms) of
         (Some i, Some n, Some d) \<Rightarrow> Some \<lparr>prID = i, prRevision = n, prDefinition = d\<rparr>
       | _ \<Rightarrow> None))"

definition decodeRules :: "json \<Rightarrow> preview_rule list option" where
  "decodeRules j = (case j of JNull \<Rightarrow> Some [] | JArr xs \<Rightarrow> sequenceOpt (map decodeRule xs) | _ \<Rightarrow> None)"

text \<open>\<^verbatim>\<open>key\<close> of \<^verbatim>\<open>replay.go\<close>, with the same format.\<close>

definition revisionKey :: "string \<Rightarrow> int \<Rightarrow> string" where
  "revisionKey i n = i @ ''/'' @ formatInt n"

fun checkRules :: "string set \<Rightarrow> preview_rule list \<Rightarrow> load_error option" where
  "checkRules seen [] = None"
| "checkRules seen (r # rs) =
     (if prID r = [] \<or> prRevision r \<le> 0 then Some (InvalidLoadedRule (prID r) (prRevision r))
      else if revisionKey (prID r) (prRevision r) \<in> seen
        then Some (DuplicateLoadedRule (revisionKey (prID r) (prRevision r)))
      else if Validate (prDefinition r) \<noteq> []
        then Some (LoadedRuleInvalid (prID r) (Validate (prDefinition r)))
      else checkRules (insert (revisionKey (prID r) (prRevision r)) seen) rs)"

text \<open>\<open>parse\<close> reads a text that holds one JSON value and nothing else.\<close>

definition LoadRules :: "(string \<Rightarrow> json option) \<Rightarrow> string option \<Rightarrow> load_error + preview_rule list" where
  "LoadRules parse input = (case input of None \<Rightarrow> Inl RulesReaderRequired
     | Some text \<Rightarrow> (case Option.bind (parse text) decodeRules of None \<Rightarrow> Inl RulesNotDecoded
       | Some values \<Rightarrow> (case checkRules {} values of Some err \<Rightarrow> Inl err | None \<Rightarrow> Inr values)))"

subsection \<open>The state of a replay\<close>

record preview_notification =
  ntIntent :: intent
  ntAlert :: alert_transition
  ntRuleID :: string
  ntSubjectKind :: string
  ntSubjectID :: string

record preview =
  vwRuntime :: runtime
  vwAlerts :: alert_reducer
  vwPlanner :: planner
  vwOutput :: "preview_notification list"
  vwQueues :: "string \<rightharpoonup> queue_snapshot"
  vwAgents :: "string \<rightharpoonup> agent_state_change"
  vwAdherence :: "string \<rightharpoonup> adherence_check"
  vwLogical :: gotime

definition policyOf :: "rule_definition \<Rightarrow> policy" where
  "policyOf d = \<lparr>onOpen = npOnOpen (rdNotifications d), onRecovery = npOnRecovery (rdNotifications d),
     audience = npAudience (rdNotifications d)\<rparr>"

definition zeroPolicy :: policy where
  "zeroPolicy = \<lparr>onOpen = False, onRecovery = False, audience = []\<rparr>"

text \<open>The map of policies by rule identifier; a missing key reads as the zero policy.\<close>

definition policiesByID :: "preview_rule list \<Rightarrow> string \<Rightarrow> policy" where
  "policiesByID rules = foldl (\<lambda>m r. m(prID r := policyOf (prDefinition r))) (\<lambda>_. zeroPolicy) rules"

definition activeOf :: "preview_rule \<Rightarrow> active_rule" where
  "activeOf r = \<lparr>arID = prID r, arRevision = prRevision r, arDefinition = prDefinition r\<rparr>"

subsection \<open>From condition transitions to notifications\<close>

definition applyTransition :: "alert_reducer \<Rightarrow> transition \<Rightarrow> alert_reducer \<times> alert_transition list" where
  "applyTransition r t =
     (if trDirection t = Trigger
      then ApplyStart r \<lparr>aeID = trEpisodeID t, aeSeries = seriesKeyOf (trKey t),
        aeRevision = Revision (trKey t), aeOpened = True, aeAt = trAt t,
        aeEffectiveAt = tmsEffectiveAt (trTimes t), aeEvidenceAt = tmsEvidenceAt (trTimes t)\<rparr>
      else ApplyClear r (trEpisodeID t) (seriesKeyOf (trKey t)) (trAt t)
        (tmsEffectiveAt (trTimes t)) (tmsEvidenceAt (trTimes t)))"

fun planLoop ::
  "policy \<Rightarrow> string \<Rightarrow> planner \<Rightarrow> alert_transition list \<Rightarrow> planner \<times> preview_notification list"
where
  "planLoop pol rid p [] = (p, [])"
| "planLoop pol rid p (t # ts) =
     (let (p1, i, created) = Plan p t pol;
          (p2, rest) = planLoop pol rid p1 ts
      in (p2, (case i of
             Some x \<Rightarrow> if created then [\<lparr>ntIntent = x, ntAlert = t, ntRuleID = rid,
                 ntSubjectKind = skSubjectKind (atSeries t), ntSubjectID = skSubjectID (atSeries t)\<rparr>] else []
           | None \<Rightarrow> []) @ rest))"

definition emitOne :: "(string \<Rightarrow> policy) \<Rightarrow> preview \<Rightarrow> transition \<Rightarrow> preview" where
  "emitOne policies s t =
     (let (r, ats) = applyTransition (vwAlerts s) t;
          (p, out) = planLoop (policies (RuleID (trKey t))) (RuleID (trKey t)) (vwPlanner s) ats
      in s\<lparr>vwAlerts := r, vwPlanner := p, vwOutput := vwOutput s @ out\<rparr>)"

definition emit :: "(string \<Rightarrow> policy) \<Rightarrow> preview \<Rightarrow> transition list \<Rightarrow> preview" where
  "emit policies s ts = foldl (emitOne policies) s ts"

subsection \<open>Evidence\<close>

text \<open>\<^verbatim>\<open>int64(x)\<close> of a \<^verbatim>\<open>uint64\<close>, and \<^verbatim>\<open>time.Duration(x) * time.Second\<close>.\<close>

definition toInt64 :: "u64 \<Rightarrow> int" where
  "toInt64 w = wrap64 (int (unat w))"

definition secondsOf :: "u64 \<Rightarrow> duration" where
  "secondsOf w = wrap64 (toInt64 w * 1000000000)"

definition previewLookup :: "preview \<Rightarrow> resolved_target \<Rightarrow> field_spec \<Rightarrow> operand option" where
  "previewLookup s target field =
     (if rtKind target = SubjectQueue then
        (case vwQueues s (rtID target) of None \<Rightarrow> None
         | Some v \<Rightarrow>
             if fsName field = ''queue.longest_wait'' then Some (DurationOperand (secondsOf (qsLongestWaitSec v)))
             else if fsName field = ''queue.sla_target'' then Some (DurationOperand (secondsOf (qsSLATargetSec v)))
             else if fsName field = ''queue.tickets_waiting'' then Some (IntegerOperand (toInt64 (qsTicketsWaiting v)))
             else if fsName field = ''queue.agents_available'' then Some (IntegerOperand (toInt64 (qsAgentsAvailable v)))
             else if fsName field = ''queue.agents_on_call'' then Some (IntegerOperand (toInt64 (qsAgentsOnCall v)))
             else if fsName field = ''queue.volume_last_15m'' then Some (IntegerOperand (toInt64 (qsVolumeLast15m v)))
             else None)
      else if rtKind target = SubjectAgent then
        (if vwAgents s (rtID target) \<noteq> None \<and> fsName field = ''agent.current_state''
         then Some (AgentStateOperand (asNewState (the (vwAgents s (rtID target)))))
         else if vwAdherence s (rtID target) \<noteq> None \<and> fsName field = ''adherence.violation''
         then Some (BooleanOperand (acInViolation (the (vwAdherence s (rtID target)))))
         else None)
      else None)"

definition previewEvidence :: "preview \<Rightarrow> resolved_target \<Rightarrow> evidence" where
  "previewEvidence s target = zeroEvidence\<lparr>evLookup := Some (previewLookup s target),
     evTrueSince := (case vwAdherence s (rtID target) of None \<Rightarrow> 0
       | Some c \<Rightarrow> (case acViolationStartedAt c of None \<Rightarrow> 0 | Some t \<Rightarrow> t))\<rparr>"

definition previewProvider :: "preview \<Rightarrow> evidence_provider" where
  "previewProvider s = Some (\<lambda>target. Some (previewEvidence s target))"

subsection \<open>One event\<close>

fun previewTimestamp :: "event \<Rightarrow> gotime" where
  "previewTimestamp (QueueSnapshot q) = evTimestamp (qsCommon q)"
| "previewTimestamp (AgentStateChange a) = evTimestamp (asCommon a)"
| "previewTimestamp (AdherenceCheck c) = evTimestamp (acCommon c)"
| "previewTimestamp (OtherEvent i) = 0"

text \<open>Storing a value unless the stored one is newer.\<close>

definition storeLatest :: "('a \<Rightarrow> gotime) \<Rightarrow> string \<Rightarrow> 'a \<Rightarrow> (string \<rightharpoonup> 'a) \<Rightarrow> (string \<rightharpoonup> 'a)" where
  "storeLatest at k v m = (case m k of None \<Rightarrow> m(k \<mapsto> v)
     | Some old \<Rightarrow> if \<not> at v < at old then m(k \<mapsto> v) else m)"

fun project :: "preview \<Rightarrow> event \<Rightarrow> preview" where
  "project s (QueueSnapshot v) =
     s\<lparr>vwQueues := storeLatest (\<lambda>x. evTimestamp (qsCommon x)) (qsQueueID v) v (vwQueues s)\<rparr>"
| "project s (AgentStateChange v) =
     s\<lparr>vwAgents := storeLatest (\<lambda>x. evTimestamp (asCommon x)) (asAgentID v) v (vwAgents s)\<rparr>"
| "project s (AdherenceCheck v) =
     s\<lparr>vwAdherence := storeLatest (\<lambda>x. evTimestamp (acCommon x)) (acAgentID v) v (vwAdherence s)\<rparr>"
| "project s (OtherEvent i) = s"

datatype process_error = PreviewAdvance u64 eval_error | PreviewRequest u64 contract_error
  | PreviewEvaluate u64 eval_error | PreviewApply u64 eval_error | AdvanceDoesNotReturn

definition previewOccurrence :: "envelope \<Rightarrow> accepted_occurrence" where
  "previewOccurrence env = \<lparr>aoID = occurrenceIDString (envID env), aoSource = oidStreamID (envID env),
     aoIdempotencyKey = occurrenceIDString (envID env), aoIngestPosition = envLine env,
     aoSourceEventID = GetEventID (envEvent env), aoEffectiveAt = previewTimestamp (envEvent env),
     aoEvent = Some (envEvent env), aoRaw = envRaw env\<rparr>"

text \<open>The second half of \<^verbatim>\<open>process\<close>, after the projection is updated.\<close>

definition judge ::
  "active_rule list \<Rightarrow> (string \<Rightarrow> policy) \<Rightarrow> preview \<Rightarrow> envelope \<Rightarrow> preview \<times> process_error option"
where
  "judge active policies s env =
     (case NewEvaluationRequest (previewOccurrence env) (vwLogical s) active of
        Inl err \<Rightarrow> (s, Some (PreviewRequest (envLine env) err))
      | Inr request \<Rightarrow> (case Evaluate (vwRuntime s) request (previewProvider s) of
          Inl err \<Rightarrow> (s, Some (PreviewEvaluate (envLine env) err))
        | Inr result \<Rightarrow> (case ApplyResult (vwRuntime s) result of
            (rt, Inl err) \<Rightarrow> (s\<lparr>vwRuntime := rt\<rparr>, Some (PreviewApply (envLine env) err))
          | (rt, Inr ts) \<Rightarrow> (emit policies (s\<lparr>vwRuntime := rt\<rparr>) ts, None))))"

definition process ::
  "active_rule list \<Rightarrow> (string \<Rightarrow> policy) \<Rightarrow> preview \<Rightarrow> envelope \<Rightarrow> preview \<times> process_error option"
where
  "process active policies s env =
     (let at = previewTimestamp (envEvent env);
          s1 = (if at > vwLogical s then s\<lparr>vwLogical := at\<rparr> else s)
      in case AdvanceRuntime (vwRuntime s1) (vwLogical s1) of
           None \<Rightarrow> (s1, Some AdvanceDoesNotReturn)
         | Some (rt, Inl err) \<Rightarrow> (s1\<lparr>vwRuntime := rt\<rparr>, Some (PreviewAdvance (envLine env) err))
         | Some (rt, Inr ts) \<Rightarrow>
             judge active policies (project (emit policies (s1\<lparr>vwRuntime := rt\<rparr>) ts) (envEvent env)) env)"

subsection \<open>The replay\<close>

datatype replay_error = EventsReaderRequired | ActivateRules eval_error
  | ReplayEvents "process_error stream_error" | FinalAdvance eval_error | FinalAdvanceDoesNotReturn

definition startPreview :: "runtime \<Rightarrow> preview" where
  "startPreview rt = \<lparr>vwRuntime = rt, vwAlerts = NewAlerts, vwPlanner = NewPlanner, vwOutput = [],
     vwQueues = Map.empty, vwAgents = Map.empty, vwAdherence = Map.empty, vwLogical = 0\<rparr>"

definition finishPreview ::
  "(string \<Rightarrow> policy) \<Rightarrow> preview \<Rightarrow> replay_error + preview_notification list"
where
  "finishPreview policies s =
     (if isZero (vwLogical s) then Inr (vwOutput s)
      else case AdvanceRuntime (vwRuntime s) (vwLogical s) of
        None \<Rightarrow> Inl FinalAdvanceDoesNotReturn
      | Some (rt, Inl err) \<Rightarrow> Inl (FinalAdvance err)
      | Some (rt, Inr ts) \<Rightarrow> Inr (vwOutput (emit policies (s\<lparr>vwRuntime := rt\<rparr>) ts)))"

definition Replay ::
  "(string \<Rightarrow> json option) \<Rightarrow> string option \<Rightarrow> preview_rule list
     \<Rightarrow> replay_error + preview_notification list"
where
  "Replay parse input configured = (case input of None \<Rightarrow> Inl EventsReaderRequired
     | Some text \<Rightarrow> (let active = map activeOf configured; policies = policiesByID configured in
         case Activate active None of Inl err \<Rightarrow> Inl (ActivateRules err)
         | Inr rt \<Rightarrow> (case Stream parse text ''demo-events'' (process active policies) (startPreview rt) of
             (s, Some err) \<Rightarrow> Inl (ReplayEvents err)
           | (s, None) \<Rightarrow> finishPreview policies s)))"

end
