(* ===== verification/ConditionsOrigin.thy ===== *)
theory ConditionsOrigin
  imports ConditionsProps
begin

text \<open>
  Where the transitions of a condition reducer come from: every tracked key belongs to the
  reducer's rule revision, and the journal of one key opens an episode under a fresh identifier
  each time.
\<close>

subsection \<open>Keys and stamps\<close>

definition belongs :: "rule_config \<Rightarrow> condition_key \<Rightarrow> bool" where
  "belongs cfg k \<longleftrightarrow> cfgRuleID cfg = [] \<or> RuleID k = cfgRuleID cfg \<and> Revision k = cfgRevision cfg"

definition stamped :: "transition \<Rightarrow> bool" where
  "stamped t \<longleftrightarrow> (trDirection t = Trigger \<longrightarrow> (\<exists>n. trID t = transitionID (trKey t) Trigger n \<and>
     trEpisodeID t = conditionEpisodeID (trKey t) n))"

definition invOrigin :: "reducer \<Rightarrow> bool" where
  "invOrigin r \<longleftrightarrow> (\<forall>k \<in> fst ` set (states r). belongs (config r) k) \<and>
     (\<forall>t \<in> set (transitions r). belongs (config r) (trKey t) \<and> stamped t)"

lemma stamped_commit: "stamped (commitTransition key dir s a due p ob)"
  by (auto simp: stamped_def commitTransition_def)

lemma trackerOf_belongs: "invOrigin r \<Longrightarrow> trackerOf r k = Some s \<Longrightarrow> belongs (config r) k"
  by (force simp: invOrigin_def trackerOf_def dest: map_of_SomeD)

lemma invOrigin_store: "invOrigin r \<Longrightarrow> belongs (config r) k \<Longrightarrow> invOrigin (store r k s)"
  by (auto simp: invOrigin_def store_def dom_update)

lemma invOrigin_commit:
  "invOrigin r \<Longrightarrow> belongs (config r) key \<Longrightarrow> invOrigin (fst (commit r key dir s a due p ob))"
  by (auto simp: invOrigin_def states_commit dom_update stamped_commit)

lemma invOrigin_update [simp]:
  "invOrigin (r\<lparr>logical := n\<rparr>) = invOrigin r" "invOrigin (remember r ob) = invOrigin r"
  by (simp_all add: invOrigin_def)

subsection \<open>Every operation\<close>

lemma invOrigin_advanceLoop:
  assumes "invKeys r" and "invOrigin r"
  shows "invOrigin (fst (advanceLoop r now))"
  using assms
proof (induction r rule: advance_induct [where now = now])
  case (fire r tm tms)
  have "belongs (config r) (tmKey tm)"
    by (rule trackerOf_belongs [OF fire.prems timers_Cons(1) [OF fire(1,2)]])
  then show ?case using fire by (simp add: fireDue_def invOrigin_commit)
qed simp

lemma invOrigin_Advance: "invKeys r \<Longrightarrow> invOrigin r \<Longrightarrow> invOrigin (fst (Advance r now))"
  by (simp add: Advance_def Let_def invOrigin_advanceLoop invKeys_def)

lemma invOrigin_Fire:
  assumes "invOrigin r"
  shows "invOrigin (fst (Fire r tm now))"
proof -
  define r1 where "r1 = (if now < logical r then r else r\<lparr>logical := now\<rparr>)"
  have "invOrigin r1" using assms by (simp add: r1_def)
  with assms show ?thesis
    unfolding Fire_def r1_def [symmetric] Let_def
    by (auto split: option.splits intro: invOrigin_commit trackerOf_belongs)
qed

lemma invOrigin_observe:
  assumes "invOrigin r" and "belongs (config r) (obsKey ob)"
  shows "invOrigin (fst (observe r ob))"
proof -
  have "invOrigin (fst (start r (obsKey ob) dir s d ob (logical r)))" for dir s d
    unfolding start_def Let_def store_def [symmetric]
    using invOrigin_store [OF assms] assms(2) by (simp add: invOrigin_commit)
  then show ?thesis
    unfolding observe_def changePhase_def Let_def store_def [symmetric]
    by (simp add: invOrigin_store [OF assms])
qed

lemma invOrigin_Apply:
  assumes "invKeys r" and "invOrigin r"
  shows "invOrigin (fst (Apply r ob))"
proof (cases "accepts r ob")
  case True
  then have b: "belongs (config r) (obsKey ob)" by (simp add: accepts_def belongs_def)
  let ?r = "fst (Advance (remember r ob) (processingTime ob))"
  have "invKeys (remember r ob)" using assms(1) by simp
  then have "invOrigin ?r" "config ?r = config r"
    by (simp_all add: invOrigin_Advance Advance_frame assms(2))
  with b show ?thesis by (simp add: Apply_accepted [OF True] invOrigin_observe)
qed (simp add: Apply_rejected assms)

lemma reachable_origin: "reachable cfg r \<Longrightarrow> invOrigin r \<and> config r = cfg"
  by (induction rule: reachable.induct)
    (auto simp: invOrigin_Apply invOrigin_Advance invOrigin_Fire reachable_invKeys Apply_frame
      Advance_frame Fire_frame, auto simp: New_def invOrigin_def split: if_splits)

subsection \<open>The journal of one key\<close>

lemma distinct_map_filter_nth:
  assumes "\<And>i j. i < length xs \<Longrightarrow> j < length xs \<Longrightarrow> i \<noteq> j \<Longrightarrow> P (xs ! i) \<Longrightarrow> P (xs ! j) \<Longrightarrow> f (xs ! i) \<noteq> f (xs ! j)"
  shows "distinct (map f (filter P xs))"
  using assms
proof (induction xs)
  case (Cons x xs)
  have "distinct (map f (filter P xs))"
    by (rule Cons.IH) (use Cons.prems [of "Suc _" "Suc _"] in simp)
  moreover have "f y \<noteq> f x" if p: "P x" and y: "y \<in> set (filter P xs)" for y
  proof -
    obtain j where "j < length xs" "xs ! j = y" "P y" using y by (auto simp: in_set_conv_nth)
    then show ?thesis using Cons.prems [of "Suc j" 0] p by simp
  qed
  ultimately show ?case by (force simp: image_iff)
qed simp

lemma reachable_key:
  assumes "reachable cfg r" and "cfgRuleID cfg \<noteq> []" and "t \<in> set (transitions r)"
  shows "RuleID (trKey t) = cfgRuleID cfg" and "Revision (trKey t) = cfgRevision cfg"
  using reachable_origin [OF assms(1)] assms(2,3) by (auto simp: invOrigin_def belongs_def)

text \<open>The episodes that the journal of a key opens all have different identifiers.\<close>

lemma distinct_opened:
  assumes "reachable cfg r" and "length (transitions r) < 2 ^ 64"
  shows "distinct (map trEpisodeID (filter (\<lambda>t. trDirection t = Trigger) (journalOf r k)))"
proof -
  let ?J = "journalOf r k"
  have inv: "invSequence r" using reachable_condInv [OF assms(1)] by (simp add: condInv_def)
  have len: "length ?J < 2 ^ 64"
    using assms(2) length_filter_le [of "\<lambda>t. trKey t = k" "transitions r"]
    unfolding journalOf_def by linarith
  have ep: "trEpisodeID (?J ! i) = conditionEpisodeID k (of_nat (Suc i))"
    if "i < length ?J" "trDirection (?J ! i) = Trigger" for i
  proof -
    have "?J ! i \<in> set ?J" using that(1) by simp
    then have "?J ! i \<in> set (transitions r)" "trKey (?J ! i) = k" by (simp_all add: journalOf_def)
    with reachable_origin [OF assms(1)] that(2) obtain n where
      "trID (?J ! i) = transitionID k Trigger n" "trEpisodeID (?J ! i) = conditionEpisodeID k n"
      by (auto simp: invOrigin_def stamped_def)
    moreover have "trID (?J ! i) = transitionID k Trigger (of_nat (Suc i))"
      using inv that by (simp add: invSequence_def)
    ultimately show ?thesis by (simp add: transitionID_inject del: of_nat_Suc)
  qed
  have dis: "of_nat (Suc i) \<noteq> (of_nat (Suc j) :: u64)" if "i < length ?J" "j < length ?J" "i \<noteq> j" for i j
    using that len by (simp add: word_of_nat_eq_iff take_bit_nat_eq_self)
  have "trEpisodeID (?J ! i) \<noteq> trEpisodeID (?J ! j)"
    if "i < length ?J" "j < length ?J" "i \<noteq> j" "trDirection (?J ! i) = Trigger" "trDirection (?J ! j) = Trigger" for i j
    using that dis [of i j] by (simp add: ep del: of_nat_Suc)
  then show ?thesis
    by (rule distinct_map_filter_nth)
qed

end
