(* ===== verification/AlertFlow.thy ===== *)
theory AlertFlow
  imports Preview ConditionsOrigin AlertsProps
begin

text \<open>
  What the alert reducer makes of the transitions of condition reducers: fed with transitions
  whose journals per key are episode sequences, it holds exactly the open episodes.
\<close>

subsection \<open>Episode sequences\<close>

definition opened :: "transition list \<Rightarrow> string set" where
  "opened J = trEpisodeID ` {t \<in> set J. trDirection t = Trigger}"

definition cleared :: "transition list \<Rightarrow> string set" where
  "cleared J = trEpisodeID ` {t \<in> set J. trDirection t \<noteq> Trigger}"

definition onKey :: "condition_key \<Rightarrow> transition list \<Rightarrow> transition list" where
  "onKey k T = filter (\<lambda>t. trKey t = k) T"

lemma opened_simps [simp]:
  "opened [] = {}" "cleared [] = {}"
  "opened (J @ [t]) = opened J \<union> (if trDirection t = Trigger then {trEpisodeID t} else {})"
  "cleared (J @ [t]) = cleared J \<union> (if trDirection t = Trigger then {} else {trEpisodeID t})"
  by (auto simp: opened_def cleared_def)

lemma onKey_simps [simp]:
  "onKey k [] = []" "onKey k (T @ U) = onKey k T @ onKey k U"
  "onKey k [t] = (if trKey t = k then [t] else [])"
  by (simp_all add: onKey_def)

lemma openAfter_snoc:
  "openAfter cur (J @ [t]) = Some c \<longleftrightarrow> (\<exists>d. openAfter cur J = Some d \<and>
     (trDirection t = Trigger \<and> d = None \<and> c = Some (trEpisodeID t) \<or>
      trDirection t = Clear \<and> d = Some (trEpisodeID t) \<and> c = None))"
  by (auto simp: openAfter_append split: option.splits direction.splits if_splits)

lemma openAfter_episodes:
  assumes "openAfter None J = Some c" and "distinct (map trEpisodeID (filter (\<lambda>t. trDirection t = Trigger) J))"
  shows "cleared J \<subseteq> opened J" and "c = Some e \<Longrightarrow> e \<in> opened J \<and> e \<notin> cleared J"
proof -
  have "cleared J \<subseteq> opened J \<and> (\<forall>e. c = Some e \<longrightarrow> e \<in> opened J \<and> e \<notin> cleared J)"
    using assms
  proof (induction J arbitrary: c rule: rev_induct)
    case (snoc t J)
    from snoc.prems(1) obtain d where d: "openAfter None J = Some d"
      "trDirection t = Trigger \<and> d = None \<and> c = Some (trEpisodeID t) \<or>
       trDirection t = Clear \<and> d = Some (trEpisodeID t) \<and> c = None"
      unfolding openAfter_snoc by blast
    have dist: "distinct (map trEpisodeID (filter (\<lambda>t. trDirection t = Trigger) J))"
      using snoc.prems(2) by simp
    note ih = snoc.IH [OF d(1) dist]
    from d(2) show ?case
    proof
      assume t: "trDirection t = Trigger \<and> d = None \<and> c = Some (trEpisodeID t)"
      then have "trEpisodeID t \<notin> opened J" using snoc.prems(2) by (auto simp: opened_def)
      with t ih show ?thesis by auto
    next
      assume "trDirection t = Clear \<and> d = Some (trEpisodeID t) \<and> c = None"
      with ih show ?thesis by auto
    qed
  qed simp
  then show "cleared J \<subseteq> opened J" and "c = Some e \<Longrightarrow> e \<in> opened J \<and> e \<notin> cleared J" by auto
qed

subsection \<open>The interleaved journals\<close>

text \<open>Transitions of many keys, whose journals per key are episode sequences with fresh
  identifiers of that key.\<close>

definition coherent :: "transition list \<Rightarrow> bool" where
  "coherent T \<longleftrightarrow> (\<forall>k. openAfter None (onKey k T) \<noteq> None \<and>
      distinct (map trEpisodeID (filter (\<lambda>t. trDirection t = Trigger) (onKey k T)))) \<and>
     (\<forall>t \<in> set T. trDirection t = Trigger \<longrightarrow> (\<exists>n. trEpisodeID t = conditionEpisodeID (trKey t) n))"

lemma coherentD:
  assumes "coherent T"
  shows "openAfter None (onKey k T) \<noteq> None"
    and "distinct (map trEpisodeID (filter (\<lambda>t. trDirection t = Trigger) (onKey k T)))"
    and "t \<in> set T \<Longrightarrow> trDirection t = Trigger \<Longrightarrow> \<exists>n. trEpisodeID t = conditionEpisodeID (trKey t) n"
  using assms unfolding coherent_def by blast+

lemma coherent_butlast:
  assumes "coherent (T @ [t])"
  shows "coherent T"
  unfolding coherent_def
proof (intro conjI allI)
  fix k
  have "openAfter None (onKey k T @ onKey k [t]) \<noteq> None" using coherentD(1) [OF assms] by simp
  then show "openAfter None (onKey k T) \<noteq> None" by (auto simp only: openAfter_append split: option.splits)
  show "distinct (map trEpisodeID (filter (\<lambda>t. trDirection t = Trigger) (onKey k T)))"
    using coherentD(2) [OF assms, of k] by simp
qed (use coherentD(3) [OF assms] in auto)

lemma opened_key:
  assumes "coherent T" and "e \<in> opened (onKey k T)"
  obtains n where "e = conditionEpisodeID k n"
  using assms by (fastforce simp: coherent_def opened_def onKey_def)

definition openOn :: "transition list \<Rightarrow> condition_key \<Rightarrow> string option" where
  "openOn T k = the (openAfter None (onKey k T))"

lemma coherent_open: "coherent T \<Longrightarrow> openAfter None (onKey k T) = Some (openOn T k)"
  by (auto simp: coherent_def openOn_def)

lemma openOn_opened:
  assumes "coherent T" and "openOn T k = Some e"
  shows "e \<in> opened (onKey k T)" and "e \<notin> cleared (onKey k T)"
  using openAfter_episodes(2) [OF coherent_open [OF assms(1)]] assms by (auto simp: coherent_def)

lemma cleared_keys:
  assumes "coherent T" and "e \<in> cleared T"
  obtains k where "e \<in> cleared (onKey k T)" and "e \<in> opened (onKey k T)"
proof -
  obtain t where t: "t \<in> set T" "trDirection t \<noteq> Trigger" "e = trEpisodeID t"
    using assms(2) by (auto simp: cleared_def)
  then have "e \<in> cleared (onKey (trKey t) T)" by (auto simp: cleared_def onKey_def)
  moreover from this have "e \<in> opened (onKey (trKey t) T)"
    using openAfter_episodes(1) [OF coherent_open [OF assms(1)]] assms(1) by (auto simp: coherent_def)
  ultimately show ?thesis by (rule that)
qed

lemma opened_same_key:
  assumes "coherent T" and "e \<in> opened (onKey k T)" and "e \<in> opened (onKey k' T)"
  shows "k = k'"
proof -
  obtain m n where "e = conditionEpisodeID k m" "e = conditionEpisodeID k' n"
    using opened_key [OF assms(1,2)] opened_key [OF assms(1,3)] by metis
  then show ?thesis by simp
qed

subsection \<open>Feeding the alert reducer\<close>

definition asInput :: "transition \<Rightarrow> alert_input" where
  "asInput t = (if trDirection t = Trigger
     then InStart \<lparr>aeID = trEpisodeID t, aeSeries = seriesKeyOf (trKey t),
       aeRevision = Revision (trKey t), aeOpened = True, aeAt = trAt t,
       aeEffectiveAt = tmsEffectiveAt (trTimes t), aeEvidenceAt = tmsEvidenceAt (trTimes t)\<rparr>
     else InClear (trEpisodeID t) (seriesKeyOf (trKey t)) (trAt t)
       (tmsEffectiveAt (trTimes t)) (tmsEvidenceAt (trTimes t)))"

lemma applyTransition_step: "applyTransition r t = alertStep r (asInput t)"
  by (simp add: applyTransition_def asInput_def)

definition alertsOf :: "transition list \<Rightarrow> alert_reducer" where
  "alertsOf T = alertsAfter (map asInput T)"

lemma alertsOf_simps [simp]:
  "alertsOf [] = NewAlerts" "alertsOf (T @ [t]) = fst (applyTransition (alertsOf T) t)"
  by (simp_all add: alertsOf_def run_append applyTransition_step Let_def case_prod_beta)

lemma alertsOf_inv: "alertInv (alertsOf T)"
  by (simp add: alertsOf_def alertsAfter_inv)

definition openIn :: "(condition_key \<Rightarrow> string option) \<Rightarrow> series_key \<Rightarrow> string set" where
  "openIn f sk = {e. \<exists>k. seriesKeyOf k = sk \<and> f k = Some e}"

lemma openIn_opens:
  assumes "f k0 = None"
  shows "openIn (f(k0 := Some i)) sk = openIn f sk \<union> (if sk = seriesKeyOf k0 then {i} else {})"
proof (rule set_eqI)
  fix e
  have "(\<exists>k. seriesKeyOf k = sk \<and> (if k = k0 then Some i else f k) = Some e) \<longleftrightarrow>
      (\<exists>k. seriesKeyOf k = sk \<and> f k = Some e) \<or> sk = seriesKeyOf k0 \<and> e = i"
    using assms by (metis option.distinct(1) option.inject)
  then show "e \<in> openIn (f(k0 := Some i)) sk \<longleftrightarrow> e \<in> openIn f sk \<union> (if sk = seriesKeyOf k0 then {i} else {})"
    by (simp only: openIn_def fun_upd_def mem_Collect_eq Un_iff) simp
qed

lemma openIn_closes:
  assumes "f k0 = Some i" and "\<And>k. f k = Some i \<Longrightarrow> k = k0"
  shows "openIn (f(k0 := None)) sk = openIn f sk - (if sk = seriesKeyOf k0 then {i} else {})"
proof (rule set_eqI)
  fix e
  have "(\<exists>k. seriesKeyOf k = sk \<and> (if k = k0 then None else f k) = Some e) \<longleftrightarrow>
      (\<exists>k. seriesKeyOf k = sk \<and> f k = Some e) \<and> \<not> (sk = seriesKeyOf k0 \<and> e = i)"
    using assms by (metis option.distinct(1) option.inject)
  then show "e \<in> openIn (f(k0 := None)) sk \<longleftrightarrow> e \<in> openIn f sk - (if sk = seriesKeyOf k0 then {i} else {})"
    by (simp only: openIn_def fun_upd_def mem_Collect_eq Diff_iff) simp
qed

text \<open>The contributors of a series are the open episodes of its keys.\<close>

lemma alertsOf_live:
  assumes "coherent T"
  shows "live (alertsOf T) sk = openIn (openOn T) sk"
    and "closed (alertsOf T) = cleared T"
proof -
  have "(\<forall>sk. live (alertsOf T) sk = openIn (openOn T) sk) \<and>
      closed (alertsOf T) = cleared T"
    using assms
  proof (induction T rule: rev_induct)
    case Nil
    then show ?case
      by (simp add: openIn_def openOn_def NewAlerts_def live_def contributorOf_def)
  next
    case (snoc t T)
    note coh = coherent_butlast [OF snoc.prems]
    from snoc.IH [OF coh] have
      live: "live (alertsOf T) sk = openIn (openOn T) sk" and
      clo: "closed (alertsOf T) = cleared T" for sk by auto
    let ?k = "trKey t" and ?i = "trEpisodeID t"
    obtain c where c: "openAfter None (onKey ?k T @ [t]) = Some c"
      using coherent_open [OF snoc.prems, of ?k] by simp
    then have openOn': "openOn (T @ [t]) = (openOn T)(?k := c)"
      by (simp add: openOn_def fun_eq_iff)
    have d: "trDirection t = Trigger \<and> openOn T ?k = None \<and> c = Some ?i \<or>
        trDirection t = Clear \<and> openOn T ?k = Some ?i \<and> c = None"
      using c coherent_open [OF coh, of ?k] by (auto simp: openAfter_snoc)
    from d show ?case
    proof
      assume t: "trDirection t = Trigger \<and> openOn T ?k = None \<and> c = Some ?i"
      obtain n where n: "?i = conditionEpisodeID ?k n"
        using snoc.prems t by (auto simp: coherent_def)
      have fresh: "?i \<notin> opened (onKey k T)" for k
      proof
        assume i: "?i \<in> opened (onKey k T)"
        from opened_key [OF coh i] n have "k = ?k" by (metis conditionEpisodeID_inject)
        moreover have "?i \<notin> opened (onKey ?k T)"
          using snoc.prems t by (auto simp: coherent_def opened_def dest: spec [of _ ?k])
        ultimately show False using i by simp
      qed
      have "startsAt (alertsOf T) \<lparr>aeID = ?i, aeSeries = seriesKeyOf ?k, aeRevision = Revision ?k,
          aeOpened = True, aeAt = trAt t, aeEffectiveAt = tmsEffectiveAt (trTimes t),
          aeEvidenceAt = tmsEvidenceAt (trTimes t)\<rparr>"
        using fresh openOn_opened(1) [OF coh] cleared_keys [OF coh, of ?i] n
        by (auto simp: startsAt_def clo live openIn_def)
      then show ?thesis
        using t openIn_opens [of "openOn T" ?k ?i] unfolding openOn'
        by (simp add: applyTransition_def live_ApplyStart live clo del: fun_upd_apply)
    next
      assume t: "trDirection t = Clear \<and> openOn T ?k = Some ?i \<and> c = None"
      note mine = openOn_opened [OF coh, of ?k ?i]
      have "?i \<notin> cleared T"
      proof
        assume "?i \<in> cleared T"
        then obtain k where "?i \<in> cleared (onKey k T)" "?i \<in> opened (onKey k T)"
          by (rule cleared_keys [OF coh])
        with mine t opened_same_key [OF coh] show False by blast
      qed
      moreover have "?i \<noteq> []" using opened_key [OF coh mine(1)] t by fastforce
      moreover have "?i \<in> live (alertsOf T) (seriesKeyOf ?k)" using t by (auto simp: live openIn_def)
      ultimately have cl: "clearsAt (alertsOf T) ?i (seriesKeyOf ?k)" by (simp add: clearsAt_def clo)
      have "k = ?k" if "openOn T k = Some ?i" for k
        using opened_same_key [OF coh openOn_opened(1) [OF coh that] mine(1)] t by simp
      then show ?thesis
        using t cl openIn_closes [of "openOn T" ?k ?i] unfolding openOn'
        by (simp add: applyTransition_def live_ApplyClear [OF alertsOf_inv]
            closed_ApplyClear [OF alertsOf_inv] live clo del: fun_upd_apply)
    qed
  qed
  then show "live (alertsOf T) sk = openIn (openOn T) sk"
    and "closed (alertsOf T) = cleared T" by auto
qed

lemma alertsOf_open:
  assumes "coherent T"
  shows "isOpen (alertsOf T) sk \<longleftrightarrow> (\<exists>k. seriesKeyOf k = sk \<and> openOn T k \<noteq> None)"
  using alertInv_isOpen [OF alertsOf_inv] alertsOf_live(1) [OF assms] by (auto simp: openIn_def)

end
