(* ===== verification/RuntimeJournal.thy ===== *)
theory RuntimeJournal
  imports AlertFlow EvaluationObs
begin

text \<open>
  The journal of a runtime: the transitions that \<^verbatim>\<open>Advance\<close> and \<^verbatim>\<open>Apply\<close> return, in
  the order they return them, are for every condition key the journal of the one reducer that
  the key belongs to.
\<close>

subsection \<open>The reducer of a key\<close>

definition runtimeJournal :: "runtime \<Rightarrow> condition_key \<Rightarrow> transition list" where
  "runtimeJournal rt k = concat (map (\<lambda>a. journalOf (avReducer a) k) (ruActive rt))"

definition keyHome :: "condition_key \<Rightarrow> string \<times> int" where
  "keyHome k = (RuleID k, Revision k)"

lemma runtimeInv_reachable:
  assumes "runtimeInv rules resolver rt" and "a \<in> set (ruActive rt)"
  obtains cfg where "reachable cfg (avReducer a)" and "(cfgRuleID cfg, cfgRevision cfg) = avKey a"
    and "cfgRuleID cfg \<noteq> []"
  using assms by (auto elim!: runtimeInv_pinned simp: pinned_def)

lemma transition_home:
  assumes "runtimeInv rules resolver rt" and "a \<in> set (ruActive rt)" and "t \<in> set (transitions (avReducer a))"
  shows "keyHome (trKey t) = avKey a"
proof -
  obtain cfg where "reachable cfg (avReducer a)" "(cfgRuleID cfg, cfgRevision cfg) = avKey a" "cfgRuleID cfg \<noteq> []"
    by (rule runtimeInv_reachable [OF assms(1,2)])
  then show ?thesis using reachable_key [of cfg "avReducer a" t] assms(3) by (simp add: keyHome_def)
qed

lemma journal_away:
  assumes "runtimeInv rules resolver rt" and "a \<in> set (ruActive rt)" and "keyHome k \<noteq> avKey a"
  shows "journalOf (avReducer a) k = []"
  using transition_home [OF assms(1,2)] assms(3) by (auto simp: journalOf_def filter_empty_conv)

lemma concat_single:
  assumes "h < length xs" and "\<And>j. j < length xs \<Longrightarrow> j \<noteq> h \<Longrightarrow> xs ! j = []"
  shows "concat xs = xs ! h"
proof -
  have "concat (take h xs) = []" "concat (drop (Suc h) xs) = []"
    using assms by (auto simp: in_set_conv_nth)
  then show ?thesis
    using id_take_nth_drop [OF assms(1)] by (metis append.right_neutral append_Nil concat.simps(2) concat_append)
qed

lemma home_index:
  assumes "runtimeInv rules resolver rt" and "keyHome k \<in> avKey ` set (ruActive rt)"
  obtains h where "h < length (ruActive rt)" and "avKey (ruActive rt ! h) = keyHome k"
    and "\<And>j. j < length (ruActive rt) \<Longrightarrow> j \<noteq> h \<Longrightarrow> avKey (ruActive rt ! j) \<noteq> keyHome k"
proof -
  obtain h where h: "h < length (ruActive rt)" "avKey (ruActive rt ! h) = keyHome k"
    using assms(2) by (auto simp: in_set_conv_nth)
  moreover have "avKey (ruActive rt ! j) \<noteq> keyHome k" if "j < length (ruActive rt)" "j \<noteq> h" for j
    using runtimeInv_keys(4) [OF assms(1)] h that unfolding distinct_conv_nth by (metis length_map nth_map)
  ultimately show ?thesis by (rule that)
qed

lemma runtimeJournal_home:
  assumes "runtimeInv rules resolver rt" and "h < length (ruActive rt)" and "avKey (ruActive rt ! h) = keyHome k"
  shows "runtimeJournal rt k = journalOf (avReducer (ruActive rt ! h)) k"
proof -
  have "journalOf (avReducer (ruActive rt ! j)) k = []" if "j < length (ruActive rt)" "j \<noteq> h" for j
  proof (rule journal_away [OF assms(1)])
    show "keyHome k \<noteq> avKey (ruActive rt ! j)"
      using runtimeInv_keys(4) [OF assms(1)] assms(2,3) that by (auto simp: distinct_conv_nth)
  qed (use that in simp)
  then show ?thesis
    using concat_single [of h "map (\<lambda>a. journalOf (avReducer a) k) (ruActive rt)"] assms(2)
    by (simp add: runtimeJournal_def)
qed

lemma runtimeJournal_away:
  assumes "runtimeInv rules resolver rt" and "keyHome k \<notin> avKey ` set (ruActive rt)"
  shows "runtimeJournal rt k = []"
  using journal_away [OF assms(1)] assms(2) by (force simp: runtimeJournal_def)

subsection \<open>Growing journals\<close>

text \<open>When every reducer journals some more transitions, so does the runtime.\<close>

lemma onKey_concat: "onKey k (concat xss) = concat (map (onKey k) xss)"
  by (induction xss) simp_all

lemma runtimeJournal_grow:
  assumes inv: "runtimeInv rules resolver rt" "runtimeInv rules resolver rt'"
    and len: "length ds = length (ruActive rt')"
    and grow: "\<And>j. j < length (ruActive rt') \<Longrightarrow> transitions (avReducer (ruActive rt' ! j)) =
      transitions (avReducer (ruActive rt ! j)) @ ds ! j"
  shows "runtimeJournal rt' k = runtimeJournal rt k @ onKey k (concat ds)"
    and "\<And>j t. j < length (ruActive rt') \<Longrightarrow> t \<in> set (ds ! j) \<Longrightarrow> keyHome (trKey t) = avKey (ruActive rt' ! j)"
proof -
  have keys: "map avKey (ruActive rt') = map avKey (ruActive rt)"
    by (simp add: runtimeInv_keys(1) [OF inv(1)] runtimeInv_keys(1) [OF inv(2)])
  then have n: "length (ruActive rt') = length (ruActive rt)" by (metis length_map)
  show home: "keyHome (trKey t) = avKey (ruActive rt' ! j)"
    if "j < length (ruActive rt')" "t \<in> set (ds ! j)" for j t
    using that grow by (intro transition_home [OF inv(2)]) simp_all
  show "runtimeJournal rt' k = runtimeJournal rt k @ onKey k (concat ds)"
  proof (cases "keyHome k \<in> avKey ` set (ruActive rt')")
    case True
    obtain h where h: "h < length (ruActive rt')" "avKey (ruActive rt' ! h) = keyHome k"
      "\<And>j. j < length (ruActive rt') \<Longrightarrow> j \<noteq> h \<Longrightarrow> avKey (ruActive rt' ! j) \<noteq> keyHome k"
      using home_index [OF inv(2) True] by blast
    have "onKey k (ds ! j) = []" if "j < length ds" "j \<noteq> h" for j
      using home [of j] h(3) [of j] that len by (auto simp: onKey_def filter_empty_conv)
    then have "onKey k (concat ds) = onKey k (ds ! h)"
      using concat_single [of h "map (onKey k) ds"] h(1) len by (simp add: onKey_concat)
    moreover have "avKey (ruActive rt ! h) = keyHome k" using h(1,2) keys n by (metis nth_map)
    ultimately show ?thesis
      using runtimeJournal_home [OF inv(1), of h k] runtimeJournal_home [OF inv(2) h(1,2)] grow [OF h(1)] h(1) n
      by (simp add: journalOf_def onKey_def)
  next
    case False
    have "onKey k (concat ds) = []"
      using home False len by (fastforce simp: onKey_def filter_empty_conv in_set_conv_nth)
    moreover have "keyHome k \<notin> avKey ` set (ruActive rt)" using False keys by (metis list.set_map)
    ultimately show ?thesis
      using runtimeJournal_away [OF inv(1)] runtimeJournal_away [OF inv(2) False] by simp
  qed
qed

subsection \<open>Advancing\<close>

lemma Advance_keys:
  assumes "invKeys r"
  shows "distinct (map trKey (snd (Advance r now)))"
proof -
  have "distinct (map trKey (snd (advanceLoop r' n)))" if k: "invKeys r'" for r' n
  proof -
    have "map trKey (snd (advanceLoop r' n)) = map tmKey (dueTimers r' n)"
      by (simp add: advanceLoop_output [OF k] firedTransition_def comp_def)
    also have "distinct \<dots>"
      using distinct_timer_keys [OF k] unfolding dueTimers_def
      by (subst takeWhile_eq_take) (simp add: take_map [symmetric])
    finally show ?thesis .
  qed
  moreover have "invKeys (r\<lparr>logical := n\<rparr>)" for n using assms by (simp add: invKeys_def)
  ultimately show ?thesis by (simp add: Advance_def Let_def)
qed

text \<open>Two lists of the same elements agree where there is at most one.\<close>

lemma onKey_perm:
  assumes "mset xs = mset ys" and "distinct (map trKey ys)"
  shows "onKey k xs = onKey k ys"
proof -
  have m: "mset (onKey k xs) = mset (onKey k ys)" using assms(1) by (simp add: onKey_def)
  have "distinct (map trKey (onKey k ys))" "set (map trKey (onKey k ys)) \<subseteq> {k}"
    using assms(2) by (auto simp: onKey_def distinct_map_filter)
  then have "length (onKey k ys) \<le> 1"
    using card_mono [of "{k}" "set (map trKey (onKey k ys))"] distinct_card [of "map trKey (onKey k ys)"] by simp
  then show ?thesis
    using m mset_eq_length [OF m] by (cases "onKey k ys") (auto simp: length_Suc_conv)
qed

lemma distinct_concat_groups:
  assumes "\<And>d. d \<in> set ds \<Longrightarrow> distinct (map f d)"
    and "\<And>j t. j < length ds \<Longrightarrow> t \<in> set (ds ! j) \<Longrightarrow> g (f t) = h (as ! j)"
    and "distinct (map h as)" and "length as = length ds"
  shows "distinct (map f (concat ds))"
  using assms
proof (induction ds arbitrary: as)
  case (Cons d ds)
  obtain a as' where as: "as = a # as'" using Cons.prems(4) by (cases as) auto
  have "distinct (map f (concat ds))"
  proof (rule Cons.IH)
    show "g (f t) = h (as' ! j)" if "j < length ds" "t \<in> set (ds ! j)" for j t
      using Cons.prems(2) [of "Suc j" t] that as by simp
  qed (use Cons.prems as in auto)
  moreover have "g (f t) = h a" if "t \<in> set d" for t
    using Cons.prems(2) [of 0 t] that as by simp
  moreover have "g (f t) \<noteq> h a" if "t \<in> set (concat ds)" for t
  proof -
    obtain j where j: "j < length ds" "t \<in> set (ds ! j)"
      using \<open>t \<in> set (concat ds)\<close> by (auto simp: in_set_conv_nth [of _ ds])
    then have "g (f t) = h (as' ! j)" using Cons.prems(2) [of "Suc j" t] as by simp
    moreover have "h (as' ! j) \<in> set (map h as')" using j(1) Cons.prems(4) as by simp
    ultimately show ?thesis using Cons.prems(3) as by auto
  qed
  ultimately show ?case using Cons.prems(1) [of d] by (fastforce simp: image_iff)
qed simp

lemma runtimeJournal_Advance:
  assumes inv: "runtimeInv rules resolver rt" and "0 < now" and "ruLogical rt \<le> now"
    and adv: "AdvanceRuntime rt now = Some (rt', res)"
  obtains out where "res = Inr out" and "\<And>k. runtimeJournal rt' k = runtimeJournal rt k @ onKey k out"
proof -
  obtain out where out: "AdvanceRuntime rt now = Some (fst (advanceReducers rt now)\<lparr>ruLogical := now\<rparr>, Inr out)"
    "mset out = mset (snd (advanceReducers rt now))"
    using AdvanceRuntime_merges [OF runtimeInv_ready [OF assms(1-3)]] assms(3) by metis
  have rt': "rt' = fst (advanceReducers rt now)\<lparr>ruLogical := now\<rparr>" and res: "res = Inr out"
    using adv out(1) by simp_all
  have inv': "runtimeInv rules resolver rt'"
    unfolding rt' by (rule runtimeInv_advanceReducers [OF assms(1-3)])
  let ?ds = "map (\<lambda>a. snd (Advance (avReducer a) now)) (ruActive rt)"
  have act: "ruActive rt' = map (\<lambda>a. a\<lparr>avReducer := fst (Advance (avReducer a) now)\<rparr>) (ruActive rt)"
    by (simp add: rt' advanceReducers_def)
  have grow: "transitions (avReducer (ruActive rt' ! j)) = transitions (avReducer (ruActive rt ! j)) @ ?ds ! j"
    if "j < length (ruActive rt')" for j
    using that Advance_frame(4) [OF runtimeInv_invKeys [OF inv]] by (simp add: act)
  have len: "length ?ds = length (ruActive rt')" by (simp add: act)
  note j = runtimeJournal_grow [OF inv inv' len grow]
  have dist: "distinct (map trKey (concat ?ds))"
  proof (rule distinct_concat_groups [where g = keyHome])
    show "distinct (map trKey d)" if "d \<in> set ?ds" for d
      using that Advance_keys [OF runtimeInv_invKeys [OF inv]] by auto
    show "keyHome (trKey t) = avKey (ruActive rt' ! j)" if "j < length ?ds" "t \<in> set (?ds ! j)" for j t
      using j(2) [of j t] that by (simp add: act)
    show "distinct (map avKey (ruActive rt'))" by (rule runtimeInv_keys(4) [OF inv'])
  qed (simp add: act)
  have "mset out = mset (concat ?ds)" using out(2) by (simp add: advanceReducers_def)
  from onKey_perm [OF this dist] j(1) have "runtimeJournal rt' k = runtimeJournal rt k @ onKey k out" for k by simp
  with res show ?thesis by (rule that)
qed

subsection \<open>Applying\<close>

lemma runtimeJournal_applyOne:
  assumes inv: "runtimeInv rules resolver rt" and "timely rt ob"
  defines "i \<equiv> indexOf rt (obsKey ob)"
  shows "runtimeInv rules resolver (setReducer rt i (fst (Apply (avReducer (ruActive rt ! i)) ob)))"
    and "runtimeJournal (setReducer rt i (fst (Apply (avReducer (ruActive rt ! i)) ob))) k =
      runtimeJournal rt k @ onKey k (snd (Apply (avReducer (ruActive rt ! i)) ob))"
proof -
  let ?rt = "setReducer rt i (fst (Apply (avReducer (ruActive rt ! i)) ob))"
  let ?ts = "snd (Apply (avReducer (ruActive rt ! i)) ob)"
  show inv': "runtimeInv rules resolver ?rt"
    using runtimeInv_applyLoop [OF inv, of "[ob]"] assms(2) by (simp add: Let_def case_prod_beta i_def)
  have i: "i < length (ruActive rt)"
    using inv assms(2) by (auto simp: runtimeInv_def indexed_def timely_def i_def indexOf_def)
  let ?ds = "(replicate (length (ruActive rt)) [])[i := ?ts]"
  have "transitions (avReducer (ruActive ?rt ! j)) = transitions (avReducer (ruActive rt ! j)) @ ?ds ! j"
    if "j < length (ruActive ?rt)" for j
    using that i Apply_frame(4) [OF runtimeInv_invKeys [OF inv], of "ruActive rt ! i" ob]
    by (cases "j = i") (simp_all add: setReducer_def)
  from runtimeJournal_grow(1) [OF inv inv' _ this, of k]
  have "runtimeJournal ?rt k = runtimeJournal rt k @ onKey k (concat ?ds)" by simp
  moreover have "concat ?ds = ?ts" using concat_single [of i ?ds] i by simp
  ultimately show "runtimeJournal ?rt k = runtimeJournal rt k @ onKey k ?ts" by simp
qed

lemma runtimeJournal_applyLoop:
  assumes "runtimeInv rules resolver rt" and "\<forall>ob \<in> set obs. timely rt ob"
  shows "runtimeJournal (fst (applyLoop rt obs)) k = runtimeJournal rt k @ onKey k (snd (applyLoop rt obs))"
  using assms
proof (induction obs arbitrary: rt)
  case (Cons ob obs)
  let ?i = "indexOf rt (obsKey ob)"
  let ?rt = "setReducer rt ?i (fst (Apply (avReducer (ruActive rt ! ?i)) ob))"
  have "timely rt ob" using Cons.prems(2) by simp
  note one = runtimeJournal_applyOne [OF Cons.prems(1) this]
  have "\<forall>ob \<in> set obs. timely ?rt ob" using Cons.prems(2) by (simp add: timely_def)
  from Cons.IH [OF one(1) this] one(2) show ?case by (simp add: Let_def case_prod_beta)
qed simp

lemma runtimeJournal_ApplyResult:
  assumes "runtimeInv rules resolver rt" and "ApplyResult rt obs = (rt', res)"
  shows "case res of Inl _ \<Rightarrow> rt' = rt | Inr ts \<Rightarrow> (\<forall>k. runtimeJournal rt' k = runtimeJournal rt k @ onKey k ts)"
  using runtimeJournal_applyLoop [OF assms(1), of obs] checkResult_timely [of rt "{}" None obs] assms(2)
  by (auto simp: ApplyResult_def Let_def case_prod_beta split: option.splits)

subsection \<open>Transitions and open episodes of a runtime\<close>

text \<open>A list of transitions tells the runtime's history.\<close>

definition chronicle :: "runtime \<Rightarrow> transition list \<Rightarrow> bool" where
  "chronicle rt T \<longleftrightarrow> (\<forall>k. onKey k T = runtimeJournal rt k)"

text \<open>Fewer than \<open>2 ^ 64\<close> transitions in every reducer: no counter has wrapped.\<close>

definition unwrapped :: "runtime \<Rightarrow> bool" where
  "unwrapped rt \<longleftrightarrow> list_all (\<lambda>a. length (Transitions (avReducer a)) < 2 ^ 64) (ruActive rt)"

lemma openEpisode_journal:
  assumes "runtimeInv rules resolver rt" and "a \<in> set (ruActive rt)"
  shows "openAfter None (journalOf (avReducer a) k) = Some (openEpisode (avReducer a) k)"
proof -
  obtain cfg where "reachable cfg (avReducer a)" by (rule runtimeInv_reachable [OF assms])
  from reachable_condInv [OF this] show ?thesis by (simp add: condInv_def invLifecycle_def)
qed

lemma chronicle_coherent:
  assumes inv: "runtimeInv rules resolver rt" and T: "chronicle rt T" and u: "unwrapped rt"
  shows "coherent T" and "openOn T k \<noteq> None \<longleftrightarrow> (\<exists>a \<in> set (ruActive rt). openEpisode (avReducer a) k \<noteq> None)"
proof -
  have key: "(\<exists>c. openAfter None (onKey k T) = Some c \<and>
        (c \<noteq> None \<longleftrightarrow> (\<exists>a \<in> set (ruActive rt). openEpisode (avReducer a) k \<noteq> None))) \<and>
      distinct (map trEpisodeID (filter (\<lambda>t. trDirection t = Trigger) (onKey k T))) \<and>
      (\<forall>t \<in> set (onKey k T). stamped t)" for k
  proof (cases "keyHome k \<in> avKey ` set (ruActive rt)")
    case True
    obtain h where h: "h < length (ruActive rt)" "avKey (ruActive rt ! h) = keyHome k"
      "\<And>j. j < length (ruActive rt) \<Longrightarrow> j \<noteq> h \<Longrightarrow> avKey (ruActive rt ! j) \<noteq> keyHome k"
      using home_index [OF inv True] by blast
    let ?a = "ruActive rt ! h"
    have a: "?a \<in> set (ruActive rt)" using h(1) by simp
    obtain cfg where r: "reachable cfg (avReducer ?a)" by (rule runtimeInv_reachable [OF inv a])
    have J: "onKey k T = journalOf (avReducer ?a) k"
      using T runtimeJournal_home [OF inv h(1,2)] by (simp add: chronicle_def)
    have "openEpisode (avReducer b) k = None" if "b \<in> set (ruActive rt)" "b \<noteq> ?a" for b
    proof -
      have "keyHome k \<noteq> avKey b" using that h by (metis in_set_conv_nth)
      from journal_away [OF inv that(1) this] openEpisode_journal [OF inv that(1), of k]
      show ?thesis by simp
    qed
    then have "(\<exists>b \<in> set (ruActive rt). openEpisode (avReducer b) k \<noteq> None) \<longleftrightarrow>
        openEpisode (avReducer ?a) k \<noteq> None" using a by metis
    moreover have "length (transitions (avReducer ?a)) < 2 ^ 64"
      using u a by (auto simp: unwrapped_def list_all_iff Transitions_def)
    note distinct_opened [OF r this, of k]
    moreover have "\<forall>t \<in> set (onKey k T). stamped t"
      using reachable_origin [OF r] by (auto simp: J journalOf_def invOrigin_def)
    ultimately show ?thesis using openEpisode_journal [OF inv a, of k] a by (auto simp: J)
  next
    case False
    then have J: "onKey k T = []" using T runtimeJournal_away [OF inv] by (simp add: chronicle_def)
    have "openEpisode (avReducer b) k = None" if b: "b \<in> set (ruActive rt)" for b
    proof -
      have "keyHome k \<noteq> avKey b" using b False by auto
      from journal_away [OF inv b this] openEpisode_journal [OF inv b, of k] show ?thesis by simp
    qed
    then show ?thesis by (simp add: J)
  qed
  show "coherent T"
    unfolding coherent_def
  proof (intro conjI allI ballI impI)
    show "openAfter None (onKey k T) \<noteq> None" for k using key [of k] by auto
    show "distinct (map trEpisodeID (filter (\<lambda>t. trDirection t = Trigger) (onKey k T)))" for k
      using key [of k] by blast
    fix t assume t: "t \<in> set T" "trDirection t = Trigger"
    then have "t \<in> set (onKey (trKey t) T)" by (simp add: onKey_def)
    with key [of "trKey t"] t(2) show "\<exists>n. trEpisodeID t = conditionEpisodeID (trKey t) n"
      by (auto simp: stamped_def)
  qed
  show "openOn T k \<noteq> None \<longleftrightarrow> (\<exists>a \<in> set (ruActive rt). openEpisode (avReducer a) k \<noteq> None)"
    using key [of k] by (auto simp: openOn_def)
qed

end
