(* ===== verification/PreviewInv.thy ===== *)
theory PreviewInv
  imports RuntimeJournal NotificationsProps EvaluationProps EventsProps
begin

text \<open>
  The states a preview reaches: what \<open>emit\<close> does to alerts, planner and output, and the
  invariant that ties the alert reducer and the notifications to the history of the runtime.
\<close>

subsection \<open>Notifying a journal of alert transitions\<close>

definition ruleOf :: "alert_transition \<Rightarrow> string" where
  "ruleOf t = skRuleID (atSeries t)"

fun notifyAll ::
  "(string \<Rightarrow> policy) \<Rightarrow> planner \<Rightarrow> alert_transition list \<Rightarrow> planner \<times> preview_notification list"
where
  "notifyAll policies p [] = (p, [])"
| "notifyAll policies p (t # ts) =
     (let (p1, out) = planLoop (policies (ruleOf t)) (ruleOf t) p [t];
          (p2, rest) = notifyAll policies p1 ts
      in (p2, out @ rest))"

lemma planLoop_notifyAll:
  "list_all (\<lambda>t. ruleOf t = rid) ts \<Longrightarrow> planLoop (policies rid) rid p ts = notifyAll policies p ts"
  by (induction ts arbitrary: p) (simp_all add: Let_def case_prod_beta)

lemma notifyAll_append:
  "notifyAll policies p (ts @ us) =
     (fst (notifyAll policies (fst (notifyAll policies p ts)) us),
      snd (notifyAll policies p ts) @ snd (notifyAll policies (fst (notifyAll policies p ts)) us))"
  by (induction ts arbitrary: p) (simp_all add: Let_def case_prod_beta)

definition notificationFor :: "(string \<Rightarrow> policy) \<Rightarrow> alert_transition \<Rightarrow> preview_notification" where
  "notificationFor policies t = \<lparr>ntIntent = planIntent t (policies (ruleOf t)), ntAlert = t,
     ntRuleID = ruleOf t, ntSubjectKind = skSubjectKind (atSeries t), ntSubjectID = skSubjectID (atSeries t)\<rparr>"

definition notifiable :: "(string \<Rightarrow> policy) \<Rightarrow> alert_transition \<Rightarrow> bool" where
  "notifiable policies t = wanted (policies (ruleOf t)) t"

text \<open>With fresh identifiers, everything that is wanted is notified.\<close>

lemma notifyAll_fresh:
  assumes "distinct (map atID ts)" and "\<forall>t \<in> set ts. map_of p (IntentID t) = None"
  shows "snd (notifyAll policies p ts) = map (notificationFor policies) (filter (notifiable policies) ts)"
  using assms
proof (induction ts arbitrary: p)
  case (Cons t ts)
  let ?pol = "policies (ruleOf t)"
  have "\<forall>u \<in> set ts. map_of (fst (Plan p t ?pol)) (IntentID u) = None"
    using Cons.prems by (auto simp: map_of_Plan image_iff)
  note ih = Cons.IH [OF _ this]
  show ?case
  proof (cases "wanted ?pol t")
    case True
    then show ?thesis
      using ih Cons.prems by (simp add: Plan_wanted notifiable_def notificationFor_def Let_def case_prod_beta)
  next
    case False
    then show ?thesis
      using ih Cons.prems by (simp add: Plan_unwanted notifiable_def Let_def case_prod_beta)
  qed
qed simp

subsection \<open>Emitting\<close>

text \<open>\<open>T\<close> is the list of all transitions emitted.\<close>

definition told :: "(string \<Rightarrow> policy) \<Rightarrow> preview \<Rightarrow> transition list \<Rightarrow> bool" where
  "told policies s T \<longleftrightarrow> vwAlerts s = alertsOf T \<and>
     (vwPlanner s, vwOutput s) = notifyAll policies NewPlanner (AlertTransitions (vwAlerts s))"

lemma applyTransition_output:
  assumes "alertInv r"
  shows "AlertTransitions (fst (applyTransition r t)) = AlertTransitions r @ snd (applyTransition r t)"
    and "list_all (\<lambda>a. ruleOf a = RuleID (trKey t)) (snd (applyTransition r t))"
  using ApplyStart_output [OF assms] ApplyClear_output [OF assms]
  by (auto simp: applyTransition_def AlertTransitions_def list_all_iff ruleOf_def seriesKeyOf_def)

lemma told_emitOne:
  assumes "told policies s T"
  shows "told policies (emitOne policies s t) (T @ [t])"
proof -
  have r: "vwAlerts s = alertsOf T" and p: "vwPlanner s = fst (notifyAll policies NewPlanner (AlertTransitions (vwAlerts s)))"
    and o': "vwOutput s = snd (notifyAll policies NewPlanner (AlertTransitions (vwAlerts s)))"
    using assms by (simp_all add: told_def prod_eq_iff)
  note a = applyTransition_output [OF alertsOf_inv [of T], of t]
  show ?thesis
    unfolding told_def emitOne_def Let_def case_prod_beta
    by (simp add: planLoop_notifyAll [OF a(2)] r a(1) notifyAll_append p o')
qed

lemma told_emit: "told policies s T \<Longrightarrow> told policies (emit policies s ts) (T @ ts)"
  unfolding emit_def
proof (induction ts arbitrary: s T)
  case (Cons t ts)
  from Cons.IH [OF told_emitOne [OF Cons.prems, of t]] show ?case by simp
qed simp

lemma emit_frame [simp]:
  "vwRuntime (emit policies s ts) = vwRuntime s" "vwLogical (emit policies s ts) = vwLogical s"
  "vwQueues (emit policies s ts) = vwQueues s" "vwAgents (emit policies s ts) = vwAgents s"
  "vwAdherence (emit policies s ts) = vwAdherence s"
proof -
  have one: "vwRuntime (emitOne policies s t) = vwRuntime s \<and> vwLogical (emitOne policies s t) = vwLogical s \<and>
      vwQueues (emitOne policies s t) = vwQueues s \<and> vwAgents (emitOne policies s t) = vwAgents s \<and>
      vwAdherence (emitOne policies s t) = vwAdherence s" for s t
    by (simp add: emitOne_def case_prod_beta Let_def)
  have "vwRuntime (emit policies s ts) = vwRuntime s \<and> vwLogical (emit policies s ts) = vwLogical s \<and>
      vwQueues (emit policies s ts) = vwQueues s \<and> vwAgents (emit policies s ts) = vwAgents s \<and>
      vwAdherence (emit policies s ts) = vwAdherence s"
    unfolding emit_def by (induction ts arbitrary: s) (simp_all add: one)
  then show "vwRuntime (emit policies s ts) = vwRuntime s" "vwLogical (emit policies s ts) = vwLogical s"
    "vwQueues (emit policies s ts) = vwQueues s" "vwAgents (emit policies s ts) = vwAgents s"
    "vwAdherence (emit policies s ts) = vwAdherence s" by auto
qed

lemma told_frame:
  "told policies (s\<lparr>vwRuntime := rt\<rparr>) = told policies s" "told policies (s\<lparr>vwLogical := t\<rparr>) = told policies s"
  "told policies (project s ev) = told policies s"
  by (auto simp: told_def fun_eq_iff) (cases ev; simp)+

lemma project_frame [simp]: "vwRuntime (project s ev) = vwRuntime s" "vwLogical (project s ev) = vwLogical s"
  by (cases ev; simp)+

subsection \<open>The invariant\<close>

definition previewInv :: "active_rule list \<Rightarrow> (string \<Rightarrow> policy) \<Rightarrow> preview \<Rightarrow> bool" where
  "previewInv active policies s \<longleftrightarrow> runtimeInv active None (vwRuntime s) \<and>
     ruLogical (vwRuntime s) \<le> vwLogical s \<and> 0 \<le> vwLogical s \<and>
     (\<exists>T. told policies s T \<and> chronicle (vwRuntime s) T)"

lemma AdvanceRuntime_cases:
  assumes inv: "runtimeInv rules resolver rt" and "ruLogical rt \<le> now" and "0 \<le> now"
  obtains "now = 0" and "AdvanceRuntime rt now = Some (rt, Inl AdvanceTimeRequired)"
  | rt' ts where "0 < now" and "AdvanceRuntime rt now = Some (rt', Inr ts)" and "ruLogical rt' = now"
    and "runtimeInv rules resolver rt'" and "\<And>k. runtimeJournal rt' k = runtimeJournal rt k @ onKey k ts"
proof (cases "now = 0")
  case True
  then show ?thesis using that(1) by (simp add: AdvanceRuntime_def isZero_def)
next
  case False
  then have now: "0 < now" using assms(3) by simp
  obtain out where out: "AdvanceRuntime rt now = Some (fst (advanceReducers rt now)\<lparr>ruLogical := now\<rparr>, Inr out)"
    using AdvanceRuntime_merges [OF runtimeInv_ready [OF inv now assms(2)]] assms(2) by metis
  obtain ts where "Inr out = (Inr ts :: eval_error + transition list)"
    "\<And>k. runtimeJournal (fst (advanceReducers rt now)\<lparr>ruLogical := now\<rparr>) k = runtimeJournal rt k @ onKey k ts"
    using runtimeJournal_Advance [OF inv now assms(2) out] by metis
  then show ?thesis using that(2) [OF now out] runtimeInv_advanceReducers [OF inv now assms(2)] by simp
qed

lemma previewInv_emit:
  assumes "previewInv active policies s" and "runtimeInv active None rt" and "ruLogical rt \<le> vwLogical s"
    and "\<And>k. runtimeJournal rt k = runtimeJournal (vwRuntime s) k @ onKey k ts"
  shows "previewInv active policies (emit policies (s\<lparr>vwRuntime := rt\<rparr>) ts)"
proof -
  obtain T where "told policies s T" "chronicle (vwRuntime s) T" using assms(1) by (auto simp: previewInv_def)
  then have "told policies (emit policies (s\<lparr>vwRuntime := rt\<rparr>) ts) (T @ ts)" "chronicle rt (T @ ts)"
    using told_emit [of policies "s\<lparr>vwRuntime := rt\<rparr>" T ts] assms(4) by (simp_all add: told_frame chronicle_def)
  then show ?thesis using assms(1-3) by (auto simp: previewInv_def)
qed

lemma previewInv_project: "previewInv active policies s \<Longrightarrow> previewInv active policies (project s ev)"
  by (auto simp: previewInv_def told_frame)

lemma applyLoop_logical: "ruLogical (fst (applyLoop rt obs)) = ruLogical rt"
  by (induction obs arbitrary: rt) (simp_all add: Let_def case_prod_beta)

lemma ApplyResult_logical: "ApplyResult rt obs = (rt', res) \<Longrightarrow> ruLogical rt' = ruLogical rt"
  using applyLoop_logical [of rt obs] by (auto simp: ApplyResult_def Let_def case_prod_beta split: option.splits)

lemma previewInv_judge:
  assumes "previewInv active policies s"
  shows "previewInv active policies (fst (judge active policies s env))"
proof -
  have "previewInv active policies (fst (case ApplyResult (vwRuntime s) obs of
      (rt, Inl err) \<Rightarrow> (s\<lparr>vwRuntime := rt\<rparr>, Some (PreviewApply (envLine env) err))
    | (rt, Inr ts) \<Rightarrow> (emit policies (s\<lparr>vwRuntime := rt\<rparr>) ts, None)))" for obs
  proof -
    obtain rt res where a: "ApplyResult (vwRuntime s) obs = (rt, res)" by (cases "ApplyResult (vwRuntime s) obs")
    have inv: "runtimeInv active None (vwRuntime s)" using assms by (simp add: previewInv_def)
    note j = runtimeJournal_ApplyResult [OF inv a]
    show ?thesis
    proof (cases res)
      case (Inl err)
      then have "s\<lparr>vwRuntime := rt\<rparr> = s" using j by simp
      then show ?thesis using assms a Inl by simp
    next
      case (Inr ts)
      have "previewInv active policies (emit policies (s\<lparr>vwRuntime := rt\<rparr>) ts)"
        by (rule previewInv_emit [OF assms runtimeInv_ApplyResult [OF inv a]])
          (use j Inr assms ApplyResult_logical [OF a] in \<open>simp_all add: previewInv_def\<close>)
      then show ?thesis using a Inr by simp
    qed
  qed
  then show ?thesis using assms by (auto simp: judge_def split: sum.split)
qed

lemma previewInv_process:
  assumes "previewInv active policies s"
  shows "previewInv active policies (fst (process active policies s env))"
proof -
  define s1 where "s1 = (if previewTimestamp (envEvent env) > vwLogical s
    then s\<lparr>vwLogical := previewTimestamp (envEvent env)\<rparr> else s)"
  have inv: "previewInv active policies s1"
    using assms by (auto simp: previewInv_def s1_def told_frame)
  then have r: "runtimeInv active None (vwRuntime s1)" "ruLogical (vwRuntime s1) \<le> vwLogical s1" "0 \<le> vwLogical s1"
    by (simp_all add: previewInv_def)
  show ?thesis
  proof (cases rule: AdvanceRuntime_cases [OF r, case_names zero adv])
    case zero
    moreover have "s1\<lparr>vwRuntime := vwRuntime s1\<rparr> = s1" by simp
    ultimately show ?thesis
      using inv unfolding process_def Let_def s1_def [symmetric] by simp
  next
    case (adv rt' ts)
    have "previewInv active policies (emit policies (s1\<lparr>vwRuntime := rt'\<rparr>) ts)"
      by (rule previewInv_emit [OF inv adv(4) _ adv(5)]) (simp add: adv(3))
    from previewInv_judge [OF previewInv_project [OF this]] adv(2) show ?thesis
      unfolding process_def Let_def s1_def [symmetric] by simp
  qed
qed

text \<open>The states after the start and any sequence of events.\<close>

inductive previewReached :: "active_rule list \<Rightarrow> (string \<Rightarrow> policy) \<Rightarrow> preview \<Rightarrow> bool"
  for active policies
where
  started: "Activate active None = Inr rt \<Longrightarrow> previewReached active policies (startPreview rt)"
| processed: "previewReached active policies s \<Longrightarrow>
    previewReached active policies (fst (process active policies s env))"

lemma activateLoop_fresh:
  "activateLoop resolver prev rls rt = Inr rt' \<Longrightarrow> \<forall>a \<in> set (ruActive rt). transitions (avReducer a) = [] \<Longrightarrow>
     (\<forall>a \<in> set (ruActive rt'). transitions (avReducer a) = []) \<and> ruLogical rt' = ruLogical rt"
proof (induction rls arbitrary: prev rt)
  case (Cons rl rls)
  obtain a where a: "activateOne rl resolver = Inr a" and rest: "activateLoop resolver (Some rl) rls
      (rt\<lparr>ruActive := ruActive rt @ [a], ruByKey := (ruByKey rt)(avKey a \<mapsto> length (ruActive rt))\<rparr>) = Inr rt'"
    using Cons.prems(1) by (auto split: if_splits sum.splits)
  have "transitions (avReducer a) = []" using a by (auto simp: activateOne_compiled split: sum.splits)
  with Cons.IH [OF rest] Cons.prems(2) show ?case by simp
qed simp

lemma runtimeJournal_start:
  assumes "Activate active resolver = Inr rt"
  shows "runtimeJournal rt k = []" and "ruLogical rt = 0"
  using activateLoop_fresh [OF assms [unfolded Activate_def]] by (auto simp: runtimeJournal_def journalOf_def)

lemma previewReached_inv: "previewReached active policies s \<Longrightarrow> previewInv active policies s"
proof (induction rule: previewReached.induct)
  case (started rt)
  have "told policies (startPreview rt) []"
    by (simp add: told_def startPreview_def AlertTransitions_def NewAlerts_def)
  moreover have "chronicle rt []"
    using runtimeJournal_start(1) [OF started] by (simp add: chronicle_def)
  ultimately show ?case
    using Activate_inv [OF started] runtimeJournal_start(2) [OF started]
    by (auto simp: previewInv_def startPreview_def)
qed (rule previewInv_process)

end
