(* ===== verification/PreviewProps.thy ===== *)
theory PreviewProps
  imports PreviewInv
begin

text \<open>
  The properties of the preview: what loading decides, that nothing fails behind the event
  boundary, and how alerts and notifications follow the conditions.
\<close>

subsection \<open>Loading and activating\<close>

lemma revisionKey_inject: "revisionKey i m = revisionKey j n \<longleftrightarrow> i = j \<and> m = n"
proof
  assume e: "revisionKey i m = revisionKey j n"
  have slash: "CHR ''/'' \<notin> set (formatInt k)" for k
    using nondigit_notin_decimal [of "CHR ''/''"] by (auto simp: formatInt_def)
  have "rev (formatInt m) @ CHR ''/'' # rev i = rev (formatInt n) @ CHR ''/'' # rev j"
    using arg_cong [OF e, of rev] by (simp add: revisionKey_def)
  from append_sep_inject [OF this] slash have "rev (formatInt m) = rev (formatInt n)" "rev i = rev j" by auto
  then show "i = j \<and> m = n" by simp
qed simp

definition loadable :: "preview_rule \<Rightarrow> bool" where
  "loadable r \<longleftrightarrow> prID r \<noteq> [] \<and> 0 < prRevision r \<and> wf_definition (prDefinition r)"

definition ruleKey :: "preview_rule \<Rightarrow> string \<times> int" where
  "ruleKey r = (prID r, prRevision r)"

lemma checkRules_ok:
  "checkRules seen rs = None \<longleftrightarrow> list_all loadable rs \<and> distinct (map ruleKey rs) \<and>
     (\<forall>r \<in> set rs. revisionKey (prID r) (prRevision r) \<notin> seen)"
  by (induction rs arbitrary: seen)
    (auto simp: loadable_def Validate_ok ruleKey_def revisionKey_inject image_iff)

lemma activatable_loadable:
  "loadable r \<Longrightarrow> activatable None (activeOf r) \<longleftrightarrow> tgGroupIDs (rdTargets (prDefinition r)) = []"
  by (auto simp: activatable_def activeOf_def loadable_def Compile_Inr pinnedOf_def Let_def)

text \<open>What the preview loads, it can activate: rules are loaded exactly when the text holds rules
  with an identifier, a positive revision and a well-formed definition, no two with the same
  identifier and revision; and loaded rules are activated exactly when none of them selects
  groups, which the preview has no resolver for.\<close>

theorem loading_decides:
  "case Option.bind (parse text) decodeRules of
     None \<Rightarrow> LoadRules parse (Some text) = Inl RulesNotDecoded
   | Some rules \<Rightarrow> (LoadRules parse (Some text) = Inr rules \<longleftrightarrow>
        list_all loadable rules \<and> distinct (map ruleKey rules)) \<and>
       ((\<exists>rt. LoadRules parse (Some text) = Inr rules \<and> Activate (map activeOf rules) None = Inr rt) \<longleftrightarrow>
        list_all (\<lambda>r. loadable r \<and> tgGroupIDs (rdTargets (prDefinition r)) = []) rules \<and>
        distinct (map ruleKey rules))"
proof (cases "Option.bind (parse text) decodeRules")
  case (Some rules)
  have load: "LoadRules parse (Some text) = Inr rules \<longleftrightarrow> list_all loadable rules \<and> distinct (map ruleKey rules)"
    using checkRules_ok [of "{}" rules] by (auto simp: LoadRules_def Some split: option.splits)
  have "(\<exists>rt. Activate (map activeOf rules) None = Inr rt) \<longleftrightarrow>
      list_all (\<lambda>r. tgGroupIDs (rdTargets (prDefinition r)) = []) rules"
    if ok: "list_all loadable rules" "distinct (map ruleKey rules)"
  proof -
    let ?active = "sort_by activeRuleLess (map activeOf rules)"
    have "map activeKey (map activeOf rules) = map ruleKey rules"
      by (simp add: activeKey_def activeOf_def ruleKey_def)
    then have "distinct (map activeKey ?active)"
      using ok(2) by (metis active_order.mset_sort_by mset_eq_imp_distinct_iff mset_map)
    with activateLoop_succeeds [where rls = ?active and prev = None and resolver = None] ok(1)
    show ?thesis
      using activatable_loadable
      by (auto simp: Activate_def list_all_iff active_order.set_sort_by active_order.sorted_sort_by)
  qed
  with load show ?thesis by (auto simp: Some list_all_iff)
qed (simp add: LoadRules_def)

subsection \<open>Nothing fails behind the boundary\<close>

lemma Decode_wf: "Decode j = Inr ev \<Longrightarrow> wf_event ev"
  by (auto simp: Decode_def dest: decodeObject_wf(1) split: option.splits json.splits)

lemma previewTimestamp_effective: "previewTimestamp ev = eventEffectiveAt ev"
  by (cases ev) simp_all

text \<open>An event whose identifier is its own and whose time stamp is after Go's zero time.\<close>

definition external :: "event \<Rightarrow> bool" where
  "external ev \<longleftrightarrow> 0 < eventEffectiveAt ev \<and> take 11 (GetEventID ev) \<noteq> ''evaluation_'' \<and>
     take 12 (GetEventID ev) \<noteq> ''demo-events:''"

definition fromStream :: "(string \<Rightarrow> json option) \<Rightarrow> envelope \<Rightarrow> bool" where
  "fromStream parse env \<longleftrightarrow> envID env = \<lparr>oidStreamID = ''demo-events'', oidLine = envLine env\<rparr> \<and>
     envLine env \<noteq> 0 \<and> \<not> blank (envRaw env) \<and>
     (\<exists>j. parse (envRaw env) = Some j \<and> Decode j = Inr (envEvent env))"

lemma previewOccurrence_valid:
  assumes "fromStream parse env" and "external (envEvent env)"
  shows "validateOccurrence (previewOccurrence env) = None"
proof -
  have wf: "wf_event (envEvent env)" using assms(1) by (auto simp: fromStream_def dest: Decode_wf)
  then have "GetEventID (envEvent env) \<noteq> []" by (cases "envEvent env") (simp_all add: wf_id_def)
  moreover have "occurrenceIDString (envID env) \<noteq> GetEventID (envEvent env)"
  proof -
    have "take 12 (occurrenceIDString (envID env)) = ''demo-events:''"
      using assms(1) by (simp add: fromStream_def occurrenceIDString_def)
    then show ?thesis using assms(2) by (metis external_def)
  qed
  moreover have "occurrenceIDString (envID env) \<noteq> []" by (simp add: occurrenceIDString_def)
  moreover have "envRaw env \<noteq> []" using assms(1) by (auto simp: fromStream_def blank.simps)
  ultimately show ?thesis
    using assms by (simp add: validateOccurrence_def previewOccurrence_def previewTimestamp_effective
        fromStream_def external_def isZero_def)
qed

lemma active_rules_valid:
  assumes "runtimeInv active None rt"
  shows "checkActiveRules None (sort_by activeRuleLess active) = None"
proof (rule checkActiveRules_ok)
  show "distinct (map activeKey (sort_by activeRuleLess active))"
    using runtimeInv_keys(1,4) [OF assms] by simp
  show "\<forall>r \<in> set (sort_by activeRuleLess active). validateActiveRule r = None"
  proof
    fix r assume "r \<in> set (sort_by activeRuleLess active)"
    then obtain i where "pinned None r (ruActive rt ! i)" by (rule runtimeInv_lookup [OF assms])
    then show "validateActiveRule r = None"
      by (auto simp: pinned_def validateActiveRule_def Compile_Inr Validate_ok)
  qed
qed (simp_all add: active_order.sorted_sort_by)

lemma observationID_prefix: "take 11 (observationID i k d) = ''evaluation_''"
  by (simp add: observationID_def stableID_def)

lemma judge_succeeds:
  assumes inv: "previewInv active policies s" and clock: "ruLogical (vwRuntime s) = vwLogical s" "0 < vwLogical s"
    and env: "fromStream parse env" "external (envEvent env)" "eventEffectiveAt (envEvent env) \<le> vwLogical s"
  shows "snd (judge active policies s env) = None"
proof -
  let ?occ = "previewOccurrence env"
  have r: "runtimeInv active None (vwRuntime s)" using inv by (simp add: previewInv_def)
  define req where "req = \<lparr>erOccurrence = ?occ, erLogicalTime = vwLogical s,
    erActiveRules = sort_by activeRuleLess active\<rparr>"
  have req: "NewEvaluationRequest ?occ (ruLogical (vwRuntime s)) active = Inr req"
    unfolding clock(1) NewEvaluationRequest_Inr
    using previewOccurrence_valid [OF env(1,2)] active_rules_valid [OF r] clock(2) env(3)
    by (simp add: req_def isZero_def previewOccurrence_def previewTimestamp_effective)
  have wf: "wf_event (envEvent env)" using env(1) by (auto simp: fromStream_def dest: Decode_wf)
  then obtain target where target: "occurrenceTarget (envEvent env) = Some target" "rtID target \<noteq> []"
    by (cases "envEvent env") (auto simp: wf_id_def)
  have "aoEvent ?occ = Some (envEvent env)" by (simp add: previewOccurrence_def)
  note ev = Evaluate_observations [OF r req this target, of "previewProvider s"]
  let ?obs = "observationsOf (vwRuntime s) req target
    (case previewProvider s of None \<Rightarrow> None | Some p \<Rightarrow> p target)"
  have "aoSourceEventID ?occ \<notin> obsID ` set ?obs"
  proof
    assume "aoSourceEventID ?occ \<in> obsID ` set ?obs"
    then obtain ob a where "ob \<in> set (observeEntry req target
        (case previewProvider s of None \<Rightarrow> None | Some p \<Rightarrow> p target) a)" "obsID ob = GetEventID (envEvent env)"
      by (auto simp: observationsOf_def previewOccurrence_def)
    with observeEntry_fields(5) observationID_prefix env(2) show False by (metis external_def)
  qed
  with ev(1) have "Evaluate (vwRuntime s) req (previewProvider s) = Inr ?obs" by simp
  moreover obtain rt ts where "ApplyResult (vwRuntime s) ?obs = (rt, Inr ts)"
    using ev(2) by (auto simp: ApplyResult_def case_prod_beta Let_def)
  ultimately show ?thesis using req by (simp add: judge_def clock(1))
qed

lemma process_succeeds:
  assumes inv: "previewInv active policies s" and env: "fromStream parse env" "external (envEvent env)"
  shows "snd (process active policies s env) = None"
proof -
  define s1 where "s1 = (if previewTimestamp (envEvent env) > vwLogical s
    then s\<lparr>vwLogical := previewTimestamp (envEvent env)\<rparr> else s)"
  have inv1: "previewInv active policies s1"
    using inv by (auto simp: previewInv_def s1_def told_frame)
  then have r: "runtimeInv active None (vwRuntime s1)" "ruLogical (vwRuntime s1) \<le> vwLogical s1" "0 \<le> vwLogical s1"
    by (simp_all add: previewInv_def)
  have at: "eventEffectiveAt (envEvent env) \<le> vwLogical s1" "0 < vwLogical s1"
    using env(2) by (auto simp: s1_def previewTimestamp_effective external_def)
  show ?thesis
  proof (cases rule: AdvanceRuntime_cases [OF r, case_names zero adv])
    case zero
    with at(2) show ?thesis by simp
  next
    case (adv rt' ts)
    let ?s = "project (emit policies (s1\<lparr>vwRuntime := rt'\<rparr>) ts) (envEvent env)"
    have "previewInv active policies (emit policies (s1\<lparr>vwRuntime := rt'\<rparr>) ts)"
      by (rule previewInv_emit [OF inv1 adv(4) _ adv(5)]) (simp add: adv(3))
    then have "snd (judge active policies ?s env) = None"
      by (intro judge_succeeds [OF previewInv_project _ _ env]) (simp_all add: adv(3) at)
    with adv(2) show ?thesis
      unfolding process_def Let_def s1_def [symmetric] by simp
  qed
qed

text \<open>A callback that never fails keeps its invariant to the end of the stream.\<close>

lemma streamLoop_callback:
  assumes "I s" and "unat line + length data < 2 ^ 64"
    and fn: "\<And>s env. I s \<Longrightarrow> envID env = \<lparr>oidStreamID = sid, oidLine = envLine env\<rparr> \<Longrightarrow> envLine env \<noteq> 0 \<Longrightarrow>
      \<not> blank (envRaw env) \<Longrightarrow> \<exists>j. parse (envRaw env) = Some j \<and> Decode j = Inr (envEvent env) \<Longrightarrow>
      I (fst (fn s env)) \<and> snd (fn s env) = None"
  shows "I (fst (streamLoop parse sid fn line data s)) \<and>
    (case snd (streamLoop parse sid fn line data s) of Some (LineCallback l err) \<Rightarrow> False | _ \<Rightarrow> True)"
  using assms(1,2)
proof (induction "length data" arbitrary: line data s rule: less_induct)
  case less
  show ?case
  proof (cases "splitPhysicalLine data")
    case None
    then show ?thesis using less.prems(1) by (simp add: streamLoop.simps [of _ _ _ _ data])
  next
    case (Some p)
    obtain n token where p: "p = (n, token)" by (cases p)
    note split = Some [unfolded p]
    note adv = splitPhysicalLine_advance [OF split]
    show ?thesis
    proof (cases "overflowsBuffer data n \<or> int (length token) > MaxLineBytes \<or> blank token \<or>
        (\<forall>ev. map_option Decode (parse token) \<noteq> Some (Inr ev))")
      case True
      then show ?thesis using less.prems(1)
        by (auto simp: streamLoop.simps [of _ _ _ _ data] split split: option.splits sum.splits)
    next
      case False
      then obtain j ev where ok: "\<not> overflowsBuffer data n" "\<not> int (length token) > MaxLineBytes" "\<not> blank token"
        "parse token = Some j" "Decode j = Inr ev" by auto
      define e where "e = \<lparr>envID = \<lparr>oidStreamID = sid, oidLine = line + 1\<rparr>, envLine = line + 1,
        envEvent = ev, envRaw = token\<rparr>"
      have small: "unat line + 1 < 2 ^ 64" using less.prems(2) adv by linarith
      then have line: "unat (line + 1) = unat line + 1" by (simp add: unat_word_ariths)
      then have nz: "line + 1 \<noteq> 0" by (metis add_is_0 one_neq_zero unat_0)
      have "I (fst (fn s e)) \<and> snd (fn s e) = None"
        by (rule fn [OF less.prems(1)]) (use ok nz in \<open>simp_all add: e_def\<close>)
      then obtain s' where s': "fn s e = (s', None)" "I s'" by (cases "fn s e") auto
      have "length (drop n data) < length data" "unat (line + 1) + length (drop n data) < 2 ^ 64"
        using adv less.prems(2) by (auto simp: line)
      from less.hyps [OF this(1) s'(2) this(2)]
      have "I (fst (streamLoop parse sid fn (line + 1) (drop n data) s')) \<and>
        (case snd (streamLoop parse sid fn (line + 1) (drop n data) s') of Some (LineCallback l err) \<Rightarrow> False | _ \<Rightarrow> True)" .
      moreover have "streamLoop parse sid fn line data s = streamLoop parse sid fn (line + 1) (drop n data) s'"
        using s'(1) unfolding e_def by (subst streamLoop.simps) (simp add: split ok)
      ultimately show ?thesis by simp
    qed
  qed
qed


text \<open>A rule and two events for the witnesses: a queue that misses its target, and meets it again.\<close>

definition previewRule :: rule_definition where
  "previewRule = NewRuleDefinition ''SLA'' [] \<lparr>tgKind = ''queue'', tgIDs = [''q1''], tgGroupIDs = []\<rparr>
     \<lparr>cdPredicate = CompareExpression (demoCompare ''gt''), cdFor = 0\<rparr>
     \<lparr>cdPredicate = CompareExpression (demoCompare ''lte''), cdFor = 0\<rparr>
     \<lparr>npOnOpen = True, npOnRecovery = True, npAudience = ''ops''\<rparr>"

definition previewRules :: "preview_rule list" where
  "previewRules = [\<lparr>prID = ''r'', prRevision = 1, prDefinition = previewRule\<rparr>]"

definition snapshotJSON :: "string \<Rightarrow> string \<Rightarrow> string \<Rightarrow> json" where
  "snapshotJSON i ts wait = JObj [(''event_id'', JStr i), (''ts'', JStr ts), (''type'', JStr ''queue_snapshot''),
     (''queue_id'', JStr ''q1''), (''tickets_waiting'', JNum ''3''), (''longest_wait_sec'', JNum wait),
     (''sla_target_sec'', JNum ''60''), (''agents_available'', JNum ''1''), (''agents_on_call'', JNum ''2''),
     (''volume_last_15m'', JNum ''4''), (''volume_forecast_next_15m'', JNull)]"

definition previewParse :: "string \<Rightarrow> json option" where
  "previewParse s = (if s = ''a'' then Some (snapshotJSON ''e1'' ''2024-01-01T09:00:00Z'' ''90'')
     else if s = ''b'' then Some (snapshotJSON ''e2'' ''2024-01-01T09:05:00Z'' ''30'') else None)"

definition previewText :: string where
  "previewText = [CHR ''a'', CHR 0x0A, CHR ''b'']"

lemma previewRules_activated: "\<exists>rt. Activate (map activeOf previewRules) None = Inr rt"
proof -
  have "\<not> isl (Activate (map activeOf previewRules) None)" by code_simp
  then show ?thesis by (cases "Activate (map activeOf previewRules) None") simp_all
qed

lemma previewParse_external: "previewParse raw = Some j \<Longrightarrow> Decode j = Inr ev \<Longrightarrow> external ev"
proof -
  have "list_all (\<lambda>raw. case map_option Decode (previewParse raw) of Some (Inr ev) \<Rightarrow> external ev | _ \<Rightarrow> False)
      [''a'', ''b'']" by code_simp
  then show "previewParse raw = Some j \<Longrightarrow> Decode j = Inr ev \<Longrightarrow> external ev"
    by (auto simp: previewParse_def split: if_splits)
qed


subsection \<open>Alerts follow conditions, notifications follow alerts\<close>

lemma openEpisode_State:
  "openEpisode r k \<noteq> None \<longleftrightarrow>
     (\<exists>sn. State r k = Some sn \<and> (tsPhase sn = Active \<or> tsPhase sn = PendingClear))"
  by (cases "trackerOf r k") (auto simp: openEpisode_def State_def engaged_def elim!: exportPhase.elims)

lemma isOpen_Series: "isOpen r sk \<longleftrightarrow> (\<exists>x. Series r sk = Some x \<and> seOpen x)"
  by (auto simp: isOpen_def Series_def copySeries_def split: option.splits)

text \<open>C1. Alerts follow the conditions: after any events, and as long as no 64-bit counter has wrapped,
  the alert of a rule and subject is open exactly when a condition of that subject, under some
  active revision of the rule, is active or waiting to clear.\<close>

theorem alerts_follow_conditions:
  assumes "previewReached active policies s" and "unwrapped (vwRuntime s)"
  shows "(\<exists>x. Series (vwAlerts s) sk = Some x \<and> seOpen x) \<longleftrightarrow>
    (\<exists>a \<in> set (ruActive (vwRuntime s)). \<exists>k sn. seriesKeyOf k = sk \<and> State (avReducer a) k = Some sn \<and>
       (tsPhase sn = Active \<or> tsPhase sn = PendingClear))"
proof -
  have inv: "runtimeInv active None (vwRuntime s)" and "\<exists>T. told policies s T \<and> chronicle (vwRuntime s) T"
    using previewReached_inv [OF assms(1)] by (auto simp: previewInv_def)
  then obtain T where T: "vwAlerts s = alertsOf T" "chronicle (vwRuntime s) T" by (auto simp: told_def)
  note coh = chronicle_coherent [OF inv T(2) assms(2)]
  show ?thesis
    unfolding isOpen_Series [symmetric] T(1) alertsOf_open [OF coh(1)] coh(2) openEpisode_State by blast
qed

text \<open>C2. Notifications follow the alerts: after any events, and as long as no 64-bit counter has
  wrapped, the notifications of the preview are one for every alert transition that the policy
  of its rule asks for and none for the others, in the order of the alert journal, each with
  the intent planned from that transition and policy.\<close>

theorem notifications_follow_alerts:
  assumes "previewReached active policies s" and "length (AlertTransitions (vwAlerts s)) < 2 ^ 64"
  shows "vwOutput s = map (notificationFor policies)
    (filter (\<lambda>t. wanted (policies (skRuleID (atSeries t))) t) (AlertTransitions (vwAlerts s)))"
proof -
  obtain T where T: "vwAlerts s = alertsOf T"
    "vwOutput s = snd (notifyAll policies NewPlanner (AlertTransitions (vwAlerts s)))"
    using previewReached_inv [OF assms(1)] by (auto simp: previewInv_def told_def prod_eq_iff)
  have "distinct (map atID (AlertTransitions (vwAlerts s)))"
    using assms(2) unfolding T(1) alertsOf_def by (rule distinct_alert_ids)
  from notifyAll_fresh [OF this, of NewPlanner policies] show ?thesis
    by (simp add: T(2) NewPlanner_def notifiable_def [abs_def] ruleOf_def)
qed

definition previewStart :: preview where
  "previewStart = startPreview (projr (Activate (map activeOf previewRules) None))"

definition previewEnvelope :: envelope where
  "previewEnvelope = \<lparr>envID = \<lparr>oidStreamID = ''demo-events'', oidLine = 1\<rparr>, envLine = 1,
     envEvent = projr (Decode (the (previewParse ''a''))), envRaw = ''a''\<rparr>"

definition previewOpened :: preview where
  "previewOpened = fst (process (map activeOf previewRules) (policiesByID previewRules) previewStart previewEnvelope)"

lemma previewOpened_reached:
  "previewReached (map activeOf previewRules) (policiesByID previewRules) previewOpened"
  using previewRules_activated unfolding previewOpened_def previewStart_def
  by (auto intro!: previewReached.intros)

lemma previewOpened_small: "list_all (\<lambda>a. length (Transitions (avReducer a)) \<le> 1) (ruActive (vwRuntime previewOpened))"
  by code_simp

theorem alerts_follow_conditions_witness:
  "\<exists>a \<in> set (ruActive (vwRuntime previewOpened)). \<exists>k sn. seriesKeyOf k = SeriesKey ''r'' ''queue'' ''q1'' \<and>
     State (avReducer a) k = Some sn \<and> (tsPhase sn = Active \<or> tsPhase sn = PendingClear)"
proof -
  have "unwrapped (vwRuntime previewOpened)"
    using previewOpened_small by (auto simp: unwrapped_def list_all_iff le_Suc_eq)
  moreover have "(case Series (vwAlerts previewOpened) (SeriesKey ''r'' ''queue'' ''q1'') of
      None \<Rightarrow> False | Some x \<Rightarrow> seOpen x)" by code_simp
  then have "\<exists>x. Series (vwAlerts previewOpened) (SeriesKey ''r'' ''queue'' ''q1'') = Some x \<and> seOpen x"
    by (simp split: option.splits)
  ultimately show ?thesis using alerts_follow_conditions [OF previewOpened_reached] by blast
qed

theorem notifications_follow_alerts_witness:
  "map atKind (AlertTransitions (vwAlerts previewOpened)) = [Open] \<and>
   vwOutput previewOpened = map (notificationFor (policiesByID previewRules)) (AlertTransitions (vwAlerts previewOpened))"
proof -
  let ?J = "AlertTransitions (vwAlerts previewOpened)"
  have k: "map atKind ?J = [Open]" by code_simp
  have "list_all (\<lambda>t. wanted (policiesByID previewRules (skRuleID (atSeries t))) t) ?J" by code_simp
  then have "filter (\<lambda>t. wanted (policiesByID previewRules (skRuleID (atSeries t))) t) ?J = ?J"
    by (simp add: list_all_iff)
  moreover have "length ?J < 2 ^ 64" using arg_cong [OF k, of length] by simp
  ultimately show ?thesis using k notifications_follow_alerts [OF previewOpened_reached] by simp
qed

end
