(* ===== verification/ReplayEvidence.thy ===== *)
theory ReplayEvidence
  imports Preview Projections
begin

text \<open>
  The evidence of the durable replay, \<^verbatim>\<open>evidenceProvider\<close> of
  \<^verbatim>\<open>internal/runtime/replay.go\<close>, over the projection builder. The transactions of
  \<^verbatim>\<open>Run\<close> against the database are in \<open>ReplayRun\<close>.
\<close>

fun timestamp :: "event \<Rightarrow> gotime" where
  "timestamp (QueueSnapshot q) = evTimestamp (qsCommon q)"
| "timestamp (AgentStateChange a) = evTimestamp (asCommon a)"
| "timestamp (AdherenceCheck c) = evTimestamp (acCommon c)"
| "timestamp (OtherEvent i) = 0"

text \<open>The branch for queues: the outer option is the case that falls through to the agent's
  fields.\<close>

definition queueLookup :: "queue_state option \<Rightarrow> string \<Rightarrow> operand option option" where
  "queueLookup st name = (case st of None \<Rightarrow> Some None
     | Some q \<Rightarrow>
         if name = ''queue.longest_wait'' then Some (Some (DurationOperand (secondsOf (quLongestWaitSec q))))
         else if name = ''queue.sla_target'' then Some (Some (DurationOperand (secondsOf (quSLATargetSec q))))
         else if name = ''queue.tickets_waiting'' then Some (Some (IntegerOperand (toInt64 (quTicketsWaiting q))))
         else if name = ''queue.agents_available'' then Some (Some (IntegerOperand (toInt64 (quAgentsAvailable q))))
         else if name = ''queue.agents_on_call'' then Some (Some (IntegerOperand (toInt64 (quAgentsOnCall q))))
         else if name = ''queue.volume_last_15m'' then Some (Some (IntegerOperand (toInt64 (quVolumeLast15m q))))
         else if name = ''queue.volume_forecast_next_15m''
         then map_option (\<lambda>n. Some (IntegerOperand (toInt64 n))) (quVolumeForecastNext15m q)
         else None)"

definition builderLookup :: "builder \<Rightarrow> resolved_target \<Rightarrow> field_spec \<Rightarrow> operand option" where
  "builderLookup b target field =
     (case (if rtKind target = SubjectQueue then queueLookup (Queue b (rtID target)) (fsName field) else None) of
        Some result \<Rightarrow> result
      | None \<Rightarrow>
          if fsName field = ''agent.current_state'' \<and> Agent b (rtID target) \<noteq> None
          then Some (AgentStateOperand (agCurrent (the (Agent b (rtID target)))))
          else if fsName field = ''adherence.violation'' \<and> Adherence b (rtID target) \<noteq> None
          then Some (BooleanOperand (ahInViolation (the (Adherence b (rtID target)))))
          else None)"

definition builderEvidence :: "builder \<Rightarrow> resolved_target \<Rightarrow> evidence" where
  "builderEvidence b target = zeroEvidence\<lparr>evLookup := Some (builderLookup b target),
     evTrueSince := (case Adherence b (rtID target) of None \<Rightarrow> 0
       | Some h \<Rightarrow> if ahInViolation h then ahKnownViolationSince h else 0)\<rparr>"

definition evidenceProvider :: "builder \<Rightarrow> evidence_provider" where
  "evidenceProvider b = Some (\<lambda>target. Some (builderEvidence b target))"

end
