(* ===== verification/ReplayProps.thy ===== *)
theory ReplayProps
  imports ReplayEvidence ProjectionsProps RulesProps
begin

text \<open>
  The preview and the durable replay judge rules on the same evidence: after the same events
  their projections answer every field lookup alike, with one exception that the preview does
  not know.
\<close>

subsection \<open>The same events\<close>

text \<open>Building every occurrence; \<open>None\<close> when one is rejected or a duplicate.\<close>

fun buildAll :: "builder \<Rightarrow> accepted_occurrence list \<Rightarrow> builder option" where
  "buildAll b [] = Some b"
| "buildAll b (ao # aos) = (case Build b ao of
       (b', Inr u) \<Rightarrow> if upDuplicate u then None else buildAll b' aos
     | _ \<Rightarrow> None)"

definition projectAll :: "preview \<Rightarrow> accepted_occurrence list \<Rightarrow> preview" where
  "projectAll s aos = foldl (\<lambda>s ao. case aoEvent ao of None \<Rightarrow> s | Some ev \<Rightarrow> project s ev) s aos"

definition sameQueue :: "u64 \<Rightarrow> queue_state option \<Rightarrow> queue_snapshot option \<Rightarrow> bool" where
  "sameQueue pos a b \<longleftrightarrow> (case (a, b) of (None, None) \<Rightarrow> True
     | (Some q, Some v) \<Rightarrow> quLongestWaitSec q = qsLongestWaitSec v \<and> quSLATargetSec q = qsSLATargetSec v \<and>
         quTicketsWaiting q = qsTicketsWaiting v \<and> quAgentsAvailable q = qsAgentsAvailable v \<and>
         quAgentsOnCall q = qsAgentsOnCall v \<and> quVolumeLast15m q = qsVolumeLast15m v \<and>
         pvEffectiveAt (quProvenance q) = evTimestamp (qsCommon v) \<and> pvIngestPosition (quProvenance q) \<le> pos
     | _ \<Rightarrow> False)"

definition sameAgent :: "u64 \<Rightarrow> agent_source_state option \<Rightarrow> agent_state_change option \<Rightarrow> bool" where
  "sameAgent pos a b \<longleftrightarrow> (case (a, b) of (None, None) \<Rightarrow> True
     | (Some q, Some v) \<Rightarrow> agCurrent q = asNewState v \<and>
         pvEffectiveAt (agProvenance q) = evTimestamp (asCommon v) \<and> pvIngestPosition (agProvenance q) \<le> pos
     | _ \<Rightarrow> False)"

definition sameAdherence :: "u64 \<Rightarrow> adherence_state option \<Rightarrow> adherence_check option \<Rightarrow> bool" where
  "sameAdherence pos a b \<longleftrightarrow> (case (a, b) of (None, None) \<Rightarrow> True
     | (Some q, Some v) \<Rightarrow> ahInViolation q = acInViolation v \<and>
         pvEffectiveAt (ahProvenance q) = evTimestamp (acCommon v) \<and> pvIngestPosition (ahProvenance q) \<le> pos
     | _ \<Rightarrow> False)"

definition sameProjections :: "builder \<Rightarrow> preview \<Rightarrow> bool" where
  "sameProjections b s \<longleftrightarrow> (\<forall>i. sameQueue (lastPosition b) (queues b i) (vwQueues s i) \<and>
     sameAgent (lastPosition b) (agents b i) (vwAgents s i) \<and>
     sameAdherence (lastPosition b) (adherence b i) (vwAdherence s i))"

lemmas same_defs = sameQueue_def sameAgent_def sameAdherence_def

lemma same_mono:
  assumes "pos \<le> pos'"
  shows "sameQueue pos a b \<Longrightarrow> sameQueue pos' a b" "sameAgent pos c d \<Longrightarrow> sameAgent pos' c d"
    "sameAdherence pos e f \<Longrightarrow> sameAdherence pos' e f"
  using assms by (auto simp: same_defs split: option.splits intro: order_trans)

lemma Build_accepted:
  assumes "Build b ao = (b', Inr u)" and "\<not> upDuplicate u"
  shows "fresh b ao" and "b' = admitted (fst (built b ao)) ao"
proof -
  have "snd (Build b ao) = Inr u" using assms(1) by simp
  moreover have "\<not> sameIdentity idn (identityOf ao)" if "occurrences b (aoID ao) = Some idn" for idn
  proof
    assume "sameIdentity idn (identityOf ao)"
    with that assms(1) have "duplicateOf b ao = Inr u" by (auto simp: Build_def split: option.splits)
    with assms(2) show False by (auto simp: duplicateOf_def split: option.splits event.splits)
  qed
  ultimately show "fresh b ao" using Build_Inr by blast
  from Build_fresh [OF this] assms(1) show "b' = admitted (fst (built b ao)) ao" by simp
qed

lemma admitted_live [simp]:
  "queues (admitted b ao) = queues b" "agents (admitted b ao) = agents b" "adherence (admitted b ao) = adherence b"
  "lastPosition (admitted b ao) = aoIngestPosition ao"
  by (simp_all add: admitted_def)

lemma live_buildQueue:
  "queues (fst (buildQueue b ao s)) = (queues b)(qsQueueID s := (case queues b (qsQueueID s) of
     None \<Rightarrow> Some (queueCandidate ao s)
   | Some cur \<Rightarrow> if newer (provenanceOf ao) (quProvenance cur) then Some (queueCandidate ao s) else Some cur))"
  "agents (fst (buildQueue b ao s)) = agents b" "adherence (fst (buildQueue b ao s)) = adherence b"
  by (auto simp: buildQueue_def Let_def queueCandidate_def split: option.split)

lemma live_buildAgentState:
  "agents (fst (buildAgentState b ao c)) = (agents b)(asAgentID c := (case agents b (asAgentID c) of
     None \<Rightarrow> Some (agentCandidate ao c)
   | Some cur \<Rightarrow> if newer (provenanceOf ao) (agProvenance cur) then Some (agentCandidate ao c) else Some cur))"
  "queues (fst (buildAgentState b ao c)) = queues b" "adherence (fst (buildAgentState b ao c)) = adherence b"
  by (auto simp: buildAgentState_def Let_def agentCandidate_def split: option.split)

lemma live_buildAdherence:
  "\<exists>cand. ahInViolation cand = acInViolation c \<and> ahProvenance cand = provenanceOf ao \<and>
   adherence (fst (buildAdherence b ao c)) = (adherence b)(acAgentID c := (case adherence b (acAgentID c) of
     None \<Rightarrow> Some cand
   | Some cur \<Rightarrow> if newer (provenanceOf ao) (ahProvenance cur) then Some cand else Some cur))"
  by (rule exI [of _ "adherenceCandidate ao c (adherence b (acAgentID c))"])
    (auto simp: buildAdherence_def Let_def adherenceCandidate_def split: option.split)

lemma live_buildAdherence_frame:
  "queues (fst (buildAdherence b ao c)) = queues b" "agents (fst (buildAdherence b ao c)) = agents b"
  by (auto simp: buildAdherence_def Let_def split: option.split)

text \<open>With increasing positions, \<^verbatim>\<open>newer\<close> is not being before.\<close>

lemma newer_later:
  assumes "pvIngestPosition cur \<le> lastPosition b" and "lastPosition b < aoIngestPosition ao"
  shows "newer (provenanceOf ao) cur \<longleftrightarrow> \<not> aoEffectiveAt ao < pvEffectiveAt cur"
  using assms by (auto simp: newer_def provenanceOf_def)

lemma sameProjections_step:
  assumes same: "sameProjections b s" and ok: "Build b ao = (b', Inr u)" "\<not> upDuplicate u"
  shows "sameProjections b' (case aoEvent ao of None \<Rightarrow> s | Some ev \<Rightarrow> project s ev)"
proof -
  have f: "fresh b ao" and b': "b' = admitted (fst (built b ao)) ao"
    using Build_accepted [OF ok] by simp_all
  have pos: "lastPosition b < aoIngestPosition ao" and v: "validateOccurrence ao = None"
    using f by (simp_all add: fresh_def)
  have at: "aoEffectiveAt ao = eventEffectiveAt ev" if "aoEvent ao = Some ev" for ev
    using v that by (auto simp: validateOccurrence_def split: if_splits)
  have old: "sameQueue (lastPosition b) (queues b i) (vwQueues s i)"
    "sameAgent (lastPosition b) (agents b i) (vwAgents s i)"
    "sameAdherence (lastPosition b) (adherence b i) (vwAdherence s i)" for i
    using same by (auto simp: sameProjections_def)
  have "lastPosition b \<le> aoIngestPosition ao" using pos by simp
  note keep = same_mono(1) [OF this old(1)] same_mono(2) [OF this old(2)] same_mono(3) [OF this old(3)]
  show ?thesis
  proof (rule validated_event [OF v])
    fix q assume q: "aoEvent ao = Some (QueueSnapshot q)"
    have "sameQueue (aoIngestPosition ao) (queues (fst (buildQueue b ao q)) (qsQueueID q))
        (storeLatest (\<lambda>x. evTimestamp (qsCommon x)) (qsQueueID q) q (vwQueues s) (qsQueueID q))"
      using old(1) [of "qsQueueID q"] keep(1) [of "qsQueueID q"] newer_later [OF _ pos] at [OF q]
      by (cases "queues b (qsQueueID q)"; cases "vwQueues s (qsQueueID q)")
        (auto simp: live_buildQueue sameQueue_def storeLatest_def queueCandidate_def provenanceOf_def)
    moreover have "storeLatest (\<lambda>x. evTimestamp (qsCommon x)) (qsQueueID q) q (vwQueues s) i = vwQueues s i"
      if "i \<noteq> qsQueueID q" for i
      using that by (simp add: storeLatest_def split: option.split)
    ultimately show ?thesis
      using keep by (simp add: sameProjections_def b' built_def q live_buildQueue)
  next
    fix c assume c: "aoEvent ao = Some (AgentStateChange c)"
    have "sameAgent (aoIngestPosition ao) (agents (fst (buildAgentState b ao c)) (asAgentID c))
        (storeLatest (\<lambda>x. evTimestamp (asCommon x)) (asAgentID c) c (vwAgents s) (asAgentID c))"
      using old(2) [of "asAgentID c"] keep(2) [of "asAgentID c"] newer_later [OF _ pos] at [OF c]
      by (cases "agents b (asAgentID c)"; cases "vwAgents s (asAgentID c)")
        (auto simp: live_buildAgentState sameAgent_def storeLatest_def agentCandidate_def provenanceOf_def)
    moreover have "storeLatest (\<lambda>x. evTimestamp (asCommon x)) (asAgentID c) c (vwAgents s) i = vwAgents s i"
      if "i \<noteq> asAgentID c" for i
      using that by (simp add: storeLatest_def split: option.split)
    ultimately show ?thesis
      using keep by (simp add: sameProjections_def b' built_def c live_buildAgentState)
  next
    fix c assume c: "aoEvent ao = Some (AdherenceCheck c)"
    obtain cand where cand: "ahInViolation cand = acInViolation c" "ahProvenance cand = provenanceOf ao"
      "adherence (fst (buildAdherence b ao c)) = (adherence b)(acAgentID c := (case adherence b (acAgentID c) of
         None \<Rightarrow> Some cand
       | Some cur \<Rightarrow> if newer (provenanceOf ao) (ahProvenance cur) then Some cand else Some cur))"
      using live_buildAdherence by blast
    have "sameAdherence (aoIngestPosition ao) (adherence (fst (buildAdherence b ao c)) (acAgentID c))
        (storeLatest (\<lambda>x. evTimestamp (acCommon x)) (acAgentID c) c (vwAdherence s) (acAgentID c))"
      using old(3) [of "acAgentID c"] keep(3) [of "acAgentID c"] newer_later [OF _ pos] at [OF c]
      by (cases "adherence b (acAgentID c)"; cases "vwAdherence s (acAgentID c)")
        (auto simp: cand sameAdherence_def storeLatest_def provenanceOf_def)
    moreover have "storeLatest (\<lambda>x. evTimestamp (acCommon x)) (acAgentID c) c (vwAdherence s) i = vwAdherence s i"
      if "i \<noteq> acAgentID c" for i
      using that by (simp add: storeLatest_def split: option.split)
    ultimately show ?thesis
      using keep by (simp add: sameProjections_def b' built_def c live_buildAdherence_frame cand(3))
  qed
qed

lemma sameProjections_run:
  "buildAll b aos = Some b' \<Longrightarrow> sameProjections b s \<Longrightarrow> sameProjections b' (projectAll s aos)"
proof (induction aos arbitrary: b s)
  case (Cons ao aos)
  obtain b1 u where ok: "Build b ao = (b1, Inr u)" "\<not> upDuplicate u" "buildAll b1 aos = Some b'"
    using Cons.prems(1) by (auto split: prod.splits sum.splits if_splits)
  from Cons.IH [OF ok(3) sameProjections_step [OF Cons.prems(2) ok(1,2)]]
  show ?case by (simp add: projectAll_def)
qed (simp add: projectAll_def)

lemma sameProjections_start: "sameProjections NewBuilder (startPreview rt)"
  by (simp add: sameProjections_def same_defs NewBuilder_def startPreview_def)

subsection \<open>The same evidence\<close>

lemma queueLookup_same:
  assumes "sameQueue pos q v" and "fsSubject f = ''queue''" and "(n, f) \<in> set fieldCatalog"
    and "n \<noteq> ''queue.volume_forecast_next_15m''"
  shows "queueLookup q (fsName f) = Some (case v of None \<Rightarrow> None | Some v \<Rightarrow>
      if fsName f = ''queue.longest_wait'' then Some (DurationOperand (secondsOf (qsLongestWaitSec v)))
      else if fsName f = ''queue.sla_target'' then Some (DurationOperand (secondsOf (qsSLATargetSec v)))
      else if fsName f = ''queue.tickets_waiting'' then Some (IntegerOperand (toInt64 (qsTicketsWaiting v)))
      else if fsName f = ''queue.agents_available'' then Some (IntegerOperand (toInt64 (qsAgentsAvailable v)))
      else if fsName f = ''queue.agents_on_call'' then Some (IntegerOperand (toInt64 (qsAgentsOnCall v)))
      else if fsName f = ''queue.volume_last_15m'' then Some (IntegerOperand (toInt64 (qsVolumeLast15m v)))
      else None)"
proof (cases q)
  case None
  with assms(1) show ?thesis by (cases v) (simp_all add: queueLookup_def sameQueue_def)
next
  case (Some x)
  then obtain y where v: "v = Some y" using assms(1) by (cases v) (simp_all add: sameQueue_def)
  have n: "fsName f = ''queue.longest_wait'' \<or> fsName f = ''queue.sla_target'' \<or> fsName f = ''queue.tickets_waiting'' \<or>
      fsName f = ''queue.agents_available'' \<or> fsName f = ''queue.agents_on_call'' \<or> fsName f = ''queue.volume_last_15m''"
    using assms(2-4) by (auto simp: fieldCatalog_def queueField_def)
  show ?thesis using assms(1) n by (elim disjE) (simp_all add: Some v queueLookup_def sameQueue_def)
qed

lemma agent_fields:
  assumes "(n, f) \<in> set fieldCatalog" and "fsSubject f \<noteq> ''queue''"
  shows "fsSubject f = ''agent'' \<and> (fsName f = ''adherence.violation'' \<or> fsName f = ''agent.current_state'')"
  using assms by (auto simp: fieldCatalog_def queueField_def)

lemma same_lookup:
  assumes "sameProjections b s" and "(n, f) \<in> set fieldCatalog" and "fsSubject f = rtKind target"
    and "n \<noteq> ''queue.volume_forecast_next_15m''"
  shows "previewLookup s target f = builderLookup b target f"
proof -
  have same: "sameQueue (lastPosition b) (queues b (rtID target)) (vwQueues s (rtID target))"
    "sameAgent (lastPosition b) (agents b (rtID target)) (vwAgents s (rtID target))"
    "sameAdherence (lastPosition b) (adherence b (rtID target)) (vwAdherence s (rtID target))"
    using assms(1) by (auto simp: sameProjections_def)
  show ?thesis
  proof (cases "rtKind target = ''queue''")
    case True
    then show ?thesis
      using queueLookup_same [OF same(1) _ assms(2,4)] assms(3)
      by (simp add: previewLookup_def builderLookup_def Queue_def)
  next
    case False
    then have a: "rtKind target = ''agent''" "fsName f = ''adherence.violation'' \<or> fsName f = ''agent.current_state''"
      using agent_fields [OF assms(2)] assms(3) by auto
    show ?thesis
      using a(2) same(2,3) unfolding previewLookup_def builderLookup_def a(1) Agent_def Adherence_def
      by (elim disjE) (simp_all add: sameAgent_def sameAdherence_def split: option.splits)
  qed
qed

text \<open>C16. The preview judges rules on the evidence of the durable replay: after any accepted events, the
  in-memory projections of the preview and the projection builder answer the lookup of every
  field of the catalog, for every subject of its kind, alike; late events change neither. The
  exception is the volume forecast, which the preview never answers.\<close>

theorem preview_evidence_agrees:
  assumes "buildAll NewBuilder aos = Some b"
  shows "list_all (\<lambda>(n, f). previewLookup (projectAll (startPreview rt) aos) \<lparr>rtKind = fsSubject f, rtID = i\<rparr> f =
    (if n = ''queue.volume_forecast_next_15m'' then None
     else builderLookup b \<lparr>rtKind = fsSubject f, rtID = i\<rparr> f)) fieldCatalog"
proof -
  note same = sameProjections_run [OF assms sameProjections_start, of rt]
  have "previewLookup (projectAll (startPreview rt) aos) \<lparr>rtKind = fsSubject f, rtID = i\<rparr> f = None"
    if "(''queue.volume_forecast_next_15m'', f) \<in> set fieldCatalog" for f
    using that by (auto simp: fieldCatalog_def queueField_def previewLookup_def split: option.splits)
  with same_lookup [OF same] show ?thesis by (auto simp: list_all_iff)
qed

theorem preview_evidence_agrees_witness:
  "\<exists>b. buildAll NewBuilder [demoAdherence 1 True None, demoAdherence 2 True None] = Some b \<and>
     (\<forall>rt. list_all (\<lambda>(n, f). previewLookup (projectAll (startPreview rt)
           [demoAdherence 1 True None, demoAdherence 2 True None]) \<lparr>rtKind = fsSubject f, rtID = ''a1''\<rparr> f =
         (if n = ''queue.volume_forecast_next_15m'' then None
          else builderLookup b \<lparr>rtKind = fsSubject f, rtID = ''a1''\<rparr> f)) fieldCatalog) \<and>
     map_option (builderLookup b \<lparr>rtKind = ''agent'', rtID = ''a1''\<rparr>) (FieldSpecFor ''adherence.violation'') =
       Some (Some (BooleanOperand True))"
proof -
  let ?aos = "[demoAdherence 1 True None, demoAdherence 2 True None]"
  have "(case buildAll NewBuilder ?aos of None \<Rightarrow> False | Some b \<Rightarrow>
      map_option (builderLookup b \<lparr>rtKind = ''agent'', rtID = ''a1''\<rparr>) (FieldSpecFor ''adherence.violation'') =
        Some (Some (BooleanOperand True)))"
    by code_simp
  then obtain b where b: "buildAll NewBuilder ?aos = Some b"
    "map_option (builderLookup b \<lparr>rtKind = ''agent'', rtID = ''a1''\<rparr>) (FieldSpecFor ''adherence.violation'') =
        Some (Some (BooleanOperand True))"
    by (auto split: option.splits)
  show ?thesis
    by (intro exI [of _ b] conjI allI b preview_evidence_agrees)
qed

end
