(* ===== verification/RuleForms.thy ===== *)
theory RuleForms
  imports RulesDecode Events
begin

text \<open>
  The rule form: the guided definitions of \<^verbatim>\<open>internal/runtime/rules.go\<close>
  (\<^verbatim>\<open>IDs\<close>, \<^verbatim>\<open>Definition\<close>), the templates of
  \<^verbatim>\<open>internal/web/web.go\<close> and the values that \<^verbatim>\<open>RuleForm\<close> of
  \<^verbatim>\<open>internal/runtime/site.go\<close> shows for a stored definition. The revisions
  themselves are in \<open>RuleStore\<close>, the pages in \<open>Site\<close> and \<open>Web\<close>.
\<close>

subsection \<open>White space\<close>

text \<open>\<^verbatim>\<open>strings.TrimSpace\<close>: white space is trimmed on the left, and on the right where
  the last code point of the string is white space.\<close>

function trimLeft :: "string \<Rightarrow> string" where
  "trimLeft s = (if spaceLength s = 0 then s else trimLeft (drop (spaceLength s) s))"
  by pat_completeness auto
termination by (relation "measure length") (auto simp: spaceLength_def split: if_splits)

definition spaceSuffix :: "string \<Rightarrow> nat" where
  "spaceSuffix s =
     (if s = [] then 0
      else if spaceLength (drop (length s - 1) s) = 1 then 1
      else if spaceLength (drop (length s - 2) s) = 2 then 2
      else if spaceLength (drop (length s - 3) s) = 3 then 3
      else 0)"

function trimRight :: "string \<Rightarrow> string" where
  "trimRight s = (if spaceSuffix s = 0 then s else trimRight (take (length s - spaceSuffix s) s))"
  by pat_completeness auto
termination by (relation "measure length") (auto simp: spaceSuffix_def split: if_splits)

declare trimLeft.simps [simp del] trimRight.simps [simp del]

definition TrimSpace :: "string \<Rightarrow> string" where
  "TrimSpace s = trimRight (trimLeft s)"

subsection \<open>The identifiers of a form\<close>

definition isSeparator :: "char \<Rightarrow> bool" where
  "isSeparator c \<longleftrightarrow> c = CHR '','' \<or> c = CHR 0x0A \<or> c = CHR '' ''"

text \<open>\<^verbatim>\<open>strings.FieldsFunc\<close>: the maximal runs without separators; \<open>w\<close> is the run
  being read.\<close>

fun fieldsFunc :: "string \<Rightarrow> string \<Rightarrow> string list" where
  "fieldsFunc w [] = (if w = [] then [] else [w])"
| "fieldsFunc w (c # cs) =
     (if isSeparator c then (if w = [] then [] else [w]) @ fieldsFunc [] cs
      else fieldsFunc (w @ [c]) cs)"

definition IDs :: "string \<Rightarrow> string list" where
  "IDs raw = filter (\<lambda>x. x \<noteq> []) (map TrimSpace (fieldsFunc [] raw))"

subsection \<open>Templates\<close>

type_synonym template_kind = string

definition TemplateQueueSLA :: template_kind where
  "TemplateQueueSLA = ''queue_sla''"

definition TemplateAdherence :: template_kind where
  "TemplateAdherence = ''adherence''"

definition TemplateLongCall :: template_kind where
  "TemplateLongCall = ''long_call''"

record rule_template =
  rtplKind :: template_kind
  rtplName :: string
  rtplSummary :: string
  rtplSubjectKind :: string

definition StandardTemplates :: "rule_template list" where
  "StandardTemplates =
     [\<lparr>rtplKind = TemplateQueueSLA, rtplName = ''Queue SLA breach'',
        rtplSummary = ''Alert when a queue'' @ [CHR 0x27] @ ''s longest wait exceeds its SLA.'',
        rtplSubjectKind = ''queue''\<rparr>,
      \<lparr>rtplKind = TemplateAdherence, rtplName = ''Adherence violation'',
        rtplSummary = ''Alert when selected agents remain out of adherence.'', rtplSubjectKind = ''agent''\<rparr>,
      \<lparr>rtplKind = TemplateLongCall, rtplName = ''Long call'',
        rtplSummary = ''Alert when selected agents remain on a call too long.'', rtplSubjectKind = ''agent''\<rparr>]"

definition templateParts :: "template_kind \<Rightarrow> (string \<times> expression \<times> expression) option" where
  "templateParts template =
     (if template = TemplateQueueSLA then Some (SubjectQueue,
        NewCompare (FieldOperand ''queue.longest_wait'') ''gt'' (FieldOperand ''queue.sla_target''),
        NewCompare (FieldOperand ''queue.longest_wait'') ''lte'' (FieldOperand ''queue.sla_target''))
      else if template = TemplateAdherence then Some (SubjectAgent,
        NewCompare (FieldOperand ''adherence.violation'') ''eq'' (BooleanOperand True),
        NewCompare (FieldOperand ''adherence.violation'') ''eq'' (BooleanOperand False))
      else if template = TemplateLongCall then Some (SubjectAgent,
        NewCompare (FieldOperand ''agent.current_state'') ''eq'' (AgentStateOperand ''on_call''),
        NewCompare (FieldOperand ''agent.current_state'') ''ne'' (AgentStateOperand ''on_call''))
      else None)"

datatype form_error = FormDuration duration_error | FormNameRequired | FormAudienceRequired
  | FormChooseTemplate

text \<open>\<^verbatim>\<open>Definition\<close> returns a definition together with the errors of its
  validation.\<close>

definition Definition ::
  "template_kind \<Rightarrow> string \<Rightarrow> string \<Rightarrow> string \<Rightarrow> string \<Rightarrow> string
     \<Rightarrow> form_error + rule_definition \<times> validation_error list"
where
  "Definition template name description tgts dur aud =
     (case ParseDuration dur of
        Inl e \<Rightarrow> Inl (FormDuration e)
      | Inr d \<Rightarrow>
          if name = [] then Inl FormNameRequired
          else if aud = [] then Inl FormAudienceRequired
          else (case templateParts template of
            None \<Rightarrow> Inl FormChooseTemplate
          | Some (kind, trig, clr) \<Rightarrow>
              let out = NewRuleDefinition name description
                    \<lparr>tgKind = kind, tgIDs = IDs tgts, tgGroupIDs = []\<rparr>
                    \<lparr>cdPredicate = trig, cdFor = d\<rparr> \<lparr>cdPredicate = clr, cdFor = 0\<rparr>
                    \<lparr>npOnOpen = True, npOnRecovery = True, npAudience = aud\<rparr>
              in Inr (out, Validate out)))"

subsection \<open>The edit form\<close>

text \<open>Only a comparison held by value is recognised.\<close>

definition templateFor :: "rule_definition \<Rightarrow> template_kind" where
  "templateFor d = (case cdPredicate (rdTrigger d) of
       CompareExpression c \<Rightarrow>
         if opField (cmLeft c) = ''queue.longest_wait'' then TemplateQueueSLA
         else if opField (cmLeft c) = ''adherence.violation'' then TemplateAdherence
         else if opField (cmLeft c) = ''agent.current_state'' then TemplateLongCall
         else TemplateQueueSLA
     | _ \<Rightarrow> TemplateQueueSLA)"

record rule_form_values =
  rfName :: string
  rfDescription :: string
  rfTargetIDs :: string
  rfGroupIDs :: string
  rfTriggerFor :: string
  rfClearFor :: string
  rfAudience :: string
  rfNotifyOnOpen :: bool
  rfNotifyOnRecovery :: bool
  rfThreshold :: string
  rfAgentState :: string
  rfCanonicalJSON :: string

text \<open>\<^verbatim>\<open>strings.Join\<close> with a comma and a blank.\<close>

fun joinIDs :: "string list \<Rightarrow> string" where
  "joinIDs [] = []"
| "joinIDs [x] = x"
| "joinIDs (x # xs) = x @ '', '' @ joinIDs xs"

definition createValues :: rule_form_values where
  "createValues = \<lparr>rfName = [], rfDescription = [], rfTargetIDs = [], rfGroupIDs = [], rfTriggerFor = ''5m'', rfClearFor = ''0s'',
     rfAudience = ''support-operations'', rfNotifyOnOpen = True, rfNotifyOnRecovery = True,
     rfThreshold = [], rfAgentState = [], rfCanonicalJSON = []\<rparr>"

definition editValues :: "string \<Rightarrow> rule_definition \<Rightarrow> rule_form_values" where
  "editValues raw d = \<lparr>rfName = rdName d, rfDescription = rdDescription d,
     rfTargetIDs = joinIDs (tgIDs (rdTargets d)), rfGroupIDs = [], rfTriggerFor = durationString (cdFor (rdTrigger d)),
     rfClearFor = durationString (cdFor (rdClear d)), rfAudience = npAudience (rdNotifications d),
     rfNotifyOnOpen = npOnOpen (rdNotifications d), rfNotifyOnRecovery = npOnRecovery (rdNotifications d),
     rfThreshold = [], rfAgentState = [], rfCanonicalJSON = raw\<rparr>"

text \<open>The selected template and the values of \<^verbatim>\<open>RuleForm\<close>: for a new rule the requested
  template, and for a stored revision, given as its text and the JSON parsed from it, the
  template read off its definition.\<close>

definition RuleForm ::
  "template_kind \<Rightarrow> (string \<times> json) option \<Rightarrow> (template_kind \<times> rule_form_values) option"
where
  "RuleForm requested stored = (case stored of
       None \<Rightarrow> Some (if requested = [] then TemplateQueueSLA else requested, createValues)
     | Some (raw, j) \<Rightarrow> map_option (\<lambda>d. (templateFor d, editValues raw d)) (unmarshalDefinition j))"

text \<open>Posting a form again, \<^verbatim>\<open>cmd/watchtower/main.go\<close>: the fields it reads.\<close>

definition postForm :: "template_kind \<times> rule_form_values \<Rightarrow> form_error + rule_definition \<times> validation_error list" where
  "postForm f = (case f of (template, v) \<Rightarrow>
     Definition template (rfName v) (rfDescription v) (rfTargetIDs v) (rfTriggerFor v) (rfAudience v))"

end
