(* ===== verification/RuleFormsProps.thy ===== *)
theory RuleFormsProps
  imports RuleForms RulesProps
begin

text \<open>
  What the rule form guarantees: the identifiers it reads, the complementary conditions of its
  templates, and what an edit of a stored rule keeps.
\<close>

subsection \<open>Trimming\<close>

lemma spaceLength_append: "0 < spaceLength p \<Longrightarrow> spaceLength (p @ q) = spaceLength p"
proof -
  assume p: "0 < spaceLength p"
  then obtain a p1 where [simp]: "p = a # p1" by (cases p) (auto simp: spaceLength_def)
  show "spaceLength (p @ q) = spaceLength p"
  proof (cases p1)
    case Nil
    with p show ?thesis by (auto simp: spaceLength_def split: if_splits)
  next
    case (Cons b p2)
    with p show ?thesis by (cases p2) (auto simp: spaceLength_def split: if_splits)
  qed
qed

lemma spaceLength_take: "spaceLength s = 0 \<Longrightarrow> spaceLength (take n s) = 0"
  using spaceLength_append [of "take n s" "drop n s"] by fastforce

lemma spaceLength_trimLeft [simp]: "spaceLength (trimLeft s) = 0"
  by (induction s rule: trimLeft.induct) (subst trimLeft.simps, simp)

lemma trimRight_take: "\<exists>n. trimRight s = take n s"
proof (induction s rule: trimRight.induct)
  case (1 s)
  show ?case
  proof (cases "spaceSuffix s = 0")
    case True
    then show ?thesis by (subst trimRight.simps) (auto intro: exI [of _ "length s"])
  next
    case False
    with 1 obtain n where "trimRight (take (length s - spaceSuffix s) s) = take n (take (length s - spaceSuffix s) s)"
      by blast
    with False show ?thesis by (subst trimRight.simps) (auto simp: take_take)
  qed
qed

lemma spaceSuffix_trimRight [simp]: "spaceSuffix (trimRight s) = 0"
  by (induction s rule: trimRight.induct) (subst trimRight.simps, simp)

lemma set_trimLeft: "set (trimLeft s) \<subseteq> set s"
proof (induction s rule: trimLeft.induct)
  case (1 s)
  then show ?case by (subst trimLeft.simps) (auto dest: in_set_dropD)
qed

lemma TrimSpace_trimmed: "spaceLength (TrimSpace s) = 0" "spaceSuffix (TrimSpace s) = 0" "set (TrimSpace s) \<subseteq> set s"
proof -
  obtain n where n: "trimRight (trimLeft s) = take n (trimLeft s)" using trimRight_take by blast
  then show "spaceLength (TrimSpace s) = 0" by (simp add: TrimSpace_def spaceLength_take)
  show "spaceSuffix (TrimSpace s) = 0" by (simp add: TrimSpace_def)
  show "set (TrimSpace s) \<subseteq> set s"
    using set_trimLeft [of s] by (auto simp: TrimSpace_def n dest: in_set_takeD)
qed

lemma TrimSpace_id: "spaceLength s = 0 \<Longrightarrow> spaceSuffix s = 0 \<Longrightarrow> TrimSpace s = s"
  by (simp add: TrimSpace_def trimLeft.simps [of s] trimRight.simps [of s])

subsection \<open>Identifiers\<close>

definition plainID :: "string \<Rightarrow> bool" where
  "plainID x \<longleftrightarrow> x \<noteq> [] \<and> list_all (\<lambda>c. \<not> isSeparator c) x \<and> spaceLength x = 0 \<and> spaceSuffix x = 0"

lemma fieldsFunc_words:
  assumes "list_all (\<lambda>c. \<not> isSeparator c) w"
  shows "list_all (\<lambda>x. x \<noteq> [] \<and> list_all (\<lambda>c. \<not> isSeparator c) x) (fieldsFunc w s)"
  using assms by (induction w s rule: fieldsFunc.induct) auto

lemma fieldsFunc_word: "list_all (\<lambda>c. \<not> isSeparator c) x \<Longrightarrow> fieldsFunc w (x @ s) = fieldsFunc (w @ x) s"
  by (induction x arbitrary: w) auto

lemma fieldsFunc_join:
  assumes "list_all plainID ids"
  shows "fieldsFunc [] (joinIDs ids) = ids"
  using assms
proof (induction ids rule: joinIDs.induct)
  case (2 x)
  then show ?case using fieldsFunc_word [of x "[]" "[]"] by (simp add: plainID_def)
next
  case (3 x y zs)
  then show ?case using fieldsFunc_word [of x "[]"] by (simp add: plainID_def isSeparator_def)
qed simp

lemma IDs_plain: "list_all plainID (IDs raw)"
proof -
  have "list_all (\<lambda>c. \<not> isSeparator c) (TrimSpace x)" if "list_all (\<lambda>c. \<not> isSeparator c) x" for x
    using that TrimSpace_trimmed(3) [of x] by (auto simp: list_all_iff)
  with fieldsFunc_words [of "[]" raw] show ?thesis
    by (auto simp: IDs_def plainID_def list_all_iff TrimSpace_trimmed(1,2))
qed

lemma IDs_joinIDs: "IDs (joinIDs ids) = ids \<longleftrightarrow> list_all plainID ids"
proof -
  have "IDs (joinIDs xs) = xs" if "list_all plainID xs" for xs
  proof -
    have "map TrimSpace xs = xs" using that by (induction xs) (auto simp: plainID_def TrimSpace_id)
    moreover have "filter (\<lambda>x. x \<noteq> []) xs = xs" using that by (induction xs) (auto simp: plainID_def)
    ultimately show ?thesis by (simp add: IDs_def fieldsFunc_join [OF that])
  qed
  then show ?thesis using IDs_plain [of "joinIDs ids"] by metis
qed

text \<open>The text of the form and the list of identifiers determine each other: a list of
  identifiers that the edit form joins is read back exactly when every identifier is non-empty,
  has no comma, newline or blank inside and no white space at its ends. Identifiers read from a
  form are always of that kind.\<close>

theorem form_identifiers_roundtrip:
  "(IDs (joinIDs ids) = ids \<longleftrightarrow> list_all plainID ids) \<and> IDs (joinIDs (IDs raw)) = IDs raw"
  using IDs_joinIDs IDs_plain by blast

subsection \<open>Templates\<close>

lemma Definition_result:
  assumes "Definition t n desc tgs dur aud = Inr (d, es)"
  obtains td kind trig clr where "ParseDuration dur = Inr td" "templateParts t = Some (kind, trig, clr)"
    "d = NewRuleDefinition n desc \<lparr>tgKind = kind, tgIDs = IDs tgs, tgGroupIDs = []\<rparr>
       \<lparr>cdPredicate = trig, cdFor = td\<rparr> \<lparr>cdPredicate = clr, cdFor = 0\<rparr>
       \<lparr>npOnOpen = True, npOnRecovery = True, npAudience = aud\<rparr>"
    "es = Validate d" "n \<noteq> []" "aud \<noteq> []"
  using assms by (auto simp: Definition_def Let_def split: sum.splits if_splits option.splits)

text \<open>A pair of comparisons of which one negates the other.\<close>

definition complementary :: "expression \<Rightarrow> expression \<Rightarrow> bool" where
  "complementary a b \<longleftrightarrow> (\<forall>l. (evaluateAll (flatten a) l, evaluateAll (flatten b) l) \<in>
     {(PredicateUnknown, PredicateUnknown), (PredicateTrue, PredicateFalse), (PredicateFalse, PredicateTrue)})"

lemma evaluateAll_single: "evaluateAll [c] l = evaluateComparison c l"
  by (simp add: evaluateAll_def split: predicate_result.split)

text \<open>How the operands of a comparison relate; \<open>None\<close> when the evidence does not say.\<close>

definition related :: "operand \<Rightarrow> operand \<Rightarrow> field_lookup \<Rightarrow> int option" where
  "related a b l = (case (resolveOperand a l, resolveOperand b l) of
     (Some x, Some y) \<Rightarrow> if opKind x \<noteq> opKind y then None else relationOf x y
   | _ \<Rightarrow> None)"

lemma evaluateAll_compare:
  "evaluateAll (flatten (NewCompare a op b)) l =
     (case related a b l of None \<Rightarrow> PredicateUnknown | Some r \<Rightarrow> applyOperator op r)"
  by (simp add: NewCompare_def evaluateAll_single evaluateComparison_def related_def split: option.split)

lemma applyOperator_negated:
  "applyOperator ''gt'' r = truth (\<not> r \<le> 0)" "applyOperator ''lte'' r = truth (r \<le> 0)"
  "applyOperator ''ne'' r = truth (r \<noteq> 0)" "applyOperator ''eq'' r = truth (r = 0)"
  by (simp_all add: applyOperator_def not_le)

lemma complementary_operators:
  "complementary (NewCompare a ''gt'' b) (NewCompare a ''lte'' b)"
  "complementary (NewCompare a ''eq'' b) (NewCompare a ''ne'' b)"
  unfolding complementary_def evaluateAll_compare applyOperator_negated
  by (simp_all add: truth_def split: option.split)

lemma resolve_boolean: "resolveOperand (BooleanOperand b) l = Some (BooleanOperand b)"
  by (simp add: resolveOperand_def BooleanOperand_def zeroOperand_def)

lemma boolean_operand: "opKind (BooleanOperand b) = OperandBoolean" "opBoolean (BooleanOperand b) = b"
  by (simp_all add: BooleanOperand_def zeroOperand_def)

lemma complementary_boolean:
  "complementary (NewCompare a ''eq'' (BooleanOperand True)) (NewCompare a ''eq'' (BooleanOperand False))"
proof -
  have "related a (BooleanOperand b) l = (case resolveOperand a l of None \<Rightarrow> None
      | Some x \<Rightarrow> if opKind x \<noteq> OperandBoolean then None
          else Some (if opBoolean x = b then 0 else if opBoolean x then 1 else -1))" for b l
    by (simp add: related_def resolve_boolean boolean_operand relationOf_def split: option.split)
  then show ?thesis
    unfolding complementary_def evaluateAll_compare applyOperator_negated
    by (simp add: truth_def split: option.split)
qed

lemma templateParts_complementary: "templateParts t = Some (kind, trig, clr) \<Longrightarrow> complementary trig clr"
  by (auto simp: templateParts_def complementary_operators complementary_boolean split: if_splits)

lemma Compile_explicit:
  assumes "Validate r = []" and "tgGroupIDs (rdTargets r) = []"
  shows "\<exists>p. Compile r resolver = Inr p \<and> plTrigger p = flatten (cdPredicate (rdTrigger r)) \<and>
    plClear p = flatten (cdPredicate (rdClear r))"
  using assms by (cases resolver) (simp_all add: Compile_def canonicalIDs_def [of "[]"] Let_def)

text \<open>C30. A rule made from a template can never trigger and clear at once, and never stands still on known
  evidence: once it validates it compiles, without groups to resolve, and on every evidence the
  trigger and the clear condition of its plan are both unknown or exactly one of them holds.\<close>

theorem template_clear_complements_trigger:
  "case Definition t n desc tgs dur aud of
     Inr (d, []) \<Rightarrow> (case Compile d resolver of
         Inl _ \<Rightarrow> False
       | Inr p \<Rightarrow> (EvaluateTrigger p l, EvaluateClear p l) \<in>
           {(PredicateUnknown, PredicateUnknown), (PredicateTrue, PredicateFalse), (PredicateFalse, PredicateTrue)})
   | _ \<Rightarrow> True"
proof (cases "\<exists>d. Definition t n desc tgs dur aud = Inr (d, [])")
  case True
  then obtain d where d: "Definition t n desc tgs dur aud = Inr (d, [])" by blast
  from Definition_result [OF this] obtain kind trig clr where parts: "templateParts t = Some (kind, trig, clr)"
    "Validate d = []" "tgGroupIDs (rdTargets d) = []" "cdPredicate (rdTrigger d) = trig" "cdPredicate (rdClear d) = clr"
    by (metis NewRuleDefinition_def condition.select_convs(1) rule_definition.select_convs(4,5,6) targets.select_convs(3))
  from Compile_explicit [OF parts(2,3), of resolver] obtain p where "Compile d resolver = Inr p"
    "plTrigger p = flatten trig" "plClear p = flatten clr" unfolding parts(4,5) by blast
  with templateParts_complementary [OF parts(1)] show ?thesis
    by (simp add: d EvaluateTrigger_def EvaluateClear_def complementary_def)
qed (auto split: sum.split list.split)

subsection \<open>Editing\<close>

lemma ParseDuration_durationString: "ParseDuration s = Inr td \<Longrightarrow> ParseDuration (durationString td) = Inr td"
  using ParseDuration_valid [of s td] canonicalDurationString_None [of td] duration_print_parse
  by (auto simp: durationString_def split: option.split)

text \<open>Editing without a change keeps the rule: the values that the edit form shows for a
  definition made from a template, posted again with that template, give the same definition and
  the same validation errors.\<close>

theorem edit_form_roundtrip:
  "case Definition t n desc tgs dur aud of
     Inl _ \<Rightarrow> True
   | Inr (d, es) \<Rightarrow> templateFor d = t \<and> postForm (t, editValues raw d) = Inr (d, es)"
proof (cases "Definition t n desc tgs dur aud")
  case (Inr r)
  obtain d es where r: "r = (d, es)" by (cases r)
  from Definition_result [OF Inr [unfolded r]] obtain td kind trig clr where
    parts: "ParseDuration dur = Inr td" "templateParts t = Some (kind, trig, clr)"
    "d = NewRuleDefinition n desc \<lparr>tgKind = kind, tgIDs = IDs tgs, tgGroupIDs = []\<rparr>
       \<lparr>cdPredicate = trig, cdFor = td\<rparr> \<lparr>cdPredicate = clr, cdFor = 0\<rparr>
       \<lparr>npOnOpen = True, npOnRecovery = True, npAudience = aud\<rparr>"
    "es = Validate d" "n \<noteq> []" "aud \<noteq> []" .
  have ids: "IDs (joinIDs (IDs tgs)) = IDs tgs" using IDs_joinIDs IDs_plain by blast
  have "templateFor d = t"
    using parts(2) by (auto simp: parts(3) templateFor_def templateParts_def NewRuleDefinition_def NewCompare_def
        FieldOperand_def zeroOperand_def split: if_splits)
  moreover have "postForm (t, editValues raw d) = Inr (d, es)"
    using parts(1,2,5,6)
    by (simp add: postForm_def editValues_def Definition_def parts(3,4) NewRuleDefinition_def
        ParseDuration_durationString ids Let_def)
  ultimately show ?thesis by (simp add: Inr r)
qed simp

lemma decodeExpression_refs: "decodeExpression j = Some e \<Longrightarrow> e \<noteq> CompareExpression c"
  by (subst (asm) decodeExpression.simps) (auto split: option.splits if_splits)

lemma templateFor_decoded:
  assumes "unmarshalDefinition j = Some d"
  shows "templateFor d = TemplateQueueSLA"
proof -
  obtain tr where tr: "unmarshalCondition tr = Some (rdTrigger d)"
    using assms by (auto simp: unmarshalDefinition_def Let_def split: option.splits if_splits)
  obtain p where "decodeExpression p = Some (cdPredicate (rdTrigger d))"
    by (cases "rdTrigger d") (use tr in \<open>auto simp: unmarshalCondition_def split: option.splits\<close>)
  with decodeExpression_refs show ?thesis
    by (auto simp: templateFor_def split: expression.split)
qed

lemma postForm_queue:
  assumes "postForm (TemplateQueueSLA, v) = Inr (d, es)"
  shows "tgKind (rdTargets d) = ''queue'' \<and> rdName d = rfName v"
  using assms
  by (auto simp: postForm_def templateParts_def NewRuleDefinition_def split: if_splits elim!: Definition_result)

lemma editValues_name: "rfName (editValues raw d) = rdName d"
  by (simp add: editValues_def)

text \<open>The edit form forgets the template: whatever revision is stored, the form selects the queue template,
  shows the name of the revision, and posting the form, if it succeeds, makes a rule on queues.\<close>

theorem edit_form_forgets_template:
  "case RuleForm requested (Some (raw, j)) of
     None \<Rightarrow> unmarshalDefinition j = None
   | Some (template, v) \<Rightarrow> template = TemplateQueueSLA \<and>
       map_option rdName (unmarshalDefinition j) = Some (rfName v) \<and>
       (case postForm (template, v) of
          Inl _ \<Rightarrow> True
        | Inr (d, _) \<Rightarrow> tgKind (rdTargets d) = ''queue'' \<and> rdName d = rfName v)"
proof (cases "unmarshalDefinition j")
  case None
  then show ?thesis by (simp add: RuleForm_def)
next
  case (Some d)
  from templateFor_decoded [OF this]
  have form: "RuleForm requested (Some (raw, j)) = Some (TemplateQueueSLA, editValues raw d)"
    by (simp add: RuleForm_def Some)
  show ?thesis
  proof (cases "postForm (TemplateQueueSLA, editValues raw d)")
    case (Inr r)
    obtain d' es where r: "r = (d', es)" by (cases r)
    from postForm_queue [OF Inr [unfolded r]] show ?thesis
      by (simp add: form Inr r Some editValues_name)
  qed (simp add: form Some editValues_name)
qed

end
