(* ===== verification/Storage.thy ===== *)
theory Storage
  imports Prelude
begin

text \<open>
  What the adapters of \<^verbatim>\<open>internal/storage\<close> share: transactions and times. The tables of
  \<^verbatim>\<open>internal/storage/migrations\<close> are modelled as far as the statements of the adapters
  read and write them: a table is the list of its rows in the order of insertion, a statement is
  the change it makes to them. A transaction is a function of the tables that fails or returns
  the new ones; transactions run one after the other, and what others hold locked is an argument
  where a statement skips it. Errors of the connection and values that the column types do not
  hold are not modelled.
\<close>

subsection \<open>Transactions\<close>

type_synonym ('s, 'e, 'a) transaction = "'s \<Rightarrow> 'e + 's \<times> 'a"

text \<open>\<^verbatim>\<open>WithTx\<close>: the tables change only when the function succeeds. (Identity columns do
  not go back on a rollback; the model lets them, since only their being fresh matters.)\<close>

definition WithTx :: "('s, 'e, 'a) transaction \<Rightarrow> 's \<Rightarrow> 's \<times> ('e + 'a)" where
  "WithTx fn s = (case fn s of Inl err \<Rightarrow> (s, Inl err) | Inr (s', x) \<Rightarrow> (s', Inr x))"

lemma WithTx_cases:
  "fn s = Inl err \<Longrightarrow> WithTx fn s = (s, Inl err)"
  "fn s = Inr (s', x) \<Longrightarrow> WithTx fn s = (s', Inr x)"
  by (simp_all add: WithTx_def)

subsection \<open>Times\<close>

text \<open>A \<^verbatim>\<open>TIMESTAMPTZ\<close> holds microseconds; a time that is stored or passed to a statement
  is cut to them. Go's zero time is a whole second.\<close>

definition micros :: "gotime \<Rightarrow> gotime" where
  "micros t = t - t mod 1000"

lemma micros_mono: "s \<le> t \<Longrightarrow> micros s \<le> micros t"
  unfolding micros_def minus_mod_eq_mult_div by (simp add: zdiv_mono1)

lemma micros_le: "micros t \<le> t"
  by (simp add: micros_def)

lemma micros_idem [simp]: "micros (micros t) = micros t"
  by (simp add: micros_def minus_mod_eq_mult_div)

lemma micros_eq_iff: "micros t = t \<longleftrightarrow> t mod 1000 = 0"
  by (auto simp: micros_def)

subsection \<open>Integers\<close>

text \<open>A \<^verbatim>\<open>BIGINT\<close> that does not fit is an error.\<close>

definition fitsBigint :: "int \<Rightarrow> bool" where
  "fitsBigint n \<longleftrightarrow> - (2 ^ 63) \<le> n \<and> n < 2 ^ 63"

subsection \<open>Rows\<close>

text \<open>The rows that an \<^verbatim>\<open>UPDATE ... WHERE\<close> changes, and the number of them.\<close>

definition updateRows :: "('r \<Rightarrow> bool) \<Rightarrow> ('r \<Rightarrow> 'r) \<Rightarrow> 'r list \<Rightarrow> 'r list" where
  "updateRows p f rows = map (\<lambda>r. if p r then f r else r) rows"

definition countRows :: "('r \<Rightarrow> bool) \<Rightarrow> 'r list \<Rightarrow> nat" where
  "countRows p rows = length (filter p rows)"

lemma map_updateRows: "(\<And>r. g (f r) = g r) \<Longrightarrow> map g (updateRows p f rows) = map g rows"
  by (simp add: updateRows_def)

lemma set_updateRows: "set (updateRows p f rows) = (\<lambda>r. if p r then f r else r) ` set rows"
  by (auto simp: updateRows_def)

lemma updateRows_in:
  assumes "r \<in> set (updateRows p f rows)"
  obtains q where "q \<in> set rows" "r = (if p q then f q else q)"
  using assms unfolding set_updateRows by blast

lemma updateRows_none: "countRows p rows = 0 \<Longrightarrow> updateRows p f rows = rows"
  by (induction rows) (auto simp: countRows_def updateRows_def split: if_splits)

lemma countRows_pos: "0 < countRows p rows \<longleftrightarrow> (\<exists>r \<in> set rows. p r)"
  by (auto simp: countRows_def length_greater_0_conv filter_empty_conv)

lemma same_key: "distinct (map k rows) \<Longrightarrow> x \<in> set rows \<Longrightarrow> y \<in> set rows \<Longrightarrow> k x = k y \<Longrightarrow> x = y"
  by (auto simp: distinct_map inj_on_def)

text \<open>A condition on a primary key selects at most one row.\<close>

lemma countRows_key:
  assumes "distinct (map k rows)" and "\<And>r. p r \<Longrightarrow> k r = i"
  shows "countRows p rows \<le> 1"
proof -
  have "set (map k (filter p rows)) \<subseteq> {i}" using assms(2) by auto
  moreover have "distinct (map k (filter p rows))" using assms(1) by (simp add: distinct_map_filter)
  ultimately have "length (map k (filter p rows)) \<le> card {i}"
    by (metis card_mono distinct_card finite.emptyI finite_insert)
  then show ?thesis by (simp add: countRows_def)
qed

lemma countRows_key_1:
  assumes "distinct (map k rows)" and "\<And>r. p r \<Longrightarrow> k r = i"
  shows "countRows p rows = 1 \<longleftrightarrow> (\<exists>r \<in> set rows. p r)"
proof -
  have "countRows p rows \<le> 1" by (rule countRows_key [OF assms])
  then show ?thesis using countRows_pos [of p rows] by auto
qed

subsection \<open>Things that happen at most once\<close>

text \<open>
  A machine of which some outputs carry a key, and that is done with a key once it has put it
  out: over a run every key comes out at most once. Each table of work interprets it with what
  its rows do once (a timer completes, an occurrence is handed out, an intent is delivered).
\<close>

locale once_machine = invariant_machine step inv
  for step :: "'s \<Rightarrow> 'e \<Rightarrow> 's \<times> 'o list" and inv :: "'s \<Rightarrow> bool" +
  fixes emits :: "'o \<Rightarrow> 'k option" and over :: "'k \<Rightarrow> 's \<Rightarrow> bool"
  assumes over_step: "inv s \<Longrightarrow> over k s \<Longrightarrow> over k (fst (step s e))"
    and over_silent: "inv s \<Longrightarrow> over k s \<Longrightarrow> out \<in> set (snd (step s e)) \<Longrightarrow> emits out \<noteq> Some k"
    and emit_over: "inv s \<Longrightarrow> out \<in> set (snd (step s e)) \<Longrightarrow> emits out = Some k \<Longrightarrow> over k (fst (step s e))"
    and emit_distinct: "inv s \<Longrightarrow> distinct (List.map_filter emits (snd (step s e)))"
begin

lemma over_run: "inv s \<Longrightarrow> over k s \<Longrightarrow> k \<notin> set (List.map_filter emits (snd (run step s es)))"
proof (induction es arbitrary: s)
  case (Cons e es)
  from Cons.IH [OF step_inv [OF Cons.prems(1)] over_step [OF Cons.prems]] over_silent [OF Cons.prems, of _ e]
  show ?case by (auto simp: case_prod_beta Let_def List.map_filter_def)
qed (simp add: List.map_filter_def)

lemma emitted_once: "inv s \<Longrightarrow> distinct (List.map_filter emits (snd (run step s es)))"
proof (induction es arbitrary: s)
  case (Cons e es)
  let ?s = "step s e"
  have "k \<notin> set (List.map_filter emits (snd (run step (fst ?s) es)))"
    if "k \<in> set (List.map_filter emits (snd ?s))" for k
  proof -
    from that obtain out where "out \<in> set (snd ?s)" "emits out = Some k"
      by (auto simp: List.map_filter_def)
    from over_run [OF step_inv [OF Cons.prems] emit_over [OF Cons.prems this]] show ?thesis .
  qed
  with Cons.IH [OF step_inv [OF Cons.prems, of e]] emit_distinct [OF Cons.prems, of e] show ?case
    by (auto simp: case_prod_beta Let_def List.map_filter_def)
qed (simp add: List.map_filter_def)

end

end
