(* ===== verification/TimerQueue.thy ===== *)
theory TimerQueue
  imports Storage
begin

text \<open>
  The durable timer queue, the first half of \<^verbatim>\<open>internal/storage/work.go\<close>:
  \<^verbatim>\<open>ReplaceTimer\<close>, \<^verbatim>\<open>ClaimDueTimers\<close> and \<^verbatim>\<open>CompleteTimer\<close> on the tables
  \<^verbatim>\<open>condition_trackers\<close> (its key and \<^verbatim>\<open>timer_generation\<close>) and
  \<^verbatim>\<open>timers\<close>.
\<close>

subsection \<open>Tables\<close>

datatype timer_status = TimerPending | TimerClaimed | TimerDone | TimerCancelled

record timer_row =
  trwID :: int
  trwConditionKey :: string
  trwDueAt :: gotime
  trwPhase :: string
  trwGeneration :: int
  trwStatus :: timer_status
  trwClaimToken :: "string option"
  trwClaimedUntil :: "gotime option"

record timer_tables =
  ttTrackers :: "string \<rightharpoonup> int"
  ttTimers :: "timer_row list"
  ttNextID :: int

text \<open>The rows that \<^verbatim>\<open>status IN ('pending','claimed')\<close> selects.\<close>

definition liveTimer :: "timer_row \<Rightarrow> bool" where
  "liveTimer t \<longleftrightarrow> trwStatus t = TimerPending \<or> trwStatus t = TimerClaimed"

subsection \<open>Records of the adapter\<close>

record durable_timer =
  dtID :: int
  dtConditionKey :: string
  dtPhase :: string
  dtDueAt :: gotime
  dtGeneration :: int
  dtClaimToken :: string

record timer_claim = durable_timer +
  tcClaimedUntil :: gotime

datatype timer_error = InvalidTimerPhase string | TrackerMissing string | GenerationOutOfRange string
  | GenerationTaken string int | TimerLimitNotPositive | TimerTokenRequired | TimerLeaseNotPositive

subsection \<open>Operations\<close>

text \<open>The three statements of \<^verbatim>\<open>ReplaceTimer\<close>; the last one checks the constraint
  \<^verbatim>\<open>UNIQUE (condition_key, generation)\<close>.\<close>

definition cancelTimers :: "string \<Rightarrow> timer_row list \<Rightarrow> timer_row list" where
  "cancelTimers key rows = updateRows (\<lambda>t. trwConditionKey t = key \<and> liveTimer t)
     (\<lambda>t. t\<lparr>trwStatus := TimerCancelled, trwClaimedUntil := None\<rparr>) rows"

definition newTimer :: "int \<Rightarrow> string \<Rightarrow> string \<Rightarrow> gotime \<Rightarrow> int \<Rightarrow> timer_row" where
  "newTimer i key ph due n = \<lparr>trwID = i, trwConditionKey = key, trwDueAt = micros due, trwPhase = ph,
     trwGeneration = n, trwStatus = TimerPending, trwClaimToken = None, trwClaimedUntil = None\<rparr>"

definition ReplaceTimer ::
  "string \<Rightarrow> string \<Rightarrow> gotime \<Rightarrow> timer_tables \<Rightarrow> timer_error + timer_tables \<times> int"
where
  "ReplaceTimer key ph due db =
     (if ph \<noteq> ''trigger'' \<and> ph \<noteq> ''clear'' then Inl (InvalidTimerPhase ph)
      else case ttTrackers db key of
        None \<Rightarrow> Inl (TrackerMissing key)
      | Some g \<Rightarrow>
          if \<not> fitsBigint (g + 1) then Inl (GenerationOutOfRange key)
          else (let n = g + 1; rows = cancelTimers key (ttTimers db)
            in if \<exists>t \<in> set rows. trwConditionKey t = key \<and> trwGeneration t = n
               then Inl (GenerationTaken key n)
               else Inr (db\<lparr>ttTrackers := (ttTrackers db)(key \<mapsto> n),
                   ttTimers := rows @ [newTimer (ttNextID db) key ph due n],
                   ttNextID := ttNextID db + 1\<rparr>, n)))"

definition dueTimer :: "gotime \<Rightarrow> timer_row \<Rightarrow> bool" where
  "dueTimer now t \<longleftrightarrow> liveTimer t \<and> trwDueAt t \<le> micros now \<and>
     (case trwClaimedUntil t of None \<Rightarrow> True | Some u \<Rightarrow> u \<le> micros now)"

text \<open>\<^verbatim>\<open>ORDER BY due_at, condition_key COLLATE "C", generation\<close>.\<close>

definition timerRowLess :: "timer_row \<Rightarrow> timer_row \<Rightarrow> bool" where
  "timerRowLess a b =
     (if trwDueAt a \<noteq> trwDueAt b then trwDueAt a < trwDueAt b
      else if trwConditionKey a \<noteq> trwConditionKey b then trwConditionKey a < trwConditionKey b
      else trwGeneration a < trwGeneration b)"

text \<open>\<open>locked\<close> are the rows that other transactions hold, which \<^verbatim>\<open>SKIP LOCKED\<close> passes
  over.\<close>

definition timerCandidates :: "int set \<Rightarrow> gotime \<Rightarrow> int \<Rightarrow> timer_row list \<Rightarrow> timer_row list" where
  "timerCandidates locked now limit rows =
     take (nat limit) (sort_by timerRowLess (filter (\<lambda>t. dueTimer now t \<and> trwID t \<notin> locked) rows))"

definition claimOf :: "string \<Rightarrow> gotime \<Rightarrow> timer_row \<Rightarrow> timer_claim" where
  "claimOf token until t = \<lparr>dtID = trwID t, dtConditionKey = trwConditionKey t, dtPhase = trwPhase t,
     dtDueAt = trwDueAt t, dtGeneration = trwGeneration t, dtClaimToken = token, tcClaimedUntil = until\<rparr>"

text \<open>The comparison of \<^verbatim>\<open>sort.SliceStable\<close>.\<close>

definition claimLess :: "timer_claim \<Rightarrow> timer_claim \<Rightarrow> bool" where
  "claimLess a b =
     (if dtDueAt a = dtDueAt b then
        (if dtConditionKey a = dtConditionKey b then dtGeneration a < dtGeneration b
         else dtConditionKey a < dtConditionKey b)
      else dtDueAt a < dtDueAt b)"

text \<open>The rows that the update returns come in the order of the table here; the database may
  return them in any order, and the sort that follows makes the result the same.\<close>

definition ClaimDueTimers ::
  "int set \<Rightarrow> gotime \<Rightarrow> int \<Rightarrow> duration \<Rightarrow> string \<Rightarrow> timer_tables \<Rightarrow> timer_error + timer_tables \<times> timer_claim list"
where
  "ClaimDueTimers locked now limit lease token db =
     (if limit \<le> 0 then Inl TimerLimitNotPositive
      else if token = [] then Inl TimerTokenRequired
      else if lease \<le> 0 then Inl TimerLeaseNotPositive
      else (let until = micros (now + lease);
                ids = trwID ` set (timerCandidates locked now limit (ttTimers db));
                picked = (\<lambda>t. trwID t \<in> ids)
        in Inr (db\<lparr>ttTimers := updateRows picked
              (\<lambda>t. t\<lparr>trwStatus := TimerClaimed, trwClaimToken := Some token, trwClaimedUntil := Some until\<rparr>)
              (ttTimers db)\<rparr>,
            sort_by claimLess (map (claimOf token until) (filter picked (ttTimers db))))))"

definition completes :: "int \<Rightarrow> int \<Rightarrow> string \<Rightarrow> gotime \<Rightarrow> timer_row \<Rightarrow> bool" where
  "completes i n token now t \<longleftrightarrow> trwID t = i \<and> trwGeneration t = n \<and> trwStatus t = TimerClaimed \<and>
     trwClaimToken t = Some token \<and> (case trwClaimedUntil t of None \<Rightarrow> False | Some u \<Rightarrow> micros now < u)"

definition CompleteTimer ::
  "int \<Rightarrow> int \<Rightarrow> string \<Rightarrow> gotime \<Rightarrow> timer_tables \<Rightarrow> timer_error + timer_tables \<times> bool"
where
  "CompleteTimer i n token now db =
     Inr (db\<lparr>ttTimers := updateRows (completes i n token now)
         (\<lambda>t. t\<lparr>trwStatus := TimerDone, trwClaimedUntil := None\<rparr>) (ttTimers db)\<rparr>,
       countRows (completes i n token now) (ttTimers db) = 1)"

end
