(* ===== verification/TimerQueueProps.thy ===== *)
theory TimerQueueProps
  imports TimerQueue
begin

text \<open>
  The durable timer queue as a state machine: the invariant of its tables, that at most one
  timer of a condition is live and carries its generation, and what follows for callbacks:
  stale ones are fenced, claims are exclusive while their lease runs, and no timer is completed
  twice.
\<close>

subsection \<open>Runs\<close>

datatype timer_op = OpReplace string string gotime
  | OpClaim "int set" gotime int duration string
  | OpComplete int int string gotime

datatype timer_effect = TimerReplaced string int | TimersClaimed string "timer_claim list" | TimerCompleted int

fun timerStep :: "timer_tables \<Rightarrow> timer_op \<Rightarrow> timer_tables \<times> timer_effect list" where
  "timerStep db (OpReplace key ph due) = (case WithTx (ReplaceTimer key ph due) db of
       (db', Inr n) \<Rightarrow> (db', [TimerReplaced key n]) | (db', Inl err) \<Rightarrow> (db', []))"
| "timerStep db (OpClaim locked now limit lease token) =
     (case WithTx (ClaimDueTimers locked now limit lease token) db of
       (db', Inr cs) \<Rightarrow> (db', [TimersClaimed token cs]) | (db', Inl err) \<Rightarrow> (db', []))"
| "timerStep db (OpComplete i n token now) = (case WithTx (CompleteTimer i n token now) db of
       (db', Inr ok) \<Rightarrow> (db', if ok then [TimerCompleted i] else []) | (db', Inl err) \<Rightarrow> (db', []))"

lemma effect_replace: "snd (timerStep db (OpReplace key ph due)) =
    (case ReplaceTimer key ph due db of Inl err \<Rightarrow> [] | Inr (db', n) \<Rightarrow> [TimerReplaced key n])"
  by (simp add: WithTx_def split: sum.split prod.split)

lemma effect_claim: "snd (timerStep db (OpClaim locked now limit lease token)) =
    (case ClaimDueTimers locked now limit lease token db of Inl err \<Rightarrow> [] | Inr (db', cs) \<Rightarrow> [TimersClaimed token cs])"
  by (simp add: WithTx_def split: sum.split prod.split)

lemma effect_complete: "snd (timerStep db (OpComplete i n token now)) =
    (if countRows (completes i n token now) (ttTimers db) = 1 then [TimerCompleted i] else [])"
  by (simp add: WithTx_def CompleteTimer_def)

subsection \<open>The invariant\<close>

text \<open>A timer row against the generation of its tracker.\<close>

definition timerRowOk :: "timer_tables \<Rightarrow> timer_row \<Rightarrow> bool" where
  "timerRowOk db t \<longleftrightarrow> trwID t < ttNextID db \<and>
     (case ttTrackers db (trwConditionKey t) of None \<Rightarrow> False
      | Some g \<Rightarrow> trwGeneration t \<le> g \<and> (liveTimer t \<longrightarrow> trwGeneration t = g)) \<and>
     (trwStatus t = TimerClaimed \<longleftrightarrow> trwClaimedUntil t \<noteq> None)"

definition timersOk :: "timer_tables \<Rightarrow> bool" where
  "timersOk db \<longleftrightarrow> distinct (map trwID (ttTimers db)) \<and>
     distinct (map (\<lambda>t. (trwConditionKey t, trwGeneration t)) (ttTimers db)) \<and>
     (\<forall>t \<in> set (ttTimers db). timerRowOk db t)"

lemma timersOkD:
  assumes "timersOk db"
  shows "distinct (map trwID (ttTimers db))" "distinct (map (\<lambda>t. (trwConditionKey t, trwGeneration t)) (ttTimers db))"
    "t \<in> set (ttTimers db) \<Longrightarrow> timerRowOk db t"
  using assms by (simp_all add: timersOk_def)

text \<open>Updating rows keeps the invariant when it keeps keys and every updated row is well formed.\<close>

lemma timersOk_update:
  assumes "timersOk db"
    and keys: "\<And>t. trwID (f t) = trwID t \<and> trwConditionKey (f t) = trwConditionKey t \<and> trwGeneration (f t) = trwGeneration t"
    and rows: "\<And>t. t \<in> set (ttTimers db) \<Longrightarrow> p t \<Longrightarrow> timerRowOk db t \<Longrightarrow> timerRowOk db (f t)"
  shows "timersOk (db\<lparr>ttTimers := updateRows p f (ttTimers db)\<rparr>)"
proof -
  have "timerRowOk (db\<lparr>ttTimers := xs\<rparr>) t = timerRowOk db t" for xs t by (simp add: timerRowOk_def)
  then show ?thesis
    using assms(1) rows keys by (auto simp: timersOk_def map_updateRows set_updateRows)
qed

lemma liveTimer_cancelled [simp]: "\<not> liveTimer (t\<lparr>trwStatus := TimerCancelled, trwClaimedUntil := None\<rparr>)"
  "\<not> liveTimer (t\<lparr>trwStatus := TimerDone, trwClaimedUntil := None\<rparr>)"
  by (simp_all add: liveTimer_def)

lemma Complete_ok: "timersOk db \<Longrightarrow> CompleteTimer i n token now db = Inr (db', ok) \<Longrightarrow> timersOk db'"
  unfolding CompleteTimer_def by (auto intro!: timersOk_update simp: timerRowOk_def split: option.splits)

text \<open>Claims are taken in the order of a key.\<close>

definition timerRowKey :: "timer_row \<Rightarrow> gotime \<times> string \<times> int" where
  "timerRowKey t = (trwDueAt t, trwConditionKey t, trwGeneration t)"

definition claimKey :: "timer_claim \<Rightarrow> gotime \<times> string \<times> int" where
  "claimKey c = (dtDueAt c, dtConditionKey c, dtGeneration c)"

interpretation timer_row_order: key_order timerRowLess timerRowKey
  by unfold_locales (auto simp: timerRowLess_def timerRowKey_def less_prod_def')

interpretation claim_order: key_order claimLess claimKey
  by unfold_locales (auto simp: claimLess_def claimKey_def less_prod_def')

lemma claimKey_claimOf [simp]: "claimKey (claimOf token until t) = timerRowKey t"
  by (simp add: claimKey_def claimOf_def timerRowKey_def)

lemma timerCandidates_in:
  assumes "t \<in> set (timerCandidates locked now limit rows)"
  shows "t \<in> set rows" "dueTimer now t" "trwID t \<notin> locked"
  using in_set_takeD [OF assms [unfolded timerCandidates_def]]
  by (simp_all add: timer_row_order.set_sort_by)

lemma Claim_ok:
  assumes "timersOk db" and "ClaimDueTimers locked now limit lease token db = Inr (db', cs)"
  shows "timersOk db'"
proof -
  let ?picked = "\<lambda>t. trwID t \<in> trwID ` set (timerCandidates locked now limit (ttTimers db))"
  have live: "liveTimer t" if "t \<in> set (ttTimers db)" "?picked t" for t
  proof -
    from that(2) obtain u where u: "u \<in> set (timerCandidates locked now limit (ttTimers db))" "trwID u = trwID t"
      by auto
    with same_key [OF timersOkD(1) [OF assms(1)] timerCandidates_in(1) [OF u(1)] that(1)] have "u = t" by simp
    with timerCandidates_in(2) [OF u(1)] show ?thesis by (simp add: dueTimer_def)
  qed
  have db': "db' = db\<lparr>ttTimers := updateRows ?picked (\<lambda>t. t\<lparr>trwStatus := TimerClaimed, trwClaimToken := Some token,
      trwClaimedUntil := Some (micros (now + lease))\<rparr>) (ttTimers db)\<rparr>"
    using assms(2) by (auto simp: ClaimDueTimers_def Let_def split: if_splits)
  show ?thesis
    unfolding db' by (rule timersOk_update [OF assms(1)])
      (auto simp: timerRowOk_def liveTimer_def dest: live split: option.splits)
qed

lemma Replace_ok:
  assumes "timersOk db" and "ReplaceTimer key ph due db = Inr (db', n)"
  shows "timersOk db'"
proof -
  obtain g where g: "ttTrackers db key = Some g" "n = g + 1"
    and db': "db' = db\<lparr>ttTrackers := (ttTrackers db)(key \<mapsto> g + 1),
      ttTimers := cancelTimers key (ttTimers db) @ [newTimer (ttNextID db) key ph due (g + 1)],
      ttNextID := ttNextID db + 1\<rparr>"
    using assms(2) by (auto simp: ReplaceTimer_def Let_def split: if_splits option.splits)
  have rows: "timerRowOk db t" if "t \<in> set (ttTimers db)" for t by (rule timersOkD(3) [OF assms(1) that])
  have old: "trwGeneration t \<le> g" if "t \<in> set (ttTimers db)" "trwConditionKey t = key" for t
    using rows [OF that(1)] that(2) g(1) by (simp add: timerRowOk_def)
  have small: "trwID t < ttNextID db" if "t \<in> set (ttTimers db)" for t
    using rows [OF that] by (simp add: timerRowOk_def)
  have keys: "map trwID (cancelTimers key (ttTimers db)) = map trwID (ttTimers db)"
    "map (\<lambda>t. (trwConditionKey t, trwGeneration t)) (cancelTimers key (ttTimers db)) =
     map (\<lambda>t. (trwConditionKey t, trwGeneration t)) (ttTimers db)"
    by (simp_all add: cancelTimers_def map_updateRows)
  have "timerRowOk db' t" if t: "t \<in> set (cancelTimers key (ttTimers db))" for t
  proof -
    obtain u where u: "u \<in> set (ttTimers db)" "t = (if trwConditionKey u = key \<and> liveTimer u
        then u\<lparr>trwStatus := TimerCancelled, trwClaimedUntil := None\<rparr> else u)"
      using t unfolding cancelTimers_def set_updateRows by blast
    show ?thesis
    proof (cases "trwConditionKey u = key")
      case True
      then show ?thesis using rows [OF u(1)] g(1)
        by (cases "liveTimer u") (auto simp: u(2) db' timerRowOk_def)
    next
      case False
      then show ?thesis using rows [OF u(1)] by (auto simp: u(2) db' timerRowOk_def split: option.splits)
    qed
  qed
  moreover have "timerRowOk db' (newTimer (ttNextID db) key ph due (g + 1))"
    by (simp add: db' timerRowOk_def newTimer_def)
  ultimately have "\<forall>t \<in> set (ttTimers db'). timerRowOk db' t" by (auto simp: db')
  moreover have "distinct (map trwID (ttTimers db'))"
    using timersOkD(1) [OF assms(1)] small by (fastforce simp: db' keys newTimer_def)
  moreover have "distinct (map (\<lambda>t. (trwConditionKey t, trwGeneration t)) (ttTimers db'))"
    using timersOkD(2) [OF assms(1)] old by (fastforce simp: db' keys newTimer_def)
  ultimately show ?thesis by (simp add: timersOk_def)
qed

text \<open>Under the invariant a generation is never taken.\<close>

lemma cancelTimers_in:
  assumes "t \<in> set (cancelTimers key rows)"
  shows "\<exists>u \<in> set rows. trwID u = trwID t \<and> trwConditionKey u = trwConditionKey t \<and> trwGeneration u = trwGeneration t"
proof -
  obtain u where "u \<in> set rows" "t = (if trwConditionKey u = key \<and> liveTimer u
      then u\<lparr>trwStatus := TimerCancelled, trwClaimedUntil := None\<rparr> else u)"
    using assms unfolding cancelTimers_def set_updateRows by blast
  then show ?thesis by (intro bexI [of _ u]) simp_all
qed

lemma Replace_not_taken:
  assumes "timersOk db"
  shows "ReplaceTimer key ph due db \<noteq> Inl (GenerationTaken k n)"
proof -
  have "trwGeneration t \<noteq> g + 1"
    if g: "ttTrackers db key = Some g" and t: "t \<in> set (cancelTimers key (ttTimers db))" "trwConditionKey t = key" for g t
  proof -
    from cancelTimers_in [OF t(1)] obtain u where
      u: "u \<in> set (ttTimers db)" "trwConditionKey u = key" "trwGeneration u = trwGeneration t"
      using t(2) by auto
    from timersOkD(3) [OF assms u(1)] g u(2,3) show ?thesis by (simp add: timerRowOk_def)
  qed
  then have "\<not> (\<exists>t \<in> set (cancelTimers key (ttTimers db)). trwConditionKey t = key \<and> trwGeneration t = g + 1)"
    if "ttTrackers db key = Some g" for g using that by blast
  then show ?thesis by (cases "ttTrackers db key") (auto simp: ReplaceTimer_def Let_def)
qed

interpretation timer_machine: invariant_machine timerStep timersOk
proof
  fix db op
  assume ok: "timersOk db"
  show "timersOk (fst (timerStep db op))"
  proof (cases op)
    case (OpReplace key ph due)
    then show ?thesis using ok Replace_ok [OF ok]
      by (cases "ReplaceTimer key ph due db") (auto simp: WithTx_def)
  next
    case (OpClaim locked now limit lease token)
    then show ?thesis using ok Claim_ok [OF ok]
      by (cases "ClaimDueTimers locked now limit lease token db") (auto simp: WithTx_def)
  next
    case (OpComplete i n token now)
    then show ?thesis using ok Complete_ok [OF ok]
      by (cases "CompleteTimer i n token now db") (auto simp: WithTx_def)
  qed
qed

definition emptyTimers :: "(string \<rightharpoonup> int) \<Rightarrow> timer_tables" where
  "emptyTimers tr = \<lparr>ttTrackers = tr, ttTimers = [], ttNextID = 1\<rparr>"

lemma emptyTimers_ok: "timersOk (emptyTimers tr)"
  by (simp add: timersOk_def emptyTimers_def)

lemmas reached_ok = timer_machine.run_inv [OF emptyTimers_ok]

subsection \<open>What a step leaves\<close>

text \<open>Every operation changes rows in place and may add one; a predicate of single rows that all
  three changes keep is kept by a run.\<close>

lemma timerStep_rows:
  assumes "timersOk db" and "t' \<in> set (ttTimers (fst (timerStep db op)))"
  shows "trwID t' = ttNextID db \<and> (\<exists>key ph due. op = OpReplace key ph due) \<or>
    (\<exists>t \<in> set (ttTimers db). t' = t \<or>
      (t' = t\<lparr>trwStatus := TimerCancelled, trwClaimedUntil := None\<rparr> \<and> liveTimer t) \<or>
      (\<exists>i n token now. op = OpComplete i n token now \<and> completes i n token now t \<and>
         t' = t\<lparr>trwStatus := TimerDone, trwClaimedUntil := None\<rparr>) \<or>
      (\<exists>locked now limit lease token. op = OpClaim locked now limit lease token \<and> dueTimer now t \<and>
         t' = t\<lparr>trwStatus := TimerClaimed, trwClaimToken := Some token, trwClaimedUntil := Some (micros (now + lease))\<rparr>))"
proof (cases op)
  case (OpReplace key ph due)
  show ?thesis
  proof (cases "ReplaceTimer key ph due db")
    case (Inl err)
    with assms(2) show ?thesis by (auto simp: OpReplace WithTx_def)
  next
    case (Inr r)
    then have "ttTimers (fst (timerStep db op)) = cancelTimers key (ttTimers db) @
        [newTimer (ttNextID db) key ph due (snd r)]"
      by (auto simp: OpReplace WithTx_def ReplaceTimer_def Let_def split: if_splits option.splits)
    with assms(2) show ?thesis
      by (auto simp: OpReplace newTimer_def cancelTimers_def set_updateRows split: if_splits)
  qed
next
  case (OpClaim locked now limit lease token)
  let ?c = "timerCandidates locked now limit (ttTimers db)"
  show ?thesis
  proof (cases "ClaimDueTimers locked now limit lease token db")
    case (Inl err)
    with assms(2) show ?thesis by (auto simp: OpClaim WithTx_def)
  next
    case (Inr r)
    then have rows: "ttTimers (fst (timerStep db op)) = updateRows (\<lambda>t. trwID t \<in> trwID ` set ?c)
        (\<lambda>t. t\<lparr>trwStatus := TimerClaimed, trwClaimToken := Some token, trwClaimedUntil := Some (micros (now + lease))\<rparr>)
        (ttTimers db)"
      by (auto simp: OpClaim WithTx_def ClaimDueTimers_def Let_def split: if_splits)
    have due: "dueTimer now t" if t: "t \<in> set (ttTimers db)" "trwID t \<in> trwID ` set ?c" for t
    proof -
      obtain u where u: "u \<in> set ?c" "trwID u = trwID t" using t(2) by auto
      with same_key [OF timersOkD(1) [OF assms(1)] timerCandidates_in(1) [OF u(1)] t(1)] have "u = t" by simp
      with timerCandidates_in(2) [OF u(1)] show ?thesis by simp
    qed
    from assms(2) obtain t where "t \<in> set (ttTimers db)" "t' = (if trwID t \<in> trwID ` set ?c then
        t\<lparr>trwStatus := TimerClaimed, trwClaimToken := Some token, trwClaimedUntil := Some (micros (now + lease))\<rparr> else t)"
      unfolding rows set_updateRows by blast
    with due show ?thesis unfolding OpClaim by (cases "trwID t \<in> trwID ` set ?c") auto
  qed
next
  case (OpComplete i n token now)
  then have rows: "ttTimers (fst (timerStep db op)) = updateRows (completes i n token now)
      (\<lambda>t. t\<lparr>trwStatus := TimerDone, trwClaimedUntil := None\<rparr>) (ttTimers db)"
    by (simp add: WithTx_def CompleteTimer_def)
  from assms(2) obtain t where "t \<in> set (ttTimers db)" "t' = (if completes i n token now t then
      t\<lparr>trwStatus := TimerDone, trwClaimedUntil := None\<rparr> else t)"
    unfolding rows set_updateRows by blast
  then show ?thesis unfolding OpComplete by (cases "completes i n token now t") auto
qed

lemma timerStep_next: "ttNextID db \<le> ttNextID (fst (timerStep db op))"
  by (cases op) (auto simp: WithTx_def ReplaceTimer_def ClaimDueTimers_def CompleteTimer_def Let_def
      split: sum.splits option.splits if_splits)

lemma timerStep_tracker:
  "ttTrackers db key = Some g \<Longrightarrow> \<exists>h \<ge> g. ttTrackers (fst (timerStep db op)) key = Some h"
  by (cases op) (auto simp: WithTx_def ReplaceTimer_def ClaimDueTimers_def CompleteTimer_def Let_def
      split: sum.splits option.splits if_splits)

text \<open>The timers that a step hands out were due, and the one it completes was claimed.\<close>

lemma claim_result:
  assumes "ClaimDueTimers locked now limit lease token db = Inr (db', cs)"
  shows "cs = sort_by claimLess (map (claimOf token (micros (now + lease)))
    (filter (\<lambda>t. trwID t \<in> trwID ` set (timerCandidates locked now limit (ttTimers db))) (ttTimers db)))"
  using assms by (auto simp: ClaimDueTimers_def Let_def split: if_splits)

lemma claimed_due:
  assumes "timersOk db" and "TimersClaimed token cs \<in> set (snd (timerStep db op))" and "c \<in> set cs"
  shows "\<exists>t \<in> set (ttTimers db). trwID t = dtID c \<and>
    (\<exists>locked now limit lease. op = OpClaim locked now limit lease token \<and> dueTimer now t)"
proof (cases op)
  case (OpReplace key ph due)
  from assms(2) show ?thesis unfolding OpReplace effect_replace
    by (cases "ReplaceTimer key ph due db") (simp_all add: case_prod_beta)
next
  case (OpComplete i n tok now)
  from assms(2) show ?thesis unfolding OpComplete effect_complete by (simp split: if_splits)
next
  case (OpClaim locked now limit lease tok)
  have "\<exists>r. ClaimDueTimers locked now limit lease tok db = Inr r"
    using assms(2) unfolding OpClaim effect_claim by (cases "ClaimDueTimers locked now limit lease tok db") simp_all
  then obtain db' cs' where r: "ClaimDueTimers locked now limit lease tok db = Inr (db', cs')" by force
  then have "tok = token" "cs' = cs" using assms(2) unfolding OpClaim effect_claim by simp_all
  with r have claim: "ClaimDueTimers locked now limit lease tok db = Inr (db', cs)" "tok = token" by simp_all
  let ?c = "timerCandidates locked now limit (ttTimers db)"
  have "set cs = claimOf tok (micros (now + lease)) ` {t \<in> set (ttTimers db). trwID t \<in> trwID ` set ?c}"
    unfolding claim_result [OF claim(1)] claim_order.set_sort_by by auto
  with assms(3) obtain t u where tu: "t \<in> set (ttTimers db)" "trwID t = dtID c" "u \<in> set ?c" "trwID u = trwID t"
    by (auto simp: claimOf_def)
  have "u = t" by (rule same_key [OF timersOkD(1) [OF assms(1)] timerCandidates_in(1) [OF tu(3)] tu(1,4)])
  with timerCandidates_in(2) [OF tu(3)] have "dueTimer now t" by simp
  with tu(1,2) show ?thesis unfolding OpClaim claim(2) by blast
qed

lemma completed_claimed:
  assumes "TimerCompleted i \<in> set (snd (timerStep db op))"
  shows "\<exists>t \<in> set (ttTimers db). trwID t = i \<and> trwStatus t = TimerClaimed \<and> (\<exists>n token now. op = OpComplete i n token now)"
proof (cases op)
  case (OpComplete j n token now)
  from assms have "j = i" "countRows (completes j n token now) (ttTimers db) = 1"
    unfolding OpComplete effect_complete by (auto split: if_splits)
  with countRows_pos [of "completes j n token now" "ttTimers db"] show ?thesis
    unfolding OpComplete by (auto simp: completes_def)
next
  case (OpReplace key ph due)
  from assms show ?thesis unfolding OpReplace effect_replace
    by (cases "ReplaceTimer key ph due db") (simp_all add: case_prod_beta)
next
  case (OpClaim locked now limit lease token)
  from assms show ?thesis unfolding OpClaim effect_claim
    by (cases "ClaimDueTimers locked now limit lease token db") (simp_all add: case_prod_beta)
qed

subsection \<open>Timers that are over\<close>

definition frozen :: "int \<Rightarrow> timer_tables \<Rightarrow> bool" where
  "frozen i db \<longleftrightarrow> timersOk db \<and> i < ttNextID db \<and> (\<forall>t \<in> set (ttTimers db). trwID t = i \<longrightarrow> \<not> liveTimer t)"

lemma frozen_step:
  assumes "frozen i db"
  shows "frozen i (fst (timerStep db op))"
proof -
  have ok: "timersOk db" "i < ttNextID db" and dead: "\<And>t. t \<in> set (ttTimers db) \<Longrightarrow> trwID t = i \<Longrightarrow> \<not> liveTimer t"
    using assms by (auto simp: frozen_def)
  have "\<not> liveTimer t'" if "t' \<in> set (ttTimers (fst (timerStep db op)))" "trwID t' = i" for t'
    using timerStep_rows [OF ok(1) that(1)] that(2) ok(2) dead by (auto simp: dueTimer_def)
  then show ?thesis
    using timer_machine.step_inv [OF ok(1)] order.strict_trans2 [OF ok(2) timerStep_next] by (auto simp: frozen_def)
qed

interpretation frozen_machine: invariant_machine timerStep "frozen i" for i
  by unfold_locales (rule frozen_step)

lemma frozen_silent:
  assumes "frozen i db"
  shows "TimerCompleted i \<notin> set (snd (timerStep db op))"
    and "TimersClaimed token cs \<in> set (snd (timerStep db op)) \<Longrightarrow> i \<notin> dtID ` set cs"
proof -
  have ok: "timersOk db" and dead: "\<And>t. t \<in> set (ttTimers db) \<Longrightarrow> trwID t = i \<Longrightarrow> \<not> liveTimer t"
    using assms by (auto simp: frozen_def)
  show "TimerCompleted i \<notin> set (snd (timerStep db op))"
    using completed_claimed [of i db op] dead by (auto simp: liveTimer_def)
  show "i \<notin> dtID ` set cs" if "TimersClaimed token cs \<in> set (snd (timerStep db op))"
    using claimed_due [OF ok that] dead by (fastforce simp: dueTimer_def)
qed

fun touches :: "int \<Rightarrow> timer_effect \<Rightarrow> bool" where
  "touches i (TimerReplaced key n) \<longleftrightarrow> False"
| "touches i (TimersClaimed token cs) \<longleftrightarrow> i \<in> dtID ` set cs"
| "touches i (TimerCompleted j) \<longleftrightarrow> j = i"

lemma frozen_run: "frozen i db \<Longrightarrow> list_all (\<lambda>e. \<not> touches i e) (snd (run timerStep db ops))"
proof (induction ops arbitrary: db)
  case (Cons op ops)
  have "\<not> touches i e" if e: "e \<in> set (snd (timerStep db op))" for e
  proof (cases e)
    case (TimersClaimed token cs)
    with frozen_silent(2) [OF Cons.prems] e show ?thesis by simp
  next
    case (TimerCompleted j)
    with frozen_silent(1) [OF Cons.prems, of op] e show ?thesis by auto
  qed simp
  with Cons.IH [OF frozen_step [OF Cons.prems]] show ?case
    by (auto simp: case_prod_beta Let_def list_all_iff)
qed simp

lemma run_tracker:
  "ttTrackers db key = Some g \<Longrightarrow> \<exists>h \<ge> g. ttTrackers (fst (run timerStep db ops)) key = Some h"
proof (induction ops arbitrary: db g)
  case (Cons op ops)
  from timerStep_tracker [OF Cons.prems] obtain h where h: "g \<le> h" "ttTrackers (fst (timerStep db op)) key = Some h" by blast
  from Cons.IH [OF h(2)] h(1) show ?case by (auto simp: case_prod_beta Let_def intro: order_trans)
qed auto

subsection \<open>Properties\<close>

text \<open>C17. Replacing a timer makes every earlier one of its condition stale for good: a timer of the
  condition with an older generation, pending or already claimed, is never again handed out by
  a claim, and no callback for it succeeds, whatever happens after the replacement.\<close>

theorem stale_timer_never_fires:
  assumes "ReplaceTimer key ph due (fst (run timerStep (emptyTimers tr) ops)) = Inr (db, n)"
    and "t \<in> set (ttTimers (fst (run timerStep db mid)))" and "trwConditionKey t = key" and "trwGeneration t < n"
  shows "list_all (\<lambda>e. \<not> touches (trwID t) e) (snd (run timerStep (fst (run timerStep db mid)) later))"
proof -
  let ?db = "fst (run timerStep db mid)"
  have ok: "timersOk db" by (rule Replace_ok [OF reached_ok assms(1)])
  have ok': "timersOk ?db" by (rule timer_machine.run_inv [OF ok])
  have "ttTrackers db key = Some n"
    using assms(1) by (auto simp: ReplaceTimer_def Let_def split: if_splits option.splits)
  from run_tracker [OF this] obtain h where h: "n \<le> h" "ttTrackers ?db key = Some h" by blast
  with timersOkD(3) [OF ok' assms(2)] assms(3,4) have dead: "trwID t < ttNextID ?db" "\<not> liveTimer t"
    by (auto simp: timerRowOk_def)
  have "frozen (trwID t) ?db"
    using ok' dead same_key [OF timersOkD(1) [OF ok'] _ assms(2)] by (auto simp: frozen_def)
  then show ?thesis by (rule frozen_run)
qed

definition staleStart :: "timer_op list" where
  "staleStart = [OpReplace ''k'' ''trigger'' 1000, OpClaim {} 2000 10 60000 ''w1'']"

definition staleDB :: timer_tables where
  "staleDB = fst (projr (ReplaceTimer ''k'' ''trigger'' 9000 (fst (run timerStep (emptyTimers [''k'' \<mapsto> 0]) staleStart))))"

theorem stale_timer_never_fires_witness:
  "list_all (\<lambda>e. \<not> touches 1 e) (snd (run timerStep staleDB [OpComplete 1 1 ''w1'' 3000, OpClaim {} 10000 10 60000 ''w2''])) \<and>
   length (snd (run timerStep staleDB [OpComplete 1 1 ''w1'' 3000, OpClaim {} 10000 10 60000 ''w2''])) = 1"
proof -
  have r: "case ReplaceTimer ''k'' ''trigger'' 9000 (fst (run timerStep (emptyTimers [''k'' \<mapsto> 0]) staleStart)) of
      Inl err \<Rightarrow> False | Inr (db, n) \<Rightarrow> n = 2 \<and>
        map (\<lambda>t. (trwID t, trwConditionKey t, trwGeneration t)) (ttTimers db) = [(1, ''k'', 1), (2, ''k'', 2)]"
    by code_simp
  then have eq: "ReplaceTimer ''k'' ''trigger'' 9000 (fst (run timerStep (emptyTimers [''k'' \<mapsto> 0]) staleStart)) =
      Inr (staleDB, 2)"
    and rows: "map (\<lambda>t. (trwID t, trwConditionKey t, trwGeneration t)) (ttTimers staleDB) = [(1, ''k'', 1), (2, ''k'', 2)]"
    by (auto simp: staleDB_def split: sum.splits)
  from rows obtain t where t: "t \<in> set (ttTimers staleDB)" "trwID t = 1" "trwConditionKey t = ''k''" "trwGeneration t = 1"
    by (cases "ttTimers staleDB") auto
  have "list_all (\<lambda>e. \<not> touches (trwID t) e) (snd (run timerStep (fst (run timerStep staleDB []))
      [OpComplete 1 1 ''w1'' 3000, OpClaim {} 10000 10 60000 ''w2'']))"
    by (rule stale_timer_never_fires [OF eq _ t(3)]) (simp_all add: t)
  moreover have "length (snd (run timerStep staleDB [OpComplete 1 1 ''w1'' 3000, OpClaim {} 10000 10 60000 ''w2''])) = 1"
    by code_simp
  ultimately show ?thesis by (simp add: t(2))
qed

fun completionOf :: "timer_effect \<Rightarrow> int option" where
  "completionOf (TimerCompleted i) = Some i"
| "completionOf (TimerReplaced key n) = None"
| "completionOf (TimersClaimed token cs) = None"

fun_cases completionOf_Some: "completionOf e = Some i"

lemma completed_frozen:
  assumes "timersOk db" and "TimerCompleted i \<in> set (snd (timerStep db op))"
  shows "frozen i (fst (timerStep db op))"
proof -
  obtain t n token now where t: "t \<in> set (ttTimers db)" "trwID t = i" and op: "op = OpComplete i n token now"
    using completed_claimed [OF assms(2)] by blast
  have "countRows (completes i n token now) (ttTimers db) = 1"
    using assms(2) unfolding op effect_complete by (auto split: if_splits)
  with countRows_pos [of "completes i n token now" "ttTimers db"] obtain u where
    u: "u \<in> set (ttTimers db)" "completes i n token now u" by auto
  have rows: "ttTimers (fst (timerStep db op)) = updateRows (completes i n token now)
      (\<lambda>t. t\<lparr>trwStatus := TimerDone, trwClaimedUntil := None\<rparr>) (ttTimers db)"
    by (simp add: op WithTx_def CompleteTimer_def)
  have "\<not> liveTimer x" if "x \<in> set (ttTimers (fst (timerStep db op)))" "trwID x = i" for x
  proof -
    from that(1) obtain y where y: "y \<in> set (ttTimers db)" "x = (if completes i n token now y then
        y\<lparr>trwStatus := TimerDone, trwClaimedUntil := None\<rparr> else y)"
      unfolding rows set_updateRows by blast
    with that(2) have "trwID y = trwID u" using u(2) by (auto simp: completes_def split: if_splits)
    from same_key [OF timersOkD(1) [OF assms(1)] y(1) u(1) this] u(2) y(2) show ?thesis by simp
  qed
  moreover have "i < ttNextID (fst (timerStep db op))"
    using timersOkD(3) [OF assms(1) t(1)] t(2) timerStep_next [of db op] by (simp add: timerRowOk_def)
  ultimately show ?thesis using timer_machine.step_inv [OF assms(1)] by (simp add: frozen_def)
qed

interpretation completion_machine: once_machine timerStep timersOk completionOf frozen
proof
  fix db i op e
  assume ok: "timersOk db"
  show "frozen i db \<Longrightarrow> frozen i (fst (timerStep db op))" by (rule frozen_step)
  show "frozen i db \<Longrightarrow> e \<in> set (snd (timerStep db op)) \<Longrightarrow> completionOf e \<noteq> Some i"
    using frozen_silent(1) by (auto elim!: completionOf_Some)
  show "e \<in> set (snd (timerStep db op)) \<Longrightarrow> completionOf e = Some i \<Longrightarrow> frozen i (fst (timerStep db op))"
    using completed_frozen [OF ok] by (auto elim!: completionOf_Some)
  show "distinct (List.map_filter completionOf (snd (timerStep db op)))"
    by (cases op) (auto simp: WithTx_def List.map_filter_def split: sum.split prod.split)
qed

text \<open>A timer is completed at most once, whatever workers claim it, crash and retry.\<close>

theorem timer_completed_once:
  "distinct (List.map_filter completionOf (snd (run timerStep (emptyTimers tr) ops)))"
  by (rule completion_machine.emitted_once [OF emptyTimers_ok])

text \<open>The times that steps read.\<close>

fun readsBefore :: "gotime \<Rightarrow> timer_op \<Rightarrow> bool" where
  "readsBefore u (OpReplace key ph due) \<longleftrightarrow> True"
| "readsBefore u (OpClaim locked now limit lease token) \<longleftrightarrow> micros now < u"
| "readsBefore u (OpComplete i n token now) \<longleftrightarrow> True"

definition held :: "gotime \<Rightarrow> int \<Rightarrow> timer_tables \<Rightarrow> bool" where
  "held u i db \<longleftrightarrow> timersOk db \<and> i < ttNextID db \<and>
     (\<forall>t \<in> set (ttTimers db). trwID t = i \<longrightarrow> \<not> liveTimer t \<or> (\<exists>v \<ge> u. trwClaimedUntil t = Some v))"

lemma held_step:
  assumes "held u i db" and "readsBefore u op"
  shows "held u i (fst (timerStep db op))"
    and "TimersClaimed token cs \<in> set (snd (timerStep db op)) \<Longrightarrow> i \<notin> dtID ` set cs"
proof -
  have ok: "timersOk db" "i < ttNextID db"
    and busy: "\<And>t. t \<in> set (ttTimers db) \<Longrightarrow> trwID t = i \<Longrightarrow> \<not> liveTimer t \<or> (\<exists>v \<ge> u. trwClaimedUntil t = Some v)"
    using assms(1) by (auto simp: held_def)
  have idle: "\<not> dueTimer now t" if "t \<in> set (ttTimers db)" "trwID t = i" "op = OpClaim locked now limit lease tok"
    for t locked now limit lease tok
    using busy [OF that(1,2)] assms(2) that(3) by (auto simp: dueTimer_def)
  have "\<not> liveTimer t' \<or> (\<exists>v \<ge> u. trwClaimedUntil t' = Some v)"
    if t': "t' \<in> set (ttTimers (fst (timerStep db op)))" "trwID t' = i" for t'
    using timerStep_rows [OF ok(1) t'(1)] t'(2) ok(2) busy idle by auto
  then show "held u i (fst (timerStep db op))"
    using timer_machine.step_inv [OF ok(1)] order.strict_trans2 [OF ok(2) timerStep_next] by (auto simp: held_def)
  show "i \<notin> dtID ` set cs" if "TimersClaimed token cs \<in> set (snd (timerStep db op))"
    using claimed_due [OF ok(1) that] idle by fastforce
qed

fun claims :: "int \<Rightarrow> timer_effect \<Rightarrow> bool" where
  "claims i (TimerReplaced key n) \<longleftrightarrow> False"
| "claims i (TimersClaimed token cs) \<longleftrightarrow> i \<in> dtID ` set cs"
| "claims i (TimerCompleted j) \<longleftrightarrow> False"

lemma held_run:
  "held u i db \<Longrightarrow> list_all (readsBefore u) ops \<Longrightarrow> list_all (\<lambda>e. \<not> claims i e) (snd (run timerStep db ops))"
proof (induction ops arbitrary: db)
  case (Cons op ops)
  from Cons.prems(2) have before: "readsBefore u op" "list_all (readsBefore u) ops" by simp_all
  have "\<not> claims i e" if e: "e \<in> set (snd (timerStep db op))" for e
  proof (cases e)
    case (TimersClaimed token cs)
    with held_step(2) [OF Cons.prems(1) before(1)] e show ?thesis by simp
  qed simp_all
  with Cons.IH [OF held_step(1) [OF Cons.prems(1) before(1)] before(2)] show ?case
    by (auto simp: case_prod_beta Let_def list_all_iff)
qed simp

lemma claimed_held:
  assumes "timersOk db" and "ClaimDueTimers locked now limit lease token db = Inr (db', cs)" and "c \<in> set cs"
  shows "held (micros (now + lease)) (dtID c) db'"
proof -
  let ?c = "timerCandidates locked now limit (ttTimers db)"
  let ?f = "\<lambda>t. t\<lparr>trwStatus := TimerClaimed, trwClaimToken := Some token, trwClaimedUntil := Some (micros (now + lease))\<rparr>"
  have db': "db' = db\<lparr>ttTimers := updateRows (\<lambda>t. trwID t \<in> trwID ` set ?c) ?f (ttTimers db)\<rparr>"
    using assms(2) by (auto simp: ClaimDueTimers_def Let_def split: if_splits)
  have "set cs = claimOf token (micros (now + lease)) ` {t \<in> set (ttTimers db). trwID t \<in> trwID ` set ?c}"
    unfolding claim_result [OF assms(2)] claim_order.set_sort_by by auto
  with assms(3) obtain t where t: "t \<in> set (ttTimers db)" "trwID t = dtID c" "trwID t \<in> trwID ` set ?c"
    by (auto simp: claimOf_def)
  have "trwClaimedUntil x = Some (micros (now + lease))" if x: "x \<in> set (ttTimers db')" "trwID x = dtID c" for x
  proof -
    have "x \<in> set (updateRows (\<lambda>t. trwID t \<in> trwID ` set ?c) ?f (ttTimers db))" using x(1) by (simp add: db')
    then obtain y where "y \<in> set (ttTimers db)" "x = (if trwID y \<in> trwID ` set ?c then ?f y else y)"
      by (rule updateRows_in)
    with x(2) t(2,3) show ?thesis by (cases "trwID y \<in> trwID ` set ?c") auto
  qed
  moreover have "dtID c < ttNextID db'" using timersOkD(3) [OF assms(1) t(1)] t(2) by (simp add: db' timerRowOk_def)
  ultimately show ?thesis using Claim_ok [OF assms(1,2)] by (auto simp: held_def)
qed

text \<open>C23. A claim is exclusive while its lease runs: as long as later claims read clocks before the end of
  the lease, none of them hands out a timer of the claim again, whichever other operations run
  in between.\<close>

theorem timer_claim_exclusive:
  assumes "ClaimDueTimers locked now limit lease token (fst (run timerStep (emptyTimers tr) ops)) = Inr (db, cs)"
    and "c \<in> set cs" and "list_all (readsBefore (micros (now + lease))) later"
  shows "list_all (\<lambda>e. \<not> claims (dtID c) e) (snd (run timerStep db later))"
  by (rule held_run [OF claimed_held [OF reached_ok assms(1,2)] assms(3)])

theorem timer_claim_exclusive_witness:
  "list_all (\<lambda>e. \<not> claims 1 e) (snd (run timerStep
     (fst (projr (ClaimDueTimers {} 2000 10 60000 ''w1'' (fst (run timerStep (emptyTimers [''k'' \<mapsto> 0]) (take 1 staleStart))))))
     [OpClaim {} 61000 10 60000 ''w2'']))"
proof -
  let ?claim = "ClaimDueTimers {} 2000 10 60000 ''w1'' (fst (run timerStep (emptyTimers [''k'' \<mapsto> 0]) (take 1 staleStart)))"
  have "case ?claim of Inl err \<Rightarrow> False | Inr (db, cs) \<Rightarrow> map dtID cs = [1]" by code_simp
  then obtain db cs where r: "?claim = Inr (db, cs)" "map dtID cs = [1]" by (auto split: sum.splits)
  from r(2) obtain c where c: "c \<in> set cs" "dtID c = 1" by (cases cs) auto
  have "list_all (readsBefore (micros (2000 + 60000))) [OpClaim {} 61000 10 60000 ''w2'']" by (simp add: micros_def)
  from timer_claim_exclusive [OF r(1) c(1) this] show ?thesis
    by (simp only: r(1) c(2) sum.sel fst_conv)
qed

subsection \<open>What a claim hands out\<close>

lemma timerRowKey_inj: "timersOk db \<Longrightarrow> inj_on timerRowKey (set (ttTimers db))"
  using same_key [OF timersOkD(2)] by (auto simp: inj_on_def timerRowKey_def)

lemma claim_candidates:
  assumes "timersOk db" and "ClaimDueTimers locked now limit lease token db = Inr (db', cs)"
  shows "cs = map (claimOf token (micros (now + lease))) (timerCandidates locked now limit (ttTimers db))"
proof -
  let ?c = "timerCandidates locked now limit (ttTimers db)" and ?g = "claimOf token (micros (now + lease))"
  let ?F = "filter (\<lambda>t. trwID t \<in> trwID ` set ?c) (ttTimers db)"
  have d: "distinct (ttTimers db)" using timersOkD(1) [OF assms(1)] by (simp add: distinct_map)
  have "distinct ?c" unfolding timerCandidates_def using d by (simp add: timer_row_order.distinct_sort_by)
  moreover have "t = u" if "t \<in> set (ttTimers db)" "u \<in> set ?c" "trwID t = trwID u" for t u
    by (rule same_key [OF timersOkD(1) [OF assms(1)] that(1) timerCandidates_in(1) [OF that(2)] that(3)])
  then have "set ?F = set ?c" by (auto dest: timerCandidates_in(1))
  ultimately have m: "mset ?F = mset ?c" using d by (intro set_eq_iff_mset_eq_distinct [THEN iffD1]) simp_all
  have sorted_c: "sorted (map timerRowKey ?c)"
    unfolding timerCandidates_def take_map [symmetric] by (intro sorted_wrt_take timer_row_order.sorted_sort_by)
  have inj: "inj_on timerRowKey (set ?F)" using timerRowKey_inj [OF assms(1)] by (rule inj_on_subset) auto
  have "inj_on (claimKey \<circ> ?g) (set ?F)" using inj by (simp add: inj_on_def)
  then have inj': "inj_on claimKey (set (map ?g ?F))" unfolding set_map by (rule inj_on_imageI)
  have "sort_by claimLess (map ?g ?F) = sort_by claimLess (map ?g ?c)"
    by (rule claim_order.sort_by_perm [OF _ inj']) (simp only: mset_map m)
  also have "\<dots> = map ?g ?c"
    unfolding claim_order.sort_by_eq using sorted_c by (intro sort_key_id_if_sorted) (simp add: comp_def)
  finally have "sort_by claimLess (map ?g ?F) = map ?g ?c" .
  then show ?thesis by (simp add: claim_result [OF assms(2)])
qed

lemma take_before_rest:
  assumes "sorted (map key xs)" and "inj_on key (set xs)" and "distinct xs"
    and "x \<in> set (take n xs)" and "y \<in> set xs" and "y \<notin> set (take n xs)"
  shows "key x < (key y :: 'k::linorder)"
proof -
  have "y \<in> set (drop n xs)" using assms(5,6) by (metis append_take_drop_id set_append Un_iff)
  moreover have "sorted (map key (take n xs) @ map key (drop n xs))"
    using assms(1) by (simp flip: map_append)
  ultimately have "key x \<le> key y" using assms(4) unfolding sorted_append by simp
  moreover have "key x \<noteq> key y"
    using assms(2,4,5,6) in_set_takeD [OF assms(4)] by (auto simp: inj_on_def)
  ultimately show ?thesis by simp
qed

text \<open>C35. A claim hands out exactly the earliest due timers: of the timers that are live, due, not leased
  and not locked it takes the number asked for, or all; the others come later in the
  order of due time, condition and generation; and it refuses only the malformed requests.\<close>

theorem timer_claims_earliest_due:
  "let db = fst (run timerStep (emptyTimers tr) ops);
       due = filter (\<lambda>t. dueTimer now t \<and> trwID t \<notin> locked) (ttTimers db)
   in case ClaimDueTimers locked now limit lease token db of
        Inl err \<Rightarrow> limit \<le> 0 \<or> token = [] \<or> lease \<le> 0
      | Inr (db', cs) \<Rightarrow> length cs = min (nat limit) (length due) \<and>
          set cs \<subseteq> claimOf token (micros (now + lease)) ` set due \<and> sorted (map claimKey cs) \<and>
          list_all (\<lambda>t. trwID t \<in> dtID ` set cs \<or> list_all (\<lambda>c. claimKey c < timerRowKey t) cs) due"
proof -
  let ?db = "fst (run timerStep (emptyTimers tr) ops)" and ?g = "claimOf token (micros (now + lease))"
  let ?due = "filter (\<lambda>t. dueTimer now t \<and> trwID t \<notin> locked) (ttTimers ?db)"
  let ?s = "sort_by timerRowLess ?due"
  have ok: "timersOk ?db" by (rule reached_ok)
  have "distinct (ttTimers ?db)" using timersOkD(1) [OF ok] by (simp only: distinct_map)
  then have d: "distinct ?s" by (simp add: timer_row_order.distinct_sort_by)
  have "set ?s \<subseteq> set (ttTimers ?db)" by (auto simp: timer_row_order.set_sort_by)
  with timerRowKey_inj [OF ok] have inj: "inj_on timerRowKey (set ?s)" by (rule inj_on_subset)
  show ?thesis
  proof (cases "ClaimDueTimers locked now limit lease token ?db")
    case (Inl err)
    then show ?thesis by (simp add: ClaimDueTimers_def Let_def split: if_splits)
  next
    case (Inr r)
    obtain db' cs where r: "r = (db', cs)" by (cases r)
    from claim_candidates [OF ok Inr [unfolded r]] have cs: "cs = map ?g (take (nat limit) ?s)"
      by (simp add: timerCandidates_def)
    have len: "length ?s = length ?due" by (simp only: timer_row_order.sort_by_eq length_sort)
    have "set cs \<subseteq> ?g ` set ?due"
      using set_take_subset [of "nat limit" ?s] by (auto simp: cs timer_row_order.set_sort_by)
    moreover have "sorted (map claimKey cs)"
      unfolding cs by (simp add: comp_def take_map [symmetric] sorted_wrt_take timer_row_order.sorted_sort_by)
    moreover have "trwID t \<in> dtID ` set cs \<or> list_all (\<lambda>c. claimKey c < timerRowKey t) cs" if "t \<in> set ?due" for t
    proof (cases "t \<in> set (take (nat limit) ?s)")
      case True
      then show ?thesis by (auto simp: cs claimOf_def image_iff)
    next
      case False
      have "t \<in> set ?s" using that by (simp add: timer_row_order.set_sort_by)
      from take_before_rest [OF timer_row_order.sorted_sort_by inj d _ this False]
      show ?thesis by (simp add: cs list_all_iff)
    qed
    ultimately show ?thesis by (simp add: Inr r Let_def cs len list_all_iff)
  qed
qed

end
