(* ===== verification/OccurrenceStore.thy ===== *)
theory OccurrenceStore
  imports Storage
begin

text \<open>
  Admission of occurrences, their processing and the runtime clock:
  \<^verbatim>\<open>InsertOccurrence\<close>, \<^verbatim>\<open>EnsureProcessing\<close> and \<^verbatim>\<open>MarkProcessed\<close> of
  \<^verbatim>\<open>internal/storage/db.go\<close>, and \<^verbatim>\<open>internal/storage/clock.go\<close>, on the tables
  \<^verbatim>\<open>occurrences\<close>, \<^verbatim>\<open>occurrence_processing\<close> and \<^verbatim>\<open>runtime_clock\<close>. The
  hexadecimal digest of a payload and the text of a payload that went through \<^verbatim>\<open>JSONB\<close>
  are the arguments \<open>digest\<close> and \<open>jsonb\<close>.
\<close>

subsection \<open>Tables\<close>

record occurrence_input =
  ocSource :: string
  ocSourceEventID :: string
  ocStreamPosition :: "int option"
  ocIdempotencyKey :: string
  ocEffectiveAt :: gotime
  ocPayload :: string

record occurrence_row =
  orwID :: int
  orwIngestPosition :: int
  orwSource :: string
  orwSourceEventID :: string
  orwStreamPosition :: "int option"
  orwIdempotencyKey :: string
  orwEffectiveAt :: gotime
  orwPayload :: string
  orwPayloadRaw :: string
  orwPayloadHash :: string

datatype processing_status = ProcessingPending | ProcessingActive | ProcessingDone | ProcessingFailed

record processing_row =
  prwStatus :: processing_status
  prwAttempts :: int

record runtime_clock =
  LogicalNow :: "gotime option"
  GreatestObservedAt :: "gotime option"

record occurrence_tables =
  otOccurrences :: "occurrence_row list"
  otProcessing :: "int \<rightharpoonup> processing_row"
  otClock :: runtime_clock
  otNextID :: int

datatype admission_error = StreamPositionConflict string | OccurrenceDiffers string | OccurrenceUnknown int

subsection \<open>Admission\<close>

definition samePosition :: "int option \<Rightarrow> int option \<Rightarrow> bool" where
  "samePosition a b =
     (if a = None \<or> b = None then a = b else the a = the b)"

definition occurrenceRow ::
  "(string \<Rightarrow> string) \<Rightarrow> (string \<Rightarrow> string) \<Rightarrow> int \<Rightarrow> occurrence_input \<Rightarrow> occurrence_row"
where
  "occurrenceRow digest jsonb i oc = \<lparr>orwID = i, orwIngestPosition = i, orwSource = ocSource oc,
     orwSourceEventID = ocSourceEventID oc, orwStreamPosition = ocStreamPosition oc,
     orwIdempotencyKey = ocIdempotencyKey oc, orwEffectiveAt = micros (ocEffectiveAt oc),
     orwPayload = jsonb (ocPayload oc), orwPayloadRaw = ocPayload oc, orwPayloadHash = digest (ocPayload oc)\<rparr>"

text \<open>Both identity columns count the rows. The insertion does nothing on a conflict of source and
  key, and the row it conflicts with is read again.\<close>

definition admittedRow :: "string \<Rightarrow> string \<Rightarrow> occurrence_tables \<Rightarrow> occurrence_row option" where
  "admittedRow src key db = find (\<lambda>r. orwSource r = src \<and> orwIdempotencyKey r = key) (otOccurrences db)"

definition InsertOccurrence ::
  "(string \<Rightarrow> string) \<Rightarrow> (string \<Rightarrow> string) \<Rightarrow> occurrence_input \<Rightarrow> occurrence_tables
     \<Rightarrow> admission_error + occurrence_tables \<times> int \<times> bool"
where
  "InsertOccurrence digest jsonb oc db =
     (if admittedRow (ocSource oc) (ocIdempotencyKey oc) db = None
      then Inr (db\<lparr>otOccurrences := otOccurrences db @ [occurrenceRow digest jsonb (otNextID db) oc],
          otNextID := otNextID db + 1\<rparr>, otNextID db, True)
      else case admittedRow (ocSource oc) (ocIdempotencyKey oc) db of
        None \<Rightarrow> Inl (StreamPositionConflict (ocIdempotencyKey oc))
      | Some r \<Rightarrow>
          if orwPayloadHash r \<noteq> digest (ocPayload oc) \<or> orwSourceEventID r \<noteq> ocSourceEventID oc \<or>
             orwEffectiveAt r \<noteq> ocEffectiveAt oc \<or> \<not> samePosition (orwStreamPosition r) (ocStreamPosition oc)
          then Inl (OccurrenceDiffers (ocIdempotencyKey oc))
          else Inr (db, orwID r, False))"

subsection \<open>Processing\<close>

text \<open>The foreign key of the processing row, and \<^verbatim>\<open>ON CONFLICT DO NOTHING\<close>.\<close>

definition EnsureProcessing ::
  "int \<Rightarrow> occurrence_tables \<Rightarrow> admission_error + occurrence_tables \<times> unit"
where
  "EnsureProcessing i db =
     (if otProcessing db i \<noteq> None then Inr (db, ())
      else if i \<notin> orwID ` set (otOccurrences db) then Inl (OccurrenceUnknown i)
      else Inr (db\<lparr>otProcessing := (otProcessing db)(i \<mapsto> \<lparr>prwStatus = ProcessingPending, prwAttempts = 0\<rparr>)\<rparr>, ()))"

definition MarkProcessed ::
  "int \<Rightarrow> occurrence_tables \<Rightarrow> admission_error + occurrence_tables \<times> unit"
where
  "MarkProcessed i db = (case otProcessing db i of
       None \<Rightarrow> Inr (db, ())
     | Some p \<Rightarrow>
         if prwStatus p \<noteq> ProcessingDone
         then Inr (db\<lparr>otProcessing := (otProcessing db)(i \<mapsto> p\<lparr>prwStatus := ProcessingDone\<rparr>)\<rparr>, ())
         else Inr (db, ()))"

record pending_occurrence =
  poID :: int
  poIngestPosition :: int
  poEffectiveAt :: gotime
  poPayload :: string

definition isPending :: "occurrence_tables \<Rightarrow> occurrence_row \<Rightarrow> bool" where
  "isPending db r \<longleftrightarrow> (case otProcessing db (orwID r) of None \<Rightarrow> False | Some p \<Rightarrow> prwStatus p = ProcessingPending)"

text \<open>Ordered locking: the pending occurrence that was ingested first, or none.\<close>

definition NextPendingOccurrence ::
  "occurrence_tables \<Rightarrow> admission_error + occurrence_tables \<times> pending_occurrence option"
where
  "NextPendingOccurrence db =
     (case take 1 (sort_by (\<lambda>a b. orwIngestPosition a < orwIngestPosition b)
             (filter (isPending db) (otOccurrences db))) of
        [] \<Rightarrow> Inr (db, None)
      | r # rs \<Rightarrow> Inr (db\<lparr>otProcessing := (otProcessing db)(orwID r := map_option
            (\<lambda>p. p\<lparr>prwStatus := ProcessingActive, prwAttempts := prwAttempts p + 1\<rparr>) (otProcessing db (orwID r)))\<rparr>,
          Some \<lparr>poID = orwID r, poIngestPosition = orwIngestPosition r, poEffectiveAt = orwEffectiveAt r,
            poPayload = orwPayload r\<rparr>))"

subsection \<open>The clock\<close>

definition LockClock :: "occurrence_tables \<Rightarrow> admission_error + occurrence_tables \<times> runtime_clock" where
  "LockClock db = Inr (db, otClock db)"

text \<open>\<^verbatim>\<open>GREATEST(COALESCE(old, '-infinity'), now)\<close>.\<close>

definition greatest :: "gotime option \<Rightarrow> gotime \<Rightarrow> gotime" where
  "greatest old now = (case old of None \<Rightarrow> now | Some t \<Rightarrow> max t now)"

definition AdvanceClock :: "gotime \<Rightarrow> occurrence_tables \<Rightarrow> admission_error + occurrence_tables \<times> gotime" where
  "AdvanceClock now db =
     (let logicalNow = greatest (LogicalNow (otClock db)) (micros now)
      in Inr (db\<lparr>otClock := \<lparr>LogicalNow = Some logicalNow,
           GreatestObservedAt = Some (greatest (GreatestObservedAt (otClock db)) (micros now))\<rparr>\<rparr>, logicalNow))"

end
