(* ===== verification/ObservationStore.thy ===== *)
theory ObservationStore
  imports Storage
begin

text \<open>
  The durable projections, the second half of \<^verbatim>\<open>internal/storage/db.go\<close>: for each of the
  three sources a table of observations, one per occurrence, and a table of the current
  observation of every queue or agent. The subselect of an occurrence's ingestion position is
  the argument \<open>ingest\<close>; \<open>None\<close> is a missing occurrence.
\<close>

subsection \<open>Tables\<close>

record queue_row =
  qrwID :: int
  qrwOccurrenceID :: int
  qrwQueueID :: string
  qrwEffectiveAt :: gotime
  qrwStreamPosition :: int
  qrwTicketsWaiting :: int
  qrwLongestWaitSec :: int
  qrwSLATargetSec :: int
  qrwAgentsAvailable :: int
  qrwAgentsOnCall :: int
  qrwVolumeLast15m :: int
  qrwVolumeForecastNext15m :: "int option"

record agent_row =
  arwID :: int
  arwOccurrenceID :: int
  arwAgentID :: string
  arwEffectiveAt :: gotime
  arwStreamPosition :: int
  arwPreviousState :: "string option"
  arwNewState :: string
  arwPreviousStateDurationSec :: "int option"
  arwQueueIDs :: "string list"

record adherence_row =
  hrwID :: int
  hrwOccurrenceID :: int
  hrwAgentID :: string
  hrwEffectiveAt :: gotime
  hrwStreamPosition :: int
  hrwScheduledState :: string
  hrwActualState :: string
  hrwInViolation :: bool
  hrwViolationStartedAt :: "gotime option"
  hrwQueueIDs :: "string list"

record current_row =
  crwObservationID :: int
  crwEffectiveAt :: gotime
  crwStreamPosition :: int

record observation_tables =
  obQueueRows :: "queue_row list"
  obQueueCurrent :: "string \<rightharpoonup> current_row"
  obAgentRows :: "agent_row list"
  obAgentCurrent :: "string \<rightharpoonup> current_row"
  obAdherenceRows :: "adherence_row list"
  obAdherenceCurrent :: "string \<rightharpoonup> current_row"

datatype observation_error = ObservationWithoutOccurrence int | ObservationNegative int

subsection \<open>Records of the adapter\<close>

record stored_snapshot =
  ssOccurrenceID :: int
  ssQueueID :: string
  ssEffectiveAt :: gotime
  ssTicketsWaiting :: int
  ssLongestWaitSec :: int
  ssSLATargetSec :: int
  ssAgentsAvailable :: int
  ssAgentsOnCall :: int
  ssVolumeLast15m :: int
  ssVolumeForecastNext15m :: "int option"

record stored_change =
  scOccurrenceID :: int
  scAgentID :: string
  scEffectiveAt :: gotime
  scPreviousState :: "string option"
  scNewState :: string
  scPreviousStateDurationSec :: "int option"
  scQueueIDs :: "string list"

record stored_check =
  skOccurrenceID :: int
  skAgentID :: string
  skEffectiveAt :: gotime
  skScheduledState :: string
  skActualState :: string
  skInViolation :: bool
  skViolationStartedAt :: "gotime option"
  skQueueIDs :: "string list"

subsection \<open>What the three share\<close>

text \<open>\<^verbatim>\<open>INSERT ... ON CONFLICT(occurrence_id) DO UPDATE ... RETURNING\<close>: the row of the
  occurrence, inserted unless it is there.\<close>

definition insertRow :: "('r \<Rightarrow> int) \<Rightarrow> 'r \<Rightarrow> 'r list \<Rightarrow> 'r list \<times> 'r" where
  "insertRow occ new rows = (case find (\<lambda>r. occ r = occ new) rows of
       Some r \<Rightarrow> (rows, r) | None \<Rightarrow> (rows @ [new], new))"

text \<open>The upsert of the current row, which a row-wise later one keeps; and whether it wrote.\<close>

definition advanceCurrent ::
  "string \<Rightarrow> current_row \<Rightarrow> (string \<rightharpoonup> current_row) \<Rightarrow> (string \<rightharpoonup> current_row) \<times> bool"
where
  "advanceCurrent key new m = (case m key of
       None \<Rightarrow> (m(key \<mapsto> new), True)
     | Some cur \<Rightarrow>
         if (crwEffectiveAt cur, crwStreamPosition cur) \<le> (crwEffectiveAt new, crwStreamPosition new)
         then (m(key \<mapsto> new), True) else (m, False))"

definition nonNegative :: "int option \<Rightarrow> bool" where
  "nonNegative n \<longleftrightarrow> (case n of None \<Rightarrow> True | Some k \<Rightarrow> 0 \<le> k)"

subsection \<open>Operations\<close>

text \<open>The row that an insertion stores, under the next identifier \<open>n\<close> and at the position
  \<open>pos\<close>.\<close>

definition queueRow :: "int \<Rightarrow> int \<Rightarrow> stored_snapshot \<Rightarrow> queue_row" where
  "queueRow n pos s = \<lparr>qrwID = n, qrwOccurrenceID = ssOccurrenceID s, qrwQueueID = ssQueueID s,
     qrwEffectiveAt = micros (ssEffectiveAt s), qrwStreamPosition = pos,
     qrwTicketsWaiting = ssTicketsWaiting s, qrwLongestWaitSec = ssLongestWaitSec s,
     qrwSLATargetSec = ssSLATargetSec s, qrwAgentsAvailable = ssAgentsAvailable s,
     qrwAgentsOnCall = ssAgentsOnCall s, qrwVolumeLast15m = ssVolumeLast15m s,
     qrwVolumeForecastNext15m = ssVolumeForecastNext15m s\<rparr>"

definition agentRow :: "int \<Rightarrow> int \<Rightarrow> stored_change \<Rightarrow> agent_row" where
  "agentRow n pos c = \<lparr>arwID = n, arwOccurrenceID = scOccurrenceID c, arwAgentID = scAgentID c,
     arwEffectiveAt = micros (scEffectiveAt c), arwStreamPosition = pos, arwPreviousState = scPreviousState c,
     arwNewState = scNewState c, arwPreviousStateDurationSec = scPreviousStateDurationSec c,
     arwQueueIDs = scQueueIDs c\<rparr>"

definition adherenceRow :: "int \<Rightarrow> int \<Rightarrow> stored_check \<Rightarrow> adherence_row" where
  "adherenceRow n pos c = \<lparr>hrwID = n, hrwOccurrenceID = skOccurrenceID c, hrwAgentID = skAgentID c,
     hrwEffectiveAt = micros (skEffectiveAt c), hrwStreamPosition = pos, hrwScheduledState = skScheduledState c,
     hrwActualState = skActualState c, hrwInViolation = skInViolation c,
     hrwViolationStartedAt = map_option micros (skViolationStartedAt c), hrwQueueIDs = skQueueIDs c\<rparr>"

definition ApplyQueueSnapshot ::
  "(int \<Rightarrow> int option) \<Rightarrow> stored_snapshot \<Rightarrow> observation_tables \<Rightarrow> observation_error + observation_tables \<times> bool"
where
  "ApplyQueueSnapshot ingest s db = (case ingest (ssOccurrenceID s) of
       None \<Rightarrow> Inl (ObservationWithoutOccurrence (ssOccurrenceID s))
     | Some pos \<Rightarrow>
         if \<not> (0 \<le> ssTicketsWaiting s \<and> 0 \<le> ssLongestWaitSec s \<and> 0 \<le> ssSLATargetSec s \<and>
               0 \<le> ssAgentsAvailable s \<and> 0 \<le> ssAgentsOnCall s \<and> 0 \<le> ssVolumeLast15m s \<and>
               nonNegative (ssVolumeForecastNext15m s))
         then Inl (ObservationNegative (ssOccurrenceID s))
         else (let (rows, row) = insertRow qrwOccurrenceID (queueRow (int (length (obQueueRows db)) + 1) pos s)
                 (obQueueRows db);
               (current, wrote) = advanceCurrent (ssQueueID s) \<lparr>crwObservationID = qrwID row,
                 crwEffectiveAt = micros (ssEffectiveAt s), crwStreamPosition = pos\<rparr> (obQueueCurrent db)
           in Inr (db\<lparr>obQueueRows := rows, obQueueCurrent := current\<rparr>, wrote)))"

text \<open>The other two take the agent, time and position of the row that the insertion returns.\<close>

definition ApplyAgentStateChange ::
  "(int \<Rightarrow> int option) \<Rightarrow> stored_change \<Rightarrow> observation_tables \<Rightarrow> observation_error + observation_tables \<times> bool"
where
  "ApplyAgentStateChange ingest c db = (case ingest (scOccurrenceID c) of
       None \<Rightarrow> Inl (ObservationWithoutOccurrence (scOccurrenceID c))
     | Some pos \<Rightarrow>
         if \<not> nonNegative (scPreviousStateDurationSec c) then Inl (ObservationNegative (scOccurrenceID c))
         else (let (rows, row) = insertRow arwOccurrenceID (agentRow (int (length (obAgentRows db)) + 1) pos c)
                 (obAgentRows db);
               (current, wrote) = advanceCurrent (arwAgentID row) \<lparr>crwObservationID = arwID row,
                 crwEffectiveAt = arwEffectiveAt row, crwStreamPosition = arwStreamPosition row\<rparr> (obAgentCurrent db)
           in Inr (db\<lparr>obAgentRows := rows, obAgentCurrent := current\<rparr>, wrote)))"

definition ApplyAdherenceCheck ::
  "(int \<Rightarrow> int option) \<Rightarrow> stored_check \<Rightarrow> observation_tables \<Rightarrow> observation_error + observation_tables \<times> bool"
where
  "ApplyAdherenceCheck ingest c db = (case ingest (skOccurrenceID c) of
       None \<Rightarrow> Inl (ObservationWithoutOccurrence (skOccurrenceID c))
     | Some pos \<Rightarrow>
         (let (rows, row) = insertRow hrwOccurrenceID (adherenceRow (int (length (obAdherenceRows db)) + 1) pos c)
              (obAdherenceRows db);
            (current, wrote) = advanceCurrent (hrwAgentID row) \<lparr>crwObservationID = hrwID row,
              crwEffectiveAt = hrwEffectiveAt row, crwStreamPosition = hrwStreamPosition row\<rparr> (obAdherenceCurrent db)
        in Inr (db\<lparr>obAdherenceRows := rows, obAdherenceCurrent := current\<rparr>, wrote)))"

end
