(* ===== verification/DurableProjections.thy ===== *)
theory DurableProjections
  imports ReplayEvidence ObservationStore
begin

text \<open>
  How the durable replay stores what the projection builder made of an occurrence,
  \<^verbatim>\<open>persistProjection\<close> of \<^verbatim>\<open>internal/runtime/replay.go\<close>.
\<close>

definition uint64p :: "u64 option \<Rightarrow> int option" where
  "uint64p v = map_option toInt64 v"

definition storedSnapshot :: "int \<Rightarrow> queue_snapshot \<Rightarrow> stored_snapshot" where
  "storedSnapshot i x = \<lparr>ssOccurrenceID = i, ssQueueID = qsQueueID x, ssEffectiveAt = evTimestamp (qsCommon x),
     ssTicketsWaiting = toInt64 (qsTicketsWaiting x), ssLongestWaitSec = toInt64 (qsLongestWaitSec x),
     ssSLATargetSec = toInt64 (qsSLATargetSec x), ssAgentsAvailable = toInt64 (qsAgentsAvailable x),
     ssAgentsOnCall = toInt64 (qsAgentsOnCall x), ssVolumeLast15m = toInt64 (qsVolumeLast15m x),
     ssVolumeForecastNext15m = uint64p (qsVolumeForecastNext15m x)\<rparr>"

definition storedChange :: "int \<Rightarrow> agent_state_change \<Rightarrow> stored_change" where
  "storedChange i x = \<lparr>scOccurrenceID = i, scAgentID = asAgentID x, scEffectiveAt = evTimestamp (asCommon x),
     scPreviousState = asPreviousState x, scNewState = asNewState x,
     scPreviousStateDurationSec = uint64p (asPreviousStateDurationSec x), scQueueIDs = asQueueIDs x\<rparr>"

definition storedCheck :: "int \<Rightarrow> adherence_check \<Rightarrow> stored_check" where
  "storedCheck i x = \<lparr>skOccurrenceID = i, skAgentID = acAgentID x, skEffectiveAt = evTimestamp (acCommon x),
     skScheduledState = acScheduledState x, skActualState = acActualState x, skInViolation = acInViolation x,
     skViolationStartedAt = acViolationStartedAt x, skQueueIDs = acQueueIDs x\<rparr>"

definition persistProjection ::
  "(int \<Rightarrow> int option) \<Rightarrow> int \<Rightarrow> update \<Rightarrow> observation_tables \<Rightarrow> observation_error + observation_tables"
where
  "persistProjection ingest i u db = (case upSource u of
       QueueUpdate ob st changed \<Rightarrow> map_sum id fst (ApplyQueueSnapshot ingest (storedSnapshot i (qoSnapshot ob)) db)
     | AgentStateUpdate ob st changed \<Rightarrow> map_sum id fst (ApplyAgentStateChange ingest (storedChange i (aoChange ob)) db)
     | AdherenceUpdate ob st changed \<Rightarrow> map_sum id fst (ApplyAdherenceCheck ingest (storedCheck i (adCheck ob)) db))"

end
