(* ===== verification/AlertStore.thy ===== *)
theory AlertStore
  imports Storage Preview
begin

text \<open>
  The durable alerts, \<^verbatim>\<open>persistAlert\<close> of \<^verbatim>\<open>internal/runtime/replay.go\<close>, on the
  tables \<^verbatim>\<open>alert_series\<close>, \<^verbatim>\<open>alert_generations\<close> and \<^verbatim>\<open>alert_transitions\<close>
  with their checks and unique constraints.
\<close>

subsection \<open>Tables\<close>

record alert_series_row =
  asrID :: int
  asrKey :: series_key

datatype generation_status = GenerationOpen | GenerationRecovered

record generation_row =
  grwID :: int
  grwSeriesID :: int
  grwGeneration :: int
  grwStatus :: generation_status
  grwOpenedAt :: gotime
  grwRecoveredAt :: "gotime option"

record transition_row =
  xrwID :: int
  xrwGenerationID :: int
  xrwType :: string
  xrwOccurredAt :: gotime

record alert_tables =
  alSeries :: "alert_series_row list"
  alGenerations :: "generation_row list"
  alTransitions :: "transition_row list"
  alNextSeries :: int
  alNextGeneration :: int
  alNextTransition :: int

datatype alert_error = SeriesKindRejected string | GenerationStored int int | GenerationNotFound int int
  | TransitionStored int string

subsection \<open>Statements\<close>

text \<open>The row of a series is inserted or found again.\<close>

definition upsertSeries :: "series_key \<Rightarrow> alert_tables \<Rightarrow> alert_error + alert_tables \<times> int" where
  "upsertSeries k db =
     (if skSubjectKind k \<noteq> ''queue'' \<and> skSubjectKind k \<noteq> ''agent'' then Inl (SeriesKindRejected (skSubjectKind k))
      else case find (\<lambda>r. asrKey r = k) (alSeries db) of
        Some r \<Rightarrow> Inr (db, asrID r)
      | None \<Rightarrow> Inr (db\<lparr>alSeries := alSeries db @ [\<lparr>asrID = alNextSeries db, asrKey = k\<rparr>],
            alNextSeries := alNextSeries db + 1\<rparr>, alNextSeries db))"

definition generationAt :: "int \<Rightarrow> int \<Rightarrow> generation_row \<Rightarrow> bool" where
  "generationAt sid gen r \<longleftrightarrow> grwSeriesID r = sid \<and> grwGeneration r = gen"

definition openGeneration ::
  "int \<Rightarrow> int \<Rightarrow> gotime \<Rightarrow> alert_tables \<Rightarrow> alert_error + alert_tables \<times> int"
where
  "openGeneration sid gen at db =
     (if \<exists>r \<in> set (alGenerations db). generationAt sid gen r then Inl (GenerationStored sid gen)
      else Inr (db\<lparr>alGenerations := alGenerations db @ [\<lparr>grwID = alNextGeneration db, grwSeriesID = sid,
              grwGeneration = gen, grwStatus = GenerationOpen, grwOpenedAt = micros at, grwRecoveredAt = None\<rparr>],
            alNextGeneration := alNextGeneration db + 1\<rparr>, alNextGeneration db))"

text \<open>\<^verbatim>\<open>UPDATE ... RETURNING\<close> scanned into one variable: no row is an error.\<close>

definition recoverGeneration ::
  "int \<Rightarrow> int \<Rightarrow> gotime \<Rightarrow> alert_tables \<Rightarrow> alert_error + alert_tables \<times> int"
where
  "recoverGeneration sid gen at db = (case find (generationAt sid gen) (alGenerations db) of
       None \<Rightarrow> Inl (GenerationNotFound sid gen)
     | Some r \<Rightarrow> Inr (db\<lparr>alGenerations := updateRows (generationAt sid gen)
           (\<lambda>r. r\<lparr>grwStatus := GenerationRecovered, grwRecoveredAt := Some (micros at)\<rparr>) (alGenerations db)\<rparr>, grwID r))"

definition insertTransition ::
  "int \<Rightarrow> string \<Rightarrow> gotime \<Rightarrow> alert_tables \<Rightarrow> alert_error + alert_tables \<times> int"
where
  "insertTransition gid ty at db =
     (if \<exists>r \<in> set (alTransitions db). xrwGenerationID r = gid \<and> xrwType r = ty then Inl (TransitionStored gid ty)
      else Inr (db\<lparr>alTransitions := alTransitions db @ [\<lparr>xrwID = alNextTransition db, xrwGenerationID = gid,
              xrwType = ty, xrwOccurredAt = micros at\<rparr>],
            alNextTransition := alNextTransition db + 1\<rparr>, alNextTransition db))"

subsection \<open>An alert transition\<close>

definition persistAlert ::
  "alert_transition \<Rightarrow> alert_tables \<Rightarrow> alert_error + alert_tables \<times> int \<times> int"
where
  "persistAlert a db = (case upsertSeries (atSeries a) db of
       Inl err \<Rightarrow> Inl err
     | Inr (db1, sid) \<Rightarrow>
         (case (if atKind a = Open then openGeneration sid (toInt64 (atGeneration a)) (atAt a) db1
                else recoverGeneration sid (toInt64 (atGeneration a)) (atAt a) db1) of
            Inl err \<Rightarrow> Inl err
          | Inr (db2, gid) \<Rightarrow> (case insertTransition gid (kindString (atKind a)) (atAt a) db2 of
              Inl err \<Rightarrow> Inl err
            | Inr (db3, tid) \<Rightarrow> Inr (db3, gid, tid))))"

definition emptyAlerts :: alert_tables where
  "emptyAlerts = \<lparr>alSeries = [], alGenerations = [], alTransitions = [], alNextSeries = 1,
     alNextGeneration = 1, alNextTransition = 1\<rparr>"

end
