(* ===== verification/IntentStore.thy ===== *)
theory IntentStore
  imports Storage
begin

text \<open>
  The durable notification queue, the second half of \<^verbatim>\<open>internal/storage/work.go\<close>:
  intents, their claims, and the attempts to deliver them, on the tables
  \<^verbatim>\<open>notification_intents\<close>, \<^verbatim>\<open>delivery_attempts\<close> and
  \<^verbatim>\<open>notification_deliveries\<close>. The argument \<open>jsonb\<close> is the value that a payload text has
  as \<^verbatim>\<open>JSONB\<close>; \<open>clock\<close> is the database's wall clock; the foreign keys to alert
  generations and transitions are the sets of the identifiers that exist.
\<close>

subsection \<open>Text\<close>

text \<open>\<^verbatim>\<open>base64.RawURLEncoding\<close>.\<close>

definition sextet :: "nat \<Rightarrow> char" where
  "sextet n = (if n < 26 then char_of (65 + n) else if n < 52 then char_of (71 + n)
     else if n < 62 then char_of (n - 4) else if n = 62 then CHR ''-'' else CHR ''_'')"

definition byteOf :: "char \<Rightarrow> nat" where
  "byteOf c = of_char c"

fun base64 :: "string \<Rightarrow> string" where
  "base64 [] = []"
| "base64 [a] = [sextet (byteOf a div 4), sextet (byteOf a mod 4 * 16)]"
| "base64 [a, b] = [sextet (byteOf a div 4), sextet (byteOf a mod 4 * 16 + byteOf b div 16),
     sextet (byteOf b mod 16 * 4)]"
| "base64 (a # b # c # cs) = [sextet (byteOf a div 4), sextet (byteOf a mod 4 * 16 + byteOf b div 16),
     sextet (byteOf b mod 16 * 4 + byteOf c div 64), sextet (byteOf c mod 64)] @ base64 cs"

subsection \<open>Tables\<close>

datatype intent_state = IntentPending | IntentClaimed | IntentDelivered | IntentFailed

record intent_row =
  irwID :: int
  irwDedupeKey :: string
  irwAlertGenerationID :: int
  irwAlertTransitionID :: "int option"
  irwTransitionType :: string
  irwAudience :: string
  irwState :: intent_state
  irwPayload :: string
  irwClaimToken :: "string option"
  irwClaimedUntil :: "gotime option"
  irwCreatedAt :: gotime
  irwDeliveredAt :: "gotime option"

datatype attempt_state = AttemptStarted | AttemptSucceeded | AttemptFailed

record attempt_row =
  awrID :: int
  awrIntentID :: int
  awrNumber :: int
  awrState :: attempt_state
  awrVisibleMessage :: "string option"
  awrFinishedAt :: "gotime option"

record delivery_row =
  dwrAttemptID :: int
  dwrDeliveredAt :: gotime
  dwrOutcome :: string
  dwrVisibleMessage :: string

record intent_tables =
  itIntents :: "intent_row list"
  itAttempts :: "attempt_row list"
  itDeliveries :: "int \<rightharpoonup> delivery_row"
  itNextIntent :: int
  itNextAttempt :: int

datatype intent_error = IntentTypeInvalid string | IntentGenerationMissing int | IntentTransitionMissing int
  | IntentConflicts string | IntentNotFound int | IntentClaimArguments | IntentLeaseNotPositive
  | IntentNotClaimed int | IntentDeliveredTwice int

subsection \<open>Creating intents\<close>

definition validTransitionType :: "string \<Rightarrow> bool" where
  "validTransitionType ty \<longleftrightarrow> ty = ''open'' \<or> ty = ''recovery''"

definition newIntent ::
  "int \<Rightarrow> gotime \<Rightarrow> string \<Rightarrow> int \<Rightarrow> int option \<Rightarrow> string \<Rightarrow> string \<Rightarrow> string \<Rightarrow> intent_row"
where
  "newIntent i clock dedupe gen tid ty aud pay = \<lparr>irwID = i, irwDedupeKey = dedupe, irwAlertGenerationID = gen,
     irwAlertTransitionID = tid, irwTransitionType = ty, irwAudience = aud, irwState = IntentPending,
     irwPayload = pay, irwClaimToken = None, irwClaimedUntil = None, irwCreatedAt = micros clock,
     irwDeliveredAt = None\<rparr>"

definition addIntent :: "intent_row \<Rightarrow> intent_tables \<Rightarrow> intent_tables" where
  "addIntent r db = db\<lparr>itIntents := itIntents db @ [r], itNextIntent := itNextIntent db + 1\<rparr>"

definition EnsureNotificationIntent ::
  "(string \<Rightarrow> string) \<Rightarrow> int set \<Rightarrow> gotime \<Rightarrow> string \<Rightarrow> int \<Rightarrow> string \<Rightarrow> string \<Rightarrow> string
     \<Rightarrow> intent_tables \<Rightarrow> intent_error + intent_tables \<times> int \<times> bool"
where
  "EnsureNotificationIntent jsonb generations clock dedupe gen ty aud payload db =
     (if \<not> validTransitionType ty then Inl (IntentTypeInvalid ty)
      else case find (\<lambda>r. irwDedupeKey r = dedupe) (itIntents db) of
        None \<Rightarrow>
          if gen \<notin> generations then Inl (IntentGenerationMissing gen)
          else Inr (addIntent (newIntent (itNextIntent db) clock dedupe gen None ty aud (jsonb payload)) db,
            itNextIntent db, True)
      | Some r \<Rightarrow>
          if irwAlertGenerationID r \<noteq> gen \<or> irwTransitionType r \<noteq> ty \<or> irwAudience r \<noteq> aud \<or>
             irwPayload r \<noteq> jsonb payload
          then Inl (IntentConflicts dedupe)
          else Inr (db, irwID r, False))"

definition transitionDedupe :: "int \<Rightarrow> string \<Rightarrow> string \<Rightarrow> string" where
  "transitionDedupe tid aud ty = ''alert-transition:'' @ formatInt tid @ '':'' @ base64 aud @ '':'' @ ty"

text \<open>The unique index over transition, audience and type.\<close>

definition sameTransition :: "int \<Rightarrow> string \<Rightarrow> string \<Rightarrow> intent_row \<Rightarrow> bool" where
  "sameTransition tid aud ty r \<longleftrightarrow> irwAlertTransitionID r = Some tid \<and> irwAudience r = aud \<and> irwTransitionType r = ty"

definition EnsureNotificationIntentForTransition ::
  "(string \<Rightarrow> string) \<Rightarrow> int set \<Rightarrow> int set \<Rightarrow> gotime \<Rightarrow> int \<Rightarrow> int \<Rightarrow> string \<Rightarrow> string \<Rightarrow> string
     \<Rightarrow> intent_tables \<Rightarrow> intent_error + intent_tables \<times> int \<times> bool"
where
  "EnsureNotificationIntentForTransition jsonb generations transitions clock tid gen ty aud payload db =
     (let dedupe = transitionDedupe tid aud ty
      in if \<not> validTransitionType ty then Inl (IntentTypeInvalid ty)
         else if \<not> (\<exists>r \<in> set (itIntents db). irwDedupeKey r = dedupe \<or> sameTransition tid aud ty r) then
           (if gen \<notin> generations then Inl (IntentGenerationMissing gen)
            else if tid \<notin> transitions then Inl (IntentTransitionMissing tid)
            else Inr (addIntent (newIntent (itNextIntent db) clock dedupe gen (Some tid) ty aud (jsonb payload)) db,
              itNextIntent db, True))
         else case find (sameTransition tid aud ty) (itIntents db) of
           None \<Rightarrow> Inl (IntentNotFound tid)
         | Some r \<Rightarrow>
             if irwAlertGenerationID r \<noteq> gen \<or> irwPayload r \<noteq> jsonb payload then Inl (IntentConflicts dedupe)
             else Inr (db, irwID r, False))"

subsection \<open>Claims\<close>

record claimed_intent =
  ciID :: int
  ciDedupeKey :: string
  ciAlertGenerationID :: int
  ciTransitionType :: string
  ciAudience :: string
  ciState :: intent_state
  ciPayload :: string
  ciClaimToken :: string

definition claimableIntent :: "gotime \<Rightarrow> intent_row \<Rightarrow> bool" where
  "claimableIntent now r \<longleftrightarrow>
     (irwState r = IntentPending \<or> irwState r = IntentClaimed \<or> irwState r = IntentFailed) \<and>
     (case irwClaimedUntil r of None \<Rightarrow> True | Some u \<Rightarrow> u \<le> micros now)"

text \<open>\<^verbatim>\<open>ORDER BY created_at, intent_id\<close>.\<close>

definition intentRowLess :: "intent_row \<Rightarrow> intent_row \<Rightarrow> bool" where
  "intentRowLess a b = (if irwCreatedAt a \<noteq> irwCreatedAt b then irwCreatedAt a < irwCreatedAt b
     else irwID a < irwID b)"

definition intentCandidates :: "int set \<Rightarrow> gotime \<Rightarrow> int \<Rightarrow> intent_row list \<Rightarrow> intent_row list" where
  "intentCandidates locked now limit rows =
     take (nat limit) (sort_by intentRowLess (filter (\<lambda>r. claimableIntent now r \<and> irwID r \<notin> locked) rows))"

definition claimIntent :: "string \<Rightarrow> gotime \<Rightarrow> intent_row \<Rightarrow> intent_row" where
  "claimIntent token until r =
     r\<lparr>irwState := IntentClaimed, irwClaimToken := Some token, irwClaimedUntil := Some until\<rparr>"

definition claimedIntent :: "string \<Rightarrow> intent_row \<Rightarrow> claimed_intent" where
  "claimedIntent token r = \<lparr>ciID = irwID r, ciDedupeKey = irwDedupeKey r, ciAlertGenerationID = irwAlertGenerationID r,
     ciTransitionType = irwTransitionType r, ciAudience = irwAudience r, ciState = irwState r,
     ciPayload = irwPayload r, ciClaimToken = token\<rparr>"

text \<open>The rows come back in an order the database does not determine; here in that of the
  table.\<close>

definition ClaimNotificationIntents ::
  "int set \<Rightarrow> gotime \<Rightarrow> int \<Rightarrow> duration \<Rightarrow> string \<Rightarrow> intent_tables
     \<Rightarrow> intent_error + intent_tables \<times> claimed_intent list"
where
  "ClaimNotificationIntents locked now limit lease token db =
     (if limit \<le> 0 \<or> token = [] then Inl IntentClaimArguments
      else if lease \<le> 0 then Inl IntentLeaseNotPositive
      else (let until = micros (now + lease);
                ids = irwID ` set (intentCandidates locked now limit (itIntents db));
                picked = (\<lambda>r. irwID r \<in> ids);
                rows = updateRows picked (claimIntent token until) (itIntents db)
        in Inr (db\<lparr>itIntents := rows\<rparr>, map (claimedIntent token) (filter picked rows))))"

subsection \<open>Delivery\<close>

text \<open>The fence of both callbacks.\<close>

definition holdsClaim :: "int \<Rightarrow> string \<Rightarrow> gotime \<Rightarrow> intent_row \<Rightarrow> bool" where
  "holdsClaim i token now r \<longleftrightarrow> irwID r = i \<and> irwState r = IntentClaimed \<and> irwClaimToken r = Some token \<and>
     (case irwClaimedUntil r of None \<Rightarrow> False | Some u \<Rightarrow> micros now < u)"

definition nextAttemptNumber :: "int \<Rightarrow> attempt_row list \<Rightarrow> int" where
  "nextAttemptNumber i rows = foldl max 0 (map awrNumber (filter (\<lambda>a. awrIntentID a = i) rows)) + 1"

definition BeginDeliveryAttempt ::
  "int \<Rightarrow> string \<Rightarrow> gotime \<Rightarrow> intent_tables \<Rightarrow> intent_error + intent_tables \<times> int \<times> int"
where
  "BeginDeliveryAttempt i token now db =
     (if \<not> (\<exists>r \<in> set (itIntents db). holdsClaim i token now r) then Inl (IntentNotClaimed i)
      else (let n = nextAttemptNumber i (itAttempts db)
        in Inr (db\<lparr>itAttempts := itAttempts db @ [\<lparr>awrID = itNextAttempt db, awrIntentID = i, awrNumber = n,
                awrState = AttemptStarted, awrVisibleMessage = None, awrFinishedAt = None\<rparr>],
              itNextAttempt := itNextAttempt db + 1\<rparr>, n, itNextAttempt db)))"

definition finishAttemptRow :: "bool \<Rightarrow> string \<Rightarrow> gotime \<Rightarrow> attempt_row \<Rightarrow> attempt_row" where
  "finishAttemptRow success msg at a = a\<lparr>awrState := (if success then AttemptSucceeded else AttemptFailed),
     awrVisibleMessage := Some msg, awrFinishedAt := Some (micros at)\<rparr>"

definition closeIntent :: "bool \<Rightarrow> gotime \<Rightarrow> intent_row \<Rightarrow> intent_row" where
  "closeIntent success at r = (if success
     then r\<lparr>irwState := IntentDelivered, irwDeliveredAt := Some (micros at), irwClaimedUntil := None\<rparr>
     else r\<lparr>irwState := IntentFailed, irwClaimedUntil := None\<rparr>)"

definition FinishDeliveryAttempt ::
  "int \<Rightarrow> int \<Rightarrow> string \<Rightarrow> bool \<Rightarrow> string \<Rightarrow> gotime \<Rightarrow> gotime \<Rightarrow> intent_tables
     \<Rightarrow> intent_error + intent_tables \<times> bool"
where
  "FinishDeliveryAttempt i att token success msg deliveryAt now db =
     (let hit = (\<lambda>a. awrID a = att \<and> awrIntentID a = i \<and> (\<exists>r \<in> set (itIntents db). holdsClaim i token now r));
          db1 = db\<lparr>itAttempts := updateRows hit (finishAttemptRow success msg deliveryAt) (itAttempts db)\<rparr>
      in if countRows hit (itAttempts db) \<noteq> 1 then Inr (db1, False)
         else if success \<and> itDeliveries db1 i \<noteq> None then Inl (IntentDeliveredTwice i)
         else (let db2 = (if success
                 then db1\<lparr>itDeliveries := (itDeliveries db1)(i \<mapsto> \<lparr>dwrAttemptID = att,
                   dwrDeliveredAt = micros deliveryAt, dwrOutcome = ''stub'', dwrVisibleMessage = msg\<rparr>)\<rparr>
                 else db1)
           in Inr (db2\<lparr>itIntents := updateRows
                (\<lambda>r. irwID r = i \<and> irwState r = IntentClaimed \<and> irwClaimToken r = Some token)
                (closeIntent success deliveryAt) (itIntents db2)\<rparr>, True)))"

end
