(* ===== verification/RuleStore.thy ===== *)
theory RuleStore
  imports Storage Preview RulesJson
begin

text \<open>
  The durable rules: \<^verbatim>\<open>SaveRule\<close>, \<^verbatim>\<open>withTx\<close> and \<^verbatim>\<open>activeFromDB\<close> of
  \<^verbatim>\<open>internal/runtime/rules.go\<close> and \<^verbatim>\<open>seedRules\<close> of
  \<^verbatim>\<open>internal/runtime/replay.go\<close>, on the tables \<^verbatim>\<open>rule_resources\<close> and
  \<^verbatim>\<open>rule_revisions\<close>. A definition is the JSON value of its text; \<open>jsonb\<close> is what a
  \<^verbatim>\<open>JSONB\<close> column makes of it, \<open>clock\<close> the database's wall clock and
  \<open>collates\<close> the order that the database has on text.
\<close>

subsection \<open>Tables\<close>

datatype rule_status = RuleDraft | RuleActive | RulePaused | RuleArchived

record resource_row =
  rsrID :: string
  rsrStatus :: rule_status
  rsrActiveRevision :: "int option"
  rsrUpdatedAt :: gotime

record revision_row =
  rvrRuleID :: string
  rvrRevision :: int
  rvrDefinition :: json

record rule_tables =
  rtResources :: "resource_row list"
  rtRevisions :: "revision_row list"

datatype rule_store_error = RuleNotEncoded | RevisionStored string int | RevisionTooLarge string

subsection \<open>Statements\<close>

definition storedRevision :: "string \<Rightarrow> int \<Rightarrow> rule_tables \<Rightarrow> bool" where
  "storedRevision i n db \<longleftrightarrow> (\<exists>r \<in> set (rtRevisions db). rvrRuleID r = i \<and> rvrRevision r = n)"

definition addRevision :: "string \<Rightarrow> int \<Rightarrow> json \<Rightarrow> rule_tables \<Rightarrow> rule_tables" where
  "addRevision i n j db = db\<lparr>rtRevisions := rtRevisions db @ [\<lparr>rvrRuleID = i, rvrRevision = n, rvrDefinition = j\<rparr>]\<rparr>"

definition ensureResource :: "gotime \<Rightarrow> string \<Rightarrow> rule_tables \<Rightarrow> rule_tables" where
  "ensureResource clock i db =
     (if i \<in> rsrID ` set (rtResources db) then db
      else db\<lparr>rtResources := rtResources db @ [\<lparr>rsrID = i, rsrStatus = RuleActive, rsrActiveRevision = None,
        rsrUpdatedAt = micros clock\<rparr>]\<rparr>)"

definition activateRow :: "gotime \<Rightarrow> int \<Rightarrow> resource_row \<Rightarrow> resource_row" where
  "activateRow clock n r =
     r\<lparr>rsrStatus := RuleActive, rsrActiveRevision := Some n, rsrUpdatedAt := micros clock\<rparr>"

subsection \<open>Saving a rule\<close>

definition withTx :: "('s, 'e, 'a) transaction \<Rightarrow> 's \<Rightarrow> 's \<times> ('e + 'a)" where
  "withTx fn s = (case fn s of Inl err \<Rightarrow> (s, Inl err) | Inr (s', x) \<Rightarrow> (s', Inr x))"

text \<open>\<^verbatim>\<open>strings.ToLower\<close>: ASCII strings are mapped letter by letter; \<open>lower\<close> is
  what the Unicode tables make of the others.\<close>

definition isASCII :: "char \<Rightarrow> bool" where
  "isASCII c \<longleftrightarrow> (of_char c :: nat) < 128"

definition lowerASCII :: "char \<Rightarrow> char" where
  "lowerASCII c = (if 65 \<le> (of_char c :: nat) \<and> (of_char c :: nat) \<le> 90
     then char_of ((of_char c :: nat) + 32) else c)"

definition ToLower :: "(string \<Rightarrow> string) \<Rightarrow> string \<Rightarrow> string" where
  "ToLower lower s = (if list_all isASCII s then map lowerASCII s else lower s)"

definition replaceAllChar :: "char \<Rightarrow> char \<Rightarrow> string \<Rightarrow> string" where
  "replaceAllChar a b s = map (\<lambda>c. if c = a then b else c) s"

definition ruleIDFor :: "(string \<Rightarrow> string) \<Rightarrow> string \<Rightarrow> string \<Rightarrow> string" where
  "ruleIDFor lower i name =
     (if i = [] then ''rule-'' @ ToLower lower (replaceAllChar CHR ''/'' CHR ''-'' (replaceAllChar CHR '' '' CHR ''-'' name))
      else i)"

text \<open>\<^verbatim>\<open>COALESCE(MAX(revision),0)+1\<close>.\<close>

definition nextRevision :: "string \<Rightarrow> rule_tables \<Rightarrow> int" where
  "nextRevision i db = (case map rvrRevision (filter (\<lambda>r. rvrRuleID r = i) (rtRevisions db)) of
       [] \<Rightarrow> 0 | n # ns \<Rightarrow> foldl max n ns) + 1"

definition saveRevision ::
  "gotime \<Rightarrow> string \<Rightarrow> json \<Rightarrow> rule_tables \<Rightarrow> rule_store_error + rule_tables \<times> string"
where
  "saveRevision clock i j db =
     (let n = nextRevision i db in
      if \<not> fitsBigint n then Inl (RevisionTooLarge i)
      else (let db1 = ensureResource clock i db in
        if storedRevision i n db1 then Inl (RevisionStored i n)
        else (let db2 = addRevision i n j db1
          in Inr (db2\<lparr>rtResources := updateRows (\<lambda>r. rsrID r = i) (activateRow clock n) (rtResources db2)\<rparr>, i))))"

definition SaveRule ::
  "(string \<Rightarrow> string) \<Rightarrow> (json \<Rightarrow> json) \<Rightarrow> gotime \<Rightarrow> string \<Rightarrow> rule_definition \<Rightarrow> rule_tables
     \<Rightarrow> rule_tables \<times> (rule_store_error + string)"
where
  "SaveRule lower jsonb clock i d db = (case marshalDefinition d of None \<Rightarrow> (db, Inl RuleNotEncoded)
     | Some j \<Rightarrow> withTx (saveRevision clock (ruleIDFor lower i (rdName d)) (jsonb j)) db)"

subsection \<open>Seeding\<close>

text \<open>Both insertions do nothing on a conflict, and only a rule without an active revision is
  activated.\<close>

definition seedRule :: "(json \<Rightarrow> json) \<Rightarrow> gotime \<Rightarrow> preview_rule \<Rightarrow> rule_tables \<Rightarrow> rule_store_error + rule_tables" where
  "seedRule jsonb clock r db = (case marshalDefinition (prDefinition r) of None \<Rightarrow> Inl RuleNotEncoded
     | Some j \<Rightarrow>
         (let db1 = ensureResource clock (prID r) db;
              db2 = (if storedRevision (prID r) (prRevision r) db1 then db1
                     else addRevision (prID r) (prRevision r) (jsonb j) db1)
          in Inr (db2\<lparr>rtResources := updateRows (\<lambda>x. rsrID x = prID r \<and> rsrActiveRevision x = None)
               (activateRow clock (prRevision r)) (rtResources db2)\<rparr>)))"

fun seedLoop ::
  "(json \<Rightarrow> json) \<Rightarrow> gotime \<Rightarrow> preview_rule list \<Rightarrow> rule_tables \<Rightarrow> rule_store_error + rule_tables \<times> unit"
where
  "seedLoop jsonb clock [] db = Inr (db, ())"
| "seedLoop jsonb clock (r # rs) db = (case seedRule jsonb clock r db of Inl err \<Rightarrow> Inl err
     | Inr db' \<Rightarrow> seedLoop jsonb clock rs db')"

definition seedRules ::
  "(json \<Rightarrow> json) \<Rightarrow> gotime \<Rightarrow> preview_rule list \<Rightarrow> rule_tables \<Rightarrow> rule_tables \<times> (rule_store_error + unit)"
where
  "seedRules jsonb clock loaded db = WithTx (seedLoop jsonb clock loaded) db"

subsection \<open>The active rules\<close>

text \<open>The join over the active revision, in the order of the identifiers; a definition that does
  not decode ends it.\<close>

definition activeRows :: "(string \<Rightarrow> string \<Rightarrow> bool) \<Rightarrow> rule_tables \<Rightarrow> (string \<times> int \<times> json) list" where
  "activeRows collates db = concat (map
     (\<lambda>r. map (\<lambda>v. (rsrID r, rvrRevision v, rvrDefinition v))
        (filter (\<lambda>v. rvrRuleID v = rsrID r \<and> Some (rvrRevision v) = rsrActiveRevision r) (rtRevisions db)))
     (sort_by (\<lambda>a b. collates (rsrID a) (rsrID b)) (filter (\<lambda>r. rsrStatus r = RuleActive) (rtResources db))))"

definition activeFromDB :: "(string \<Rightarrow> string \<Rightarrow> bool) \<Rightarrow> rule_tables \<Rightarrow> active_rule list option" where
  "activeFromDB collates db = sequenceOpt (map (\<lambda>(i, n, j). map_option
     (\<lambda>d. \<lparr>arID = i, arRevision = n, arDefinition = d\<rparr>) (unmarshalDefinition j)) (activeRows collates db))"

definition emptyRules :: rule_tables where
  "emptyRules = \<lparr>rtResources = [], rtRevisions = []\<rparr>"

end
