(* ===== verification/ReplayRun.thy ===== *)
theory ReplayRun
  imports OccurrenceStore DurableProjections AlertStore IntentStore RuleStore
begin

text \<open>
  The durable replay, \<^verbatim>\<open>internal/runtime/replay.go\<close>: \<^verbatim>\<open>Run\<close> with the functions
  it is made of, over all tables of the database. The variables that its closures share are the
  fields of \<open>replay_state\<close>; a transaction that fails puts the tables back but not the
  reducers, and ends the run. What the program takes from elsewhere is the record
  \<open>platform\<close>.
\<close>

subsection \<open>State\<close>

record database =
  dbOccurrences :: occurrence_tables
  dbObservations :: observation_tables
  dbAlerts :: alert_tables
  dbIntents :: intent_tables
  dbRules :: rule_tables

record summary =
  smOccurrences :: int
  smAlerts :: int
  smNotifications :: int

record config =
  cfEventPath :: string
  cfRulesPath :: string
  cfSource :: string
  cfStreamID :: string

text \<open>The files; the parser and the printer of JSON texts and the text of a time in one, if its year
  allows it; the digest of a payload; \<^verbatim>\<open>JSONB\<close> of a text and of a definition; the wall
  clock of the database, when it seeds the rules and when it inserts the intent of an
  identifier; its order on texts; and the intents that others hold locked when the intent of an
  identifier is claimed.\<close>

record platform =
  plReadFile :: "string \<Rightarrow> string option"
  plParse :: "string \<Rightarrow> json option"
  plRender :: "json \<Rightarrow> string"
  plTimeText :: "gotime \<Rightarrow> string option"
  plDigest :: "string \<Rightarrow> string"
  plJsonb :: "string \<Rightarrow> string"
  plDefinitionJsonb :: "json \<Rightarrow> json"
  plSeedClock :: gotime
  plIntentClock :: "int \<Rightarrow> gotime"
  plCollates :: "string \<Rightarrow> string \<Rightarrow> bool"
  plLocked :: "int \<Rightarrow> int set"

record replay_state =
  rpDB :: database
  rpRuntime :: runtime
  rpBuilder :: builder
  rpAlerts :: alert_reducer
  rpPlanner :: planner
  rpLogical :: gotime
  rpSummary :: summary

datatype line_error = LineUnsupported | LineAdmission admission_error | LineAdvance eval_error
  | LineAdvanceDoesNotReturn | LineAlert alert_error | LinePayloadMissing | LineIntent intent_error
  | LineNotClaimed int | LineBuild build_error | LinePersist observation_error
  | LineRequest contract_error | LineEvaluate eval_error | LineApply eval_error

subsection \<open>Delivering\<close>

definition deliver :: "platform \<Rightarrow> int \<Rightarrow> gotime \<Rightarrow> intent_tables \<Rightarrow> line_error + intent_tables" where
  "deliver pl i at db =
     (let token = ''demo-'' @ formatInt i
      in case ClaimNotificationIntents (plLocked pl i) at 1 minute token db of
           Inl err \<Rightarrow> Inl (LineIntent err)
         | Inr (db1, rows) \<Rightarrow>
             if length rows \<noteq> 1 then Inl (LineNotClaimed i)
             else (case BeginDeliveryAttempt i token at db1 of
                 Inl err \<Rightarrow> Inl (LineIntent err)
               | Inr (db2, n, att) \<Rightarrow>
                   (case FinishDeliveryAttempt i att token True ''delivered by deterministic demo replay'' at at db2 of
                      Inl err \<Rightarrow> Inl (LineIntent err)
                    | Inr (db3, ok) \<Rightarrow> Inr db3)))"

subsection \<open>Emitting transitions\<close>

text \<open>The policies by rule and revision; a missing key reads as the zero policy. \<open>revisionKey\<close>
  is \<^verbatim>\<open>key\<close>.\<close>

definition policiesByRevision :: "active_rule list \<Rightarrow> string \<Rightarrow> policy" where
  "policiesByRevision active =
     foldl (\<lambda>m a. m(revisionKey (arID a) (arRevision a) := policyOf (arDefinition a))) (\<lambda>_. zeroPolicy) active"

text \<open>The object of a payload; the keys of a Go map are printed in order.\<close>

definition payloadOf :: "platform \<Rightarrow> alert_transition \<Rightarrow> string option" where
  "payloadOf pl a = map_option (\<lambda>at. plRender pl (JObj
     [(''at'', JStr at), (''kind'', JStr (kindString (atKind a))), (''rule_id'', JStr (skRuleID (atSeries a))),
      (''subject_id'', JStr (skSubjectID (atSeries a))), (''subject_kind'', JStr (skSubjectKind (atSeries a)))]))
     (plTimeText pl (atAt a))"

text \<open>One alert transition: it is stored, and when it is to be notified its intent is stored and, if
  new, delivered.\<close>

definition storeIntent ::
  "platform \<Rightarrow> int \<Rightarrow> int \<Rightarrow> alert_transition \<Rightarrow> intent \<Rightarrow> replay_state \<Rightarrow> replay_state \<times> line_error option"
where
  "storeIntent pl gid tid a x s = (case payloadOf pl a of
       None \<Rightarrow> (s, Some LinePayloadMissing)
     | Some payload \<Rightarrow>
         (case EnsureNotificationIntentForTransition (plJsonb pl) (grwID ` set (alGenerations (dbAlerts (rpDB s))))
             (xrwID ` set (alTransitions (dbAlerts (rpDB s)))) (plIntentClock pl (itNextIntent (dbIntents (rpDB s))))
             tid gid (kindString (atKind a)) (inAudience x) payload (dbIntents (rpDB s)) of
            Inl err \<Rightarrow> (s, Some (LineIntent err))
          | Inr (db1, i, inserted) \<Rightarrow>
              if \<not> inserted then (s\<lparr>rpDB := (rpDB s)\<lparr>dbIntents := db1\<rparr>\<rparr>, None)
              else (case deliver pl i (atAt a) db1 of
                  Inl err \<Rightarrow> (s, Some err)
                | Inr db2 \<Rightarrow> (s\<lparr>rpDB := (rpDB s)\<lparr>dbIntents := db2\<rparr>,
                    rpSummary := (rpSummary s)\<lparr>smNotifications := smNotifications (rpSummary s) + 1\<rparr>\<rparr>, None))))"

definition emitAlert ::
  "platform \<Rightarrow> policy \<Rightarrow> replay_state \<Rightarrow> alert_transition \<Rightarrow> replay_state \<times> line_error option"
where
  "emitAlert pl pol s a = (case persistAlert a (dbAlerts (rpDB s)) of
       Inl err \<Rightarrow> (s, Some (LineAlert err))
     | Inr (al, gid, tid) \<Rightarrow>
         (let (p, i, created) = Plan (rpPlanner s) a pol;
              s1 = s\<lparr>rpDB := (rpDB s)\<lparr>dbAlerts := al\<rparr>, rpPlanner := p,
                rpSummary := (rpSummary s)\<lparr>smAlerts := smAlerts (rpSummary s) + 1\<rparr>\<rparr>
          in case i of
               None \<Rightarrow> (s1, None)
             | Some x \<Rightarrow> if created then storeIntent pl gid tid a x s1 else (s1, None)))"

text \<open>A loop over a list that ends with the first error.\<close>

fun untilError :: "('s \<Rightarrow> 'a \<Rightarrow> 's \<times> 'e option) \<Rightarrow> 's \<Rightarrow> 'a list \<Rightarrow> 's \<times> 'e option" where
  "untilError step s [] = (s, None)"
| "untilError step s (x # xs) = (case step s x of
       (s', Some err) \<Rightarrow> (s', Some err) | (s', None) \<Rightarrow> untilError step s' xs)"

definition emitTransition ::
  "platform \<Rightarrow> (string \<Rightarrow> policy) \<Rightarrow> replay_state \<Rightarrow> transition \<Rightarrow> replay_state \<times> line_error option"
where
  "emitTransition pl policies s t =
     (let (r, ats) = applyTransition (rpAlerts s) t
      in untilError (emitAlert pl (policies (revisionKey (RuleID (trKey t)) (Revision (trKey t)))))
           (s\<lparr>rpAlerts := r\<rparr>) ats)"

definition emitAll ::
  "platform \<Rightarrow> (string \<Rightarrow> policy) \<Rightarrow> replay_state \<Rightarrow> transition list \<Rightarrow> replay_state \<times> line_error option"
where
  "emitAll pl policies s ts = untilError (emitTransition pl policies) s ts"

subsection \<open>One line\<close>

text \<open>\<^verbatim>\<open>fmt.Sprintf("%s:%d", cfg.StreamID, env.Line)\<close>.\<close>

definition lineKey :: "config \<Rightarrow> envelope \<Rightarrow> string" where
  "lineKey cfg env = cfStreamID cfg @ '':'' @ formatUint (envLine env)"

definition lineInput :: "config \<Rightarrow> envelope \<Rightarrow> occurrence_input" where
  "lineInput cfg env = \<lparr>ocSource = cfSource cfg, ocSourceEventID = GetEventID (envEvent env),
     ocStreamPosition = Some (toInt64 (envLine env)), ocIdempotencyKey = lineKey cfg env,
     ocEffectiveAt = timestamp (envEvent env), ocPayload = envRaw env\<rparr>"

definition lineOccurrence :: "config \<Rightarrow> int \<Rightarrow> envelope \<Rightarrow> accepted_occurrence" where
  "lineOccurrence cfg i env = \<lparr>aoID = ''occurrence:'' @ formatInt i, aoSource = cfSource cfg,
     aoIdempotencyKey = lineKey cfg env, aoIngestPosition = envLine env, aoSourceEventID = GetEventID (envEvent env),
     aoEffectiveAt = timestamp (envEvent env), aoEvent = Some (envEvent env), aoRaw = envRaw env\<rparr>"

text \<open>The position that an occurrence was ingested at, as the observations read it.\<close>

definition ingestOf :: "occurrence_tables \<Rightarrow> int \<Rightarrow> int option" where
  "ingestOf db i = map_option orwIngestPosition (find (\<lambda>r. orwID r = i) (otOccurrences db))"

text \<open>The evaluation of the occurrence, to the end of the transaction.\<close>

definition judgeLine ::
  "platform \<Rightarrow> active_rule list \<Rightarrow> (string \<Rightarrow> policy) \<Rightarrow> int \<Rightarrow> accepted_occurrence \<Rightarrow> replay_state
     \<Rightarrow> replay_state \<times> line_error option"
where
  "judgeLine pl active policies i occ s =
     (case NewEvaluationRequest occ (rpLogical s) active of
        Inl err \<Rightarrow> (s, Some (LineRequest err))
      | Inr request \<Rightarrow> (case Evaluate (rpRuntime s) request (evidenceProvider (rpBuilder s)) of
          Inl err \<Rightarrow> (s, Some (LineEvaluate err))
        | Inr result \<Rightarrow> (case ApplyResult (rpRuntime s) result of
            (rt, Inl err) \<Rightarrow> (s\<lparr>rpRuntime := rt\<rparr>, Some (LineApply err))
          | (rt, Inr ts) \<Rightarrow> (case emitAll pl policies (s\<lparr>rpRuntime := rt\<rparr>) ts of
              (s1, Some err) \<Rightarrow> (s1, Some err)
            | (s1, None) \<Rightarrow> (case MarkProcessed i (dbOccurrences (rpDB s1)) of
                Inl err \<Rightarrow> (s1, Some (LineAdmission err))
              | Inr (oc, u) \<Rightarrow> (s1\<lparr>rpDB := (rpDB s1)\<lparr>dbOccurrences := oc\<rparr>,
                  rpSummary := (rpSummary s1)\<lparr>smOccurrences := smOccurrences (rpSummary s1) + 1\<rparr>\<rparr>, None))))))"

definition projectLine ::
  "platform \<Rightarrow> active_rule list \<Rightarrow> (string \<Rightarrow> policy) \<Rightarrow> int \<Rightarrow> accepted_occurrence \<Rightarrow> replay_state
     \<Rightarrow> replay_state \<times> line_error option"
where
  "projectLine pl active policies i occ s = (case Build (rpBuilder s) occ of
       (b, Inl err) \<Rightarrow> (s\<lparr>rpBuilder := b\<rparr>, Some (LineBuild err))
     | (b, Inr u) \<Rightarrow> (case persistProjection (ingestOf (dbOccurrences (rpDB s))) i u (dbObservations (rpDB s)) of
         Inl err \<Rightarrow> (s\<lparr>rpBuilder := b\<rparr>, Some (LinePersist err))
       | Inr ob \<Rightarrow> judgeLine pl active policies i occ
           (s\<lparr>rpBuilder := b, rpDB := (rpDB s)\<lparr>dbObservations := ob\<rparr>\<rparr>)))"

text \<open>A line that was admitted before is not processed again.\<close>

definition lineBody ::
  "platform \<Rightarrow> config \<Rightarrow> active_rule list \<Rightarrow> (string \<Rightarrow> policy) \<Rightarrow> envelope \<Rightarrow> replay_state
     \<Rightarrow> replay_state \<times> line_error option"
where
  "lineBody pl cfg active policies env s =
     (case InsertOccurrence (plDigest pl) (plJsonb pl) (lineInput cfg env) (dbOccurrences (rpDB s)) of
        Inl err \<Rightarrow> (s, Some (LineAdmission err))
      | Inr (oc1, i, inserted) \<Rightarrow> (case EnsureProcessing i oc1 of
          Inl err \<Rightarrow> (s, Some (LineAdmission err))
        | Inr (oc2, u) \<Rightarrow>
            (let s1 = s\<lparr>rpDB := (rpDB s)\<lparr>dbOccurrences := oc2\<rparr>\<rparr>
             in if \<not> inserted then (s1, None)
                else (case AdvanceRuntime (rpRuntime s1) (rpLogical s1) of
                    None \<Rightarrow> (s1, Some LineAdvanceDoesNotReturn)
                  | Some (rt, Inl err) \<Rightarrow> (s1\<lparr>rpRuntime := rt\<rparr>, Some (LineAdvance err))
                  | Some (rt, Inr ts) \<Rightarrow> (case emitAll pl policies (s1\<lparr>rpRuntime := rt\<rparr>) ts of
                      (s2, Some err) \<Rightarrow> (s2, Some err)
                    | (s2, None) \<Rightarrow> projectLine pl active policies i (lineOccurrence cfg i env) s2)))))"

text \<open>The callback of the stream.\<close>

definition replayLine ::
  "platform \<Rightarrow> config \<Rightarrow> active_rule list \<Rightarrow> (string \<Rightarrow> policy) \<Rightarrow> replay_state \<Rightarrow> envelope
     \<Rightarrow> replay_state \<times> line_error option"
where
  "replayLine pl cfg active policies s env =
     (let effective = timestamp (envEvent env)
      in if isZero effective then (s, Some LineUnsupported)
         else (let s1 = (if effective > rpLogical s then s\<lparr>rpLogical := effective\<rparr> else s)
           in case lineBody pl cfg active policies env s1 of
                (s2, Some err) \<Rightarrow> (s2\<lparr>rpDB := rpDB s1\<rparr>, Some err)
              | (s2, None) \<Rightarrow> (s2, None)))"

subsection \<open>The rules file\<close>

text \<open>\<^verbatim>\<open>json.Unmarshal\<close> into \<^verbatim>\<open>[]ruleFile\<close>: unknown members are skipped.\<close>

fun knownMembers :: "string list \<Rightarrow> (string \<times> json) list \<Rightarrow> (string \<times> json) list" where
  "knownMembers names [] = []"
| "knownMembers names ((k, v) # ms) = (case fieldOf names k of
       None \<Rightarrow> knownMembers names ms | Some n \<Rightarrow> (n, v) # knownMembers names ms)"

definition ruleFields :: "(string \<times> json) list \<Rightarrow> preview_rule option" where
  "ruleFields ms = (case (valueField asString ''id'' [] ms, valueField asInteger ''revision'' 0 ms, definitionField ms) of
       (Some i, Some n, Some d) \<Rightarrow> Some \<lparr>prID = i, prRevision = n, prDefinition = d\<rparr> | _ \<Rightarrow> None)"

fun decodeRuleFile :: "json \<Rightarrow> preview_rule option" where
  "decodeRuleFile (JObj ms) = ruleFields (knownMembers [''id'', ''revision'', ''definition''] ms)"
| "decodeRuleFile JNull = ruleFields []"
| "decodeRuleFile _ = None"

fun decodeRuleFiles :: "json \<Rightarrow> preview_rule list option" where
  "decodeRuleFiles JNull = Some []"
| "decodeRuleFiles (JArr xs) = sequenceOpt (map decodeRuleFile xs)"
| "decodeRuleFiles _ = None"

subsection \<open>The run\<close>

datatype run_error = RunPathsRequired | RunRulesNotRead | RunRulesNotDecoded | RunRulesNotSeeded rule_store_error
  | RunActiveNotDecoded | RunActivate eval_error | RunEventsNotRead | RunReplay "line_error stream_error"
  | RunFinalAdvance eval_error | RunFinalAdvanceDoesNotReturn

definition zeroSummary :: summary where
  "zeroSummary = \<lparr>smOccurrences = 0, smAlerts = 0, smNotifications = 0\<rparr>"

definition startReplay :: "database \<Rightarrow> runtime \<Rightarrow> replay_state" where
  "startReplay db rt = \<lparr>rpDB = db, rpRuntime = rt, rpBuilder = NewBuilder, rpAlerts = NewAlerts,
     rpPlanner = NewPlanner, rpLogical = 0, rpSummary = zeroSummary\<rparr>"

text \<open>The transitions of the last advance are dropped.\<close>

definition finishReplay :: "replay_state \<Rightarrow> run_error option" where
  "finishReplay s =
     (if isZero (rpLogical s) then None
      else case AdvanceRuntime (rpRuntime s) (rpLogical s) of
        None \<Rightarrow> Some RunFinalAdvanceDoesNotReturn
      | Some (rt, Inl err) \<Rightarrow> Some (RunFinalAdvance err)
      | Some (rt, Inr ts) \<Rightarrow> None)"

definition replayEvents ::
  "platform \<Rightarrow> config \<Rightarrow> active_rule list \<Rightarrow> string \<Rightarrow> replay_state \<Rightarrow> replay_state \<times> run_error option"
where
  "replayEvents pl cfg active text s =
     (case Stream (plParse pl) text (cfStreamID cfg) (replayLine pl cfg active (policiesByRevision active)) s of
        (s1, Some err) \<Rightarrow> (s1, Some (RunReplay err))
      | (s1, None) \<Rightarrow> (s1, finishReplay s1))"

definition defaulted :: "config \<Rightarrow> config" where
  "defaulted cfg = cfg\<lparr>cfSource := (if cfSource cfg = [] then ''demo-replay'' else cfSource cfg),
     cfStreamID := (if cfStreamID cfg = [] then ''demo-events'' else cfStreamID cfg)\<rparr>"

definition runActive ::
  "platform \<Rightarrow> config \<Rightarrow> active_rule list \<Rightarrow> database \<Rightarrow> database \<times> summary \<times> run_error option"
where
  "runActive pl cfg active db = (case Activate active None of
       Inl err \<Rightarrow> (db, zeroSummary, Some (RunActivate err))
     | Inr rt \<Rightarrow> (case plReadFile pl (cfEventPath cfg) of
         None \<Rightarrow> (db, zeroSummary, Some RunEventsNotRead)
       | Some text \<Rightarrow> (case replayEvents pl cfg active text (startReplay db rt) of
           (s, err) \<Rightarrow> (rpDB s, rpSummary s, err))))"

definition runLoaded ::
  "platform \<Rightarrow> config \<Rightarrow> preview_rule list \<Rightarrow> database \<Rightarrow> database \<times> summary \<times> run_error option"
where
  "runLoaded pl cfg loaded db = (case seedRules (plDefinitionJsonb pl) (plSeedClock pl) loaded (dbRules db) of
       (rules, Inl err) \<Rightarrow> (db\<lparr>dbRules := rules\<rparr>, zeroSummary, Some (RunRulesNotSeeded err))
     | (rules, Inr u) \<Rightarrow> (case activeFromDB (plCollates pl) rules of
         None \<Rightarrow> (db\<lparr>dbRules := rules\<rparr>, zeroSummary, Some RunActiveNotDecoded)
       | Some active \<Rightarrow> runActive pl cfg active (db\<lparr>dbRules := rules\<rparr>)))"

definition Run :: "platform \<Rightarrow> config \<Rightarrow> database \<Rightarrow> database \<times> summary \<times> run_error option" where
  "Run pl cfg db =
     (if cfEventPath cfg = [] \<or> cfRulesPath cfg = [] then (db, zeroSummary, Some RunPathsRequired)
      else (case plReadFile pl (cfRulesPath cfg) of
          None \<Rightarrow> (db, zeroSummary, Some RunRulesNotRead)
        | Some raw \<Rightarrow> (case Option.bind (plParse pl raw) decodeRuleFiles of
            None \<Rightarrow> (db, zeroSummary, Some RunRulesNotDecoded)
          | Some loaded \<Rightarrow> runLoaded pl (defaulted cfg) loaded db)))"

end
