(* ===== verification/IntentStoreProps.thy ===== *)
theory IntentStoreProps
  imports IntentStore
begin

text \<open>
  The durable notification queue as a state machine: an alert transition has one intent per
  audience, whatever is retried, and an intent is delivered at most once.
\<close>

subsection \<open>Base64\<close>

lemma sextet_distinct: "distinct (map sextet [0..<64])"
  by code_simp

lemma sextet_inj: "sextet m = sextet n \<Longrightarrow> m < 64 \<Longrightarrow> n < 64 \<Longrightarrow> m = n"
  using sextet_distinct by (simp only: distinct_map inj_on_def set_upt atLeastLessThan_iff le0 simp_thms)

lemma byteOf_less: "byteOf c < 256"
  by (simp add: byteOf_def)

lemma byteOf_inj: "byteOf a = byteOf b \<Longrightarrow> a = b"
  by (simp add: byteOf_def)

text \<open>Two bytes with the same quotients and remainders.\<close>

lemma byte_parts:
  assumes "byteOf a div n = byteOf b div n" and "byteOf a mod n = byteOf b mod n"
  shows "a = b"
  using assms by (intro byteOf_inj) (metis div_mult_mod_eq)

lemma sextet_pair:
  assumes "sextet (x * k + y) = sextet (x' * k + y')" and "x * k + y < 64" "x' * k + y' < 64" "y < k" "y' < k"
  shows "x = x'" "y = y'"
proof -
  have eq: "x * k + y = x' * k + y'" by (rule sextet_inj [OF assms(1-3)])
  have "x = (x * k + y) div k" "x' = (x' * k + y') div k" using assms(4,5) by simp_all
  with eq show "x = x'" by simp
  with eq show "y = y'" by simp
qed

text \<open>Which of the four shapes a text has shows in its code: the lengths differ, and a code that
  ends after two or three letters is not continued.\<close>

lemma byteOf_parts_less [simp]:
  "byteOf a div 4 < 64" "byteOf a mod 4 * 16 + byteOf b div 16 < 64" "byteOf a mod 16 * 4 + byteOf b div 64 < 64"
  "byteOf a mod 64 < 64" "byteOf b div 16 < 16" "byteOf b div 64 < 4" "byteOf a mod 4 * 16 < 64" "byteOf a mod 16 * 4 < 64"
proof -
  note less = byteOf_less [of a] byteOf_less [of b]
  show "byteOf a div 4 < 64" "byteOf b div 16 < 16" "byteOf b div 64 < 4" "byteOf a mod 64 < 64"
    using byteOf_less [of a] byteOf_less [of b] by (simp_all add: div_less_iff_less_mult)
  have "byteOf a mod 4 \<le> 3" "byteOf a mod 16 \<le> 15" by presburger+
  then show "byteOf a mod 4 * 16 < 64" "byteOf a mod 16 * 4 < 64" by simp_all
  show "byteOf a mod 4 * 16 + byteOf b div 16 < 64" "byteOf a mod 16 * 4 + byteOf b div 64 < 64"
    using byteOf_less [of b] \<open>byteOf a mod 4 \<le> 3\<close> \<open>byteOf a mod 16 \<le> 15\<close> by linarith+
qed

lemma first_byte:
  assumes "sextet (byteOf a div 4) = sextet (byteOf b div 4)" "byteOf a mod 4 = byteOf b mod 4"
  shows "a = b"
  using sextet_inj [OF assms(1)] assms(2) by (intro byte_parts [of a 4 b]) simp_all

lemma base64_inj: "base64 s = base64 t \<Longrightarrow> s = t"
proof (induction s arbitrary: t rule: base64.induct)
  case 1
  then show ?case by (cases t rule: base64.cases) simp_all
next
  case (2 a)
  then show ?case
  proof (cases t rule: base64.cases)
    case (2 a')
    with "2.prems" have s: "sextet (byteOf a div 4) = sextet (byteOf a' div 4)"
      "sextet (byteOf a mod 4 * 16 + 0) = sextet (byteOf a' mod 4 * 16 + 0)" by simp_all
    from sextet_pair(1) [OF s(2)] first_byte [OF s(1)] 2 show ?thesis by simp
  qed simp_all
next
  case (3 a b)
  then show ?case
  proof (cases t rule: base64.cases)
    case (3 a' b')
    with "3.prems" have s: "sextet (byteOf a div 4) = sextet (byteOf a' div 4)"
      "sextet (byteOf a mod 4 * 16 + byteOf b div 16) = sextet (byteOf a' mod 4 * 16 + byteOf b' div 16)"
      "sextet (byteOf b mod 16 * 4 + 0) = sextet (byteOf b' mod 16 * 4 + 0)" by simp_all
    note one = sextet_pair [OF s(2)] and two = sextet_pair(1) [OF s(3)]
    from one two first_byte [OF s(1)] byte_parts [of b 16 b'] 3 show ?thesis by simp
  qed simp_all
next
  case (4 a b c cs)
  then show ?case
  proof (cases t rule: base64.cases)
    case (4 a' b' c' cs')
    with "4.prems" have s: "sextet (byteOf a div 4) = sextet (byteOf a' div 4)"
      "sextet (byteOf a mod 4 * 16 + byteOf b div 16) = sextet (byteOf a' mod 4 * 16 + byteOf b' div 16)"
      "sextet (byteOf b mod 16 * 4 + byteOf c div 64) = sextet (byteOf b' mod 16 * 4 + byteOf c' div 64)"
      "sextet (byteOf c mod 64) = sextet (byteOf c' mod 64)" and cs: "base64 cs = base64 cs'" by simp_all
    note one = sextet_pair [OF s(2)] and two = sextet_pair [OF s(3)] and three = sextet_inj [OF s(4)]
    from one two three first_byte [OF s(1)] byte_parts [of b 16 b'] byte_parts [of c 64 c'] "4.IH" [OF cs] 4
    show ?thesis by simp
  qed simp_all
qed

subsection \<open>Runs\<close>

datatype intent_op =
    OpEnsureKey "int set" gotime string int string string string
  | OpEnsureTransition "int set" "int set" gotime int int string string string
  | OpClaimIntents "int set" gotime int duration string
  | OpBegin int string gotime
  | OpFinish int int string bool string gotime gotime

datatype intent_effect = IntentEnsured int bool | IntentsClaimed string "claimed_intent list"
  | AttemptBegun int int int | AttemptFinished int int bool

fun intentStep :: "(string \<Rightarrow> string) \<Rightarrow> intent_tables \<Rightarrow> intent_op \<Rightarrow> intent_tables \<times> intent_effect list" where
  "intentStep jsonb db (OpEnsureKey gens clock dedupe gen ty aud payload) =
     (case WithTx (EnsureNotificationIntent jsonb gens clock dedupe gen ty aud payload) db of
        (db', Inr (i, new)) \<Rightarrow> (db', [IntentEnsured i new]) | (db', Inl err) \<Rightarrow> (db', []))"
| "intentStep jsonb db (OpEnsureTransition gens trs clock tid gen ty aud payload) =
     (case WithTx (EnsureNotificationIntentForTransition jsonb gens trs clock tid gen ty aud payload) db of
        (db', Inr (i, new)) \<Rightarrow> (db', [IntentEnsured i new]) | (db', Inl err) \<Rightarrow> (db', []))"
| "intentStep jsonb db (OpClaimIntents locked now limit lease token) =
     (case WithTx (ClaimNotificationIntents locked now limit lease token) db of
        (db', Inr cs) \<Rightarrow> (db', [IntentsClaimed token cs]) | (db', Inl err) \<Rightarrow> (db', []))"
| "intentStep jsonb db (OpBegin i token now) = (case WithTx (BeginDeliveryAttempt i token now) db of
        (db', Inr (n, att)) \<Rightarrow> (db', [AttemptBegun i n att]) | (db', Inl err) \<Rightarrow> (db', []))"
| "intentStep jsonb db (OpFinish i att token success msg at now) =
     (case WithTx (FinishDeliveryAttempt i att token success msg at now) db of
        (db', Inr ok) \<Rightarrow> (db', if ok then [AttemptFinished i att success] else []) | (db', Inl err) \<Rightarrow> (db', []))"

definition emptyIntents :: intent_tables where
  "emptyIntents = \<lparr>itIntents = [], itAttempts = [], itDeliveries = Map.empty, itNextIntent = 1, itNextAttempt = 1\<rparr>"

subsection \<open>How rows change\<close>

text \<open>What of an intent never changes.\<close>

definition intentIdentity :: "intent_row \<Rightarrow> int \<times> string \<times> int \<times> int option \<times> string \<times> string \<times> string" where
  "intentIdentity r = (irwID r, irwDedupeKey r, irwAlertGenerationID r, irwAlertTransitionID r,
     irwTransitionType r, irwAudience r, irwPayload r)"

lemma identity_changes [simp]:
  "intentIdentity (claimIntent token until r) = intentIdentity r"
  "intentIdentity (closeIntent success at r) = intentIdentity r"
  by (simp_all add: intentIdentity_def claimIntent_def closeIntent_def)

lemma identity_updateRows: "(\<And>r. intentIdentity (f r) = intentIdentity r) \<Longrightarrow>
    map intentIdentity (updateRows p f rows) = map intentIdentity rows"
  by (rule map_updateRows)

lemma id_changes [simp]: "irwID (claimIntent token until r) = irwID r" "irwID (closeIntent success at r) = irwID r"
  by (simp_all add: claimIntent_def closeIntent_def)

definition intentsOk :: "intent_tables \<Rightarrow> bool" where
  "intentsOk db \<longleftrightarrow> distinct (map irwID (itIntents db)) \<and> (\<forall>r \<in> set (itIntents db). irwID r < itNextIntent db)"

interpretation intent_order: key_order intentRowLess "\<lambda>r. (irwCreatedAt r, irwID r)"
  by unfold_locales (auto simp: intentRowLess_def less_prod_def')

lemma intentCandidates_in:
  assumes "r \<in> set (intentCandidates locked now limit rows)"
  shows "r \<in> set rows" "claimableIntent now r" "irwID r \<notin> locked"
  using in_set_takeD [OF assms [unfolded intentCandidates_def]]
  by (simp_all add: intent_order.set_sort_by)

lemma picked_claimable:
  assumes "intentsOk db" and "r \<in> set (itIntents db)"
    and "irwID r \<in> irwID ` set (intentCandidates locked now limit (itIntents db))"
  shows "claimableIntent now r"
proof -
  obtain q where q: "q \<in> set (intentCandidates locked now limit (itIntents db))" "irwID r = irwID q" using assms(3) by auto
  have "distinct (map irwID (itIntents db))" using assms(1) by (simp add: intentsOk_def)
  from same_key [OF this assms(2) intentCandidates_in(1) [OF q(1)] q(2)] intentCandidates_in(2) [OF q(1)]
  show ?thesis by simp
qed

text \<open>What a step does to the intents: nothing, add a new one, or change some that are not
  delivered.\<close>

lemma intentStep_intents:
  assumes "intentsOk db"
  obtains (same) "itIntents (fst (intentStep jsonb db op)) = itIntents db"
      "itNextIntent (fst (intentStep jsonb db op)) = itNextIntent db"
  | (add) r where "itIntents (fst (intentStep jsonb db op)) = itIntents db @ [r]" "irwID r = itNextIntent db"
      "itNextIntent (fst (intentStep jsonb db op)) = itNextIntent db + 1"
  | (change) p f where "itIntents (fst (intentStep jsonb db op)) = updateRows p f (itIntents db)"
      "\<And>r. intentIdentity (f r) = intentIdentity r" "\<And>r. r \<in> set (itIntents db) \<Longrightarrow> p r \<Longrightarrow> irwState r \<noteq> IntentDelivered"
      "itNextIntent (fst (intentStep jsonb db op)) = itNextIntent db"
proof (cases op)
  case (OpEnsureKey gens clock dedupe gen ty aud payload)
  show ?thesis
  proof (cases "EnsureNotificationIntent jsonb gens clock dedupe gen ty aud payload db")
    case (Inl err)
    then show ?thesis by (intro same) (simp_all add: OpEnsureKey WithTx_def)
  next
    case (Inr r)
    then have "fst r = db \<or> (\<exists>x. irwID x = itNextIntent db \<and> fst r = addIntent x db)"
      by (auto simp: EnsureNotificationIntent_def newIntent_def Let_def split: if_splits option.splits
          intro: exI [of _ "newIntent _ _ _ _ _ _ _ _"])
    then show ?thesis
    proof
      assume "fst r = db"
      with Inr show ?thesis by (intro same) (simp_all add: OpEnsureKey WithTx_def case_prod_beta)
    next
      assume "\<exists>x. irwID x = itNextIntent db \<and> fst r = addIntent x db"
      then obtain x where "irwID x = itNextIntent db" "fst r = addIntent x db" by blast
      with Inr show ?thesis
        by (intro add [of x]) (simp_all add: OpEnsureKey WithTx_def case_prod_beta addIntent_def)
    qed
  qed
next
  case (OpEnsureTransition gens trs clock tid gen ty aud payload)
  show ?thesis
  proof (cases "EnsureNotificationIntentForTransition jsonb gens trs clock tid gen ty aud payload db")
    case (Inl err)
    then show ?thesis by (intro same) (simp_all add: OpEnsureTransition WithTx_def)
  next
    case (Inr r)
    then have "fst r = db \<or> (\<exists>x. irwID x = itNextIntent db \<and> fst r = addIntent x db)"
      by (auto simp: EnsureNotificationIntentForTransition_def newIntent_def Let_def split: if_splits option.splits
          intro: exI [of _ "newIntent _ _ _ _ _ _ _ _"])
    then show ?thesis
    proof
      assume "fst r = db"
      with Inr show ?thesis by (intro same) (simp_all add: OpEnsureTransition WithTx_def case_prod_beta)
    next
      assume "\<exists>x. irwID x = itNextIntent db \<and> fst r = addIntent x db"
      then obtain x where "irwID x = itNextIntent db" "fst r = addIntent x db" by blast
      with Inr show ?thesis
        by (intro add [of x]) (simp_all add: OpEnsureTransition WithTx_def case_prod_beta addIntent_def)
    qed
  qed
next
  case (OpClaimIntents locked now limit lease token)
  show ?thesis
  proof (cases "ClaimNotificationIntents locked now limit lease token db")
    case (Inl err)
    then show ?thesis by (intro same) (simp_all add: OpClaimIntents WithTx_def)
  next
    case (Inr r)
    then have "fst r = db\<lparr>itIntents := updateRows
        (\<lambda>r. irwID r \<in> irwID ` set (intentCandidates locked now limit (itIntents db)))
        (claimIntent token (micros (now + lease))) (itIntents db)\<rparr>"
      by (auto simp: ClaimNotificationIntents_def Let_def split: if_splits)
    moreover have "irwState r \<noteq> IntentDelivered"
      if "r \<in> set (itIntents db)" "irwID r \<in> irwID ` set (intentCandidates locked now limit (itIntents db))" for r
      using picked_claimable [OF assms that] by (auto simp: claimableIntent_def)
    ultimately show ?thesis using Inr
      by (intro change [of "\<lambda>r. irwID r \<in> irwID ` set (intentCandidates locked now limit (itIntents db))"
            "claimIntent token (micros (now + lease))"])
        (simp_all add: OpClaimIntents WithTx_def case_prod_beta)
  qed
next
  case (OpBegin i token now)
  then show ?thesis by (intro same) (simp_all add: WithTx_def BeginDeliveryAttempt_def Let_def)
next
  case (OpFinish i att token success msg at now)
  show ?thesis
  proof (cases "FinishDeliveryAttempt i att token success msg at now db")
    case (Inl err)
    then show ?thesis by (intro same) (simp_all add: OpFinish WithTx_def)
  next
    case (Inr r)
    show ?thesis
    proof (cases "snd r")
      case True
      with Inr show ?thesis
        by (intro change [of "\<lambda>r. irwID r = i \<and> irwState r = IntentClaimed \<and> irwClaimToken r = Some token"
              "closeIntent success at"])
          (auto simp: OpFinish WithTx_def FinishDeliveryAttempt_def Let_def split: if_splits)
    next
      case False
      with Inr show ?thesis
        by (intro same) (auto simp: OpFinish WithTx_def FinishDeliveryAttempt_def Let_def split: if_splits)
    qed
  qed
qed

lemma identity_id: "map intentIdentity xs = map intentIdentity ys \<Longrightarrow> map irwID xs = map irwID ys"
proof -
  assume "map intentIdentity xs = map intentIdentity ys"
  then have "map (fst \<circ> intentIdentity) xs = map (fst \<circ> intentIdentity) ys" unfolding map_map [symmetric] by simp
  then show ?thesis by (simp add: intentIdentity_def comp_def)
qed

lemma step_ok:
  assumes ok: "intentsOk db"
  shows "intentsOk (fst (intentStep jsonb db op))"
  using ok
proof (cases rule: intentStep_intents [of db jsonb op])
  case same
  with ok show ?thesis by (simp add: intentsOk_def)
next
  case (add r)
  with ok show ?thesis by (auto simp: intentsOk_def)
next
  case (change p f)
  have ids: "map irwID (itIntents (fst (intentStep jsonb db op))) = map irwID (itIntents db)"
    unfolding change(1) by (rule identity_id) (rule identity_updateRows [OF change(2)])
  have "irwID r < itNextIntent db" if "r \<in> set (itIntents (fst (intentStep jsonb db op)))" for r
  proof -
    have "irwID r \<in> set (map irwID (itIntents db))" unfolding ids [symmetric] using that by simp
    then show ?thesis using ok by (auto simp: intentsOk_def)
  qed
  with ok show ?thesis unfolding intentsOk_def change(4) ids by blast
qed

interpretation intent_machine: invariant_machine "intentStep jsonb" intentsOk for jsonb
  by unfold_locales (rule step_ok)

lemma emptyIntents_ok: "intentsOk emptyIntents"
  by (simp add: intentsOk_def emptyIntents_def)

text \<open>Identities are only added.\<close>

definition keepsIntents :: "intent_tables \<Rightarrow> intent_tables \<Rightarrow> bool" where
  "keepsIntents db db' \<longleftrightarrow> (\<exists>xs. map intentIdentity (itIntents db') = map intentIdentity (itIntents db) @ xs)"

lemma step_extends:
  assumes ok: "intentsOk db"
  shows "keepsIntents db (fst (intentStep jsonb db op))"
  using ok
proof (cases rule: intentStep_intents [of db jsonb op])
  case (change p f)
  then show ?thesis by (simp add: keepsIntents_def identity_updateRows)
qed (simp_all add: keepsIntents_def)

lemma run_extends: "intentsOk db \<Longrightarrow> keepsIntents db (fst (run (intentStep jsonb) db ops))"
proof (induction ops arbitrary: db)
  case (Cons op ops)
  from step_extends [OF Cons.prems, of jsonb op] Cons.IH [OF step_ok [OF Cons.prems, of jsonb op]]
  show ?case by (auto simp: keepsIntents_def case_prod_beta Let_def)
qed (simp add: keepsIntents_def)

subsection \<open>Delivered intents\<close>

definition deliveredIntent :: "int \<Rightarrow> intent_tables \<Rightarrow> bool" where
  "deliveredIntent i db \<longleftrightarrow> i < itNextIntent db \<and> (\<forall>r \<in> set (itIntents db). irwID r = i \<longrightarrow> irwState r = IntentDelivered)"

lemma intent_delivered_step:
  assumes "intentsOk db" and "deliveredIntent i db"
  shows "deliveredIntent i (fst (intentStep jsonb db op))"
  using assms(1)
proof (cases rule: intentStep_intents [of db jsonb op])
  case (change p f)
  have "irwState r = IntentDelivered" if r: "r \<in> set (updateRows p f (itIntents db))" "irwID r = i" for r
  proof -
    from r(1) obtain q where q: "q \<in> set (itIntents db)" "r = (if p q then f q else q)" by (rule updateRows_in)
    have "irwID r = irwID q" using change(2) [of q] q(2) by (auto simp: intentIdentity_def)
    with assms(2) q(1) r(2) have d: "irwState q = IntentDelivered" by (auto simp: deliveredIntent_def)
    with change(3) [OF q(1)] q(2) show ?thesis by auto
  qed
  with assms(2) show ?thesis by (simp add: deliveredIntent_def change)
qed (use assms(2) in \<open>auto simp: deliveredIntent_def\<close>)

fun deliveredID :: "intent_effect \<Rightarrow> int option" where
  "deliveredID (AttemptFinished i att success) = (if success then Some i else None)"
| "deliveredID (IntentEnsured i new) = None"
| "deliveredID (IntentsClaimed token cs) = None"
| "deliveredID (AttemptBegun i n att) = None"

lemma deliveredID_Some: "deliveredID e = Some i \<longleftrightarrow> (\<exists>att. e = AttemptFinished i att True)"
  by (cases e) auto

lemma finished_effect:
  assumes "AttemptFinished i att success \<in> set (snd (intentStep jsonb db op))"
  obtains token msg at now r where "op = OpFinish i att token success msg at now"
    "r \<in> set (itIntents db)" "holdsClaim i token now r"
    "itIntents (fst (intentStep jsonb db op)) =
       updateRows (\<lambda>r. irwID r = i \<and> irwState r = IntentClaimed \<and> irwClaimToken r = Some token)
         (closeIntent success at) (itIntents db)"
    "itDeliveries (fst (intentStep jsonb db op)) = (if success then (itDeliveries db)(i \<mapsto> \<lparr>dwrAttemptID = att,
       dwrDeliveredAt = micros at, dwrOutcome = ''stub'', dwrVisibleMessage = msg\<rparr>) else itDeliveries db)"
    "itNextIntent (fst (intentStep jsonb db op)) = itNextIntent db"
proof -
  have "\<exists>token msg at now. op = OpFinish i att token success msg at now"
    using assms by (cases op) (auto simp: WithTx_def split: sum.splits prod.splits if_splits)
  then obtain token msg at now where op: "op = OpFinish i att token success msg at now" by blast
  let ?hit = "\<lambda>a. awrID a = att \<and> awrIntentID a = i \<and> (\<exists>r \<in> set (itIntents db). holdsClaim i token now r)"
  have hit: "countRows ?hit (itAttempts db) = 1"
    using assms unfolding op by (auto simp: WithTx_def FinishDeliveryAttempt_def Let_def split: if_splits)
  then have "\<exists>r \<in> set (itIntents db). holdsClaim i token now r"
    using countRows_pos [of ?hit "itAttempts db"] by auto
  then obtain r where r: "r \<in> set (itIntents db)" "holdsClaim i token now r" by blast
  have ok: "\<not> (success \<and> itDeliveries db i \<noteq> None)"
    using assms hit unfolding op by (auto simp: WithTx_def FinishDeliveryAttempt_def Let_def split: if_splits)
  show ?thesis
    by (rule that [OF op r]) (use hit ok in \<open>auto simp: op WithTx_def FinishDeliveryAttempt_def Let_def split: if_splits\<close>)
qed

interpretation delivery_machine: once_machine "intentStep jsonb" intentsOk deliveredID deliveredIntent for jsonb
proof
  fix db i op e
  assume ok: "intentsOk db"
  show "deliveredIntent i db \<Longrightarrow> deliveredIntent i (fst (intentStep jsonb db op))" by (rule intent_delivered_step [OF ok])
  show "deliveredID e \<noteq> Some i" if d: "deliveredIntent i db" and e: "e \<in> set (snd (intentStep jsonb db op))"
  proof
    assume "deliveredID e = Some i"
    then obtain att where "e = AttemptFinished i att True" by (auto simp: deliveredID_Some)
    with d e show False by (auto simp: deliveredIntent_def holdsClaim_def elim!: finished_effect)
  qed
  show "deliveredIntent i (fst (intentStep jsonb db op))"
    if e: "e \<in> set (snd (intentStep jsonb db op))" and d: "deliveredID e = Some i"
  proof -
    obtain att where "e = AttemptFinished i att True" using d by (auto simp: deliveredID_Some)
    with e obtain token msg at now r where r: "r \<in> set (itIntents db)" "holdsClaim i token now r"
      and rows: "itIntents (fst (intentStep jsonb db op)) =
         updateRows (\<lambda>r. irwID r = i \<and> irwState r = IntentClaimed \<and> irwClaimToken r = Some token)
           (closeIntent True at) (itIntents db)"
      and n: "itNextIntent (fst (intentStep jsonb db op)) = itNextIntent db"
      by (auto elim!: finished_effect)
    have "irwState x = IntentDelivered" if x: "x \<in> set (itIntents (fst (intentStep jsonb db op)))" "irwID x = i" for x
    proof -
      from x(1) [unfolded rows] obtain q where q: "q \<in> set (itIntents db)"
        "x = (if irwID q = i \<and> irwState q = IntentClaimed \<and> irwClaimToken q = Some token then closeIntent True at q else q)"
        by (rule updateRows_in)
      with x(2) r(2) have "irwID q = irwID r" by (auto simp: holdsClaim_def split: if_splits)
      with ok q(1) r(1) have "q = r" by (auto simp: intentsOk_def dest: same_key)
      with q(2) r(2) show ?thesis by (simp add: holdsClaim_def closeIntent_def)
    qed
    moreover have "i < itNextIntent db" using ok r by (auto simp: intentsOk_def holdsClaim_def)
    ultimately show ?thesis by (simp add: deliveredIntent_def n)
  qed
  show "distinct (List.map_filter deliveredID (snd (intentStep jsonb db op)))"
    by (cases op) (auto simp: WithTx_def List.map_filter_def split: sum.split prod.split)
qed

subsection \<open>One intent per transition and audience\<close>

lemma base64_no_colon: "CHR '':'' \<notin> set (base64 s)"
proof -
  have "list_all (\<lambda>n. sextet n \<noteq> CHR '':'') [0..<64]" by code_simp
  then have c: "CHR '':'' \<noteq> sextet n" if "n < 64" for n using that by (auto simp: list_all_iff)
  have "byteOf b mod 4 * 16 < 64" "byteOf b mod 16 * 4 < 64" for b by presburger+
  with c show ?thesis by (induction s rule: base64.induct) simp_all
qed

text \<open>The deduplication key of a transition's intent is unambiguous: because the audience is
  encoded, two keys are equal only for the same transition, audience and type.\<close>

theorem transition_dedupe_injective:
  "(transitionDedupe tid aud ty = transitionDedupe tid' aud' ty') = (tid = tid' \<and> aud = aud' \<and> ty = ty')"
proof
  assume "transitionDedupe tid aud ty = transitionDedupe tid' aud' ty'"
  then have eq: "formatInt tid @ CHR '':'' # base64 aud @ CHR '':'' # ty = formatInt tid' @ CHR '':'' # base64 aud' @ CHR '':'' # ty'"
    by (simp add: transitionDedupe_def)
  have "CHR '':'' \<notin> set (formatInt k)" for k
    using nondigit_notin_decimal [of "CHR '':''"] by (auto simp: formatInt_def)
  with append_sep_inject [OF eq] have "tid = tid'" and rest: "base64 aud @ CHR '':'' # ty = base64 aud' @ CHR '':'' # ty'"
    by auto
  with append_sep_inject [OF rest base64_no_colon base64_no_colon] base64_inj show "tid = tid' \<and> aud = aud' \<and> ty = ty'"
    by auto
qed simp

lemma sameTransition_identity:
  "sameTransition tid aud ty r = ((\<lambda>(i, d, g, t, y, a, p). t = Some tid \<and> a = aud \<and> y = ty) (intentIdentity r))"
  by (simp add: sameTransition_def intentIdentity_def)

lemma find_identity:
  "map_option intentIdentity (find (\<lambda>r. P (intentIdentity r)) rows) = find P (map intentIdentity rows)"
  by (induction rows) auto

lemma find_prefix: "find P xs = Some x \<Longrightarrow> find P (xs @ ys) = Some x"
  by (induction xs) (auto split: if_splits)

lemma transition_found:
  assumes "EnsureNotificationIntentForTransition jsonb gens trs clock tid gen ty aud payload db = Inr (db', i, new)"
  obtains r where "find (sameTransition tid aud ty) (itIntents db') = Some r" "irwID r = i"
    "irwAlertGenerationID r = gen" "irwPayload r = jsonb payload" "validTransitionType ty"
proof -
  have fresh: "find p (xs @ [y]) = Some y" if "\<not> (\<exists>x \<in> set xs. p x)" "p y" for p :: "intent_row \<Rightarrow> bool" and xs y
    using that by (induction xs) auto
  show ?thesis
  proof (cases "\<exists>r \<in> set (itIntents db). irwDedupeKey r = transitionDedupe tid aud ty \<or> sameTransition tid aud ty r")
    case True
    with assms that show ?thesis
      by (auto simp: EnsureNotificationIntentForTransition_def Let_def split: if_splits option.splits)
  next
    case False
    let ?r = "newIntent (itNextIntent db) clock (transitionDedupe tid aud ty) gen (Some tid) ty aud (jsonb payload)"
    have "db' = addIntent ?r db" "i = itNextIntent db" "validTransitionType ty"
      using assms False by (auto simp: EnsureNotificationIntentForTransition_def Let_def split: if_splits)
    with that [of ?r] fresh [of "itIntents db" "sameTransition tid aud ty" ?r] False show ?thesis
      by (auto simp: addIntent_def newIntent_def sameTransition_def)
  qed
qed

lemma found_later:
  assumes ok: "intentsOk db" and "find (sameTransition tid aud ty) (itIntents db) = Some r"
  obtains q where "find (sameTransition tid aud ty) (itIntents (fst (run (intentStep jsonb) db ops))) = Some q"
    "intentIdentity q = intentIdentity r"
proof -
  let ?P = "\<lambda>(i, d, g, t, y, a, p). t = Some tid \<and> a = aud \<and> y = ty" and ?db = "fst (run (intentStep jsonb) db ops)"
  from run_extends [OF ok, of jsonb ops] obtain xs where
    xs: "map intentIdentity (itIntents ?db) = map intentIdentity (itIntents db) @ xs" by (auto simp: keepsIntents_def)
  have same: "sameTransition tid aud ty = (\<lambda>r. ?P (intentIdentity r))" by (rule ext) (rule sameTransition_identity)
  have "find ?P (map intentIdentity (itIntents db)) = Some (intentIdentity r)"
    unfolding find_identity [symmetric] using assms(2) unfolding same by simp
  then have "map_option intentIdentity (find (sameTransition tid aud ty) (itIntents ?db)) = Some (intentIdentity r)"
    unfolding same find_identity xs by (rule find_prefix)
  with that show ?thesis by auto
qed

text \<open>Ensuring a transition's intent is idempotent across everything that happens in between: when
  a first call succeeds, the same call after any further operations, by whatever clock and
  whatever other rows exist, succeeds with the same intent and changes nothing.\<close>

theorem transition_intent_idempotent:
  "case EnsureNotificationIntentForTransition jsonb gens trs clock tid gen ty aud payload
      (fst (run (intentStep jsonb) emptyIntents before)) of
     Inl err \<Rightarrow> True
   | Inr (db, i, new) \<Rightarrow> (let db' = fst (run (intentStep jsonb) db after) in
       EnsureNotificationIntentForTransition jsonb gens' trs' clock' tid gen ty aud payload db' = Inr (db', i, False))"
proof -
  let ?ensure = "EnsureNotificationIntentForTransition jsonb" and ?first = "fst (run (intentStep jsonb) emptyIntents before)"
  have again: "?ensure gens' trs' clock' tid gen ty aud payload (fst (run (intentStep jsonb) db after)) =
      Inr (fst (run (intentStep jsonb) db after), i, False)"
    if e: "?ensure gens trs clock tid gen ty aud payload ?first = Inr (db, i, new)" for db i new
  proof -
    let ?db = "fst (run (intentStep jsonb) db after)"
    have "db = fst (intentStep jsonb ?first (OpEnsureTransition gens trs clock tid gen ty aud payload))"
      by (simp add: e WithTx_def)
    then have ok: "intentsOk db" by (simp only: step_ok [OF intent_machine.run_inv [OF emptyIntents_ok]])
    from transition_found [OF e] obtain r where r: "find (sameTransition tid aud ty) (itIntents db) = Some r"
      "irwID r = i" "irwAlertGenerationID r = gen" "irwPayload r = jsonb payload" "validTransitionType ty" by metis
    from found_later [OF ok r(1)] obtain q where q: "find (sameTransition tid aud ty) (itIntents ?db) = Some q"
      "intentIdentity q = intentIdentity r" by metis
    have "\<exists>x \<in> set (itIntents ?db). irwDedupeKey x = transitionDedupe tid aud ty \<or> sameTransition tid aud ty x"
      using q(1) unfolding find_Some_iff by (metis nth_mem)
    then show ?thesis
      using q r by (simp add: EnsureNotificationIntentForTransition_def Let_def intentIdentity_def)
  qed
  show ?thesis
  proof (cases "?ensure gens trs clock tid gen ty aud payload ?first")
    case (Inr r)
    obtain db i new where "r = (db, i, new)" by (cases r)
    with again [OF Inr [unfolded this]] Inr show ?thesis by (simp add: Let_def)
  qed simp
qed

subsection \<open>One delivery per intent\<close>

lemma deliveries_step:
  "dom (itDeliveries (fst (intentStep jsonb db op))) =
     dom (itDeliveries db) \<union> set (List.map_filter deliveredID (snd (intentStep jsonb db op)))"
proof (cases op)
  case (OpFinish i att token success msg at now)
  then show ?thesis
    by (auto simp: WithTx_def FinishDeliveryAttempt_def Let_def List.map_filter_def split: if_splits)
next
  case (OpEnsureKey gens clock dedupe gen ty aud payload)
  then show ?thesis
    by (auto simp: WithTx_def EnsureNotificationIntent_def addIntent_def List.map_filter_def split: if_splits option.splits)
next
  case (OpEnsureTransition gens trs clock tid gen ty aud payload)
  then show ?thesis
    by (auto simp: WithTx_def EnsureNotificationIntentForTransition_def Let_def addIntent_def List.map_filter_def
        split: if_splits option.splits)
next
  case (OpClaimIntents locked now limit lease token)
  then show ?thesis by (simp add: WithTx_def ClaimNotificationIntents_def Let_def List.map_filter_def)
next
  case (OpBegin i token now)
  then show ?thesis by (simp add: WithTx_def BeginDeliveryAttempt_def Let_def List.map_filter_def)
qed

lemma deliveries_run:
  "dom (itDeliveries (fst (run (intentStep jsonb) db ops))) =
     dom (itDeliveries db) \<union> set (List.map_filter deliveredID (snd (run (intentStep jsonb) db ops)))"
proof (induction ops arbitrary: db)
  case (Cons op ops)
  show ?case by (simp add: Cons.IH deliveries_step case_prod_beta Let_def List.map_filter_def image_Un filter_append Un_assoc)
qed (simp add: List.map_filter_def)


end
