(* ===== verification/AlertStoreProps.thy ===== *)
theory AlertStoreProps
  imports AlertStore AlertFlow
begin

text \<open>
  The durable alerts refine the alert reducer: what the rows show of every series, generation
  and transition, and that the journal of a reducer is always accepted.
\<close>

subsection \<open>What the tables show\<close>

type_synonym book_entry = "series_key option \<times> int \<times> generation_status \<times> gotime \<times> gotime option"

type_synonym log_entry = "(series_key option \<times> int) option \<times> string \<times> gotime"

definition seriesKeyAt :: "alert_tables \<Rightarrow> int \<Rightarrow> series_key option" where
  "seriesKeyAt db sid = map_option asrKey (find (\<lambda>r. asrID r = sid) (alSeries db))"

definition alertBook :: "alert_tables \<Rightarrow> book_entry list" where
  "alertBook db = map (\<lambda>r. (seriesKeyAt db (grwSeriesID r), grwGeneration r, grwStatus r, grwOpenedAt r,
     grwRecoveredAt r)) (alGenerations db)"

definition generationShown :: "alert_tables \<Rightarrow> int \<Rightarrow> (series_key option \<times> int) option" where
  "generationShown db gid = map_option (\<lambda>r. (seriesKeyAt db (grwSeriesID r), grwGeneration r))
     (find (\<lambda>r. grwID r = gid) (alGenerations db))"

definition alertLog :: "alert_tables \<Rightarrow> log_entry list" where
  "alertLog db = map (\<lambda>x. (generationShown db (xrwGenerationID x), xrwType x, xrwOccurredAt x)) (alTransitions db)"

text \<open>What a transition adds to both.\<close>

definition bookStep :: "book_entry list \<Rightarrow> alert_transition \<Rightarrow> book_entry list" where
  "bookStep es t = (if atKind t = Open
     then es @ [(Some (atSeries t), toInt64 (atGeneration t), GenerationOpen, micros (atAt t), None)]
     else map (\<lambda>(k, g, st, opn, rec). if k = Some (atSeries t) \<and> g = toInt64 (atGeneration t)
       then (k, g, GenerationRecovered, opn, Some (micros (atAt t))) else (k, g, st, opn, rec)) es)"

definition logEntry :: "alert_transition \<Rightarrow> log_entry" where
  "logEntry t = (Some (Some (atSeries t), toInt64 (atGeneration t)), kindString (atKind t), micros (atAt t))"

subsection \<open>The invariant of the rows\<close>

definition rowsOk :: "alert_tables \<Rightarrow> bool" where
  "rowsOk db \<longleftrightarrow> distinct (map asrID (alSeries db)) \<and> distinct (map asrKey (alSeries db)) \<and>
     (\<forall>r \<in> set (alSeries db). asrID r < alNextSeries db) \<and>
     distinct (map grwID (alGenerations db)) \<and>
     (\<forall>g \<in> set (alGenerations db). grwID g < alNextGeneration db \<and> grwSeriesID g \<in> asrID ` set (alSeries db)) \<and>
     (\<forall>x \<in> set (alTransitions db). xrwGenerationID x \<in> grwID ` set (alGenerations db))"

lemma rowsOkD:
  assumes "rowsOk db"
  shows "distinct (map asrID (alSeries db))" "distinct (map asrKey (alSeries db))"
    "r \<in> set (alSeries db) \<Longrightarrow> asrID r < alNextSeries db" "distinct (map grwID (alGenerations db))"
    "g \<in> set (alGenerations db) \<Longrightarrow> grwID g < alNextGeneration db"
    "g \<in> set (alGenerations db) \<Longrightarrow> grwSeriesID g \<in> asrID ` set (alSeries db)"
    "x \<in> set (alTransitions db) \<Longrightarrow> xrwGenerationID x \<in> grwID ` set (alGenerations db)"
  using assms unfolding rowsOk_def by blast+

lemma rowsOk_empty: "rowsOk emptyAlerts"
  by (simp add: rowsOk_def emptyAlerts_def)

lemma find_by_id: "distinct (map f xs) \<Longrightarrow> x \<in> set xs \<Longrightarrow> find (\<lambda>y. f y = f x) xs = Some x"
  by (induction xs) auto

lemma find_SomeD: "find P xs = Some x \<Longrightarrow> x \<in> set xs \<and> P x"
  by (induction xs) (auto split: if_splits)

lemma find_fresh: "k \<notin> f ` set xs \<Longrightarrow> find (\<lambda>x. f x = k) xs = None"
  by (auto simp: find_None_iff)

lemma find_snoc_other: "find P (xs @ ys) = (case find P xs of None \<Rightarrow> find P ys | Some x \<Rightarrow> Some x)"
  by (induction xs) auto

lemma seriesKeyAt_in:
  assumes "rowsOk db" and "sid \<in> asrID ` set (alSeries db)"
  obtains r where "r \<in> set (alSeries db)" "asrID r = sid" "seriesKeyAt db sid = Some (asrKey r)"
proof -
  from assms(2) obtain r where r: "r \<in> set (alSeries db)" "asrID r = sid" by blast
  from find_by_id [OF rowsOkD(1) [OF assms(1)] r(1)] r that show ?thesis by (simp add: seriesKeyAt_def)
qed

lemma seriesKeyAt_inject:
  assumes "rowsOk db" "seriesKeyAt db i = Some k" "seriesKeyAt db j = Some k"
  shows "i = j"
proof -
  obtain r s where rs: "r \<in> set (alSeries db)" "asrID r = i" "asrKey r = k" "s \<in> set (alSeries db)" "asrID s = j" "asrKey s = k"
    using assms(2,3) by (auto simp: seriesKeyAt_def dest!: find_SomeD)
  from same_key [OF rowsOkD(2) [OF assms(1)] rs(1,4)] rs show ?thesis by simp
qed

subsection \<open>The series\<close>

lemma upsertSeries_effect:
  assumes ok: "rowsOk db" and "upsertSeries k db = Inr (db', sid)"
  shows "rowsOk db' \<and> alertBook db' = alertBook db \<and> alertLog db' = alertLog db \<and>
    seriesKeyAt db' sid = Some k \<and> sid \<in> asrID ` set (alSeries db') \<and> alGenerations db' = alGenerations db \<and>
    alTransitions db' = alTransitions db \<and> alNextGeneration db' = alNextGeneration db \<and>
    alNextTransition db' = alNextTransition db"
proof (cases "find (\<lambda>r. asrKey r = k) (alSeries db)")
  case (Some r)
  then have r: "r \<in> set (alSeries db)" "asrKey r = k" by (auto simp: find_Some_iff)
  have "db' = db" "sid = asrID r" using assms(2) Some by (auto simp: upsertSeries_def split: if_splits)
  moreover have "seriesKeyAt db (asrID r) = Some k"
    using find_by_id [OF rowsOkD(1) [OF ok] r(1)] r(2) by (simp add: seriesKeyAt_def)
  ultimately show ?thesis using ok r(1) by simp
next
  case None
  then have new: "k \<notin> asrKey ` set (alSeries db)" by (auto simp: find_None_iff)
  let ?r = "\<lparr>asrID = alNextSeries db, asrKey = k\<rparr>"
  have db': "db' = db\<lparr>alSeries := alSeries db @ [?r], alNextSeries := alNextSeries db + 1\<rparr>" "sid = alNextSeries db"
    using assms(2) None by (auto simp: upsertSeries_def split: if_splits)
  have fresh: "alNextSeries db \<notin> asrID ` set (alSeries db)" using rowsOkD(3) [OF ok] by force
  then have at: "seriesKeyAt db' i = (if i = alNextSeries db then Some k else seriesKeyAt db i)" for i
    using find_fresh [OF fresh] by (auto simp: db' seriesKeyAt_def find_snoc_other split: option.split)
  have same: "seriesKeyAt db' (grwSeriesID g) = seriesKeyAt db (grwSeriesID g)" if "g \<in> set (alGenerations db)" for g
    using rowsOkD(6) [OF ok that] fresh by (auto simp: at)
  have gens: "alGenerations db' = alGenerations db" "alTransitions db' = alTransitions db" by (simp_all add: db')
  have shown: "generationShown db' gid = generationShown db gid" for gid
    using same by (auto simp: generationShown_def gens map_option_case dest!: find_SomeD split: option.split)
  have "rowsOk db'"
    using ok fresh new unfolding rowsOk_def db' by (auto simp: image_iff)
  moreover have "alertBook db' = alertBook db" using same by (simp add: alertBook_def gens)
  moreover have "alertLog db' = alertLog db" by (simp add: alertLog_def gens shown)
  moreover have "seriesKeyAt db' sid = Some k" by (simp only: at db'(2) if_True simp_thms)
  ultimately show ?thesis by (simp add: db')
qed

subsection \<open>The generation\<close>

lemma openGeneration_effect:
  assumes ok: "rowsOk db" and o': "openGeneration sid gen at db = Inr (db', gid)" and k: "seriesKeyAt db sid = Some k"
    and sid: "sid \<in> asrID ` set (alSeries db)"
  shows "rowsOk db' \<and> alertBook db' = alertBook db @ [(Some k, gen, GenerationOpen, micros at, None)] \<and>
    alertLog db' = alertLog db \<and> generationShown db' gid = Some (Some k, gen) \<and> gid \<in> grwID ` set (alGenerations db') \<and>
    alTransitions db' = alTransitions db \<and> alNextTransition db' = alNextTransition db"
proof -
  let ?g = "\<lparr>grwID = alNextGeneration db, grwSeriesID = sid, grwGeneration = gen, grwStatus = GenerationOpen,
    grwOpenedAt = micros at, grwRecoveredAt = None\<rparr>"
  have db': "db' = db\<lparr>alGenerations := alGenerations db @ [?g], alNextGeneration := alNextGeneration db + 1\<rparr>"
    "gid = alNextGeneration db"
    using o' by (auto simp: openGeneration_def split: if_splits)
  have fresh: "alNextGeneration db \<notin> grwID ` set (alGenerations db)" using rowsOkD(5) [OF ok] by force
  have at: "seriesKeyAt db' = seriesKeyAt db" by (simp add: db' seriesKeyAt_def fun_eq_iff)
  have shown: "generationShown db' i = (if i = alNextGeneration db then Some (Some k, gen) else generationShown db i)" for i
    unfolding generationShown_def at
    using find_fresh [OF fresh] by (auto simp: k db'(1) find_snoc_other split: option.split)
  have "rowsOk db'"
    using ok fresh sid unfolding rowsOk_def db' by (auto simp: image_iff)
  moreover have "alertLog db' = alertLog db"
  proof -
    have "generationShown db' (xrwGenerationID x) = generationShown db (xrwGenerationID x)" if "x \<in> set (alTransitions db)" for x
      using rowsOkD(7) [OF ok that] fresh by (auto simp: shown)
    then show ?thesis by (simp add: alertLog_def db')
  qed
  moreover have "alertBook db' = alertBook db @ [(Some k, gen, GenerationOpen, micros at, None)]"
    unfolding alertBook_def at by (simp add: db' k)
  moreover have "generationShown db' gid = Some (Some k, gen)" by (simp only: shown db'(2) if_True simp_thms)
  ultimately show ?thesis by (simp add: db')
qed

lemma find_map: "find P (map f xs) = map_option f (find (\<lambda>x. P (f x)) xs)"
  by (induction xs) auto

lemma recoverGeneration_effect:
  assumes ok: "rowsOk db" and o': "recoverGeneration sid gen at db = Inr (db', gid)" and k: "seriesKeyAt db sid = Some k"
  shows "rowsOk db' \<and> alertBook db' = map (\<lambda>(k', g, st, opn, rec). if k' = Some k \<and> g = gen
      then (k', g, GenerationRecovered, opn, Some (micros at)) else (k', g, st, opn, rec)) (alertBook db) \<and>
    alertLog db' = alertLog db \<and> generationShown db' gid = Some (Some k, gen) \<and> gid \<in> grwID ` set (alGenerations db') \<and>
    alTransitions db' = alTransitions db \<and> alNextTransition db' = alNextTransition db"
proof -
  let ?f = "\<lambda>r. r\<lparr>grwStatus := GenerationRecovered, grwRecoveredAt := Some (micros at)\<rparr>"
  obtain r where r: "find (generationAt sid gen) (alGenerations db) = Some r" "gid = grwID r"
    and db': "db' = db\<lparr>alGenerations := updateRows (generationAt sid gen) ?f (alGenerations db)\<rparr>"
    using o' by (auto simp: recoverGeneration_def split: option.splits)
  then have in_r: "r \<in> set (alGenerations db)" "grwSeriesID r = sid" "grwGeneration r = gen"
    by (auto simp: find_Some_iff generationAt_def)
  have at: "seriesKeyAt db' = seriesKeyAt db" by (simp add: db' seriesKeyAt_def fun_eq_iff)
  have keeps: "grwID (?f x) = grwID x" "grwSeriesID (?f x) = grwSeriesID x" "grwGeneration (?f x) = grwGeneration x" for x
    by simp_all
  have shown: "generationShown db' i = generationShown db i" for i
    unfolding generationShown_def at
    by (simp add: db' updateRows_def find_map option.map_comp comp_def if_distrib [of grwID] cong: if_cong)
      (auto simp: map_option_case split: option.split)
  have ids: "map grwID (alGenerations db') = map grwID (alGenerations db)"
    "map grwSeriesID (alGenerations db') = map grwSeriesID (alGenerations db)"
    by (simp_all add: db' updateRows_def)
  have sets: "grwID ` set (alGenerations db') = grwID ` set (alGenerations db)"
    using arg_cong [OF ids(1), of set] by simp
  have "grwID g < alNextGeneration db \<and> grwSeriesID g \<in> asrID ` set (alSeries db)" if g: "g \<in> set (alGenerations db')" for g
  proof -
    from g have "g \<in> set (updateRows (generationAt sid gen) ?f (alGenerations db))" by (simp add: db')
    then obtain q where "q \<in> set (alGenerations db)" "g = (if generationAt sid gen q then ?f q else q)"
      by (rule updateRows_in)
    with rowsOkD(5,6) [OF ok, of q] show ?thesis by simp
  qed
  moreover have "alSeries db' = alSeries db" "alTransitions db' = alTransitions db" "alNextSeries db' = alNextSeries db"
    "alNextGeneration db' = alNextGeneration db" by (simp_all add: db')
  ultimately have "rowsOk db'" using ok ids(1) sets unfolding rowsOk_def by simp
  moreover have "alertLog db' = alertLog db" by (simp add: alertLog_def shown) (simp add: db')
  moreover have "alertBook db' = map (\<lambda>(k', g, st, opn, rec). if k' = Some k \<and> g = gen
      then (k', g, GenerationRecovered, opn, Some (micros at)) else (k', g, st, opn, rec)) (alertBook db)"
  proof -
    have hit: "generationAt sid gen g \<longleftrightarrow> seriesKeyAt db (grwSeriesID g) = Some k \<and> grwGeneration g = gen" for g
      unfolding generationAt_def using seriesKeyAt_inject [OF ok _ k, of "grwSeriesID g"] k by blast
    have gens: "alGenerations db' = updateRows (generationAt sid gen) ?f (alGenerations db)" by (simp add: db')
    show ?thesis unfolding alertBook_def at gens updateRows_def map_map by (rule map_cong [OF refl]) (simp add: hit)
  qed
  moreover have "generationShown db gid = Some (Some k, gen)"
    using find_by_id [OF rowsOkD(4) [OF ok] in_r(1)] in_r k r(2) by (simp add: generationShown_def)
  moreover have "gid \<in> grwID ` set (alGenerations db)" using r(2) in_r(1) by simp
  ultimately show ?thesis unfolding shown sets by (simp add: db')
qed

subsection \<open>An alert transition\<close>

lemma insertTransition_effect:
  assumes "rowsOk db" and "insertTransition gid ty at db = Inr (db', tid)" and "generationShown db gid = Some e"
    and "gid \<in> grwID ` set (alGenerations db)"
  shows "rowsOk db' \<and> alertBook db' = alertBook db \<and> alertLog db' = alertLog db @ [(Some e, ty, micros at)] \<and>
    tid = alNextTransition db \<and> alNextTransition db' = alNextTransition db + 1"
  using assms
  by (auto simp: insertTransition_def rowsOk_def alertBook_def alertLog_def generationShown_def seriesKeyAt_def
      split: if_splits)

lemma persistAlert_effect:
  assumes ok: "rowsOk db" and p: "persistAlert t db = Inr (db', gid, tid)"
  shows "rowsOk db' \<and> alertBook db' = bookStep (alertBook db) t \<and> alertLog db' = alertLog db @ [logEntry t] \<and>
    tid = alNextTransition db \<and> alNextTransition db' = alNextTransition db + 1"
proof -
  let ?gen = "toInt64 (atGeneration t)"
  obtain db1 sid where u: "upsertSeries (atSeries t) db = Inr (db1, sid)"
    using p by (auto simp: persistAlert_def split: sum.splits)
  obtain db2 where g: "(if atKind t = Open then openGeneration sid ?gen (atAt t) db1
      else recoverGeneration sid ?gen (atAt t) db1) = Inr (db2, gid)"
    and i: "insertTransition gid (kindString (atKind t)) (atAt t) db2 = Inr (db', tid)"
    using p u by (auto simp: persistAlert_def split: sum.splits)
  note one = upsertSeries_effect [OF ok u]
  then have ok1: "rowsOk db1" and k1: "seriesKeyAt db1 sid = Some (atSeries t)" and s1: "sid \<in> asrID ` set (alSeries db1)"
    by blast+
  have two: "rowsOk db2 \<and> alertBook db2 = bookStep (alertBook db1) t \<and> alertLog db2 = alertLog db1 \<and>
      generationShown db2 gid = Some (Some (atSeries t), ?gen) \<and> gid \<in> grwID ` set (alGenerations db2) \<and>
      alNextTransition db2 = alNextTransition db1"
  proof (cases "atKind t = Open")
    case True
    with g have "openGeneration sid ?gen (atAt t) db1 = Inr (db2, gid)" by simp
    from openGeneration_effect [OF ok1 this k1 s1] True show ?thesis by (simp add: bookStep_def)
  next
    case False
    with g have "recoverGeneration sid ?gen (atAt t) db1 = Inr (db2, gid)" by simp
    from recoverGeneration_effect [OF ok1 this k1] False show ?thesis by (simp add: bookStep_def)
  qed
  then have "rowsOk db2" "generationShown db2 gid = Some (Some (atSeries t), ?gen)" "gid \<in> grwID ` set (alGenerations db2)"
    by blast+
  from insertTransition_effect [OF this(1) i this(2,3)] one two show ?thesis by (simp add: logEntry_def)
qed

subsection \<open>Journals\<close>

fun persistAlerts :: "alert_transition list \<Rightarrow> alert_tables \<Rightarrow> alert_error + alert_tables" where
  "persistAlerts [] db = Inr db"
| "persistAlerts (t # ts) db = (case persistAlert t db of Inl err \<Rightarrow> Inl err
     | Inr (db', gid, tid) \<Rightarrow> persistAlerts ts db')"

text \<open>The place of a transition in its series decides its kind and generation.\<close>

definition seriesCount :: "alert_transition list \<Rightarrow> series_key \<Rightarrow> nat" where
  "seriesCount P k = length (filter (\<lambda>u. atSeries u = k) P)"

definition inTurn :: "alert_transition list \<Rightarrow> alert_transition \<Rightarrow> bool" where
  "inTurn P t \<longleftrightarrow> (let n = seriesCount P (atSeries t) in
     atKind t = (if even n then Open else Recovery) \<and> atGeneration t = of_nat (n div 2 + 1))"

definition ledgered :: "alert_transition list \<Rightarrow> bool" where
  "ledgered J \<longleftrightarrow> (\<forall>i < length J. inTurn (take i J) (J ! i))"

lemma ledgered_snoc: "ledgered (P @ [t]) \<longleftrightarrow> ledgered P \<and> inTurn P t"
  by (auto simp: ledgered_def less_Suc_eq nth_append)

lemma ledgered_journal: "ledgered (AlertTransitions (alertsAfter es))"
  unfolding ledgered_def
proof (intro allI impI)
  let ?r = "alertsAfter es" let ?J = "AlertTransitions ?r"
  fix i assume i: "i < length ?J"
  let ?k = "atSeries (?J ! i)"
  have J: "?J = take i ?J @ ?J ! i # drop (Suc i) ?J" using i by (rule id_take_nth_drop)
  have "seriesJournal ?r ?k = filter (\<lambda>u. atSeries u = ?k) (take i ?J @ ?J ! i # drop (Suc i) ?J)"
    unfolding J [symmetric] by (simp add: seriesJournal_def AlertTransitions_def)
  then have n: "seriesJournal ?r ?k ! seriesCount (take i ?J) ?k = ?J ! i"
    "seriesCount (take i ?J) ?k < length (seriesJournal ?r ?k)"
    by (simp_all add: seriesCount_def nth_append)
  have "ledgerOk (seriesJournal ?r ?k) (isOpen ?r ?k) (generationOf ?r ?k)"
    using alertsAfter_inv [of es] by (simp add: alertInv_def)
  with n show "inTurn (take i ?J) (?J ! i)" by (auto simp: ledgerOk_def inTurn_def Let_def)
qed

lemma count_snoc: "seriesCount (P @ [t]) k = seriesCount P k + (if atSeries t = k then 1 else 0)"
  by (simp add: seriesCount_def)

lemma count_le: "seriesCount P k \<le> length P"
  by (simp add: seriesCount_def)

subsection \<open>Generations\<close>

lemma toInt64_inject [simp]: "toInt64 v = toInt64 w \<longleftrightarrow> v = w"
proof
  assume "toInt64 v = toInt64 w"
  then have "(int (unat v) + 2 ^ 63) mod 2 ^ 64 = (int (unat w) + 2 ^ 63) mod 2 ^ 64"
    by (simp add: toInt64_def wrap64_def)
  then have "int (unat v) mod 2 ^ 64 = int (unat w) mod 2 ^ 64" by (simp only: mod_eq_dvd_iff add_diff_cancel_right)
  moreover have "int (unat u) mod 2 ^ 64 = int (unat u)" for u :: u64
    using uint_lt2p [of u] by simp
  ultimately show "v = w" by (simp add: word_uint_eq_iff)
qed simp

lemma of_nat_small: "m < 2 ^ 64 \<Longrightarrow> n < 2 ^ 64 \<Longrightarrow> (of_nat m :: u64) = of_nat n \<Longrightarrow> m = n"
  by (simp add: word_of_nat_eq_iff take_bit_nat_eq_self)

text \<open>The generations that a journal opens, and the recoveries in it.\<close>

lemma opened_before:
  assumes "ledgered P"
  shows "{(atSeries u, atGeneration u) | u. u \<in> set P \<and> atKind u = Open} =
      {(k, of_nat (i div 2 + 1)) | k i. i < seriesCount P k \<and> even i} \<and>
    {(atSeries u, atGeneration u) | u. u \<in> set P \<and> atKind u = Recovery} =
      {(k, of_nat (i div 2 + 1)) | k i. i < seriesCount P k \<and> odd i} \<and>
    (\<forall>u \<in> set P. atKind u = Open \<or> atKind u = Recovery)"
  using assms
proof (induction P rule: rev_induct)
  case (snoc t P)
  let ?n = "seriesCount P (atSeries t)"
  from snoc.prems have led: "ledgered P" and t: "inTurn P t" by (simp_all add: ledgered_snoc)
  note ih = snoc.IH [OF led]
  have grow: "{(k, of_nat (i div 2 + 1) :: u64) | k i. i < seriesCount (P @ [t]) k \<and> Q i} =
      {(k, of_nat (i div 2 + 1)) | k i. i < seriesCount P k \<and> Q i} \<union>
      (if Q ?n then {(atSeries t, of_nat (?n div 2 + 1))} else {})" for Q
    by (auto simp: count_snoc less_Suc_eq split: if_splits)
  have ends: "{(atSeries u, atGeneration u) | u. u \<in> set (P @ [t]) \<and> atKind u = K} =
      {(atSeries u, atGeneration u) | u. u \<in> set P \<and> atKind u = K} \<union>
      (if atKind t = K then {(atSeries t, atGeneration t)} else {})" for K
    by auto
  have "atKind t = (if even ?n then Open else Recovery)" "atGeneration t = of_nat (?n div 2 + 1)"
    using t by (simp_all add: inTurn_def Let_def)
  then show ?case unfolding grow ends using ih by simp
qed (simp add: seriesCount_def)

subsection \<open>The book of a journal\<close>

definition entryID :: "book_entry \<Rightarrow> series_key option \<times> int" where
  "entryID e = (fst e, fst (snd e))"

definition entryOpen :: "book_entry \<Rightarrow> bool" where
  "entryOpen e \<longleftrightarrow> fst (snd (snd e)) = GenerationOpen"

lemma book_ids: "map entryID (foldl bookStep [] P) =
    map (\<lambda>u. (Some (atSeries u), toInt64 (atGeneration u))) (filter (\<lambda>u. atKind u = Open) P)"
proof (induction P rule: rev_induct)
  case (snoc t P)
  have "map entryID (bookStep es t) = map entryID es @
      (if atKind t = Open then [(Some (atSeries t), toInt64 (atGeneration t))] else [])" for es
    by (auto simp: bookStep_def entryID_def)
  with snoc show ?case by simp
qed simp

lemma book_open:
  assumes "ledgered P"
  shows "entryID ` {e \<in> set (foldl bookStep [] P). entryOpen e} =
    {(Some k, toInt64 (of_nat ((seriesCount P k + 1) div 2))) | k. odd (seriesCount P k)}"
  using assms
proof (induction P rule: rev_induct)
  case (snoc t P)
  let ?n = "seriesCount P (atSeries t)" and ?B = "foldl bookStep [] P"
  let ?S = "\<lambda>P. {(Some k, toInt64 (of_nat ((seriesCount P k + 1) div 2))) | k. odd (seriesCount P k)}"
  from snoc.prems have led: "ledgered P" and t: "inTurn P t" by (simp_all add: ledgered_snoc)
  have ih: "entryID ` {e \<in> set ?B. entryOpen e} = ?S P" by (rule snoc.IH [OF led])
  have gen: "atKind t = (if even ?n then Open else Recovery)" "atGeneration t = of_nat (?n div 2 + 1)"
    using t by (simp_all add: inTurn_def Let_def)
  show ?case
  proof (cases "even ?n")
    case True
    then have "(?n + 2) div 2 = ?n div 2 + 1" by simp
    then have "?S (P @ [t]) = ?S P \<union> {(Some (atSeries t), toInt64 (of_nat (?n div 2 + 1)))}"
      using True by (auto simp: count_snoc split: if_splits)
    moreover have "entryID ` {e \<in> set (bookStep ?B t). entryOpen e} =
        entryID ` {e \<in> set ?B. entryOpen e} \<union> {(Some (atSeries t), toInt64 (of_nat (?n div 2 + 1)))}"
    proof -
      have "{e \<in> set (bookStep ?B t). entryOpen e} = insert (Some (atSeries t), toInt64 (of_nat (?n div 2 + 1)),
          GenerationOpen, micros (atAt t), None) {e \<in> set ?B. entryOpen e}"
        using True gen by (auto simp: bookStep_def entryOpen_def)
      then show ?thesis by (simp add: entryID_def)
    qed
    ultimately show ?thesis using ih by simp
  next
    case False
    then have half: "(?n + 1) div 2 = ?n div 2 + 1" by simp
    then have "?S (P @ [t]) = ?S P - {(Some (atSeries t), toInt64 (of_nat (?n div 2 + 1)))}"
      using False by (auto simp: count_snoc split: if_splits)
    moreover have "entryID ` {e \<in> set (bookStep ?B t). entryOpen e} =
        entryID ` {e \<in> set ?B. entryOpen e} - {(Some (atSeries t), toInt64 (of_nat (?n div 2 + 1)))}"
    proof -
      have "{e \<in> set (bookStep ?B t). entryOpen e} =
          {e \<in> set ?B. entryOpen e \<and> entryID e \<noteq> (Some (atSeries t), toInt64 (of_nat (?n div 2 + 1)))}"
        using False gen by (auto simp: bookStep_def entryID_def entryOpen_def split: if_splits intro: rev_image_eqI)
      then show ?thesis by auto
    qed
    ultimately show ?thesis using ih by simp
  qed
qed (simp add: seriesCount_def)

subsection \<open>Every journal is accepted\<close>

lemma turn_fresh:
  assumes led: "ledgered P" and t: "inTurn P t" and "length P < 2 ^ 64 - 1" and u: "u \<in> set P"
  shows "\<not> (atSeries u = atSeries t \<and> atGeneration u = atGeneration t \<and> atKind u = atKind t)"
proof
  let ?n = "seriesCount P (atSeries t)"
  assume eq: "atSeries u = atSeries t \<and> atGeneration u = atGeneration t \<and> atKind u = atKind t"
  have gen: "atKind t = (if even ?n then Open else Recovery)" "atGeneration t = of_nat (?n div 2 + 1)"
    using t by (simp_all add: inTurn_def Let_def)
  note before = opened_before [OF led]
  have "\<exists>i. i < ?n \<and> even i = even ?n \<and> atGeneration t = of_nat (i div 2 + 1)"
  proof (cases "even ?n")
    case True
    then have "atKind u = Open" using gen(1) eq by simp
    then have "(atSeries u, atGeneration u) \<in> {(atSeries u, atGeneration u) | u. u \<in> set P \<and> atKind u = Open}"
      using u by blast
    with before True eq show ?thesis by auto
  next
    case False
    then have "atKind u = Recovery" using gen(1) eq by simp
    then have "(atSeries u, atGeneration u) \<in> {(atSeries u, atGeneration u) | u. u \<in> set P \<and> atKind u = Recovery}"
      using u by blast
    with before False eq show ?thesis by auto
  qed
  then obtain i where i: "i < ?n" "even i = even ?n" "of_nat (i div 2 + 1) = (of_nat (?n div 2 + 1) :: u64)"
    using gen(2) by auto
  have "?n < 2 ^ 64 - 1" using count_le [of P "atSeries t"] assms(3) by (rule le_less_trans)
  then have "i div 2 + 1 < 2 ^ 64" "?n div 2 + 1 < 2 ^ 64" using i(1) by linarith+
  from of_nat_small [OF this i(3)] have "i div 2 = ?n div 2" by simp
  with i(1,2) show False by (metis even_two_times_div_two odd_two_times_div_two_succ less_irrefl)
qed

lemma recovery_opened:
  assumes led: "ledgered P" and t: "inTurn P t" and "atKind t \<noteq> Open"
  shows "\<exists>u \<in> set P. atKind u = Open \<and> atSeries u = atSeries t \<and> atGeneration u = atGeneration t"
proof -
  let ?n = "seriesCount P (atSeries t)"
  have n: "odd ?n" "atGeneration t = of_nat (?n div 2 + 1)" using t assms(3) by (auto simp: inTurn_def Let_def split: if_splits)
  then have "?n - 1 < ?n" "even (?n - 1)" "(?n - 1) div 2 = ?n div 2" by (auto elim: oddE)
  then have "(atSeries t, atGeneration t) \<in> {(k, of_nat (i div 2 + 1)) | k i. i < seriesCount P k \<and> even i}"
    using n(2) by (metis (mono_tags, lifting) mem_Collect_eq)
  then have "(atSeries t, atGeneration t) \<in> {(atSeries u, atGeneration u) | u. u \<in> set P \<and> atKind u = Open}"
    using opened_before [OF led] by simp
  then show ?thesis by auto
qed

definition seriesKindOk :: "alert_transition \<Rightarrow> bool" where
  "seriesKindOk t \<longleftrightarrow> skSubjectKind (atSeries t) = ''queue'' \<or> skSubjectKind (atSeries t) = ''agent''"

lemma entryID_book: "entryID ` set (alertBook db) = (\<lambda>g. (seriesKeyAt db (grwSeriesID g), grwGeneration g)) ` set (alGenerations db)"
  by (auto simp: alertBook_def entryID_def image_iff)

lemma persistAlert_accepts:
  assumes ok: "rowsOk db" and book: "alertBook db = foldl bookStep [] P" and lg: "alertLog db = map logEntry P"
    and led: "ledgered P" and t: "inTurn P t" and small: "length P < 2 ^ 64 - 1" and kind: "seriesKindOk t"
  shows "\<exists>r. persistAlert t db = Inr r"
proof -
  let ?gen = "toInt64 (atGeneration t)" and ?k = "atSeries t"
  obtain db1 sid where u: "upsertSeries ?k db = Inr (db1, sid)"
    using kind by (cases "find (\<lambda>r. asrKey r = ?k) (alSeries db)") (auto simp: upsertSeries_def seriesKindOk_def)
  note one = upsertSeries_effect [OF ok u]
  then have ok1: "rowsOk db1" and k1: "seriesKeyAt db1 sid = Some ?k" and s1: "sid \<in> asrID ` set (alSeries db1)" by blast+
  have ids: "(\<lambda>g. (seriesKeyAt db1 (grwSeriesID g), grwGeneration g)) ` set (alGenerations db1) =
      (\<lambda>u. (Some (atSeries u), toInt64 (atGeneration u))) ` {u \<in> set P. atKind u = Open}"
    using one arg_cong [OF book_ids [of P], of set] unfolding entryID_book [symmetric] by (simp add: book)
  have at: "generationAt sid ?gen g \<longleftrightarrow> (seriesKeyAt db1 (grwSeriesID g), grwGeneration g) = (Some ?k, ?gen)" for g
    unfolding generationAt_def using seriesKeyAt_inject [OF ok1 _ k1, of "grwSeriesID g"] k1 by auto
  have found: "(\<exists>g \<in> set (alGenerations db1). generationAt sid ?gen g) \<longleftrightarrow>
      (\<exists>u \<in> set P. atKind u = Open \<and> atSeries u = ?k \<and> atGeneration u = atGeneration t)"
  proof -
    have "(\<exists>g \<in> set (alGenerations db1). generationAt sid ?gen g) \<longleftrightarrow>
        (Some ?k, ?gen) \<in> (\<lambda>g. (seriesKeyAt db1 (grwSeriesID g), grwGeneration g)) ` set (alGenerations db1)"
      by (simp only: at image_iff eq_commute [of "(Some ?k, ?gen)"])
    then show ?thesis unfolding ids by (auto simp: image_iff)
  qed
  obtain db2 gid where g: "(if atKind t = Open then openGeneration sid ?gen (atAt t) db1
      else recoverGeneration sid ?gen (atAt t) db1) = Inr (db2, gid)"
  proof (cases "atKind t = Open")
    case True
    then have "\<not> (\<exists>g \<in> set (alGenerations db1). generationAt sid ?gen g)"
      unfolding found using turn_fresh [OF led t small] by auto
    with True that show ?thesis by (auto simp: openGeneration_def)
  next
    case False
    then have "\<exists>g \<in> set (alGenerations db1). generationAt sid ?gen g"
      unfolding found using recovery_opened [OF led t] by auto
    then have "find (generationAt sid ?gen) (alGenerations db1) \<noteq> None" by (auto simp: find_None_iff)
    with False that show ?thesis by (auto simp: recoverGeneration_def)
  qed
  have two: "alertLog db2 = alertLog db1 \<and> generationShown db2 gid = Some (Some ?k, ?gen)"
    using g openGeneration_effect [OF ok1 _ k1 s1] recoverGeneration_effect [OF ok1 _ k1] by (auto split: if_splits)
  have "\<not> (\<exists>x \<in> set (alTransitions db2). xrwGenerationID x = gid \<and> xrwType x = kindString (atKind t))"
  proof
    assume "\<exists>x \<in> set (alTransitions db2). xrwGenerationID x = gid \<and> xrwType x = kindString (atKind t)"
    then obtain at' where "(Some (Some ?k, ?gen), kindString (atKind t), at') \<in> set (alertLog db2)"
      using two by (force simp: alertLog_def)
    then have "(Some (Some ?k, ?gen), kindString (atKind t), at') \<in> logEntry ` set P" using one two lg by simp
    then obtain u where u: "u \<in> set P" "atSeries u = ?k" "atGeneration u = atGeneration t" "kindString (atKind u) = kindString (atKind t)"
      by (auto simp: logEntry_def)
    moreover have "atKind u = Open \<or> atKind u = Recovery" using opened_before [OF led] u(1) by blast
    moreover have "atKind t = Open \<or> atKind t = Recovery" using t by (auto simp: inTurn_def Let_def split: if_splits)
    ultimately have "atKind u = atKind t" by (auto simp: kindString_def split: if_splits)
    with turn_fresh [OF led t small u(1)] u show False by blast
  qed
  then show ?thesis using u g by (auto simp: persistAlert_def insertTransition_def)
qed

lemma persistAlerts_append:
  "persistAlerts (P @ Q) db = (case persistAlerts P db of Inl err \<Rightarrow> Inl err | Inr db' \<Rightarrow> persistAlerts Q db')"
  by (induction P arbitrary: db) (auto split: sum.split prod.split)

lemma persistAlerts_journal:
  assumes "ledgered P" and "length P < 2 ^ 64" and "list_all seriesKindOk P"
  shows "\<exists>db. persistAlerts P emptyAlerts = Inr db \<and> rowsOk db \<and> alertBook db = foldl bookStep [] P \<and>
    alertLog db = map logEntry P"
  using assms
proof (induction P rule: rev_induct)
  case (snoc t P)
  from snoc.prems have led: "ledgered P" and t: "inTurn P t" and kind: "seriesKindOk t" by (simp_all add: ledgered_snoc)
  from snoc.prems(2) have small: "length P < 2 ^ 64 - 1" by simp
  obtain db where db: "persistAlerts P emptyAlerts = Inr db" "rowsOk db" "alertBook db = foldl bookStep [] P"
    "alertLog db = map logEntry P" using snoc.IH [OF led] snoc.prems by auto
  from persistAlert_accepts [OF db(2-4) led t small kind] obtain db' gid tid where p: "persistAlert t db = Inr (db', gid, tid)"
    by auto
  from persistAlert_effect [OF db(2) p] db p show ?case by (simp add: persistAlerts_append)
qed (simp add: rowsOk_empty, simp add: alertBook_def alertLog_def emptyAlerts_def)

text \<open>The durable alerts refine the alert reducer: whatever happens to the reducer, storing its
  journal never fails, the stored transitions are those of the journal, in their order and each
  under its series and generation, and the generations that the database holds as open are
  exactly the current generations of the series that are open in the reducer.\<close>

theorem stored_alerts_mirror_reducer:
  assumes "length (AlertTransitions (alertsAfter es)) < 2 ^ 64"
    and "list_all seriesKindOk (AlertTransitions (alertsAfter es))"
  shows "let r = alertsAfter es in \<exists>db. persistAlerts (AlertTransitions r) emptyAlerts = Inr db \<and>
    alertLog db = map logEntry (AlertTransitions r) \<and>
    entryID ` {e \<in> set (alertBook db). entryOpen e} = {(Some k, toInt64 (generationOf r k)) | k. isOpen r k}"
proof -
  let ?r = "alertsAfter es" and ?J = "AlertTransitions (alertsAfter es)"
  obtain db where db: "persistAlerts ?J emptyAlerts = Inr db" "alertBook db = foldl bookStep [] ?J" "alertLog db = map logEntry ?J"
    using persistAlerts_journal [OF ledgered_journal assms] by blast
  have "ledgerOk (seriesJournal ?r k) (isOpen ?r k) (generationOf ?r k)" for k
    using alertsAfter_inv [of es] by (simp add: alertInv_def)
  then have "odd (seriesCount ?J k) = isOpen ?r k \<and> generationOf ?r k = of_nat ((seriesCount ?J k + 1) div 2)" for k
    by (simp add: ledgerOk_def seriesCount_def seriesJournal_def AlertTransitions_def)
  then have "entryID ` {e \<in> set (alertBook db). entryOpen e} = {(Some k, toInt64 (generationOf ?r k)) | k. isOpen ?r k}"
    unfolding db(2) book_open [OF ledgered_journal] by simp
  with db show ?thesis unfolding Let_def by blast
qed

definition demoAlertInputs :: "alert_input list" where
  "demoAlertInputs = (let start = (\<lambda>i. InStart \<lparr>aeID = i, aeSeries = SeriesKey ''r'' ''queue'' ''q1'', aeRevision = 1,
       aeOpened = True, aeAt = 5000, aeEffectiveAt = 5000, aeEvidenceAt = 5000\<rparr>)
     in [start ''e1'', InClear ''e1'' (SeriesKey ''r'' ''queue'' ''q1'') 7000 7000 7000, start ''e2''])"

theorem stored_alerts_mirror_reducer_witness:
  "let r = alertsAfter demoAlertInputs in length (AlertTransitions r) = 3 \<and>
     (\<exists>db. persistAlerts (AlertTransitions r) emptyAlerts = Inr db \<and>
       entryID ` {e \<in> set (alertBook db). entryOpen e} = {(Some k, toInt64 (generationOf r k)) | k. isOpen r k})"
proof -
  have "length (AlertTransitions (alertsAfter demoAlertInputs)) = 3" by code_simp
  moreover have "list_all seriesKindOk (AlertTransitions (alertsAfter demoAlertInputs))" by code_simp
  ultimately show ?thesis using stored_alerts_mirror_reducer [of demoAlertInputs] by (auto simp: Let_def)
qed

end
