(* ===== verification/OccurrenceStoreProps.thy ===== *)
theory OccurrenceStoreProps
  imports OccurrenceStore
begin

text \<open>
  Admission and processing as a state machine: an occurrence is admitted once, whatever is
  submitted again, every pending occurrence is handed out once and the earliest first, and the
  clock is the greatest time it was advanced to.
\<close>

subsection \<open>Runs\<close>

datatype occurrence_op = OpInsert occurrence_input | OpEnsure int | OpMark int | OpNext | OpAdvance gotime

datatype occurrence_effect = Admitted int bool | HandedOut pending_occurrence | ClockAt gotime

fun occurrenceStep ::
  "(string \<Rightarrow> string) \<Rightarrow> (string \<Rightarrow> string) \<Rightarrow> occurrence_tables \<Rightarrow> occurrence_op
     \<Rightarrow> occurrence_tables \<times> occurrence_effect list"
where
  "occurrenceStep digest jsonb db (OpInsert oc) = (case WithTx (InsertOccurrence digest jsonb oc) db of
       (db', Inr (i, inserted)) \<Rightarrow> (db', [Admitted i inserted]) | (db', Inl err) \<Rightarrow> (db', []))"
| "occurrenceStep digest jsonb db (OpEnsure i) = (fst (WithTx (EnsureProcessing i) db), [])"
| "occurrenceStep digest jsonb db (OpMark i) = (fst (WithTx (MarkProcessed i) db), [])"
| "occurrenceStep digest jsonb db OpNext = (case WithTx NextPendingOccurrence db of
       (db', Inr (Some p)) \<Rightarrow> (db', [HandedOut p]) | (db', _) \<Rightarrow> (db', []))"
| "occurrenceStep digest jsonb db (OpAdvance now) = (case WithTx (AdvanceClock now) db of
       (db', Inr t) \<Rightarrow> (db', [ClockAt t]) | (db', Inl err) \<Rightarrow> (db', []))"

definition emptyOccurrences :: occurrence_tables where
  "emptyOccurrences = \<lparr>otOccurrences = [], otProcessing = Map.empty,
     otClock = \<lparr>LogicalNow = None, GreatestObservedAt = None\<rparr>, otNextID = 1\<rparr>"

subsection \<open>What the operations do\<close>

interpretation ingest_order: key_order "\<lambda>a b. orwIngestPosition a < orwIngestPosition b" orwIngestPosition
  by unfold_locales simp

lemma Next_cases:
  obtains (none) "filter (isPending db) (otOccurrences db) = []" "NextPendingOccurrence db = Inr (db, None)"
  | (first) r p where "r \<in> set (otOccurrences db)" "otProcessing db (orwID r) = Some p" "prwStatus p = ProcessingPending"
      "\<forall>q \<in> set (otOccurrences db). isPending db q \<longrightarrow> orwIngestPosition r \<le> orwIngestPosition q"
      "NextPendingOccurrence db = Inr (db\<lparr>otProcessing := (otProcessing db)(orwID r \<mapsto>
          p\<lparr>prwStatus := ProcessingActive, prwAttempts := prwAttempts p + 1\<rparr>)\<rparr>,
        Some \<lparr>poID = orwID r, poIngestPosition = orwIngestPosition r, poEffectiveAt = orwEffectiveAt r,
          poPayload = orwPayload r\<rparr>)"
proof -
  let ?s = "sort_by (\<lambda>a b. orwIngestPosition a < orwIngestPosition b) (filter (isPending db) (otOccurrences db))"
  have set_s: "set ?s = {r \<in> set (otOccurrences db). isPending db r}" by (auto simp: ingest_order.set_sort_by)
  show ?thesis
  proof (cases ?s)
    case Nil
    then have "filter (isPending db) (otOccurrences db) = []" using set_s by (auto simp: filter_empty_conv)
    then show ?thesis by (rule none) (simp add: NextPendingOccurrence_def Nil)
  next
    case (Cons r rs)
    then have r: "r \<in> set (otOccurrences db)" "isPending db r" using set_s by auto
    then obtain p where p: "otProcessing db (orwID r) = Some p" "prwStatus p = ProcessingPending"
      by (auto simp: isPending_def split: option.splits)
    have "\<forall>q \<in> set ?s. orwIngestPosition r \<le> orwIngestPosition q"
      using ingest_order.sorted_sort_by [of "filter (isPending db) (otOccurrences db)"] unfolding Cons by auto
    then have "\<forall>q \<in> set (otOccurrences db). isPending db q \<longrightarrow> orwIngestPosition r \<le> orwIngestPosition q"
      using set_s by auto
    then show ?thesis by (rule first [OF r(1) p]) (simp add: NextPendingOccurrence_def Cons p)
  qed
qed

text \<open>Rows are only added; a processing row only leaves the pending state.\<close>

definition grows :: "occurrence_tables \<Rightarrow> occurrence_tables \<Rightarrow> bool" where
  "grows db db' \<longleftrightarrow> (\<exists>rows. otOccurrences db' = otOccurrences db @ rows) \<and>
     (\<forall>i p. otProcessing db i = Some p \<longrightarrow> (\<exists>q. otProcessing db' i = Some q \<and>
        (prwStatus p \<noteq> ProcessingPending \<longrightarrow> prwStatus q \<noteq> ProcessingPending)))"

lemma grows_refl [simp]: "grows db db"
  by (auto simp: grows_def)

lemma grows_trans: "grows a b \<Longrightarrow> grows b c \<Longrightarrow> grows a c"
  unfolding grows_def by (metis append_assoc)

lemma step_grows: "grows db (fst (occurrenceStep digest jsonb db op))"
proof (cases op)
  case (OpInsert oc)
  then show ?thesis
    by (cases "admittedRow (ocSource oc) (ocIdempotencyKey oc) db")
      (auto simp: WithTx_def InsertOccurrence_def grows_def)
next
  case (OpEnsure i)
  then show ?thesis by (auto simp: WithTx_def EnsureProcessing_def grows_def)
next
  case (OpMark i)
  then show ?thesis
    by (cases "otProcessing db i") (auto simp: WithTx_def MarkProcessed_def grows_def)
next
  case OpNext
  then show ?thesis by (cases rule: Next_cases [of db]) (auto simp: WithTx_def grows_def)
next
  case (OpAdvance now)
  then show ?thesis by (simp add: WithTx_def AdvanceClock_def grows_def Let_def)
qed

lemma run_grows: "grows db (fst (run (occurrenceStep digest jsonb) db ops))"
proof (induction ops arbitrary: db)
  case (Cons op ops)
  from grows_trans [OF step_grows [of db digest jsonb op] Cons.IH] show ?case
    by (simp add: case_prod_beta Let_def)
qed simp

subsection \<open>Properties\<close>

text \<open>C32. Admission is idempotent, but only for times in whole microseconds: an occurrence that was
  admitted and is submitted again, after anything, is found under its identifier and changes
  nothing if its effective time is a whole number of microseconds; otherwise the stored time
  differs from the submitted one and the occurrence is refused as different.\<close>

theorem occurrence_admission_idempotent:
  assumes "InsertOccurrence digest jsonb oc (fst (run (occurrenceStep digest jsonb) emptyOccurrences ops)) = Inr (db, i, True)"
  shows "InsertOccurrence digest jsonb oc (fst (run (occurrenceStep digest jsonb) db later)) =
    (if ocEffectiveAt oc mod 1000 = 0 then Inr (fst (run (occurrenceStep digest jsonb) db later), i, False)
     else Inl (OccurrenceDiffers (ocIdempotencyKey oc)))"
proof -
  let ?db0 = "fst (run (occurrenceStep digest jsonb) emptyOccurrences ops)"
  let ?db2 = "fst (run (occurrenceStep digest jsonb) db later)"
  have fresh: "admittedRow (ocSource oc) (ocIdempotencyKey oc) ?db0 = None" and i: "i = otNextID ?db0"
    and db: "otOccurrences db = otOccurrences ?db0 @ [occurrenceRow digest jsonb i oc]"
    using assms by (auto simp: InsertOccurrence_def split: if_splits option.splits)
  obtain rows where "otOccurrences ?db2 = otOccurrences ?db0 @ occurrenceRow digest jsonb i oc # rows"
    using run_grows [of db digest jsonb later] db by (auto simp: grows_def)
  moreover have "find P (xs @ y # ys) = Some y" if "find P xs = None" "P y" for P and xs ys :: "occurrence_row list" and y
    using that by (induction xs) (auto split: if_splits)
  ultimately have "admittedRow (ocSource oc) (ocIdempotencyKey oc) ?db2 = Some (occurrenceRow digest jsonb i oc)"
    using fresh by (simp add: admittedRow_def occurrenceRow_def)
  then show ?thesis
    by (auto simp: InsertOccurrence_def occurrenceRow_def samePosition_def micros_eq_iff)
qed

definition demoAdmission :: "gotime \<Rightarrow> occurrence_input" where
  "demoAdmission t = \<lparr>ocSource = ''demo'', ocSourceEventID = ''e'', ocStreamPosition = Some 1,
     ocIdempotencyKey = ''s:1'', ocEffectiveAt = t, ocPayload = ''{}''\<rparr>"

theorem occurrence_admission_idempotent_witness:
  "snd (projr (InsertOccurrence id id (demoAdmission 5000) (fst (run (occurrenceStep id id) emptyOccurrences
      [OpInsert (demoAdmission 5000)])))) = (1, False) \<and>
   InsertOccurrence id id (demoAdmission 5001) (fst (run (occurrenceStep id id) emptyOccurrences
      [OpInsert (demoAdmission 5001)])) = Inl (OccurrenceDiffers ''s:1'')"
proof -
  have first: "InsertOccurrence id id (demoAdmission t) (fst (run (occurrenceStep id id) emptyOccurrences [])) =
      Inr (fst (run (occurrenceStep id id) emptyOccurrences [OpInsert (demoAdmission t)]), 1, True)" for t
    by (simp add: InsertOccurrence_def WithTx_def emptyOccurrences_def admittedRow_def)
  from occurrence_admission_idempotent [OF first, of 5000 "[]"] occurrence_admission_idempotent [OF first, of 5001 "[]"]
  show ?thesis by (simp add: demoAdmission_def)
qed

fun handedID :: "occurrence_effect \<Rightarrow> int option" where
  "handedID (HandedOut p) = Some (poID p)"
| "handedID (Admitted i inserted) = None"
| "handedID (ClockAt t) = None"

definition handled :: "int \<Rightarrow> occurrence_tables \<Rightarrow> bool" where
  "handled i db \<longleftrightarrow> (\<exists>p. otProcessing db i = Some p \<and> prwStatus p \<noteq> ProcessingPending)"

lemma handed_effect:
  assumes "out \<in> set (snd (occurrenceStep digest jsonb db op))" and "handedID out = Some i"
  shows "op = OpNext" and "\<not> handled i db" and "handled i (fst (occurrenceStep digest jsonb db op))"
proof -
  obtain p where out: "out = HandedOut p" "poID p = i" using assms(2) by (cases out) auto
  show op: "op = OpNext"
    using assms(1) out(1) by (cases op) (auto simp: WithTx_def split: sum.splits prod.splits)
  show "\<not> handled i db" "handled i (fst (occurrenceStep digest jsonb db op))"
    using assms(1) out unfolding op
    by (cases rule: Next_cases [of db]; auto simp: WithTx_def handled_def)+
qed

interpretation hand_out_machine: once_machine "occurrenceStep digest jsonb" "\<lambda>db. True" handedID handled
  for digest jsonb
proof
  fix db i op out
  show "handled i db \<Longrightarrow> handled i (fst (occurrenceStep digest jsonb db op))"
    using step_grows [of db digest jsonb op] by (fastforce simp: handled_def grows_def)
  show "handled i db \<Longrightarrow> out \<in> set (snd (occurrenceStep digest jsonb db op)) \<Longrightarrow> handedID out \<noteq> Some i"
    using handed_effect(2) by blast
  show "out \<in> set (snd (occurrenceStep digest jsonb db op)) \<Longrightarrow> handedID out = Some i \<Longrightarrow>
      handled i (fst (occurrenceStep digest jsonb db op))"
    by (rule handed_effect(3))
  show "distinct (List.map_filter handedID (snd (occurrenceStep digest jsonb db op)))"
    by (cases op) (auto simp: List.map_filter_def WithTx_def split: sum.split prod.split option.split)
qed simp

text \<open>Every accepted occurrence is handed out for processing at most once, and always the one that was
  ingested first among the pending; a worker that finds none has nothing left to do.\<close>

theorem occurrence_handed_out_once:
  "distinct (List.map_filter handedID (snd (run (occurrenceStep digest jsonb) db ops))) \<and>
   (case NextPendingOccurrence db of
      Inl err \<Rightarrow> False
    | Inr (db', None) \<Rightarrow> filter (isPending db) (otOccurrences db) = []
    | Inr (db', Some p) \<Rightarrow> list_all (\<lambda>r. poIngestPosition p \<le> orwIngestPosition r) (filter (isPending db) (otOccurrences db)))"
  using hand_out_machine.emitted_once [OF TrueI]
  by (cases rule: Next_cases [of db]) (auto simp: list_all_iff)

end
