(* ===== verification/DurableProjectionsProps.thy ===== *)
theory DurableProjectionsProps
  imports DurableProjections ReplayProps
begin

text \<open>
  The durable projections refine the projection builder: the current rows of the database show
  what the builder's live states show, as long as the times are whole microseconds.
\<close>

subsection \<open>One source\<close>

text \<open>
  What a source needs for that: its rows with their identifier and occurrence, the provenance of
  its live states, and what of a row and of a lv state is compared.
\<close>

locale durable_pointer =
  fixes rid :: "'r \<Rightarrow> int" and rocc :: "'r \<Rightarrow> int" and rvalue :: "'r \<Rightarrow> 'v"
    and sprov :: "'s \<Rightarrow> provenance" and svalue :: "'s \<Rightarrow> 'v" and reff :: "'r \<Rightarrow> gotime"
  assumes value_time: "rvalue r = svalue s \<Longrightarrow> reff r = pvEffectiveAt (sprov s)"
begin

definition rowShown :: "'r list \<Rightarrow> current_row \<Rightarrow> 'v option" where
  "rowShown rows c = map_option rvalue (find (\<lambda>r. rid r = crwObservationID c) rows)"

definition keyAgrees :: "int \<Rightarrow> u64 \<Rightarrow> 'r list \<Rightarrow> current_row option \<Rightarrow> 's option \<Rightarrow> bool" where
  "keyAgrees p n rows c s \<longleftrightarrow> (case (c, s) of (None, None) \<Rightarrow> True
     | (Some x, Some y) \<Rightarrow> crwStreamPosition x \<le> p \<and> pvIngestPosition (sprov y) \<le> n \<and>
         crwEffectiveAt x = pvEffectiveAt (sprov y) \<and> rowShown rows x = Some (svalue y)
     | _ \<Rightarrow> False)"

definition agrees ::
  "(int \<Rightarrow> int option) \<Rightarrow> int \<Rightarrow> u64 \<Rightarrow> 'r list \<Rightarrow> (string \<rightharpoonup> current_row) \<Rightarrow> (string \<rightharpoonup> 's) \<Rightarrow> bool"
where
  "agrees ingest p n rows cur lv \<longleftrightarrow>
     (\<forall>r \<in> set rows. rid r \<le> int (length rows) \<and> (\<exists>q \<le> p. ingest (rocc r) = Some q)) \<and>
     (\<forall>k. keyAgrees p n rows (cur k) (lv k))"

lemma agrees_start: "agrees ingest p n [] Map.empty Map.empty"
  by (simp add: agrees_def keyAgrees_def)

lemma keyAgrees_mono: "keyAgrees p n rows c s \<Longrightarrow> p \<le> p' \<Longrightarrow> n \<le> n' \<Longrightarrow> keyAgrees p' n' rows c s"
  by (auto simp: keyAgrees_def split: option.splits)

lemma agrees_mono: "agrees ingest p n rows cur lv \<Longrightarrow> p \<le> p' \<Longrightarrow> n \<le> n' \<Longrightarrow> agrees ingest p' n' rows cur lv"
  unfolding agrees_def by (meson keyAgrees_mono order_trans)

lemma agrees_insert:
  assumes "agrees ingest p n rows cur lv" and "ingest (rocc new) = Some p'" and "p < p'"
  shows "insertRow rocc new rows = (rows @ [new], new)"
proof -
  have "find (\<lambda>r. rocc r = rocc new) rows = None"
    using assms by (fastforce simp: agrees_def find_None_iff)
  then show ?thesis by (simp add: insertRow_def)
qed

lemma rowShown_append: "rowShown rows c = Some v \<Longrightarrow> rowShown (rows @ [new]) c = Some v"
  by (induction rows) (auto simp: rowShown_def)

lemma keyAgrees_append: "keyAgrees p n rows c s \<Longrightarrow> keyAgrees p n (rows @ [new]) c s"
  using rowShown_append by (auto simp: keyAgrees_def split: option.splits)

lemma agrees_advance:
  assumes ag: "agrees ingest p n rows cur lv"
    and new: "ingest (rocc new) = Some p'" "rid new = int (length rows) + 1" "rvalue new = svalue cand"
    and later: "p < p'" "n < pvIngestPosition (sprov cand)"
  shows "agrees ingest p' (pvIngestPosition (sprov cand)) (rows @ [new])
    (fst (advanceCurrent k \<lparr>crwObservationID = rid new, crwEffectiveAt = reff new, crwStreamPosition = p'\<rparr> cur))
    (lv(k := (case lv k of None \<Rightarrow> Some cand
       | Some old \<Rightarrow> if newer (sprov cand) (sprov old) then Some cand else Some old)))"
proof -
  let ?c = "\<lparr>crwObservationID = rid new, crwEffectiveAt = reff new, crwStreamPosition = p'\<rparr>"
  have rows: "\<forall>r \<in> set rows. rid r \<le> int (length rows) \<and> (\<exists>q \<le> p. ingest (rocc r) = Some q)"
    and keys: "\<And>i. keyAgrees p n rows (cur i) (lv i)"
    using ag by (auto simp: agrees_def)
  have "find (\<lambda>r. rid r = rid new) rows = None" using rows new(2) by (fastforce simp: find_None_iff)
  then have "find (\<lambda>r. rid r = rid new) (rows @ [new]) = Some new" by (induction rows) (auto split: if_splits)
  then have shown: "rowShown (rows @ [new]) ?c = Some (svalue cand)" by (simp add: rowShown_def new(3))
  have time: "reff new = pvEffectiveAt (sprov cand)" by (rule value_time [OF new(3)])
  have fresh: "keyAgrees p' (pvIngestPosition (sprov cand)) (rows @ [new]) (Some ?c) (Some cand)"
    by (simp add: keyAgrees_def shown time [symmetric])
  have old: "keyAgrees p' (pvIngestPosition (sprov cand)) (rows @ [new]) (cur i) (lv i)" for i
    using keyAgrees_mono [OF keyAgrees_append [OF keys]] later by simp
  have "keyAgrees p' (pvIngestPosition (sprov cand)) (rows @ [new]) (fst (advanceCurrent k ?c cur) k)
      (case lv k of None \<Rightarrow> Some cand
       | Some old \<Rightarrow> if newer (sprov cand) (sprov old) then Some cand else Some old)"
  proof (cases "lv k")
    case None
    then have "cur k = None" using keys [of k] by (auto simp: keyAgrees_def split: option.splits)
    with fresh show ?thesis by (simp add: None advanceCurrent_def)
  next
    case (Some s)
    then obtain c where c: "cur k = Some c" "crwStreamPosition c \<le> p" "pvIngestPosition (sprov s) \<le> n"
      "crwEffectiveAt c = pvEffectiveAt (sprov s)"
      using keys [of k] by (auto simp: keyAgrees_def split: option.splits)
    have "newer (sprov cand) (sprov s) \<longleftrightarrow> crwEffectiveAt c \<le> reff new"
      using c(3,4) later(2) by (auto simp: newer_def time)
    with fresh old [of k] c later(1) show ?thesis by (auto simp: Some advanceCurrent_def)
  qed
  moreover have "fst (advanceCurrent k ?c cur) i = cur i" if "i \<noteq> k" for i
    using that by (simp add: advanceCurrent_def split: option.split)
  ultimately have "keyAgrees p' (pvIngestPosition (sprov cand)) (rows @ [new]) (fst (advanceCurrent k ?c cur) i)
      ((lv(k := (case lv k of None \<Rightarrow> Some cand
       | Some old \<Rightarrow> if newer (sprov cand) (sprov old) then Some cand else Some old))) i)" for i
    using old [of i] by (cases "i = k") simp_all
  moreover have "rid r \<le> int (length (rows @ [new])) \<and> (\<exists>q \<le> p'. ingest (rocc r) = Some q)" if "r \<in> set (rows @ [new])" for r
    using that rows new(1,2) later(1) by fastforce
  ultimately show ?thesis by (simp add: agrees_def)
qed

lemma agrees_advance':
  assumes "agrees ingest p n rows cur lv" and "ingest (rocc new) = Some p'" "rid new = int (length rows) + 1"
    and "rvalue new = svalue cand" and "p < p'" and "n < pvIngestPosition pv" and "sprov cand = pv"
  shows "agrees ingest p' (pvIngestPosition pv) (rows @ [new])
    (fst (advanceCurrent k \<lparr>crwObservationID = rid new, crwEffectiveAt = reff new, crwStreamPosition = p'\<rparr> cur))
    (lv(k := (case lv k of None \<Rightarrow> Some cand | Some old \<Rightarrow> if newer pv (sprov old) then Some cand else Some old)))"
  using agrees_advance [OF assms(1-5)] assms(6) unfolding assms(7) .

lemma agrees_shown: "agrees ingest p n rows cur lv \<Longrightarrow> Option.bind (cur k) (rowShown rows) = map_option svalue (lv k)"
proof -
  assume "agrees ingest p n rows cur lv"
  then have "keyAgrees p n rows (cur k) (lv k)" by (simp add: agrees_def)
  then show ?thesis by (auto simp: keyAgrees_def split: option.splits)
qed

end

subsection \<open>The three sources\<close>

definition queueRowValue :: "queue_row \<Rightarrow> gotime \<times> int list \<times> int option" where
  "queueRowValue r = (qrwEffectiveAt r, [qrwTicketsWaiting r, qrwLongestWaitSec r, qrwSLATargetSec r,
     qrwAgentsAvailable r, qrwAgentsOnCall r, qrwVolumeLast15m r], qrwVolumeForecastNext15m r)"

definition queueValue :: "queue_state \<Rightarrow> gotime \<times> int list \<times> int option" where
  "queueValue s = (pvEffectiveAt (quProvenance s), map toInt64 [quTicketsWaiting s, quLongestWaitSec s,
     quSLATargetSec s, quAgentsAvailable s, quAgentsOnCall s, quVolumeLast15m s], uint64p (quVolumeForecastNext15m s))"

definition agentRowValue :: "agent_row \<Rightarrow> gotime \<times> string" where
  "agentRowValue r = (arwEffectiveAt r, arwNewState r)"

definition agentValue :: "agent_source_state \<Rightarrow> gotime \<times> string" where
  "agentValue s = (pvEffectiveAt (agProvenance s), agCurrent s)"

definition adherenceRowValue :: "adherence_row \<Rightarrow> gotime \<times> string \<times> string \<times> bool \<times> gotime option" where
  "adherenceRowValue r = (hrwEffectiveAt r, hrwScheduledState r, hrwActualState r, hrwInViolation r, hrwViolationStartedAt r)"

definition adherenceValue :: "adherence_state \<Rightarrow> gotime \<times> string \<times> string \<times> bool \<times> gotime option" where
  "adherenceValue s = (pvEffectiveAt (ahProvenance s), ahScheduledState s, ahActualState s, ahInViolation s,
     map_option micros (ahViolationStartedAt s))"

interpretation queue_rows: durable_pointer qrwID qrwOccurrenceID queueRowValue quProvenance queueValue qrwEffectiveAt
  by unfold_locales (simp add: queueRowValue_def queueValue_def)

interpretation agent_rows: durable_pointer arwID arwOccurrenceID agentRowValue agProvenance agentValue arwEffectiveAt
  by unfold_locales (simp add: agentRowValue_def agentValue_def)

interpretation adherence_rows: durable_pointer hrwID hrwOccurrenceID adherenceRowValue ahProvenance adherenceValue
  hrwEffectiveAt
  by unfold_locales (simp add: adherenceRowValue_def adherenceValue_def)

definition durable :: "(int \<Rightarrow> int option) \<Rightarrow> int \<Rightarrow> builder \<Rightarrow> observation_tables \<Rightarrow> bool" where
  "durable ingest p b db \<longleftrightarrow>
     queue_rows.agrees ingest p (lastPosition b) (obQueueRows db) (obQueueCurrent db) (queues b) \<and>
     agent_rows.agrees ingest p (lastPosition b) (obAgentRows db) (obAgentCurrent db) (agents b) \<and>
     adherence_rows.agrees ingest p (lastPosition b) (obAdherenceRows db) (obAdherenceCurrent db) (adherence b)"

lemma adherence_built:
  "adherence (fst (buildAdherence b ao c)) = (adherence b)(acAgentID c := (case adherence b (acAgentID c) of
     None \<Rightarrow> Some (adherenceCandidate ao c (adherence b (acAgentID c)))
   | Some cur \<Rightarrow> if newer (provenanceOf ao) (ahProvenance cur)
       then Some (adherenceCandidate ao c (adherence b (acAgentID c))) else Some cur))"
  by (auto simp: buildAdherence_def Let_def adherenceCandidate_def split: option.split)

lemma accepted_facts:
  assumes "Build b ao = (b', Inr u)" and "\<not> upDuplicate u"
  shows "lastPosition b < aoIngestPosition ao" "validateOccurrence ao = None" "b' = admitted (fst (built b ao)) ao"
    "upSource u = snd (built b ao)"
proof -
  have f: "fresh b ao" and b': "b' = admitted (fst (built b ao)) ao" using Build_accepted [OF assms] by simp_all
  show "lastPosition b < aoIngestPosition ao" "validateOccurrence ao = None" using f by (simp_all add: fresh_def)
  show "b' = admitted (fst (built b ao)) ao" by (rule b')
  show "upSource u = snd (built b ao)" using Build_fresh [OF f] assms(1) by auto
qed

lemma built_source:
  "\<exists>st ch. snd (buildQueue b ao s) = QueueUpdate (queueObservation ao s) st ch"
  "\<exists>st ch. snd (buildAgentState b ao c) = AgentStateUpdate (agentObservation ao c) st ch"
  "\<exists>st ch. snd (buildAdherence b ao h) = AdherenceUpdate (adherenceObservation ao h) st ch"
  by (auto simp: buildQueue_def buildAgentState_def buildAdherence_def Let_def split: option.split)

lemma validated_time: "validateOccurrence ao = None \<Longrightarrow> aoEvent ao = Some ev \<Longrightarrow> eventEffectiveAt ev = aoEffectiveAt ao"
  by (auto simp: validateOccurrence_def split: if_splits)

text \<open>What storing an observation does, when it is new.\<close>

lemma persist_queue:
  assumes "queue_rows.agrees ingest p n (obQueueRows db) (obQueueCurrent db) lv" and "ingest i = Some p'" and "p < p'"
    and "upSource u = QueueUpdate (queueObservation ao s) st ch" and "persistProjection ingest i u db = Inr db'"
  defines "new \<equiv> queueRow (int (length (obQueueRows db)) + 1) p' (storedSnapshot i s)"
  shows "db' = db\<lparr>obQueueRows := obQueueRows db @ [new], obQueueCurrent := fst (advanceCurrent (qsQueueID s)
    \<lparr>crwObservationID = qrwID new, crwEffectiveAt = qrwEffectiveAt new, crwStreamPosition = p'\<rparr> (obQueueCurrent db))\<rparr>"
proof -
  have "insertRow qrwOccurrenceID new (obQueueRows db) = (obQueueRows db @ [new], new)"
    by (rule queue_rows.agrees_insert [OF assms(1) _ assms(3)])
      (simp add: new_def queueRow_def storedSnapshot_def assms(2))
  with assms(2,4,5) show ?thesis
    by (simp add: persistProjection_def ApplyQueueSnapshot_def queueObservation_def new_def [symmetric] storedSnapshot_def
        case_prod_beta split: if_splits) (simp add: new_def queueRow_def storedSnapshot_def)
qed

lemma persist_agent:
  assumes "agent_rows.agrees ingest p n (obAgentRows db) (obAgentCurrent db) lv" and "ingest i = Some p'" and "p < p'"
    and "upSource u = AgentStateUpdate (agentObservation ao c) st ch" and "persistProjection ingest i u db = Inr db'"
  defines "new \<equiv> agentRow (int (length (obAgentRows db)) + 1) p' (storedChange i c)"
  shows "db' = db\<lparr>obAgentRows := obAgentRows db @ [new], obAgentCurrent := fst (advanceCurrent (asAgentID c)
    \<lparr>crwObservationID = arwID new, crwEffectiveAt = arwEffectiveAt new, crwStreamPosition = p'\<rparr> (obAgentCurrent db))\<rparr>"
proof -
  have "insertRow arwOccurrenceID new (obAgentRows db) = (obAgentRows db @ [new], new)"
    by (rule agent_rows.agrees_insert [OF assms(1) _ assms(3)])
      (simp add: new_def agentRow_def storedChange_def assms(2))
  with assms(2,4,5) show ?thesis
    by (simp add: persistProjection_def ApplyAgentStateChange_def agentObservation_def new_def [symmetric] storedChange_def
        case_prod_beta split: if_splits) (simp add: new_def agentRow_def storedChange_def)
qed

lemma persist_adherence:
  assumes "adherence_rows.agrees ingest p n (obAdherenceRows db) (obAdherenceCurrent db) lv" and "ingest i = Some p'" and "p < p'"
    and "upSource u = AdherenceUpdate (adherenceObservation ao c) st ch" and "persistProjection ingest i u db = Inr db'"
  defines "new \<equiv> adherenceRow (int (length (obAdherenceRows db)) + 1) p' (storedCheck i c)"
  shows "db' = db\<lparr>obAdherenceRows := obAdherenceRows db @ [new], obAdherenceCurrent := fst (advanceCurrent (acAgentID c)
    \<lparr>crwObservationID = hrwID new, crwEffectiveAt = hrwEffectiveAt new, crwStreamPosition = p'\<rparr> (obAdherenceCurrent db))\<rparr>"
proof -
  have "insertRow hrwOccurrenceID new (obAdherenceRows db) = (obAdherenceRows db @ [new], new)"
    by (rule adherence_rows.agrees_insert [OF assms(1) _ assms(3)])
      (simp add: new_def adherenceRow_def storedCheck_def assms(2))
  with assms(2,4,5) show ?thesis
    by (simp add: persistProjection_def ApplyAdherenceCheck_def adherenceObservation_def new_def [symmetric] storedCheck_def
        case_prod_beta split: if_splits) (simp add: new_def adherenceRow_def storedCheck_def)
qed

lemma durable_step:
  assumes d: "durable ingest p b db" and pos: "ingest i = Some p'" "p < p'"
    and ok: "Build b ao = (b', Inr u)" "\<not> upDuplicate u" and db': "persistProjection ingest i u db = Inr db'"
    and whole: "aoEffectiveAt ao mod 1000 = 0"
  shows "durable ingest p' b' db'"
proof -
  note acc = accepted_facts [OF ok]
  have ag: "queue_rows.agrees ingest p (lastPosition b) (obQueueRows db) (obQueueCurrent db) (queues b)"
    "agent_rows.agrees ingest p (lastPosition b) (obAgentRows db) (obAgentCurrent db) (agents b)"
    "adherence_rows.agrees ingest p (lastPosition b) (obAdherenceRows db) (obAdherenceCurrent db) (adherence b)"
    using d by (simp_all add: durable_def)
  have le: "p \<le> p'" "lastPosition b \<le> aoIngestPosition ao" using pos(2) acc(1) by simp_all
  note keep = queue_rows.agrees_mono [OF ag(1) le] agent_rows.agrees_mono [OF ag(2) le] adherence_rows.agrees_mono [OF ag(3) le]
  have mic: "micros (aoEffectiveAt ao) = aoEffectiveAt ao" using whole by (simp add: micros_eq_iff)
  show ?thesis
  proof (rule validated_event [OF acc(2)])
    fix s assume ev: "aoEvent ao = Some (QueueSnapshot s)"
    let ?new = "queueRow (int (length (obQueueRows db)) + 1) p' (storedSnapshot i s)" and ?cand = "queueCandidate ao s"
    have t: "evTimestamp (qsCommon s) = aoEffectiveAt ao" using validated_time [OF acc(2) ev] by simp
    have b: "built b ao = buildQueue b ao s" by (simp add: built_def ev)
    obtain st ch where u: "upSource u = QueueUpdate (queueObservation ao s) st ch"
      using built_source(1) acc(4) unfolding b by metis
    have val: "queueRowValue ?new = queueValue ?cand"
      by (simp add: queueRowValue_def queueValue_def queueRow_def storedSnapshot_def queueCandidate_def provenanceOf_def t mic)
    have prov: "quProvenance ?cand = provenanceOf ao" by (simp add: queueCandidate_def)
    have "queue_rows.agrees ingest p' (aoIngestPosition ao) (obQueueRows db') (obQueueCurrent db') (queues b')"
      using queue_rows.agrees_advance' [OF ag(1) _ _ val pos(2) _ prov, of "qsQueueID s"] acc(1) pos(1)
      by (simp add: provenanceOf_def persist_queue [OF ag(1) pos u db'] acc(3) b live_buildQueue queueRow_def storedSnapshot_def)
    with keep show ?thesis
      by (simp add: durable_def persist_queue [OF ag(1) pos u db'] acc(3) b live_buildQueue)
  next
    fix c assume ev: "aoEvent ao = Some (AgentStateChange c)"
    let ?new = "agentRow (int (length (obAgentRows db)) + 1) p' (storedChange i c)" and ?cand = "agentCandidate ao c"
    have t: "evTimestamp (asCommon c) = aoEffectiveAt ao" using validated_time [OF acc(2) ev] by simp
    have b: "built b ao = buildAgentState b ao c" by (simp add: built_def ev)
    obtain st ch where u: "upSource u = AgentStateUpdate (agentObservation ao c) st ch"
      using built_source(2) acc(4) unfolding b by metis
    have val: "agentRowValue ?new = agentValue ?cand"
      by (simp add: agentRowValue_def agentValue_def agentRow_def storedChange_def agentCandidate_def provenanceOf_def t mic)
    have prov: "agProvenance ?cand = provenanceOf ao" by (simp add: agentCandidate_def)
    have "agent_rows.agrees ingest p' (aoIngestPosition ao) (obAgentRows db') (obAgentCurrent db') (agents b')"
      using agent_rows.agrees_advance' [OF ag(2) _ _ val pos(2) _ prov, of "asAgentID c"] acc(1) pos(1)
      by (simp add: provenanceOf_def persist_agent [OF ag(2) pos u db'] acc(3) b live_buildAgentState agentRow_def storedChange_def)
    with keep show ?thesis
      by (simp add: durable_def persist_agent [OF ag(2) pos u db'] acc(3) b live_buildAgentState)
  next
    fix c assume ev: "aoEvent ao = Some (AdherenceCheck c)"
    let ?new = "adherenceRow (int (length (obAdherenceRows db)) + 1) p' (storedCheck i c)" and ?cand = "adherenceCandidate ao c (adherence b (acAgentID c))"
    have t: "evTimestamp (acCommon c) = aoEffectiveAt ao" using validated_time [OF acc(2) ev] by simp
    have b: "built b ao = buildAdherence b ao c" by (simp add: built_def ev)
    obtain st ch where u: "upSource u = AdherenceUpdate (adherenceObservation ao c) st ch"
      using built_source(3) acc(4) unfolding b by metis
    have val: "adherenceRowValue ?new = adherenceValue ?cand"
      by (simp add: adherenceRowValue_def adherenceValue_def adherenceRow_def storedCheck_def adherenceCandidate_def provenanceOf_def t mic)
    have prov: "ahProvenance ?cand = provenanceOf ao" by (simp add: adherenceCandidate_def)
    have "adherence_rows.agrees ingest p' (aoIngestPosition ao) (obAdherenceRows db') (obAdherenceCurrent db') (adherence b')"
      using adherence_rows.agrees_advance' [OF ag(3) _ _ val pos(2) _ prov, of "acAgentID c"] acc(1) pos(1)
      by (simp add: provenanceOf_def persist_adherence [OF ag(3) pos u db'] acc(3) b adherence_built live_buildAdherence_frame adherenceRow_def storedCheck_def)
    with keep show ?thesis
      by (simp add: durable_def persist_adherence [OF ag(3) pos u db'] acc(3) b adherence_built live_buildAdherence_frame)
  qed
qed

subsection \<open>Replaying occurrences\<close>

text \<open>Building and storing each occurrence under its identifier; \<open>None\<close> when one is rejected, a
  duplicate, or not stored.\<close>

fun persistAll ::
  "(int \<Rightarrow> int option) \<Rightarrow> builder \<Rightarrow> observation_tables \<Rightarrow> (int \<times> accepted_occurrence) list
     \<Rightarrow> (builder \<times> observation_tables) option"
where
  "persistAll ingest b db [] = Some (b, db)"
| "persistAll ingest b db ((i, ao) # rest) = (case Build b ao of
       (b', Inr u) \<Rightarrow> if upDuplicate u then None
         else (case persistProjection ingest i u db of
             Inl err \<Rightarrow> None | Inr db' \<Rightarrow> persistAll ingest b' db' rest)
     | _ \<Rightarrow> None)"

definition emptyObservations :: observation_tables where
  "emptyObservations = \<lparr>obQueueRows = [], obQueueCurrent = Map.empty, obAgentRows = [], obAgentCurrent = Map.empty,
     obAdherenceRows = [], obAdherenceCurrent = Map.empty\<rparr>"

lemma durable_start: "durable ingest p NewBuilder emptyObservations"
  by (simp add: durable_def NewBuilder_def emptyObservations_def queue_rows.agrees_start agent_rows.agrees_start
      adherence_rows.agrees_start)

lemma durable_run:
  assumes "persistAll ingest b db ios = Some (b', db')" and "durable ingest p b db"
    and "map (ingest \<circ> fst) ios = map Some ps" and "sorted_wrt (<) (p # ps)"
    and "list_all (\<lambda>(i, ao). aoEffectiveAt ao mod 1000 = 0) ios"
  shows "\<exists>q. durable ingest q b' db'"
  using assms
proof (induction ios arbitrary: b db p ps)
  case (Cons io ios)
  obtain i ao where io: "io = (i, ao)" by (cases io)
  from Cons.prems(3) obtain p' ps' where ps: "ps = p' # ps'" "ingest i = Some p'" "map (ingest \<circ> fst) ios = map Some ps'"
    by (cases ps) (auto simp: io comp_def)
  obtain b1 u db1 where step: "Build b ao = (b1, Inr u)" "\<not> upDuplicate u" "persistProjection ingest i u db = Inr db1"
    and rest: "persistAll ingest b1 db1 ios = Some (b', db')"
    using Cons.prems(1) by (auto simp: io split: prod.splits sum.splits if_splits)
  have p: "p < p'" "sorted_wrt (<) (p' # ps')" and whole: "aoEffectiveAt ao mod 1000 = 0"
    "list_all (\<lambda>(i, ao). aoEffectiveAt ao mod 1000 = 0) ios"
    using Cons.prems(4,5) by (simp_all add: ps(1) io)
  from Cons.IH [OF rest durable_step [OF Cons.prems(2) ps(2) p(1) step whole(1)] ps(3) p(2) whole(2)]
  show ?case .
qed auto

text \<open>What the current row of a queue or agent shows in the database.\<close>

definition durableQueue :: "observation_tables \<Rightarrow> string \<Rightarrow> (gotime \<times> int list \<times> int option) option" where
  "durableQueue db q = Option.bind (obQueueCurrent db q)
     (\<lambda>c. map_option queueRowValue (find (\<lambda>r. qrwID r = crwObservationID c) (obQueueRows db)))"

definition durableAgent :: "observation_tables \<Rightarrow> string \<Rightarrow> (gotime \<times> string) option" where
  "durableAgent db q = Option.bind (obAgentCurrent db q)
     (\<lambda>c. map_option agentRowValue (find (\<lambda>r. arwID r = crwObservationID c) (obAgentRows db)))"

definition durableAdherence ::
  "observation_tables \<Rightarrow> string \<Rightarrow> (gotime \<times> string \<times> string \<times> bool \<times> gotime option) option"
where
  "durableAdherence db q = Option.bind (obAdherenceCurrent db q)
     (\<lambda>c. map_option adherenceRowValue (find (\<lambda>r. hrwID r = crwObservationID c) (obAdherenceRows db)))"


definition demoStored :: "(int \<times> accepted_occurrence) list" where
  "demoStored = [(1, demoAdherence 20 True None), (2, demoAdherence 30 False None)]"


end
