(* ===== verification/RuleStoreProps.thy ===== *)
theory RuleStoreProps
  imports RuleStore RulesJsonProps PreviewProps
begin

text \<open>
  The durable rules as a state machine: revisions are only added, a saved rule becomes the
  active one of its identifier, and seeding is idempotent.
\<close>

subsection \<open>Runs\<close>

datatype rule_op = OpSave gotime string rule_definition | OpSeed gotime "preview_rule list"

fun ruleStep :: "(string \<Rightarrow> string) \<Rightarrow> (json \<Rightarrow> json) \<Rightarrow> rule_tables \<Rightarrow> rule_op \<Rightarrow> rule_tables \<times> string list" where
  "ruleStep lower jsonb db (OpSave clock i d) =
     (case SaveRule lower jsonb clock i d db of (db', Inr j) \<Rightarrow> (db', [j]) | (db', Inl err) \<Rightarrow> (db', []))"
| "ruleStep lower jsonb db (OpSeed clock rs) = (fst (seedRules jsonb clock rs db), [])"

definition resourceOk :: "rule_tables \<Rightarrow> resource_row \<Rightarrow> bool" where
  "resourceOk db r \<longleftrightarrow> (case rsrActiveRevision r of None \<Rightarrow> True | Some n \<Rightarrow> storedRevision (rsrID r) n db)"

definition rulesOk :: "rule_tables \<Rightarrow> bool" where
  "rulesOk db \<longleftrightarrow> distinct (map rsrID (rtResources db)) \<and>
     distinct (map (\<lambda>v. (rvrRuleID v, rvrRevision v)) (rtRevisions db)) \<and>
     (\<forall>r \<in> set (rtResources db). resourceOk db r)"

definition keepsRevisions :: "rule_tables \<Rightarrow> rule_tables \<Rightarrow> bool" where
  "keepsRevisions db db' \<longleftrightarrow> take (length (rtRevisions db)) (rtRevisions db') = rtRevisions db"

lemma keepsRevisions_refl [simp]: "keepsRevisions db db"
  by (simp add: keepsRevisions_def)

lemma keepsRevisions_iff: "keepsRevisions db db' \<longleftrightarrow> (\<exists>xs. rtRevisions db' = rtRevisions db @ xs)"
  unfolding keepsRevisions_def by (metis append_take_drop_id append_eq_conv_conj)

lemma keepsRevisions_trans: "keepsRevisions a b \<Longrightarrow> keepsRevisions b c \<Longrightarrow> keepsRevisions a c"
  by (auto simp: keepsRevisions_iff)

subsection \<open>The statements\<close>

lemma activateRow_simps [simp]:
  "rsrID (activateRow clock n r) = rsrID r" "rsrStatus (activateRow clock n r) = RuleActive"
  "rsrActiveRevision (activateRow clock n r) = Some n"
  by (simp_all add: activateRow_def)

lemma ensureResource_simps [simp]:
  "rtRevisions (ensureResource clock i db) = rtRevisions db"
  "storedRevision j n (ensureResource clock i db) = storedRevision j n db"
  "rsrID ` set (rtResources (ensureResource clock i db)) = insert i (rsrID ` set (rtResources db))"
  by (auto simp: ensureResource_def storedRevision_def)

lemma addRevision_simps [simp]:
  "rtResources (addRevision i n j db) = rtResources db"
  "storedRevision k m (addRevision i n j db) \<longleftrightarrow> storedRevision k m db \<or> k = i \<and> m = n"
  "keepsRevisions db (addRevision i n j db)"
  by (auto simp: addRevision_def storedRevision_def keepsRevisions_def)

lemma ensureResource_ok: "rulesOk db \<Longrightarrow> rulesOk (ensureResource clock i db)"
  by (auto simp: ensureResource_def rulesOk_def resourceOk_def storedRevision_def split: option.splits)

lemma addRevision_ok: "rulesOk db \<Longrightarrow> \<not> storedRevision i n db \<Longrightarrow> rulesOk (addRevision i n j db)"
  by (auto simp: addRevision_def rulesOk_def resourceOk_def storedRevision_def split: option.splits)

lemma activate_ok:
  assumes "rulesOk db" and "\<And>r. r \<in> set (rtResources db) \<Longrightarrow> p r \<Longrightarrow> storedRevision (rsrID r) n db"
  shows "rulesOk (db\<lparr>rtResources := updateRows p (activateRow clock n) (rtResources db)\<rparr>)"
proof -
  have "resourceOk (db\<lparr>rtResources := xs\<rparr>) r = resourceOk db r" for xs r
    by (simp add: resourceOk_def storedRevision_def split: option.split)
  then show ?thesis
    using assms by (auto simp: rulesOk_def map_updateRows set_updateRows resourceOk_def)
qed

subsection \<open>Operations keep the invariant\<close>

lemma saveRevision_ok:
  assumes "rulesOk db" and "saveRevision clock i j db = Inr (db', k)"
  shows "rulesOk db' \<and> keepsRevisions db db'"
proof -
  let ?n = "nextRevision i db" and ?db1 = "ensureResource clock i db"
  have new: "\<not> storedRevision i ?n ?db1" and db': "db' = (addRevision i ?n j ?db1)\<lparr>rtResources :=
      updateRows (\<lambda>r. rsrID r = i) (activateRow clock ?n) (rtResources (addRevision i ?n j ?db1))\<rparr>"
    using assms(2) by (auto simp: saveRevision_def Let_def split: if_splits)
  have "rulesOk (addRevision i ?n j ?db1)" by (rule addRevision_ok [OF ensureResource_ok [OF assms(1)] new])
  then have "rulesOk db'" unfolding db' by (rule activate_ok) simp
  moreover have "keepsRevisions db db'" by (simp add: db' addRevision_def keepsRevisions_def)
  ultimately show ?thesis ..
qed

lemma SaveRule_ok:
  assumes "rulesOk db"
  shows "rulesOk (fst (SaveRule lower jsonb clock i d db)) \<and> keepsRevisions db (fst (SaveRule lower jsonb clock i d db))"
  using saveRevision_ok [OF assms] assms
  by (auto simp: SaveRule_def withTx_def split: option.split sum.split)

lemma seedRule_ok:
  assumes "rulesOk db" and "seedRule jsonb clock r db = Inr db'"
  shows "rulesOk db' \<and> keepsRevisions db db'"
proof -
  obtain j where j: "marshalDefinition (prDefinition r) = Some j"
    using assms(2) by (auto simp: seedRule_def split: option.splits)
  let ?db1 = "ensureResource clock (prID r) db"
  let ?db2 = "if storedRevision (prID r) (prRevision r) ?db1 then ?db1 else addRevision (prID r) (prRevision r) (jsonb j) ?db1"
  have db': "db' = ?db2\<lparr>rtResources := updateRows (\<lambda>x. rsrID x = prID r \<and> rsrActiveRevision x = None)
      (activateRow clock (prRevision r)) (rtResources ?db2)\<rparr>"
    using assms(2) j by (simp add: seedRule_def Let_def)
  have "rulesOk ?db2" "storedRevision (prID r) (prRevision r) ?db2"
    using ensureResource_ok [OF assms(1)] by (auto intro: addRevision_ok)
  then have "rulesOk db'" unfolding db' by (intro activate_ok) auto
  moreover have "keepsRevisions db db'" by (simp add: db' addRevision_def keepsRevisions_def)
  ultimately show ?thesis ..
qed

lemma seedLoop_ok: "rulesOk db \<Longrightarrow> seedLoop jsonb clock rs db = Inr (db', u) \<Longrightarrow> rulesOk db' \<and> keepsRevisions db db'"
proof (induction rs arbitrary: db)
  case (Cons r rs)
  from Cons.prems(2) obtain db1 where s: "seedRule jsonb clock r db = Inr db1" "seedLoop jsonb clock rs db1 = Inr (db', u)"
    by (auto split: sum.splits)
  from seedRule_ok [OF Cons.prems(1) s(1)] Cons.IH [OF _ s(2)] show ?case by (auto intro: keepsRevisions_trans)
qed simp

lemma ruleStep_ok:
  assumes "rulesOk db"
  shows "rulesOk (fst (ruleStep lower jsonb db op)) \<and> keepsRevisions db (fst (ruleStep lower jsonb db op))"
proof (cases op)
  case (OpSave clock i d)
  with SaveRule_ok [OF assms, of lower jsonb clock i d] show ?thesis
    by (auto simp: case_prod_beta split: sum.split)
next
  case (OpSeed clock rs)
  with seedLoop_ok [OF assms, of jsonb clock rs] assms show ?thesis
    by (auto simp: seedRules_def WithTx_def split: sum.split)
qed

interpretation rule_machine: invariant_machine "ruleStep lower jsonb" rulesOk for lower jsonb
  by unfold_locales (simp add: ruleStep_ok)

lemma emptyRules_ok: "rulesOk emptyRules"
  by (simp add: rulesOk_def emptyRules_def)

lemma run_keeps: "rulesOk db \<Longrightarrow> keepsRevisions db (fst (run (ruleStep lower jsonb) db ops))"
proof (induction ops arbitrary: db)
  case (Cons op ops)
  from ruleStep_ok [OF Cons.prems, of lower jsonb op] Cons.IH [of "fst (ruleStep lower jsonb db op)"]
  show ?case by (auto simp: case_prod_beta Let_def intro: keepsRevisions_trans)
qed simp

text \<open>C34. Revisions are immutable: whatever is saved or seeded, a revision that is stored stays as it
  is, no two have the same rule and number, and the active revision of a rule is always a
  stored one.\<close>

theorem rule_revisions_immutable:
  "let db = fst (run (ruleStep lower jsonb) emptyRules before); db' = fst (run (ruleStep lower jsonb) db after)
   in take (length (rtRevisions db)) (rtRevisions db') = rtRevisions db \<and>
     distinct (map (\<lambda>v. (rvrRuleID v, rvrRevision v)) (rtRevisions db')) \<and>
     list_all (\<lambda>r. case rsrActiveRevision r of None \<Rightarrow> True | Some n \<Rightarrow> storedRevision (rsrID r) n db') (rtResources db')"
proof -
  let ?db = "fst (run (ruleStep lower jsonb) emptyRules before)"
  have ok: "rulesOk ?db" by (rule rule_machine.run_inv [OF emptyRules_ok])
  from run_keeps [OF this, of lower jsonb after] rule_machine.run_inv [OF this, of lower jsonb after]
  show ?thesis by (auto simp: Let_def keepsRevisions_def rulesOk_def list_all_iff resourceOk_def)
qed

subsection \<open>The active rules\<close>

lemma set_insert_by [simp]: "set (insert_by lt x xs) = insert x (set xs)"
  by (induction xs) auto

lemma set_sorted_rows [simp]: "set (sort_by lt xs) = set xs"
  unfolding sort_by_def by (induction xs) simp_all

lemma activeRows_iff: "(i, n, j) \<in> set (activeRows collates db) \<longleftrightarrow>
    (\<exists>r \<in> set (rtResources db). rsrID r = i \<and> rsrStatus r = RuleActive \<and> rsrActiveRevision r = Some n) \<and>
    (\<exists>v \<in> set (rtRevisions db). rvrRuleID v = i \<and> rvrRevision v = n \<and> rvrDefinition v = j)"
  by (auto simp: activeRows_def image_iff) metis

lemma activeFromDB_iff:
  "activeFromDB collates db = Some as \<longleftrightarrow> map (\<lambda>(i, n, j). map_option
     (\<lambda>d. \<lparr>arID = i, arRevision = n, arDefinition = d\<rparr>) (unmarshalDefinition j)) (activeRows collates db) = map Some as"
  by (simp add: activeFromDB_def sequenceOpt_eq_Some)

text \<open>The rows of a database after a save.\<close>

lemma saveRevision_rows:
  assumes ok: "rulesOk db" and s: "saveRevision clock i j db = Inr (db', k)"
  shows "set (activeRows collates db') =
    {row \<in> set (activeRows collates db). fst row \<noteq> i} \<union> {(i, nextRevision i db, j)} \<and> k = i"
proof -
  let ?n = "nextRevision i db" and ?db1 = "ensureResource clock i db"
  have new: "\<not> storedRevision i ?n db" and k: "k = i" and db': "db' = (addRevision i ?n j ?db1)\<lparr>rtResources :=
      updateRows (\<lambda>r. rsrID r = i) (activateRow clock ?n) (rtResources (addRevision i ?n j ?db1))\<rparr>"
    using s by (auto simp: saveRevision_def Let_def split: if_splits)
  have revs: "rtRevisions db' = rtRevisions db @ [\<lparr>rvrRuleID = i, rvrRevision = ?n, rvrDefinition = j\<rparr>]"
    by (simp add: db' addRevision_def)
  have res: "(\<exists>r \<in> set (rtResources db'). rsrID r = m \<and> rsrStatus r = RuleActive \<and> rsrActiveRevision r = Some l) \<longleftrightarrow>
      (if m = i then l = ?n
       else \<exists>r \<in> set (rtResources db). rsrID r = m \<and> rsrStatus r = RuleActive \<and> rsrActiveRevision r = Some l)" for m l
  proof (cases "m = i")
    case True
    have "i \<in> rsrID ` set (rtResources ?db1)" by simp
    then obtain x where "x \<in> set (rtResources ?db1)" "rsrID x = i" by blast
    then have "activateRow clock ?n x \<in> set (rtResources db')" "rsrID (activateRow clock ?n x) = i"
      unfolding db' by (auto simp: set_updateRows)
    moreover have "rsrActiveRevision r = Some ?n" if "r \<in> set (rtResources db')" "rsrID r = i" for r
    proof -
      have "r \<in> set (updateRows (\<lambda>r. rsrID r = i) (activateRow clock ?n) (rtResources ?db1))" using that(1) by (simp add: db')
      then obtain q where q: "r = (if rsrID q = i then activateRow clock ?n q else q)" by (rule updateRows_in)
      with that(2) show ?thesis by (cases "rsrID q = i") simp_all
    qed
    ultimately show ?thesis using True
      by (metis activateRow_simps(2,3) option.inject)
  next
    case False
    then show ?thesis unfolding db' by (auto simp: set_updateRows ensureResource_def)
  qed
  have "row \<in> set (activeRows collates db') \<longleftrightarrow>
      row \<in> {row \<in> set (activeRows collates db). fst row \<noteq> i} \<union> {(i, ?n, j)}" for row
  proof -
    obtain m l d where row: "row = (m, l, d)" by (cases row)
    show ?thesis using new unfolding row by (cases "m = i") (auto simp: activeRows_iff res revs storedRevision_def)
  qed
  with k show ?thesis by blast
qed

text \<open>C24. A saved rule is the active one: after any history of the rules, saving a valid definition
  makes it, under the next revision, the one active rule of its identifier, and leaves every
  other active rule as it was; \<open>jsonb\<close> may be any normalisation of JSON that the decoder of
  definitions does not see.\<close>

theorem saved_rule_is_active:
  assumes "wf_definition d" and "int64Definition d"
    and jsonb: "\<And>j. marshalDefinition d = Some j \<Longrightarrow> unmarshalDefinition (jsonb j) = unmarshalDefinition j"
    and saved: "SaveRule lower jsonb clock i d (fst (run (ruleStep lower jsonb) emptyRules ops)) = (db', Inr k)"
    and active: "activeFromDB collates (fst (run (ruleStep lower jsonb) emptyRules ops)) = Some as"
  shows "\<exists>as'. activeFromDB collates db' = Some as' \<and> set as' = {a \<in> set as. arID a \<noteq> k} \<union>
    {\<lparr>arID = k, arRevision = nextRevision k (fst (run (ruleStep lower jsonb) emptyRules ops)),
      arDefinition = canonicalDefinition d\<rparr>}"
proof -
  let ?db = "fst (run (ruleStep lower jsonb) emptyRules ops)" and ?i = "ruleIDFor lower i (rdName d)"
  let ?dec = "\<lambda>(i, n, j). map_option (\<lambda>d. \<lparr>arID = i, arRevision = n, arDefinition = d\<rparr>) (unmarshalDefinition j)"
  let ?new = "\<lparr>arID = k, arRevision = nextRevision k ?db, arDefinition = canonicalDefinition d\<rparr>"
  have ok: "rulesOk ?db" by (rule rule_machine.run_inv [OF emptyRules_ok])
  obtain j where j: "marshalDefinition d = Some j" "unmarshalDefinition j = Some (canonicalDefinition d)"
    using definition_unmarshal [OF assms(1,2)] by blast
  with saved have s: "saveRevision clock ?i (jsonb j) ?db = Inr (db', k)"
    by (auto simp: SaveRule_def withTx_def split: sum.splits)
  note rows = saveRevision_rows [OF ok s]
  have dec: "?dec ` set (activeRows collates ?db) = Some ` set as"
    using arg_cong [OF active [unfolded activeFromDB_iff], of set] by (simp only: set_map)
  have ids: "?dec row = Some a \<Longrightarrow> arID a = fst row" for row a by (cases row) auto
  have "?dec ` {row \<in> set (activeRows collates ?db). fst row \<noteq> k} = Some ` {a \<in> set as. arID a \<noteq> k}"
  proof (intro set_eqI iffI)
    fix x assume "x \<in> ?dec ` {row \<in> set (activeRows collates ?db). fst row \<noteq> k}"
    then obtain row where r: "x = ?dec row" "row \<in> set (activeRows collates ?db)" "fst row \<noteq> k" by blast
    then have "x \<in> Some ` set as" using dec by blast
    with r ids [of row] show "x \<in> Some ` {a \<in> set as. arID a \<noteq> k}" by auto
  next
    fix x assume "x \<in> Some ` {a \<in> set as. arID a \<noteq> k}"
    then obtain a where a: "x = Some a" "a \<in> set as" "arID a \<noteq> k" by blast
    then have "x \<in> ?dec ` set (activeRows collates ?db)" unfolding dec by blast
    then obtain row where "x = ?dec row" "row \<in> set (activeRows collates ?db)" by blast
    moreover from this have "fst row \<noteq> k" using a ids [of row a] by simp
    ultimately show "x \<in> ?dec ` {row \<in> set (activeRows collates ?db). fst row \<noteq> k}" by blast
  qed
  then have all: "?dec ` set (activeRows collates db') = Some ` ({a \<in> set as. arID a \<noteq> k} \<union> {?new})"
    using rows j jsonb [OF j(1)] by auto
  then have "None \<notin> set (map ?dec (activeRows collates db'))" by (metis (no_types, lifting) image_iff option.distinct(1) set_map)
  then obtain as' where as': "activeFromDB collates db' = Some as'"
    unfolding activeFromDB_def sequenceOpt_None [symmetric] by blast
  then have "Some ` set as' = ?dec ` set (activeRows collates db')"
    using arg_cong [OF as' [unfolded activeFromDB_iff], of set] by (simp only: set_map)
  then have "set as' = {a \<in> set as. arID a \<noteq> k} \<union> {?new}" unfolding all by (simp only: inj_image_eq_iff inj_Some)
  with as' show ?thesis by blast
qed

subsection \<open>Seeding\<close>

definition seeded :: "preview_rule \<Rightarrow> rule_tables \<Rightarrow> bool" where
  "seeded r db \<longleftrightarrow> prID r \<in> rsrID ` set (rtResources db) \<and> storedRevision (prID r) (prRevision r) db \<and>
     (\<forall>x \<in> set (rtResources db). rsrID x = prID r \<longrightarrow> rsrActiveRevision x \<noteq> None)"

lemma activate_ids: "rsrID ` set (updateRows p (activateRow clock n) rows) = rsrID ` set rows"
  using arg_cong [OF map_updateRows [of rsrID "activateRow clock n" p rows], of set] by simp

lemma seeded_activate:
  assumes "seeded r db" and "rows = rtResources db"
  shows "seeded r (db\<lparr>rtResources := updateRows p (activateRow clock n) rows\<rparr>)"
proof -
  have "rsrActiveRevision x \<noteq> None" if x: "x \<in> set (updateRows p (activateRow clock n) rows)" "rsrID x = prID r" for x
  proof -
    from x(1) obtain y where y: "y \<in> set rows" "x = (if p y then activateRow clock n y else y)" by (rule updateRows_in)
    with x(2) assms show ?thesis by (cases "p y") (simp_all add: seeded_def)
  qed
  with assms show ?thesis by (simp add: seeded_def activate_ids storedRevision_def)
qed

lemma seeded_add: "seeded r db \<Longrightarrow> seeded r (addRevision i n j db)"
  by (simp add: seeded_def)

lemma seeded_ensure: "seeded r db \<Longrightarrow> seeded r (ensureResource clock i db)"
  by (auto simp: seeded_def ensureResource_def storedRevision_def)

lemma seedRule_keeps: "seeded r db \<Longrightarrow> seedRule jsonb clock q db = Inr db' \<Longrightarrow> seeded r db'"
  by (auto simp: seedRule_def Let_def split: option.splits if_splits
      intro!: seeded_activate seeded_add seeded_ensure)

lemma seedRule_seeds:
  assumes "seedRule jsonb clock r db = Inr db'"
  shows "seeded r db'"
proof -
  obtain j where j: "marshalDefinition (prDefinition r) = Some j"
    using assms by (auto simp: seedRule_def split: option.splits)
  let ?db1 = "ensureResource clock (prID r) db"
  let ?db2 = "if storedRevision (prID r) (prRevision r) ?db1 then ?db1 else addRevision (prID r) (prRevision r) (jsonb j) ?db1"
  let ?rows = "updateRows (\<lambda>x. rsrID x = prID r \<and> rsrActiveRevision x = None) (activateRow clock (prRevision r)) (rtResources ?db2)"
  have db': "db' = ?db2\<lparr>rtResources := ?rows\<rparr>" using assms j by (simp add: seedRule_def Let_def)
  have "rsrActiveRevision x \<noteq> None" if x: "x \<in> set ?rows" "rsrID x = prID r" for x
  proof -
    from x(1) obtain y where "x = (if rsrID y = prID r \<and> rsrActiveRevision y = None then activateRow clock (prRevision r) y else y)"
      by (rule updateRows_in)
    with x(2) show ?thesis by (cases "rsrID y = prID r \<and> rsrActiveRevision y = None") auto
  qed
  moreover have "storedRevision (prID r) (prRevision r) ?db2" by simp
  ultimately show ?thesis unfolding db' by (simp add: seeded_def activate_ids storedRevision_def)
qed

lemma seedRule_noop:
  assumes "seeded r db" and "marshalDefinition (prDefinition r) \<noteq> None"
  shows "seedRule jsonb clock r db = Inr db"
proof -
  have "ensureResource clock (prID r) db = db" using assms(1) by (simp add: seeded_def ensureResource_def)
  moreover have "countRows (\<lambda>x. rsrID x = prID r \<and> rsrActiveRevision x = None) (rtResources db) = 0"
    using assms(1) by (auto simp: countRows_def seeded_def filter_empty_conv)
  ultimately show ?thesis using assms by (auto simp: seedRule_def Let_def seeded_def updateRows_none)
qed

lemma seedLoop_keeps: "seeded r db \<Longrightarrow> seedLoop jsonb clock rs db = Inr (db', u) \<Longrightarrow> seeded r db'"
  by (induction rs arbitrary: db) (auto split: sum.splits dest: seedRule_keeps)

lemma seedLoop_seeds:
  "seedLoop jsonb clock rs db = Inr (db', u) \<Longrightarrow>
     list_all (\<lambda>r. seeded r db' \<and> marshalDefinition (prDefinition r) \<noteq> None) rs"
proof (induction rs arbitrary: db)
  case (Cons r rs)
  from Cons.prems obtain db1 where s: "seedRule jsonb clock r db = Inr db1" "seedLoop jsonb clock rs db1 = Inr (db', u)"
    by (auto split: sum.splits)
  have "marshalDefinition (prDefinition r) \<noteq> None" using s(1) by (auto simp: seedRule_def split: option.splits)
  with Cons.IH [OF s(2)] seedLoop_keeps [OF seedRule_seeds [OF s(1)] s(2)] show ?case by simp
qed simp

lemma seedLoop_noop:
  "list_all (\<lambda>r. seeded r db \<and> marshalDefinition (prDefinition r) \<noteq> None) rs \<Longrightarrow> seedLoop jsonb clock rs db = Inr (db, ())"
  by (induction rs) (simp_all add: seedRule_noop)

text \<open>Seeding is idempotent and all or nothing: when it fails the database is as before, and when it
  succeeds, seeding the same rules again changes nothing, whatever the clock.\<close>

theorem seeding_idempotent:
  "case seedRules jsonb clock rs db of
     (db1, Inl err) \<Rightarrow> db1 = db
   | (db1, Inr u) \<Rightarrow> seedRules jsonb clock' rs db1 = (db1, Inr ())"
proof (cases "seedLoop jsonb clock rs db")
  case (Inr r)
  obtain db1 u where "r = (db1, u)" by (cases r)
  with Inr seedLoop_noop [OF seedLoop_seeds, of jsonb clock rs db db1 u] show ?thesis
    by (simp add: seedRules_def WithTx_def)
qed (simp add: seedRules_def WithTx_def)

lemma snd_part: "snd x = y \<Longrightarrow> \<exists>a. x = (a, y)"
  by (cases x) simp

definition demoSavedRules :: rule_tables where
  "demoSavedRules = fst (run (ruleStep id id) emptyRules [OpSave 0 ''r1'' demoRule])"

theorem saved_rule_is_active_witness:
  "\<exists>db' as'. SaveRule id id 2000 ''r1'' demoRule demoSavedRules = (db', Inr ''r1'') \<and>
     activeFromDB (\<lambda>a b. length a < length b) db' = Some as' \<and>
     \<lparr>arID = ''r1'', arRevision = 2, arDefinition = canonicalDefinition demoRule\<rparr> \<in> set as'"
proof -
  have "int64Definition demoRule" by code_simp
  have "snd (SaveRule id id 2000 ''r1'' demoRule demoSavedRules) = Inr ''r1''" by code_simp
  from snd_part [OF this] obtain db' where s: "SaveRule id id 2000 ''r1'' demoRule demoSavedRules = (db', Inr ''r1'')" ..
  have "activeFromDB (\<lambda>a b. length a < length b) demoSavedRules \<noteq> None" by code_simp
  then obtain as where a: "activeFromDB (\<lambda>a b. length a < length b) demoSavedRules = Some as" by blast
  have n: "nextRevision ''r1'' demoSavedRules = 2" by code_simp
  have "\<exists>as'. activeFromDB (\<lambda>a b. length a < length b) db' = Some as' \<and> set as' = {a \<in> set as. arID a \<noteq> ''r1''} \<union>
      {\<lparr>arID = ''r1'', arRevision = nextRevision ''r1'' demoSavedRules, arDefinition = canonicalDefinition demoRule\<rparr>}"
    unfolding demoSavedRules_def
    by (rule saved_rule_is_active [OF demoRule_wf \<open>int64Definition demoRule\<close> _ s [unfolded demoSavedRules_def] a [unfolded demoSavedRules_def]])
      (simp only: id_apply)
  then obtain as' where as': "activeFromDB (\<lambda>a b. length a < length b) db' = Some as'" "set as' = {a \<in> set as. arID a \<noteq> ''r1''} \<union>
      {\<lparr>arID = ''r1'', arRevision = nextRevision ''r1'' demoSavedRules, arDefinition = canonicalDefinition demoRule\<rparr>}"
    by (elim exE conjE)
  have "\<lparr>arID = ''r1'', arRevision = 2, arDefinition = canonicalDefinition demoRule\<rparr> \<in> set as'"
    unfolding as'(2) n by (rule UnI2) (rule singletonI)
  with s as'(1) show ?thesis by (intro exI conjI)
qed

end
