(* ===== verification/RunInv.thy ===== *)
theory RunInv
  imports ReplayRun IntentStoreProps AlertStoreProps OccurrenceStoreProps DurableProjectionsProps RuleStoreProps PreviewProps
begin

text \<open>
  What one line of the durable replay does to the tables: the invariants of its transactions.
\<close>

subsection \<open>Loops\<close>

lemma untilError_append:
  "untilError step s (xs @ ys) = (case untilError step s xs of (s', Some err) \<Rightarrow> (s', Some err)
     | (s', None) \<Rightarrow> untilError step s' ys)"
  by (induction xs arbitrary: s) (auto split: prod.split option.split)

lemma untilError_track:
  assumes "\<And>s P x s'. I s P \<Longrightarrow> step s x = (s', None) \<Longrightarrow> I s' (P @ [x])"
    and "I s P" and "untilError step s xs = (s', None)"
  shows "I s' (P @ xs)"
  using assms(2,3)
proof (induction xs arbitrary: s P)
  case (Cons x xs)
  from Cons.prems(2) obtain s1 where s1: "step s x = (s1, None)" "untilError step s1 xs = (s', None)"
    by (auto split: prod.splits option.splits)
  from Cons.IH [OF assms(1) [OF Cons.prems(1) s1(1)] s1(2)] show ?case by simp
qed simp

lemma untilError_keeps:
  assumes "\<And>s x s'. I s \<Longrightarrow> step s x = (s', None) \<Longrightarrow> I s'" and "I s" and "untilError step s xs = (s', None)"
  shows "I s'"
  using untilError_track [where I = "\<lambda>s P. I s", OF _ assms(2,3)] assms(1) by blast

subsection \<open>Delivered intents\<close>

definition allDelivered :: "intent_tables \<Rightarrow> bool" where
  "allDelivered db \<longleftrightarrow> intentsOk db \<and> (\<forall>r \<in> set (itIntents db). irwState r = IntentDelivered) \<and>
     (\<forall>a \<in> set (itAttempts db). awrID a < itNextAttempt db) \<and> dom (itDeliveries db) = irwID ` set (itIntents db)"

lemma allDeliveredD:
  assumes "allDelivered db"
  shows "intentsOk db" "r \<in> set (itIntents db) \<Longrightarrow> irwState r = IntentDelivered"
    "a \<in> set (itAttempts db) \<Longrightarrow> awrID a < itNextAttempt db" "dom (itDeliveries db) = irwID ` set (itIntents db)"
  using assms by (auto simp: allDelivered_def)

lemma allDelivered_empty: "allDelivered emptyIntents"
  using emptyIntents_ok by (simp add: allDelivered_def emptyIntents_def)

text \<open>An intent that is not delivered, beside delivered ones.\<close>

definition onePending :: "intent_row \<Rightarrow> intent_tables \<Rightarrow> intent_tables \<Rightarrow> bool" where
  "onePending r db0 db \<longleftrightarrow> allDelivered db0 \<and> irwID r = itNextIntent db0 \<and> db = addIntent r db0"

lemma fresh_id:
  assumes "intentsOk db"
  shows "itNextIntent db \<notin> irwID ` set (itIntents db)"
  using assms by (force simp: intentsOk_def)

lemma only_other:
  assumes "onePending r db0 db" and "q \<in> set (itIntents db)"
  shows "q = r \<or> (q \<in> set (itIntents db0) \<and> irwState q = IntentDelivered \<and> irwID q \<noteq> irwID r)"
  using assms allDeliveredD(2) [of db0 q] fresh_id [of db0] allDeliveredD(1) [of db0]
  by (auto simp: onePending_def addIntent_def image_iff)

lemma updateRows_snoc: "updateRows p f (xs @ [x]) = updateRows p f xs @ [if p x then f x else x]"
  by (simp add: updateRows_def)

lemma updateRows_id: "(\<And>x. x \<in> set xs \<Longrightarrow> \<not> p x) \<Longrightarrow> updateRows p f xs = xs"
  by (rule updateRows_none) (simp add: countRows_def filter_empty_conv)

lemma deliver_claims:
  assumes one: "onePending r db0 db" and c: "ClaimNotificationIntents locked at limit lease token db = Inr (db1, rows)"
    and "length rows = 1"
  shows "db1 = db\<lparr>itIntents := itIntents db0 @ [claimIntent token (micros (at + lease)) r]\<rparr>"
proof -
  let ?ids = "irwID ` set (intentCandidates locked at limit (itIntents db))"
  have rows: "rows = map (claimedIntent token) (filter (\<lambda>q. irwID q \<in> ?ids)
      (updateRows (\<lambda>q. irwID q \<in> ?ids) (claimIntent token (micros (at + lease))) (itIntents db)))"
    and db1: "db1 = db\<lparr>itIntents := updateRows (\<lambda>q. irwID q \<in> ?ids) (claimIntent token (micros (at + lease))) (itIntents db)\<rparr>"
    using c by (auto simp: ClaimNotificationIntents_def Let_def split: if_splits)
  have its: "itIntents db = itIntents db0 @ [r]" using one by (simp add: onePending_def addIntent_def)
  have other: "irwID q \<notin> ?ids" if q: "q \<in> set (itIntents db0)" for q
  proof
    assume "irwID q \<in> ?ids"
    then obtain c where c: "c \<in> set (intentCandidates locked at limit (itIntents db))" "irwID q = irwID c" by blast
    note cand = intentCandidates_in [OF c(1)]
    have "irwState c \<noteq> IntentDelivered" using cand(2) by (auto simp: claimableIntent_def)
    with only_other [OF one cand(1)] have "c = r" by blast
    moreover have "irwID q \<noteq> irwID r"
      using q one fresh_id [OF allDeliveredD(1)] by (force simp: onePending_def)
    ultimately show False using c(2) by simp
  qed
  then have u: "updateRows (\<lambda>q. irwID q \<in> ?ids) (claimIntent token (micros (at + lease))) (itIntents db) =
      itIntents db0 @ [if irwID r \<in> ?ids then claimIntent token (micros (at + lease)) r else r]"
    unfolding its updateRows_snoc by (simp add: updateRows_id)
  have "irwID r \<in> ?ids"
  proof (rule ccontr)
    assume "irwID r \<notin> ?ids"
    with other have "rows = []" unfolding rows u by (auto simp: filter_empty_conv)
    with assms(3) show False by simp
  qed
  with u db1 show ?thesis by simp
qed

lemma deliver_delivers:
  assumes one: "onePending r db0 db" and d: "deliver pl (irwID r) at db = Inr db'"
  shows "allDelivered db' \<and> (\<exists>q. itIntents db' = itIntents db0 @ [q] \<and> intentIdentity q = intentIdentity r) \<and>
    itNextIntent db' = itNextIntent db"
proof -
  let ?i = "irwID r" and ?token = "''demo-'' @ formatInt (irwID r)"
  obtain db1 rows where c: "ClaimNotificationIntents (plLocked pl ?i) at 1 minute ?token db = Inr (db1, rows)"
    and len: "length rows = 1"
    using d by (auto simp: deliver_def Let_def split: sum.splits if_splits)
  obtain db2 n att where b: "BeginDeliveryAttempt ?i ?token at db1 = Inr (db2, n, att)"
    using d c len by (auto simp: deliver_def Let_def split: sum.splits)
  obtain ok where f: "FinishDeliveryAttempt ?i att ?token True ''delivered by deterministic demo replay'' at at db2 = Inr (db', ok)"
    using d c len b by (auto simp: deliver_def Let_def split: sum.splits)
  let ?q = "claimIntent ?token (micros (at + minute)) r"
  have db0: "allDelivered db0" "?i = itNextIntent db0" "db = addIntent r db0" using one by (simp_all add: onePending_def)
  have db1: "db1 = db\<lparr>itIntents := itIntents db0 @ [?q]\<rparr>" by (rule deliver_claims [OF one c len])
  have holds: "\<exists>r \<in> set (itIntents db1). holdsClaim ?i ?token at r"
    and db2: "db2 = db1\<lparr>itAttempts := itAttempts db1 @ [\<lparr>awrID = itNextAttempt db1, awrIntentID = ?i,
        awrNumber = n, awrState = AttemptStarted, awrVisibleMessage = None, awrFinishedAt = None\<rparr>],
        itNextAttempt := itNextAttempt db1 + 1\<rparr>" and att: "att = itNextAttempt db1"
    using b by (auto simp: BeginDeliveryAttempt_def Let_def split: if_splits)
  have old: "awrID a < itNextAttempt db1" if "a \<in> set (itAttempts db1)" for a
    using allDeliveredD(3) [OF db0(1), of a] that by (simp add: db1 db0(3) addIntent_def)
  let ?hit = "\<lambda>a. awrID a = att \<and> awrIntentID a = ?i \<and> (\<exists>r \<in> set (itIntents db2). holdsClaim ?i ?token at r)"
  have "countRows ?hit (itAttempts db2) = 1"
  proof -
    have "\<exists>r \<in> set (itIntents db2). holdsClaim ?i ?token at r" using holds by (simp add: db2)
    moreover have "filter ?hit (itAttempts db1) = []" using old by (force simp: filter_empty_conv att)
    ultimately show ?thesis by (simp add: countRows_def db2 att)
  qed
  with f have db': "db' = db2\<lparr>itAttempts := updateRows ?hit (finishAttemptRow True ''delivered by deterministic demo replay'' at) (itAttempts db2),
      itDeliveries := (itDeliveries db2)(?i \<mapsto> \<lparr>dwrAttemptID = att, dwrDeliveredAt = micros at, dwrOutcome = ''stub'',
        dwrVisibleMessage = ''delivered by deterministic demo replay''\<rparr>),
      itIntents := updateRows (\<lambda>r. irwID r = ?i \<and> irwState r = IntentClaimed \<and> irwClaimToken r = Some ?token)
        (closeIntent True at) (itIntents db2)\<rparr>"
    by (auto simp: FinishDeliveryAttempt_def Let_def split: if_splits)
  have "updateRows (\<lambda>r. irwID r = ?i \<and> irwState r = IntentClaimed \<and> irwClaimToken r = Some ?token)
      (closeIntent True at) (itIntents db2) = itIntents db0 @ [closeIntent True at ?q]"
  proof -
    have "\<not> (irwID q = ?i \<and> irwState q = IntentClaimed \<and> irwClaimToken q = Some ?token)" if "q \<in> set (itIntents db0)" for q
      using allDeliveredD(2) [OF db0(1) that] by simp
    then show ?thesis by (simp add: db2 db1 updateRows_snoc updateRows_id claimIntent_def)
  qed
  then have its: "itIntents db' = itIntents db0 @ [closeIntent True at ?q]" by (simp add: db')
  have del: "itDeliveries db' = (itDeliveries db0)(?i \<mapsto> \<lparr>dwrAttemptID = att, dwrDeliveredAt = micros at, dwrOutcome = ''stub'',
        dwrVisibleMessage = ''delivered by deterministic demo replay''\<rparr>)"
    and next': "itNextIntent db' = itNextIntent db0 + 1" and nexta: "itNextAttempt db' = itNextAttempt db1 + 1"
    by (simp_all add: db' db2 db1 db0(3) addIntent_def)
  have "awrID a < itNextAttempt db'" if "a \<in> set (itAttempts db')" for a
  proof -
    have "a \<in> set (updateRows ?hit (finishAttemptRow True ''delivered by deterministic demo replay'' at) (itAttempts db2))"
      using that by (simp add: db')
    then obtain b where "b \<in> set (itAttempts db2)" "awrID a = awrID b"
      by (rule updateRows_in) (auto simp: finishAttemptRow_def split: if_splits)
    with old show ?thesis unfolding nexta by (fastforce simp: db2)
  qed
  moreover have "intentsOk db'"
    using allDeliveredD(1) [OF db0(1)] fresh_id [OF allDeliveredD(1) [OF db0(1)]] db0(2)
    by (auto simp: intentsOk_def its next')
  moreover have "irwState (closeIntent True at ?q) = IntentDelivered" by (simp add: closeIntent_def)
  moreover have "dom (itDeliveries db') = irwID ` set (itIntents db')"
    using allDeliveredD(4) [OF db0(1)] by (simp add: del its)
  ultimately have "allDelivered db'"
    using allDeliveredD(2) [OF db0(1)] by (auto simp: allDelivered_def its)
  then show ?thesis by (simp add: its next' db0(3) addIntent_def)
qed

subsection \<open>Storing an intent\<close>

text \<open>What is kept of the other parts of the state.\<close>

definition sameBut :: "replay_state \<Rightarrow> replay_state \<Rightarrow> bool" where
  "sameBut s s' \<longleftrightarrow> rpRuntime s' = rpRuntime s \<and> rpBuilder s' = rpBuilder s \<and> rpLogical s' = rpLogical s \<and>
     dbOccurrences (rpDB s') = dbOccurrences (rpDB s) \<and> dbObservations (rpDB s') = dbObservations (rpDB s) \<and>
     dbRules (rpDB s') = dbRules (rpDB s) \<and> smOccurrences (rpSummary s') = smOccurrences (rpSummary s)"

lemma sameBut_refl [simp]: "sameBut s s"
  by (simp add: sameBut_def)

lemma sameBut_trans: "sameBut s t \<Longrightarrow> sameBut t u \<Longrightarrow> sameBut s u"
  by (simp add: sameBut_def)

lemma storeIntent_fresh:
  assumes all: "allDelivered (dbIntents (rpDB s))"
    and fresh: "\<And>r. r \<in> set (itIntents (dbIntents (rpDB s))) \<Longrightarrow> irwAlertTransitionID r \<noteq> Some tid"
    and st: "storeIntent pl gid tid a x s = (s', None)"
  shows "allDelivered (dbIntents (rpDB s')) \<and>
    (\<exists>r. itIntents (dbIntents (rpDB s')) = itIntents (dbIntents (rpDB s)) @ [r] \<and> irwAlertTransitionID r = Some tid \<and>
      irwTransitionType r = kindString (atKind a) \<and> irwAudience r = inAudience x \<and> irwAlertGenerationID r = gid) \<and>
    gid \<in> grwID ` set (alGenerations (dbAlerts (rpDB s))) \<and> sameBut s s' \<and> rpAlerts s' = rpAlerts s \<and> rpPlanner s' = rpPlanner s \<and> dbAlerts (rpDB s') = dbAlerts (rpDB s) \<and>
    smNotifications (rpSummary s') = smNotifications (rpSummary s) + 1 \<and> smAlerts (rpSummary s') = smAlerts (rpSummary s)"
proof -
  let ?db = "dbIntents (rpDB s)" and ?ty = "kindString (atKind a)"
  obtain payload where pay: "payloadOf pl a = Some payload" using st by (auto simp: storeIntent_def split: option.splits)
  let ?ensure = "EnsureNotificationIntentForTransition (plJsonb pl) (grwID ` set (alGenerations (dbAlerts (rpDB s))))
    (xrwID ` set (alTransitions (dbAlerts (rpDB s)))) (plIntentClock pl (itNextIntent ?db)) tid gid ?ty (inAudience x) payload ?db"
  obtain db1 i ins where e: "?ensure = Inr (db1, i, ins)"
    using st pay by (auto simp: storeIntent_def split: sum.splits)
  have none: "\<not> sameTransition tid (inAudience x) ?ty r" if "r \<in> set (itIntents ?db)" for r
    using fresh [OF that] by (simp add: sameTransition_def)
  then have "find (sameTransition tid (inAudience x) ?ty) (itIntents ?db) = None" by (simp add: find_None_iff)
  then have new: "\<not> (\<exists>r \<in> set (itIntents ?db). irwDedupeKey r = transitionDedupe tid (inAudience x) ?ty \<or>
      sameTransition tid (inAudience x) ?ty r)"
    using e by (auto simp: EnsureNotificationIntentForTransition_def Let_def split: if_splits)
  let ?r = "newIntent (itNextIntent ?db) (plIntentClock pl (itNextIntent ?db)) (transitionDedupe tid (inAudience x) ?ty) gid
    (Some tid) ?ty (inAudience x) (plJsonb pl payload)"
  have db1: "db1 = addIntent ?r ?db" "i = irwID ?r" "ins" and gen: "gid \<in> grwID ` set (alGenerations (dbAlerts (rpDB s)))"
    using e new by (auto simp: EnsureNotificationIntentForTransition_def Let_def newIntent_def split: if_splits)
  obtain db2 where d: "deliver pl (irwID ?r) (atAt a) db1 = Inr db2"
    and s': "s' = s\<lparr>rpDB := (rpDB s)\<lparr>dbIntents := db2\<rparr>,
      rpSummary := (rpSummary s)\<lparr>smNotifications := smNotifications (rpSummary s) + 1\<rparr>\<rparr>"
    using st pay e db1(2,3) by (auto simp: storeIntent_def split: sum.splits)
  have one: "onePending ?r ?db db1" using all by (simp add: onePending_def db1(1)) (simp add: newIntent_def)
  from deliver_delivers [OF one d] obtain q where q: "allDelivered db2" "itIntents db2 = itIntents ?db @ [q]"
    "intentIdentity q = intentIdentity ?r" by blast
  have "irwAlertTransitionID q = Some tid \<and> irwTransitionType q = ?ty \<and> irwAudience q = inAudience x \<and>
      irwAlertGenerationID q = gid"
    using q(3) by (simp add: intentIdentity_def newIntent_def)
  with q s' gen show ?thesis by (simp add: sameBut_def)
qed

subsection \<open>One alert transition\<close>

definition intentMirrors :: "alert_transition list \<Rightarrow> intent_row \<Rightarrow> string \<times> intent \<Rightarrow> bool" where
  "intentMirrors J r e \<longleftrightarrow> (\<exists>n < length J. irwAlertTransitionID r = Some (int n + 1) \<and>
     inAlertTransitionID (snd e) = atID (J ! n) \<and> irwTransitionType r = kindString (inKind (snd e)) \<and>
     irwAudience r = inAudience (snd e))"

lemma intentMirrors_append: "intentMirrors J r e \<Longrightarrow> intentMirrors (J @ K) r e"
  by (force simp: intentMirrors_def nth_append)

text \<open>The tables hold the alert transitions \<open>J\<close> and the intents of the planner.\<close>

definition mirrors :: "replay_state \<Rightarrow> alert_transition list \<Rightarrow> bool" where
  "mirrors s J \<longleftrightarrow> rowsOk (dbAlerts (rpDB s)) \<and> alertBook (dbAlerts (rpDB s)) = foldl bookStep [] J \<and>
     alertLog (dbAlerts (rpDB s)) = map logEntry J \<and> alNextTransition (dbAlerts (rpDB s)) = int (length J) + 1 \<and>
     allDelivered (dbIntents (rpDB s)) \<and>
     list_all2 (intentMirrors J) (itIntents (dbIntents (rpDB s))) (rpPlanner s) \<and>
     smAlerts (rpSummary s) = int (length J) \<and>
     smNotifications (rpSummary s) = int (length (itIntents (dbIntents (rpDB s))))"

lemma mirrors_transitionID:
  assumes "mirrors s J" and "r \<in> set (itIntents (dbIntents (rpDB s)))"
  shows "irwAlertTransitionID r \<noteq> Some (int (length J) + 1)"
proof -
  have "list_all2 (intentMirrors J) (itIntents (dbIntents (rpDB s))) (rpPlanner s)" using assms(1) by (simp add: mirrors_def)
  then have "\<exists>e. intentMirrors J r e" using assms(2) by (induction rule: list_all2_induct) auto
  then show ?thesis by (auto simp: intentMirrors_def)
qed

lemma Plan_created:
  assumes "Plan p a pol = (p', Some x, True)"
  shows "p' = p @ [(IntentID a, x)] \<and> inAlertTransitionID x = atID a \<and> inKind x = atKind a"
proof -
  have "map_of p (IntentID a) = None" "p' = AList.update (IntentID a) (planIntent a pol) p" "x = planIntent a pol"
    using assms by (auto simp: Plan_def split: if_splits option.splits)
  moreover have "AList.update k v m = m @ [(k, v)]" if "map_of m k = None" for k :: string and v :: intent and m
    using that by (induction m) (auto split: if_splits)
  ultimately show ?thesis by (simp add: planIntent_def)
qed

lemma Plan_kept: "Plan p a pol = (p', i, c) \<Longrightarrow> i = None \<or> \<not> c \<Longrightarrow> p' = p"
  by (auto simp: Plan_def split: if_splits option.splits)

lemma emitAlert_mirrors:
  assumes m: "mirrors s J" and e: "emitAlert pl pol s a = (s', None)"
  shows "mirrors s' (J @ [a]) \<and> sameBut s s' \<and> rpAlerts s' = rpAlerts s"
proof -
  obtain al gid tid where p: "persistAlert a (dbAlerts (rpDB s)) = Inr (al, gid, tid)"
    using e by (auto simp: emitAlert_def split: sum.splits)
  have ok: "rowsOk (dbAlerts (rpDB s))" using m by (simp add: mirrors_def)
  note pe = persistAlert_effect [OF ok p]
  obtain pn i c where plan: "Plan (rpPlanner s) a pol = (pn, i, c)" by (cases "Plan (rpPlanner s) a pol")
  let ?s = "s\<lparr>rpDB := (rpDB s)\<lparr>dbAlerts := al\<rparr>, rpPlanner := pn,
    rpSummary := (rpSummary s)\<lparr>smAlerts := smAlerts (rpSummary s) + 1\<rparr>\<rparr>"
  have grown: "list_all2 (intentMirrors (J @ [a])) (itIntents (dbIntents (rpDB s))) (rpPlanner s)"
    using m by (auto simp: mirrors_def intro: list_all2_mono intentMirrors_append)
  show ?thesis
  proof (cases "i = None \<or> \<not> c")
    case True
    then have "s' = ?s" using e p plan by (auto simp: emitAlert_def Let_def split: option.splits)
    with Plan_kept [OF plan True] pe m grown show ?thesis by (simp add: mirrors_def sameBut_def)
  next
    case False
    then obtain x where x: "i = Some x" "c" by auto
    then have st: "storeIntent pl gid tid a x ?s = (s', None)" using e p plan by (simp add: emitAlert_def Let_def)
    have tid: "tid = int (length J) + 1" using pe m by (simp add: mirrors_def)
    have fresh: "irwAlertTransitionID r \<noteq> Some tid" if "r \<in> set (itIntents (dbIntents (rpDB ?s)))" for r
      unfolding tid using mirrors_transitionID [OF m] that by simp
    have all: "allDelivered (dbIntents (rpDB ?s))" using m by (simp add: mirrors_def)
    from storeIntent_fresh [OF all fresh st] obtain r where
      r: "itIntents (dbIntents (rpDB s')) = itIntents (dbIntents (rpDB s)) @ [r]" "irwAlertTransitionID r = Some tid"
        "irwTransitionType r = kindString (atKind a)" "irwAudience r = inAudience x"
      and rest: "allDelivered (dbIntents (rpDB s'))" "sameBut ?s s'" "rpAlerts s' = rpAlerts s" "rpPlanner s' = pn"
        "dbAlerts (rpDB s') = al" "smNotifications (rpSummary s') = smNotifications (rpSummary s) + 1"
        "smAlerts (rpSummary s') = smAlerts (rpSummary s) + 1"
      by auto
    have pn: "pn = rpPlanner s @ [(IntentID a, x)]" "inAlertTransitionID x = atID a" "inKind x = atKind a"
      using Plan_created plan x by auto
    have "intentMirrors (J @ [a]) r (IntentID a, x)"
      using r(2-4) pn(2,3) tid by (auto simp: intentMirrors_def intro!: exI [of _ "length J"])
    with grown have "list_all2 (intentMirrors (J @ [a])) (itIntents (dbIntents (rpDB s'))) (rpPlanner s')"
      unfolding r(1) rest(4) pn(1) by (intro list_all2_appendI) simp_all
    moreover have "sameBut s s'" using rest(2) by (simp add: sameBut_def)
    ultimately show ?thesis using rest r(1) pe m by (simp add: mirrors_def)
  qed
qed

subsection \<open>Condition transitions\<close>

definition sameRun :: "replay_state \<Rightarrow> replay_state \<Rightarrow> bool" where
  "sameRun s s' \<longleftrightarrow> sameBut s s' \<and> rpAlerts s' = rpAlerts s"

lemma emitAlerts_mirrors:
  assumes "mirrors s J" and "untilError (emitAlert pl pol) s ats = (s', None)"
  shows "mirrors s' (J @ ats) \<and> sameRun s s'"
proof (rule untilError_track [where I = "\<lambda>u P. mirrors u P \<and> sameRun s u" and P = J, OF _ _ assms(2)])
  show "mirrors s J \<and> sameRun s s" using assms(1) by (simp add: sameRun_def)
next
  fix u P a u' assume "mirrors u P \<and> sameRun s u" "emitAlert pl pol u a = (u', None)"
  with emitAlert_mirrors [of u P pl pol a u'] show "mirrors u' (P @ [a]) \<and> sameRun s u'"
    by (auto simp: sameRun_def intro: sameBut_trans)
qed

definition mirrored :: "replay_state \<Rightarrow> transition list \<Rightarrow> bool" where
  "mirrored s T \<longleftrightarrow> rpAlerts s = alertsOf T \<and> mirrors s (AlertTransitions (rpAlerts s))"

lemma emitTransition_mirrored:
  assumes m: "mirrored s T" and e: "emitTransition pl policies s t = (s', None)"
  shows "mirrored s' (T @ [t]) \<and> sameBut s s'"
proof -
  let ?r = "fst (applyTransition (rpAlerts s) t)" and ?ats = "snd (applyTransition (rpAlerts s) t)"
  let ?s = "s\<lparr>rpAlerts := ?r\<rparr>"
  have r: "rpAlerts s = alertsOf T" using m by (simp add: mirrored_def)
  have u: "untilError (emitAlert pl (policies (revisionKey (RuleID (trKey t)) (Revision (trKey t))))) ?s ?ats = (s', None)"
    using e by (simp add: emitTransition_def case_prod_beta)
  have "mirrors s (AlertTransitions (rpAlerts s))" using m unfolding mirrored_def ..
  then have "mirrors ?s (AlertTransitions (rpAlerts s))" by (simp add: mirrors_def)
  from emitAlerts_mirrors [OF this u] have "mirrors s' (AlertTransitions (rpAlerts s) @ ?ats)" "sameRun ?s s'" by auto
  moreover have "AlertTransitions ?r = AlertTransitions (rpAlerts s) @ ?ats"
    using applyTransition_output(1) [OF alertsOf_inv [of T], of t] by (simp add: r)
  ultimately show ?thesis using r by (simp add: mirrored_def sameRun_def sameBut_def)
qed

lemma emitAll_mirrored:
  assumes "mirrored s T" and "emitAll pl policies s ts = (s', None)"
  shows "mirrored s' (T @ ts) \<and> sameBut s s'"
proof (rule untilError_track [where I = "\<lambda>u P. mirrored u P \<and> sameBut s u" and P = T, OF _ _ assms(2) [unfolded emitAll_def]])
  fix u P t u' assume "mirrored u P \<and> sameBut s u" "emitTransition pl policies u t = (u', None)"
  with emitTransition_mirrored [of u P pl policies t u'] show "mirrored u' (P @ [t]) \<and> sameBut s u'"
    by (auto intro: sameBut_trans)
qed (use assms(1) in simp)

subsection \<open>One line\<close>

definition replayInv :: "active_rule list \<Rightarrow> replay_state \<Rightarrow> bool" where
  "replayInv active s \<longleftrightarrow> runtimeInv active None (rpRuntime s) \<and> ruLogical (rpRuntime s) \<le> rpLogical s \<and>
     0 \<le> rpLogical s \<and> (\<exists>T. mirrored s T \<and> chronicle (rpRuntime s) T)"

lemma mirrored_frame [simp]:
  "mirrored (s\<lparr>rpRuntime := rt\<rparr>) T = mirrored s T" "mirrored (s\<lparr>rpLogical := t\<rparr>) T = mirrored s T"
  "mirrored (s\<lparr>rpBuilder := b\<rparr>) T = mirrored s T"
  "mirrored (s\<lparr>rpDB := (rpDB s)\<lparr>dbOccurrences := oc\<rparr>\<rparr>) T = mirrored s T"
  "mirrored (s\<lparr>rpDB := (rpDB s)\<lparr>dbObservations := ob\<rparr>\<rparr>) T = mirrored s T"
  "mirrored (s\<lparr>rpSummary := (rpSummary s)\<lparr>smOccurrences := n\<rparr>\<rparr>) T = mirrored s T"
  by (simp_all add: mirrored_def mirrors_def)

text \<open>Emitting what the runtime journalled.\<close>

lemma replayInv_emit:
  assumes inv: "replayInv active s" and rt: "runtimeInv active None rt" "ruLogical rt \<le> rpLogical s"
    and j: "\<And>k. runtimeJournal rt k = runtimeJournal (rpRuntime s) k @ onKey k ts"
    and e: "emitAll pl policies (s\<lparr>rpRuntime := rt\<rparr>) ts = (s', None)"
  shows "replayInv active s' \<and> sameBut (s\<lparr>rpRuntime := rt\<rparr>) s'"
proof -
  obtain T where T: "mirrored s T" "chronicle (rpRuntime s) T" using inv by (auto simp: replayInv_def)
  from emitAll_mirrored [OF _ e, of T] T(1) have m: "mirrored s' (T @ ts)" "sameBut (s\<lparr>rpRuntime := rt\<rparr>) s'" by auto
  have "chronicle rt (T @ ts)" using T(2) j by (simp add: chronicle_def)
  with m rt inv show ?thesis by (auto simp: replayInv_def sameBut_def)
qed

lemma projectLine_steps:
  assumes "projectLine pl active policies i occ s = (s', None)"
  obtains b u ob where "Build (rpBuilder s) occ = (b, Inr u)"
    "persistProjection (ingestOf (dbOccurrences (rpDB s))) i u (dbObservations (rpDB s)) = Inr ob"
    "judgeLine pl active policies i occ (s\<lparr>rpBuilder := b, rpDB := (rpDB s)\<lparr>dbObservations := ob\<rparr>\<rparr>) = (s', None)"
proof -
  obtain b u where b: "Build (rpBuilder s) occ = (b, Inr u)"
    using assms by (auto simp: projectLine_def split: sum.splits prod.splits)
  obtain ob where ob: "persistProjection (ingestOf (dbOccurrences (rpDB s))) i u (dbObservations (rpDB s)) = Inr ob"
    using assms b by (auto simp: projectLine_def split: sum.splits)
  from that [OF b ob] assms b ob show thesis by (simp add: projectLine_def)
qed

lemma lineBody_steps:
  assumes l: "lineBody pl cfg active policies env s = (s', None)"
  obtains oc1 i ins oc2 u where
    "InsertOccurrence (plDigest pl) (plJsonb pl) (lineInput cfg env) (dbOccurrences (rpDB s)) = Inr (oc1, i, ins)"
    "EnsureProcessing i oc1 = Inr (oc2, u)" "\<not> ins" "s' = s\<lparr>rpDB := (rpDB s)\<lparr>dbOccurrences := oc2\<rparr>\<rparr>"
  | oc1 i ins oc2 u rt ts s2 where
    "InsertOccurrence (plDigest pl) (plJsonb pl) (lineInput cfg env) (dbOccurrences (rpDB s)) = Inr (oc1, i, ins)"
    "EnsureProcessing i oc1 = Inr (oc2, u)" "ins" "AdvanceRuntime (rpRuntime s) (rpLogical s) = Some (rt, Inr ts)"
    "emitAll pl policies (s\<lparr>rpDB := (rpDB s)\<lparr>dbOccurrences := oc2\<rparr>, rpRuntime := rt\<rparr>) ts = (s2, None)"
    "projectLine pl active policies i (lineOccurrence cfg i env) s2 = (s', None)"
proof -
  obtain oc1 i ins where ins: "InsertOccurrence (plDigest pl) (plJsonb pl) (lineInput cfg env) (dbOccurrences (rpDB s)) = Inr (oc1, i, ins)"
    using l by (auto simp: lineBody_def split: sum.splits)
  obtain oc2 u where ens: "EnsureProcessing i oc1 = Inr (oc2, u)" using l ins by (auto simp: lineBody_def split: sum.splits)
  show thesis
  proof (cases ins)
    case False
    with l ins ens have "s' = s\<lparr>rpDB := (rpDB s)\<lparr>dbOccurrences := oc2\<rparr>\<rparr>" by (simp add: lineBody_def)
    from that(1) [OF ins ens False this] show thesis .
  next
    case True
    obtain rt ts where adv: "AdvanceRuntime (rpRuntime s) (rpLogical s) = Some (rt, Inr ts)"
      using l ins ens True by (auto simp: lineBody_def Let_def split: sum.splits prod.splits option.splits)
    obtain s2 where em: "emitAll pl policies (s\<lparr>rpDB := (rpDB s)\<lparr>dbOccurrences := oc2\<rparr>, rpRuntime := rt\<rparr>) ts = (s2, None)"
      using l ins ens True adv by (auto simp: lineBody_def Let_def split: prod.splits option.splits)
    with l ins ens True adv have "projectLine pl active policies i (lineOccurrence cfg i env) s2 = (s', None)"
      by (simp add: lineBody_def)
    from that(2) [OF ins ens True adv em this] show thesis .
  qed
qed

lemma judgeLine_steps:
  assumes "judgeLine pl active policies i occ s = (s', None)"
  obtains request result rt ts s1 oc u where "NewEvaluationRequest occ (rpLogical s) active = Inr request"
    "Evaluate (rpRuntime s) request (evidenceProvider (rpBuilder s)) = Inr result"
    "ApplyResult (rpRuntime s) result = (rt, Inr ts)" "emitAll pl policies (s\<lparr>rpRuntime := rt\<rparr>) ts = (s1, None)"
    "MarkProcessed i (dbOccurrences (rpDB s1)) = Inr (oc, u)"
    "s' = s1\<lparr>rpDB := (rpDB s1)\<lparr>dbOccurrences := oc\<rparr>,
      rpSummary := (rpSummary s1)\<lparr>smOccurrences := smOccurrences (rpSummary s1) + 1\<rparr>\<rparr>"
proof -
  note j = assms
  obtain request where req: "NewEvaluationRequest occ (rpLogical s) active = Inr request"
    using j by (auto simp: judgeLine_def split: sum.splits)
  obtain result where res: "Evaluate (rpRuntime s) request (evidenceProvider (rpBuilder s)) = Inr result"
    using j req by (auto simp: judgeLine_def split: sum.splits)
  obtain rt ts where ap: "ApplyResult (rpRuntime s) result = (rt, Inr ts)"
    using j req res by (auto simp: judgeLine_def split: sum.splits prod.splits)
  obtain s1 where em: "emitAll pl policies (s\<lparr>rpRuntime := rt\<rparr>) ts = (s1, None)"
    using j req res ap by (auto simp: judgeLine_def split: prod.splits option.splits)
  obtain oc u where mk: "MarkProcessed i (dbOccurrences (rpDB s1)) = Inr (oc, u)"
    and s': "s' = s1\<lparr>rpDB := (rpDB s1)\<lparr>dbOccurrences := oc\<rparr>,
      rpSummary := (rpSummary s1)\<lparr>smOccurrences := smOccurrences (rpSummary s1) + 1\<rparr>\<rparr>"
    using j req res ap em by (auto simp: judgeLine_def split: sum.splits)
  from that [OF req res ap em mk s'] show thesis .
qed

lemma judgeLine_inv:
  assumes inv: "replayInv active s" and j: "judgeLine pl active policies i occ s = (s', None)"
  shows "replayInv active s' \<and> dbRules (rpDB s') = dbRules (rpDB s) \<and>
    dbObservations (rpDB s') = dbObservations (rpDB s) \<and> rpLogical s' = rpLogical s \<and> rpBuilder s' = rpBuilder s \<and>
    MarkProcessed i (dbOccurrences (rpDB s)) = Inr (dbOccurrences (rpDB s'), ()) \<and>
    ruLogical (rpRuntime s') = ruLogical (rpRuntime s) \<and> smOccurrences (rpSummary s') = smOccurrences (rpSummary s) + 1"
proof -
  obtain request result rt ts s1 oc u where req: "NewEvaluationRequest occ (rpLogical s) active = Inr request"
    and res: "Evaluate (rpRuntime s) request (evidenceProvider (rpBuilder s)) = Inr result"
    and ap: "ApplyResult (rpRuntime s) result = (rt, Inr ts)"
    and em: "emitAll pl policies (s\<lparr>rpRuntime := rt\<rparr>) ts = (s1, None)"
    and mk: "MarkProcessed i (dbOccurrences (rpDB s1)) = Inr (oc, u)"
    and s': "s' = s1\<lparr>rpDB := (rpDB s1)\<lparr>dbOccurrences := oc\<rparr>,
      rpSummary := (rpSummary s1)\<lparr>smOccurrences := smOccurrences (rpSummary s1) + 1\<rparr>\<rparr>"
    using j by (rule judgeLine_steps)
  have r: "runtimeInv active None (rpRuntime s)" using inv by (simp add: replayInv_def)
  have rt: "runtimeInv active None rt" "ruLogical rt = ruLogical (rpRuntime s)"
    "\<And>k. runtimeJournal rt k = runtimeJournal (rpRuntime s) k @ onKey k ts"
    using runtimeInv_ApplyResult [OF r ap] ApplyResult_logical [OF ap] runtimeJournal_ApplyResult [OF r ap] by simp_all
  have "ruLogical rt \<le> rpLogical s" using inv rt(2) by (simp add: replayInv_def)
  from replayInv_emit [OF inv rt(1) this rt(3) em] mk s' rt(2) show ?thesis
    by (auto simp: replayInv_def sameBut_def mirrored_def mirrors_def)
qed

text \<open>The tables of occurrences: rows are only added, and an admitted occurrence stays admitted.\<close>

definition lineAdmitted :: "platform \<Rightarrow> config \<Rightarrow> envelope \<Rightarrow> occurrence_tables \<Rightarrow> bool" where
  "lineAdmitted pl cfg env db \<longleftrightarrow> (let oc = lineInput cfg env in
     case admittedRow (ocSource oc) (ocIdempotencyKey oc) db of None \<Rightarrow> False
     | Some r \<Rightarrow> orwPayloadHash r = plDigest pl (ocPayload oc) \<and> orwSourceEventID r = ocSourceEventID oc \<and>
         orwEffectiveAt r = micros (ocEffectiveAt oc) \<and> orwStreamPosition r = ocStreamPosition oc \<and>
         otProcessing db (orwID r) \<noteq> None)"

definition grown :: "occurrence_tables \<Rightarrow> occurrence_tables \<Rightarrow> bool" where
  "grown db db' \<longleftrightarrow> (\<exists>xs. otOccurrences db' = otOccurrences db @ xs) \<and> dom (otProcessing db) \<subseteq> dom (otProcessing db')"

lemma grown_refl [simp]: "grown db db"
  by (simp add: grown_def)

lemma grown_trans: "grown a b \<Longrightarrow> grown b c \<Longrightarrow> grown a c"
  by (force simp: grown_def)

lemma find_stays: "find P xs = Some x \<Longrightarrow> find P (xs @ ys) = Some x"
  by (induction xs) (auto split: if_splits)

lemma admitted_grown: "lineAdmitted pl cfg env db \<Longrightarrow> grown db db' \<Longrightarrow> lineAdmitted pl cfg env db'"
  by (auto simp: lineAdmitted_def grown_def Let_def admittedRow_def find_stays dom_def split: option.splits)

lemma InsertOccurrence_grown: "InsertOccurrence digest jsonb oc db = Inr (db', i, ins) \<Longrightarrow> grown db db'"
  by (auto simp: InsertOccurrence_def grown_def split: if_splits option.splits)

lemma EnsureProcessing_grown: "EnsureProcessing i db = Inr (db', u) \<Longrightarrow> grown db db' \<and> otProcessing db' i \<noteq> None"
  by (auto simp: EnsureProcessing_def grown_def split: if_splits)

lemma MarkProcessed_grown: "MarkProcessed i db = Inr (db', u) \<Longrightarrow> grown db db'"
  by (auto simp: MarkProcessed_def grown_def split: if_splits option.splits)

text \<open>After the two statements that admit a line, it is admitted.\<close>

lemma InsertOccurrence_admits:
  assumes i: "InsertOccurrence (plDigest pl) (plJsonb pl) (lineInput cfg env) db = Inr (db1, i, ins)"
    and e: "EnsureProcessing i db1 = Inr (db2, u)" and whole: "timestamp (envEvent env) mod 1000 = 0"
  shows "lineAdmitted pl cfg env db2"
proof -
  let ?oc = "lineInput cfg env"
  have m: "micros (ocEffectiveAt ?oc) = ocEffectiveAt ?oc" using whole by (simp add: lineInput_def micros_def)
  have "\<exists>r. admittedRow (ocSource ?oc) (ocIdempotencyKey ?oc) db1 = Some r \<and> orwID r = i \<and>
      orwPayloadHash r = plDigest pl (ocPayload ?oc) \<and> orwSourceEventID r = ocSourceEventID ?oc \<and>
      orwEffectiveAt r = micros (ocEffectiveAt ?oc) \<and> orwStreamPosition r = ocStreamPosition ?oc"
  proof (cases "admittedRow (ocSource ?oc) (ocIdempotencyKey ?oc) db")
    case None
    moreover have "find P (xs @ [x]) = Some x" if "find P xs = None" "P x" for P :: "occurrence_row \<Rightarrow> bool" and xs x
      using that by (induction xs) (auto split: if_splits)
    ultimately show ?thesis using i by (auto simp: InsertOccurrence_def admittedRow_def occurrenceRow_def)
  next
    case (Some r)
    with i m show ?thesis by (auto simp: InsertOccurrence_def samePosition_def split: if_splits)
  qed
  then obtain r where r: "admittedRow (ocSource ?oc) (ocIdempotencyKey ?oc) db1 = Some r" "orwID r = i"
    "orwPayloadHash r = plDigest pl (ocPayload ?oc)" "orwSourceEventID r = ocSourceEventID ?oc"
    "orwEffectiveAt r = micros (ocEffectiveAt ?oc)" "orwStreamPosition r = ocStreamPosition ?oc" by blast
  have "admittedRow (ocSource ?oc) (ocIdempotencyKey ?oc) db2 = Some r"
    using EnsureProcessing_grown [OF e] r(1) by (auto simp: grown_def admittedRow_def find_stays)
  with r EnsureProcessing_grown [OF e] show ?thesis by (simp add: lineAdmitted_def Let_def)
qed

text \<open>An admitted line is recognised and skipped.\<close>

lemma admitted_skips:
  assumes "lineAdmitted pl cfg env (dbOccurrences (rpDB s))" and "timestamp (envEvent env) mod 1000 = 0"
    and "timestamp (envEvent env) \<noteq> 0"
  shows "replayLine pl cfg active policies s env = (s\<lparr>rpLogical := max (timestamp (envEvent env)) (rpLogical s)\<rparr>, None)"
proof -
  let ?oc = "lineInput cfg env" and ?db = "dbOccurrences (rpDB s)"
  obtain r where r: "admittedRow (ocSource ?oc) (ocIdempotencyKey ?oc) ?db = Some r"
    "orwPayloadHash r = plDigest pl (ocPayload ?oc)" "orwSourceEventID r = ocSourceEventID ?oc"
    "orwEffectiveAt r = micros (ocEffectiveAt ?oc)" "orwStreamPosition r = ocStreamPosition ?oc"
    "otProcessing ?db (orwID r) \<noteq> None"
    using assms(1) by (auto simp: lineAdmitted_def Let_def split: option.splits)
  have m: "micros (ocEffectiveAt ?oc) = ocEffectiveAt ?oc" using assms(2) by (simp add: lineInput_def micros_def)
  have ins: "InsertOccurrence (plDigest pl) (plJsonb pl) ?oc ?db = Inr (?db, orwID r, False)"
    using r m by (simp add: InsertOccurrence_def samePosition_def)
  have ens: "EnsureProcessing (orwID r) ?db = Inr (?db, ())" using r(6) by (simp add: EnsureProcessing_def)
  have body: "lineBody pl cfg active policies env u = (u, None)" if "rpDB u = rpDB s" for u
    using ins ens that by (simp add: lineBody_def)
  show ?thesis
    using assms(3) by (auto simp: replayLine_def Let_def body isZero_def max_def)
qed

subsection \<open>What a line leaves alone\<close>

lemma untilError_frame:
  assumes "\<And>s x. R s (fst (step s x))" and "\<And>s. R s s" and "\<And>s t u. R s t \<Longrightarrow> R t u \<Longrightarrow> R s u"
  shows "R s (fst (untilError step s xs))"
proof (induction xs arbitrary: s)
  case (Cons x xs)
  have "R s (fst (step s x))" by (rule assms(1))
  with Cons.IH [of "fst (step s x)"] show ?case
    by (cases "step s x"; cases "snd (step s x)") (auto intro: assms(3))
qed (simp add: assms(2))

lemma storeIntent_frame: "sameBut s (fst (storeIntent pl gid tid a x s))"
proof (cases "payloadOf pl a")
  case (Some payload)
  let ?ensure = "EnsureNotificationIntentForTransition (plJsonb pl) (grwID ` set (alGenerations (dbAlerts (rpDB s))))
    (xrwID ` set (alTransitions (dbAlerts (rpDB s)))) (plIntentClock pl (itNextIntent (dbIntents (rpDB s)))) tid gid
    (kindString (atKind a)) (inAudience x) payload (dbIntents (rpDB s))"
  show ?thesis
  proof (cases ?ensure)
    case (Inr r)
    obtain db1 i ins where r: "r = (db1, i, ins)" by (cases r)
    show ?thesis
    proof (cases "deliver pl i (atAt a) db1")
      case (Inl err)
      with Some Inr r show ?thesis by (simp add: storeIntent_def sameBut_def)
    next
      case (Inr db2)
      with Some \<open>?ensure = Inr r\<close> r show ?thesis by (simp add: storeIntent_def sameBut_def)
    qed
  qed (use Some in \<open>simp add: storeIntent_def\<close>)
qed (simp add: storeIntent_def)

lemma emitAlert_frame: "sameBut s (fst (emitAlert pl pol s a))"
proof (cases "persistAlert a (dbAlerts (rpDB s))")
  case (Inr r)
  obtain al gid tid where r: "r = (al, gid, tid)" by (cases r)
  obtain p i c where plan: "Plan (rpPlanner s) a pol = (p, i, c)" by (cases "Plan (rpPlanner s) a pol")
  let ?s = "s\<lparr>rpDB := (rpDB s)\<lparr>dbAlerts := al\<rparr>, rpPlanner := p,
    rpSummary := (rpSummary s)\<lparr>smAlerts := smAlerts (rpSummary s) + 1\<rparr>\<rparr>"
  have s: "sameBut s ?s" by (simp add: sameBut_def)
  have "fst (emitAlert pl pol s a) = (case i of None \<Rightarrow> ?s | Some x \<Rightarrow>
      if c then fst (storeIntent pl gid tid a x ?s) else ?s)"
    using Inr r plan by (simp add: emitAlert_def split: option.split)
  moreover have "sameBut s (fst (storeIntent pl gid tid a x ?s))" for x by (rule sameBut_trans [OF s storeIntent_frame])
  ultimately show ?thesis using s by (simp split: option.split)
qed (simp add: emitAlert_def)

lemma emitTransition_frame: "sameBut s (fst (emitTransition pl policies s t))"
proof -
  have "sameBut (s\<lparr>rpAlerts := r\<rparr>) (fst (untilError (emitAlert pl pol) (s\<lparr>rpAlerts := r\<rparr>) ats))" for r pol ats
    by (rule untilError_frame) (auto intro: emitAlert_frame sameBut_trans)
  then show ?thesis by (simp add: emitTransition_def case_prod_beta) (simp add: sameBut_def)
qed

lemma emitAll_frame: "sameBut s (fst (emitAll pl policies s ts))"
  unfolding emitAll_def by (rule untilError_frame) (auto intro: emitTransition_frame sameBut_trans)

lemma judgeLine_frame:
  assumes "judgeLine pl active policies i occ s = (s', None)"
  shows "dbRules (rpDB s') = dbRules (rpDB s) \<and> dbObservations (rpDB s') = dbObservations (rpDB s) \<and>
    grown (dbOccurrences (rpDB s)) (dbOccurrences (rpDB s')) \<and> rpLogical s' = rpLogical s"
proof -
  obtain request result rt ts s1 oc u where em: "emitAll pl policies (s\<lparr>rpRuntime := rt\<rparr>) ts = (s1, None)"
    and mk: "MarkProcessed i (dbOccurrences (rpDB s1)) = Inr (oc, u)"
    and s': "s' = s1\<lparr>rpDB := (rpDB s1)\<lparr>dbOccurrences := oc\<rparr>,
      rpSummary := (rpSummary s1)\<lparr>smOccurrences := smOccurrences (rpSummary s1) + 1\<rparr>\<rparr>"
    using assms by (rule judgeLine_steps)
  have "sameBut (s\<lparr>rpRuntime := rt\<rparr>) s1" using emitAll_frame [of "s\<lparr>rpRuntime := rt\<rparr>" pl policies ts] em by simp
  with MarkProcessed_grown [OF mk] s' show ?thesis by (simp add: sameBut_def)
qed

lemma projectLine_frame:
  assumes "projectLine pl active policies i occ s = (s', None)"
  shows "dbRules (rpDB s') = dbRules (rpDB s) \<and> grown (dbOccurrences (rpDB s)) (dbOccurrences (rpDB s')) \<and>
    rpLogical s' = rpLogical s"
  using assms by (rule projectLine_steps) (auto dest!: judgeLine_frame)

lemma lineBody_frame:
  assumes l: "lineBody pl cfg active policies env s = (s', None)"
  shows "dbRules (rpDB s') = dbRules (rpDB s) \<and> rpLogical s' = rpLogical s \<and>
    grown (dbOccurrences (rpDB s)) (dbOccurrences (rpDB s')) \<and>
    (timestamp (envEvent env) mod 1000 = 0 \<longrightarrow> lineAdmitted pl cfg env (dbOccurrences (rpDB s')))"
  using l
proof (cases rule: lineBody_steps)
  case (1 oc1 i ins oc2 u)
  have "grown (dbOccurrences (rpDB s)) oc2"
    using InsertOccurrence_grown [OF 1(1)] EnsureProcessing_grown [OF 1(2)] grown_trans by blast
  with InsertOccurrence_admits [OF 1(1,2)] 1(4) show ?thesis by simp
next
  case (2 oc1 i ins oc2 u rt ts s2)
  let ?s = "s\<lparr>rpDB := (rpDB s)\<lparr>dbOccurrences := oc2\<rparr>, rpRuntime := rt\<rparr>"
  have g: "grown (dbOccurrences (rpDB s)) oc2"
    using InsertOccurrence_grown [OF 2(1)] EnsureProcessing_grown [OF 2(2)] grown_trans by blast
  have "sameBut ?s s2" using emitAll_frame [of ?s pl policies ts] 2(5) by simp
  with projectLine_frame [OF 2(6)] have f: "dbRules (rpDB s') = dbRules (rpDB s)" "rpLogical s' = rpLogical s"
    "grown oc2 (dbOccurrences (rpDB s'))" by (simp_all add: sameBut_def)
  have "lineAdmitted pl cfg env (dbOccurrences (rpDB s'))" if "timestamp (envEvent env) mod 1000 = 0"
    by (rule admitted_grown [OF InsertOccurrence_admits [OF 2(1,2) that] f(3)])
  with grown_trans [OF g f(3)] f(1,2) show ?thesis by simp
qed

lemma replayLine_frame:
  assumes r: "replayLine pl cfg active policies s env = (s', None)"
  shows "dbRules (rpDB s') = dbRules (rpDB s) \<and> rpLogical s' = max (timestamp (envEvent env)) (rpLogical s) \<and>
    grown (dbOccurrences (rpDB s)) (dbOccurrences (rpDB s')) \<and> timestamp (envEvent env) \<noteq> 0 \<and>
    (timestamp (envEvent env) mod 1000 = 0 \<longrightarrow> lineAdmitted pl cfg env (dbOccurrences (rpDB s')))"
proof -
  let ?s = "if timestamp (envEvent env) > rpLogical s then s\<lparr>rpLogical := timestamp (envEvent env)\<rparr> else s"
  have t: "timestamp (envEvent env) \<noteq> 0" and b: "lineBody pl cfg active policies env ?s = (s', None)"
    using r by (auto simp: replayLine_def Let_def isZero_def split: if_splits prod.splits option.splits)
  from lineBody_frame [OF b] t show ?thesis by (auto simp: max_def split: if_splits)
qed

end
