(* ===== verification/RunProps.thy ===== *)
theory RunProps
  imports RunInv
begin

text \<open>
  Properties of the durable replay: what holds of the database after any runs, what a second run
  does, and how the tables relate to the reducers of the run that filled them.
\<close>

subsection \<open>Streams\<close>

text \<open>The handler of a stream gets the envelopes that a stream that only collects them gets, up to
  its first error.\<close>

lemma streamLoop_factors:
  fixes fn :: "'s \<Rightarrow> envelope \<Rightarrow> 's \<times> 'e option"
  shows "\<exists>es. (\<forall>acc. fst (streamLoop parse sid collect line data acc) = acc @ es) \<and>
    (\<forall>acc acc'. snd (streamLoop parse sid collect line data acc) = snd (streamLoop parse sid collect line data acc')) \<and>
    (\<forall>s. fst (streamLoop parse sid fn line data s) = fst (untilError fn s es)) \<and>
    (\<forall>s acc. snd (streamLoop parse sid fn line data s) = None \<longleftrightarrow>
       snd (streamLoop parse sid collect line data acc) = None \<and> snd (untilError fn s es) = None)"
proof (induction "length data" arbitrary: line data rule: less_induct)
  case less
  show ?case
  proof (cases "splitPhysicalLine data")
    case None
    then show ?thesis by (intro exI [of _ "[]"]) (simp add: streamLoop.simps [of _ _ _ _ data])
  next
    case (Some p)
    obtain n token where p: "p = (n, token)" by (cases p)
    note split = Some [unfolded p]
    show ?thesis
    proof (cases "overflowsBuffer data n \<or> int (length token) > MaxLineBytes \<or> blank token \<or>
        (\<forall>ev. map_option Decode (parse token) \<noteq> Some (Inr ev))")
      case True
      then show ?thesis
        by (intro exI [of _ "[]"])
          (auto simp: streamLoop.simps [of _ _ _ _ data] split split: option.split sum.split)
    next
      case False
      then obtain j ev where ok: "\<not> overflowsBuffer data n" "\<not> int (length token) > MaxLineBytes" "\<not> blank token"
        "parse token = Some j" "Decode j = Inr ev" by auto
      define e where "e = \<lparr>envID = \<lparr>oidStreamID = sid, oidLine = line + 1\<rparr>, envLine = line + 1, envEvent = ev, envRaw = token\<rparr>"
      have step: "streamLoop parse sid f line data s = (case f s e of
          (s', Some err) \<Rightarrow> (s', Some (LineCallback (line + 1) err))
        | (s', None) \<Rightarrow> streamLoop parse sid f (line + 1) (drop n data) s')"
        for f :: "'u \<Rightarrow> envelope \<Rightarrow> 'u \<times> 'f option" and s
        by (subst streamLoop.simps) (simp add: split ok e_def)
      have "length (drop n data) < length data" using splitPhysicalLine_advance [OF split] by auto
      from less.hyps [OF this, of "line + 1"] obtain es where
        es: "\<And>acc. fst (streamLoop parse sid collect (line + 1) (drop n data) acc) = acc @ es"
        "\<And>acc acc'. snd (streamLoop parse sid collect (line + 1) (drop n data) acc) =
          snd (streamLoop parse sid collect (line + 1) (drop n data) acc')"
        "\<And>s. fst (streamLoop parse sid fn (line + 1) (drop n data) s) = fst (untilError fn s es)"
        "\<And>s acc. snd (streamLoop parse sid fn (line + 1) (drop n data) s) = None \<longleftrightarrow>
           snd (streamLoop parse sid collect (line + 1) (drop n data) acc) = None \<and> snd (untilError fn s es) = None"
        by blast
      have c: "streamLoop parse sid collect line data acc = streamLoop parse sid collect (line + 1) (drop n data) (acc @ [e])" for acc
        by (simp add: step collect_def)
      have f: "fst (streamLoop parse sid fn line data s) = fst (untilError fn s (e # es)) \<and>
        (snd (streamLoop parse sid fn line data s) = None \<longleftrightarrow>
           snd (streamLoop parse sid collect (line + 1) (drop n data) (acc @ [e])) = None \<and> snd (untilError fn s (e # es)) = None)"
        for s acc
        by (cases "fn s e"; cases "snd (fn s e)") (auto simp: step es(3) es(4) [of _ "acc @ [e]"])
      show ?thesis unfolding c using es(1) es(2) f by (intro exI [of _ "e # es"]) (auto simp: es(1))
    qed
  qed
qed

lemma Stream_factors:
  fixes fn :: "'s \<Rightarrow> envelope \<Rightarrow> 's \<times> 'e option"
  obtains es where "fst (Stream parse text sid collect []) = es"
    "\<And>s. fst (Stream parse text sid fn s) = fst (untilError fn s es)"
    "\<And>s. snd (Stream parse text sid fn s) = None \<longleftrightarrow> snd (Stream parse text sid collect []) = None \<and> snd (untilError fn s es) = None"
proof -
  obtain es where es: "fst (streamLoop parse sid collect 0 text []) = es"
    "\<And>s. fst (streamLoop parse sid fn 0 text s) = fst (untilError fn s es)"
    "\<And>s. snd (streamLoop parse sid fn 0 text s) = None \<longleftrightarrow>
       snd (streamLoop parse sid collect 0 text []) = None \<and> snd (untilError fn s es) = None"
    using streamLoop_factors [of parse sid 0 "text" fn] by (metis append_Nil)
  show thesis
  proof (cases "blank sid")
    case True
    show thesis by (rule that [of "[]"]) (simp_all add: Stream_def True)
  next
    case False
    show thesis by (rule that [of es]) (simp_all add: Stream_def False es)
  qed
qed

subsection \<open>The database between two lines\<close>

definition alertsOk :: "database \<Rightarrow> bool" where
  "alertsOk db \<longleftrightarrow> rowsOk (dbAlerts db) \<and> allDelivered (dbIntents db) \<and>
     (\<forall>r \<in> set (itIntents (dbIntents db)). (\<exists>t. irwAlertTransitionID r = Some t \<and> t < alNextTransition (dbAlerts db)) \<and>
        irwAlertGenerationID r \<in> grwID ` set (alGenerations (dbAlerts db)))"

text \<open>Generations are never removed.\<close>

lemma generation_ids_updated: "grwID ` set (updateRows p (\<lambda>r. r\<lparr>grwStatus := st, grwRecoveredAt := t\<rparr>) rows) = grwID ` set rows"
  using arg_cong [OF map_updateRows [of grwID "\<lambda>r. r\<lparr>grwStatus := st, grwRecoveredAt := t\<rparr>" p rows], of set] by simp

lemma persistAlert_generations:
  assumes "persistAlert a db = Inr (db', gid, tid)"
  shows "grwID ` set (alGenerations db) \<subseteq> grwID ` set (alGenerations db')"
proof -
  obtain db1 sid where u: "upsertSeries (atSeries a) db = Inr (db1, sid)" using assms by (auto simp: persistAlert_def split: sum.splits)
  obtain db2 where g: "(if atKind a = Open then openGeneration sid (toInt64 (atGeneration a)) (atAt a) db1
      else recoverGeneration sid (toInt64 (atGeneration a)) (atAt a) db1) = Inr (db2, gid)"
    and i: "insertTransition gid (kindString (atKind a)) (atAt a) db2 = Inr (db', tid)"
    using assms u by (auto simp: persistAlert_def split: sum.splits)
  have "alGenerations db1 = alGenerations db" using u by (auto simp: upsertSeries_def split: if_splits option.splits)
  moreover have "alGenerations db' = alGenerations db2" using i by (auto simp: insertTransition_def split: if_splits)
  moreover have "grwID ` set (alGenerations db1) \<subseteq> grwID ` set (alGenerations db2)"
    using g by (auto simp: openGeneration_def recoverGeneration_def generation_ids_updated split: if_splits option.splits)
  ultimately show ?thesis by simp
qed

lemma emitAlert_alertsOk:
  assumes ok: "alertsOk (rpDB s)" and e: "emitAlert pl pol s a = (s', None)"
  shows "alertsOk (rpDB s')"
proof -
  obtain al gid tid where p: "persistAlert a (dbAlerts (rpDB s)) = Inr (al, gid, tid)"
    using e by (auto simp: emitAlert_def split: sum.splits)
  have "rowsOk (dbAlerts (rpDB s))" using ok by (simp add: alertsOk_def)
  note pe = persistAlert_effect [OF this p]
  obtain pn i c where plan: "Plan (rpPlanner s) a pol = (pn, i, c)" by (cases "Plan (rpPlanner s) a pol")
  let ?s = "s\<lparr>rpDB := (rpDB s)\<lparr>dbAlerts := al\<rparr>, rpPlanner := pn,
    rpSummary := (rpSummary s)\<lparr>smAlerts := smAlerts (rpSummary s) + 1\<rparr>\<rparr>"
  have s: "rowsOk al" "allDelivered (dbIntents (rpDB ?s))" "tid < alNextTransition al"
    and below: "\<And>r. r \<in> set (itIntents (dbIntents (rpDB s))) \<Longrightarrow> \<exists>t. irwAlertTransitionID r = Some t \<and> t < tid"
    and gens: "\<And>r. r \<in> set (itIntents (dbIntents (rpDB s))) \<Longrightarrow> irwAlertGenerationID r \<in> grwID ` set (alGenerations al)"
    using ok pe persistAlert_generations [OF p] by (auto simp: alertsOk_def)
  show ?thesis
  proof (cases "i = None \<or> \<not> c")
    case True
    then have "s' = ?s" using e p plan by (auto simp: emitAlert_def Let_def split: option.splits)
    with s below gens show ?thesis by (fastforce simp: alertsOk_def)
  next
    case False
    then obtain x where x: "i = Some x" "c" by auto
    then have st: "storeIntent pl gid tid a x ?s = (s', None)" using e p plan by (simp add: emitAlert_def Let_def)
    have fresh: "irwAlertTransitionID r \<noteq> Some tid" if "r \<in> set (itIntents (dbIntents (rpDB ?s)))" for r
      using below [of r] that by auto
    from storeIntent_fresh [OF s(2) fresh st] obtain r where
      "itIntents (dbIntents (rpDB s')) = itIntents (dbIntents (rpDB s)) @ [r]" "irwAlertTransitionID r = Some tid"
      "allDelivered (dbIntents (rpDB s'))" "dbAlerts (rpDB s') = al" "irwAlertGenerationID r \<in> grwID ` set (alGenerations al)"
      by auto
    with s(1,3) below gens show ?thesis by (fastforce simp: alertsOk_def)
  qed
qed

lemma emitAll_alertsOk:
  assumes "alertsOk (rpDB s)" and "emitAll pl policies s ts = (s', None)"
  shows "alertsOk (rpDB s')"
proof (rule untilError_keeps [where I = "\<lambda>s. alertsOk (rpDB s)", OF _ assms(1) assms(2) [unfolded emitAll_def]])
  fix u t u' assume u: "alertsOk (rpDB u)" and e: "emitTransition pl policies u t = (u', None)"
  let ?u = "u\<lparr>rpAlerts := fst (applyTransition (rpAlerts u) t)\<rparr>"
  have loop: "untilError (emitAlert pl (policies (revisionKey (RuleID (trKey t)) (Revision (trKey t))))) ?u
      (snd (applyTransition (rpAlerts u) t)) = (u', None)"
    using e by (simp add: emitTransition_def case_prod_beta)
  have "alertsOk (rpDB ?u)" using u by simp
  from untilError_keeps [where I = "\<lambda>s. alertsOk (rpDB s)", OF emitAlert_alertsOk this loop] show "alertsOk (rpDB u')" .
qed

subsection \<open>Occurrences\<close>

definition occurrencesOk :: "int option \<Rightarrow> occurrence_tables \<Rightarrow> bool" where
  "occurrencesOk open db \<longleftrightarrow> dom (otProcessing db) = orwID ` set (otOccurrences db) \<and>
     (\<forall>r \<in> set (otOccurrences db). orwID r < otNextID db) \<and>
     (\<forall>i p. otProcessing db i = Some p \<longrightarrow> open \<noteq> Some i \<longrightarrow> prwStatus p = ProcessingDone)"

lemma admission_ok:
  assumes ok: "occurrencesOk None db" and i: "InsertOccurrence digest jsonb oc db = Inr (db1, i, ins)"
    and e: "EnsureProcessing i db1 = Inr (db2, u)"
  shows "if ins then occurrencesOk (Some i) db2 \<and> length (otOccurrences db2) = length (otOccurrences db) + 1 else db2 = db"
proof (cases ins)
  case True
  then have db1: "db1 = db\<lparr>otOccurrences := otOccurrences db @ [occurrenceRow digest jsonb i oc], otNextID := i + 1\<rparr>"
    "i = otNextID db"
    using i by (auto simp: InsertOccurrence_def split: if_splits option.splits)
  have "otProcessing db i = None" using ok db1(2) by (force simp: occurrencesOk_def)
  then have "db2 = db1\<lparr>otProcessing := (otProcessing db)(i \<mapsto> \<lparr>prwStatus = ProcessingPending, prwAttempts = 0\<rparr>)\<rparr>"
    using e by (auto simp: EnsureProcessing_def db1(1) split: if_splits)
  then show ?thesis using ok True unfolding db1(1) by (fastforce simp: occurrencesOk_def db1(2) occurrenceRow_def)
next
  case False
  then have "db1 = db \<and> i \<in> orwID ` set (otOccurrences db)"
    using i by (auto simp: InsertOccurrence_def admittedRow_def find_Some_iff split: if_splits option.splits)
  moreover from this have "otProcessing db i \<noteq> None" using ok by (auto simp: occurrencesOk_def)
  ultimately show ?thesis using e False by (auto simp: EnsureProcessing_def split: if_splits)
qed

lemma MarkProcessed_ok:
  assumes "occurrencesOk (Some i) db" and "MarkProcessed i db = Inr (db', u)"
  shows "occurrencesOk None db' \<and> otOccurrences db' = otOccurrences db"
proof (cases "otProcessing db i")
  case None
  with assms(2) have "db' = db" by (simp add: MarkProcessed_def)
  moreover have "prwStatus p = ProcessingDone" if "otProcessing db j = Some p" for j p
    using assms(1) that None by (cases "j = i") (auto simp: occurrencesOk_def)
  ultimately show ?thesis using assms(1) by (auto simp: occurrencesOk_def)
next
  case (Some p)
  have "i \<in> dom (otProcessing db)" using Some by (simp add: dom_def)
  then have "dom (otProcessing db') = dom (otProcessing db) \<and> otOccurrences db' = otOccurrences db \<and> otNextID db' = otNextID db"
    using assms(2) Some by (auto simp: MarkProcessed_def split: if_splits)
  moreover have "prwStatus q = ProcessingDone" if "otProcessing db' j = Some q" for j q
    using assms that Some by (cases "j = i") (auto simp: MarkProcessed_def occurrencesOk_def split: if_splits)
  ultimately show ?thesis using assms(1) by (auto simp: occurrencesOk_def)
qed

subsection \<open>One line\<close>

definition databaseOk :: "database \<Rightarrow> bool" where
  "databaseOk db \<longleftrightarrow> alertsOk db \<and> occurrencesOk None (dbOccurrences db)"

lemma judgeLine_ok:
  assumes a: "alertsOk (rpDB s)" and o: "occurrencesOk (Some i) (dbOccurrences (rpDB s))"
    and j: "judgeLine pl active policies i occ s = (s', None)"
  shows "databaseOk (rpDB s') \<and> otOccurrences (dbOccurrences (rpDB s')) = otOccurrences (dbOccurrences (rpDB s)) \<and>
    smOccurrences (rpSummary s') = smOccurrences (rpSummary s) + 1"
proof -
  obtain request result rt ts s1 oc u where em: "emitAll pl policies (s\<lparr>rpRuntime := rt\<rparr>) ts = (s1, None)"
    and mk: "MarkProcessed i (dbOccurrences (rpDB s1)) = Inr (oc, u)"
    and s': "s' = s1\<lparr>rpDB := (rpDB s1)\<lparr>dbOccurrences := oc\<rparr>,
      rpSummary := (rpSummary s1)\<lparr>smOccurrences := smOccurrences (rpSummary s1) + 1\<rparr>\<rparr>"
    using j by (rule judgeLine_steps)
  have same: "sameBut (s\<lparr>rpRuntime := rt\<rparr>) s1" using emitAll_frame [of "s\<lparr>rpRuntime := rt\<rparr>" pl policies ts] em by simp
  have "alertsOk (rpDB (s\<lparr>rpRuntime := rt\<rparr>))" using a by simp
  from emitAll_alertsOk [OF this em] have "alertsOk (rpDB s')" by (simp add: s' alertsOk_def)
  moreover have "occurrencesOk (Some i) (dbOccurrences (rpDB s1))" using o same by (simp add: sameBut_def)
  ultimately show ?thesis using MarkProcessed_ok [OF _ mk] same by (simp add: databaseOk_def s' sameBut_def)
qed

lemma lineBody_ok:
  assumes ok: "databaseOk (rpDB s)" and l: "lineBody pl cfg active policies env s = (s', None)"
  shows "databaseOk (rpDB s') \<and> smOccurrences (rpSummary s') - int (length (otOccurrences (dbOccurrences (rpDB s')))) =
    smOccurrences (rpSummary s) - int (length (otOccurrences (dbOccurrences (rpDB s))))"
  using l
proof (cases rule: lineBody_steps)
  case (1 oc1 i ins oc2 u)
  have "oc2 = dbOccurrences (rpDB s)" using admission_ok [OF _ 1(1,2)] ok 1(3) by (simp add: databaseOk_def)
  with 1(4) ok show ?thesis by simp
next
  case (2 oc1 i ins oc2 u rt ts s2)
  let ?s = "s\<lparr>rpDB := (rpDB s)\<lparr>dbOccurrences := oc2\<rparr>, rpRuntime := rt\<rparr>"
  have oc: "occurrencesOk (Some i) oc2" "length (otOccurrences oc2) = length (otOccurrences (dbOccurrences (rpDB s))) + 1"
    using admission_ok [OF _ 2(1,2)] ok 2(3) by (simp_all add: databaseOk_def)
  have "alertsOk (rpDB ?s)" using ok by (simp add: databaseOk_def alertsOk_def)
  from emitAll_alertsOk [OF this 2(5)] have a: "alertsOk (rpDB s2)" .
  have same: "sameBut ?s s2" using emitAll_frame [of ?s pl policies ts] 2(5) by simp
  obtain b v ob where j: "judgeLine pl active policies i (lineOccurrence cfg i env)
      (s2\<lparr>rpBuilder := b, rpDB := (rpDB s2)\<lparr>dbObservations := ob\<rparr>\<rparr>) = (s', None)"
    using 2(6) by (rule projectLine_steps)
  from judgeLine_ok [OF _ _ j] a oc same show ?thesis by (simp add: alertsOk_def sameBut_def)
qed

text \<open>A line that fails leaves the tables as they were.\<close>

lemma replayLine_ok: "databaseOk (rpDB s) \<Longrightarrow> databaseOk (rpDB (fst (replayLine pl cfg active policies s env)))"
proof -
  assume ok: "databaseOk (rpDB s)"
  let ?s = "if timestamp (envEvent env) > rpLogical s then s\<lparr>rpLogical := timestamp (envEvent env)\<rparr> else s"
  obtain s2 err where l: "lineBody pl cfg active policies env ?s = (s2, err)" by (cases "lineBody pl cfg active policies env ?s")
  have ok': "databaseOk (rpDB ?s)" using ok by simp
  show ?thesis
  proof (cases err)
    case None
    with l have "databaseOk (rpDB s2)" using lineBody_ok [OF ok'] by blast
    with l None ok show ?thesis by (simp add: replayLine_def Let_def)
  next
    case (Some e)
    with l ok' ok show ?thesis by (simp add: replayLine_def Let_def)
  qed
qed

lemma replayEvents_ok:
  assumes "databaseOk (rpDB s)"
  shows "databaseOk (rpDB (fst (replayEvents pl cfg active text s)))"
proof -
  let ?fn = "replayLine pl cfg active (policiesByRevision active)"
  obtain es where es: "\<And>s. fst (Stream (plParse pl) text (cfStreamID cfg) ?fn s) = fst (untilError ?fn s es)"
    by (rule Stream_factors [of "plParse pl" "text" "cfStreamID cfg" ?fn]) auto
  have "databaseOk (rpDB (fst (untilError ?fn s es)))"
    using assms
  proof (induction es arbitrary: s)
    case (Cons e es)
    from replayLine_ok [OF Cons.prems] Cons.IH show ?case
      by (cases "?fn s e"; cases "snd (?fn s e)") (auto, metis fst_conv, metis fst_conv)
  qed simp
  moreover have "fst (replayEvents pl cfg active text s) = fst (Stream (plParse pl) text (cfStreamID cfg) ?fn s)"
    by (simp add: replayEvents_def split: prod.split option.split)
  ultimately show ?thesis by (simp add: es)
qed

subsection \<open>A run\<close>

text \<open>What a run does to the database: nothing, the seeding of the rules, or that and the events.\<close>

lemma Run_cases:
  assumes "Run pl cfg db = (db', sm, err)"
  obtains "db' = db" "sm = zeroSummary" "err \<noteq> None"
  | loaded rules where "db' = db\<lparr>dbRules := rules\<rparr>" "sm = zeroSummary" "err \<noteq> None"
    "rules = fst (seedRules (plDefinitionJsonb pl) (plSeedClock pl) loaded (dbRules db))"
  | raw loaded rules u active rt lines s where "plReadFile pl (cfRulesPath cfg) = Some raw"
    "Option.bind (plParse pl raw) decodeRuleFiles = Some loaded"
    "seedRules (plDefinitionJsonb pl) (plSeedClock pl) loaded (dbRules db) = (rules, Inr u)"
    "activeFromDB (plCollates pl) rules = Some active" "Activate active None = Inr rt"
    "plReadFile pl (cfEventPath cfg) = Some lines" "cfEventPath cfg \<noteq> []" "cfRulesPath cfg \<noteq> []"
    "replayEvents pl (defaulted cfg) active lines (startReplay (db\<lparr>dbRules := rules\<rparr>) rt) = (s, err)"
    "db' = rpDB s" "sm = rpSummary s"
proof (cases "cfEventPath cfg = [] \<or> cfRulesPath cfg = []")
  case True
  with assms that(1) show thesis by (auto simp: Run_def)
next
  case False
  show thesis
  proof (cases "plReadFile pl (cfRulesPath cfg)")
    case None
    with assms that(1) False show thesis by (auto simp: Run_def)
  next
    case (Some raw)
    note raw = this
    show thesis
    proof (cases "Option.bind (plParse pl raw) decodeRuleFiles")
      case None
      with assms that(1) False raw show thesis by (auto simp: Run_def)
    next
      case (Some loaded)
      with assms False raw have r: "runLoaded pl (defaulted cfg) loaded db = (db', sm, err)" by (simp add: Run_def)
      obtain rules out where seed: "seedRules (plDefinitionJsonb pl) (plSeedClock pl) loaded (dbRules db) = (rules, out)"
        by (cases "seedRules (plDefinitionJsonb pl) (plSeedClock pl) loaded (dbRules db)")
      show thesis
      proof (cases out)
        case (Inl e)
        with r seed have "db' = db\<lparr>dbRules := rules\<rparr>" "sm = zeroSummary" "err \<noteq> None" by (auto simp: runLoaded_def)
        then show thesis by (rule that(2) [of rules loaded]) (simp add: seed)
      next
        case (Inr u)
        note seed = seed [unfolded Inr]
        then have seeded: "rules = fst (seedRules (plDefinitionJsonb pl) (plSeedClock pl) loaded (dbRules db))" by simp
        note failed = that(2) [OF _ _ _ seeded]
        show thesis
        proof (cases "activeFromDB (plCollates pl) rules")
          case None
          with r seed have "db' = db\<lparr>dbRules := rules\<rparr>" "sm = zeroSummary" "err \<noteq> None" by (auto simp: runLoaded_def)
          then show thesis by (rule failed)
        next
          case (Some active)
          note act = this
          with r seed have r: "runActive pl (defaulted cfg) active (db\<lparr>dbRules := rules\<rparr>) = (db', sm, err)"
            by (simp add: runLoaded_def)
          show thesis
          proof (cases "Activate active None")
            case (Inl e)
            with r have "db' = db\<lparr>dbRules := rules\<rparr>" "sm = zeroSummary" "err \<noteq> None" by (auto simp: runActive_def)
            then show thesis by (rule failed)
          next
            case (Inr rt)
            note rt = this
            have path: "cfEventPath (defaulted cfg) = cfEventPath cfg" by (simp add: defaulted_def)
            show thesis
            proof (cases "plReadFile pl (cfEventPath cfg)")
              case None
              with r rt path have "db' = db\<lparr>dbRules := rules\<rparr>" "sm = zeroSummary" "err \<noteq> None" by (auto simp: runActive_def)
              then show thesis by (rule failed)
            next
              case (Some lines)
              obtain s e where s: "replayEvents pl (defaulted cfg) active lines (startReplay (db\<lparr>dbRules := rules\<rparr>) rt) = (s, e)"
                by (cases "replayEvents pl (defaulted cfg) active lines (startReplay (db\<lparr>dbRules := rules\<rparr>) rt)")
              with r rt path Some have out: "db' = rpDB s" "sm = rpSummary s" "err = e" by (simp_all add: runActive_def)
              have paths: "cfEventPath cfg \<noteq> []" "cfRulesPath cfg \<noteq> []" using False by simp_all
              show thesis
                by (rule that(3) [OF raw \<open>Option.bind (plParse pl raw) decodeRuleFiles = Some loaded\<close> seed act rt Some paths
                  s [folded out(3)] out(1,2)])
            qed
          qed
        qed
      qed
    qed
  qed
qed

lemma Run_ok: "databaseOk db \<Longrightarrow> databaseOk (fst (Run pl cfg db))"
proof -
  assume ok: "databaseOk db"
  have seeded: "databaseOk (db\<lparr>dbRules := rules\<rparr>)" for rules using ok by (simp add: databaseOk_def alertsOk_def)
  obtain db' sm err where r: "Run pl cfg db = (db', sm, err)" by (cases "Run pl cfg db")
  from r have "databaseOk db'"
  proof (cases rule: Run_cases)
    case (3 raw loaded rules u active rt lines s)
    have "databaseOk (rpDB (startReplay (db\<lparr>dbRules := rules\<rparr>) rt))" using seeded by (simp add: startReplay_def)
    from replayEvents_ok [OF this, of pl "defaulted cfg" active lines] 3(9,10) show ?thesis by simp
  qed (use ok seeded in simp_all)
  with r show ?thesis by simp
qed

definition emptyDatabase :: database where
  "emptyDatabase = \<lparr>dbOccurrences = emptyOccurrences, dbObservations = emptyObservations, dbAlerts = emptyAlerts,
     dbIntents = emptyIntents, dbRules = emptyRules\<rparr>"

definition runStep ::
  "database \<Rightarrow> platform \<times> config \<Rightarrow> database \<times> (summary \<times> run_error option) list"
where
  "runStep db p = (let (db', out) = Run (fst p) (snd p) db in (db', [out]))"

interpretation run_machine: invariant_machine runStep databaseOk
  by unfold_locales (simp add: runStep_def Let_def case_prod_beta Run_ok)

lemma emptyDatabase_ok: "databaseOk emptyDatabase"
  using allDelivered_empty rowsOk_empty
  by (simp add: databaseOk_def alertsOk_def occurrencesOk_def emptyDatabase_def emptyIntents_def emptyOccurrences_def)

text \<open>A run leaves nothing half done: after any runs, of any configurations and whether they
  succeeded or failed, every occurrence in the database is processed, and every notification
  intent is delivered and has its delivery record, with no delivery record for anything else.\<close>

theorem runs_leave_nothing_pending:
  "let db = fst (run runStep emptyDatabase ps) in
     list_all (\<lambda>r. map_option prwStatus (otProcessing (dbOccurrences db) (orwID r)) = Some ProcessingDone)
       (otOccurrences (dbOccurrences db)) \<and>
     list_all (\<lambda>r. irwState r = IntentDelivered) (itIntents (dbIntents db)) \<and>
     dom (itDeliveries (dbIntents db)) = irwID ` set (itIntents (dbIntents db))"
proof -
  let ?db = "fst (run runStep emptyDatabase ps)"
  have "databaseOk ?db" by (rule run_machine.run_inv [OF emptyDatabase_ok])
  then have ok: "allDelivered (dbIntents ?db)" "occurrencesOk None (dbOccurrences ?db)"
    by (simp_all add: databaseOk_def alertsOk_def)
  have "map_option prwStatus (otProcessing (dbOccurrences ?db) (orwID r)) = Some ProcessingDone"
    if "r \<in> set (otOccurrences (dbOccurrences ?db))" for r
  proof -
    have "orwID r \<in> dom (otProcessing (dbOccurrences ?db))" using ok(2) that by (simp add: occurrencesOk_def)
    then obtain p where "otProcessing (dbOccurrences ?db) (orwID r) = Some p" by blast
    moreover from this have "prwStatus p = ProcessingDone" using ok(2) unfolding occurrencesOk_def by blast
    ultimately show ?thesis by simp
  qed
  with allDeliveredD [OF ok(1)] show ?thesis by (simp add: Let_def list_all_iff)
qed

subsection \<open>A second run\<close>

definition wholeMicros :: "envelope \<Rightarrow> bool" where
  "wholeMicros env \<longleftrightarrow> timestamp (envEvent env) mod 1000 = 0"

lemma untilError_skips:
  assumes "list_all (\<lambda>e. lineAdmitted pl cfg e (dbOccurrences db) \<and> wholeMicros e \<and> timestamp (envEvent e) \<noteq> 0) es"
  shows "\<exists>t \<ge> rpLogical s. rpDB s = db \<longrightarrow>
    untilError (replayLine pl cfg active policies) s es = (s\<lparr>rpLogical := t\<rparr>, None)"
  using assms
proof (induction es arbitrary: s)
  case (Cons e es)
  let ?s = "s\<lparr>rpLogical := max (timestamp (envEvent e)) (rpLogical s)\<rparr>"
  from Cons.IH [of ?s] Cons.prems obtain t where t: "t \<ge> rpLogical ?s"
    "rpDB ?s = db \<longrightarrow> untilError (replayLine pl cfg active policies) ?s es = (?s\<lparr>rpLogical := t\<rparr>, None)" by auto
  have "replayLine pl cfg active policies s e = (?s, None)" if "rpDB s = db"
    using admitted_skips [of pl cfg e s active policies] Cons.prems that by (simp add: wholeMicros_def)
  with t show ?case by (intro exI [of _ t]) auto
qed (intro exI, auto)

lemma untilError_admits:
  assumes "untilError (replayLine pl cfg active policies) s es = (s', None)" and "list_all wholeMicros es"
  shows "dbRules (rpDB s') = dbRules (rpDB s) \<and> grown (dbOccurrences (rpDB s)) (dbOccurrences (rpDB s')) \<and>
    list_all (\<lambda>e. lineAdmitted pl cfg e (dbOccurrences (rpDB s')) \<and> wholeMicros e \<and> timestamp (envEvent e) \<noteq> 0) es"
  using assms
proof (induction es arbitrary: s)
  case (Cons e es)
  from Cons.prems(1) obtain s1 where s1: "replayLine pl cfg active policies s e = (s1, None)"
    "untilError (replayLine pl cfg active policies) s1 es = (s', None)" by (auto split: prod.splits option.splits)
  from replayLine_frame [OF s1(1)] Cons.prems(2) have f: "dbRules (rpDB s1) = dbRules (rpDB s)"
    "grown (dbOccurrences (rpDB s)) (dbOccurrences (rpDB s1))" "timestamp (envEvent e) \<noteq> 0"
    "lineAdmitted pl cfg e (dbOccurrences (rpDB s1))" by (simp_all add: wholeMicros_def)
  from Cons.IH [OF s1(2)] Cons.prems(2) have ih: "dbRules (rpDB s') = dbRules (rpDB s1)"
    "grown (dbOccurrences (rpDB s1)) (dbOccurrences (rpDB s'))"
    "list_all (\<lambda>e. lineAdmitted pl cfg e (dbOccurrences (rpDB s')) \<and> wholeMicros e \<and> timestamp (envEvent e) \<noteq> 0) es" by auto
  from f(1,3) ih Cons.prems(2) grown_trans [OF f(2) ih(2)] admitted_grown [OF f(4) ih(2)] show ?case by simp
qed simp

lemma finishReplay_returns:
  assumes "runtimeInv active None rt" and "ruLogical rt \<le> t" and "0 \<le> t"
  shows "finishReplay (s\<lparr>rpRuntime := rt, rpLogical := t\<rparr>) = None"
  using assms by (cases rule: AdvanceRuntime_cases [OF assms, case_names zero adv]) (simp_all add: finishReplay_def isZero_def)

text \<open>A replay is idempotent: when a run has succeeded and its events are of whole microseconds, the same
  run on the resulting database succeeds, changes nothing in any table and reports no work.\<close>

theorem rerun_changes_nothing:
  assumes run1: "Run pl cfg db = (db', sm, None)" and evs: "plReadFile pl (cfEventPath cfg) = Some lines"
    and whole: "list_all wholeMicros (fst (Stream (plParse pl) lines (cfStreamID (defaulted cfg)) collect []))"
  shows "Run pl cfg db' = (db', zeroSummary, None)"
  using run1
proof (cases rule: Run_cases)
  case (3 raw loaded rules u active rt lines' s)
  have lines': "lines' = lines" using 3(6) evs by simp
  let ?cfg = "defaulted cfg" and ?pol = "policiesByRevision active"
  let ?fn = "replayLine pl ?cfg active ?pol" and ?db = "db\<lparr>dbRules := rules\<rparr>"
  let ?stream = "\<lambda>s. Stream (plParse pl) lines (cfStreamID ?cfg) ?fn s"
  obtain es where es: "fst (Stream (plParse pl) lines (cfStreamID ?cfg) collect []) = es"
    "\<And>s. fst (?stream s) = fst (untilError ?fn s es)"
    "\<And>s. snd (?stream s) = None \<longleftrightarrow> snd (Stream (plParse pl) lines (cfStreamID ?cfg) collect []) = None \<and> snd (untilError ?fn s es) = None"
    using Stream_factors by blast
  have str: "?stream (startReplay ?db rt) = (s, None)"
    using 3(9) unfolding lines' by (auto simp: replayEvents_def split: prod.splits option.splits)
  then have first: "untilError ?fn (startReplay ?db rt) es = (s, None)"
    and none: "snd (Stream (plParse pl) lines (cfStreamID ?cfg) collect []) = None"
    using es(2,3) [of "startReplay ?db rt"] by (simp_all add: prod_eq_iff)
  from untilError_admits [OF first] whole es(1) 3(10)
  have db': "dbRules db' = rules" and adm: "list_all (\<lambda>e. lineAdmitted pl ?cfg e (dbOccurrences db') \<and> wholeMicros e \<and> timestamp (envEvent e) \<noteq> 0) es"
    by (simp_all add: startReplay_def)
  have seed: "seedRules (plDefinitionJsonb pl) (plSeedClock pl) loaded (dbRules db') = (rules, Inr ())"
    using seeding_idempotent [where jsonb = "plDefinitionJsonb pl" and clock = "plSeedClock pl" and rs = loaded and db = "dbRules db"
        and clock' = "plSeedClock pl"] 3(3) db' by simp
  have same: "db'\<lparr>dbRules := rules\<rparr> = db'" using db' by (simp flip: db')
  obtain t where t: "t \<ge> 0" "untilError ?fn (startReplay db' rt) es = ((startReplay db' rt)\<lparr>rpLogical := t\<rparr>, None)"
    using untilError_skips [OF adm, of "startReplay db' rt" active ?pol] by (auto simp: startReplay_def)
  then have "?stream (startReplay db' rt) = ((startReplay db' rt)\<lparr>rpLogical := t\<rparr>, None)"
    using es(2,3) [of "startReplay db' rt"] none by (simp add: prod_eq_iff)
  moreover have "finishReplay ((startReplay db' rt)\<lparr>rpLogical := t\<rparr>) = None"
  proof -
    have "ruLogical rt \<le> t"
      using runtimeJournal_start(2) [OF 3(5)] t(1) by simp
    from finishReplay_returns [OF Activate_inv [OF 3(5)] this t(1), of "startReplay db' rt"]
    show ?thesis by (simp add: startReplay_def)
  qed
  ultimately have "replayEvents pl ?cfg active lines (startReplay db' rt) = ((startReplay db' rt)\<lparr>rpLogical := t\<rparr>, None)"
    by (simp add: replayEvents_def)
  moreover have "cfEventPath ?cfg = cfEventPath cfg" by (simp add: defaulted_def)
  ultimately show ?thesis
    using 3(1,2,4,5,7,8) seed evs same by (simp add: Run_def runLoaded_def runActive_def) (simp add: startReplay_def)
qed simp_all

subsection \<open>The tables and the reducers\<close>

lemma replayLine_inv:
  assumes inv: "replayInv active s" and r: "replayLine pl cfg active policies s env = (s', None)"
  shows "replayInv active s'"
proof -
  let ?s = "if timestamp (envEvent env) > rpLogical s then s\<lparr>rpLogical := timestamp (envEvent env)\<rparr> else s"
  have b: "lineBody pl cfg active policies env ?s = (s', None)"
    using r by (auto simp: replayLine_def Let_def isZero_def split: if_splits prod.splits option.splits)
  have inv': "replayInv active ?s" using inv by (auto simp: replayInv_def)
  from b show ?thesis
  proof (cases rule: lineBody_steps)
    case (1 oc1 i ins oc2 u)
    with inv' show ?thesis by (simp add: replayInv_def)
  next
    case (2 oc1 i ins oc2 u rt ts s2)
    let ?u = "?s\<lparr>rpDB := (rpDB ?s)\<lparr>dbOccurrences := oc2\<rparr>\<rparr>"
    have u: "replayInv active ?u" using inv' by (simp add: replayInv_def)
    have st: "runtimeInv active None (rpRuntime ?u)" "ruLogical (rpRuntime ?u) \<le> rpLogical ?u" "0 \<le> rpLogical ?u"
      using u unfolding replayInv_def by blast+
    have adv: "AdvanceRuntime (rpRuntime ?u) (rpLogical ?u) = Some (rt, Inr ts)" using 2(4) by simp
    have rt: "ruLogical rt = rpLogical ?u" "runtimeInv active None rt"
      "\<And>k. runtimeJournal rt k = runtimeJournal (rpRuntime ?u) k @ onKey k ts"
      using adv by (cases rule: AdvanceRuntime_cases [OF st, case_names zero adv]; simp)+
    have em: "emitAll pl policies (?u\<lparr>rpRuntime := rt\<rparr>) ts = (s2, None)" using 2(5) by simp
    from replayInv_emit [OF u rt(2) _ rt(3) em] rt(1) have s2: "replayInv active s2" by simp
    obtain bd v ob where j: "judgeLine pl active policies i (lineOccurrence cfg i env)
        (s2\<lparr>rpBuilder := bd, rpDB := (rpDB s2)\<lparr>dbObservations := ob\<rparr>\<rparr>) = (s', None)"
      using 2(6) by (rule projectLine_steps)
    have "replayInv active (s2\<lparr>rpBuilder := bd, rpDB := (rpDB s2)\<lparr>dbObservations := ob\<rparr>\<rparr>)"
      using s2 by (auto simp: replayInv_def mirrored_def mirrors_def)
    from judgeLine_inv [OF this j] show ?thesis by simp
  qed
qed

lemma replayLine_success:
  assumes "databaseOk (rpDB s)" and r: "replayLine pl cfg active policies s env = (s', None)"
  shows "databaseOk (rpDB s') \<and> smOccurrences (rpSummary s') - int (length (otOccurrences (dbOccurrences (rpDB s')))) =
    smOccurrences (rpSummary s) - int (length (otOccurrences (dbOccurrences (rpDB s))))"
proof -
  let ?s = "if timestamp (envEvent env) > rpLogical s then s\<lparr>rpLogical := timestamp (envEvent env)\<rparr> else s"
  have b: "lineBody pl cfg active policies env ?s = (s', None)"
    using r by (auto simp: replayLine_def Let_def isZero_def split: if_splits prod.splits option.splits)
  have "databaseOk (rpDB ?s)" using assms(1) by simp
  from lineBody_ok [OF this b] show ?thesis by (simp split: if_splits)
qed

definition freshReplay :: "rule_tables \<Rightarrow> active_rule list \<Rightarrow> replay_state" where
  "freshReplay rules active = startReplay (emptyDatabase\<lparr>dbRules := rules\<rparr>) (projr (Activate active None))"

lemma replayEvents_track:
  assumes act: "Activate active None = Inr rt" and r: "replayEvents pl cfg active lines (freshReplay rules active) = (s, None)"
  shows "replayInv active s \<and> databaseOk (rpDB s) \<and>
    smOccurrences (rpSummary s) = int (length (otOccurrences (dbOccurrences (rpDB s))))"
proof -
  let ?fn = "replayLine pl cfg active (policiesByRevision active)" and ?start = "freshReplay rules active"
  have str: "Stream (plParse pl) lines (cfStreamID cfg) ?fn ?start = (s, None)"
    using r by (auto simp: replayEvents_def split: prod.splits option.splits)
  obtain es where "fst (Stream (plParse pl) lines (cfStreamID cfg) collect []) = es"
    and es: "\<And>s. fst (Stream (plParse pl) lines (cfStreamID cfg) ?fn s) = fst (untilError ?fn s es)"
    "\<And>s. snd (Stream (plParse pl) lines (cfStreamID cfg) ?fn s) = None \<longleftrightarrow>
      snd (Stream (plParse pl) lines (cfStreamID cfg) collect []) = None \<and> snd (untilError ?fn s es) = None"
    using Stream_factors by blast
  have u: "untilError ?fn ?start es = (s, None)"
    using es(1) [of ?start] es(2) [of ?start] unfolding str by (intro prod_eqI) simp_all
  have rt: "projr (Activate active None) = rt" by (simp add: act)
  have "runtimeInv active None rt" "ruLogical rt = 0" "chronicle rt []"
    using Activate_inv [OF act] runtimeJournal_start [OF act] by (simp_all add: chronicle_def)
  moreover have "mirrored ?start []"
    using rowsOk_empty allDelivered_empty
    by (simp add: mirrored_def mirrors_def freshReplay_def startReplay_def emptyDatabase_def AlertTransitions_def NewAlerts_def
      alertBook_def alertLog_def emptyAlerts_def emptyIntents_def NewPlanner_def zeroSummary_def)
  moreover have "rpRuntime ?start = rt" "rpLogical ?start = 0" by (simp_all add: freshReplay_def startReplay_def rt)
  ultimately have "replayInv active ?start" unfolding replayInv_def by auto
  from untilError_keeps [where I = "replayInv active", OF replayLine_inv this u] have i: "replayInv active s" .
  have o': "databaseOk (rpDB ?start) \<and> smOccurrences (rpSummary ?start) = int (length (otOccurrences (dbOccurrences (rpDB ?start))))"
    using emptyDatabase_ok
    by (simp add: freshReplay_def startReplay_def databaseOk_def alertsOk_def zeroSummary_def emptyDatabase_def emptyOccurrences_def)
  have "databaseOk (rpDB s) \<and> smOccurrences (rpSummary s) = int (length (otOccurrences (dbOccurrences (rpDB s))))"
    by (rule untilError_keeps [where I = "\<lambda>s. databaseOk (rpDB s) \<and>
      smOccurrences (rpSummary s) = int (length (otOccurrences (dbOccurrences (rpDB s))))", OF _ o' u])
      (auto dest: replayLine_success)
  with i show ?thesis by simp
qed

text \<open>C6. The tables of a replay are the journals of its reducers: after a successful replay into an empty database,
  the stored alert transitions are those of the alert reducer, in order and each under its series
  and generation; the stored intents are those of the planner, each for the transition it was
  planned from; and the summary counts the stored occurrences, transitions and intents.\<close>

theorem replay_stores_its_journals:
  assumes "Activate active None = Inr rt"
    and "replayEvents pl cfg active lines (freshReplay rules active) = (s, None)"
  shows "alertLog (dbAlerts (rpDB s)) = map logEntry (AlertTransitions (rpAlerts s)) \<and>
    list_all2 (intentMirrors (AlertTransitions (rpAlerts s))) (itIntents (dbIntents (rpDB s))) (rpPlanner s) \<and>
    rpSummary s = \<lparr>smOccurrences = int (length (otOccurrences (dbOccurrences (rpDB s)))),
      smAlerts = int (length (AlertTransitions (rpAlerts s))),
      smNotifications = int (length (itIntents (dbIntents (rpDB s))))\<rparr>"
  using replayEvents_track [OF assms] by (auto simp: replayInv_def mirrored_def mirrors_def)

lemma open_rows:
  assumes "rowsOk al" and "alertBook al = foldl bookStep [] (AlertTransitions (alertsOf T))"
  shows "(\<exists>g \<in> set (alGenerations al). grwStatus g = GenerationOpen \<and> seriesKeyAt al (grwSeriesID g) = Some sk) \<longleftrightarrow>
    isOpen (alertsOf T) sk"
proof -
  let ?J = "AlertTransitions (alertsOf T)"
  have "ledgered ?J" unfolding alertsOf_def by (rule ledgered_journal)
  note open' = book_open [OF this]
  have "ledgerOk (seriesJournal (alertsOf T) sk) (isOpen (alertsOf T) sk) (generationOf (alertsOf T) sk)"
    using alertsOf_inv [of T] by (simp add: alertInv_def)
  then have odd: "odd (seriesCount ?J sk) = isOpen (alertsOf T) sk"
    by (simp add: ledgerOk_def seriesCount_def seriesJournal_def AlertTransitions_def)
  have "(\<exists>g \<in> set (alGenerations al). grwStatus g = GenerationOpen \<and> seriesKeyAt al (grwSeriesID g) = Some sk) \<longleftrightarrow>
      Some sk \<in> fst ` (entryID ` {e \<in> set (alertBook al). entryOpen e})"
    by (force simp: alertBook_def entryOpen_def entryID_def)
  also have "\<dots> \<longleftrightarrow> odd (seriesCount ?J sk)" unfolding assms(2) open' by force
  finally show ?thesis using odd by simp
qed

text \<open>The table of generations has an open row of a rule and subject exactly when a condition of it is
  active or waiting to clear.\<close>

lemma stored_alerts_follow_conditions:
  assumes "Activate active None = Inr rt"
    and "replayEvents pl cfg active lines (freshReplay rules active) = (s, None)" and "unwrapped (rpRuntime s)"
  shows "(\<exists>g \<in> set (alGenerations (dbAlerts (rpDB s))). grwStatus g = GenerationOpen \<and>
      seriesKeyAt (dbAlerts (rpDB s)) (grwSeriesID g) = Some sk) \<longleftrightarrow>
    (\<exists>a \<in> set (ruActive (rpRuntime s)). \<exists>k sn. seriesKeyOf k = sk \<and> State (avReducer a) k = Some sn \<and>
       (tsPhase sn = Active \<or> tsPhase sn = PendingClear))"
proof -
  have "replayInv active s" using replayEvents_track [OF assms(1,2)] by blast
  then obtain T where inv: "runtimeInv active None (rpRuntime s)" and T: "mirrored s T" "chronicle (rpRuntime s) T"
    by (auto simp: replayInv_def)
  have rows: "rowsOk (dbAlerts (rpDB s))" "alertBook (dbAlerts (rpDB s)) = foldl bookStep [] (AlertTransitions (alertsOf T))"
    using T(1) by (simp_all add: mirrored_def mirrors_def)
  note coh = chronicle_coherent [OF inv T(2) assms(3)]
  show ?thesis unfolding open_rows [OF rows] alertsOf_open [OF coh(1)] coh(2) openEpisode_State by blast
qed

subsection \<open>Witnesses\<close>

text \<open>A platform with one event that opens an alert, and no rule in the rules file.\<close>

definition demoPlatform :: platform where
  "demoPlatform = \<lparr>plReadFile = (\<lambda>f. Some f), plParse = (\<lambda>t. if t = ''rules'' then Some JNull else previewParse t),
     plRender = (\<lambda>j. ''payload''), plTimeText = (\<lambda>t. Some ''time''), plDigest = (\<lambda>t. t), plJsonb = (\<lambda>t. t),
     plDefinitionJsonb = (\<lambda>j. j), plSeedClock = 0, plIntentClock = (\<lambda>i. i * 1000), plCollates = (\<lambda>a b. False),
     plLocked = (\<lambda>i. {})\<rparr>"

definition demoRunConfig :: config where
  "demoRunConfig = \<lparr>cfEventPath = ''a'', cfRulesPath = ''rules'', cfSource = [], cfStreamID = []\<rparr>"

definition demoRunRules :: "active_rule list" where
  "demoRunRules = map activeOf previewRules"

definition demoReplay :: "replay_state \<times> run_error option" where
  "demoReplay = replayEvents demoPlatform (defaulted demoRunConfig) demoRunRules ''a'' (freshReplay emptyRules demoRunRules)"

theorem rerun_changes_nothing_witness:
  "let db = fst (Run demoPlatform demoRunConfig emptyDatabase)
   in Run demoPlatform demoRunConfig db = (db, zeroSummary, None) \<and> length (otOccurrences (dbOccurrences db)) = 1"
proof -
  have "length (otOccurrences (dbOccurrences (fst (Run demoPlatform demoRunConfig emptyDatabase)))) = 1" by code_simp
  moreover have none: "snd (snd (Run demoPlatform demoRunConfig emptyDatabase)) = None" by code_simp
  moreover have "plReadFile demoPlatform (cfEventPath demoRunConfig) = Some ''a''" by code_simp
  moreover have "list_all wholeMicros (fst (Stream (plParse demoPlatform) ''a'' (cfStreamID (defaulted demoRunConfig)) collect []))"
    by code_simp
  moreover obtain db' sm err where r: "Run demoPlatform demoRunConfig emptyDatabase = (db', sm, err)" by (rule prod_cases3)
  ultimately show ?thesis using rerun_changes_nothing [of demoPlatform demoRunConfig emptyDatabase db' sm "''a''"]
    by (simp add: Let_def)
qed

lemma demo_replayed:
  "replayEvents demoPlatform (defaulted demoRunConfig) demoRunRules ''a'' (freshReplay emptyRules demoRunRules) = (fst demoReplay, None)"
proof -
  have "snd demoReplay = None" by code_simp
  then have "demoReplay = (fst demoReplay, None)" by (intro prod_eqI) simp_all
  then show ?thesis unfolding demoReplay_def .
qed

lemma demo_activated: "Activate demoRunRules None = Inr (projr (Activate demoRunRules None))"
  using previewRules_activated by (auto simp: demoRunRules_def)

theorem replay_stores_its_journals_witness:
  "map atKind (AlertTransitions (rpAlerts (fst demoReplay))) = [Open] \<and>
   alertLog (dbAlerts (rpDB (fst demoReplay))) = map logEntry (AlertTransitions (rpAlerts (fst demoReplay))) \<and>
   length (itIntents (dbIntents (rpDB (fst demoReplay)))) = 1 \<and> smNotifications (rpSummary (fst demoReplay)) = 1"
proof -
  have "map atKind (AlertTransitions (rpAlerts (fst demoReplay))) = [Open]" by code_simp
  moreover have "length (itIntents (dbIntents (rpDB (fst demoReplay)))) = 1" by code_simp
  ultimately show ?thesis
    using replay_stores_its_journals [OF demo_activated demo_replayed] by simp
qed

end
