(* ===== verification/Migrate.thy ===== *)
theory Migrate
  imports Storage Json
begin

text \<open>
  Schema migrations, \<^verbatim>\<open>internal/storage/migrate.go\<close>. The embedded files are a list of
  paths and contents, \<open>sha256hex\<close> is the digest of a content as text, and \<open>exec\<close> is
  what executing an SQL text does to the schema, or its failure; the table of applied
  migrations is kept apart from that schema.
\<close>

subsection \<open>The embedded migrations\<close>

record migration =
  mgVersion :: int
  mgName :: string
  mgSQL :: string
  mgChecksum :: string

datatype migrate_error = MigrationNotParsed string | MigrationMismatch int string string | MigrationFailed int string

text \<open>\<^verbatim>\<open>filepath.Base\<close> of a path that does not end in a slash.\<close>

definition baseName :: "string \<Rightarrow> string" where
  "baseName path = rev (takeWhile (\<lambda>c. c \<noteq> CHR ''/'') (rev path))"

text \<open>\<^verbatim>\<open>fmt.Sscanf(base, "%d_", &version)\<close>: blanks, a sign, digits and an underscore.\<close>

definition scanVersion :: "string \<Rightarrow> int option" where
  "scanVersion base =
     (let s = dropWhile (\<lambda>c. c = CHR '' '') base;
          signed = (s \<noteq> [] \<and> (hd s = CHR ''-'' \<or> hd s = CHR ''+''));
          ds = takeWhile isDigit (if signed then tl s else s);
          rest = dropWhile isDigit (if signed then tl s else s);
          n = (if signed \<and> hd s = CHR ''-'' then - int (decimal_value ds) else int (decimal_value ds))
      in if ds = [] \<or> \<not> fitsBigint n then None
         else if rest \<noteq> [] \<and> hd rest = CHR ''_'' then Some n else None)"

text \<open>\<^verbatim>\<open>%03d_\<close>.\<close>

definition versionPrefix :: "int \<Rightarrow> string" where
  "versionPrefix n =
     (let ds = decimal (nat \<bar>n\<bar>); w = (if n < 0 then 2 else 3)
      in (if n < 0 then ''-'' else []) @ replicate (w - length ds) CHR ''0'' @ ds @ ''_'')"

definition TrimPrefix :: "string \<Rightarrow> string \<Rightarrow> string" where
  "TrimPrefix s p = (if take (length p) s = p then drop (length p) s else s)"

definition TrimSuffix :: "string \<Rightarrow> string \<Rightarrow> string" where
  "TrimSuffix s p = (if length p \<le> length s \<and> drop (length s - length p) s = p
     then take (length s - length p) s else s)"

fun readMigrations :: "(string \<Rightarrow> string) \<Rightarrow> (string \<times> string) list \<Rightarrow> migrate_error + migration list" where
  "readMigrations sha256hex [] = Inr []"
| "readMigrations sha256hex ((path, content) # rest) =
     (case scanVersion (baseName path) of None \<Rightarrow> Inl (MigrationNotParsed (baseName path))
      | Some n \<Rightarrow> (case readMigrations sha256hex rest of Inl err \<Rightarrow> Inl err
        | Inr ms \<Rightarrow> Inr (\<lparr>mgVersion = n,
            mgName = TrimSuffix (TrimPrefix (baseName path) (versionPrefix n)) ''.sql'',
            mgSQL = content, mgChecksum = sha256hex content\<rparr> # ms)))"

definition migrations :: "(string \<Rightarrow> string) \<Rightarrow> (string \<times> string) list \<Rightarrow> migrate_error + migration list" where
  "migrations sha256hex files = readMigrations sha256hex (sort_by (\<lambda>a b. fst a < fst b) files)"

subsection \<open>Applying them\<close>

record schema_row =
  smwVersion :: int
  smwName :: string
  smwChecksum :: string

record 'd schema_db =
  sdMigrations :: "schema_row list option"
  sdSchema :: 'd

definition EnsureMigrationTable :: "'d schema_db \<Rightarrow> 'd schema_db" where
  "EnsureMigrationTable db = (if sdMigrations db = None then db\<lparr>sdMigrations := Some []\<rparr> else db)"

definition recordOf :: "migration \<Rightarrow> schema_row" where
  "recordOf m = \<lparr>smwVersion = mgVersion m, smwName = mgName m, smwChecksum = mgChecksum m\<rparr>"

text \<open>The transaction of one migration. An empty checksum is no row or a legacy row, which is not
  run again.\<close>

definition applyMigration ::
  "(string \<Rightarrow> 'd \<Rightarrow> 'd option) \<Rightarrow> migration \<Rightarrow> 'd schema_db \<Rightarrow> migrate_error + 'd schema_db \<times> unit"
where
  "applyMigration exec m db =
     (let rows = (case sdMigrations db of None \<Rightarrow> [] | Some rows \<Rightarrow> rows);
          row = find (\<lambda>r. smwVersion r = mgVersion m) rows;
          recorded = (case row of None \<Rightarrow> [] | Some r \<Rightarrow> smwChecksum r)
      in if recorded \<noteq> [] then
           (if recorded \<noteq> mgChecksum m then Inl (MigrationMismatch (mgVersion m) recorded (mgChecksum m))
            else Inr (db, ()))
         else if row \<noteq> None then Inr (db, ())
         else (case exec (mgSQL m) (sdSchema db) of
             None \<Rightarrow> Inl (MigrationFailed (mgVersion m) (mgName m))
           | Some schema \<Rightarrow> Inr (db\<lparr>sdMigrations := Some (rows @ [recordOf m]), sdSchema := schema\<rparr>, ())))"

fun migrateLoop ::
  "(string \<Rightarrow> 'd \<Rightarrow> 'd option) \<Rightarrow> migration list \<Rightarrow> 'd schema_db \<Rightarrow> 'd schema_db \<times> migrate_error option"
where
  "migrateLoop exec [] db = (db, None)"
| "migrateLoop exec (m # ms) db = (case WithTx (applyMigration exec m) db of
       (db', Inl err) \<Rightarrow> (db', Some err)
     | (db', Inr u) \<Rightarrow> migrateLoop exec ms db')"

definition ApplyMigrations ::
  "(string \<Rightarrow> 'd \<Rightarrow> 'd option) \<Rightarrow> (string \<Rightarrow> string) \<Rightarrow> (string \<times> string) list \<Rightarrow> 'd schema_db
     \<Rightarrow> 'd schema_db \<times> migrate_error option"
where
  "ApplyMigrations exec sha256hex files db =
     (let db1 = EnsureMigrationTable db
      in case migrations sha256hex files of Inl err \<Rightarrow> (db1, Some err) | Inr ms \<Rightarrow> migrateLoop exec ms db1)"

text \<open>\<open>blank\<close> is the schema just after it was created.\<close>

definition Reset ::
  "'d \<Rightarrow> (string \<Rightarrow> 'd \<Rightarrow> 'd option) \<Rightarrow> (string \<Rightarrow> string) \<Rightarrow> (string \<times> string) list \<Rightarrow> 'd schema_db
     \<Rightarrow> 'd schema_db \<times> migrate_error option"
where
  "Reset blank exec sha256hex files db =
     ApplyMigrations exec sha256hex files \<lparr>sdMigrations = None, sdSchema = blank\<rparr>"

end
