(* ===== verification/Site.thy ===== *)
theory Site
  imports RuleStore AlertStore IntentStore RuleForms Migrate
begin

text \<open>
  The read side of the web application: \<^verbatim>\<open>Dashboard\<close> and \<^verbatim>\<open>RuleForm\<close> of
  \<^verbatim>\<open>internal/runtime/site.go\<close>, the records and queries of
  \<^verbatim>\<open>internal/runtime/api.go\<close>, and the view models, defaults and routes of
  \<^verbatim>\<open>internal/web/web.go\<close>. The text of a JSON value and of a timestamp are the arguments
  \<open>render\<close> and \<open>stamp\<close>; rows that compare equal stay in the order of their table. The HTML is
  not modelled: a page is its view model after the defaults.
\<close>

subsection \<open>View models\<close>

record rule_card =
  rcID :: string
  rcName :: string
  rcStatus :: string
  rcRevision :: int
  rcUpdatedAt :: gotime
  rcSummary :: string
  rcEditURL :: string

record alert_card =
  acID :: string
  acRuleName :: string
  acSubject :: string
  acStatus :: string
  acOpenedAt :: "gotime option"
  acDetailURL :: string

record notification_card =
  ncID :: string
  ncRuleName :: string
  ncSubject :: string
  ncKind :: string
  ncAudience :: string
  ncDelivery :: string
  ncAt :: gotime

record dashboard_view =
  dvTitle :: string
  dvRules :: "rule_card list"
  dvAlerts :: "alert_card list"
  dvNotifications :: "notification_card list"
  dvNewRuleURL :: string
  dvRulesURL :: string
  dvAlertsURL :: string
  dvNotificationsURL :: string
  dvNotice :: string

record preview_alert =
  paSubject :: string
  paOutcome :: string
  paAt :: string
  paExplanation :: string

record preview_view =
  pvwStatus :: string
  pvwSummary :: string
  pvwEvaluatedAt :: "gotime option"
  pvwAlerts :: "preview_alert list"
  pvwMessage :: string

record form_field_error =
  ffField :: string
  ffMessage :: string

record rule_form_view =
  fvTitle :: string
  fvMode :: string
  fvAction :: string
  fvCancelURL :: string
  fvRulesURL :: string
  fvAlertsURL :: string
  fvNotificationsURL :: string
  fvRuleID :: string
  fvExpectedRevision :: int
  fvTemplates :: "rule_template list"
  fvSelectedTemplate :: template_kind
  fvValues :: rule_form_values
  fvErrors :: "form_field_error list"
  fvPreview :: "preview_view option"

record rule_form_request =
  frRuleID :: string
  frTemplate :: template_kind

datatype site_error = SiteScan string | SiteRuleNotFound string | SiteRuleNotDecoded string

subsection \<open>Joins\<close>

text \<open>The rows that a left join adds to a row on its left.\<close>

definition leftRows :: "('b \<Rightarrow> bool) \<Rightarrow> 'b list \<Rightarrow> 'b option list" where
  "leftRows on bs = (if filter on bs = [] then [None] else map Some (filter on bs))"

definition isActiveRevision :: "resource_row \<Rightarrow> revision_row \<Rightarrow> bool" where
  "isActiveRevision r v \<longleftrightarrow> rvrRuleID v = rsrID r \<and> Some (rvrRevision v) = rsrActiveRevision r"

text \<open>\<^verbatim>\<open>definition->>'name'\<close>.\<close>

fun jsonText :: "(json \<Rightarrow> string) \<Rightarrow> json \<Rightarrow> string option" where
  "jsonText render (JStr s) = Some s"
| "jsonText render JNull = None"
| "jsonText render j = Some (render j)"

fun jsonMembers :: "json \<Rightarrow> (string \<times> json) list" where
  "jsonMembers (JObj ms) = ms"
| "jsonMembers _ = []"

definition definitionName :: "(json \<Rightarrow> string) \<Rightarrow> json \<Rightarrow> string option" where
  "definitionName render j = Option.bind (map_of (jsonMembers j) ''name'') (jsonText render)"

text \<open>The names that the two left joins give a rule: that of its active revision, if any.\<close>

definition joinedNames :: "(json \<Rightarrow> string) \<Rightarrow> rule_tables \<Rightarrow> string \<Rightarrow> string option list" where
  "joinedNames render db i = concat (map
     (\<lambda>r. case r of None \<Rightarrow> [None]
        | Some r \<Rightarrow> map (\<lambda>v. Option.bind v (\<lambda>v. definitionName render (rvrDefinition v)))
            (leftRows (isActiveRevision r) (rtRevisions db)))
     (leftRows (\<lambda>r. rsrID r = i) (rtResources db)))"

definition coalesce :: "string option \<Rightarrow> string \<Rightarrow> string" where
  "coalesce x y = (case x of None \<Rightarrow> y | Some s \<Rightarrow> s)"

fun statusText :: "rule_status \<Rightarrow> string" where
  "statusText RuleDraft = ''draft''"
| "statusText RuleActive = ''active''"
| "statusText RulePaused = ''paused''"
| "statusText RuleArchived = ''archived''"

fun generationText :: "generation_status \<Rightarrow> string" where
  "generationText GenerationOpen = ''open''"
| "generationText GenerationRecovered = ''recovered''"

fun intentText :: "intent_state \<Rightarrow> string" where
  "intentText IntentPending = ''pending''"
| "intentText IntentClaimed = ''claimed''"
| "intentText IntentDelivered = ''delivered''"
| "intentText IntentFailed = ''failed''"

text \<open>\<^verbatim>\<open>subject_kind||':'||subject_id\<close>.\<close>

definition subjectText :: "series_key \<Rightarrow> string" where
  "subjectText k = skSubjectKind k @ '':'' @ skSubjectID k"

subsection \<open>The dashboard\<close>

text \<open>A column that is null cannot be scanned into a string or an integer.\<close>

definition editURL :: "string \<Rightarrow> string" where
  "editURL i = ''/rules/'' @ i @ ''/edit''"

definition ruleCard :: "(json \<Rightarrow> string) \<Rightarrow> resource_row \<times> revision_row option \<Rightarrow> rule_card option" where
  "ruleCard render row = (case (Option.bind (snd row) (\<lambda>v. definitionName render (rvrDefinition v)), rsrActiveRevision (fst row)) of
       (Some name, Some n) \<Rightarrow> Some \<lparr>rcID = rsrID (fst row), rcName = name, rcStatus = statusText (rsrStatus (fst row)),
         rcRevision = n, rcUpdatedAt = rsrUpdatedAt (fst row), rcSummary = ''Active operational notification rule'',
         rcEditURL = editURL (rsrID (fst row))\<rparr>
     | _ \<Rightarrow> None)"

definition ruleCards :: "(json \<Rightarrow> string) \<Rightarrow> rule_tables \<Rightarrow> rule_card list option" where
  "ruleCards render db = sequenceOpt (map (ruleCard render) (concat (map
     (\<lambda>r. map (\<lambda>v. (r, v)) (leftRows (isActiveRevision r) (rtRevisions db)))
     (sort_by (\<lambda>a b. rsrUpdatedAt a > rsrUpdatedAt b) (rtResources db)))))"

text \<open>The generations with their series.\<close>

definition seriesGenerations :: "alert_tables \<Rightarrow> (alert_series_row \<times> generation_row) list" where
  "seriesGenerations db = concat (map (\<lambda>s. map (\<lambda>g. (s, g))
     (filter (\<lambda>g. grwSeriesID g = asrID s) (alGenerations db))) (alSeries db))"

definition alertCards :: "(json \<Rightarrow> string) \<Rightarrow> rule_tables \<Rightarrow> alert_tables \<Rightarrow> alert_card list" where
  "alertCards render rules db = concat (map
     (\<lambda>(s, g). map (\<lambda>name. \<lparr>acID = formatInt (asrID s), acRuleName = coalesce name (skRuleID (asrKey s)),
        acSubject = subjectText (asrKey s), acStatus = generationText (grwStatus g), acOpenedAt = Some (grwOpenedAt g),
        acDetailURL = []\<rparr>) (joinedNames render rules (skRuleID (asrKey s))))
     (sort_by (\<lambda>a b. grwOpenedAt (snd a) > grwOpenedAt (snd b))
        (filter (\<lambda>(s, g). grwStatus g = GenerationOpen) (seriesGenerations db))))"

text \<open>The intents with their generation and its series.\<close>

definition intentSeries :: "alert_tables \<Rightarrow> intent_row \<Rightarrow> alert_series_row list" where
  "intentSeries db r = map fst (filter (\<lambda>(s, g). grwID g = irwAlertGenerationID r) (seriesGenerations db))"

definition notificationCards ::
  "(json \<Rightarrow> string) \<Rightarrow> rule_tables \<Rightarrow> alert_tables \<Rightarrow> intent_tables \<Rightarrow> notification_card list"
where
  "notificationCards render rules al db = take 8 (concat (map
     (\<lambda>r. concat (map (\<lambda>s. map (\<lambda>name. \<lparr>ncID = formatInt (irwID r), ncRuleName = coalesce name (skRuleID (asrKey s)),
        ncSubject = subjectText (asrKey s), ncKind = irwTransitionType r, ncAudience = irwAudience r,
        ncDelivery = intentText (irwState r), ncAt = irwCreatedAt r\<rparr>) (joinedNames render rules (skRuleID (asrKey s))))
        (intentSeries al r)))
     (sort_by (\<lambda>a b. irwID a > irwID b) (itIntents db))))"

definition emptyDashboard :: dashboard_view where
  "emptyDashboard = \<lparr>dvTitle = [], dvRules = [], dvAlerts = [], dvNotifications = [], dvNewRuleURL = [], dvRulesURL = [],
     dvAlertsURL = [], dvNotificationsURL = [], dvNotice = []\<rparr>"

definition Dashboard ::
  "(json \<Rightarrow> string) \<Rightarrow> rule_tables \<Rightarrow> alert_tables \<Rightarrow> intent_tables \<Rightarrow> site_error + dashboard_view"
where
  "Dashboard render rules al db = (case ruleCards render rules of
       None \<Rightarrow> Inl (SiteScan ''rules'')
     | Some cards \<Rightarrow> Inr (emptyDashboard\<lparr>dvTitle := ''Team lead dashboard'', dvRules := cards,
         dvAlerts := alertCards render rules al, dvNotifications := notificationCards render rules al db\<rparr>))"

subsection \<open>The form\<close>

definition createForm :: "template_kind \<Rightarrow> rule_form_view" where
  "createForm template = \<lparr>fvTitle = ''Create a rule'', fvMode = ''create'', fvAction = ''/rules'', fvCancelURL = ''/'',
     fvRulesURL = [], fvAlertsURL = [], fvNotificationsURL = [], fvRuleID = [], fvExpectedRevision = 0,
     fvTemplates = StandardTemplates, fvSelectedTemplate = template, fvValues = createValues, fvErrors = [],
     fvPreview = None\<rparr>"

definition editForm :: "rule_form_view \<Rightarrow> string \<Rightarrow> int \<Rightarrow> template_kind \<times> rule_form_values \<Rightarrow> rule_form_view" where
  "editForm v i n f = v\<lparr>fvExpectedRevision := n, fvMode := ''edit'', fvTitle := ''Edit rule'', fvRuleID := i,
     fvAction := ''/rules/'' @ i, fvValues := snd f, fvSelectedTemplate := fst f\<rparr>"

definition activeRevisionOf :: "string \<Rightarrow> rule_tables \<Rightarrow> revision_row option" where
  "activeRevisionOf i db = (case concat (map (\<lambda>r. filter (isActiveRevision r) (rtRevisions db))
       (filter (\<lambda>r. rsrID r = i) (rtResources db))) of [] \<Rightarrow> None | v # vs \<Rightarrow> Some v)"

definition SiteRuleForm ::
  "(json \<Rightarrow> string) \<Rightarrow> rule_tables \<Rightarrow> rule_form_request \<Rightarrow> site_error + rule_form_view"
where
  "SiteRuleForm render db req =
     (let template = (if frTemplate req = [] then TemplateQueueSLA else frTemplate req);
          v = createForm template
      in if frRuleID req = [] then Inr v
         else (case activeRevisionOf (frRuleID req) db of
             None \<Rightarrow> Inl (SiteRuleNotFound (frRuleID req))
           | Some row \<Rightarrow> (case RuleForm (frTemplate req) (Some (render (rvrDefinition row), rvrDefinition row)) of
               None \<Rightarrow> Inl (SiteRuleNotDecoded (frRuleID req))
             | Some f \<Rightarrow> Inr (editForm v (frRuleID req) (rvrRevision row) f))))"

subsection \<open>The JSON endpoints\<close>

record alert_record =
  arcID :: int
  arcRuleID :: string
  arcSubjectKind :: string
  arcSubjectID :: string
  arcStatus :: string
  arcOpenedAt :: string
  arcRecoveredAt :: "string option"

record notification_record =
  nrcID :: int
  nrcRuleID :: string
  nrcSubjectKind :: string
  nrcSubjectID :: string
  nrcKind :: string
  nrcAudience :: string
  nrcState :: string
  nrcCreatedAt :: string
  nrcMessage :: string

definition listAlerts :: "(gotime \<Rightarrow> string) \<Rightarrow> alert_tables \<Rightarrow> alert_record list" where
  "listAlerts stamp db = map (\<lambda>(s, g). \<lparr>arcID = asrID s, arcRuleID = skRuleID (asrKey s),
     arcSubjectKind = skSubjectKind (asrKey s), arcSubjectID = skSubjectID (asrKey s),
     arcStatus = generationText (grwStatus g), arcOpenedAt = stamp (grwOpenedAt g),
     arcRecoveredAt = map_option stamp (grwRecoveredAt g)\<rparr>)
     (sort_by (\<lambda>a b. grwOpenedAt (snd a) > grwOpenedAt (snd b)) (seriesGenerations db))"

definition listNotifications ::
  "(gotime \<Rightarrow> string) \<Rightarrow> alert_tables \<Rightarrow> intent_tables \<Rightarrow> notification_record list"
where
  "listNotifications stamp al db = concat (map (\<lambda>r. map (\<lambda>s. \<lparr>nrcID = irwID r, nrcRuleID = skRuleID (asrKey s),
     nrcSubjectKind = skSubjectKind (asrKey s), nrcSubjectID = skSubjectID (asrKey s), nrcKind = irwTransitionType r,
     nrcAudience = irwAudience r, nrcState = intentText (irwState r), nrcCreatedAt = stamp (irwCreatedAt r),
     nrcMessage = (case itDeliveries db (irwID r) of None \<Rightarrow> [] | Some d \<Rightarrow> dwrVisibleMessage d)\<rparr>) (intentSeries al r))
     (sort_by (\<lambda>a b. irwID a < irwID b) (itIntents db)))"

text \<open>A nil slice is encoded as null, and an absent recovery is omitted.\<close>

definition encodeAlert :: "alert_record \<Rightarrow> json" where
  "encodeAlert x = JObj ([(''id'', JNum (formatInt (arcID x))), (''rule_id'', JStr (arcRuleID x)),
     (''subject_kind'', JStr (arcSubjectKind x)), (''subject_id'', JStr (arcSubjectID x)), (''status'', JStr (arcStatus x)),
     (''opened_at'', JStr (arcOpenedAt x))] @
     (case arcRecoveredAt x of None \<Rightarrow> [] | Some t \<Rightarrow> [(''recovered_at'', JStr t)]))"

definition encodeNotification :: "notification_record \<Rightarrow> json" where
  "encodeNotification x = JObj [(''id'', JNum (formatInt (nrcID x))), (''rule_id'', JStr (nrcRuleID x)),
     (''subject_kind'', JStr (nrcSubjectKind x)), (''subject_id'', JStr (nrcSubjectID x)), (''kind'', JStr (nrcKind x)),
     (''audience'', JStr (nrcAudience x)), (''state'', JStr (nrcState x)), (''created_at'', JStr (nrcCreatedAt x)),
     (''message'', JStr (nrcMessage x))]"

definition encodeSlice :: "('a \<Rightarrow> json) \<Rightarrow> 'a list \<Rightarrow> json" where
  "encodeSlice f xs = (if xs = [] then JNull else JArr (map f xs))"

end
