(* ===== verification/Web.thy ===== *)
theory Web
  imports Site
begin

text \<open>
  The web handlers: \<^verbatim>\<open>ServeHTTP\<close> and the defaults of \<^verbatim>\<open>RenderDashboard\<close> and
  \<^verbatim>\<open>RenderRuleForm\<close> in \<^verbatim>\<open>internal/web/web.go\<close>, the endpoints of \<^verbatim>\<open>API\<close>
  in \<^verbatim>\<open>internal/runtime/api.go\<close>, and the handler of \<^verbatim>\<open>serve\<close> with
  \<^verbatim>\<open>saveDemoRule\<close> of \<^verbatim>\<open>cmd/watchtower/main.go\<close>.
  A request holds its path and the values of its query and form as the standard library gives
  them.
\<close>

subsection \<open>Pages\<close>

definition orDefault :: "string \<Rightarrow> string \<Rightarrow> string" where
  "orDefault s d = (if s = [] then d else s)"

definition defaultsDashboard :: "dashboard_view \<Rightarrow> dashboard_view" where
  "defaultsDashboard v = v\<lparr>dvNewRuleURL := orDefault (dvNewRuleURL v) ''/rules/new'',
     dvRulesURL := orDefault (dvRulesURL v) ''/rules/new'', dvAlertsURL := orDefault (dvAlertsURL v) ''/api/alerts'',
     dvNotificationsURL := orDefault (dvNotificationsURL v) ''/api/notifications''\<rparr>"

definition RenderDashboard :: "dashboard_view \<Rightarrow> dashboard_view" where
  "RenderDashboard v = defaultsDashboard (v\<lparr>dvTitle := orDefault (dvTitle v) ''Team lead dashboard''\<rparr>)"

definition RenderRuleForm :: "rule_form_view \<Rightarrow> rule_form_view" where
  "RenderRuleForm v =
     (let mode = orDefault (fvMode v) ''create''
      in v\<lparr>fvMode := mode,
           fvTitle := orDefault (fvTitle v) (if mode = ''edit'' then ''Edit rule'' else ''Create rule''),
           fvAction := orDefault (fvAction v) ''/rules'', fvCancelURL := orDefault (fvCancelURL v) ''/rules'',
           fvRulesURL := orDefault (fvRulesURL v) ''/rules'', fvAlertsURL := orDefault (fvAlertsURL v) ''/alerts'',
           fvNotificationsURL := orDefault (fvNotificationsURL v) ''/notifications'',
           fvTemplates := (if fvTemplates v = [] then StandardTemplates else fvTemplates v),
           fvSelectedTemplate := orDefault (fvSelectedTemplate v) TemplateQueueSLA\<rparr>)"

definition hasErrors :: "form_field_error list \<Rightarrow> string \<Rightarrow> bool" where
  "hasErrors es field = list_ex (\<lambda>e. ffField e = field) es"

subsection \<open>Requests and replies\<close>

record http_request =
  hqMethod :: string
  hqPath :: string
  hqQuery :: "string \<Rightarrow> string"
  hqForm :: "(string \<Rightarrow> string) option"

datatype failure_text = Plain string | LoadFailed string | FormRejected form_error
  | DefinitionRejected "validation_error list" | PreviewRejected replay_error | SaveRejected rule_store_error

datatype reply = Page dashboard_view | Form rule_form_view | Stylesheet string | JsonBody json
  | Failure nat failure_text | MethodNotAllowed | NotFound | Redirect string | Moved string | Healthy

definition hasPrefix :: "string \<Rightarrow> string \<Rightarrow> bool" where
  "hasPrefix s p \<longleftrightarrow> take (length p) s = p"

definition hasSuffix :: "string \<Rightarrow> string \<Rightarrow> bool" where
  "hasSuffix s p \<longleftrightarrow> length p \<le> length s \<and> drop (length s - length p) s = p"

record view_source =
  vsDashboard :: "site_error + dashboard_view"
  vsRuleForm :: "rule_form_request \<Rightarrow> site_error + rule_form_view"

definition serveCSS :: "string option \<Rightarrow> reply" where
  "serveCSS asset = (case asset of None \<Rightarrow> Failure 500 (Plain ''web stylesheet unavailable'') | Some b \<Rightarrow> Stylesheet b)"

definition replyForm :: "site_error + rule_form_view \<Rightarrow> reply" where
  "replyForm r = (case r of Inl err \<Rightarrow> Failure 500 (Plain ''load rule form'') | Inr v \<Rightarrow> Form (RenderRuleForm v))"

definition editID :: "string \<Rightarrow> string" where
  "editID path = TrimSuffix (TrimPrefix path ''/rules/'') ''/edit''"

definition ServeHTTP :: "string option \<Rightarrow> view_source option \<Rightarrow> http_request \<Rightarrow> reply" where
  "ServeHTTP asset src r =
     (if hqMethod r \<noteq> ''GET'' then MethodNotAllowed
      else if hqPath r = ''/_watchtower/web.css'' then serveCSS asset
      else case src of None \<Rightarrow> Failure 503 (Plain ''web view source is not configured'')
      | Some h \<Rightarrow>
          if hqPath r = ''/'' \<or> hqPath r = ''/dashboard''
          then (case vsDashboard h of Inl err \<Rightarrow> Failure 500 (Plain ''load dashboard'')
            | Inr v \<Rightarrow> Page (RenderDashboard v))
          else if hqPath r = ''/rules/new''
          then replyForm (vsRuleForm h \<lparr>frRuleID = [], frTemplate = hqQuery r ''template''\<rparr>)
          else if hasPrefix (hqPath r) ''/rules/'' \<and> hasSuffix (hqPath r) ''/edit''
          then (let i = editID (hqPath r)
            in if i = [] \<or> CHR ''/'' \<in> set i then NotFound
               else replyForm (vsRuleForm h \<lparr>frRuleID = i, frTemplate = []\<rparr>))
          else NotFound)"

subsection \<open>The JSON endpoints\<close>

text \<open>The handlers of the two patterns; a failed query, which the model has none of, is a
  failure of its own.\<close>

definition API :: "(gotime \<Rightarrow> string) \<Rightarrow> alert_tables \<Rightarrow> intent_tables \<Rightarrow> http_request \<Rightarrow> reply" where
  "API stamp al db r =
     (if hqPath r = ''/alerts''
      then (if hqMethod r \<noteq> ''GET'' then Failure 405 (Plain ''method not allowed'')
            else JsonBody (encodeSlice encodeAlert (listAlerts stamp al)))
      else if hqPath r = ''/notifications''
      then (if hqMethod r \<noteq> ''GET'' then Failure 405 (Plain ''method not allowed'')
            else JsonBody (encodeSlice encodeNotification (listNotifications stamp al db)))
      else NotFound)"

subsection \<open>Posting a rule\<close>

text \<open>What the server takes from elsewhere: the preview's events, the parser and printer of JSON,
  the columns and the clock of the database, \<^verbatim>\<open>strings.ToLower\<close> beyond ASCII, and
  \<^verbatim>\<open>Format(time.RFC3339)\<close>.\<close>

record server =
  svEvents :: "string option"
  svParse :: "string \<Rightarrow> json option"
  svRender :: "json \<Rightarrow> string"
  svJsonb :: "json \<Rightarrow> json"
  svClock :: gotime
  svLower :: "string \<Rightarrow> string"
  svFormat :: "gotime \<Rightarrow> string"
  svStylesheet :: "string option"

definition previewItem :: "(gotime \<Rightarrow> string) \<Rightarrow> preview_notification \<Rightarrow> preview_alert" where
  "previewItem fmt item = \<lparr>paSubject = ntSubjectKind item @ '':'' @ ntSubjectID item,
     paOutcome = kindString (atKind (ntAlert item)), paAt = fmt (atAt (ntAlert item)),
     paExplanation = ''Visible stub notification for '' @ inAudience (ntIntent item)\<rparr>"

definition previewForm :: "server \<Rightarrow> template_kind \<Rightarrow> (string \<Rightarrow> string) \<Rightarrow> preview_notification list \<Rightarrow> rule_form_view" where
  "previewForm sv template value' items = \<lparr>fvTitle = ''Preview this rule'', fvMode = ''create'', fvAction = ''/rules'',
     fvCancelURL = ''/'', fvRulesURL = [], fvAlertsURL = [], fvNotificationsURL = [], fvRuleID = [],
     fvExpectedRevision = 0, fvTemplates = StandardTemplates, fvSelectedTemplate = template,
     fvValues = createValues\<lparr>rfName := value' ''name'', rfDescription := value' ''description'',
       rfTargetIDs := value' ''target_ids'', rfTriggerFor := value' ''trigger_for'', rfClearFor := ''0s'',
       rfAudience := value' ''audience'', rfNotifyOnOpen := True, rfNotifyOnRecovery := True\<rparr>,
     fvErrors = [],
     fvPreview = Some \<lparr>pvwStatus = ''ready'', pvwSummary = ''This rule would create '' @ formatInt (int (length items)) @
         '' notifications from the supplied morning.'', pvwEvaluatedAt = None,
       pvwAlerts = map (previewItem (svFormat sv)) items, pvwMessage = []\<rparr>\<rparr>"

definition previewRuleOf :: "rule_definition \<Rightarrow> preview_rule" where
  "previewRuleOf d = \<lparr>prID = ''preview'', prRevision = 1, prDefinition = d\<rparr>"

definition previewPosted :: "server \<Rightarrow> template_kind \<Rightarrow> (string \<Rightarrow> string) \<Rightarrow> rule_definition \<Rightarrow> reply" where
  "previewPosted sv template value' d = (case svEvents sv of
       None \<Rightarrow> Failure 500 (LoadFailed ''open preview events'')
     | Some events \<Rightarrow> (case Replay (svParse sv) (Some events) [previewRuleOf d] of
         Inl err \<Rightarrow> Failure 422 (PreviewRejected err)
       | Inr items \<Rightarrow> Form (RenderRuleForm (previewForm sv template value' items))))"

definition saveDemoRule :: "server \<Rightarrow> http_request \<Rightarrow> rule_tables \<Rightarrow> rule_tables \<times> reply" where
  "saveDemoRule sv r db = (case hqForm r of None \<Rightarrow> (db, Failure 400 (Plain ''read rule form''))
     | Some value' \<Rightarrow>
         (let template = orDefault (value' ''template_choice'') (value' ''template'')
          in case Definition template (value' ''name'') (value' ''description'') (value' ''target_ids'')
                 (value' ''trigger_for'') (value' ''audience'') of
               Inl err \<Rightarrow> (db, Failure 422 (FormRejected err))
             | Inr (d, e # es) \<Rightarrow> (db, Failure 422 (DefinitionRejected (e # es)))
             | Inr (d, []) \<Rightarrow>
                 if value' ''intent'' = ''preview'' then (db, previewPosted sv template value' d)
                 else (case SaveRule (svLower sv) (svJsonb sv) (svClock sv) (value' ''rule_id'') d db of
                     (db', Inl err) \<Rightarrow> (db', Failure 500 (SaveRejected err))
                   | (db', Inr i) \<Rightarrow> (db', Redirect (''/?saved='' @ i)))))"

text \<open>The handler of \<^verbatim>\<open>/\<close>: posts below \<^verbatim>\<open>/rules\<close>, and the pages.\<close>

definition siteSource :: "server \<Rightarrow> alert_tables \<Rightarrow> intent_tables \<Rightarrow> rule_tables \<Rightarrow> view_source" where
  "siteSource sv al it db = \<lparr>vsDashboard = Dashboard (svRender sv) db al it,
     vsRuleForm = SiteRuleForm (svRender sv) db\<rparr>"

definition handleRoot ::
  "server \<Rightarrow> alert_tables \<Rightarrow> intent_tables \<Rightarrow> rule_tables \<Rightarrow> http_request \<Rightarrow> rule_tables \<times> reply"
where
  "handleRoot sv al it db r =
     (if hqMethod r = ''POST'' \<and> hasPrefix (hqPath r) ''/rules'' then saveDemoRule sv r db
      else (db, ServeHTTP (svStylesheet sv) (Some (siteSource sv al it db)) r))"

text \<open>The routes of \<^verbatim>\<open>serve\<close> on a clean path: a pattern that ends in a slash matches
  everything below it, and the path without the slash is redirected to it.\<close>

definition stripAPI :: "http_request \<Rightarrow> http_request" where
  "stripAPI r = r\<lparr>hqPath := TrimPrefix (hqPath r) ''/api''\<rparr>"

definition serveRoutes ::
  "server \<Rightarrow> bool \<Rightarrow> (gotime \<Rightarrow> string) \<Rightarrow> alert_tables \<Rightarrow> intent_tables \<Rightarrow> rule_tables \<Rightarrow> http_request
     \<Rightarrow> rule_tables \<times> reply"
where
  "serveRoutes sv ping stamp al it db r =
     (if hqPath r = ''/healthz''
      then (db, if ping then Healthy else Failure 503 (Plain ''database unavailable''))
      else if hqPath r = ''/api'' then (db, Moved ''/api/'')
      else if hasPrefix (hqPath r) ''/api/'' then (db, API stamp al it (stripAPI r))
      else handleRoot sv al it db r)"

end
