(* ===== verification/WebProps.thy ===== *)
theory WebProps
  imports Web RuleStoreProps RuleFormsProps IntentStoreProps
begin

text \<open>
  Properties of the web application: the dashboard and the edit links of its rules, what posting a
  rule does, and the size of the connection pool.
\<close>

subsection \<open>Rules that are active\<close>

text \<open>Between transactions every rule is active, and the stored definitions have a name.\<close>

definition allActive :: "rule_tables \<Rightarrow> bool" where
  "allActive db \<longleftrightarrow> (\<forall>r \<in> set (rtResources db). rsrStatus r = RuleActive \<and> rsrActiveRevision r \<noteq> None)"

definition allNamed :: "(json \<Rightarrow> string) \<Rightarrow> rule_tables \<Rightarrow> bool" where
  "allNamed render db \<longleftrightarrow> (\<forall>v \<in> set (rtRevisions db). definitionName render (rvrDefinition v) \<noteq> None)"

lemma marshalDefinition_named: "marshalDefinition d = Some j \<Longrightarrow> definitionName render j = Some (rdName d)"
  by (auto simp: marshalDefinition_def definitionName_def split: option.splits)

lemma activated:
  assumes "\<forall>r \<in> set rows. rsrStatus r = RuleActive \<and> (rsrActiveRevision r \<noteq> None \<or> p r)"
  shows "\<forall>r \<in> set (updateRows p (activateRow clock n) rows). rsrStatus r = RuleActive \<and> rsrActiveRevision r \<noteq> None"
  using assms by (auto simp: set_updateRows)

lemma saveRevision_active:
  assumes "allActive db" "allNamed render db" and s: "saveRevision clock i j db = Inr (db', k)"
    and "definitionName render j \<noteq> None"
  shows "allActive db' \<and> allNamed render db'"
proof -
  let ?n = "nextRevision i db" and ?db1 = "ensureResource clock i db"
  have db': "db' = (addRevision i ?n j ?db1)\<lparr>rtResources :=
      updateRows (\<lambda>r. rsrID r = i) (activateRow clock ?n) (rtResources (addRevision i ?n j ?db1))\<rparr>"
    using s by (auto simp: saveRevision_def Let_def split: if_splits)
  have "\<forall>r \<in> set (rtResources ?db1). rsrStatus r = RuleActive \<and> (rsrActiveRevision r \<noteq> None \<or> rsrID r = i)"
    using assms(1) by (auto simp: allActive_def ensureResource_def)
  from activated [OF this] have "allActive db'" by (simp add: allActive_def db')
  moreover have "allNamed render db'" using assms(2,4) by (simp add: allNamed_def db' addRevision_def)
  ultimately show ?thesis ..
qed

lemma seedRule_active:
  assumes "allActive db" "allNamed render db" and s: "seedRule jsonb clock r db = Inr db'"
    and jsonb: "\<And>j. definitionName render (jsonb j) = definitionName render j"
  shows "allActive db' \<and> allNamed render db'"
proof -
  obtain j where j: "marshalDefinition (prDefinition r) = Some j" using s by (auto simp: seedRule_def split: option.splits)
  let ?db1 = "ensureResource clock (prID r) db"
  let ?db2 = "if storedRevision (prID r) (prRevision r) ?db1 then ?db1 else addRevision (prID r) (prRevision r) (jsonb j) ?db1"
  have db': "db' = ?db2\<lparr>rtResources := updateRows (\<lambda>x. rsrID x = prID r \<and> rsrActiveRevision x = None)
      (activateRow clock (prRevision r)) (rtResources ?db2)\<rparr>"
    using s j by (simp add: seedRule_def Let_def)
  have res: "rtResources ?db2 = rtResources ?db1" by simp
  have "\<forall>x \<in> set (rtResources ?db1). rsrStatus x = RuleActive \<and>
      (rsrActiveRevision x \<noteq> None \<or> (rsrID x = prID r \<and> rsrActiveRevision x = None))"
    using assms(1) by (auto simp: allActive_def ensureResource_def)
  from activated [OF this] have "allActive db'" by (simp add: allActive_def db' res)
  moreover have "allNamed render db'"
    using assms(2) marshalDefinition_named [OF j] by (simp add: allNamed_def db' addRevision_def jsonb)
  ultimately show ?thesis ..
qed

lemma seedLoop_active:
  assumes jsonb: "\<And>j. definitionName render (jsonb j) = definitionName render j"
  shows "allActive db \<Longrightarrow> allNamed render db \<Longrightarrow> seedLoop jsonb clock rs db = Inr (db', u) \<Longrightarrow> allActive db' \<and> allNamed render db'"
proof (induction rs arbitrary: db)
  case (Cons r rs)
  from Cons.prems(3) obtain db1 where db1: "seedRule jsonb clock r db = Inr db1" "seedLoop jsonb clock rs db1 = Inr (db', u)"
    by (auto split: sum.splits)
  from seedRule_active [OF Cons.prems(1,2) db1(1) jsonb] Cons.IH [OF _ _ db1(2)] show ?case by blast
qed simp

definition rulesShown :: "(json \<Rightarrow> string) \<Rightarrow> rule_tables \<Rightarrow> bool" where
  "rulesShown render db \<longleftrightarrow> rulesOk db \<and> allActive db \<and> allNamed render db"

lemma ruleStep_shown:
  assumes jsonb: "\<And>j. definitionName render (jsonb j) = definitionName render j" and ok: "rulesShown render db"
  shows "rulesShown render (fst (ruleStep lower jsonb db op))"
proof (cases op)
  case (OpSave clock i d)
  show ?thesis
  proof (cases "marshalDefinition d")
    case None
    with OpSave ok show ?thesis by (simp add: SaveRule_def case_prod_beta)
  next
    case (Some j)
    note named = marshalDefinition_named [OF Some, of render]
    show ?thesis
    proof (cases "saveRevision clock (ruleIDFor lower i (rdName d)) (jsonb j) db")
      case (Inl e)
      with OpSave Some ok show ?thesis by (simp add: SaveRule_def withTx_def case_prod_beta)
    next
      case (Inr r)
      obtain db' k where r: "r = (db', k)" by (cases r)
      from saveRevision_ok [OF _ Inr [unfolded r]] saveRevision_active [OF _ _ Inr [unfolded r], of render] ok named jsonb
      have "rulesShown render db'" by (simp add: rulesShown_def)
      with OpSave Some Inr r show ?thesis by (simp add: SaveRule_def withTx_def case_prod_beta)
    qed
  qed
next
  case (OpSeed clock rs)
  show ?thesis
  proof (cases "seedLoop jsonb clock rs db")
    case (Inl e)
    with OpSeed ok show ?thesis by (simp add: seedRules_def WithTx_def)
  next
    case (Inr r)
    obtain db' u where r: "r = (db', u)" by (cases r)
    from seedLoop_ok [OF _ Inr [unfolded r]] seedLoop_active [OF jsonb _ _ Inr [unfolded r]] ok
    have "rulesShown render db'" by (auto simp: rulesShown_def)
    with OpSeed Inr r show ?thesis by (simp add: seedRules_def WithTx_def)
  qed
qed

lemma rulesShown_empty: "rulesShown render emptyRules"
  using emptyRules_ok by (simp add: rulesShown_def allActive_def allNamed_def emptyRules_def)

lemma run_shown:
  assumes "\<And>j. definitionName render (jsonb j) = definitionName render j"
  shows "rulesShown render (fst (run (ruleStep lower jsonb) emptyRules ops))"
proof (rule invariant_machine.run_inv [where inv = "rulesShown render", OF _ rulesShown_empty])
  show "invariant_machine (ruleStep lower jsonb) (rulesShown render)"
    by unfold_locales (rule ruleStep_shown [OF assms])
qed

subsection \<open>The active revision\<close>

lemma filter_unique: "distinct (map f xs) \<Longrightarrow> x \<in> set xs \<Longrightarrow> (\<And>y. P y \<longleftrightarrow> f y = f x) \<Longrightarrow> filter P xs = [x]"
proof (induction xs)
  case (Cons a xs)
  show ?case
  proof (cases "x = a")
    case True
    then have "filter P xs = [] \<and> P a" using Cons.prems by (auto simp: filter_empty_conv image_iff)
    then show ?thesis using True by (simp only: filter.simps if_True)
  next
    case False
    with Cons.prems have "x \<in> set xs" "f a \<noteq> f x" by (auto simp: image_iff)
    with Cons show ?thesis by simp
  qed
qed simp

lemma active_revision:
  assumes ok: "rulesOk db" and r: "r \<in> set (rtResources db)" and n: "rsrActiveRevision r = Some n"
  obtains v where "v \<in> set (rtRevisions db)" "rvrRuleID v = rsrID r" "rvrRevision v = n"
    "filter (isActiveRevision r) (rtRevisions db) = [v]" "activeRevisionOf (rsrID r) db = Some v"
proof -
  from ok r have "resourceOk db r" by (simp add: rulesOk_def)
  with n obtain v where v: "v \<in> set (rtRevisions db)" "rvrRuleID v = rsrID r" "rvrRevision v = n"
    by (auto simp: resourceOk_def storedRevision_def)
  have one: "filter (isActiveRevision r) (rtRevisions db) = [v]"
    by (rule filter_unique [where f = "\<lambda>v. (rvrRuleID v, rvrRevision v)"]) (use ok v n in \<open>auto simp: rulesOk_def isActiveRevision_def\<close>)
  have "filter (\<lambda>x. rsrID x = rsrID r) (rtResources db) = [r]"
    by (rule filter_unique [where f = rsrID]) (use ok r in \<open>auto simp: rulesOk_def\<close>)
  with one have "activeRevisionOf (rsrID r) db = Some v" by (simp add: activeRevisionOf_def)
  with that v one show thesis by blast
qed

lemma mset_sorted_rows [simp]: "mset (sort_by lt xs) = mset xs"
proof -
  have ins: "mset (insert_by lt x ys) = add_mset x (mset ys)" for x ys by (induction ys) auto
  show ?thesis unfolding sort_by_def by (induction xs) (simp_all add: ins)
qed

definition cardOf :: "(json \<Rightarrow> string) \<Rightarrow> rule_tables \<Rightarrow> resource_row \<Rightarrow> rule_card" where
  "cardOf render db r = the (ruleCard render (r, activeRevisionOf (rsrID r) db))"

lemma ruleCards_total:
  assumes "rulesShown render db"
  shows "ruleCards render db = Some (map (cardOf render db) (sort_by (\<lambda>a b. rsrUpdatedAt a > rsrUpdatedAt b) (rtResources db)))"
    and "r \<in> set (rtResources db) \<Longrightarrow> rcID (cardOf render db r) = rsrID r \<and> rcEditURL (cardOf render db r) = editURL (rsrID r) \<and>
      rsrActiveRevision r = Some (rcRevision (cardOf render db r))"
proof -
  have one: "leftRows (isActiveRevision r) (rtRevisions db) = [activeRevisionOf (rsrID r) db] \<and>
      ruleCard render (r, activeRevisionOf (rsrID r) db) = Some (cardOf render db r) \<and> rcID (cardOf render db r) = rsrID r \<and>
      rcEditURL (cardOf render db r) = editURL (rsrID r) \<and> rsrActiveRevision r = Some (rcRevision (cardOf render db r))"
    if r: "r \<in> set (rtResources db)" for r
  proof -
    obtain n where n: "rsrActiveRevision r = Some n" using assms r by (auto simp: rulesShown_def allActive_def)
    have "rulesOk db" using assms by (simp add: rulesShown_def)
    from active_revision [OF this r n] obtain v where v: "v \<in> set (rtRevisions db)"
      "filter (isActiveRevision r) (rtRevisions db) = [v]" "activeRevisionOf (rsrID r) db = Some v" by blast
    then have "definitionName render (rvrDefinition v) \<noteq> None" using assms by (simp add: rulesShown_def allNamed_def)
    then obtain name where "definitionName render (rvrDefinition v) = Some name" by blast
    with v n show ?thesis by (simp add: leftRows_def cardOf_def ruleCard_def)
  qed
  let ?rows = "sort_by (\<lambda>a b. rsrUpdatedAt a > rsrUpdatedAt b) (rtResources db)"
  have "concat (map (\<lambda>r. map (\<lambda>v. (r, v)) (leftRows (isActiveRevision r) (rtRevisions db))) xs) =
      map (\<lambda>r. (r, activeRevisionOf (rsrID r) db)) xs" if "set xs \<subseteq> set (rtResources db)" for xs
    using that one by (induction xs) simp_all
  then have "ruleCards render db = sequenceOpt (map (\<lambda>r. ruleCard render (r, activeRevisionOf (rsrID r) db)) ?rows)"
    by (simp add: ruleCards_def comp_def)
  also have "\<dots> = sequenceOpt (map (\<lambda>r. Some (cardOf render db r)) ?rows)"
    using one by (intro arg_cong [where f = sequenceOpt] map_cong [OF refl]) simp
  also have "\<dots> = Some (map (cardOf render db) ?rows)" by (simp add: sequenceOpt_eq_Some comp_def)
  finally show "ruleCards render db = Some (map (cardOf render db) ?rows)" .
  show "r \<in> set (rtResources db) \<Longrightarrow> rcID (cardOf render db r) = rsrID r \<and> rcEditURL (cardOf render db r) = editURL (rsrID r) \<and>
      rsrActiveRevision r = Some (rcRevision (cardOf render db r))" using one by blast
qed

subsection \<open>The edit link\<close>

definition getRequest :: "string \<Rightarrow> http_request" where
  "getRequest path = \<lparr>hqMethod = ''GET'', hqPath = path, hqQuery = (\<lambda>k. []), hqForm = None\<rparr>"

lemma editID_editURL [simp]: "editID (editURL i) = i"
  by (simp add: editID_def editURL_def TrimPrefix_def TrimSuffix_def)

lemma editURL_route:
  "ServeHTTP css (Some h) (getRequest (editURL i)) =
    (if i = [] \<or> CHR ''/'' \<in> set i then NotFound else replyForm (vsRuleForm h \<lparr>frRuleID = i, frTemplate = []\<rparr>))"
proof -
  have "editURL i \<noteq> ''/rules/new''" by (auto simp: editURL_def append_eq_Cons_conv)
  moreover have "hasPrefix (editURL i) ''/rules/''" "hasSuffix (editURL i) ''/edit''" "editURL i \<noteq> ''/_watchtower/web.css''"
    "editURL i \<noteq> ''/''" "editURL i \<noteq> ''/dashboard''"
    by (simp_all add: editURL_def hasPrefix_def hasSuffix_def)
  ultimately show ?thesis by (simp add: ServeHTTP_def getRequest_def)
qed

text \<open>What following the link of a card gives: the form of its rule, at its revision, with the values
  of the stored definition.\<close>

definition opensRule :: "(json \<Rightarrow> string) \<Rightarrow> rule_tables \<Rightarrow> rule_card \<Rightarrow> reply \<Rightarrow> bool" where
  "opensRule render db c rep = (if rcID c = [] \<or> CHR ''/'' \<in> set (rcID c) then rep = NotFound
     else case activeRevisionOf (rcID c) db of None \<Rightarrow> False
     | Some row \<Rightarrow> (case unmarshalDefinition (rvrDefinition row) of
         None \<Rightarrow> rep = Failure 500 (Plain ''load rule form'')
       | Some d \<Rightarrow> (case rep of Form v \<Rightarrow> fvMode v = ''edit'' \<and> fvRuleID v = rcID c \<and>
             fvExpectedRevision v = rcRevision c \<and> fvValues v = editValues (render (rvrDefinition row)) d
           | _ \<Rightarrow> False)))"

lemma SiteRuleForm_opens:
  assumes shown: "rulesShown render db" and r: "r \<in> set (rtResources db)" and css: "vsRuleForm h = SiteRuleForm render db"
  shows "opensRule render db (cardOf render db r) (ServeHTTP css (Some h) (getRequest (rcEditURL (cardOf render db r))))"
proof -
  let ?c = "cardOf render db r"
  have ok: "rulesOk db" using shown by (simp add: rulesShown_def)
  have c: "rcID ?c = rsrID r" "rcEditURL ?c = editURL (rsrID r)" "rsrActiveRevision r = Some (rcRevision ?c)"
    using ruleCards_total(2) [OF shown r] by blast+
  from active_revision [OF ok r c(3)] obtain v where v: "rvrRevision v = rcRevision ?c" "activeRevisionOf (rsrID r) db = Some v"
    by blast
  show ?thesis
  proof (cases "unmarshalDefinition (rvrDefinition v)")
    case None
    then show ?thesis using v
      by (simp add: opensRule_def c(1,2) editURL_route css SiteRuleForm_def RuleForm_def replyForm_def)
  next
    case (Some d)
    then show ?thesis using v
      by (simp add: opensRule_def c(1,2) editURL_route css SiteRuleForm_def RuleForm_def replyForm_def editForm_def
          RenderRuleForm_def Let_def orDefault_def)
  qed
qed


subsection \<open>Posting a rule\<close>

lemma template_int64:
  assumes "Definition t n desc tgs dur aud = Inr (d, es)"
  shows "int64Definition d"
proof -
  obtain td kind trig clr where p: "templateParts t = Some (kind, trig, clr)"
    "d = NewRuleDefinition n desc \<lparr>tgKind = kind, tgIDs = IDs tgs, tgGroupIDs = []\<rparr>
       \<lparr>cdPredicate = trig, cdFor = td\<rparr> \<lparr>cdPredicate = clr, cdFor = 0\<rparr>
       \<lparr>npOnOpen = True, npOnRecovery = True, npAudience = aud\<rparr>"
    by (rule Definition_result [OF assms]) blast
  show ?thesis using p(1)
    by (auto simp: p(2) int64Definition_def NewRuleDefinition_def templateParts_def NewCompare_def int64Operand_def
        FieldOperand_def BooleanOperand_def AgentStateOperand_def zeroOperand_def split: if_splits)
qed

lemma saveDemoRule_redirect:
  assumes "saveDemoRule sv r db = (db', Redirect url)" and "hqForm r = Some value'"
  obtains d i where "Definition (orDefault (value' ''template_choice'') (value' ''template'')) (value' ''name'')
      (value' ''description'') (value' ''target_ids'') (value' ''trigger_for'') (value' ''audience'') = Inr (d, [])"
    "value' ''intent'' \<noteq> ''preview''" "url = ''/?saved='' @ i"
    "SaveRule (svLower sv) (svJsonb sv) (svClock sv) (value' ''rule_id'') d db = (db', Inr i)"
proof -
  let ?def = "Definition (orDefault (value' ''template_choice'') (value' ''template'')) (value' ''name'')
      (value' ''description'') (value' ''target_ids'') (value' ''trigger_for'') (value' ''audience'')"
  obtain d es where d: "?def = Inr (d, es)"
    using assms by (cases ?def) (auto simp: saveDemoRule_def Let_def)
  have es: "es = []" using assms d by (cases es) (simp_all add: saveDemoRule_def Let_def)
  have intent: "value' ''intent'' \<noteq> ''preview''"
  proof
    assume "value' ''intent'' = ''preview''"
    with assms d es have "previewPosted sv (orDefault (value' ''template_choice'') (value' ''template'')) value' d = Redirect url"
      by (simp add: saveDemoRule_def Let_def)
    then show False by (simp add: previewPosted_def split: option.splits sum.splits)
  qed
  obtain db1 out where save: "SaveRule (svLower sv) (svJsonb sv) (svClock sv) (value' ''rule_id'') d db = (db1, out)" by fastforce
  have "db1 = db' \<and> (\<exists>i. out = Inr i \<and> url = ''/?saved='' @ i)"
    using assms d es intent save by (cases out) (simp_all add: saveDemoRule_def Let_def)
  with that d es intent save show thesis by blast
qed

lemma saved_active_revision:
  assumes ok: "rulesOk db" and s: "saveRevision clock i j db = Inr (db', k)"
  shows "activeRevisionOf i db' = Some \<lparr>rvrRuleID = i, rvrRevision = nextRevision i db, rvrDefinition = j\<rparr>"
proof -
  have ok': "rulesOk db'" using saveRevision_ok [OF ok s] by simp
  have "(i, nextRevision i db, j) \<in> set (activeRows (\<lambda>a b. False) db')" using saveRevision_rows [OF ok s] by simp
  then obtain r v where r: "r \<in> set (rtResources db')" "rsrID r = i" "rsrActiveRevision r = Some (nextRevision i db)"
    and v: "v \<in> set (rtRevisions db')" "rvrRuleID v = i" "rvrRevision v = nextRevision i db" "rvrDefinition v = j"
    unfolding activeRows_iff by blast
  from active_revision [OF ok' r(1,3)] obtain w where w: "w \<in> set (rtRevisions db')" "rvrRuleID w = i"
    "rvrRevision w = nextRevision i db" "activeRevisionOf i db' = Some w" unfolding r(2) by blast
  have "distinct (map (\<lambda>v. (rvrRuleID v, rvrRevision v)) (rtRevisions db'))" using ok' by (simp add: rulesOk_def)
  from same_key [OF this w(1) v(1)] have "w = v" using w(2,3) v(2,3) by simp
  with w(4) v(2-4) show ?thesis by simp
qed

text \<open>The form of a rule holds what was posted.\<close>

definition holdsPosted :: "(string \<Rightarrow> string) \<Rightarrow> string \<Rightarrow> int \<Rightarrow> reply \<Rightarrow> bool" where
  "holdsPosted value' i n rep = (case rep of
     Form v \<Rightarrow> fvRuleID v = i \<and> fvExpectedRevision v = n \<and> rfName (fvValues v) = value' ''name'' \<and>
       rfDescription (fvValues v) = value' ''description'' \<and> rfAudience (fvValues v) = value' ''audience'' \<and>
       IDs (rfTargetIDs (fvValues v)) = IDs (value' ''target_ids'') \<and>
       ParseDuration (rfTriggerFor (fvValues v)) = ParseDuration (value' ''trigger_for'')
   | _ \<Rightarrow> False)"


text \<open>Only saving writes: whatever the request, the rules change only when the reply is a redirect, and then
  the request was a post that asked to save; previews and rejected forms write nothing.\<close>

theorem only_saving_writes:
  "case handleRoot sv al it db r of (db', rep) \<Rightarrow>
     db' = db \<or> (case (rep, hqForm r) of (Redirect url, Some value') \<Rightarrow> hqMethod r = ''POST'' \<and> value' ''intent'' \<noteq> ''preview''
       | _ \<Rightarrow> False)"
proof (cases "hqMethod r = ''POST'' \<and> hasPrefix (hqPath r) ''/rules''")
  case True
  obtain db' rep where h: "saveDemoRule sv r db = (db', rep)" by fastforce
  show ?thesis
  proof (cases "\<exists>url. rep = Redirect url")
    case True
    then obtain url where url: "rep = Redirect url" ..
    then obtain value' where v: "hqForm r = Some value'" using h by (cases "hqForm r") (auto simp: saveDemoRule_def)
    from h v url \<open>hqMethod r = ''POST'' \<and> _\<close> show ?thesis
      by (auto simp: handleRoot_def elim!: saveDemoRule_redirect)
  next
    case False
    have "db' = db"
    proof (cases "hqForm r")
      case None
      with h show ?thesis by (simp add: saveDemoRule_def)
    next
      case (Some value')
      let ?def = "Definition (orDefault (value' ''template_choice'') (value' ''template'')) (value' ''name'')
        (value' ''description'') (value' ''target_ids'') (value' ''trigger_for'') (value' ''audience'')"
      show ?thesis
      proof (cases ?def)
        case (Inl e)
        with h Some show ?thesis by (simp add: saveDemoRule_def Let_def)
      next
        case (Inr q)
        obtain d es where q: "q = (d, es)" by (cases q)
        obtain db1 out where save: "SaveRule (svLower sv) (svJsonb sv) (svClock sv) (value' ''rule_id'') d db = (db1, out)" by fastforce
        have "out = Inl e \<Longrightarrow> db1 = db" for e using save by (auto simp: SaveRule_def withTx_def split: option.splits sum.splits)
        then show ?thesis
          using h Some Inr q save False
          by (cases es; cases out; cases "value' ''intent'' = ''preview''") (auto simp: saveDemoRule_def Let_def)
      qed
    qed
    with h \<open>hqMethod r = ''POST'' \<and> _\<close> show ?thesis by (simp add: handleRoot_def)
  qed
next
  case False
  then have "handleRoot sv al it db r = (db, ServeHTTP (svStylesheet sv) (Some (siteSource sv al it db)) r)"
    by (auto simp: handleRoot_def)
  then show ?thesis by simp
qed

lemma saveDemoRule_form:
  assumes h: "saveDemoRule sv r db = (db', Form v)"
  obtains value' d events items where "hqForm r = Some value'" "db' = db"
    "Definition (orDefault (value' ''template_choice'') (value' ''template'')) (value' ''name'') (value' ''description'')
       (value' ''target_ids'') (value' ''trigger_for'') (value' ''audience'') = Inr (d, [])"
    "svEvents sv = Some events" "Replay (svParse sv) (Some events) [previewRuleOf d] = Inr items"
    "v = RenderRuleForm (previewForm sv (orDefault (value' ''template_choice'') (value' ''template'')) value' items)"
proof -
  obtain value' where form: "hqForm r = Some value'" using h by (cases "hqForm r") (auto simp: saveDemoRule_def)
  let ?t = "orDefault (value' ''template_choice'') (value' ''template'')"
  let ?def = "Definition ?t (value' ''name'') (value' ''description'') (value' ''target_ids'') (value' ''trigger_for'') (value' ''audience'')"
  obtain d es where d: "?def = Inr (d, es)" using h form by (cases ?def) (auto simp: saveDemoRule_def Let_def)
  have es: "es = []" using h form d by (cases es) (simp_all add: saveDemoRule_def Let_def)
  obtain db1 out where save: "SaveRule (svLower sv) (svJsonb sv) (svClock sv) (value' ''rule_id'') d db = (db1, out)" by fastforce
  have "value' ''intent'' = ''preview''"
    using h form d es save by (cases out; cases "value' ''intent'' = ''preview''") (simp_all add: saveDemoRule_def Let_def)
  then have p: "db' = db" "previewPosted sv ?t value' d = Form v" using h form d es by (simp_all add: saveDemoRule_def Let_def)
  obtain events where ev: "svEvents sv = Some events" using p(2) by (auto simp: previewPosted_def split: option.splits)
  obtain items where items: "Replay (svParse sv) (Some events) [previewRuleOf d] = Inr items"
    using p(2) ev by (auto simp: previewPosted_def split: sum.splits)
  have "v = RenderRuleForm (previewForm sv ?t value' items)" using p(2) ev items by (simp add: previewPosted_def)
  with that [OF form p(1) d [unfolded es] ev items] show thesis .
qed

text \<open>A preview tells what the rule would have done and forgets which rule it was: a posted preview that
  is answered by a form changes nothing, shows the posted values and one line for each
  notification of the replay of the events with the posted definition, and its form is one for a
  new rule, whatever rule was being edited.\<close>

theorem posted_preview_reports_the_replay:
  "case saveDemoRule sv r db of
     (db', Form v) \<Rightarrow> db' = db \<and> fvRuleID v = [] \<and> fvMode v = ''create'' \<and>
       (\<exists>value' d events items. hqForm r = Some value' \<and>
          Definition (fvSelectedTemplate v) (rfName (fvValues v)) (rfDescription (fvValues v)) (rfTargetIDs (fvValues v))
            (rfTriggerFor (fvValues v)) (rfAudience (fvValues v)) = Inr (d, []) \<and>
          map value' [''name'', ''description'', ''target_ids'', ''trigger_for'', ''audience''] =
            [rfName (fvValues v), rfDescription (fvValues v), rfTargetIDs (fvValues v), rfTriggerFor (fvValues v),
             rfAudience (fvValues v)] \<and>
          svEvents sv = Some events \<and> Replay (svParse sv) (Some events) [previewRuleOf d] = Inr items \<and>
          map_option pvwAlerts (fvPreview v) = Some (map (previewItem (svFormat sv)) items))
   | _ \<Rightarrow> True"
proof (cases "\<exists>db' v. saveDemoRule sv r db = (db', Form v)")
  case True
  then obtain db' v where h: "saveDemoRule sv r db = (db', Form v)" by blast
  then obtain value' d events items where p: "hqForm r = Some value'" "db' = db"
    "Definition (orDefault (value' ''template_choice'') (value' ''template'')) (value' ''name'') (value' ''description'')
       (value' ''target_ids'') (value' ''trigger_for'') (value' ''audience'') = Inr (d, [])"
    "svEvents sv = Some events" "Replay (svParse sv) (Some events) [previewRuleOf d] = Inr items"
    and v: "v = RenderRuleForm (previewForm sv (orDefault (value' ''template_choice'') (value' ''template'')) value' items)"
    by (rule saveDemoRule_form)
  have "orDefault (value' ''template_choice'') (value' ''template'') \<noteq> []" using p(3)
    by (auto simp: Definition_def templateParts_def TemplateQueueSLA_def TemplateAdherence_def TemplateLongCall_def
        split: sum.splits if_splits option.splits)
  then have t: "fvSelectedTemplate v = orDefault (value' ''template_choice'') (value' ''template'')"
    by (simp add: v RenderRuleForm_def previewForm_def orDefault_def Let_def)
  have vals: "rfName (fvValues v) = value' ''name''" "rfDescription (fvValues v) = value' ''description''"
    "rfTargetIDs (fvValues v) = value' ''target_ids''" "rfTriggerFor (fvValues v) = value' ''trigger_for''"
    "rfAudience (fvValues v) = value' ''audience''" "fvRuleID v = []" "fvMode v = ''create''"
    by (simp_all add: v RenderRuleForm_def previewForm_def orDefault_def Let_def)
  obtain pv where "fvPreview v = Some pv" "pvwAlerts pv = map (previewItem (svFormat sv)) items"
    by (simp add: v RenderRuleForm_def previewForm_def Let_def)
  then show ?thesis unfolding h using p by (simp add: t vals)
next
  case False
  then show ?thesis by (auto split: prod.split reply.split)
qed

lemma if_reply: "(if c then x else y) = Form v \<Longrightarrow> (x = Form v \<Longrightarrow> P) \<Longrightarrow> (y = Form v \<Longrightarrow> P) \<Longrightarrow> P"
  by (cases c) simp_all

lemma ServeHTTP_form: "ServeHTTP css (Some h) r = Form v \<Longrightarrow> \<exists>req. replyForm (vsRuleForm h req) = Form v"
  unfolding ServeHTTP_def option.case Let_def
  by (elim if_reply) (auto simp: serveCSS_def split: option.splits sum.splits)

lemma SiteRuleForm_links:
  assumes "SiteRuleForm render db req = Inr u"
  shows "fvRulesURL u = [] \<and> fvAlertsURL u = [] \<and> fvNotificationsURL u = []"
proof (cases "frRuleID req = []")
  case True
  with assms show ?thesis by (auto simp: SiteRuleForm_def createForm_def Let_def)
next
  case False
  obtain row where row: "activeRevisionOf (frRuleID req) db = Some row"
    using assms False by (auto simp: SiteRuleForm_def Let_def split: option.splits)
  obtain f where "RuleForm (frTemplate req) (Some (render (rvrDefinition row), rvrDefinition row)) = Some f"
    using assms False row by (auto simp: SiteRuleForm_def Let_def split: option.splits)
  then have "u = editForm (createForm (if frTemplate req = [] then TemplateQueueSLA else frTemplate req)) (frRuleID req) (rvrRevision row) f"
    using assms False row by (simp add: SiteRuleForm_def Let_def)
  then show ?thesis by (simp add: editForm_def createForm_def)
qed

text \<open>The navigation of a form leads nowhere: whatever form the site serves, at any of its routes, the links
  of its head to rules, alerts and notifications are answered with not found.\<close>

theorem form_navigation_leads_nowhere:
  "case snd (serveRoutes sv ping stamp al it db r) of
     Form v \<Rightarrow> map (\<lambda>url. snd (serveRoutes sv ping stamp al it db' (getRequest url)))
       [fvRulesURL v, fvAlertsURL v, fvNotificationsURL v] = [NotFound, NotFound, NotFound]
   | _ \<Rightarrow> True"
proof (cases "\<exists>v. snd (serveRoutes sv ping stamp al it db r) = Form v")
  case True
  then obtain v where v: "snd (serveRoutes sv ping stamp al it db r) = Form v" ..
  then have root: "snd (handleRoot sv al it db r) = Form v"
    by (auto simp: serveRoutes_def API_def split: if_splits)
  have links: "fvRulesURL v = ''/rules'' \<and> fvAlertsURL v = ''/alerts'' \<and> fvNotificationsURL v = ''/notifications''"
  proof (cases "hqMethod r = ''POST'' \<and> hasPrefix (hqPath r) ''/rules''")
    case True
    then have "snd (saveDemoRule sv r db) = Form v" using root by (simp add: handleRoot_def)
    then have "saveDemoRule sv r db = (fst (saveDemoRule sv r db), Form v)" by (simp add: prod_eq_iff)
    then have "\<exists>template value' items. v = RenderRuleForm (previewForm sv template value' items)"
      by (rule saveDemoRule_form) blast
    then show ?thesis by (auto simp: RenderRuleForm_def previewForm_def orDefault_def Let_def)
  next
    case False
    then have "ServeHTTP (svStylesheet sv) (Some (siteSource sv al it db)) r = Form v" using root by (auto simp: handleRoot_def)
    then obtain req where "replyForm (SiteRuleForm (svRender sv) db req) = Form v"
      by (rule ServeHTTP_form [THEN exE]) (simp add: siteSource_def)
    then obtain u where u: "SiteRuleForm (svRender sv) db req = Inr u" "v = RenderRuleForm u"
      by (auto simp: replyForm_def split: sum.splits)
    from SiteRuleForm_links [OF u(1)] show ?thesis by (simp add: u(2) RenderRuleForm_def orDefault_def Let_def)
  qed
  have "snd (serveRoutes sv ping stamp al it db' (getRequest ''/rules'')) = NotFound"
    by (simp add: serveRoutes_def handleRoot_def ServeHTTP_def getRequest_def hasPrefix_def)
  moreover have "snd (serveRoutes sv ping stamp al it db' (getRequest ''/alerts'')) = NotFound"
    by (simp add: serveRoutes_def handleRoot_def ServeHTTP_def getRequest_def hasPrefix_def)
  moreover have "snd (serveRoutes sv ping stamp al it db' (getRequest ''/notifications'')) = NotFound"
    by (simp add: serveRoutes_def handleRoot_def ServeHTTP_def getRequest_def hasPrefix_def)
  ultimately show ?thesis by (simp add: v links)
next
  case False
  then show ?thesis by (auto split: reply.split)
qed

subsection \<open>Witnesses\<close>

lemma page_iff: "(case rep of Page v \<Rightarrow> P v | _ \<Rightarrow> False) \<longleftrightarrow> (\<exists>v. rep = Page v \<and> P v)"
  by (cases rep) auto

definition demoServer :: server where
  "demoServer = \<lparr>svEvents = None, svParse = (\<lambda>t. None), svRender = (\<lambda>j. ''{}''), svJsonb = (\<lambda>j. j), svClock = 0,
     svLower = (\<lambda>t. t), svFormat = (\<lambda>t. ''time''), svStylesheet = None\<rparr>"


definition demoForm :: "string \<Rightarrow> string" where
  "demoForm k = (if k = ''template_choice'' then TemplateLongCall else if k = ''name'' then ''Long A/B call''
     else if k = ''target_ids'' then ''a_19, a_20'' else if k = ''trigger_for'' then ''5m''
     else if k = ''audience'' then ''support'' else if k = ''intent'' then ''save'' else [])"

definition demoPost :: http_request where
  "demoPost = \<lparr>hqMethod = ''POST'', hqPath = ''/rules'', hqQuery = (\<lambda>k. []), hqForm = Some demoForm\<rparr>"


end
