(* ===== verification/RunSite.thy ===== *)
theory RunSite
  imports RunProps WebProps
begin

text \<open>
  What the web application shows of a replayed database: its alert cards against the conditions of
  the runtime, and its notifications against the stored intents.
\<close>

subsection \<open>Alert cards\<close>

lemma seriesGenerations_iff:
  "(s, g) \<in> set (seriesGenerations al) \<longleftrightarrow> s \<in> set (alSeries al) \<and> g \<in> set (alGenerations al) \<and> grwSeriesID g = asrID s"
  by (auto simp: seriesGenerations_def)

lemma leftRows_nonempty [simp]: "leftRows on bs \<noteq> []"
  by (simp add: leftRows_def)

lemma joinedNames_nonempty: "joinedNames render db i \<noteq> []"
proof -
  obtain x xs where "leftRows (\<lambda>r. rsrID r = i) (rtResources db) = x # xs" using leftRows_nonempty by (meson list.exhaust)
  then show ?thesis by (simp add: joinedNames_def split: option.split)
qed

lemma alertCards_iff:
  assumes "rowsOk al"
  shows "(\<exists>c \<in> set (alertCards render rules al). \<exists>r \<in> set (alSeries al). asrKey r = sk \<and> acID c = formatInt (asrID r)) \<longleftrightarrow>
    (\<exists>g \<in> set (alGenerations al). grwStatus g = GenerationOpen \<and> seriesKeyAt al (grwSeriesID g) = Some sk)"
proof
  assume "\<exists>c \<in> set (alertCards render rules al). \<exists>r \<in> set (alSeries al). asrKey r = sk \<and> acID c = formatInt (asrID r)"
  then obtain s g r where s: "s \<in> set (alSeries al)" "g \<in> set (alGenerations al)" "grwSeriesID g = asrID s"
    "grwStatus g = GenerationOpen" and r: "r \<in> set (alSeries al)" "asrKey r = sk" "asrID s = asrID r"
    by (auto simp: alertCards_def seriesGenerations_iff)
  have "seriesKeyAt al (asrID r) = Some (asrKey r)"
    using find_by_id [OF rowsOkD(1) [OF assms] r(1)] by (simp add: seriesKeyAt_def)
  with s r show "\<exists>g \<in> set (alGenerations al). grwStatus g = GenerationOpen \<and> seriesKeyAt al (grwSeriesID g) = Some sk" by auto
next
  assume "\<exists>g \<in> set (alGenerations al). grwStatus g = GenerationOpen \<and> seriesKeyAt al (grwSeriesID g) = Some sk"
  then obtain g where g: "g \<in> set (alGenerations al)" "grwStatus g = GenerationOpen" "seriesKeyAt al (grwSeriesID g) = Some sk" by blast
  then obtain s where s: "s \<in> set (alSeries al)" "asrID s = grwSeriesID g" "asrKey s = sk"
    by (auto simp: seriesKeyAt_def dest!: find_SomeD)
  obtain name names where "joinedNames render rules (skRuleID (asrKey s)) = name # names"
    using joinedNames_nonempty [of render rules "skRuleID (asrKey s)"] by (cases "joinedNames render rules (skRuleID (asrKey s))") auto
  moreover have "(s, g) \<in> set (seriesGenerations al)" using g s by (simp add: seriesGenerations_iff)
  ultimately have "\<exists>c \<in> set (alertCards render rules al). acID c = formatInt (asrID s)"
    using g(2) unfolding alertCards_def by fastforce
  with s show "\<exists>c \<in> set (alertCards render rules al). \<exists>r \<in> set (alSeries al). asrKey r = sk \<and> acID c = formatInt (asrID r)" by blast
qed

text \<open>C4. The dashboard tells which conditions hold: after a successful replay into an empty database, and as
  long as no 64-bit counter has wrapped, the dashboard has an alert card for the series of a rule
  and subject exactly when a condition of that subject, under some active revision of the rule,
  is active or waiting to clear in the runtime.\<close>

theorem dashboard_alerts_follow_conditions:
  assumes "Activate active None = Inr rt"
    and "replayEvents pl cfg active lines (freshReplay rules active) = (s, None)" and "unwrapped (rpRuntime s)"
    and "Dashboard render (dbRules (rpDB s)) (dbAlerts (rpDB s)) (dbIntents (rpDB s)) = Inr v"
  shows "(\<exists>c \<in> set (dvAlerts v). \<exists>r \<in> set (alSeries (dbAlerts (rpDB s))). asrKey r = sk \<and> acID c = formatInt (asrID r)) \<longleftrightarrow>
    (\<exists>a \<in> set (ruActive (rpRuntime s)). \<exists>k sn. seriesKeyOf k = sk \<and> State (avReducer a) k = Some sn \<and>
       (tsPhase sn = Active \<or> tsPhase sn = PendingClear))"
proof -
  have "databaseOk (rpDB s)" using replayEvents_track [OF assms(1,2)] by blast
  then have ok: "rowsOk (dbAlerts (rpDB s))" by (simp add: databaseOk_def alertsOk_def)
  have "dvAlerts v = alertCards render (dbRules (rpDB s)) (dbAlerts (rpDB s))"
    using assms(4) by (auto simp: Dashboard_def emptyDashboard_def split: option.splits)
  then show ?thesis using alertCards_iff [OF ok] stored_alerts_follow_conditions [OF assms(1-3)] by simp
qed

subsection \<open>The list of notifications\<close>

lemma concat_ones: "(\<And>x. x \<in> set xs \<Longrightarrow> f x = [g x]) \<Longrightarrow> concat (map f xs) = map g xs"
  by (induction xs) simp_all

lemma filter_concat_map: "filter p (concat (map f xs)) = concat (map (\<lambda>x. filter p (f x)) xs)"
  by (induction xs) simp_all

lemma concat_filter: "concat (map (\<lambda>x. if P x then [h x] else []) xs) = map h (filter P xs)"
  by (induction xs) simp_all

text \<open>An intent of a stored generation is joined with one series.\<close>

lemma intentSeries_one:
  assumes ok: "rowsOk al" and gen: "irwAlertGenerationID r \<in> grwID ` set (alGenerations al)"
  obtains s where "s \<in> set (alSeries al)" "intentSeries al r = [s]"
proof -
  from gen obtain g where g: "g \<in> set (alGenerations al)" "grwID g = irwAlertGenerationID r" by auto
  obtain s where s: "s \<in> set (alSeries al)" "asrID s = grwSeriesID g" by (rule seriesKeyAt_in [OF ok rowsOkD(6) [OF ok g(1)]])
  have one: "filter (\<lambda>x. grwSeriesID x = asrID t \<and> grwID x = irwAlertGenerationID r) (alGenerations al) =
      (if asrID t = asrID s then [g] else [])" for t
  proof -
    have "filter (\<lambda>x. grwID x = irwAlertGenerationID r) (alGenerations al) = [g]"
      by (rule filter_unique [where f = grwID]) (use rowsOkD(4) [OF ok] g in simp_all)
    then have "filter (\<lambda>x. grwSeriesID x = asrID t) (filter (\<lambda>x. grwID x = irwAlertGenerationID r) (alGenerations al)) =
        (if asrID t = asrID s then [g] else [])" using s(2) by simp
    then show ?thesis by (simp add: conj_commute)
  qed
  have "filter (\<lambda>(s, g). grwID g = irwAlertGenerationID r) (seriesGenerations al) =
      concat (map (\<lambda>t. map (\<lambda>g. (t, g)) (filter (\<lambda>x. grwSeriesID x = asrID t \<and> grwID x = irwAlertGenerationID r) (alGenerations al)))
        (alSeries al))"
    by (simp add: seriesGenerations_def filter_concat_map filter_map comp_def conj_commute)
  also have "\<dots> = concat (map (\<lambda>t. if asrID t = asrID s then [(t, g)] else []) (alSeries al))"
    unfolding one by (intro arg_cong [where f = concat] map_cong [OF refl]) simp
  also have "\<dots> = map (\<lambda>t. (t, g)) (filter (\<lambda>t. asrID t = asrID s) (alSeries al))"
    by (rule concat_filter)
  finally have "intentSeries al r = filter (\<lambda>t. asrID t = asrID s) (alSeries al)" by (simp add: intentSeries_def comp_def)
  moreover have "filter (\<lambda>t. asrID t = asrID s) (alSeries al) = [s]"
    by (rule filter_unique [where f = asrID]) (use rowsOkD(1) [OF ok] s in simp_all)
  ultimately show thesis using that s(1) by simp
qed

text \<open>C28. The notifications endpoint is complete: after any runs, whether they succeeded or failed, it lists
  every stored intent exactly once, in the order of the identifiers, each as delivered and with
  the kind and audience that are stored.\<close>

theorem notifications_endpoint_complete:
  "let db = fst (run runStep emptyDatabase ps)
   in map (\<lambda>x. (nrcID x, nrcKind x, nrcAudience x, nrcState x)) (listNotifications stamp (dbAlerts db) (dbIntents db)) =
     map (\<lambda>r. (irwID r, irwTransitionType r, irwAudience r, ''delivered'')) (sort_key irwID (itIntents (dbIntents db)))"
proof -
  let ?db = "fst (run runStep emptyDatabase ps)"
  have "databaseOk ?db" by (rule run_machine.run_inv [OF emptyDatabase_ok])
  then have ok: "alertsOk ?db" by (simp add: databaseOk_def)
  let ?al = "dbAlerts ?db" and ?it = "dbIntents ?db"
  have order: "sort_by (\<lambda>a b. irwID a < irwID b) rows = sort_key irwID rows" for rows
    by (rule key_order.sort_by_eq) (unfold_locales, simp)
  have rows: "(\<exists>s. intentSeries ?al r = [s]) \<and> irwState r = IntentDelivered" if "r \<in> set (itIntents ?it)" for r
  proof -
    have "rowsOk ?al" "allDelivered ?it" "irwAlertGenerationID r \<in> grwID ` set (alGenerations ?al)"
      using ok that by (auto simp: alertsOk_def)
    then show ?thesis using intentSeries_one [of ?al r] allDeliveredD(2) that by blast
  qed
  have "map (\<lambda>x. (nrcID x, nrcKind x, nrcAudience x, nrcState x)) (listNotifications stamp ?al ?it) =
      concat (map (\<lambda>r. map (\<lambda>s. (irwID r, irwTransitionType r, irwAudience r, intentText (irwState r))) (intentSeries ?al r))
        (sort_key irwID (itIntents ?it)))"
    by (simp add: listNotifications_def order map_concat comp_def)
  also have "\<dots> = map (\<lambda>r. (irwID r, irwTransitionType r, irwAudience r, ''delivered'')) (sort_key irwID (itIntents ?it))"
    by (rule concat_ones) (use rows in fastforce)
  finally show ?thesis by (simp add: Let_def)
qed

theorem dashboard_alerts_follow_conditions_witness:
  "\<exists>a \<in> set (ruActive (rpRuntime (fst demoReplay))). \<exists>k sn. seriesKeyOf k = SeriesKey ''r'' ''queue'' ''q1'' \<and>
     State (avReducer a) k = Some sn \<and> (tsPhase sn = Active \<or> tsPhase sn = PendingClear)"
proof -
  let ?s = "fst demoReplay"
  have "list_all (\<lambda>a. length (Transitions (avReducer a)) \<le> 1) (ruActive (rpRuntime ?s))" by code_simp
  then have small: "unwrapped (rpRuntime ?s)" by (auto simp: unwrapped_def list_all_iff le_Suc_eq)
  have shown: "case Dashboard (\<lambda>j. ''{}'') (dbRules (rpDB ?s)) (dbAlerts (rpDB ?s)) (dbIntents (rpDB ?s)) of Inl err \<Rightarrow> False
    | Inr v \<Rightarrow> list_ex (\<lambda>c. list_ex (\<lambda>r. asrKey r = SeriesKey ''r'' ''queue'' ''q1'' \<and> acID c = formatInt (asrID r))
        (alSeries (dbAlerts (rpDB ?s)))) (dvAlerts v)" by code_simp
  obtain v where v: "Dashboard (\<lambda>j. ''{}'') (dbRules (rpDB ?s)) (dbAlerts (rpDB ?s)) (dbIntents (rpDB ?s)) = Inr v"
    using shown by (cases "Dashboard (\<lambda>j. ''{}'') (dbRules (rpDB ?s)) (dbAlerts (rpDB ?s)) (dbIntents (rpDB ?s))") simp_all
  have "\<exists>c \<in> set (dvAlerts v). \<exists>r \<in> set (alSeries (dbAlerts (rpDB ?s))). asrKey r = SeriesKey ''r'' ''queue'' ''q1'' \<and>
      acID c = formatInt (asrID r)" using shown unfolding v by (simp add: list_ex_iff)
  then show ?thesis unfolding dashboard_alerts_follow_conditions [OF demo_activated demo_replayed small v] .
qed

end
