(* ===== verification/Flags.thy ===== *)
theory Flags
  imports Json "HOL-Library.AList"
begin

text \<open>
  Command lines: the numbers of \<^verbatim>\<open>strconv\<close> and the flag sets of the standard
  \<^verbatim>\<open>flag\<close> package, as \<^verbatim>\<open>cmd/watchtower/main.go\<close> uses them. A flag set is the
  list of its flags with their values; the kind of a flag is the kind of its value.
\<close>

subsection \<open>Numbers and booleans\<close>

definition fits64 :: "int \<Rightarrow> int option" where
  "fits64 i = (if - (2 ^ 63) \<le> i \<and> i < 2 ^ 63 then Some i else None)"

text \<open>A sign is split off; its value is 1 or -1.\<close>

definition splitSign :: "string \<Rightarrow> int \<times> string" where
  "splitSign s = (case s of [] \<Rightarrow> (1, [])
     | c # ds \<Rightarrow> if c = CHR ''-'' then (-1, ds) else if c = CHR ''+'' then (1, ds) else (1, s))"

definition decimalDigits :: "string \<Rightarrow> nat option" where
  "decimalDigits s = (if s \<noteq> [] \<and> list_all isDigit s then Some (decimal_value s) else None)"

definition Atoi :: "string \<Rightarrow> int option" where
  "Atoi s = (case splitSign s of (sgn', ds) \<Rightarrow> Option.bind (decimalDigits ds) (\<lambda>n. fits64 (sgn' * int n)))"

definition isUpperASCII :: "char \<Rightarrow> bool" where
  "isUpperASCII c \<longleftrightarrow> 65 \<le> (of_char c :: nat) \<and> (of_char c :: nat) \<le> 90"

definition lowerByte :: "char \<Rightarrow> char" where
  "lowerByte c = (if isUpperASCII c then char_of ((of_char c :: nat) + 32) else c)"

definition digitOf :: "char \<Rightarrow> nat option" where
  "digitOf c = (let l = (of_char (lowerByte c) :: nat) in
     if isDigit c then Some (of_char c - 48) else if 97 \<le> l \<and> l \<le> 122 then Some (l - 87) else None)"

text \<open>\<^verbatim>\<open>underscoreOK\<close>: underscores are between digits only, where a prefix counts as one.
  \<open>saw\<close> is the last kind of character, as in the source of \<^verbatim>\<open>strconv\<close>.\<close>

fun underscoresFrom :: "bool \<Rightarrow> char \<Rightarrow> string \<Rightarrow> bool" where
  "underscoresFrom hex saw [] \<longleftrightarrow> saw \<noteq> CHR ''_''"
| "underscoresFrom hex saw (c # s) \<longleftrightarrow>
     (if isDigit c \<or> hex \<and> lowerByte c \<in> {CHR ''a'', CHR ''b'', CHR ''c'', CHR ''d'', CHR ''e'', CHR ''f''}
      then underscoresFrom hex (CHR ''0'') s
      else if c = CHR ''_'' then saw = CHR ''0'' \<and> underscoresFrom hex (CHR ''_'') s
      else saw \<noteq> CHR ''_'' \<and> underscoresFrom hex (CHR ''!'') s)"

text \<open>The base that a prefix names, and the digits after it.\<close>

definition basePrefix :: "string \<Rightarrow> (nat \<times> string) option" where
  "basePrefix s = (case s of
       z # p # ds \<Rightarrow> if z \<noteq> CHR ''0'' then None
         else if lowerByte p = CHR ''b'' then Some (2, ds) else if lowerByte p = CHR ''o'' then Some (8, ds)
         else if lowerByte p = CHR ''x'' then Some (16, ds) else None
     | _ \<Rightarrow> None)"

definition underscoreOK :: "string \<Rightarrow> bool" where
  "underscoreOK s = (case basePrefix s of
       None \<Rightarrow> underscoresFrom False (CHR ''^'') s | Some (b, ds) \<Rightarrow> underscoresFrom (b = 16) (CHR ''0'') ds)"

fun baseDigits :: "nat \<Rightarrow> nat \<Rightarrow> string \<Rightarrow> nat option" where
  "baseDigits b n [] = Some n"
| "baseDigits b n (c # s) = (if c = CHR ''_'' then baseDigits b n s
     else case digitOf c of None \<Rightarrow> None | Some d \<Rightarrow> if d \<ge> b then None else baseDigits b (b * n + d) s)"

text \<open>\<^verbatim>\<open>strconv.ParseInt\<close> of base 0 and 64 bits: the base is that of the prefix, a leading
  zero is octal, and a prefix needs at least one character after it.\<close>

definition ParseInt :: "string \<Rightarrow> int option" where
  "ParseInt s = (case splitSign s of (sgn', u) \<Rightarrow>
     (case (case basePrefix u of
         Some (b, d # ds) \<Rightarrow> (b, d # ds)
       | _ \<Rightarrow> if u \<noteq> [] \<and> hd u = CHR ''0'' then (8, tl u) else (10, u)) of
       (b, ds) \<Rightarrow> if u = [] \<or> CHR ''_'' \<in> set ds \<and> \<not> underscoreOK u then None
         else Option.bind (baseDigits b 0 ds) (\<lambda>n. fits64 (sgn' * int n))))"

definition ParseBool :: "string \<Rightarrow> bool option" where
  "ParseBool s =
     (if s \<in> {''1'', ''t'', ''T'', ''TRUE'', ''true'', ''True''} then Some True
      else if s \<in> {''0'', ''f'', ''F'', ''FALSE'', ''false'', ''False''} then Some False else None)"

subsection \<open>Flag sets\<close>

datatype flag_value = StringValue string | IntValue int | BoolValue bool

type_synonym flag_set = "(string \<times> flag_value) list"

datatype flag_error = HelpRequested | BadFlagSyntax string | FlagNotDefined string | FlagNeedsArgument string
  | InvalidFlagValue string string

datatype flag_token = Positional | Terminator | Malformed | FlagToken string "string option"

text \<open>What an argument is: the flag names it has, with the value after an equals sign.\<close>

definition flagToken :: "string \<Rightarrow> flag_token" where
  "flagToken s =
     (if length s < 2 \<or> hd s \<noteq> CHR ''-'' then Positional
      else if s = ''--'' then Terminator
      else let name = (if s ! 1 = CHR ''-'' then drop 2 s else tl s)
        in if name = [] \<or> hd name = CHR ''-'' \<or> hd name = CHR ''='' then Malformed
           else FlagToken (takeWhile (\<lambda>c. c \<noteq> CHR ''='') name)
             (if CHR ''='' \<in> set name then Some (tl (dropWhile (\<lambda>c. c \<noteq> CHR ''='') name)) else None))"

text \<open>\<^verbatim>\<open>Value.Set\<close>.\<close>

fun setValue :: "flag_value \<Rightarrow> string \<Rightarrow> flag_value option" where
  "setValue (StringValue v) s = Some (StringValue s)"
| "setValue (IntValue v) s = map_option IntValue (ParseInt s)"
| "setValue (BoolValue v) s = map_option BoolValue (ParseBool s)"

fun isBoolFlag :: "flag_value \<Rightarrow> bool" where
  "isBoolFlag (BoolValue v) \<longleftrightarrow> True"
| "isBoolFlag _ \<longleftrightarrow> False"

definition setFlag :: "string \<Rightarrow> string \<Rightarrow> flag_value \<Rightarrow> flag_set \<Rightarrow> flag_error + flag_set" where
  "setFlag name s old fs = (case setValue old s of
       None \<Rightarrow> Inl (InvalidFlagValue s name) | Some v \<Rightarrow> Inr (AList.update name v fs))"

text \<open>\<^verbatim>\<open>FlagSet.Parse\<close>: flags up to the first argument that is none, a boolean flag without
  its own value is true, any other takes the next argument. The rest is returned.\<close>

fun Parse :: "flag_set \<Rightarrow> string list \<Rightarrow> flag_error + flag_set \<times> string list" where
  "Parse fs [] = Inr (fs, [])"
| "Parse fs (s # args) = (case flagToken s of
       Positional \<Rightarrow> Inr (fs, s # args)
     | Terminator \<Rightarrow> Inr (fs, args)
     | Malformed \<Rightarrow> Inl (BadFlagSyntax s)
     | FlagToken name given \<Rightarrow> (case map_of fs name of
         None \<Rightarrow> Inl (if name = ''help'' \<or> name = ''h'' then HelpRequested else FlagNotDefined name)
       | Some old \<Rightarrow> (case given of
           Some v \<Rightarrow> (case setFlag name v old fs of Inl err \<Rightarrow> Inl err | Inr fs' \<Rightarrow> Parse fs' args)
         | None \<Rightarrow>
             if isBoolFlag old
             then (case setFlag name ''true'' old fs of Inl err \<Rightarrow> Inl err | Inr fs' \<Rightarrow> Parse fs' args)
             else (case args of [] \<Rightarrow> Inl (FlagNeedsArgument name)
               | v # rest \<Rightarrow> (case setFlag name v old fs of Inl err \<Rightarrow> Inl err | Inr fs' \<Rightarrow> Parse fs' rest)))))"

text \<open>Reading a flag after parsing.\<close>

definition stringFlag :: "flag_set \<Rightarrow> string \<Rightarrow> string" where
  "stringFlag fs name = (case map_of fs name of Some (StringValue v) \<Rightarrow> v | _ \<Rightarrow> [])"

definition intFlag :: "flag_set \<Rightarrow> string \<Rightarrow> int" where
  "intFlag fs name = (case map_of fs name of Some (IntValue v) \<Rightarrow> v | _ \<Rightarrow> 0)"

definition boolFlag :: "flag_set \<Rightarrow> string \<Rightarrow> bool" where
  "boolFlag fs name = (case map_of fs name of Some (BoolValue v) \<Rightarrow> v | _ \<Rightarrow> False)"

end
