(* ===== verification/Commands.thy ===== *)
theory Commands
  imports Web RunProps Flags
begin

text \<open>
  The program as it is started: \<^verbatim>\<open>cmd/watchtower/main.go\<close>. The system is the database
  with its schema; a \<open>world\<close> is what one invocation meets: the environment, what connecting to
  a URL gives, the embedded files, the platform of the replay and of the server, whether an
  address can be listened on, and the requests that arrive, with the answer of the ping, until a
  signal ends the server.
\<close>

subsection \<open>Configuration\<close>

definition valueOr :: "(string \<Rightarrow> string) \<Rightarrow> string \<Rightarrow> string \<Rightarrow> string" where
  "valueOr env k f = orDefault (env k) f"

text \<open>The two common flags with their defaults.\<close>

definition commonFlags :: "(string \<Rightarrow> string) \<Rightarrow> flag_set" where
  "commonFlags env =
     [(''database-url'', StringValue (env ''WATCHTOWER_DATABASE_URL'')),
      (''db-max-conns'', IntValue (if env ''WATCHTOWER_DB_MAX_CONNS'' = [] then 8
         else case Atoi (env ''WATCHTOWER_DB_MAX_CONNS'') of None \<Rightarrow> -1 | Some n \<Rightarrow> n))]"

definition migrateFlags :: "(string \<Rightarrow> string) \<Rightarrow> flag_set" where
  "migrateFlags env = commonFlags env @ [(''reset'', BoolValue False), (''yes'', BoolValue False)]"

definition serveFlags :: "(string \<Rightarrow> string) \<Rightarrow> flag_set" where
  "serveFlags env = commonFlags env @ [(''listen-addr'', StringValue (valueOr env ''WATCHTOWER_HTTP_ADDR'' '':8080''))]"

definition replayFlags :: "(string \<Rightarrow> string) \<Rightarrow> flag_set" where
  "replayFlags env = commonFlags env @
     [(''input'', StringValue (valueOr env ''WATCHTOWER_REPLAY_FILE'' ''data/events.jsonl'')),
      (''rules'', StringValue (valueOr env ''WATCHTOWER_RULES_FILE'' ''data/demo-rules.json''))]"

text \<open>The stream is named after the input file.\<close>

definition replayConfig :: "flag_set \<Rightarrow> config" where
  "replayConfig fs = \<lparr>cfEventPath = stringFlag fs ''input'', cfRulesPath = stringFlag fs ''rules'',
     cfSource = ''demo-replay'', cfStreamID = stringFlag fs ''input''\<rparr>"

subsection \<open>Opening the database\<close>

datatype command_error = FlagsRejected flag_error | URLRequired | ConnsNotPositive | DatabaseUnavailable
  | ResetNotConfirmed | SchemaNotMigrated migrate_error | ReplayFailed run_error | ListenFailed

definition wrap32 :: "int \<Rightarrow> int" where
  "wrap32 x = (x + 2 ^ 31) mod 2 ^ 32 - 2 ^ 31"

text \<open>\<^verbatim>\<open>storage.Open\<close>: connecting gives the pool size that the URL configures, and only a
  positive argument replaces it.\<close>

definition openPool :: "(string \<Rightarrow> int option) \<Rightarrow> string \<Rightarrow> int \<Rightarrow> command_error + int" where
  "openPool connect url maxConns = (case connect url of None \<Rightarrow> Inl DatabaseUnavailable
     | Some configured \<Rightarrow> Inr (if maxConns > 0 then maxConns else configured))"

definition openDB :: "(string \<Rightarrow> int option) \<Rightarrow> string \<Rightarrow> int \<Rightarrow> command_error + int" where
  "openDB connect url conns =
     (if TrimSpace url = [] then Inl URLRequired
      else if conns < 1 then Inl ConnsNotPositive
      else openPool connect url (wrap32 conns))"

subsection \<open>The system\<close>

record 'd system =
  syData :: database
  sySchema :: "'d schema_db"

record 'd world =
  woEnv :: "string \<Rightarrow> string"
  woConnect :: "string \<Rightarrow> int option"
  woBlank :: 'd
  woExec :: "string \<Rightarrow> 'd \<Rightarrow> 'd option"
  woDigest :: "string \<Rightarrow> string"
  woFiles :: "(string \<times> string) list"
  woPlatform :: platform
  woServer :: server
  woStamp :: "gotime \<Rightarrow> string"
  woListens :: "string \<Rightarrow> bool"
  woRequests :: "(bool \<times> http_request) list"

datatype console = Stdout string | FlagUsage string flag_error | Listening string | Answered reply | Logged command_error

text \<open>Opening with the two common flags.\<close>

definition openFlags :: "'d world \<Rightarrow> flag_set \<Rightarrow> command_error + int" where
  "openFlags w fs = openDB (woConnect w) (stringFlag fs ''database-url'') (intFlag fs ''db-max-conns'')"

definition migrateSystem :: "'d world \<Rightarrow> 'd system \<Rightarrow> 'd system \<times> command_error option" where
  "migrateSystem w sys = (case ApplyMigrations (woExec w) (woDigest w) (woFiles w) (sySchema sys) of
       (schema, err) \<Rightarrow> (sys\<lparr>sySchema := schema\<rparr>, map_option SchemaNotMigrated err))"

text \<open>Dropping the schema drops the tables with all their rows.\<close>

definition resetSystem :: "'d world \<Rightarrow> 'd system \<Rightarrow> 'd system \<times> command_error option" where
  "resetSystem w sys = (case Reset (woBlank w) (woExec w) (woDigest w) (woFiles w) (sySchema sys) of
       (schema, err) \<Rightarrow> (\<lparr>syData = emptyDatabase, sySchema = schema\<rparr>, map_option SchemaNotMigrated err))"

subsection \<open>The commands\<close>

type_synonym 'd outcome = "'d system \<times> console list \<times> command_error option"

text \<open>Parsing the flags of a command: a request for help is no error. The arguments after the
  flags are ignored.\<close>

definition withFlags ::
  "string \<Rightarrow> flag_set \<Rightarrow> string list \<Rightarrow> (flag_set \<Rightarrow> 'd system \<Rightarrow> 'd outcome) \<Rightarrow> 'd system \<Rightarrow> 'd outcome"
where
  "withFlags name flags args body sys = (case Parse flags args of
       Inl err \<Rightarrow> (sys, [FlagUsage name err], if err = HelpRequested then None else Some (FlagsRejected err))
     | Inr (fs, rest) \<Rightarrow> body fs sys)"

definition migrateBody :: "'d world \<Rightarrow> flag_set \<Rightarrow> 'd system \<Rightarrow> 'd outcome" where
  "migrateBody w fs sys = (case openFlags w fs of
       Inl err \<Rightarrow> (sys, [], Some err)
     | Inr pool \<Rightarrow>
         if boolFlag fs ''reset'' \<and> \<not> boolFlag fs ''yes'' then (sys, [], Some ResetNotConfirmed)
         else (case (if boolFlag fs ''reset'' then resetSystem w sys else migrateSystem w sys) of
             (sys', Some err) \<Rightarrow> (sys', [], Some err)
           | (sys', None) \<Rightarrow> (sys', [Stdout ''database schema is up to date''], None)))"

definition migrate :: "'d world \<Rightarrow> string list \<Rightarrow> 'd system \<Rightarrow> 'd outcome" where
  "migrate w args = withFlags ''migrate'' (migrateFlags (woEnv w)) args (migrateBody w)"

text \<open>The requests are answered one after the other; a posted rule changes the rule tables.\<close>

fun answerAll :: "server \<Rightarrow> (gotime \<Rightarrow> string) \<Rightarrow> (bool \<times> http_request) list \<Rightarrow> database \<Rightarrow> database \<times> reply list" where
  "answerAll sv stamp [] db = (db, [])"
| "answerAll sv stamp ((ping, r) # rs) db =
     (let (rules, rep) = serveRoutes sv ping stamp (dbAlerts db) (dbIntents db) (dbRules db) r;
          (db', reps) = answerAll sv stamp rs (db\<lparr>dbRules := rules\<rparr>)
      in (db', rep # reps))"

definition serveBody :: "'d world \<Rightarrow> flag_set \<Rightarrow> 'd system \<Rightarrow> 'd outcome" where
  "serveBody w fs sys = (case openFlags w fs of
       Inl err \<Rightarrow> (sys, [], Some err)
     | Inr pool \<Rightarrow> (case migrateSystem w sys of
         (sys1, Some err) \<Rightarrow> (sys1, [], Some err)
       | (sys1, None) \<Rightarrow>
           (let addr = stringFlag fs ''listen-addr''
            in if \<not> woListens w addr then (sys1, [Listening addr], Some ListenFailed)
               else (let (db, replies) = answerAll (woServer w) (woStamp w) (woRequests w) (syData sys1)
                     in (sys1\<lparr>syData := db\<rparr>, Listening addr # map Answered replies, None)))))"

definition serve :: "'d world \<Rightarrow> string list \<Rightarrow> 'd system \<Rightarrow> 'd outcome" where
  "serve w args = withFlags ''serve'' (serveFlags (woEnv w)) args (serveBody w)"

definition replayReport :: "summary \<Rightarrow> string" where
  "replayReport s = ''replay complete: '' @ formatInt (smOccurrences s) @ '' events, '' @ formatInt (smAlerts s) @
     '' alert transitions, '' @ formatInt (smNotifications s) @ '' visible notifications''"

definition replayBody :: "'d world \<Rightarrow> flag_set \<Rightarrow> 'd system \<Rightarrow> 'd outcome" where
  "replayBody w fs sys = (case openFlags w fs of
       Inl err \<Rightarrow> (sys, [], Some err)
     | Inr pool \<Rightarrow> (case migrateSystem w sys of
         (sys1, Some err) \<Rightarrow> (sys1, [], Some err)
       | (sys1, None) \<Rightarrow> (case Run (woPlatform w) (replayConfig fs) (syData sys1) of
           (db, sm, Some err) \<Rightarrow> (sys1\<lparr>syData := db\<rparr>, [], Some (ReplayFailed err))
         | (db, sm, None) \<Rightarrow> (sys1\<lparr>syData := db\<rparr>, [Stdout (replayReport sm)], None))))"

definition replay :: "'d world \<Rightarrow> string list \<Rightarrow> 'd system \<Rightarrow> 'd outcome" where
  "replay w args = withFlags ''replay'' (replayFlags (woEnv w)) args (replayBody w)"

subsection \<open>The program\<close>

definition usage :: string where
  "usage = ''watchtower [migrate|serve|replay]'' @ [CHR 0x0A, CHR 0x0A] @ ''Commands:'' @ [CHR 0x0A] @
     ''  migrate  apply (or explicitly reset) the PostgreSQL schema'' @ [CHR 0x0A] @
     ''  serve    run the team-lead dashboard and JSON read endpoints'' @ [CHR 0x0A] @
     ''  replay   replay JSONL events into alerts and visible stub notifications''"

text \<open>The exit status, after logging the error of the command.\<close>

definition exitWith :: "'d outcome \<Rightarrow> 'd system \<times> console list \<times> nat" where
  "exitWith out = (case out of (sys, printed, None) \<Rightarrow> (sys, printed, 0)
     | (sys, printed, Some err) \<Rightarrow> (sys, printed @ [Logged err], 1))"

definition main :: "'d world \<Rightarrow> string list \<Rightarrow> 'd system \<Rightarrow> 'd system \<times> console list \<times> nat" where
  "main w args sys = (case args of
       program # command # rest \<Rightarrow>
         if command = ''migrate'' then exitWith (migrate w rest sys)
         else if command = ''serve'' then exitWith (serve w rest sys)
         else if command = ''replay'' then exitWith (replay w rest sys)
         else if command \<in> {''help'', ''--help'', ''-h''} then (sys, [Stdout usage], 0)
         else (sys, [Stdout usage], 2)
     | _ \<Rightarrow> (sys, [Stdout usage], 2))"

end
