(* ===== verification/MigrateProps.thy ===== *)
theory MigrateProps
  imports Migrate
begin

text \<open>
  Migrations as a state machine: the schema is always what the recorded migrations made of the
  blank one, each executed once, and applying the same files again changes nothing.
\<close>

subsection \<open>Histories\<close>

text \<open>Executing SQL texts one after the other.\<close>

fun execAll :: "(string \<Rightarrow> 'd \<Rightarrow> 'd option) \<Rightarrow> string list \<Rightarrow> 'd \<Rightarrow> 'd option" where
  "execAll exec [] d = Some d"
| "execAll exec (q # qs) d = Option.bind (exec q d) (execAll exec qs)"

lemma execAll_append: "execAll exec (ps @ qs) d = Option.bind (execAll exec ps d) (execAll exec qs)"
  by (induction ps arbitrary: d) (simp_all split: Option.bind_split)

definition recordedRows :: "'d schema_db \<Rightarrow> schema_row list" where
  "recordedRows db = (case sdMigrations db of None \<Rightarrow> [] | Some rows \<Rightarrow> rows)"

definition historyOf ::
  "(string \<Rightarrow> 'd \<Rightarrow> 'd option) \<Rightarrow> 'd \<Rightarrow> migration set \<Rightarrow> migration list \<Rightarrow> 'd schema_db \<Rightarrow> bool"
where
  "historyOf exec blank offered done db \<longleftrightarrow> recordedRows db = map recordOf done \<and> distinct (map mgVersion done) \<and>
     set done \<subseteq> offered \<and> execAll exec (map mgSQL done) blank = Some (sdSchema db)"

text \<open>Calls of \<open>ApplyMigrations\<close> by possibly different versions of the program.\<close>

fun applyRuns ::
  "(string \<Rightarrow> 'd \<Rightarrow> 'd option) \<Rightarrow> (string \<Rightarrow> string) \<Rightarrow> (string \<times> string) list list \<Rightarrow> 'd schema_db \<Rightarrow> 'd schema_db"
where
  "applyRuns exec sha256hex [] db = db"
| "applyRuns exec sha256hex (files # runs) db =
     applyRuns exec sha256hex runs (fst (ApplyMigrations exec sha256hex files db))"

definition offeredBy :: "(string \<Rightarrow> string) \<Rightarrow> (string \<times> string) list list \<Rightarrow> migration set" where
  "offeredBy sha256hex runs = (\<Union>files \<in> set runs. case migrations sha256hex files of Inl err \<Rightarrow> {} | Inr ms \<Rightarrow> set ms)"

lemma historyOf_mono: "historyOf exec blank A done db \<Longrightarrow> A \<subseteq> B \<Longrightarrow> historyOf exec blank B done db"
  by (auto simp: historyOf_def)

subsection \<open>One migration\<close>

lemma applyMigration_cases:
  obtains (failed) err where "applyMigration exec m db = Inl err"
  | (kept) r where "applyMigration exec m db = Inr (db, ())" "find (\<lambda>r. smwVersion r = mgVersion m) (recordedRows db) = Some r"
      "smwChecksum r = [] \<or> smwChecksum r = mgChecksum m"
  | (applied) schema where "find (\<lambda>r. smwVersion r = mgVersion m) (recordedRows db) = None" "exec (mgSQL m) (sdSchema db) = Some schema"
      "applyMigration exec m db = Inr (db\<lparr>sdMigrations := Some (recordedRows db @ [recordOf m]), sdSchema := schema\<rparr>, ())"
proof (cases "find (\<lambda>r. smwVersion r = mgVersion m) (recordedRows db)")
  case None
  then show ?thesis
  proof (cases "exec (mgSQL m) (sdSchema db)")
    case None
    with \<open>find _ _ = None\<close> show ?thesis by (intro failed) (simp add: applyMigration_def recordedRows_def Let_def)
  next
    case (Some schema)
    with \<open>find _ _ = None\<close> show ?thesis by (intro applied) (simp_all add: applyMigration_def recordedRows_def Let_def)
  qed
next
  case (Some r)
  show ?thesis
  proof (cases "smwChecksum r = [] \<or> smwChecksum r = mgChecksum m")
    case True
    with Some show ?thesis by (intro kept [OF _ Some]) (auto simp: applyMigration_def recordedRows_def Let_def)
  next
    case False
    with Some show ?thesis by (intro failed) (auto simp: applyMigration_def recordedRows_def Let_def)
  qed
qed

lemma applyMigration_history:
  assumes h: "historyOf exec blank offered done db" and m: "m \<in> offered" and a: "applyMigration exec m db = Inr (db', u)"
  shows "\<exists>done'. historyOf exec blank offered done' db'"
proof (cases rule: applyMigration_cases [of exec m db])
  case (failed err)
  with a show ?thesis by simp
next
  case (kept r)
  with a h show ?thesis by auto
next
  case (applied schema)
  then have db': "db' = db\<lparr>sdMigrations := Some (recordedRows db @ [recordOf m]), sdSchema := schema\<rparr>" using a by simp
  have "mgVersion m \<notin> mgVersion ` set done"
    using applied(1) h by (auto simp: historyOf_def recordOf_def find_None_iff)
  moreover have "execAll exec (map mgSQL (done @ [m])) blank = Some schema"
    using h applied(2) by (simp add: historyOf_def execAll_append)
  ultimately have "historyOf exec blank offered (done @ [m]) db'"
    using h m unfolding historyOf_def db' by (simp add: recordedRows_def)
  then show ?thesis ..
qed

lemma migrateLoop_history:
  assumes "historyOf exec blank offered done db" and "set ms \<subseteq> offered"
  shows "\<exists>done'. historyOf exec blank offered done' (fst (migrateLoop exec ms db))"
  using assms
proof (induction ms arbitrary: db "done")
  case (Cons m ms)
  show ?case
  proof (cases "applyMigration exec m db")
    case (Inl err)
    with Cons.prems(1) show ?thesis by (auto simp: WithTx_def)
  next
    case (Inr r)
    then have a: "applyMigration exec m db = Inr (fst r, ())" by (cases r) simp
    from applyMigration_history [OF Cons.prems(1) _ this] Cons.prems(2) obtain done' where
      "historyOf exec blank offered done' (fst r)" by auto
    from Cons.IH [OF this] Cons.prems(2) a show ?thesis by (simp add: WithTx_def)
  qed
qed auto

lemma Ensure_recorded [simp]: "recordedRows (EnsureMigrationTable db) = recordedRows db"
  "sdSchema (EnsureMigrationTable db) = sdSchema db"
  by (simp_all add: EnsureMigrationTable_def recordedRows_def)

lemma historyOf_Ensure [simp]: "historyOf exec blank offered done (EnsureMigrationTable db) = historyOf exec blank offered done db"
  by (simp add: historyOf_def)

lemma Apply_history:
  assumes "historyOf exec blank offered done db" and "offeredBy sha256hex [files] \<subseteq> offered"
  shows "\<exists>done'. historyOf exec blank offered done' (fst (ApplyMigrations exec sha256hex files db))"
proof (cases "migrations sha256hex files")
  case (Inl err)
  with assms(1) show ?thesis by (auto simp: ApplyMigrations_def Let_def)
next
  case (Inr ms)
  with assms(2) have "set ms \<subseteq> offered" by (simp add: offeredBy_def)
  with migrateLoop_history [of exec blank offered "done" "EnsureMigrationTable db"] assms(1) Inr show ?thesis
    by (simp add: ApplyMigrations_def Let_def)
qed

lemma applyRuns_history:
  assumes "historyOf exec blank offered done db" and "offeredBy sha256hex runs \<subseteq> offered"
  shows "\<exists>done'. historyOf exec blank offered done' (applyRuns exec sha256hex runs db)"
  using assms
proof (induction runs arbitrary: db "done")
  case (Cons files runs)
  from Cons.prems(2) have sub: "offeredBy sha256hex [files] \<subseteq> offered" "offeredBy sha256hex runs \<subseteq> offered"
    by (simp_all add: offeredBy_def)
  from Apply_history [OF Cons.prems(1) sub(1)] Cons.IH [OF _ sub(2)] show ?case by auto
qed auto

definition blankDB :: "'d \<Rightarrow> 'd schema_db" where
  "blankDB blank = \<lparr>sdMigrations = None, sdSchema = blank\<rparr>"

text \<open>C33. The schema is its recorded history: however often and with whatever sets of files migrations
  are applied, and whichever of them fail, the schema is what the recorded migrations, each a
  different version and executed once in the order recorded, make of the blank one.\<close>

theorem schema_is_recorded_history:
  "\<exists>hist. let db = applyRuns exec sha256hex runs (blankDB blank) in
     recordedRows db = map recordOf hist \<and> distinct (map mgVersion hist) \<and>
     set hist \<subseteq> offeredBy sha256hex runs \<and> execAll exec (map mgSQL hist) blank = Some (sdSchema db)"
proof -
  have "historyOf exec blank (offeredBy sha256hex runs) [] (blankDB blank)"
    by (simp add: historyOf_def recordedRows_def blankDB_def)
  from applyRuns_history [OF this subset_refl] show ?thesis unfolding historyOf_def Let_def .
qed

subsection \<open>Applying again\<close>

definition settledIn :: "migration \<Rightarrow> 'd schema_db \<Rightarrow> bool" where
  "settledIn m db \<longleftrightarrow> (case find (\<lambda>r. smwVersion r = mgVersion m) (recordedRows db) of None \<Rightarrow> False
     | Some r \<Rightarrow> smwChecksum r = [] \<or> smwChecksum r = mgChecksum m)"

lemma settledIn_noop: "settledIn m db \<Longrightarrow> applyMigration exec m db = Inr (db, ())"
  by (auto simp: settledIn_def applyMigration_def recordedRows_def Let_def split: option.splits)

lemma settled_by: "applyMigration exec m db = Inr (db', u) \<Longrightarrow> settledIn m db'"
proof (cases rule: applyMigration_cases [of exec m db])
  case (applied schema)
  moreover have "find P (xs @ [x]) = Some x" if "find P xs = None" "P x" for P :: "schema_row \<Rightarrow> bool" and xs x
    using that by (induction xs) (auto split: if_splits)
  moreover assume "applyMigration exec m db = Inr (db', u)"
  ultimately show ?thesis by (auto simp: settledIn_def recordedRows_def recordOf_def)
qed (auto simp: settledIn_def)

lemma settled_stays:
  assumes "settledIn q db" and a: "applyMigration exec m db = Inr (db', u)"
  shows "settledIn q db'"
proof (cases rule: applyMigration_cases [of exec m db])
  case (applied schema)
  have "find P (xs @ ys) = Some x" if "find P xs = Some x" for P :: "schema_row \<Rightarrow> bool" and xs ys x
    using that by (induction xs) (auto split: if_splits)
  with assms applied show ?thesis by (auto simp: settledIn_def recordedRows_def split: option.splits)
qed (use assms in auto)

lemma migrateLoop_keeps: "migrateLoop exec ms db = (db', None) \<Longrightarrow> settledIn q db \<Longrightarrow> settledIn q db'"
proof (induction ms arbitrary: db)
  case (Cons m ms)
  then obtain db1 u where a: "applyMigration exec m db = Inr (db1, u)" "migrateLoop exec ms db1 = (db', None)"
    by (auto simp: WithTx_def split: sum.splits)
  from Cons.IH [OF a(2) settled_stays [OF Cons.prems(2) a(1)]] show ?case .
qed simp

lemma migrateLoop_settles: "migrateLoop exec ms db = (db', None) \<Longrightarrow> list_all (\<lambda>m. settledIn m db') ms"
proof (induction ms arbitrary: db)
  case (Cons m ms)
  then obtain db1 u where a: "applyMigration exec m db = Inr (db1, u)" "migrateLoop exec ms db1 = (db', None)"
    by (auto simp: WithTx_def split: sum.splits)
  from migrateLoop_keeps [OF a(2) settled_by [OF a(1)]] Cons.IH [OF a(2)] show ?case by simp
qed simp

lemma migrateLoop_noop: "list_all (\<lambda>m. settledIn m db) ms \<Longrightarrow> migrateLoop exec ms db = (db, None)"
  by (induction ms) (simp_all add: settledIn_noop WithTx_def)

lemma migrateLoop_table: "sdMigrations db \<noteq> None \<Longrightarrow> sdMigrations (fst (migrateLoop exec ms db)) \<noteq> None"
proof (induction ms arbitrary: db)
  case (Cons m ms)
  show ?case
  proof (cases "applyMigration exec m db")
    case (Inl err)
    with Cons.prems show ?thesis by (simp add: WithTx_def)
  next
    case (Inr r)
    have "sdMigrations (fst r) \<noteq> None"
      using Inr Cons.prems by (cases rule: applyMigration_cases [of exec m db]) auto
    with Cons.IH [of "fst r"] Inr show ?thesis by (simp add: WithTx_def case_prod_beta)
  qed
qed simp

text \<open>Applying migrations is idempotent: once all files are applied without an error, applying
  them again runs nothing and changes nothing, and every one of them is then recorded under
  its version, with its checksum or as a legacy row.\<close>

theorem migrations_idempotent:
  "case ApplyMigrations exec sha256hex files db of
     (db', Some err) \<Rightarrow> True
   | (db', None) \<Rightarrow> ApplyMigrations exec sha256hex files db' = (db', None) \<and>
       (case migrations sha256hex files of Inl err \<Rightarrow> False | Inr ms \<Rightarrow> list_all (\<lambda>m. settledIn m db') ms)"
proof -
  have "ApplyMigrations exec sha256hex files db' = (db', None) \<and>
      (case migrations sha256hex files of Inl err \<Rightarrow> False | Inr ms \<Rightarrow> list_all (\<lambda>m. settledIn m db') ms)"
    if a: "ApplyMigrations exec sha256hex files db = (db', None)" for db'
  proof -
    obtain ms where ms: "migrations sha256hex files = Inr ms" "migrateLoop exec ms (EnsureMigrationTable db) = (db', None)"
      using a by (auto simp: ApplyMigrations_def Let_def split: sum.splits)
    have "sdMigrations (EnsureMigrationTable db) \<noteq> None" by (simp add: EnsureMigrationTable_def)
    from migrateLoop_table [OF this, of exec ms] ms(2) have "EnsureMigrationTable db' = db'"
      by (simp add: EnsureMigrationTable_def)
    with migrateLoop_settles [OF ms(2)] migrateLoop_noop [of db' ms exec] ms(1) show ?thesis
      by (simp add: ApplyMigrations_def)
  qed
  then show ?thesis by (auto split: option.split)
qed

subsection \<open>File names\<close>

lemma baseName_simple:
  assumes "CHR ''/'' \<notin> set base"
  shows "baseName (d @ CHR ''/'' # base) = base"
proof -
  have "x \<noteq> CHR ''/''" if "x \<in> set (rev base)" for x using that assms by auto
  from takeWhile_append2 [of "rev base" "\<lambda>c. c \<noteq> CHR ''/''", OF this] show ?thesis by (simp add: baseName_def)
qed

lemma value_leading_zeros: "decimal_value (replicate k CHR ''0'' @ ds) = decimal_value ds"
proof -
  have "foldl (\<lambda>a c. 10 * a + digit_value c) 0 (replicate k CHR ''0'') = 0"
    by (induction k) (simp_all add: digit_value_def)
  then show ?thesis by (simp add: decimal_value_def)
qed

definition paddedVersion :: "nat \<Rightarrow> string" where
  "paddedVersion n = replicate (3 - length (decimal n)) CHR ''0'' @ decimal n"

lemma paddedVersion_digits: "list_all isDigit (paddedVersion n)" "paddedVersion n \<noteq> []"
  using isDigit_decimal [of n] by (auto simp: paddedVersion_def list_all_iff isDigit_def)

lemma versionPrefix_padded: "versionPrefix (int n) = paddedVersion n @ ''_''"
  by (simp add: versionPrefix_def paddedVersion_def Let_def)

lemma scanVersion_padded:
  assumes "int n < 2 ^ 63"
  shows "scanVersion (paddedVersion n @ CHR ''_'' # rest) = Some (int n)"
proof -
  let ?p = "paddedVersion n"
  obtain c cs where p: "?p = c # cs" "isDigit c" using paddedVersion_digits [of n] by (cases ?p) auto
  then have c: "c \<noteq> CHR '' ''" "c \<noteq> CHR ''-''" "c \<noteq> CHR ''+''" by (auto simp: isDigit_def)
  have tw: "takeWhile isDigit (?p @ CHR ''_'' # rest) = ?p" "dropWhile isDigit (?p @ CHR ''_'' # rest) = CHR ''_'' # rest"
    using paddedVersion_digits(1) [of n] by (simp_all add: list_all_iff takeWhile_append2 dropWhile_append2 isDigit_def)
  have v: "decimal_value ?p = n" by (simp add: paddedVersion_def value_leading_zeros)
  have h: "dropWhile (\<lambda>c. c = CHR '' '') (?p @ CHR ''_'' # rest) = ?p @ CHR ''_'' # rest" using c(1) by (simp add: p(1))
  have hd: "hd (?p @ CHR ''_'' # rest) = c" by (simp add: p(1))
  show ?thesis
    using assms c paddedVersion_digits(2) [of n] unfolding scanVersion_def h hd Let_def
    by (simp add: tw v fitsBigint_def)
qed

text \<open>A migration file says its version and name: the file of a version and a name, as the naming
  scheme writes it, is read back as exactly that version and name, with its content as the SQL
  text and its digest as the checksum.\<close>

theorem migration_file_roundtrip:
  assumes "int n < 2 ^ 63" and "CHR ''/'' \<notin> set name"
  shows "migrations sha256hex [(''migrations/'' @ versionPrefix (int n) @ name @ ''.sql'', content)] =
    Inr [\<lparr>mgVersion = int n, mgName = name, mgSQL = content, mgChecksum = sha256hex content\<rparr>]"
proof -
  have "CHR ''/'' \<notin> set (paddedVersion n)"
    using paddedVersion_digits(1) [of n] by (auto simp: list_all_iff isDigit_def)
  with assms(2) have "CHR ''/'' \<notin> set (paddedVersion n @ ''_'' @ name @ ''.sql'')" by simp
  from baseName_simple [OF this, of "''migrations''"]
  have b: "baseName (''migrations/'' @ versionPrefix (int n) @ name @ ''.sql'') = paddedVersion n @ CHR ''_'' # name @ ''.sql''"
    by (simp add: versionPrefix_padded)
  have "TrimPrefix (paddedVersion n @ CHR ''_'' # name @ ''.sql'') (versionPrefix (int n)) = name @ ''.sql''"
    by (simp add: TrimPrefix_def versionPrefix_padded)
  moreover have "TrimSuffix (name @ ''.sql'') ''.sql'' = name" by (simp add: TrimSuffix_def)
  ultimately show ?thesis
    unfolding migrations_def sort_by_def using scanVersion_padded [OF assms(1), of "name @ ''.sql''"] by (simp add: b [simplified])
qed

theorem migration_file_roundtrip_witness:
  "migrations id [(''migrations/002_occurrence_repair.sql'', ''ALTER'')] =
    Inr [\<lparr>mgVersion = 2, mgName = ''occurrence_repair'', mgSQL = ''ALTER'', mgChecksum = ''ALTER''\<rparr>]"
proof -
  have "versionPrefix (int 2) = ''002_''" by code_simp
  with migration_file_roundtrip [of 2 "''occurrence_repair''" id "''ALTER''"] show ?thesis by simp
qed

end
