(* ===== verification/CommandsProps.thy ===== *)
theory CommandsProps
  imports Commands WebProps MigrateProps
begin

text \<open>
  The program as a whole, over any sequence of invocations: nothing is left pending, nothing
  stored is lost without a confirmed reset, and a command that cannot start changes nothing.
\<close>

subsection \<open>Flags\<close>

text \<open>The argument sets the flag.\<close>

definition namesFlag :: "string \<Rightarrow> string \<Rightarrow> bool" where
  "namesFlag name a = (case flagToken a of FlagToken n given \<Rightarrow> n = name | _ \<Rightarrow> False)"

lemma setFlag_Inr: "setFlag name s old fs = Inr fs' \<Longrightarrow> name \<noteq> k \<Longrightarrow> map_of fs' k = map_of fs k"
  by (auto simp: setFlag_def update_conv' split: option.splits)

lemma Parse_keeps: "Parse fs args = Inr (fs', rest) \<Longrightarrow> \<not> list_ex (namesFlag k) args \<Longrightarrow> map_of fs' k = map_of fs k"
proof (induction fs args rule: Parse.induct)
  case (2 fs s args)
  show ?case
  proof (cases "flagToken s")
    case (FlagToken name given)
    then have k: "name \<noteq> k" using "2.prems"(2) by (auto simp: namesFlag_def)
    with "2.prems"(1) FlagToken obtain old where old: "map_of fs name = Some old" by (cases "map_of fs name") auto
    show ?thesis
    proof (cases given)
      case (Some v)
      with "2.prems"(1) FlagToken old obtain fs1 where f: "setFlag name v old fs = Inr fs1" "Parse fs1 args = Inr (fs', rest)"
        by (auto split: sum.splits)
      from "2.IH"(3) [OF FlagToken old Some f] "2.prems"(2) setFlag_Inr [OF f(1) k] show ?thesis by simp
    next
      case None
      show ?thesis
      proof (cases "isBoolFlag old")
        case True
        with "2.prems"(1) FlagToken old None obtain fs1 where f: "setFlag name ''true'' old fs = Inr fs1" "Parse fs1 args = Inr (fs', rest)"
          by (auto split: sum.splits)
        from "2.IH"(1) [OF FlagToken old None True f] "2.prems"(2) setFlag_Inr [OF f(1) k] show ?thesis by simp
      next
        case False
        with "2.prems"(1) FlagToken old None obtain v more fs1 where f: "args = v # more" "setFlag name v old fs = Inr fs1"
          "Parse fs1 more = Inr (fs', rest)" by (auto split: sum.splits list.splits)
        from "2.IH"(2) [OF FlagToken old None False f] "2.prems"(2) setFlag_Inr [OF f(2) k] f(1) show ?thesis by simp
      qed
    qed
  qed (use "2.prems" in auto)
qed simp

lemma Parse_boolFlag:
  assumes "Parse fs args = Inr (fs', rest)" and "boolFlag fs' k" and "\<not> boolFlag fs k"
  shows "list_ex (namesFlag k) args"
proof (rule ccontr)
  assume "\<not> list_ex (namesFlag k) args"
  from Parse_keeps [OF assms(1) this] assms(2,3) show False by (simp add: boolFlag_def)
qed

lemma migrateFlags_off [simp]: "\<not> boolFlag (migrateFlags env) k"
  by (simp add: boolFlag_def migrateFlags_def commonFlags_def)

subsection \<open>What an invocation keeps\<close>

lemma databaseOk_done:
  assumes "databaseOk db"
  shows "list_all (\<lambda>r. map_option prwStatus (otProcessing (dbOccurrences db) (orwID r)) = Some ProcessingDone)
       (otOccurrences (dbOccurrences db)) \<and>
     list_all (\<lambda>r. irwState r = IntentDelivered) (itIntents (dbIntents db)) \<and>
     dom (itDeliveries (dbIntents db)) = irwID ` set (itIntents (dbIntents db))"
proof -
  have ok: "allDelivered (dbIntents db)" "occurrencesOk None (dbOccurrences db)"
    using assms by (simp_all add: databaseOk_def alertsOk_def)
  have "map_option prwStatus (otProcessing (dbOccurrences db) (orwID r)) = Some ProcessingDone"
    if "r \<in> set (otOccurrences (dbOccurrences db))" for r
  proof -
    have "orwID r \<in> dom (otProcessing (dbOccurrences db))" using ok(2) that by (simp add: occurrencesOk_def)
    then obtain p where "otProcessing (dbOccurrences db) (orwID r) = Some p" by blast
    moreover from this have "prwStatus p = ProcessingDone" using ok(2) unfolding occurrencesOk_def by blast
    ultimately show ?thesis by simp
  qed
  with allDeliveredD [OF ok(1)] show ?thesis by (simp add: list_all_iff)
qed


definition systemOk :: "'d system \<Rightarrow> bool" where
  "systemOk sys \<longleftrightarrow> databaseOk (syData sys) \<and> rulesOk (dbRules (syData sys))"

definition kept :: "'d system \<Rightarrow> 'd system \<Rightarrow> bool" where
  "kept sys sys' \<longleftrightarrow> keepsRevisions (dbRules (syData sys)) (dbRules (syData sys')) \<and>
     grown (dbOccurrences (syData sys)) (dbOccurrences (syData sys')) \<and>
     (\<exists>more. recordedRows (sySchema sys') = recordedRows (sySchema sys) @ more)"

lemma kept_refl [simp]: "kept sys sys"
  by (simp add: kept_def)

lemma kept_trans: "kept a b \<Longrightarrow> kept b c \<Longrightarrow> kept a c"
  unfolding kept_def by (metis append_assoc grown_trans keepsRevisions_trans)

lemma applyMigration_appends: "applyMigration exec m db = Inr (db', u) \<Longrightarrow> \<exists>more. recordedRows db' = recordedRows db @ more"
  by (cases exec m db rule: applyMigration_cases) (auto simp: recordedRows_def)

lemma migrateLoop_appends: "\<exists>more. recordedRows (fst (migrateLoop exec ms db)) = recordedRows db @ more"
proof (induction ms arbitrary: db)
  case (Cons m ms)
  show ?case
  proof (cases "applyMigration exec m db")
    case (Inr r)
    obtain db1 u where r: "r = (db1, u)" by (cases r)
    from applyMigration_appends [OF Inr [unfolded r]] Cons.IH [of db1] Inr r show ?thesis by (auto simp: WithTx_def)
  qed (simp add: WithTx_def)
qed simp

lemma migrateSystem_kept: "kept sys (fst (migrateSystem w sys))" "syData (fst (migrateSystem w sys)) = syData sys"
proof -
  have "\<exists>more. recordedRows (fst (ApplyMigrations exec d files db)) = recordedRows db @ more" for exec d files db
    using migrateLoop_appends [of exec _ "EnsureMigrationTable db"]
    by (cases "migrations d files") (auto simp: ApplyMigrations_def Let_def)
  then show "kept sys (fst (migrateSystem w sys))" by (simp add: kept_def migrateSystem_def case_prod_beta)
qed (simp add: migrateSystem_def case_prod_beta)

lemma emptyDatabase_rules: "rulesOk (dbRules emptyDatabase)"
  by (simp add: emptyDatabase_def emptyRules_ok)

lemma saveDemoRule_rules: "fst (saveDemoRule sv r db) = db \<or> (\<exists>i d. fst (saveDemoRule sv r db) = fst (SaveRule (svLower sv) (svJsonb sv) (svClock sv) i d db))"
  by (auto simp: saveDemoRule_def Let_def split: option.split sum.split list.split prod.split) (metis fst_conv)+

lemma serveRoutes_rules: "rulesOk db \<Longrightarrow> rulesOk (fst (serveRoutes sv ping stamp al it db r)) \<and> keepsRevisions db (fst (serveRoutes sv ping stamp al it db r))"
  using saveDemoRule_rules [of sv r db] SaveRule_ok [of db "svLower sv" "svJsonb sv" "svClock sv"]
  by (auto simp: serveRoutes_def handleRoot_def)

lemma answerAll_rules:
  "rulesOk (dbRules db) \<Longrightarrow> \<exists>rules. fst (answerAll sv stamp rs db) = db\<lparr>dbRules := rules\<rparr> \<and> rulesOk rules \<and> keepsRevisions (dbRules db) rules"
proof (induction rs arbitrary: db)
  case (Cons p rs)
  obtain ping r where p: "p = (ping, r)" by (cases p)
  let ?rules = "fst (serveRoutes sv ping stamp (dbAlerts db) (dbIntents db) (dbRules db) r)"
  note s = serveRoutes_rules [OF Cons.prems, of sv ping stamp "dbAlerts db" "dbIntents db" r]
  then obtain rules where "fst (answerAll sv stamp rs (db\<lparr>dbRules := ?rules\<rparr>)) = db\<lparr>dbRules := rules\<rparr>"
    "rulesOk rules" "keepsRevisions ?rules rules"
    using Cons.IH [of "db\<lparr>dbRules := ?rules\<rparr>"] by auto
  with s show ?case by (auto simp: p case_prod_beta Let_def intro: keepsRevisions_trans)
next
  case (Nil db)
  then show ?case by (intro exI [where x = "dbRules db"]) simp
qed

lemma seedRules_ok: "rulesOk db \<Longrightarrow> rulesOk (fst (seedRules jsonb clock rs db)) \<and> keepsRevisions db (fst (seedRules jsonb clock rs db))"
  using ruleStep_ok [of db "\<lambda>s. s" jsonb "OpSeed clock rs"] by simp

lemma replayEvents_frame:
  "dbRules (rpDB (fst (replayEvents pl cfg active lines s))) = dbRules (rpDB s) \<and>
    grown (dbOccurrences (rpDB s)) (dbOccurrences (rpDB (fst (replayEvents pl cfg active lines s))))"
proof -
  let ?fn = "replayLine pl cfg active (policiesByRevision active)"
  let ?R = "\<lambda>s s'. dbRules (rpDB s') = dbRules (rpDB s) \<and> grown (dbOccurrences (rpDB s)) (dbOccurrences (rpDB s'))"
  obtain es where es: "\<And>s. fst (Stream (plParse pl) lines (cfStreamID cfg) ?fn s) = fst (untilError ?fn s es)"
    by (rule Stream_factors [of "plParse pl" "lines" "cfStreamID cfg" ?fn]) auto
  have "?R s (fst (?fn s e))" for s e
  proof (cases "snd (?fn s e)")
    case None
    then have "?fn s e = (fst (?fn s e), None)" by (simp add: prod_eq_iff)
    from replayLine_frame [OF this] show ?thesis by blast
  next
    case (Some err)
    then have "dbOccurrences (rpDB (fst (?fn s e))) = dbOccurrences (rpDB s)" "dbRules (rpDB (fst (?fn s e))) = dbRules (rpDB s)"
      by (auto simp: replayLine_def Let_def split: prod.splits option.splits)
    then show ?thesis by simp
  qed
  then have "?R s (fst (untilError ?fn s es))" by (rule untilError_frame) (auto intro: grown_trans)
  moreover have "fst (replayEvents pl cfg active lines s) = fst (Stream (plParse pl) lines (cfStreamID cfg) ?fn s)"
    by (simp add: replayEvents_def split: prod.split option.split)
  ultimately show ?thesis by (simp add: es)
qed

lemma Run_keeps:
  assumes "Run pl cfg db = (db', sm, err)" and "rulesOk (dbRules db)"
  shows "rulesOk (dbRules db') \<and> keepsRevisions (dbRules db) (dbRules db') \<and> grown (dbOccurrences db) (dbOccurrences db')"
  using assms(1)
proof (cases rule: Run_cases)
  case (2 loaded rules)
  with seedRules_ok [OF assms(2), of "plDefinitionJsonb pl" "plSeedClock pl" loaded] show ?thesis by simp
next
  case (3 raw loaded rules u active rt lines s)
  from replayEvents_frame [of pl "defaulted cfg" active lines "startReplay (db\<lparr>dbRules := rules\<rparr>) rt"]
    seedRules_ok [OF assms(2), of "plDefinitionJsonb pl" "plSeedClock pl" loaded] 3(3,9,10)
  show ?thesis by (simp add: startReplay_def)
qed (use assms(2) in simp)

subsection \<open>The commands\<close>

lemma openFlags_same: "(case openFlags w fs of Inl err \<Rightarrow> P | Inr pool \<Rightarrow> P) = P"
  by (simp split: sum.split)

lemma migrateSystem_ok: "systemOk sys \<Longrightarrow> systemOk (fst (migrateSystem w sys))"
  by (simp add: systemOk_def migrateSystem_kept)

lemma migrateBody_ok:
  assumes "systemOk sys"
  shows "systemOk (fst (migrateBody w fs sys)) \<and>
    (kept sys (fst (migrateBody w fs sys)) \<or> boolFlag fs ''reset'' \<and> boolFlag fs ''yes'')"
proof -
  have "fst (migrateBody w fs sys) = sys \<or>
      \<not> boolFlag fs ''reset'' \<and> fst (migrateBody w fs sys) = fst (migrateSystem w sys) \<or>
      boolFlag fs ''reset'' \<and> boolFlag fs ''yes'' \<and> fst (migrateBody w fs sys) = fst (resetSystem w sys)"
    by (auto simp: migrateBody_def split: sum.split prod.split option.split)
  moreover have "systemOk (fst (resetSystem w sys))"
    by (simp add: resetSystem_def case_prod_beta systemOk_def emptyDatabase_ok emptyDatabase_rules)
  ultimately show ?thesis using assms migrateSystem_ok [OF assms, of w] migrateSystem_kept(1) [of sys w] by auto
qed

lemma serveBody_ok:
  assumes "systemOk sys"
  shows "systemOk (fst (serveBody w fs sys)) \<and> kept sys (fst (serveBody w fs sys))"
proof -
  let ?sys = "fst (migrateSystem w sys)"
  let ?db = "fst (answerAll (woServer w) (woStamp w) (woRequests w) (syData ?sys))"
  have "fst (serveBody w fs sys) \<in> {sys, ?sys, ?sys\<lparr>syData := ?db\<rparr>}"
    by (auto simp: serveBody_def Let_def split: sum.split prod.split option.split)
  moreover have ok: "systemOk ?sys" by (rule migrateSystem_ok [OF assms])
  then obtain rules where r: "?db = (syData ?sys)\<lparr>dbRules := rules\<rparr>" "rulesOk rules" "keepsRevisions (dbRules (syData ?sys)) rules"
    using answerAll_rules [of "syData ?sys" "woServer w" "woStamp w" "woRequests w"] by (auto simp: systemOk_def)
  have "systemOk (?sys\<lparr>syData := ?db\<rparr>)" using ok r(2) unfolding r(1) by (simp add: systemOk_def databaseOk_def alertsOk_def)
  moreover have "kept ?sys (?sys\<lparr>syData := ?db\<rparr>)" using r(3) unfolding r(1) by (simp add: kept_def)
  ultimately show ?thesis using assms ok migrateSystem_kept(1) [of sys w] by (auto intro: kept_trans)
qed

lemma replayBody_ok:
  assumes "systemOk sys"
  shows "systemOk (fst (replayBody w fs sys)) \<and> kept sys (fst (replayBody w fs sys))"
proof -
  let ?sys = "fst (migrateSystem w sys)"
  obtain db sm err where r: "Run (woPlatform w) (replayConfig fs) (syData ?sys) = (db, sm, err)" by (rule prod_cases3)
  have "fst (replayBody w fs sys) \<in> {sys, ?sys, ?sys\<lparr>syData := db\<rparr>}"
    using r by (auto simp: replayBody_def split: sum.split prod.split option.split)
  moreover have ok: "systemOk ?sys" by (rule migrateSystem_ok [OF assms])
  moreover have "systemOk (?sys\<lparr>syData := db\<rparr>)" "kept ?sys (?sys\<lparr>syData := db\<rparr>)"
    using Run_ok [of "syData ?sys" "woPlatform w" "replayConfig fs"] Run_keeps [OF r] r ok by (simp_all add: systemOk_def kept_def)
  ultimately show ?thesis using assms migrateSystem_kept(1) [of sys w] by (auto intro: kept_trans)
qed

lemma withFlags_cases:
  obtains (refused) "fst (withFlags name flags args body sys) = sys"
  | (run) fs rest where "Parse flags args = Inr (fs, rest)" "withFlags name flags args body sys = body fs sys"
  by (cases "Parse flags args") (auto simp: withFlags_def intro: that)

lemma exitWith_fst [simp]: "fst (exitWith out) = fst out"
  by (simp add: exitWith_def split: prod.split option.split)

lemma main_ok:
  assumes ok: "systemOk sys"
  shows "systemOk (fst (main w args sys)) \<and> (kept sys (fst (main w args sys)) \<or>
    (\<exists>prog rest. args = prog # ''migrate'' # rest \<and> list_ex (namesFlag ''reset'') rest \<and> list_ex (namesFlag ''yes'') rest))"
proof -
  consider (none) "fst (main w args sys) = sys"
    | (migrate) prog rest where "args = prog # ''migrate'' # rest" "fst (main w args sys) = fst (migrate w rest sys)"
    | (serve) rest where "fst (main w args sys) = fst (serve w rest sys)"
    | (replay) rest where "fst (main w args sys) = fst (replay w rest sys)"
  proof (cases "\<exists>prog command rest. args = prog # command # rest")
    case True
    then obtain prog command rest where args: "args = prog # command # rest" by blast
    have "fst (main w args sys) = sys \<or> command = ''migrate'' \<and> fst (main w args sys) = fst (migrate w rest sys) \<or>
      fst (main w args sys) = fst (serve w rest sys) \<or> fst (main w args sys) = fst (replay w rest sys)"
      by (auto simp: main_def args)
    with args that show thesis by blast
  next
    case False
    then have "fst (main w args sys) = sys" by (auto simp: main_def split: list.splits)
    then show thesis by (rule that(1))
  qed
  then show ?thesis
  proof cases
    case migrate
    then show ?thesis
    proof (cases rule: withFlags_cases [of "''migrate''" "migrateFlags (woEnv w)" rest "migrateBody w" sys])
      case (run fs more)
      with migrateBody_ok [OF ok, of w fs] Parse_boolFlag [OF run(1)] migrate show ?thesis by (auto simp: migrate_def)
    qed (use ok in \<open>simp add: migrate_def\<close>)
  next
    case (serve rest)
    with serveBody_ok [OF ok, of w] ok show ?thesis
      by (cases rule: withFlags_cases [of "''serve''" "serveFlags (woEnv w)" rest "serveBody w" sys]) (simp_all add: serve_def)
  next
    case (replay rest)
    with replayBody_ok [OF ok, of w] ok show ?thesis
      by (cases rule: withFlags_cases [of "''replay''" "replayFlags (woEnv w)" rest "replayBody w" sys]) (simp_all add: replay_def)
  qed (use ok in simp)
qed

text \<open>The program as a machine of invocations, each in its own world.\<close>

definition mainStep :: "'d system \<Rightarrow> 'd world \<times> string list \<Rightarrow> 'd system \<times> (console list \<times> nat) list" where
  "mainStep sys call = (case main (fst call) (snd call) sys of (sys', out) \<Rightarrow> (sys', [out]))"

interpretation program: invariant_machine mainStep systemOk
  by unfold_locales (simp add: mainStep_def case_prod_beta main_ok)

definition blankSystem :: "'d \<Rightarrow> 'd system" where
  "blankSystem d = \<lparr>syData = emptyDatabase, sySchema = blankDB d\<rparr>"

lemma blankSystem_ok: "systemOk (blankSystem d)"
  by (simp add: systemOk_def blankSystem_def emptyDatabase_ok emptyDatabase_rules)



subsection \<open>The connection pool\<close>

lemma wrap32_mod: "wrap32 x = (if x mod 2 ^ 32 < 2 ^ 31 then x mod 2 ^ 32 else x mod 2 ^ 32 - 2 ^ 32)"
proof -
  let ?m = "x mod 2 ^ 32"
  have m: "0 \<le> ?m" "?m < 2 ^ 32" by simp_all
  have shift: "(x + 2 ^ 31) mod 2 ^ 32 = (?m + 2 ^ 31) mod 2 ^ 32" by (simp only: mod_add_left_eq)
  show ?thesis
  proof (cases "?m < 2 ^ 31")
    case True
    then have "(?m + 2 ^ 31) mod 2 ^ 32 = ?m + 2 ^ 31" using m by (intro mod_pos_pos_trivial) simp_all
    then show ?thesis unfolding wrap32_def shift using True by simp
  next
    case False
    have "(?m + 2 ^ 31) mod 2 ^ 32 = (?m + 2 ^ 31 - 2 ^ 32) mod 2 ^ 32" by (simp only: minus_mod_self2)
    also have "\<dots> = ?m + 2 ^ 31 - 2 ^ 32" using m False by (intro mod_pos_pos_trivial) simp_all
    finally show ?thesis unfolding wrap32_def shift using False by simp
  qed
qed

text \<open>C40. The pool has the size that was asked for, up to the 32-bit conversion: every number of connections
  below \<open>2 ^ 31\<close> is used as it is; a larger one is taken modulo \<open>2 ^ 32\<close>, and where the result is
  zero or negative as a signed integer the configured size is used, without an error.\<close>

theorem pool_size_wraps:
  "case openDB connect url conns of
     Inl err \<Rightarrow> TrimSpace url = [] \<or> conns < 1 \<or> connect url = None
   | Inr pool \<Rightarrow> (\<exists>configured. connect url = Some configured \<and> pool = (if conns < 2 ^ 31 then conns
       else if 0 < conns mod 2 ^ 32 \<and> conns mod 2 ^ 32 < 2 ^ 31 then conns mod 2 ^ 32 else configured))"
proof (cases "TrimSpace url = [] \<or> conns < 1")
  case False
  have "conns mod 2 ^ 32 = conns" if "conns < 2 ^ 31" using that False by simp
  then show ?thesis using False wrap32_mod [of conns] by (auto simp: openDB_def openPool_def split: option.split)
qed (auto simp: openDB_def)

subsection \<open>Starting\<close>

text \<open>What is printed once a command has got past its flags and opened the database.\<close>

fun proceeds :: "console \<Rightarrow> bool" where
  "proceeds (Stdout line) \<longleftrightarrow> line \<noteq> usage"
| "proceeds (FlagUsage name err) \<longleftrightarrow> False"
| "proceeds (Logged err) \<longleftrightarrow> (case err of FlagsRejected e \<Rightarrow> False | URLRequired \<Rightarrow> False | ConnsNotPositive \<Rightarrow> False
     | DatabaseUnavailable \<Rightarrow> False | ResetNotConfirmed \<Rightarrow> False | _ \<Rightarrow> True)"
| "proceeds _ \<longleftrightarrow> True"

fun isLogged :: "console \<Rightarrow> bool" where
  "isLogged (Logged err) \<longleftrightarrow> True"
| "isLogged _ \<longleftrightarrow> False"

definition tidy :: "'d system \<Rightarrow> 'd outcome \<Rightarrow> bool" where
  "tidy sys out \<longleftrightarrow> (case out of (sys', printed, err) \<Rightarrow> \<not> list_ex isLogged printed \<and>
     (sys' = sys \<or> list_all proceeds (printed @ (case err of None \<Rightarrow> [] | Some e \<Rightarrow> [Logged e]))))"

lemma tidy_exit: "tidy sys out \<Longrightarrow> case exitWith out of (sys', printed, code) \<Rightarrow>
    (sys' = sys \<or> list_all proceeds printed) \<and> code = (if list_ex isLogged printed then 1 else 0)"
  by (auto simp: tidy_def exitWith_def split: prod.splits option.splits)

lemma tidy_withFlags: "(\<And>fs. tidy sys (body fs sys)) \<Longrightarrow> tidy sys (withFlags name flags args body sys)"
  by (auto simp: withFlags_def tidy_def split: sum.split)

lemma tidy_migrate: "tidy sys (migrateBody w fs sys)"
  by (auto simp: migrateBody_def tidy_def migrateSystem_def resetSystem_def usage_def split: sum.split prod.split option.split if_splits)

lemma tidy_serve: "tidy sys (serveBody w fs sys)"
  by (auto simp: serveBody_def tidy_def migrateSystem_def Let_def list_all_iff list_ex_iff split: sum.split prod.split option.split if_splits)

lemma tidy_replay: "tidy sys (replayBody w fs sys)"
  by (auto simp: replayBody_def tidy_def migrateSystem_def replayReport_def usage_def split: sum.split prod.split option.split)


subsection \<open>The replay command again\<close>

lemma migrateSystem_again:
  assumes "migrateSystem w sys = (sys1, None)"
  shows "migrateSystem w (sys1\<lparr>syData := db\<rparr>) = (sys1\<lparr>syData := db\<rparr>, None)"
proof -
  obtain schema where s: "ApplyMigrations (woExec w) (woDigest w) (woFiles w) (sySchema sys) = (schema, None)"
    "sys1 = sys\<lparr>sySchema := schema\<rparr>"
    using assms by (auto simp: migrateSystem_def split: prod.splits)
  with migrations_idempotent [of "woExec w" "woDigest w" "woFiles w" "sySchema sys"]
  have "ApplyMigrations (woExec w) (woDigest w) (woFiles w) schema = (schema, None)" by simp
  with s(2) show ?thesis by (simp add: migrateSystem_def)
qed

text \<open>C5. The replay command can be repeated: when it has succeeded on a file whose events are of whole
  microseconds, the same invocation succeeds again, reports that there was nothing to do and
  leaves the whole system, schema and tables, as it is.\<close>

theorem replay_command_repeats:
  assumes parsed: "Parse (replayFlags (woEnv w)) args = Inr (fs, extra)"
    and evs: "plReadFile (woPlatform w) (stringFlag fs ''input'') = Some lines"
    and whole: "list_all wholeMicros (fst (Stream (plParse (woPlatform w)) lines (cfStreamID (defaulted (replayConfig fs))) collect []))"
    and first: "main w (program # ''replay'' # args) sys = (sys', printed, 0)"
  shows "main w (program # ''replay'' # args) sys' =
    (sys', [Stdout ''replay complete: 0 events, 0 alert transitions, 0 visible notifications''], 0)"
proof -
  have body: "exitWith (replayBody w fs sys) = (sys', printed, 0)" using first parsed by (simp add: main_def replay_def withFlags_def)
  obtain pool sys1 db sm where o: "openFlags w fs = Inr pool" and m: "migrateSystem w sys = (sys1, None)"
    and r: "Run (woPlatform w) (replayConfig fs) (syData sys1) = (db, sm, None)" and sys': "sys' = sys1\<lparr>syData := db\<rparr>"
    using body by (auto simp: replayBody_def exitWith_def split: sum.splits prod.splits option.splits)
  have "cfEventPath (replayConfig fs) = stringFlag fs ''input''" by (simp add: replayConfig_def)
  with rerun_changes_nothing [OF r _ whole] evs have "Run (woPlatform w) (replayConfig fs) db = (db, zeroSummary, None)" by simp
  moreover have "replayReport zeroSummary = ''replay complete: 0 events, 0 alert transitions, 0 visible notifications''"
    by code_simp
  ultimately show ?thesis using o migrateSystem_again [OF m, of db]
    by (simp add: main_def replay_def withFlags_def parsed replayBody_def sys' exitWith_def)
qed

subsection \<open>Witnesses\<close>

definition demoServer :: server where
  "demoServer = \<lparr>svEvents = None, svParse = plParse demoPlatform, svRender = plRender demoPlatform, svJsonb = (\<lambda>j. j),
     svClock = 0, svLower = (\<lambda>s. s), svFormat = (\<lambda>t. []), svStylesheet = None\<rparr>"

text \<open>A schema is the list of the SQL texts that were executed on it.\<close>

definition demoWorld :: "string list world" where
  "demoWorld = \<lparr>woEnv = (\<lambda>k. if k = ''WATCHTOWER_DATABASE_URL'' then ''postgres:'' else []),
     woConnect = (\<lambda>url. Some 4), woBlank = [], woExec = (\<lambda>sql schema. Some (schema @ [sql])), woDigest = (\<lambda>t. t),
     woFiles = [(''m/001_a.sql'', ''create'')], woPlatform = demoPlatform, woServer = demoServer, woStamp = (\<lambda>t. []),
     woListens = (\<lambda>a. False), woRequests = []\<rparr>"

definition demoArgs :: "string list" where
  "demoArgs = [''--input'', ''a'', ''-rules=rules'']"

theorem replay_command_repeats_witness:
  "case main demoWorld (''watchtower'' # ''replay'' # demoArgs) (blankSystem []) of (sys, printed, code) \<Rightarrow>
     printed = [Stdout ''replay complete: 1 events, 0 alert transitions, 0 visible notifications''] \<and>
     main demoWorld (''watchtower'' # ''replay'' # demoArgs) sys =
       (sys, [Stdout ''replay complete: 0 events, 0 alert transitions, 0 visible notifications''], 0)"
proof -
  obtain sys printed code where m: "main demoWorld (''watchtower'' # ''replay'' # demoArgs) (blankSystem []) = (sys, printed, code)"
    by (rule prod_cases3)
  have "snd (main demoWorld (''watchtower'' # ''replay'' # demoArgs) (blankSystem [])) =
      ([Stdout ''replay complete: 1 events, 0 alert transitions, 0 visible notifications''], 0)" by code_simp
  then have out: "printed = [Stdout ''replay complete: 1 events, 0 alert transitions, 0 visible notifications'']" "code = 0"
    by (simp_all add: m)
  obtain fs extra where f: "Parse (replayFlags (woEnv demoWorld)) demoArgs = Inr (fs, extra)"
    "plReadFile (woPlatform demoWorld) (stringFlag fs ''input'') = Some ''a''"
    "list_all wholeMicros (fst (Stream (plParse (woPlatform demoWorld)) ''a'' (cfStreamID (defaulted (replayConfig fs))) collect []))"
  proof
    show "Parse (replayFlags (woEnv demoWorld)) demoArgs =
      Inr (fst (projr (Parse (replayFlags (woEnv demoWorld)) demoArgs)), [])" by code_simp
  qed code_simp+
  from replay_command_repeats [OF f m [unfolded out(2)]] show ?thesis by (simp add: m out)
qed

end
