(* ===== verification/JsonText.thy ===== *)
theory JsonText
  imports Json
begin

text \<open>
  JSON as text, what \<^verbatim>\<open>encoding/json\<close> reads and writes: strings with their escapes and
  the replacement of invalid UTF-8, the grammar of numbers, and the scanner, a machine with a stack
  of open containers that is at most 10000 deep. Printing escapes what the package escapes,
  \<^verbatim>\<open><\<close>, \<^verbatim>\<open>>\<close> and \<^verbatim>\<open>&\<close> included.
\<close>

subsection \<open>UTF-8\<close>

definition between :: "nat \<Rightarrow> nat \<Rightarrow> char \<Rightarrow> bool" where
  "between lo hi c \<longleftrightarrow> lo \<le> (of_char c :: nat) \<and> (of_char c :: nat) \<le> hi"

fun follows :: "(nat \<times> nat) list \<Rightarrow> string \<Rightarrow> bool" where
  "follows [] s = True"
| "follows (p # ps) [] = False"
| "follows ((lo, hi) # ps) (c # s) = (between lo hi c \<and> follows ps s)"

text \<open>The ranges of the bytes that follow the first one of an encoding.\<close>

definition utf8Tail :: "char \<Rightarrow> (nat \<times> nat) list option" where
  "utf8Tail a =
     (if between 0 0x7F a then Some []
      else if between 0xC2 0xDF a then Some [(0x80, 0xBF)]
      else if between 0xE0 0xEF a
        then Some [(if a = CHR 0xE0 then 0xA0 else 0x80, if a = CHR 0xED then 0x9F else 0xBF), (0x80, 0xBF)]
      else if between 0xF0 0xF4 a
        then Some [(if a = CHR 0xF0 then 0x90 else 0x80, if a = CHR 0xF4 then 0x8F else 0xBF), (0x80, 0xBF), (0x80, 0xBF)]
      else None)"

text \<open>How many bytes the encoding at the head of a text has, 0 when it is not valid:
  \<^verbatim>\<open>utf8.DecodeRune\<close>.\<close>

definition utf8Length :: "string \<Rightarrow> nat" where
  "utf8Length s = (case s of [] \<Rightarrow> 0 | a # r \<Rightarrow> (case utf8Tail a of None \<Rightarrow> 0
     | Some ps \<Rightarrow> if follows ps r then Suc (length ps) else 0))"

function validUtf8 :: "string \<Rightarrow> bool" where
  "validUtf8 s = (if s = [] then True
     else if utf8Length s = 0 then False else validUtf8 (drop (utf8Length s) s))"
  by pat_completeness auto
termination by (relation "measure length") auto

declare validUtf8.simps [simp del]

definition encodeRune :: "nat \<Rightarrow> string" where
  "encodeRune n =
     (if n < 0x80 then [char_of n]
      else if n < 0x800 then [char_of (0xC0 + n div 64), char_of (0x80 + n mod 64)]
      else if n < 0x10000 then [char_of (0xE0 + n div 4096), char_of (0x80 + n div 64 mod 64), char_of (0x80 + n mod 64)]
      else [char_of (0xF0 + n div 262144), char_of (0x80 + n div 4096 mod 64), char_of (0x80 + n div 64 mod 64),
        char_of (0x80 + n mod 64)])"

text \<open>U+FFFD.\<close>

definition replacement :: string where
  "replacement = [CHR 0xEF, CHR 0xBF, CHR 0xBD]"

subsection \<open>Strings\<close>

definition hexValue :: "char \<Rightarrow> nat option" where
  "hexValue c =
     (if between 48 57 c then Some (of_char c - 48)
      else if between 97 102 c then Some (of_char c - 87)
      else if between 65 70 c then Some (of_char c - 55) else None)"

text \<open>\<^verbatim>\<open>getu4\<close>: four hexadecimal digits.\<close>

definition hex4 :: "string \<Rightarrow> nat option" where
  "hex4 s = (case s of a # b # c # d # r \<Rightarrow> (case (hexValue a, hexValue b, hexValue c, hexValue d) of
       (Some i, Some j, Some k, Some l) \<Rightarrow> Some (4096 * i + 256 * j + 16 * k + l) | _ \<Rightarrow> None)
     | _ \<Rightarrow> None)"

text \<open>The second half of a surrogate pair, an escape of its own.\<close>

definition lowSurrogate :: "string \<Rightarrow> nat option" where
  "lowSurrogate s = (case s of c # u # r \<Rightarrow> if c = CHR 0x5C \<and> u = CHR ''u'' then
       (case hex4 r of Some n \<Rightarrow> if 0xDC00 \<le> n \<and> n < 0xE000 then Some n else None | None \<Rightarrow> None) else None
     | _ \<Rightarrow> None)"

text \<open>An escape, after the backslash: what it stands for and the rest. A surrogate that is not
  part of a pair is replaced.\<close>

definition lexUnicode :: "nat \<Rightarrow> string \<Rightarrow> string \<times> string" where
  "lexUnicode n r =
     (if 0xD800 \<le> n \<and> n < 0xE000 then
        (case lowSurrogate r of
           Some m \<Rightarrow> if n < 0xDC00 then (encodeRune (0x10000 + 1024 * (n - 0xD800) + (m - 0xDC00)), drop 6 r)
             else (replacement, r)
         | None \<Rightarrow> (replacement, r))
      else (encodeRune n, r))"

definition lexEscape :: "string \<Rightarrow> (string \<times> string) option" where
  "lexEscape s = (case s of [] \<Rightarrow> None
     | c # r \<Rightarrow>
         if c = CHR 0x22 \<or> c = CHR 0x5C \<or> c = CHR ''/'' then Some ([c], r)
         else if c = CHR ''b'' then Some ([CHR 0x08], r)
         else if c = CHR ''f'' then Some ([CHR 0x0C], r)
         else if c = CHR ''n'' then Some ([CHR 0x0A], r)
         else if c = CHR ''r'' then Some ([CHR 0x0D], r)
         else if c = CHR ''t'' then Some ([CHR 0x09], r)
         else if c = CHR ''u'' then (case hex4 r of None \<Rightarrow> None | Some n \<Rightarrow> Some (lexUnicode n (drop 4 r)))
         else None)"

lemma lexUnicode_rest: "length (snd (lexUnicode n r)) \<le> length r"
  by (simp add: lexUnicode_def split: option.split)

lemma lexEscape_rest: "lexEscape s = Some (out, r) \<Longrightarrow> length r < length s"
  using lexUnicode_rest [of _ "drop 4 (tl s)"]
  by (auto simp: lexEscape_def split: list.splits if_splits option.splits)
    (metis diff_le_self le_imp_less_Suc le_trans snd_conv)+

text \<open>A string after its opening quote: what it stands for, and what follows its closing quote.
  A byte that starts no valid encoding is replaced.\<close>

function lexString :: "string \<Rightarrow> (string \<times> string) option" where
  "lexString s = (case s of [] \<Rightarrow> None
     | c # r \<Rightarrow>
         if c = CHR 0x22 then Some ([], r)
         else if c = CHR 0x5C then (case lexEscape r of None \<Rightarrow> None
           | Some (out, r') \<Rightarrow> map_option (apfst ((@) out)) (lexString r'))
         else if between 0 0x1F c then None
         else if utf8Length s = 0 then map_option (apfst ((@) replacement)) (lexString r)
         else map_option (apfst ((@) (take (utf8Length s) s))) (lexString (drop (utf8Length s) s)))"
  by pat_completeness auto
termination
  by (relation "measure length") (auto dest: lexEscape_rest)

declare lexString.simps [simp del]

definition encodeByte :: "char \<Rightarrow> string" where
  "encodeByte c =
     (if c = CHR 0x22 \<or> c = CHR 0x5C then [CHR 0x5C, c]
      else if c = CHR 0x08 then [CHR 0x5C, CHR ''b'']
      else if c = CHR 0x0C then [CHR 0x5C, CHR ''f'']
      else if c = CHR 0x0A then [CHR 0x5C, CHR ''n'']
      else if c = CHR 0x0D then [CHR 0x5C, CHR ''r'']
      else if c = CHR 0x09 then [CHR 0x5C, CHR ''t'']
      else if between 0 0x1F c \<or> c = CHR ''<'' \<or> c = CHR ''>'' \<or> c = CHR ''&''
        then [CHR 0x5C, CHR ''u'', CHR ''0'', CHR ''0'', hexDigit (of_char c div 16), hexDigit (of_char c mod 16)]
      else [c])"

text \<open>\<^verbatim>\<open>appendString\<close>: also U+2028 and U+2029 are escaped.\<close>

definition encodeChar :: "string \<Rightarrow> string" where
  "encodeChar u =
     (if u = [CHR 0xE2, CHR 0x80, CHR 0xA8] then CHR 0x5C # ''u2028''
      else if u = [CHR 0xE2, CHR 0x80, CHR 0xA9] then CHR 0x5C # ''u2029'' else u)"

function encodeString :: "string \<Rightarrow> string" where
  "encodeString s = (case s of [] \<Rightarrow> []
     | c # r \<Rightarrow>
         if between 0 0x7F c then encodeByte c @ encodeString r
         else if utf8Length s = 0 then (CHR 0x5C # ''ufffd'') @ encodeString r
         else encodeChar (take (utf8Length s) s) @ encodeString (drop (utf8Length s) s))"
  by pat_completeness auto
termination by (relation "measure length") auto

declare encodeString.simps [simp del]

subsection \<open>Numbers\<close>

text \<open>The texts that follow an integer, a fraction and an exponent.\<close>

definition skipInteger :: "string \<Rightarrow> string option" where
  "skipInteger s = (case s of [] \<Rightarrow> None
     | c # r \<Rightarrow> if c = CHR ''0'' then Some r else if isDigit c then Some (dropWhile isDigit r) else None)"

definition skipDigits :: "string \<Rightarrow> string option" where
  "skipDigits s = (case s of [] \<Rightarrow> None | c # r \<Rightarrow> if isDigit c then Some (dropWhile isDigit r) else None)"

definition skipFraction :: "string \<Rightarrow> string option" where
  "skipFraction s = (case s of [] \<Rightarrow> Some [] | c # r \<Rightarrow> if c = CHR ''.'' then skipDigits r else Some s)"

definition skipSign :: "string \<Rightarrow> string" where
  "skipSign s = (case s of [] \<Rightarrow> [] | c # r \<Rightarrow> if c = CHR ''+'' \<or> c = CHR ''-'' then r else s)"

definition skipExponent :: "string \<Rightarrow> string option" where
  "skipExponent s = (case s of [] \<Rightarrow> Some []
     | c # r \<Rightarrow> if c = CHR ''e'' \<or> c = CHR ''E'' then skipDigits (skipSign r) else Some s)"

definition skipMinus :: "string \<Rightarrow> string" where
  "skipMinus s = (case s of [] \<Rightarrow> [] | c # r \<Rightarrow> if c = CHR ''-'' then r else s)"

definition skipNumber :: "string \<Rightarrow> string option" where
  "skipNumber s = Option.bind (skipInteger (skipMinus s)) (\<lambda>r. Option.bind (skipFraction r) skipExponent)"

definition lexNumber :: "string \<Rightarrow> (string \<times> string) option" where
  "lexNumber s = map_option (\<lambda>r. (take (length s - length r) s, r)) (skipNumber s)"

subsection \<open>Values\<close>

datatype frame = ArrayFrame "json list" | ObjectFrame "(string \<times> json) list" string

text \<open>What the scanner expects, and the value it has just read.\<close>

datatype expects = Value | FirstValue | FirstKey | NextKey | Colon | After json

definition isSpace :: "char \<Rightarrow> bool" where
  "isSpace c \<longleftrightarrow> c = CHR '' '' \<or> c = CHR 0x09 \<or> c = CHR 0x0A \<or> c = CHR 0x0D"

definition maxNestingDepth :: nat where
  "maxNestingDepth = 10000"

text \<open>A scalar: a string, a number or a literal.\<close>

definition lexScalar :: "string \<Rightarrow> (json \<times> string) option" where
  "lexScalar s =
     (if s = [] then None
      else if hd s = CHR 0x22 then map_option (apfst JStr) (lexString (tl s))
      else if take 4 s = ''true'' then Some (JBool True, drop 4 s)
      else if take 5 s = ''false'' then Some (JBool False, drop 5 s)
      else if take 4 s = ''null'' then Some (JNull, drop 4 s)
      else map_option (apfst JNum) (lexNumber s))"

text \<open>The value that ends a container goes to the container around it.\<close>

definition closed :: "frame \<Rightarrow> json" where
  "closed f = (case f of ArrayFrame vs \<Rightarrow> JArr vs | ObjectFrame ms k \<Rightarrow> JObj ms)"

definition extended :: "json \<Rightarrow> frame \<Rightarrow> frame" where
  "extended j f = (case f of ArrayFrame vs \<Rightarrow> ArrayFrame (vs @ [j]) | ObjectFrame ms k \<Rightarrow> ObjectFrame (ms @ [(k, j)]) [])"

definition closes :: "frame \<Rightarrow> char \<Rightarrow> bool" where
  "closes f c = (case f of ArrayFrame vs \<Rightarrow> c = CHR '']'' | ObjectFrame ms k \<Rightarrow> c = CHR ''}'')"

definition nextOf :: "frame \<Rightarrow> expects" where
  "nextOf f = (case f of ArrayFrame vs \<Rightarrow> Value | ObjectFrame ms k \<Rightarrow> NextKey)"

text \<open>One step of the scanner on a byte that is not white space; \<open>None\<close> is a syntax error.\<close>

definition scanValue :: "frame list \<Rightarrow> char \<Rightarrow> string \<Rightarrow> (frame list \<times> expects \<times> string) option" where
  "scanValue fs c r =
     (if c = CHR ''['' then (if length fs < maxNestingDepth then Some (ArrayFrame [] # fs, FirstValue, r) else None)
      else if c = CHR ''{'' then (if length fs < maxNestingDepth then Some (ObjectFrame [] [] # fs, FirstKey, r) else None)
      else map_option (\<lambda>(j, r'). (fs, After j, r')) (lexScalar (c # r)))"

definition scanKey :: "frame list \<Rightarrow> char \<Rightarrow> string \<Rightarrow> (frame list \<times> expects \<times> string) option" where
  "scanKey fs c r = (case fs of
       ObjectFrame ms k # fs' \<Rightarrow>
         if c = CHR 0x22 then map_option (\<lambda>(k', r'). (ObjectFrame ms k' # fs', Colon, r')) (lexString r) else None
     | _ \<Rightarrow> None)"

definition scanAfter :: "frame list \<Rightarrow> json \<Rightarrow> char \<Rightarrow> string \<Rightarrow> (frame list \<times> expects \<times> string) option" where
  "scanAfter fs j c r = (case fs of [] \<Rightarrow> None
     | f # fs' \<Rightarrow>
         if c = CHR '','' then Some (extended j f # fs', nextOf f, r)
         else if closes f c then Some (fs', After (closed (extended j f)), r) else None)"

definition scan :: "frame list \<Rightarrow> expects \<Rightarrow> char \<Rightarrow> string \<Rightarrow> (frame list \<times> expects \<times> string) option" where
  "scan fs e c r = (case e of
       Value \<Rightarrow> scanValue fs c r
     | FirstValue \<Rightarrow> (case fs of f # fs' \<Rightarrow> if closes f c then Some (fs', After (closed f), r) else scanValue fs c r
         | [] \<Rightarrow> None)
     | FirstKey \<Rightarrow> (case fs of f # fs' \<Rightarrow> if closes f c then Some (fs', After (closed f), r) else scanKey fs c r
         | [] \<Rightarrow> None)
     | NextKey \<Rightarrow> scanKey fs c r
     | Colon \<Rightarrow> if c = CHR '':'' then Some (fs, Value, r) else None
     | After j \<Rightarrow> scanAfter fs j c r)"


lemma lexString_cases:
  assumes "lexString s = Some (x, r)"
  obtains (closing) "s = CHR 0x22 # r" "x = []"
    | (escape) t out t' y where "s = CHR 0x5C # t" "lexEscape t = Some (out, t')" "lexString t' = Some (y, r)" "x = out @ y"
    | (replaced) c t y where "s = c # t" "c \<noteq> CHR 0x22" "c \<noteq> CHR 0x5C" "\<not> between 0 0x1F c" "utf8Length s = 0"
        "lexString t = Some (y, r)" "x = replacement @ y"
    | (kept) c t y where "s = c # t" "c \<noteq> CHR 0x22" "c \<noteq> CHR 0x5C" "\<not> between 0 0x1F c" "utf8Length s \<noteq> 0"
        "lexString (drop (utf8Length s) s) = Some (y, r)" "x = take (utf8Length s) s @ y"
proof (cases s)
  case Nil
  with assms show ?thesis by (simp add: lexString.simps)
next
  case (Cons c t)
  note eq = assms [unfolded lexString.simps [of s], unfolded Cons list.case, folded Cons]
  consider "c = CHR 0x22" | "c = CHR 0x5C" | "c \<noteq> CHR 0x22" "c \<noteq> CHR 0x5C" "utf8Length s = 0" "\<not> between 0 0x1F c"
    | "c \<noteq> CHR 0x22" "c \<noteq> CHR 0x5C" "utf8Length s \<noteq> 0" "\<not> between 0 0x1F c"
    using eq by (auto split: if_splits)
  then show ?thesis
  proof cases
    case 1
    with eq show ?thesis using closing Cons by simp
  next
    case 2
    with eq obtain out t' where e: "lexEscape t = Some (out, t')" by (auto split: option.splits)
    with eq 2 obtain y where "lexString t' = Some (y, r)" "x = out @ y" by auto
    with e show ?thesis using escape Cons 2 by simp
  next
    case 3
    with eq obtain y where "lexString t = Some (y, r)" "x = replacement @ y" by auto
    then show ?thesis using replaced Cons 3 by simp
  next
    case 4
    with eq obtain y where "lexString (drop (utf8Length s) s) = Some (y, r)" "x = take (utf8Length s) s @ y" by auto
    then show ?thesis using kept Cons 4 by simp
  qed
qed

lemma lexString_rest: "lexString s = Some (x, r) \<Longrightarrow> length r < length s"
proof (induction "length s" arbitrary: s x r rule: less_induct)
  case less
  from less.prems show ?case
  proof (cases rule: lexString_cases)
    case (escape t out t' y)
    from lexEscape_rest [OF escape(2)] have "length t' < length s" by (simp add: escape(1))
    from less.hyps [OF this escape(3)] this show ?thesis by simp
  next
    case (replaced c t y)
    then have "length t < length s" by simp
    from less.hyps [OF this replaced(6)] this show ?thesis by simp
  next
    case (kept c t y)
    then have l: "length (drop (utf8Length s) s) < length s" by simp
    from less.hyps [OF l kept(6)] l show ?thesis by linarith
  qed simp
qed

lemma skipDigits_rest: "skipDigits s = Some r \<Longrightarrow> length r < length s"
  using length_dropWhile_le [of isDigit "tl s"] by (auto simp: skipDigits_def split: list.splits if_splits)

lemma skipInteger_rest: "skipInteger s = Some r \<Longrightarrow> length r < length s"
  using length_dropWhile_le [of isDigit "tl s"] by (auto simp: skipInteger_def split: list.splits if_splits)

lemma skipFraction_rest: "skipFraction s = Some r \<Longrightarrow> length r \<le> length s"
  by (auto simp: skipFraction_def split: list.splits if_splits dest: skipDigits_rest)

lemma skipExponent_rest: "skipExponent s = Some r \<Longrightarrow> length r \<le> length s"
  using skipDigits_rest [of "skipSign (tl s)" r]
  by (auto simp: skipExponent_def skipSign_def split: list.splits if_splits)

lemma lexNumber_rest:
  assumes "lexNumber s = Some (t, r)"
  shows "length r < length s"
proof -
  obtain r1 r2 where "skipInteger (skipMinus s) = Some r1" "skipFraction r1 = Some r2" "skipExponent r2 = Some r"
    using assms by (auto simp: lexNumber_def skipNumber_def bind_eq_Some_conv)
  from skipInteger_rest [OF this(1)] skipFraction_rest [OF this(2)] skipExponent_rest [OF this(3)]
  have "length r < length (skipMinus s)" by linarith
  also have "length (skipMinus s) \<le> length s" by (simp add: skipMinus_def split: list.split)
  finally show ?thesis .
qed

lemma lexScalar_rest: "lexScalar s = Some (j, r) \<Longrightarrow> length r < length s"
  by (auto simp: lexScalar_def dest!: lexString_rest lexNumber_rest split: if_splits)

lemma scan_rest:
  assumes "scan fs e c r = Some (fs', e', r')"
  shows "length r' \<le> length r"
  using assms
  by (auto simp: scan_def scanValue_def scanKey_def scanAfter_def
      split: expects.splits frame.splits list.splits if_splits dest!: lexString_rest lexScalar_rest)

function parseLoop :: "frame list \<Rightarrow> expects \<Rightarrow> string \<Rightarrow> json option" where
  "parseLoop fs e s = (case s of
       [] \<Rightarrow> (case e of After j \<Rightarrow> if fs = [] then Some j else None | _ \<Rightarrow> None)
     | c # r \<Rightarrow> if isSpace c then parseLoop fs e r
         else (case scan fs e c r of None \<Rightarrow> None | Some (fs', e', r') \<Rightarrow> parseLoop fs' e' r'))"
  by pat_completeness auto
termination
  by (relation "measure (\<lambda>(fs, e, s). length s)") (auto dest: scan_rest)

declare parseLoop.simps [simp del]

text \<open>One JSON value and nothing after it but white space.\<close>

definition parseJSON :: "string \<Rightarrow> json option" where
  "parseJSON s = parseLoop [] Value s"

subsection \<open>Printing\<close>

fun commaList :: "string list \<Rightarrow> string" where
  "commaList [] = []"
| "commaList [x] = x"
| "commaList (x # y # xs) = x @ CHR '','' # commaList (y # xs)"

definition quoted :: "string \<Rightarrow> string" where
  "quoted s = CHR 0x22 # encodeString s @ [CHR 0x22]"

text \<open>\<^verbatim>\<open>json.Marshal\<close>.\<close>

fun renderJSON :: "json \<Rightarrow> string" where
  "renderJSON JNull = ''null''"
| "renderJSON (JBool b) = (if b then ''true'' else ''false'')"
| "renderJSON (JNum t) = t"
| "renderJSON (JStr s) = quoted s"
| "renderJSON (JArr xs) = CHR ''['' # commaList (map renderJSON xs) @ '']''"
| "renderJSON (JObj ms) = CHR ''{'' # commaList (map (\<lambda>(k, v). quoted k @ CHR '':'' # renderJSON v) ms) @ ''}''"


end
