(* ===== verification/TextBoundary.thy ===== *)
theory TextBoundary
  imports JsonText RulesDecode Events
begin

text \<open>
  The boundaries of the program as texts: the strict decoders of
  \<^verbatim>\<open>internal/events/events.go\<close> and \<^verbatim>\<open>internal/rules/decode.go\<close> on bytes,
  the marshalled form of a rule, and the text of validation errors.
\<close>

text \<open>\<^verbatim>\<open>Decode\<close> of a line: a duplicate name, a syntax error and data after the value are
  errors; \<open>None\<close> is the syntax error.\<close>

definition DecodeData :: "string \<Rightarrow> (event_error + event) option" where
  "DecodeData data = map_option Decode (parseJSON data)"

definition DecodeRuleDefinitionData :: "string \<Rightarrow> decode_rule_error + rule_definition" where
  "DecodeRuleDefinitionData data = (case parseJSON data of
       None \<Rightarrow> Inl DefinitionNotDecoded | Some j \<Rightarrow> DecodeRuleDefinition j)"

text \<open>\<^verbatim>\<open>json.Marshal\<close> of a definition.\<close>

definition MarshalRule :: "rule_definition \<Rightarrow> string option" where
  "MarshalRule r = map_option renderJSON (marshalDefinition r)"

text \<open>\<^verbatim>\<open>ValidationErrors.Error\<close>: by path and code, separated by semicolons.\<close>

definition errorBefore :: "validation_error \<Rightarrow> validation_error \<Rightarrow> bool" where
  "errorBefore a b = (if vePath a \<noteq> vePath b then vePath a < vePath b else veCode a < veCode b)"

definition errorPart :: "validation_error \<Rightarrow> string" where
  "errorPart v = vePath v @ '' ('' @ veCode v @ ''): '' @ veMessage v"

fun joinErrors :: "string list \<Rightarrow> string" where
  "joinErrors [] = []"
| "joinErrors [p] = p"
| "joinErrors (p # q # ps) = p @ ''; '' @ joinErrors (q # ps)"

definition ErrorText :: "validation_error list \<Rightarrow> string" where
  "ErrorText es = joinErrors (map errorPart (sort_by errorBefore es))"

end
