(* ===== verification/JsonTextProps.thy ===== *)
theory JsonTextProps
  imports JsonText
begin

text \<open>
  The text of JSON and the values: whatever is printed is read back, and whatever is read can be
  printed.
\<close>

subsection \<open>Characters\<close>

lemma follows_append: "follows ps r \<Longrightarrow> follows ps (take (length ps) r @ y)"
  by (induction ps r rule: follows.induct) auto

lemma follows_length: "follows ps r \<Longrightarrow> length ps \<le> length r"
  by (induction ps r rule: follows.induct) auto

lemma utf8Length_le: "utf8Length s \<le> length s"
  by (auto simp: utf8Length_def split: list.split option.split dest: follows_length)

lemma utf8Length_take:
  assumes "utf8Length s \<noteq> 0"
  shows "utf8Length (take (utf8Length s) s @ y) = utf8Length s"
proof -
  obtain a r ps where s: "s = a # r" "utf8Tail a = Some ps" "follows ps r"
    using assms by (auto simp: utf8Length_def split: list.splits option.splits if_splits)
  from follows_append [OF s(3), of y] show ?thesis by (simp add: utf8Length_def s)
qed

lemma utf8Length_ASCII: "between 0 0x7F c \<Longrightarrow> utf8Length (c # s) = 1"
  by (simp add: utf8Length_def utf8Tail_def)

lemma validUtf8_Nil [simp]: "validUtf8 []"
  by (simp add: validUtf8.simps)

lemma validUtf8_head: "utf8Length s \<noteq> 0 \<Longrightarrow> validUtf8 s = validUtf8 (drop (utf8Length s) s)"
  by (subst validUtf8.simps) (auto simp: utf8Length_def)

lemma validUtf8_append: "validUtf8 s \<Longrightarrow> validUtf8 (s @ t) = validUtf8 t"
proof (induction s rule: validUtf8.induct)
  case (1 s)
  show ?case
  proof (cases "s = []")
    case False
    with "1.prems" [unfolded validUtf8.simps [of s]] have n: "utf8Length s \<noteq> 0" by (simp split: if_splits)
    then have "validUtf8 (drop (utf8Length s) s)" using "1.prems" validUtf8_head by blast
    with "1.IH" [OF False n] have "validUtf8 (drop (utf8Length s) s @ t) = validUtf8 t" by blast
    moreover have "utf8Length (s @ t) = utf8Length s"
      using utf8Length_take [OF n, of "drop (utf8Length s) s @ t"]
      by (simp only: append_assoc [symmetric] append_take_drop_id)
    moreover have "drop (utf8Length s) (s @ t) = drop (utf8Length s) s @ t" using utf8Length_le [of s] by simp
    ultimately show ?thesis using n validUtf8_head [of "s @ t"] by simp
  qed simp
qed

lemma validUtf8_take: "utf8Length s \<noteq> 0 \<Longrightarrow> validUtf8 (take (utf8Length s) s)"
  using utf8Length_take [of s "[]"] by (subst validUtf8_head) simp_all

lemma validUtf8_ASCII: "list_all (between 0 0x7F) s \<Longrightarrow> validUtf8 s"
  by (induction s) (simp_all add: validUtf8_head utf8Length_ASCII)

subsection \<open>Strings\<close>

lemma hexValue_hexDigit: "n < 16 \<Longrightarrow> hexValue (hexDigit n) = Some n"
  by (auto simp: hexValue_def between_def of_char_hexDigit)

lemma lexString_escape:
  "lexEscape t = Some (out, r) \<Longrightarrow> lexString (CHR 0x5C # t) = map_option (apfst ((@) out)) (lexString r)"
  by (subst lexString.simps) simp

lemma apfst_Cons: "apfst ((@) [c]) = apfst ((#) c)"
  by (simp add: fun_eq_iff)

lemma lexString_byte:
  assumes "between 0 0x7F c"
  shows "lexString (encodeByte c @ y) = map_option (apfst ((#) c)) (lexString y)"
proof (cases "encodeByte c = [c]")
  case True
  then have "c \<noteq> CHR 0x22 \<and> c \<noteq> CHR 0x5C \<and> \<not> between 0 0x1F c"
    by (auto simp: encodeByte_def split: if_splits)
  then show ?thesis unfolding True using assms
    by (simp add: lexString.simps [of "c # y"] utf8Length_ASCII apfst_Cons)
next
  case False
  then obtain t where t: "encodeByte c = CHR 0x5C # t" by (auto simp: encodeByte_def split: if_splits)
  have "lexEscape (t @ y) = Some ([c], y)"
  proof (cases "t = [CHR ''u'', CHR ''0'', CHR ''0'', hexDigit (of_char c div 16), hexDigit (of_char c mod 16)]")
    case True
    have small: "(of_char c :: nat) div 16 < 16" "(of_char c :: nat) mod 16 < 16"
      using assms by (auto simp: between_def)
    have "hexValue CHR ''0'' = Some 0" by code_simp
    then have "hex4 (tl t @ y) = Some (of_char c)" by (simp add: True hex4_def hexValue_hexDigit small)
    moreover have "\<not> 0xD800 \<le> (of_char c :: nat)" "(of_char c :: nat) < 0x80" using assms by (auto simp: between_def)
    ultimately show ?thesis by (simp add: True lexEscape_def lexUnicode_def encodeRune_def)
  next
    case False
    with t show ?thesis by (auto simp: encodeByte_def lexEscape_def split: if_splits)
  qed
  from lexString_escape [OF this] show ?thesis by (simp add: t apfst_Cons)
qed


lemma separator_chars: "char_of (226 :: nat) = CHR 0xE2" "char_of (128 :: nat) = CHR 0x80"
    "char_of (168 :: nat) = CHR 0xA8" "char_of (169 :: nat) = CHR 0xA9"
  by code_simp+

lemma lexString_char:
  assumes "utf8Length s \<noteq> 0" and "\<not> between 0 0x7F (hd s)"
  defines "u \<equiv> take (utf8Length s) s"
  shows "lexString (encodeChar u @ y) = map_option (apfst ((@) u)) (lexString y)"
proof -
  consider "u = [CHR 0xE2, CHR 0x80, CHR 0xA8]" | "u = [CHR 0xE2, CHR 0x80, CHR 0xA9]" | "encodeChar u = u"
    by (fastforce simp: encodeChar_def split: if_splits)
  then show ?thesis
  proof cases
    case 1
    have "lexEscape (''u2028'' @ y) = Some (u, y)"
      by (simp add: 1 lexEscape_def hex4_def hexValue_def between_def lexUnicode_def encodeRune_def separator_chars)
    from lexString_escape [OF this] show ?thesis by (simp add: 1 encodeChar_def)
  next
    case 2
    have "lexEscape (''u2029'' @ y) = Some (u, y)"
      by (simp add: 2 lexEscape_def hex4_def hexValue_def between_def lexUnicode_def encodeRune_def separator_chars)
    from lexString_escape [OF this] show ?thesis by (simp add: 2 encodeChar_def)
  next
    case 3
    obtain a r where s: "s = a # r" using assms(1) by (cases s) (auto simp: utf8Length_def)
    then obtain r' where u: "u = a # r'" using assms(1) by (cases "utf8Length s") (auto simp: u_def)
    have "a \<noteq> CHR 0x22" "a \<noteq> CHR 0x5C" "\<not> between 0 0x1F a" using assms(2) by (auto simp: s between_def)
    moreover have n: "utf8Length (u @ y) = utf8Length s" unfolding u_def by (rule utf8Length_take [OF assms(1)])
    moreover have "take (utf8Length s) (u @ y) = u" "drop (utf8Length s) (u @ y) = y"
      unfolding u_def using utf8Length_le [of s] by simp_all
    ultimately show ?thesis unfolding 3 using assms(1)
      by (subst lexString.simps) (simp add: u)
  qed
qed

lemma lexString_encode: "validUtf8 s \<Longrightarrow> lexString (encodeString s @ CHR 0x22 # r) = Some (s, r)"
proof (induction s rule: validUtf8.induct)
  case (1 s)
  show ?case
  proof (cases s)
    case Nil
    then show ?thesis by (simp add: encodeString.simps lexString.simps)
  next
    case (Cons c t)
    with "1.prems" [unfolded validUtf8.simps [of s]] have n: "utf8Length s \<noteq> 0" by (simp split: if_splits)
    with "1.prems" have "validUtf8 (drop (utf8Length s) s)" using validUtf8_head by blast
    with "1.IH" [OF _ n] have ih: "lexString (encodeString (drop (utf8Length s) s) @ CHR 0x22 # r) = Some (drop (utf8Length s) s, r)"
      by (simp add: Cons)
    show ?thesis
    proof (cases "between 0 0x7F c")
      case True
      then have "drop (utf8Length s) s = t" by (simp add: Cons utf8Length_ASCII)
      with ih True show ?thesis
        by (subst encodeString.simps) (simp add: Cons lexString_byte)
    next
      case False
      with n ih lexString_char [OF n] show ?thesis
        by (subst encodeString.simps) (simp add: Cons)
    qed
  qed
qed

text \<open>What is read is valid.\<close>

lemma between_char_of: "m < 256 \<Longrightarrow> between lo hi (char_of m) \<longleftrightarrow> lo \<le> m \<and> m \<le> hi"
  by (simp add: between_def)

lemma char_of_eq: "m < 256 \<Longrightarrow> k < 256 \<Longrightarrow> char_of m = (char_of k :: char) \<longleftrightarrow> m = (k :: nat)"
  by (metis mod_less of_char_of)

lemma tail_chars: "CHR 0xE0 = char_of (0xE0 :: nat)" "CHR 0xED = char_of (0xED :: nat)"
    "CHR 0xF0 = char_of (0xF0 :: nat)" "CHR 0xF4 = char_of (0xF4 :: nat)"
  by code_simp+

lemmas utf8_bytes = validUtf8_head utf8Length_def utf8Tail_def between_char_of char_of_eq tail_chars

lemma valid_two: "2 \<le> a \<Longrightarrow> a < 32 \<Longrightarrow> b < 64 \<Longrightarrow> validUtf8 [char_of (0xC0 + a), char_of (0x80 + b)]"
  for a b :: nat
  by (simp add: utf8_bytes)

lemma valid_single: "utf8Length u = length u \<Longrightarrow> u \<noteq> [] \<Longrightarrow> validUtf8 u"
  by (subst validUtf8_head) simp_all

lemma valid_three:
  fixes q a b :: nat
  assumes "q < 16" "a < 64" "b < 64" "q = 0 \<longrightarrow> 32 \<le> a" "q = 13 \<longrightarrow> a < 32"
  shows "validUtf8 [char_of (0xE0 + q), char_of (0x80 + a), char_of (0x80 + b)]"
proof (rule valid_single)
  have "utf8Tail (char_of (0xE0 + q)) = Some [(if q = 0 then 0xA0 else 0x80, if q = 13 then 0x9F else 0xBF), (0x80, 0xBF)]"
    using assms(1) by (simp add: utf8_bytes)
  moreover have "follows [(if q = 0 then 0xA0 else 0x80, if q = 13 then 0x9F else 0xBF), (0x80, 0xBF)]
      [char_of (0x80 + a), char_of (0x80 + b)]"
    using assms by (auto simp: between_char_of)
  ultimately show "utf8Length [char_of (0xE0 + q), char_of (0x80 + a), char_of (0x80 + b)] =
      length [char_of (0xE0 + q), char_of (0x80 + a), char_of (0x80 + b)]" by (simp add: utf8Length_def)
qed simp

lemma valid_four:
  fixes q a b c :: nat
  assumes "q < 5" "a < 64" "b < 64" "c < 64" "q = 0 \<longrightarrow> 16 \<le> a" "q = 4 \<longrightarrow> a < 16"
  shows "validUtf8 [char_of (0xF0 + q), char_of (0x80 + a), char_of (0x80 + b), char_of (0x80 + c)]"
proof (rule valid_single)
  have "utf8Tail (char_of (0xF0 + q)) =
      Some [(if q = 0 then 0x90 else 0x80, if q = 4 then 0x8F else 0xBF), (0x80, 0xBF), (0x80, 0xBF)]"
    using assms(1) by (simp add: utf8_bytes)
  moreover have "follows [(if q = 0 then 0x90 else 0x80, if q = 4 then 0x8F else 0xBF), (0x80, 0xBF), (0x80, 0xBF)]
      [char_of (0x80 + a), char_of (0x80 + b), char_of (0x80 + c)]"
    using assms by (auto simp: between_char_of)
  ultimately show "utf8Length [char_of (0xF0 + q), char_of (0x80 + a), char_of (0x80 + b), char_of (0x80 + c)] =
      length [char_of (0xF0 + q), char_of (0x80 + a), char_of (0x80 + b), char_of (0x80 + c)]" by (simp add: utf8Length_def)
qed simp

lemma digits_64: "n = 64 * (n div 64) + n mod (64 :: nat)" "n div 64 = 64 * (n div 4096) + n div 64 mod 64"
    "n div 4096 = 64 * (n div 262144) + n div 4096 mod 64"
  using div_mult_mod_eq [of n 64] div_mult_mod_eq [of "n div 64" 64] div_mult_mod_eq [of "n div 4096" 64]
    div_mult2_eq [of n 64 64] div_mult2_eq [of n 4096 64] by (simp_all add: mult.commute)

lemma encodeRune_valid:
  assumes "n < 0x110000" and "\<not> (0xD800 \<le> n \<and> n < 0xE000)"
  shows "validUtf8 (encodeRune n)"
proof -
  define a b c d where "a = n div 262144" and "b = n div 4096" and "c = n div 64" and "d = n mod 64"
  have n: "n = 64 * c + d" "c = 64 * b + c mod 64" "b = 64 * a + b mod 64"
    using digits_64 [of n] by (simp_all add: a_def b_def c_def d_def)
  have lt: "d < 64" "c mod 64 < 64" "b mod 64 < 64" by (simp_all add: d_def)
  note eq = encodeRune_def a_def [symmetric] b_def [symmetric] c_def [symmetric] d_def [symmetric]
  consider "n < 0x80" | "0x80 \<le> n" "n < 0x800" | "0x800 \<le> n" "n < 0x10000" | "0x10000 \<le> n" by linarith
  then show ?thesis
  proof cases
    case 1
    then show ?thesis by (simp add: encodeRune_def utf8_bytes)
  next
    case 2
    then have "2 \<le> c" "c < 32" using n(1) lt(1) by linarith+
    with valid_two lt(1) 2 show ?thesis by (simp add: eq)
  next
    case 3
    have "b < 16" "b = 0 \<longrightarrow> 32 \<le> c mod 64" "b = 13 \<longrightarrow> c mod 64 < 32" using n lt 3 assms(2) by linarith+
    with valid_three lt 3 show ?thesis by (simp add: eq)
  next
    case 4
    have "a < 5" "a = 0 \<longrightarrow> 16 \<le> b mod 64" "a = 4 \<longrightarrow> b mod 64 < 16" using n lt 4 assms(1) by linarith+
    with valid_four lt 4 show ?thesis by (simp add: eq)
  qed
qed


lemma replacement_valid: "validUtf8 replacement"
  by (simp add: replacement_def validUtf8_head utf8Length_def utf8Tail_def between_def)

lemma hexValue_less: "hexValue c = Some n \<Longrightarrow> n < 16"
  by (auto simp: hexValue_def between_def split: if_splits)

lemma hex4_less:
  assumes "hex4 s = Some n"
  shows "n < 0x10000"
proof -
  obtain i j k l where "n = 4096 * i + 256 * j + 16 * k + l" "i < 16" "j < 16" "k < 16" "l < 16"
    using assms by (auto simp: hex4_def split: list.splits option.splits dest!: hexValue_less)
  then show ?thesis by linarith
qed

lemma lowSurrogate_range: "lowSurrogate s = Some m \<Longrightarrow> 0xDC00 \<le> m \<and> m < 0xE000"
  by (auto simp: lowSurrogate_def split: list.splits if_splits option.splits)

lemma lexUnicode_valid:
  assumes "n < 0x10000"
  shows "validUtf8 (fst (lexUnicode n r))"
proof (cases "0xD800 \<le> n \<and> n < 0xE000")
  case True
  show ?thesis
  proof (cases "lowSurrogate r")
    case (Some m)
    have "validUtf8 (encodeRune (0x10000 + 1024 * (n - 0xD800) + (m - 0xDC00)))" if "n < 0xDC00"
      by (rule encodeRune_valid) (use lowSurrogate_range [OF Some] that in auto)
    then show ?thesis using True Some by (simp add: lexUnicode_def replacement_valid)
  qed (use True in \<open>simp add: lexUnicode_def replacement_valid\<close>)
next
  case False
  from encodeRune_valid [OF _ this] assms show ?thesis unfolding lexUnicode_def if_not_P [OF False] by simp
qed

lemma lexEscape_valid: "lexEscape s = Some (out, r) \<Longrightarrow> validUtf8 out"
  using lexUnicode_valid [OF hex4_less, of "tl s" _ "drop 4 (tl s)"]
  by (auto simp: lexEscape_def validUtf8_ASCII between_def split: list.splits if_splits option.splits)

lemma lexString_valid: "lexString s = Some (x, r) \<Longrightarrow> validUtf8 x"
proof (induction "length s" arbitrary: s x r rule: less_induct)
  case less
  from less.prems show ?case
  proof (cases rule: lexString_cases)
    case (escape t out t' y)
    from lexEscape_rest [OF escape(2)] have "length t' < length s" by (simp add: escape(1))
    from less.hyps [OF this escape(3)] lexEscape_valid [OF escape(2)] show ?thesis
      by (simp add: escape(4) validUtf8_append)
  next
    case (replaced c t y)
    then have "length t < length s" by simp
    from less.hyps [OF this replaced(6)] replacement_valid show ?thesis
      by (simp add: replaced(7) validUtf8_append)
  next
    case (kept c t y)
    then have "length (drop (utf8Length s) s) < length s" by simp
    from less.hyps [OF this kept(6)] validUtf8_take [OF kept(5)] show ?thesis
      by (simp add: kept(7) validUtf8_append)
  qed simp
qed

subsection \<open>Numbers\<close>

text \<open>What may follow a number inside a value.\<close>

definition endsNumber :: "string \<Rightarrow> bool" where
  "endsNumber d \<longleftrightarrow> d = [] \<or> \<not> isDigit (hd d) \<and> hd d \<notin> {CHR ''.'', CHR ''e'', CHR ''E'', CHR ''+'', CHR ''-''}"

lemma dropWhile_append_ends: "endsNumber d \<Longrightarrow> dropWhile isDigit (r @ d) = dropWhile isDigit r @ d"
  by (induction r) (cases d; auto simp: endsNumber_def)+

lemma skipDigits_append: "endsNumber d \<Longrightarrow> skipDigits s = Some r \<Longrightarrow> skipDigits (s @ d) = Some (r @ d)"
  by (auto simp: skipDigits_def dropWhile_append_ends split: list.splits if_splits)

lemma skipInteger_append: "endsNumber d \<Longrightarrow> skipInteger s = Some r \<Longrightarrow> skipInteger (s @ d) = Some (r @ d)"
  by (auto simp: skipInteger_def dropWhile_append_ends split: list.splits if_splits)

lemma skipFraction_append: "endsNumber d \<Longrightarrow> skipFraction s = Some r \<Longrightarrow> skipFraction (s @ d) = Some (r @ d)"
  by (cases s; cases d) (auto simp: skipFraction_def endsNumber_def skipDigits_append split: if_splits)

lemma skipExponent_append:
  assumes "endsNumber d" and "skipExponent s = Some r"
  shows "skipExponent (s @ d) = Some (r @ d)"
proof (cases s)
  case Nil
  with assms show ?thesis by (cases d) (auto simp: skipExponent_def endsNumber_def)
next
  case (Cons c t)
  have "skipSign (t @ d) = skipSign t @ d" if "skipDigits (skipSign t) = Some r"
    using that assms(1) by (cases t; cases d) (auto simp: skipSign_def skipDigits_def endsNumber_def)
  then show ?thesis using assms skipDigits_append [OF assms(1), of "skipSign t" r]
    by (auto simp: Cons skipExponent_def split: if_splits)
qed

lemma skipNumber_append:
  assumes "endsNumber d" and "skipNumber s = Some r"
  shows "skipNumber (s @ d) = Some (r @ d)"
proof -
  obtain r1 r2 where r: "skipInteger (skipMinus s) = Some r1" "skipFraction r1 = Some r2" "skipExponent r2 = Some r"
    using assms(2) by (auto simp: skipNumber_def bind_eq_Some_conv)
  have "skipMinus (s @ d) = skipMinus s @ d" using r(1) by (cases s) (auto simp: skipInteger_def skipMinus_def)
  with r show ?thesis
    using skipInteger_append [OF assms(1)] skipFraction_append [OF assms(1)] skipExponent_append [OF assms(1)]
    by (simp add: skipNumber_def)
qed

lemma lexNumber_append:
  assumes "lexNumber t = Some (t, [])" and "endsNumber d"
  shows "lexNumber (t @ d) = Some (t, d)"
  using skipNumber_append [OF assms(2), of t "[]"] assms(1) by (auto simp: lexNumber_def)

text \<open>Every part takes a piece from the front, and takes the same piece when less follows it.\<close>

lemma dropWhile_piece:
  assumes "dropWhile P (p @ q @ r) = q @ r"
  shows "dropWhile P (p @ q) = q"
proof -
  have "takeWhile P (p @ q @ r) = p" using takeWhile_dropWhile_id [of P "p @ q @ r"] assms by simp
  then have "\<forall>c \<in> set p. P c" by (metis set_takeWhileD)
  moreover have "q = [] \<or> \<not> P (hd q)" using hd_dropWhile [of P "p @ q @ r"] assms by auto
  ultimately show ?thesis by (cases q) auto
qed

lemma skipDigits_piece:
  assumes "skipDigits (p @ q @ r) = Some (q @ r)"
  shows "p \<noteq> []" and "skipDigits (p @ q) = Some q"
proof -
  show p: "p \<noteq> []" using skipDigits_rest [OF assms] by auto
  show "skipDigits (p @ q) = Some q"
    using assms p dropWhile_piece [of isDigit "tl p" q r] by (cases p) (auto simp: skipDigits_def split: if_splits)
qed

lemma skipInteger_piece:
  assumes "skipInteger (p @ q @ r) = Some (q @ r)"
  shows "p \<noteq> []" and "skipInteger (p @ q) = Some q"
proof -
  show p: "p \<noteq> []" using skipInteger_rest [OF assms] by auto
  show "skipInteger (p @ q) = Some q"
    using assms p dropWhile_piece [of isDigit "tl p" q r] by (cases p) (auto simp: skipInteger_def split: if_splits)
qed

lemma skipFraction_piece:
  assumes "skipFraction (p @ q @ r) = Some (q @ r)"
  shows "skipFraction (p @ q) = Some q"
proof (cases p)
  case Nil
  then show ?thesis using assms skipDigits_rest [of "tl q @ r" "q @ r"] by (cases q) (auto simp: skipFraction_def split: if_splits)
next
  case (Cons c t)
  then show ?thesis using assms skipDigits_piece(2) [of t q r]
    by (auto simp: skipFraction_def split: if_splits)
qed

lemma skipSign_suffix: "\<exists>p. s = p @ skipSign s"
  by (cases s) (auto simp: skipSign_def)

lemma skipSign_length: "length (skipSign s) \<le> length s"
  using skipSign_suffix [of s] by (metis le_add2 length_append)

lemma skipExponent_piece:
  assumes "skipExponent (p @ q @ r) = Some (q @ r)"
  shows "skipExponent (p @ q) = Some q"
proof (cases p)
  case Nil
  show ?thesis
  proof (cases q)
    case (Cons c t)
    then have "\<not> (c = CHR ''e'' \<or> c = CHR ''E'')"
      using assms Nil skipDigits_rest [of "skipSign (t @ r)" "q @ r"] skipSign_length [of "t @ r"]
      by (auto simp: skipExponent_def)
    then show ?thesis using Nil Cons by (simp add: skipExponent_def)
  qed (simp add: Nil skipExponent_def)
next
  case (Cons c t)
  show ?thesis
  proof (cases "c = CHR ''e'' \<or> c = CHR ''E''")
    case True
    with assms have d: "skipDigits (skipSign (t @ q @ r)) = Some (q @ r)" by (simp add: Cons skipExponent_def)
    from skipDigits_rest [OF d] skipSign_length [of "q @ r"] obtain a t' where t: "t = a # t'"
      by (cases t) auto
    show ?thesis
    proof (cases "a = CHR ''+'' \<or> a = CHR ''-''")
      case sign: True
      from d have "skipDigits (t' @ q @ r) = Some (q @ r)" using sign by (simp add: t skipSign_def)
      from skipDigits_piece(2) [OF this] sign show ?thesis using True by (simp add: Cons t skipExponent_def skipSign_def)
    next
      case False
      from d have "skipDigits (t @ q @ r) = Some (q @ r)" using False by (simp add: t skipSign_def)
      from skipDigits_piece(2) [OF this] False show ?thesis using True by (simp add: Cons t skipExponent_def skipSign_def)
    qed
  qed (use assms in \<open>auto simp: Cons skipExponent_def\<close>)
qed

lemma suffix_dropWhile: "\<exists>p. s = p @ dropWhile P s"
  by (metis takeWhile_dropWhile_id)

lemma skipDigits_suffix: "skipDigits s = Some r \<Longrightarrow> \<exists>p. s = p @ r"
  using suffix_dropWhile [of "tl s" isDigit] by (auto simp: skipDigits_def split: list.splits if_splits)

lemma skipInteger_suffix: "skipInteger s = Some r \<Longrightarrow> \<exists>p. s = p @ r"
  using suffix_dropWhile [of "tl s" isDigit] by (auto simp: skipInteger_def split: list.splits if_splits)

lemma skipFraction_suffix: "skipFraction s = Some r \<Longrightarrow> \<exists>p. s = p @ r"
  by (auto simp: skipFraction_def split: list.splits if_splits dest!: skipDigits_suffix)

lemma skipExponent_suffix: "skipExponent s = Some r \<Longrightarrow> \<exists>p. s = p @ r"
  using skipSign_suffix [of "tl s"]
  by (auto simp: skipExponent_def split: list.splits if_splits dest!: skipDigits_suffix)

text \<open>The text of a number that was read is a number.\<close>

lemma lexNumber_token:
  assumes "lexNumber s = Some (t, r)"
  shows "s = t @ r \<and> lexNumber t = Some (t, [])"
proof -
  obtain r1 r2 where r: "skipInteger (skipMinus s) = Some r1" "skipFraction r1 = Some r2" "skipExponent r2 = Some r"
    using assms by (auto simp: lexNumber_def skipNumber_def bind_eq_Some_conv)
  obtain p1 p2 p3 where p: "skipMinus s = p1 @ r1" "r1 = p2 @ r2" "r2 = p3 @ r"
    using skipInteger_suffix [OF r(1)] skipFraction_suffix [OF r(2)] skipExponent_suffix [OF r(3)] by blast
  let ?t = "p1 @ p2 @ p3"
  have pieces: "p1 \<noteq> []" "skipInteger ?t = Some (p2 @ p3)" "skipFraction (p2 @ p3) = Some p3" "skipExponent p3 = Some []"
    using skipInteger_piece [of p1 "p2 @ p3" r] skipFraction_piece [of p2 p3 r] skipExponent_piece [of p3 "[]" r] r
    by (simp_all add: p)
  obtain m where m: "s = m @ skipMinus s" "skipMinus (m @ ?t) = ?t"
  proof (cases "s \<noteq> [] \<and> hd s = CHR ''-''")
    case True
    then show ?thesis using that [of "[CHR ''-'']"] by (cases s) (auto simp: skipMinus_def)
  next
    case False
    then have same: "skipMinus s = s" by (cases s) (auto simp: skipMinus_def)
    with False p pieces(1) have "skipMinus ?t = ?t" by (cases p1) (auto simp: skipMinus_def)
    then show ?thesis using that [of "[]"] same by simp
  qed
  have "skipNumber (m @ ?t) = Some []" using m(2) pieces by (simp add: skipNumber_def)
  moreover have s: "s = (m @ ?t) @ r" using m(1) p by (metis append_assoc)
  moreover have "t = m @ ?t" using assms s by (auto simp: lexNumber_def)
  ultimately show ?thesis by (simp add: lexNumber_def)
qed


subsection \<open>Values\<close>

text \<open>The values that have a text: valid strings, number texts, and no deeper than the scanner goes.\<close>

fun depthOf :: "json \<Rightarrow> nat" where
  "depthOf (JArr xs) = Suc (foldr max (map depthOf xs) 0)"
| "depthOf (JObj ms) = Suc (foldr max (map (depthOf \<circ> snd) ms) 0)"
| "depthOf _ = 0"

fun textual :: "json \<Rightarrow> bool" where
  "textual (JNum t) \<longleftrightarrow> lexNumber t = Some (t, [])"
| "textual (JStr s) \<longleftrightarrow> validUtf8 s"
| "textual (JArr xs) \<longleftrightarrow> list_all textual xs"
| "textual (JObj ms) \<longleftrightarrow> list_all (\<lambda>(k, v). validUtf8 k \<and> textual v) ms"
| "textual _ \<longleftrightarrow> True"

lemma foldr_max_le: "foldr max ns 0 \<le> (m :: nat) \<longleftrightarrow> (\<forall>n \<in> set ns. n \<le> m)"
  by (induction ns) auto

lemma parseLoop_step:
  "\<not> isSpace c \<Longrightarrow> scan fs e c r = Some (fs', e', r') \<Longrightarrow> parseLoop fs e (c # r) = parseLoop fs' e' r'"
  by (simp add: parseLoop.simps [of _ _ "c # r"])

text \<open>What may follow a value in a container or at the end.\<close>

definition endsValue :: "string \<Rightarrow> bool" where
  "endsValue d \<longleftrightarrow> d = [] \<or> hd d \<in> {CHR '','', CHR '']'', CHR ''}''}"

lemma endsValue_number: "endsValue d \<Longrightarrow> endsNumber d"
  by (auto simp: endsValue_def endsNumber_def isDigit_def)

lemma isDigit_0: "isDigit CHR ''0''"
  by (simp add: isDigit_def)

lemma skipNumber_head: "skipNumber t = Some r \<Longrightarrow> \<exists>c u. t = c # u \<and> (c = CHR ''-'' \<or> isDigit c)"
  by (cases t) (auto simp: skipNumber_def skipMinus_def skipInteger_def bind_eq_Some_conv isDigit_0 split: if_splits)

lemma lexScalar_render:
  assumes "textual j" and "depthOf j = 0" and "endsValue d"
  shows "lexScalar (renderJSON j @ d) = Some (j, d)"
proof (cases j)
  case (JNum t)
  with assms(1) have t: "lexNumber t = Some (t, [])" by simp
  then have n: "skipNumber t = Some []" by (auto simp: lexNumber_def)
  from skipNumber_head [OF n] obtain c u where c: "t = c # u" "c = CHR ''-'' \<or> isDigit c" by blast
  then have "c \<noteq> CHR 0x22" "c \<noteq> CHR ''t''" "c \<noteq> CHR ''f''" "c \<noteq> CHR ''n''" by (auto simp: isDigit_def)
  with lexNumber_append [OF t endsValue_number [OF assms(3)]] show ?thesis
    by (simp add: lexScalar_def JNum c(1))
next
  case (JStr s)
  with assms(1) lexString_encode [of s d] show ?thesis by (simp add: lexScalar_def quoted_def)
qed (use assms(2) in \<open>auto simp: lexScalar_def\<close>)


text \<open>Every text of a value starts with a byte that starts a value.\<close>

lemma render_head:
  assumes "textual j"
  shows "\<exists>c u. renderJSON j = c # u \<and> \<not> isSpace c \<and> c \<noteq> CHR '']'' \<and>
    (c = CHR ''['' \<longrightarrow> (\<exists>xs. j = JArr xs)) \<and> (c = CHR ''{'' \<longrightarrow> (\<exists>ms. j = JObj ms))"
proof (cases j)
  case (JNum t)
  with assms have "skipNumber t = Some []" by (auto simp: lexNumber_def)
  from skipNumber_head [OF this] show ?thesis by (auto simp: JNum isSpace_def isDigit_def)
qed (auto simp: quoted_def isSpace_def)

text \<open>A value is expected, at the start of an array or elsewhere.\<close>

definition wantsValue :: "frame list \<Rightarrow> expects \<Rightarrow> bool" where
  "wantsValue fs e \<longleftrightarrow> e = Value \<or> e = FirstValue \<and> (\<exists>vs fs'. fs = ArrayFrame vs # fs')"

lemma scan_wantsValue: "wantsValue fs e \<Longrightarrow> c \<noteq> CHR '']'' \<Longrightarrow> scan fs e c r = scanValue fs c r"
  by (auto simp: wantsValue_def scan_def closes_def)

definition reads :: "json \<Rightarrow> bool" where
  "reads j \<longleftrightarrow> (\<forall>fs e d. textual j \<longrightarrow> depthOf j + length fs \<le> maxNestingDepth \<longrightarrow> endsValue d \<longrightarrow> wantsValue fs e
     \<longrightarrow> parseLoop fs e (renderJSON j @ d) = parseLoop fs (After j) d)"

lemma readsD: "reads j \<Longrightarrow> textual j \<Longrightarrow> depthOf j + length fs \<le> maxNestingDepth \<Longrightarrow> endsValue d \<Longrightarrow> wantsValue fs e
    \<Longrightarrow> parseLoop fs e (renderJSON j @ d) = parseLoop fs (After j) d"
  by (simp add: reads_def)

lemma reads_scalar:
  assumes "depthOf j = 0"
  shows "reads j"
  unfolding reads_def
proof (intro allI impI)
  fix fs e d assume j: "textual j" and d: "endsValue d" and w: "wantsValue fs e"
  obtain c u where c: "renderJSON j = c # u" "\<not> isSpace c" "c \<noteq> CHR '']''" "c \<noteq> CHR ''[''" "c \<noteq> CHR ''{''"
    using render_head [OF j] assms by fastforce
  have "scan fs e c (u @ d) = Some (fs, After j, d)"
    using lexScalar_render [OF j assms d] c by (simp add: scan_wantsValue [OF w c(3)] scanValue_def)
  then show "parseLoop fs e (renderJSON j @ d) = parseLoop fs (After j) d"
    by (simp add: c(1) parseLoop_step [OF c(2)])
qed

lemma ends_comma [simp]: "endsValue (CHR '','' # r)" "endsValue (CHR '']'' # r)" "endsValue (CHR ''}'' # r)"
  by (simp_all add: endsValue_def)

lemma commaList_Cons: "commaList (x # xs) = x @ (if xs = [] then [] else CHR '','' # commaList xs)"
  by (cases xs) simp_all

lemma reads_elements:
  assumes "\<And>x. x \<in> set xs \<Longrightarrow> reads x \<and> textual x \<and> depthOf x + Suc (length fs) \<le> maxNestingDepth"
    and "xs \<noteq> []" and "wantsValue (ArrayFrame vs # fs) e"
  shows "parseLoop (ArrayFrame vs # fs) e (commaList (map renderJSON xs) @ CHR '']'' # d) =
    parseLoop fs (After (JArr (vs @ xs))) d"
  using assms
proof (induction xs arbitrary: vs e)
  case (Cons x xs)
  let ?rest = "(if xs = [] then [] else CHR '','' # commaList (map renderJSON xs)) @ CHR '']'' # d"
  have "parseLoop (ArrayFrame vs # fs) e (renderJSON x @ ?rest) = parseLoop (ArrayFrame vs # fs) (After x) ?rest"
    by (rule readsD) (use Cons.prems in auto)
  moreover have "parseLoop (ArrayFrame vs # fs) (After x) ?rest = parseLoop fs (After (JArr (vs @ x # xs))) d"
  proof (cases "xs = []")
    case True
    have "scan (ArrayFrame vs # fs) (After x) CHR '']'' d = Some (fs, After (JArr (vs @ [x])), d)"
      by (simp add: scan_def scanAfter_def closes_def closed_def extended_def)
    with True show ?thesis by (simp add: parseLoop_step isSpace_def)
  next
    case False
    have "scan (ArrayFrame vs # fs) (After x) CHR '','' r = Some (ArrayFrame (vs @ [x]) # fs, Value, r)" for r
      by (simp add: scan_def scanAfter_def extended_def nextOf_def)
    with False Cons.IH [of "vs @ [x]" Value] Cons.prems(1) show ?thesis
      by (simp add: parseLoop_step isSpace_def wantsValue_def)
  qed
  ultimately show ?case by (simp add: commaList_Cons)
qed simp

lemma reads_array:
  assumes "\<And>x. x \<in> set xs \<Longrightarrow> reads x"
  shows "reads (JArr xs)"
  unfolding reads_def
proof (intro allI impI)
  fix fs e d
  assume j: "textual (JArr xs)" and deep: "depthOf (JArr xs) + length fs \<le> maxNestingDepth" and w: "wantsValue fs e"
  have room: "length fs < maxNestingDepth" using deep by simp
  have "foldr max (map depthOf xs) 0 \<le> maxNestingDepth - Suc (length fs)" using deep by simp
  then have "depthOf x \<le> maxNestingDepth - Suc (length fs)" if "x \<in> set xs" for x using that by (simp add: foldr_max_le)
  then have fits: "depthOf x + Suc (length fs) \<le> maxNestingDepth" if "x \<in> set xs" for x using that room by fastforce
  have opened: "parseLoop fs e (CHR ''['' # r) = parseLoop (ArrayFrame [] # fs) FirstValue r" for r
    by (rule parseLoop_step) (use room in \<open>simp_all add: isSpace_def scan_wantsValue [OF w] scanValue_def\<close>)
  show "parseLoop fs e (renderJSON (JArr xs) @ d) = parseLoop fs (After (JArr xs)) d"
  proof (cases "xs = []")
    case True
    have "scan (ArrayFrame [] # fs) FirstValue CHR '']'' d = Some (fs, After (JArr []), d)"
      by (simp add: scan_def closes_def closed_def)
    then show ?thesis by (simp add: True opened parseLoop_step isSpace_def)
  next
    case False
    have "reads x \<and> textual x \<and> depthOf x + Suc (length fs) \<le> maxNestingDepth" if "x \<in> set xs" for x
      using assms fits j that by (simp add: list_all_iff)
    from reads_elements [OF this False, where vs = "[]" and e = FirstValue and d = d] show ?thesis
      by (simp add: opened wantsValue_def)
  qed
qed


text \<open>A member: its name, the colon and its value.\<close>

definition renderMember :: "string \<times> json \<Rightarrow> string" where
  "renderMember m = quoted (fst m) @ CHR '':'' # renderJSON (snd m)"

lemma renderMember_map: "(\<lambda>(k, v). quoted k @ CHR '':'' # renderJSON v) = renderMember"
  by (auto simp: renderMember_def fun_eq_iff)

lemma reads_member:
  assumes "e = NextKey \<or> e = FirstKey" and "validUtf8 k" and "reads v" and "textual v"
    and "depthOf v + Suc (length fs) \<le> maxNestingDepth" and "endsValue d"
  shows "parseLoop (ObjectFrame ms k0 # fs) e (renderMember (k, v) @ d) = parseLoop (ObjectFrame ms k # fs) (After v) d"
proof -
  let ?r = "CHR '':'' # renderJSON v @ d"
  have "scan (ObjectFrame ms k0 # fs) e CHR 0x22 (encodeString k @ CHR 0x22 # ?r) = Some (ObjectFrame ms k # fs, Colon, ?r)"
    using assms(1) lexString_encode [OF assms(2), of ?r] by (auto simp: scan_def scanKey_def closes_def)
  then have "parseLoop (ObjectFrame ms k0 # fs) e (renderMember (k, v) @ d) = parseLoop (ObjectFrame ms k # fs) Colon ?r"
    by (simp add: renderMember_def quoted_def parseLoop_step isSpace_def)
  also have "\<dots> = parseLoop (ObjectFrame ms k # fs) Value (renderJSON v @ d)"
    by (rule parseLoop_step) (simp_all add: isSpace_def scan_def)
  also have "\<dots> = parseLoop (ObjectFrame ms k # fs) (After v) d"
    by (rule readsD) (use assms in \<open>simp_all add: wantsValue_def\<close>)
  finally show ?thesis .
qed

lemma reads_members:
  assumes "\<And>k v. (k, v) \<in> set new \<Longrightarrow>
      validUtf8 k \<and> reads v \<and> textual v \<and> depthOf v + Suc (length fs) \<le> maxNestingDepth"
    and "new \<noteq> []" and "e = NextKey \<or> e = FirstKey"
  shows "parseLoop (ObjectFrame ms k0 # fs) e (commaList (map renderMember new) @ CHR ''}'' # d) =
    parseLoop fs (After (JObj (ms @ new))) d"
  using assms
proof (induction new arbitrary: ms k0 e)
  case (Cons m new)
  obtain k v where m: "m = (k, v)" by (cases m)
  let ?rest = "(if new = [] then [] else CHR '','' # commaList (map renderMember new)) @ CHR ''}'' # d"
  have "parseLoop (ObjectFrame ms k0 # fs) e (renderMember (k, v) @ ?rest) = parseLoop (ObjectFrame ms k # fs) (After v) ?rest"
    by (rule reads_member) (use Cons.prems m in auto)
  moreover have "parseLoop (ObjectFrame ms k # fs) (After v) ?rest = parseLoop fs (After (JObj (ms @ m # new))) d"
  proof (cases "new = []")
    case True
    have "scan (ObjectFrame ms k # fs) (After v) CHR ''}'' d = Some (fs, After (JObj (ms @ [m])), d)"
      by (simp add: scan_def scanAfter_def closes_def closed_def extended_def m)
    with True show ?thesis by (simp add: parseLoop_step isSpace_def)
  next
    case False
    have "scan (ObjectFrame ms k # fs) (After v) CHR '','' r = Some (ObjectFrame (ms @ [m]) [] # fs, NextKey, r)" for r
      by (simp add: scan_def scanAfter_def extended_def nextOf_def m)
    moreover have "parseLoop (ObjectFrame (ms @ [m]) [] # fs) NextKey (commaList (map renderMember new) @ CHR ''}'' # d) =
        parseLoop fs (After (JObj ((ms @ [m]) @ new))) d"
      by (rule Cons.IH) (use Cons.prems(1) False in auto)
    ultimately show ?thesis using False by (simp add: parseLoop_step isSpace_def)
  qed
  ultimately show ?case by (simp add: commaList_Cons m)
qed simp

lemma reads_object:
  assumes "\<And>k v. (k, v) \<in> set ms \<Longrightarrow> reads v"
  shows "reads (JObj ms)"
  unfolding reads_def
proof (intro allI impI)
  fix fs e d
  assume j: "textual (JObj ms)" and deep: "depthOf (JObj ms) + length fs \<le> maxNestingDepth" and w: "wantsValue fs e"
  have room: "length fs < maxNestingDepth" using deep by simp
  have "foldr max (map (depthOf \<circ> snd) ms) 0 \<le> maxNestingDepth - Suc (length fs)" using deep by simp
  then have "depthOf v \<le> maxNestingDepth - Suc (length fs)" if "(k, v) \<in> set ms" for k v
    using that by (auto simp: foldr_max_le)
  then have fits: "depthOf v + Suc (length fs) \<le> maxNestingDepth" if "(k, v) \<in> set ms" for k v
    using that room by fastforce
  have opened: "parseLoop fs e (CHR ''{'' # r) = parseLoop (ObjectFrame [] [] # fs) FirstKey r" for r
    by (rule parseLoop_step) (use room in \<open>simp_all add: isSpace_def scan_wantsValue [OF w] scanValue_def\<close>)
  show "parseLoop fs e (renderJSON (JObj ms) @ d) = parseLoop fs (After (JObj ms)) d"
  proof (cases "ms = []")
    case True
    have "scan (ObjectFrame [] [] # fs) FirstKey CHR ''}'' d = Some (fs, After (JObj []), d)"
      by (simp add: scan_def closes_def closed_def)
    then show ?thesis by (simp add: True opened parseLoop_step isSpace_def)
  next
    case False
    have "validUtf8 k \<and> reads v \<and> textual v \<and> depthOf v + Suc (length fs) \<le> maxNestingDepth" if "(k, v) \<in> set ms" for k v
      using assms fits j that by (auto simp: list_all_iff)
    from reads_members [OF this False, where ms = "[]" and e = FirstKey and d = d and ?k0.0 = "[]"] show ?thesis
      by (simp add: opened renderMember_map)
  qed
qed

lemma reads_all: "reads j"
proof (induction j)
  case (JArr xs)
  then show ?case by (rule reads_array)
next
  case (JObj ms)
  then show ?case by (intro reads_object) (auto simp: snds.simps)
qed (simp_all add: reads_scalar)

lemma parse_render: "textual j \<Longrightarrow> depthOf j \<le> maxNestingDepth \<Longrightarrow> parseJSON (renderJSON j) = Some j"
  using readsD [OF reads_all, of j "[]" "[]" Value]
  by (simp add: parseJSON_def endsValue_def wantsValue_def parseLoop.simps)

subsection \<open>What is read can be printed\<close>

definition frameOk :: "nat \<Rightarrow> frame \<Rightarrow> bool" where
  "frameOk n f \<longleftrightarrow> textual (closed f) \<and> depthOf (closed f) \<le> n \<and>
     (case f of ArrayFrame vs \<Rightarrow> True | ObjectFrame ms k \<Rightarrow> validUtf8 k)"

text \<open>The open containers, the innermost first: each holds values that fit under it.\<close>

fun framesOk :: "frame list \<Rightarrow> bool" where
  "framesOk [] = True"
| "framesOk (f # fs) \<longleftrightarrow> framesOk fs \<and> length fs < maxNestingDepth \<and> frameOk (maxNestingDepth - length fs) f"

definition stateOk :: "frame list \<Rightarrow> expects \<Rightarrow> bool" where
  "stateOk fs e \<longleftrightarrow> framesOk fs \<and> (case e of After j \<Rightarrow> textual j \<and> depthOf j \<le> maxNestingDepth - length fs | _ \<Rightarrow> True)"

lemma lexScalar_ok: "lexScalar s = Some (j, r) \<Longrightarrow> textual j \<and> depthOf j = 0"
  by (auto simp: lexScalar_def dest: lexString_valid lexNumber_token split: if_splits)

lemma frameOk_new: "0 < n \<Longrightarrow> frameOk n (ArrayFrame [])" "0 < n \<Longrightarrow> frameOk n (ObjectFrame [] [])"
  by (simp_all add: frameOk_def closed_def)

lemma foldr_max_snoc: "foldr max (ns @ [n]) 0 = max (foldr max ns 0) (n :: nat)"
  by (induction ns) auto

lemma frameOk_extended:
  "frameOk n f \<Longrightarrow> textual j \<Longrightarrow> Suc (depthOf j) \<le> n \<Longrightarrow> frameOk n (extended j f)"
  by (cases f) (auto simp: frameOk_def extended_def closed_def foldr_max_snoc simp del: foldr_append)

lemma scanValue_ok:
  assumes "framesOk fs" and "scanValue fs c r = Some (fs', e', r')"
  shows "stateOk fs' e'"
  using assms
  by (auto simp: scanValue_def stateOk_def frameOk_new dest!: lexScalar_ok split: if_splits)

lemma scanKey_ok:
  assumes "framesOk fs" and "scanKey fs c r = Some (fs', e', r')"
  shows "stateOk fs' e'"
  using assms
  by (auto simp: scanKey_def stateOk_def frameOk_def closed_def dest!: lexString_valid split: list.splits frame.splits if_splits)

lemma closing_ok: "framesOk (f # fs) \<Longrightarrow> stateOk fs (After (closed f))"
  by (simp add: stateOk_def frameOk_def)

lemma scanAfter_ok:
  assumes "stateOk fs (After j)" and "scanAfter fs j c r = Some (fs', e', r')"
  shows "stateOk fs' e'"
proof -
  obtain f fs0 where fs: "fs = f # fs0" using assms(2) by (cases fs) (auto simp: scanAfter_def)
  have "framesOk (extended j f # fs0)" using assms(1) by (auto simp: fs stateOk_def intro!: frameOk_extended)
  moreover have "stateOk (extended j f # fs0) (nextOf f)" if "framesOk (extended j f # fs0)"
    using that by (cases f) (simp_all add: stateOk_def nextOf_def)
  ultimately show ?thesis using assms(2) closing_ok by (auto simp: scanAfter_def fs split: if_splits)
qed

lemma scan_ok:
  assumes "stateOk fs e" and "scan fs e c r = Some (fs', e', r')"
  shows "stateOk fs' e'"
proof -
  have fs: "framesOk fs" using assms(1) by (simp add: stateOk_def)
  show ?thesis
  proof (cases e)
    case (After j)
    with assms scanAfter_ok show ?thesis by (simp add: scan_def)
  next
    case Colon
    with assms show ?thesis by (auto simp: scan_def stateOk_def split: if_splits)
  qed (use assms fs closing_ok scanValue_ok scanKey_ok in \<open>auto simp: scan_def simp del: framesOk.simps split: list.splits if_splits\<close>)
qed

lemma parseLoop_ok: "stateOk fs e \<Longrightarrow> parseLoop fs e s = Some j \<Longrightarrow> textual j \<and> depthOf j \<le> maxNestingDepth"
proof (induction fs e s rule: parseLoop.induct)
  case (1 fs e s)
  show ?case
  proof (cases s)
    case Nil
    with "1.prems" show ?thesis by (auto simp: parseLoop.simps stateOk_def split: expects.splits if_splits)
  next
    case (Cons c r)
    show ?thesis
    proof (cases "isSpace c")
      case True
      with "1.IH"(1) [OF Cons] "1.prems" show ?thesis by (simp add: Cons parseLoop.simps [of _ _ "c # r"])
    next
      case False
      with "1.prems"(2) obtain fs' e' r' where step: "scan fs e c r = Some (fs', e', r')"
        by (auto simp: Cons parseLoop.simps [of _ _ "c # r"] split: option.splits)
      from "1.IH"(2) [OF Cons False step refl refl] scan_ok [OF "1.prems"(1) step] "1.prems"(2)
      show ?thesis using parseLoop_step [OF False step] by (simp add: Cons)
    qed
  qed
qed

lemma parse_textual: "parseJSON s = Some j \<Longrightarrow> textual j \<and> depthOf j \<le> maxNestingDepth"
  using parseLoop_ok [of "[]" Value s j] by (simp add: parseJSON_def stateOk_def)

end
