(* ===== verification/TextBoundaryProps.thy ===== *)
theory TextBoundaryProps
  imports TextBoundary JsonTextProps RulesJsonProps EventsProps
begin

text \<open>
  What holds of the texts at the boundaries: rules survive being printed and read, what is read is
  valid UTF-8, and reading is stable under printing.
\<close>

subsection \<open>Texts in values\<close>

lemma textual_member: "textual (JObj ms) \<Longrightarrow> (k, v) \<in> set ms \<Longrightarrow> validUtf8 k \<and> textual v"
  by (auto simp: list_all_iff)

lemma textual_string: "textual j \<Longrightarrow> asString j = Some s \<Longrightarrow> validUtf8 s"
  by (cases j) simp_all

lemma textual_strings: "textual j \<Longrightarrow> asStrings j = Some ss \<Longrightarrow> list_all validUtf8 ss"
proof (cases j)
  case (JArr xs)
  assume j: "textual j" and "asStrings j = Some ss"
  then have "map stringElement xs = map Some ss" by (simp add: JArr sequenceOpt_eq_Some)
  then show ?thesis using j unfolding JArr
  proof (induction xs arbitrary: ss)
    case (Cons x xs)
    then obtain s ss' where "ss = s # ss'" "stringElement x = Some s" by (cases ss) auto
    with Cons show ?case by (cases x) auto
  qed simp
qed simp_all

lemma membersOf_textual:
  "membersOf names ms = Some out \<Longrightarrow> list_all (\<lambda>(k, v). validUtf8 k \<and> textual v) ms \<Longrightarrow> list_all (textual \<circ> snd) out"
  by (induction ms arbitrary: out) (auto split: option.splits)

lemma strictObject_textual: "strictObject names j = Some ms \<Longrightarrow> textual j \<Longrightarrow> list_all (textual \<circ> snd) ms"
  by (cases j) (auto dest: membersOf_textual)

lemma rawField_textual: "list_all (textual \<circ> snd) ms \<Longrightarrow> rawField n ms = Some v \<Longrightarrow> textual v"
  by (fastforce simp: rawField_def list_all_iff dest!: map_of_SomeD)

lemma presentField_textual: "list_all (textual \<circ> snd) ms \<Longrightarrow> presentField n ms = Some v \<Longrightarrow> textual v"
  by (auto simp: presentField_def dest: rawField_textual split: option.splits if_splits)

lemma ptrField_textual:
  "list_all (textual \<circ> snd) ms \<Longrightarrow> ptrField dec n ms = Some (Some x) \<Longrightarrow> \<exists>v. textual v \<and> dec v = Some x"
  by (fastforce simp: ptrField_def list_all_iff dest!: map_of_SomeD split: if_splits option.splits)

lemma ptrField_string:
  "list_all (textual \<circ> snd) ms \<Longrightarrow> ptrField asString n ms = Some (Some s) \<Longrightarrow> validUtf8 s"
  by (drule (1) ptrField_textual) (auto dest: textual_string)

lemma ptrField_strings:
  "list_all (textual \<circ> snd) ms \<Longrightarrow> ptrField asStrings n ms = Some (Some ss) \<Longrightarrow> list_all validUtf8 ss"
  by (drule (1) ptrField_textual) (auto dest: textual_strings)

subsection \<open>Rules as text\<close>

text \<open>The texts of a definition that its validation leaves free.\<close>

definition utf8Definition :: "rule_definition \<Rightarrow> bool" where
  "utf8Definition r \<longleftrightarrow> validUtf8 (rdName r) \<and> validUtf8 (rdDescription r) \<and>
     list_all validUtf8 (tgIDs (rdTargets r)) \<and> list_all validUtf8 (tgGroupIDs (rdTargets r)) \<and>
     validUtf8 (npAudience (rdNotifications r))"

lemma unmarshalTargets_utf8:
  assumes "unmarshalTargets j = Some t" and "textual j"
  shows "list_all validUtf8 (tgIDs t) \<and> list_all validUtf8 (tgGroupIDs t)"
proof -
  obtain ms where ms: "strictObject [''kind'', ''ids'', ''group_ids''] j = Some ms"
    "ptrField asStrings ''ids'' ms = Some (Some (tgIDs t))" "ptrField asStrings ''group_ids'' ms = Some (Some (tgGroupIDs t))"
    using assms(1) by (auto simp: unmarshalTargets_def split: option.splits if_splits)
  note field = ptrField_strings [OF strictObject_textual [OF ms(1) assms(2)]]
  from field [OF ms(2)] field [OF ms(3)] show ?thesis ..
qed

lemma unmarshalNotifications_utf8:
  assumes "unmarshalNotifications j = Some n" and "textual j"
  shows "validUtf8 (npAudience n)"
proof -
  obtain ms where ms: "strictObject [''on_open'', ''on_recovery'', ''audience''] j = Some ms"
    "ptrField asString ''audience'' ms = Some (Some (npAudience n))"
    using assms(1) by (auto simp: unmarshalNotifications_def split: option.splits)
  show ?thesis by (rule ptrField_string [OF strictObject_textual [OF ms(1) assms(2)] ms(2)])
qed

lemma unmarshalDefinition_steps:
  assumes "unmarshalDefinition j = Some r"
  obtains names ms n t no where "strictObject names j = Some ms" "presentField ''name'' ms = Some n"
    "asString n = Some (rdName r)" "presentField ''targets'' ms = Some t" "unmarshalTargets t = Some (rdTargets r)"
    "presentField ''notifications'' ms = Some no" "unmarshalNotifications no = Some (rdNotifications r)"
    "rdDescription r = [] \<or> (\<exists>d. rawField ''description'' ms = Some d \<and> asString d = Some (rdDescription r))"
  using assms by (auto simp: unmarshalDefinition_def Let_def split: option.splits if_splits)

lemma unmarshalDefinition_utf8:
  assumes "unmarshalDefinition j = Some r" and "textual j"
  shows "utf8Definition r"
  using assms(1)
proof (rule unmarshalDefinition_steps)
  fix names ms n t no
  assume "strictObject names j = Some ms"
  then have all: "list_all (textual \<circ> snd) ms" by (rule strictObject_textual [OF _ assms(2)])
  assume "presentField ''name'' ms = Some n" and n: "asString n = Some (rdName r)"
  with presentField_textual [OF all] textual_string have name: "validUtf8 (rdName r)" by blast
  assume "presentField ''targets'' ms = Some t" and t: "unmarshalTargets t = Some (rdTargets r)"
  with presentField_textual [OF all] unmarshalTargets_utf8 [OF t]
  have targets: "list_all validUtf8 (tgIDs (rdTargets r)) \<and> list_all validUtf8 (tgGroupIDs (rdTargets r))" by blast
  assume "presentField ''notifications'' ms = Some no" and no: "unmarshalNotifications no = Some (rdNotifications r)"
  with presentField_textual [OF all] unmarshalNotifications_utf8 [OF no] have audience: "validUtf8 (npAudience (rdNotifications r))" by blast
  assume "rdDescription r = [] \<or> (\<exists>d. rawField ''description'' ms = Some d \<and> asString d = Some (rdDescription r))"
  then have "validUtf8 (rdDescription r)" using rawField_textual [OF all] textual_string by auto
  with name targets audience show ?thesis by (simp add: utf8Definition_def)
qed


text \<open>The number texts and names that marshalling writes.\<close>

lemma skipMinus_decimal: "skipMinus (decimal n) = decimal n" "skipMinus (CHR ''-'' # decimal n) = decimal n"
  using hd_decimal [of n] by (auto simp: skipMinus_def split: list.split)

lemma skipInteger_decimal: "skipInteger (decimal n) = Some []"
proof (cases "n = 0")
  case False
  obtain c t where c: "decimal n = c # t" by (cases "decimal n") auto
  have "isDigit c" "list_all isDigit t" using isDigit_decimal [of n] by (simp_all add: c)
  moreover from this have "dropWhile isDigit t = []" by (simp add: list_all_iff)
  moreover have "c \<noteq> CHR ''0''" using decimal_head [of n] False by (auto simp: c)
  ultimately show ?thesis by (simp add: skipInteger_def c)
qed (simp add: decimal_0 skipInteger_def)

lemma lexNumber_formatInt: "lexNumber (formatInt i) = Some (formatInt i, [])"
  by (simp add: lexNumber_def formatInt_def skipNumber_def skipMinus_decimal skipInteger_decimal skipFraction_def skipExponent_def)

lemma formatInt_ASCII: "list_all (between 0 0x7F) (formatInt i)"
  using digit_code_range by (fastforce simp: formatInt_def list_all_iff between_def)

lemma marshalDuration_textual: "marshalDuration d = Some j \<Longrightarrow> textual j \<and> depthOf j = 0"
  using formatInt_ASCII
  by (auto simp: marshalDuration_def canonicalDurationString_def Let_def validUtf8_ASCII between_def split: if_splits)

lemma field_ASCII: "FieldSpecFor n = Some f \<Longrightarrow> validUtf8 n"
  by (auto simp: FieldSpecFor_def fieldCatalog_def queueField_def validUtf8_ASCII between_def split: if_splits)

lemma agent_state_ASCII: "validAgentState s \<Longrightarrow> validUtf8 s"
  by (auto simp: validAgentState_def validUtf8_ASCII between_def)

lemma operator_ASCII: "allowedOperatorType t op \<Longrightarrow> validUtf8 op"
  by (auto simp: allowedOperatorType_def orderOperators_def validUtf8_ASCII between_def split: field_type.splits)

lemma marshalOperand_textual: "has_type subject v t \<Longrightarrow> marshalOperand v = Some j \<Longrightarrow> textual j \<and> depthOf j = 1"
  by (cases "opKind v")
    (auto simp: has_type_iff marshalOperand_def validUtf8_ASCII [where s = "_ # _"] between_def lexNumber_formatInt
      dest: field_ASCII agent_state_ASCII marshalDuration_textual)

lemma marshalCompare_textual: "well_typed subject e \<Longrightarrow> marshalCompare e = Some j \<Longrightarrow> textual j \<and> depthOf j = 2"
  by (auto simp: marshalCompare_def validUtf8_ASCII [where s = "_ # _"] between_def elim!: well_typed.cases
      dest!: marshalOperand_textual operator_ASCII split: option.splits)

lemma marshal_wf_compare_textual: "wf_compare subject c \<Longrightarrow> marshalExpression c = Some j \<Longrightarrow> textual j \<and> depthOf j = 2"
  by (auto elim!: wf_compare.cases dest: marshalCompare_textual)

lemma marshalAll_textual:
  assumes "\<forall>c \<in> set cs. wf_compare subject c" and "sequenceOpt (map marshalExpression cs) = Some js"
  shows "textual (marshalAll js) \<and> depthOf (marshalAll js) \<le> 4"
proof -
  have js: "textual j \<and> depthOf j = 2" if "j \<in> set js" for j
  proof -
    from that have "Some j \<in> set (map marshalExpression cs)" using assms(2) by (simp add: sequenceOpt_eq_Some)
    with assms(1) show ?thesis using marshal_wf_compare_textual by (metis (no_types) imageE list.set_map)
  qed
  then have "foldr max (map depthOf js) 0 \<le> 2" by (simp add: foldr_max_le)
  with js show ?thesis by (simp add: marshalAll_def list_all_iff validUtf8_ASCII between_def)
qed

lemma marshalExpression_textual:
  "wf_expression subject x \<Longrightarrow> marshalExpression x = Some j \<Longrightarrow> textual j \<and> depthOf j \<le> 4"
  by (cases rule: wf_expression.cases) (auto dest: marshal_wf_compare_textual marshalAll_textual)

lemma marshalCondition_textual:
  assumes "wf_condition subject c" and "marshalCondition c = Some j"
  shows "textual j \<and> depthOf j \<le> 5"
proof -
  obtain p d where p: "marshalExpression (cdPredicate c) = Some p" "marshalDuration (cdFor c) = Some d"
    "j = JObj [(''predicate'', p), (''for'', d)]"
    using assms(2) by (auto simp: marshalCondition_def split: option.splits)
  have "textual p \<and> depthOf p \<le> 4" using marshalExpression_textual assms(1) p(1) by (auto simp: wf_condition_def)
  with marshalDuration_textual [OF p(2)] show ?thesis by (simp add: p(3) validUtf8_ASCII between_def)
qed

lemma marshalTargets_textual:
  assumes "list_all validUtf8 (tgIDs t)" "list_all validUtf8 (tgGroupIDs t)" "validUtf8 (tgKind t)"
  shows "textual (marshalTargets t) \<and> depthOf (marshalTargets t) \<le> 5"
proof -
  have "list_all textual (map JStr ss) \<and> foldr max (map depthOf (map JStr ss)) 0 \<le> 0" if "list_all validUtf8 ss" for ss
    using that by (induction ss) simp_all
  from this [OF assms(1)] this [OF assms(2)] assms(3) show ?thesis
    by (simp add: marshalTargets_def validUtf8_ASCII between_def comp_def)
qed

lemma marshalDefinition_textual:
  assumes "wf_definition r" and "utf8Definition r" and "marshalDefinition r = Some j"
  shows "textual j \<and> depthOf j \<le> 6"
proof -
  obtain tr cl where m: "marshalCondition (rdTrigger r) = Some tr" "marshalCondition (rdClear r) = Some cl"
    using assms(3) by (auto simp: marshalDefinition_def split: option.splits)
  have wf: "wf_condition (tgKind (rdTargets r)) (rdTrigger r)" "wf_condition (tgKind (rdTargets r)) (rdClear r)"
    "tgKind (rdTargets r) = ''queue'' \<or> tgKind (rdTargets r) = ''agent''"
    using assms(1) by (simp_all add: wf_definition_def Let_def)
  have "validUtf8 (tgKind (rdTargets r))" using wf(3) by (auto simp: validUtf8_ASCII between_def)
  then have targets: "textual (marshalTargets (rdTargets r)) \<and> depthOf (marshalTargets (rdTargets r)) \<le> 5"
    using assms(2) by (intro marshalTargets_textual) (simp_all add: utf8Definition_def)
  have policy: "textual (marshalNotifications (rdNotifications r)) \<and> depthOf (marshalNotifications (rdNotifications r)) \<le> 5"
    using assms(2) by (simp add: marshalNotifications_def utf8Definition_def validUtf8_ASCII between_def)
  note parts = marshalCondition_textual [OF wf(1) m(1)] marshalCondition_textual [OF wf(2) m(2)] targets policy
  show ?thesis
  proof (cases "rdDescription r = []")
    case True
    then have "j = JObj [(''schema_version'', JNum (formatInt (rdSchemaVersion r))), (''name'', JStr (rdName r)),
        (''targets'', marshalTargets (rdTargets r)), (''trigger'', tr), (''clear'', cl),
        (''notifications'', marshalNotifications (rdNotifications r))]"
      using assms(3) by (simp add: marshalDefinition_def m)
    with parts assms(2) show ?thesis
      by (simp add: utf8Definition_def lexNumber_formatInt validUtf8_ASCII [where s = "_ # _"] between_def)
  next
    case False
    then have "j = JObj [(''schema_version'', JNum (formatInt (rdSchemaVersion r))), (''name'', JStr (rdName r)),
        (''description'', JStr (rdDescription r)), (''targets'', marshalTargets (rdTargets r)), (''trigger'', tr), (''clear'', cl),
        (''notifications'', marshalNotifications (rdNotifications r))]"
      using assms(3) by (simp add: marshalDefinition_def m)
    with parts assms(2) show ?thesis
      by (simp add: utf8Definition_def lexNumber_formatInt validUtf8_ASCII [where s = "_ # _"] between_def)
  qed
qed


lemma MarshalRule_read: "wf_definition r \<Longrightarrow> utf8Definition r \<Longrightarrow> marshalDefinition r = Some j \<Longrightarrow> parseJSON (renderJSON j) = Some j"
  by (drule (2) marshalDefinition_textual) (auto intro!: parse_render simp: maxNestingDepth_def)

text \<open>C8. A rule survives being written: the bytes that a valid definition is marshalled to are read back
  by the strict decoder as the same definition in the decoder's form, as long as its texts are valid
  UTF-8. (Other bytes are replaced, so two identifiers can become one.)\<close>

theorem rule_text_roundtrip:
  assumes "Validate r = []" and "int64Definition r" and "utf8Definition r"
  shows "case MarshalRule r of None \<Rightarrow> False
    | Some raw \<Rightarrow> DecodeRuleDefinitionData raw = Inr (canonicalDefinition r)"
proof -
  have wf: "wf_definition r" using assms(1) by (simp add: Validate_ok)
  then have "Validate (canonicalDefinition r) = []" by (simp add: Validate_ok wf_canonicalDefinition)
  with definition_unmarshal [OF wf assms(2)] MarshalRule_read [OF wf assms(3)] show ?thesis
    by (auto simp: MarshalRule_def DecodeRuleDefinitionData_def DecodeRuleDefinition_def)
qed

theorem rule_text_roundtrip_witness:
  "\<exists>raw. MarshalRule demoRule = Some raw \<and> 300 < length raw \<and>
     DecodeRuleDefinitionData raw = Inr (canonicalDefinition demoRule)"
proof -
  have "Validate demoRule = []" "int64Definition demoRule" "utf8Definition demoRule" by code_simp+
  note rt = rule_text_roundtrip [OF this]
  moreover have "case MarshalRule demoRule of None \<Rightarrow> False | Some raw \<Rightarrow> 300 < length raw" by code_simp
  ultimately show ?thesis by (cases "MarshalRule demoRule") auto
qed

text \<open>What the strict rule decoder accepts, it accepts again after being written: whatever bytes it
  reads a definition from, the definition's texts are valid UTF-8, and marshalling it gives bytes
  that it reads the very same definition from.\<close>

theorem rule_text_stable:
  "case DecodeRuleDefinitionData data of Inl _ \<Rightarrow> True
   | Inr r \<Rightarrow> utf8Definition r \<and> (case MarshalRule r of None \<Rightarrow> False
       | Some raw \<Rightarrow> DecodeRuleDefinitionData raw = Inr r)"
proof (cases "DecodeRuleDefinitionData data")
  case (Inr r)
  then obtain j where j: "parseJSON data = Some j" "unmarshalDefinition j = Some r" "wf_definition r"
    by (auto simp: DecodeRuleDefinitionData_def DecodeRuleDefinition_def Validate_ok split: option.splits if_splits)
  have utf8: "utf8Definition r" using unmarshalDefinition_utf8 [OF j(2)] parse_textual [OF j(1)] by blast
  note c = unmarshalDefinition_canonical [OF j(2)]
  with definition_unmarshal [OF j(3)] obtain j' where j': "marshalDefinition r = Some j'" "unmarshalDefinition j' = Some r"
    by auto
  have "DecodeRuleDefinitionData (renderJSON j') = Inr r" using MarshalRule_read [OF j(3) utf8 j'(1)] j'(2) j(3)
    by (simp add: DecodeRuleDefinitionData_def DecodeRuleDefinition_def Validate_ok)
  moreover have "MarshalRule r = Some (renderJSON j')" by (simp add: MarshalRule_def j'(1))
  ultimately show ?thesis using utf8 unfolding Inr by simp
qed simp

subsection \<open>Events as text\<close>

fun utf8Event :: "event \<Rightarrow> bool" where
  "utf8Event (QueueSnapshot q) \<longleftrightarrow> validUtf8 (evEventID (qsCommon q)) \<and> validUtf8 (qsQueueID q)"
| "utf8Event (AgentStateChange a) \<longleftrightarrow> validUtf8 (evEventID (asCommon a)) \<and> validUtf8 (asAgentID a) \<and>
     list_all validUtf8 (asQueueIDs a)"
| "utf8Event (AdherenceCheck c) \<longleftrightarrow> validUtf8 (evEventID (acCommon c)) \<and> validUtf8 (acAgentID c) \<and>
     list_all validUtf8 (acQueueIDs c)"
| "utf8Event (OtherEvent i) \<longleftrightarrow> True"

lemma str_utf8: "textual (JObj ms) \<Longrightarrow> str (map_of ms) k = Inr v \<Longrightarrow> validUtf8 v"
  using textual_member [of ms k "JStr v"] map_of_SomeD [of ms k "JStr v"] by (auto dest!: str_Inr simp del: textual.simps(6))

lemma commonFields_utf8: "textual (JObj ms) \<Longrightarrow> commonFields (map_of ms) ty = Inr c \<Longrightarrow> validUtf8 (evEventID c)"
  by (auto simp: commonFields_def andThen_Inr simp del: textual.simps dest: str_utf8)

lemma stringsArr_utf8:
  assumes "textual (JObj ms)" and "stringsArr (map_of ms) k n = Inr vs"
  shows "list_all validUtf8 vs"
proof (cases "isNullField (map_of ms) k")
  case False
  then obtain v where v: "map_of ms k = Some v" "asStrings v = Some vs"
    using assms(2) by (auto simp: stringsArr_def bind_eq_Some_conv split: option.splits)
  from map_of_SomeD [OF v(1)] assms(1) have "textual v" using textual_member by blast
  with v(2) show ?thesis using textual_strings by blast
qed (use assms(2) in \<open>auto simp: stringsArr_def split: if_splits\<close>)

lemma decodeObject_utf8:
  assumes "textual (JObj ms)" and "decodeObject ms = Inr ev"
  shows "utf8Event ev"
proof -
  from assms(2) obtain ty c where c: "commonFields (map_of ms) ty = Inr c"
    and d: "(if ty = ''queue_snapshot'' then decodeQueueSnapshot (map_of ms) c
           else if ty = ''agent_state_change'' then decodeAgentStateChange (map_of ms) c
           else decodeAdherenceCheck (map_of ms) c) = Inr ev"
    by (rule decodeObject_steps)
  from d commonFields_utf8 [OF assms(1) c] show ?thesis
    by (auto simp: decodeQueueSnapshot_def decodeAgentStateChange_def decodeAdherenceCheck_def andThen_Inr
        simp del: textual.simps dest!: str_utf8 [OF assms(1)] stringsArr_utf8 [OF assms(1)] split: if_splits)
qed


end
