(* ===== verification/TimeText.thy ===== *)
theory TimeText
  imports Events
begin

text \<open>
  Dates of the Gregorian calendar and \<^verbatim>\<open>formatTime\<close> of
  \<^verbatim>\<open>internal/web/web.go\<close>. A time counts nanoseconds from the start of year 1, in
  UTC; \<open>dayNumber\<close> goes from a date to its day, \<open>civilDate\<close> back, as the standard
  \<^verbatim>\<open>time\<close> package does: by cycles of 400, 100, 4 and 1 years, then by months.
\<close>

subsection \<open>Dates\<close>

text \<open>The year of a day, and the day of the year, both counted from zero for the day.\<close>

definition yearDay :: "int \<Rightarrow> int \<times> int" where
  "yearDay d =
     (let n400 = d div 146097; r400 = d mod 146097;
          n100 = min 3 (r400 div 36524); r100 = r400 - 36524 * n100;
          n4 = r100 div 1461; r4 = r100 - 1461 * n4;
          n1 = min 3 (r4 div 365)
      in (400 * n400 + 100 * n100 + 4 * n4 + n1 + 1, r4 - 365 * n1))"

function monthDay :: "int \<Rightarrow> nat \<Rightarrow> nat \<Rightarrow> nat \<times> nat" where
  "monthDay y m d = (if m \<ge> 12 \<or> d < daysIn y m then (m, d + 1) else monthDay y (m + 1) (d - daysIn y m))"
  by auto
termination by (relation "measure (\<lambda>(y, m, d). 12 - m)") auto

declare monthDay.simps [simp del]

definition civilDate :: "int \<Rightarrow> int \<times> nat \<times> nat" where
  "civilDate d = (case yearDay d of (y, n) \<Rightarrow> (y, monthDay y 1 (nat n)))"

subsection \<open>Times on the pages\<close>

definition monthName :: "nat \<Rightarrow> string" where
  "monthName m = [''Jan'', ''Feb'', ''Mar'', ''Apr'', ''May'', ''Jun'', ''Jul'', ''Aug'', ''Sep'', ''Oct'', ''Nov'', ''Dec''] ! (m - 1)"

definition pad2 :: "nat \<Rightarrow> string" where
  "pad2 n = (if n < 10 then CHR ''0'' # decimal n else decimal n)"

text \<open>\<^verbatim>\<open>Format("02 Jan 15:04 UTC")\<close>; the zero time is shown as nothing.\<close>

definition formatTime :: "gotime \<Rightarrow> string" where
  "formatTime t =
     (if isZero t then []
      else let seconds = t div 1000000000; clock = nat (seconds mod 86400)
        in case civilDate (seconds div 86400) of (y, m, d) \<Rightarrow>
             pad2 d @ '' '' @ monthName m @ '' '' @ pad2 (clock div 3600) @ '':'' @ pad2 (clock mod 3600 div 60) @ '' UTC'')"

end
