(* ===== verification/TimeTextProps.thy ===== *)
theory TimeTextProps
  imports TimeText EventsProps
begin

text \<open>
  The calendar read backwards: the date of a day number is the date it was computed from, and
  the pages show the day, hour and minute that an event was stamped with.
\<close>

lemma div_by:
  fixes a k r :: int
  assumes "0 \<le> r" and "r < k"
  shows "(k * a + r) div k = a" and "(k * a + r) mod k = r"
  using assms by (simp_all add: mult.commute [of k])

text \<open>A year before \<open>y\<close> in cycles.\<close>

lemma year_cycles:
  fixes y :: int
  obtains a b c e where "y = 400 * a + 100 * b + 4 * c + e + 1" and "0 \<le> b" "b \<le> 3" and "0 \<le> c" "c \<le> 24"
    and "0 \<le> e" "e \<le> 3"
proof -
  let ?k = "y - 1"
  have "?k mod 400 mod 100 = ?k mod 100" "?k mod 100 mod 4 = ?k mod 4" by (simp_all add: mod_mod_cancel)
  then have "?k = 400 * (?k div 400) + 100 * (?k mod 400 div 100) + 4 * (?k mod 100 div 4) + ?k mod 4"
    using mult_div_mod_eq [of 400 ?k] mult_div_mod_eq [of 100 "?k mod 400"] mult_div_mod_eq [of 4 "?k mod 100"] by linarith
  then have y: "y = 400 * (?k div 400) + 100 * (?k mod 400 div 100) + 4 * (?k mod 100 div 4) + ?k mod 4 + 1" by linarith
  have "?k mod 400 div 100 < 4" "?k mod 100 div 4 < 25" by (simp_all add: div_less_iff_less_mult)
  moreover have "0 \<le> ?k mod 400 div 100" "0 \<le> ?k mod 100 div 4" by (simp_all add: pos_imp_zdiv_nonneg_iff)
  moreover have "0 \<le> ?k mod 4" "?k mod 4 < 4" by simp_all
  ultimately show thesis by (intro that [OF y]) simp_all
qed

lemma daysBeforeYear_cycles:
  assumes "0 \<le> b" "b \<le> 3" and "0 \<le> c" "c \<le> 24" and "0 \<le> e" "e \<le> 3"
  shows "daysBeforeYear (400 * a + 100 * b + 4 * c + e + 1) = 146097 * a + 36524 * b + 1461 * c + 365 * e"
proof -
  let ?k = "400 * a + 100 * b + 4 * c + e"
  have "?k div 4 = 100 * a + 25 * b + c" using div_by(1) [of e 4 "100 * a + 25 * b + c"] assms by simp
  moreover have "?k div 100 = 4 * a + b" using div_by(1) [of "4 * c + e" 100 "4 * a + b"] assms by (simp add: algebra_simps)
  moreover have "?k div 400 = a" using div_by(1) [of "100 * b + 4 * c + e" 400 a] assms by (simp add: algebra_simps)
  ultimately show ?thesis by (simp add: daysBeforeYear_def)
qed

lemma isLeap_cycles:
  assumes "0 \<le> b" "b \<le> 3" and "0 \<le> c" "c \<le> 24" and "0 \<le> e" "e \<le> 3"
  shows "isLeap (400 * a + 100 * b + 4 * c + e + 1) \<longleftrightarrow> e = 3 \<and> (c \<noteq> 24 \<or> b = 3)"
proof (cases "e = 3")
  case False
  have "(400 * a + 100 * b + 4 * c + e + 1) mod 4 = e + 1"
    using div_by(2) [of "e + 1" 4 "100 * a + 25 * b + c"] assms False by (simp add: algebra_simps)
  with False assms show ?thesis by (simp add: isLeap_def)
next
  case True
  let ?y = "400 * a + 100 * b + 4 * c + e + 1"
  have four: "?y mod 4 = 0" using div_by(2) [of 0 4 "100 * a + 25 * b + c + 1"] True by (simp add: algebra_simps)
  show ?thesis
  proof (cases "c = 24")
    case False
    have "?y mod 100 = 4 * c + 4" using div_by(2) [of "4 * c + 4" 100 "4 * a + b"] assms True False by (simp add: algebra_simps)
    with four True False assms show ?thesis by (simp add: isLeap_def)
  next
    case c: True
    have hundred: "?y mod 100 = 0" using div_by(2) [of 0 100 "4 * a + b + 1"] True c by (simp add: algebra_simps)
    have "?y mod 400 = (if b = 3 then 0 else 100 * b + 100)"
      using div_by(2) [of 0 400 "a + 1"] div_by(2) [of "100 * b + 100" 400 a] assms True c by (simp add: algebra_simps)
    with four hundred True c assms show ?thesis by (simp add: isLeap_def)
  qed
qed

lemma yearDay_inverse:
  assumes "0 \<le> n" and "n < (if isLeap y then 366 else 365)"
  shows "yearDay (daysBeforeYear y + n) = (y, n)"
proof -
  obtain a b c e where y: "y = 400 * a + 100 * b + 4 * c + e + 1" and r: "0 \<le> b" "b \<le> 3" "0 \<le> c" "c \<le> 24" "0 \<le> e" "e \<le> 3"
    by (rule year_cycles)
  have leap: "n \<le> 365" "e = 3 \<and> (c \<noteq> 24 \<or> b = 3) \<or> n \<le> 364"
    using assms(2) isLeap_cycles [OF r, of a] by (auto simp: y split: if_splits)
  let ?d = "daysBeforeYear y + n"
  have d: "?d = 146097 * a + (36524 * b + 1461 * c + 365 * e + n)" using daysBeforeYear_cycles [OF r, of a] by (simp add: y)
  have in400: "0 \<le> 36524 * b + 1461 * c + 365 * e + n" "36524 * b + 1461 * c + 365 * e + n < 146097"
    using r assms(1) leap by auto
  have n400: "?d div 146097 = a" "?d mod 146097 = 36524 * b + 1461 * c + 365 * e + n"
    unfolding d by (rule div_by [OF in400])+
  have n100: "min 3 ((36524 * b + 1461 * c + 365 * e + n) div 36524) = b"
  proof (cases "1461 * c + 365 * e + n < 36524")
    case True
    with div_by(1) [of "1461 * c + 365 * e + n" 36524 b] r assms(1) show ?thesis by (simp add: algebra_simps)
  next
    case False
    with r leap have "b = 3" "1461 * c + 365 * e + n = 36524" by auto
    then show ?thesis using div_by(1) [of 0 36524 4] by (simp add: algebra_simps)
  qed
  have n4: "(1461 * c + 365 * e + n) div 1461 = c"
    using div_by(1) [of "365 * e + n" 1461 c] r assms(1) leap by (simp add: algebra_simps)
  have n1: "min 3 ((365 * e + n) div 365) = e"
  proof (cases "n < 365")
    case True
    with div_by(1) [of n 365 e] r assms(1) show ?thesis by simp
  next
    case False
    with leap have "n = 365" "e = 3" by auto
    then show ?thesis by simp
  qed
  have rests: "36524 * b + 1461 * c + 365 * e + n - 36524 * b = 1461 * c + 365 * e + n"
    "1461 * c + 365 * e + n - 1461 * c = 365 * e + n" "365 * e + n - 365 * e = n" by simp_all
  show ?thesis
    by (simp only: yearDay_def Let_def n400 n100 rests n4 n1) (simp only: y)
qed

lemma monthDay_inverse:
  assumes "k \<le> m" and "m \<le> 12" and "d < daysIn y m"
  shows "monthDay y k (sum_list (map (daysIn y) [k..<m]) + d) = (m, d + 1)"
  using assms(1)
proof (induction "m - k" arbitrary: k)
  case 0
  with assms show ?case by (simp add: monthDay.simps [of y k])
next
  case (Suc n)
  then have "k < m" by simp
  then have "[k..<m] = k # [Suc k..<m]" by (rule upt_conv_Cons)
  moreover have "monthDay y (Suc k) (sum_list (map (daysIn y) [Suc k..<m]) + d) = (m, d + 1)"
    using Suc(1) [of "Suc k"] Suc(2) \<open>k < m\<close> by simp
  ultimately show ?case using \<open>k < m\<close> assms(2) by (simp add: monthDay.simps [of y k])
qed

text \<open>The date of the day number of a date is that date.\<close>

theorem civilDate_inverse:
  assumes "1 \<le> m" and "m \<le> 12" and "1 \<le> d" and "d \<le> daysIn y m"
  shows "civilDate (dayNumber y m d) = (y, m, d)"
proof -
  have "int (daysBeforeMonth y m + (d - 1)) < (if isLeap y then 366 else 365)"
    using day_in_year [OF assms(1,2,4)] assms(3) by (auto split: if_splits)
  moreover have "dayNumber y m d = daysBeforeYear y + int (daysBeforeMonth y m + (d - 1))" by (simp add: dayNumber_def)
  ultimately have "yearDay (dayNumber y m d) = (y, int (daysBeforeMonth y m + (d - 1)))" by (simp add: yearDay_inverse)
  then have "civilDate (dayNumber y m d) = (y, monthDay y 1 (daysBeforeMonth y m + (d - 1)))"
    by (simp only: civilDate_def prod.case nat_int)
  moreover have "d - 1 < daysIn y m" using assms(3,4) by simp
  ultimately show ?thesis
    using monthDay_inverse [OF assms(1,2), of "d - 1" y] assms(3) by (simp add: daysBeforeMonth_def)
qed

lemma zero_char: "CHR ''0'' = char_of (48 :: nat)"
  by code_simp

lemma pad2_digits:
  assumes "length s = 2" and "list_all isDigit s"
  shows "pad2 (decimal_value s) = s"
proof -
  obtain a b where s: "s = [a, b]" using assms(1) by (auto simp: numeral_2_eq_2 length_Suc_conv)
  have ab: "48 \<le> (of_char a :: nat)" "(of_char a :: nat) \<le> 57" "48 \<le> (of_char b :: nat)" "(of_char b :: nat) \<le> 57"
    using assms(2) by (simp_all add: s isDigit_def)
  define i j where "i = (of_char a :: nat) - 48" and "j = (of_char b :: nat) - 48"
  have c: "a = char_of (48 + i)" "b = char_of (48 + j)" "i \<le> 9" "j \<le> 9"
    using ab by (simp_all add: i_def j_def)
  have small: "(48 + i) mod 256 = 48 + i" "(48 + j) mod 256 = 48 + j" using c(3,4) by simp_all
  have v: "decimal_value s = 10 * i + j" using c(3,4) small by (simp add: s c(1,2) decimal_value_def digit_value_def)
  show ?thesis
    using c(3,4) by (simp add: pad2_def v) (simp add: s c(1,2) decimal.simps digit_def zero_char)
qed


end
