(* ===== verification/SharedProjections.thy ===== *)
theory SharedProjections
  imports Projections
begin

text \<open>
  The projection builder with the memory it shares, \<^verbatim>\<open>internal/projections/projections.go\<close>
  again: pointers and slices are addresses of a heap, and the clone functions copy what they
  point to. \<open>Projections\<close> is the same builder on values; there the clones are the identity.

  A shared value is a value together with its addresses; the fields of the value that the
  addresses stand for are not read, \<open>\<dots>At\<close> puts in what the heap holds.
\<close>

subsection \<open>The heap\<close>

type_synonym addr = nat

datatype cell = Number u64 | Name string | Instant gotime | Names "string list" | Bytes string

record heap =
  hpCells :: "addr \<Rightarrow> cell"
  hpNext :: addr

definition allocCell :: "cell \<Rightarrow> heap \<Rightarrow> addr \<times> heap" where
  "allocCell c h = (hpNext h, \<lparr>hpCells = (hpCells h)(hpNext h := c), hpNext = hpNext h + 1\<rparr>)"

definition numberAt :: "heap \<Rightarrow> addr \<Rightarrow> u64" where
  "numberAt h a = (case hpCells h a of Number n \<Rightarrow> n | _ \<Rightarrow> 0)"

definition nameAt :: "heap \<Rightarrow> addr \<Rightarrow> string" where
  "nameAt h a = (case hpCells h a of Name s \<Rightarrow> s | _ \<Rightarrow> [])"

definition instantAt :: "heap \<Rightarrow> addr \<Rightarrow> gotime" where
  "instantAt h a = (case hpCells h a of Instant t \<Rightarrow> t | _ \<Rightarrow> 0)"

text \<open>A nil slice is empty.\<close>

definition namesAt :: "heap \<Rightarrow> addr option \<Rightarrow> string list" where
  "namesAt h p = (case p of None \<Rightarrow> [] | Some a \<Rightarrow> (case hpCells h a of Names ns \<Rightarrow> ns | _ \<Rightarrow> []))"

definition bytesAt :: "heap \<Rightarrow> addr option \<Rightarrow> string" where
  "bytesAt h p = (case p of None \<Rightarrow> [] | Some a \<Rightarrow> (case hpCells h a of Bytes s \<Rightarrow> s | _ \<Rightarrow> []))"

subsection \<open>Shared values\<close>

record shared_snapshot =
  snValue :: queue_snapshot
  snForecast :: "addr option"

record shared_change =
  scValue :: agent_state_change
  scPrevious :: "addr option"
  scDuration :: "addr option"
  scQueues :: "addr option"

record shared_check =
  skValue :: adherence_check
  skStarted :: "addr option"
  skQueues :: "addr option"

datatype shared_event = SharedSnapshot shared_snapshot | SharedChange shared_change
  | SharedCheck shared_check | SharedOther string

record shared_occurrence =
  soValue :: accepted_occurrence
  soEvent :: "shared_event option"
  soRaw :: "addr option"

record shared_queue_state =
  sqValue :: queue_state
  sqForecast :: "addr option"

record shared_adherence_state =
  sdValue :: adherence_state
  sdStarted :: "addr option"

record 'e shared_observation =
  sbProvenance :: provenance
  sbEvent :: 'e

record shared_identity =
  siValue :: accepted_identity
  siEvent :: "shared_event option"
  siRaw :: "addr option"

record shared_builder =
  bdQueues :: "string \<rightharpoonup> shared_queue_state"
  bdAgents :: "string \<rightharpoonup> agent_source_state"
  bdAdherence :: "string \<rightharpoonup> shared_adherence_state"
  bdQueueHistory :: "string \<Rightarrow> shared_snapshot shared_observation list"
  bdAgentHistory :: "string \<Rightarrow> shared_change shared_observation list"
  bdAdherenceHistory :: "string \<Rightarrow> shared_check shared_observation list"
  bdOccurrences :: "string \<rightharpoonup> shared_identity"
  bdAdmissions :: "string \<times> string \<rightharpoonup> string"
  bdLastPosition :: u64

datatype shared_update =
    SharedQueueUpdate "shared_snapshot shared_observation" shared_queue_state bool
  | SharedAgentUpdate "shared_change shared_observation" agent_source_state bool
  | SharedAdherenceUpdate "shared_check shared_observation" shared_adherence_state bool

subsection \<open>What they hold\<close>

definition snapshotAt :: "heap \<Rightarrow> shared_snapshot \<Rightarrow> queue_snapshot" where
  "snapshotAt h s = (snValue s)\<lparr>qsVolumeForecastNext15m := map_option (numberAt h) (snForecast s)\<rparr>"

definition changeAt :: "heap \<Rightarrow> shared_change \<Rightarrow> agent_state_change" where
  "changeAt h c = (scValue c)\<lparr>asPreviousState := map_option (nameAt h) (scPrevious c),
     asPreviousStateDurationSec := map_option (numberAt h) (scDuration c), asQueueIDs := namesAt h (scQueues c)\<rparr>"

definition checkAt :: "heap \<Rightarrow> shared_check \<Rightarrow> adherence_check" where
  "checkAt h c = (skValue c)\<lparr>acViolationStartedAt := map_option (instantAt h) (skStarted c),
     acQueueIDs := namesAt h (skQueues c)\<rparr>"

fun eventAt :: "heap \<Rightarrow> shared_event \<Rightarrow> event" where
  "eventAt h (SharedSnapshot s) = QueueSnapshot (snapshotAt h s)"
| "eventAt h (SharedChange c) = AgentStateChange (changeAt h c)"
| "eventAt h (SharedCheck c) = AdherenceCheck (checkAt h c)"
| "eventAt h (SharedOther i) = OtherEvent i"

definition occurrenceAt :: "heap \<Rightarrow> shared_occurrence \<Rightarrow> accepted_occurrence" where
  "occurrenceAt h ao = (soValue ao)\<lparr>aoEvent := map_option (eventAt h) (soEvent ao), aoRaw := bytesAt h (soRaw ao)\<rparr>"

definition queueStateAt :: "heap \<Rightarrow> shared_queue_state \<Rightarrow> queue_state" where
  "queueStateAt h s = (sqValue s)\<lparr>quVolumeForecastNext15m := map_option (numberAt h) (sqForecast s)\<rparr>"

definition adherenceStateAt :: "heap \<Rightarrow> shared_adherence_state \<Rightarrow> adherence_state" where
  "adherenceStateAt h s = (sdValue s)\<lparr>ahViolationStartedAt := map_option (instantAt h) (sdStarted s)\<rparr>"

definition queueObservationAt :: "heap \<Rightarrow> shared_snapshot shared_observation \<Rightarrow> queue_observation" where
  "queueObservationAt h ob = \<lparr>qoProvenance = sbProvenance ob, qoSnapshot = snapshotAt h (sbEvent ob)\<rparr>"

definition agentObservationAt :: "heap \<Rightarrow> shared_change shared_observation \<Rightarrow> agent_state_observation" where
  "agentObservationAt h ob = \<lparr>aoProvenance = sbProvenance ob, aoChange = changeAt h (sbEvent ob)\<rparr>"

definition adherenceObservationAt :: "heap \<Rightarrow> shared_check shared_observation \<Rightarrow> adherence_observation" where
  "adherenceObservationAt h ob = \<lparr>adProvenance = sbProvenance ob, adCheck = checkAt h (sbEvent ob)\<rparr>"

definition identityAt :: "heap \<Rightarrow> shared_identity \<Rightarrow> accepted_identity" where
  "identityAt h i = (siValue i)\<lparr>idEvent := map_option (eventAt h) (siEvent i), idRaw := bytesAt h (siRaw i)\<rparr>"

definition builderAt :: "heap \<Rightarrow> shared_builder \<Rightarrow> builder" where
  "builderAt h b = \<lparr>queues = map_option (queueStateAt h) \<circ> bdQueues b, agents = bdAgents b,
     adherence = map_option (adherenceStateAt h) \<circ> bdAdherence b,
     queueHistory = map (queueObservationAt h) \<circ> bdQueueHistory b,
     agentHistory = map (agentObservationAt h) \<circ> bdAgentHistory b,
     adherenceHistory = map (adherenceObservationAt h) \<circ> bdAdherenceHistory b,
     occurrences = map_option (identityAt h) \<circ> bdOccurrences b, admissions = bdAdmissions b,
     lastPosition = bdLastPosition b\<rparr>"

fun updateAt :: "heap \<Rightarrow> shared_update \<Rightarrow> source_update" where
  "updateAt h (SharedQueueUpdate ob s c) = QueueUpdate (queueObservationAt h ob) (queueStateAt h s) c"
| "updateAt h (SharedAgentUpdate ob s c) = AgentStateUpdate (agentObservationAt h ob) s c"
| "updateAt h (SharedAdherenceUpdate ob s c) = AdherenceUpdate (adherenceObservationAt h ob) (adherenceStateAt h s) c"

subsection \<open>Cloning\<close>

text \<open>\<^verbatim>\<open>cloneUint64\<close> and \<^verbatim>\<open>cloneTime\<close>: nil, or a new cell with what the old one
  holds. \<^verbatim>\<open>append(nil, xs...)\<close> of an empty slice is nil.\<close>

definition clonePointer :: "addr option \<Rightarrow> heap \<Rightarrow> addr option \<times> heap" where
  "clonePointer p h = (case p of None \<Rightarrow> (None, h) | Some a \<Rightarrow> apfst Some (allocCell (hpCells h a) h))"

definition cloneNames :: "addr option \<Rightarrow> heap \<Rightarrow> addr option \<times> heap" where
  "cloneNames p h = (if namesAt h p = [] then (None, h) else apfst Some (allocCell (Names (namesAt h p)) h))"

definition cloneBytes :: "addr option \<Rightarrow> heap \<Rightarrow> addr option \<times> heap" where
  "cloneBytes p h = (if bytesAt h p = [] then (None, h) else apfst Some (allocCell (Bytes (bytesAt h p)) h))"

definition cloneQueueSnapshot :: "shared_snapshot \<Rightarrow> heap \<Rightarrow> shared_snapshot \<times> heap" where
  "cloneQueueSnapshot s h = (let (p, h1) = clonePointer (snForecast s) h in (s\<lparr>snForecast := p\<rparr>, h1))"

definition cloneAgentStateChange :: "shared_change \<Rightarrow> heap \<Rightarrow> shared_change \<times> heap" where
  "cloneAgentStateChange c h =
     (let (p, h1) = clonePointer (scPrevious c) h;
          (d, h2) = clonePointer (scDuration c) h1;
          (q, h3) = cloneNames (scQueues c) h2
      in (c\<lparr>scPrevious := p, scDuration := d, scQueues := q\<rparr>, h3))"

definition cloneAdherenceCheck :: "shared_check \<Rightarrow> heap \<Rightarrow> shared_check \<times> heap" where
  "cloneAdherenceCheck c h =
     (let (t, h1) = clonePointer (skStarted c) h;
          (q, h2) = cloneNames (skQueues c) h1
      in (c\<lparr>skStarted := t, skQueues := q\<rparr>, h2))"

text \<open>An event of another type is dropped.\<close>

definition cloneEvent :: "shared_event option \<Rightarrow> heap \<Rightarrow> shared_event option \<times> heap" where
  "cloneEvent ev h = (case ev of
       Some (SharedSnapshot s) \<Rightarrow> apfst (\<lambda>s'. Some (SharedSnapshot s')) (cloneQueueSnapshot s h)
     | Some (SharedChange c) \<Rightarrow> apfst (\<lambda>c'. Some (SharedChange c')) (cloneAgentStateChange c h)
     | Some (SharedCheck c) \<Rightarrow> apfst (\<lambda>c'. Some (SharedCheck c')) (cloneAdherenceCheck c h)
     | _ \<Rightarrow> (None, h))"

definition cloneQueueState :: "shared_queue_state \<Rightarrow> heap \<Rightarrow> shared_queue_state \<times> heap" where
  "cloneQueueState s h = (let (p, h1) = clonePointer (sqForecast s) h in (s\<lparr>sqForecast := p\<rparr>, h1))"

definition cloneAdherenceState :: "shared_adherence_state \<Rightarrow> heap \<Rightarrow> shared_adherence_state \<times> heap" where
  "cloneAdherenceState s h = (let (p, h1) = clonePointer (sdStarted s) h in (s\<lparr>sdStarted := p\<rparr>, h1))"

definition cloneObservation :: "('e \<Rightarrow> heap \<Rightarrow> 'e \<times> heap) \<Rightarrow> 'e shared_observation \<Rightarrow> heap \<Rightarrow> 'e shared_observation \<times> heap" where
  "cloneObservation clone ob h = (let (e, h1) = clone (sbEvent ob) h in (ob\<lparr>sbEvent := e\<rparr>, h1))"

text \<open>The loops of \<^verbatim>\<open>cloneQueueObservations\<close> and its like.\<close>

fun cloneAll :: "('a \<Rightarrow> heap \<Rightarrow> 'a \<times> heap) \<Rightarrow> 'a list \<Rightarrow> heap \<Rightarrow> 'a list \<times> heap" where
  "cloneAll clone [] h = ([], h)"
| "cloneAll clone (x # xs) h =
     (let (x', h1) = clone x h; (xs', h2) = cloneAll clone xs h1 in (x' # xs', h2))"

definition cloneQueueObservations ::
  "shared_snapshot shared_observation list \<Rightarrow> heap \<Rightarrow> shared_snapshot shared_observation list \<times> heap" where
  "cloneQueueObservations = cloneAll (cloneObservation cloneQueueSnapshot)"

definition cloneAgentObservations ::
  "shared_change shared_observation list \<Rightarrow> heap \<Rightarrow> shared_change shared_observation list \<times> heap" where
  "cloneAgentObservations = cloneAll (cloneObservation cloneAgentStateChange)"

definition cloneAdherenceObservations ::
  "shared_check shared_observation list \<Rightarrow> heap \<Rightarrow> shared_check shared_observation list \<times> heap" where
  "cloneAdherenceObservations = cloneAll (cloneObservation cloneAdherenceCheck)"

fun cloneUpdate :: "shared_update \<Rightarrow> heap \<Rightarrow> shared_update \<times> heap" where
  "cloneUpdate (SharedQueueUpdate ob s changed) h =
     (let (ob', h1) = cloneObservation cloneQueueSnapshot ob h; (s', h2) = cloneQueueState s h1
      in (SharedQueueUpdate ob' s' changed, h2))"
| "cloneUpdate (SharedAgentUpdate ob s changed) h =
     (let (ob', h1) = cloneObservation cloneAgentStateChange ob h in (SharedAgentUpdate ob' s changed, h1))"
| "cloneUpdate (SharedAdherenceUpdate ob s changed) h =
     (let (ob', h1) = cloneObservation cloneAdherenceCheck ob h; (s', h2) = cloneAdherenceState s h1
      in (SharedAdherenceUpdate ob' s' changed, h2))"

subsection \<open>Building\<close>

definition observed ::
  "('e \<Rightarrow> heap \<Rightarrow> 'e \<times> heap) \<Rightarrow> accepted_occurrence \<Rightarrow> 'e \<Rightarrow> heap \<Rightarrow> 'e shared_observation \<times> heap" where
  "observed clone ao e h = (let (e', h1) = clone e h in (\<lparr>sbProvenance = provenanceOf ao, sbEvent = e'\<rparr>, h1))"

definition sharedIdentityOf :: "shared_occurrence \<Rightarrow> heap \<Rightarrow> shared_identity \<times> heap" where
  "sharedIdentityOf ao h =
     (let (e, h1) = cloneEvent (soEvent ao) h; (r, h2) = cloneBytes (soRaw ao) h1
      in (\<lparr>siValue = identityOf (soValue ao), siEvent = e, siRaw = r\<rparr>, h2))"

definition sharedBuildQueue ::
  "shared_builder \<Rightarrow> accepted_occurrence \<Rightarrow> shared_snapshot \<Rightarrow> heap \<Rightarrow> shared_builder \<times> shared_update \<times> heap"
where
  "sharedBuildQueue b ao s h =
     (let (ob, h1) = observed cloneQueueSnapshot ao s h;
          k = qsQueueID (snValue s);
          b1 = b\<lparr>bdQueueHistory := (bdQueueHistory b)(k := bdQueueHistory b k @ [ob])\<rparr>;
          (p, h2) = clonePointer (snForecast s) h1;
          cand = \<lparr>sqValue = queueCandidate ao (snValue s), sqForecast = p\<rparr>
      in case bdQueues b k of
           None \<Rightarrow> (let (out, h3) = cloneQueueState cand h2
             in (b1\<lparr>bdQueues := (bdQueues b)(k \<mapsto> cand)\<rparr>, SharedQueueUpdate ob out True, h3))
         | Some cur \<Rightarrow>
             if newer (quProvenance (sqValue cand)) (quProvenance (sqValue cur))
             then (let (out, h3) = cloneQueueState cand h2
               in (b1\<lparr>bdQueues := (bdQueues b)(k \<mapsto> cand)\<rparr>, SharedQueueUpdate ob out True, h3))
             else (let (out, h3) = cloneQueueState cur h2 in (b1, SharedQueueUpdate ob out False, h3)))"

definition sharedBuildAgentState ::
  "shared_builder \<Rightarrow> accepted_occurrence \<Rightarrow> shared_change \<Rightarrow> heap \<Rightarrow> shared_builder \<times> shared_update \<times> heap"
where
  "sharedBuildAgentState b ao c h =
     (let (ob, h1) = observed cloneAgentStateChange ao c h;
          k = asAgentID (scValue c);
          b1 = b\<lparr>bdAgentHistory := (bdAgentHistory b)(k := bdAgentHistory b k @ [ob])\<rparr>;
          cand = agentCandidate ao (scValue c)
      in case bdAgents b k of
           None \<Rightarrow> (b1\<lparr>bdAgents := (bdAgents b)(k \<mapsto> cand)\<rparr>, SharedAgentUpdate ob cand True, h1)
         | Some cur \<Rightarrow>
             if newer (agProvenance cand) (agProvenance cur)
             then (b1\<lparr>bdAgents := (bdAgents b)(k \<mapsto> cand)\<rparr>, SharedAgentUpdate ob cand True, h1)
             else (b1, SharedAgentUpdate ob cur False, h1))"

definition sharedBuildAdherence ::
  "shared_builder \<Rightarrow> accepted_occurrence \<Rightarrow> shared_check \<Rightarrow> heap \<Rightarrow> shared_builder \<times> shared_update \<times> heap"
where
  "sharedBuildAdherence b ao c h =
     (let (ob, h1) = observed cloneAdherenceCheck ao c h;
          k = acAgentID (skValue c);
          b1 = b\<lparr>bdAdherenceHistory := (bdAdherenceHistory b)(k := bdAdherenceHistory b k @ [ob])\<rparr>;
          (t, h2) = clonePointer (skStarted c) h1;
          prior = bdAdherence b k;
          cand = \<lparr>sdValue = adherenceCandidate ao (checkAt h1 c) (map_option sdValue prior), sdStarted = t\<rparr>
      in case prior of
           None \<Rightarrow> (let (out, h3) = cloneAdherenceState cand h2
             in (b1\<lparr>bdAdherence := (bdAdherence b)(k \<mapsto> cand)\<rparr>, SharedAdherenceUpdate ob out True, h3))
         | Some cur \<Rightarrow>
             if newer (ahProvenance (sdValue cand)) (ahProvenance (sdValue cur))
             then (let (out, h3) = cloneAdherenceState cand h2
               in (b1\<lparr>bdAdherence := (bdAdherence b)(k \<mapsto> cand)\<rparr>, SharedAdherenceUpdate ob out True, h3))
             else (let (out, h3) = cloneAdherenceState cur h2 in (b1, SharedAdherenceUpdate ob out False, h3)))"

definition sharedDuplicate ::
  "shared_builder \<Rightarrow> shared_occurrence \<Rightarrow> heap \<Rightarrow> (build_error + shared_update) \<times> heap"
where
  "sharedDuplicate b ao h = (case soEvent ao of
       Some (SharedSnapshot s) \<Rightarrow> (case bdQueues b (qsQueueID (snValue s)) of
           None \<Rightarrow> (Inl (DuplicateWithoutState (aoID (soValue ao))), h)
         | Some cur \<Rightarrow> (let (ob, h1) = observed cloneQueueSnapshot (soValue ao) s h; (out, h2) = cloneQueueState cur h1
             in (Inr (SharedQueueUpdate ob out False), h2)))
     | Some (SharedChange c) \<Rightarrow> (case bdAgents b (asAgentID (scValue c)) of
           None \<Rightarrow> (Inl (DuplicateWithoutState (aoID (soValue ao))), h)
         | Some cur \<Rightarrow> (let (ob, h1) = observed cloneAgentStateChange (soValue ao) c h
             in (Inr (SharedAgentUpdate ob cur False), h1)))
     | Some (SharedCheck c) \<Rightarrow> (case bdAdherence b (acAgentID (skValue c)) of
           None \<Rightarrow> (Inl (DuplicateWithoutState (aoID (soValue ao))), h)
         | Some cur \<Rightarrow> (let (ob, h1) = observed cloneAdherenceCheck (soValue ao) c h; (out, h2) = cloneAdherenceState cur h1
             in (Inr (SharedAdherenceUpdate ob out False), h2)))
     | _ \<Rightarrow> (Inl UnsupportedEvent, h))"

text \<open>The update that is returned is cloned once more.\<close>

definition returned ::
  "bool \<Rightarrow> shared_builder \<Rightarrow> shared_update \<Rightarrow> heap \<Rightarrow> shared_builder \<times> (build_error + bool \<times> shared_update) \<times> heap"
where
  "returned duplicate b u h = (let (u', h1) = cloneUpdate u h in (b, Inr (duplicate, u'), h1))"

definition sharedBuild ::
  "shared_builder \<Rightarrow> shared_occurrence \<Rightarrow> heap \<Rightarrow> shared_builder \<times> (build_error + bool \<times> shared_update) \<times> heap"
where
  "sharedBuild b ao h = (case validateOccurrence (occurrenceAt h ao) of
       Some err \<Rightarrow> (b, Inl (InvalidOccurrence err), h)
     | None \<Rightarrow>
        (let (identity, h1) = sharedIdentityOf ao h; o' = soValue ao
         in case bdOccurrences b (aoID o') of
           Some prior \<Rightarrow>
             if \<not> sameIdentity (identityAt h1 prior) (identityAt h1 identity) then (b, Inl (ConflictingIdentity (aoID o')), h1)
             else (case sharedDuplicate b ao h1 of
                 (Inl err, h2) \<Rightarrow> (b, Inl err, h2) | (Inr u, h2) \<Rightarrow> returned True b u h2)
         | None \<Rightarrow> (case bdAdmissions b (aoSource o', aoIdempotencyKey o') of
             Some priorID \<Rightarrow> (b, Inl (ReusedAdmission (aoID o') priorID), h1)
           | None \<Rightarrow>
               if aoIngestPosition o' \<le> bdLastPosition b
               then (b, Inl (PositionNotIncreasing (aoID o') (aoIngestPosition o') (bdLastPosition b)), h1)
               else (let built = (case soEvent ao of
                         Some (SharedSnapshot s) \<Rightarrow> Some (sharedBuildQueue b o' s h1)
                       | Some (SharedChange c) \<Rightarrow> Some (sharedBuildAgentState b o' c h1)
                       | Some (SharedCheck c) \<Rightarrow> Some (sharedBuildAdherence b o' c h1)
                       | _ \<Rightarrow> None)
                     in case built of
                          None \<Rightarrow> (b, Inl UnsupportedEvent, h1)
                        | Some (b1, u, h2) \<Rightarrow>
                            returned False (b1\<lparr>bdOccurrences := (bdOccurrences b1)(aoID o' \<mapsto> identity),
                              bdAdmissions := (bdAdmissions b1)((aoSource o', aoIdempotencyKey o') \<mapsto> aoID o'),
                              bdLastPosition := aoIngestPosition o'\<rparr>) u h2))))"

subsection \<open>Reading\<close>

definition sharedQueue :: "shared_builder \<Rightarrow> string \<Rightarrow> heap \<Rightarrow> shared_queue_state option \<times> heap" where
  "sharedQueue b i h = (case bdQueues b i of None \<Rightarrow> (None, h) | Some s \<Rightarrow> apfst Some (cloneQueueState s h))"

definition sharedAdherence :: "shared_builder \<Rightarrow> string \<Rightarrow> heap \<Rightarrow> shared_adherence_state option \<times> heap" where
  "sharedAdherence b i h = (case bdAdherence b i of None \<Rightarrow> (None, h) | Some s \<Rightarrow> apfst Some (cloneAdherenceState s h))"

definition sharedQueueHistory ::
  "shared_builder \<Rightarrow> string \<Rightarrow> heap \<Rightarrow> shared_snapshot shared_observation list \<times> heap" where
  "sharedQueueHistory b i = cloneQueueObservations (bdQueueHistory b i)"

definition sharedAgentHistory ::
  "shared_builder \<Rightarrow> string \<Rightarrow> heap \<Rightarrow> shared_change shared_observation list \<times> heap" where
  "sharedAgentHistory b i = cloneAgentObservations (bdAgentHistory b i)"

definition sharedAdherenceHistory ::
  "shared_builder \<Rightarrow> string \<Rightarrow> heap \<Rightarrow> shared_check shared_observation list \<times> heap" where
  "sharedAdherenceHistory b i = cloneAdherenceObservations (bdAdherenceHistory b i)"

end
