(* ===== verification/SharedProjectionsProps.thy ===== *)
theory SharedProjectionsProps
  imports SharedProjections
begin

text \<open>
  The builder on the heap does what the builder on values does, and what it keeps is never
  reachable for its callers: whatever they write into the memory they can reach, its answers
  are those of the values they passed in.
\<close>

subsection \<open>Growing heaps\<close>

definition extends :: "heap \<Rightarrow> heap \<Rightarrow> bool" where
  "extends h h' \<longleftrightarrow> hpNext h \<le> hpNext h' \<and> (\<forall>a < hpNext h. hpCells h' a = hpCells h a)"

abbreviation below :: "heap \<Rightarrow> addr set" where
  "below h \<equiv> {..<hpNext h}"

abbreviation newIn :: "heap \<Rightarrow> heap \<Rightarrow> addr set" where
  "newIn h h' \<equiv> {hpNext h..<hpNext h'}"

lemma extends_refl [simp]: "extends h h"
  by (simp add: extends_def)

lemma extends_trans [trans]: "extends h h1 \<Longrightarrow> extends h1 h2 \<Longrightarrow> extends h h2"
  by (simp add: extends_def)

lemma extends_below: "extends h h' \<Longrightarrow> A \<subseteq> below h \<Longrightarrow> A \<subseteq> below h'"
  by (force simp: extends_def)

lemma newIn_mono: "extends h h1 \<Longrightarrow> A \<subseteq> newIn h1 h2 \<Longrightarrow> A \<subseteq> newIn h h2"
  by (force simp: extends_def)

lemma newIn_later: "extends h1 h2 \<Longrightarrow> A \<subseteq> newIn h h1 \<Longrightarrow> A \<subseteq> newIn h h2"
  by (force simp: extends_def)

text \<open>Values of a type with addresses, their addresses, and a clone function: the contract of
  every clone function of the source.\<close>

locale cloning =
  fixes valueAt :: "heap \<Rightarrow> 'a \<Rightarrow> 'v" and addrs :: "'a \<Rightarrow> addr set" and clone :: "'a \<Rightarrow> heap \<Rightarrow> 'a \<times> heap"
  assumes value_local: "(\<And>a. a \<in> addrs x \<Longrightarrow> hpCells h' a = hpCells h a) \<Longrightarrow> valueAt h' x = valueAt h x"
    and clone_fresh: "addrs x \<subseteq> below h \<Longrightarrow> clone x h = (x', h') \<Longrightarrow>
      extends h h' \<and> addrs x' \<subseteq> newIn h h' \<and> valueAt h' x' = valueAt h x"
begin

lemma value_agree: "\<forall>a \<in> addrs x. hpCells h' a = hpCells h a \<Longrightarrow> valueAt h' x = valueAt h x"
  by (rule value_local) simp

lemma value_stable: "extends h h' \<Longrightarrow> addrs x \<subseteq> below h \<Longrightarrow> valueAt h' x = valueAt h x"
  by (rule value_local) (auto simp: extends_def)

lemma clone_all_fresh:
  "(\<Union>x \<in> set xs. addrs x) \<subseteq> below h \<Longrightarrow> cloneAll clone xs h = (xs', h') \<Longrightarrow>
   extends h h' \<and> (\<Union>x \<in> set xs'. addrs x) \<subseteq> newIn h h' \<and> map (valueAt h') xs' = map (valueAt h) xs"
proof (induction xs arbitrary: h xs')
  case (Cons x xs)
  obtain x1 h1 xs1 where c: "clone x h = (x1, h1)" "cloneAll clone xs h1 = (xs1, h')" "xs' = x1 # xs1"
    using Cons.prems(2) by (auto split: prod.splits)
  have one: "extends h h1" "addrs x1 \<subseteq> newIn h h1" "valueAt h1 x1 = valueAt h x"
    using clone_fresh [OF _ c(1)] Cons.prems(1) by simp_all
  have xs: "(\<Union>x \<in> set xs. addrs x) \<subseteq> below h" using Cons.prems(1) by simp
  from Cons.IH [OF extends_below [OF one(1) this] c(2)]
  have rest: "extends h1 h'" "(\<Union>x \<in> set xs1. addrs x) \<subseteq> newIn h1 h'" "map (valueAt h') xs1 = map (valueAt h1) xs" by simp_all
  have "addrs x1 \<subseteq> below h1" using one(2) by auto
  then have "valueAt h' x1 = valueAt h x" using value_stable [OF rest(1)] one(3) by simp
  moreover have "map (valueAt h1) xs = map (valueAt h) xs"
  proof (rule map_cong [OF refl])
    fix y assume "y \<in> set xs"
    then have "addrs y \<subseteq> below h" using xs by blast
    then show "valueAt h1 y = valueAt h y" by (rule value_stable [OF one(1)])
  qed
  ultimately show ?case
    using extends_trans [OF one(1) rest(1)] newIn_later [OF rest(1) one(2)] newIn_mono [OF one(1) rest(2)] rest(3) c(3) by simp
qed simp

lemma clone_optional_fresh:
  assumes "(\<Union>x \<in> set_option m. addrs x) \<subseteq> below h"
    and "(case m of None \<Rightarrow> (None, h) | Some x \<Rightarrow> apfst Some (clone x h)) = (r, h')"
  shows "extends h h' \<and> (\<Union>x \<in> set_option r. addrs x) \<subseteq> newIn h h' \<and> map_option (valueAt h') r = map_option (valueAt h) m"
proof (cases m)
  case (Some x)
  obtain y h1 where y: "clone x h = (y, h1)" by fastforce
  with clone_fresh [OF _ y] assms Some show ?thesis by auto
qed (use assms(2) in simp)

end

subsection \<open>The types of the builder\<close>

definition snapshotAddrs :: "shared_snapshot \<Rightarrow> addr set" where
  "snapshotAddrs s = set_option (snForecast s)"

definition changeAddrs :: "shared_change \<Rightarrow> addr set" where
  "changeAddrs c = set_option (scPrevious c) \<union> set_option (scDuration c) \<union> set_option (scQueues c)"

definition checkAddrs :: "shared_check \<Rightarrow> addr set" where
  "checkAddrs c = set_option (skStarted c) \<union> set_option (skQueues c)"

fun eventAddrs :: "shared_event \<Rightarrow> addr set" where
  "eventAddrs (SharedSnapshot s) = snapshotAddrs s"
| "eventAddrs (SharedChange c) = changeAddrs c"
| "eventAddrs (SharedCheck c) = checkAddrs c"
| "eventAddrs (SharedOther i) = {}"

definition occurrenceAddrs :: "shared_occurrence \<Rightarrow> addr set" where
  "occurrenceAddrs ao = (\<Union>e \<in> set_option (soEvent ao). eventAddrs e) \<union> set_option (soRaw ao)"

definition queueStateAddrs :: "shared_queue_state \<Rightarrow> addr set" where
  "queueStateAddrs s = set_option (sqForecast s)"

definition adherenceStateAddrs :: "shared_adherence_state \<Rightarrow> addr set" where
  "adherenceStateAddrs s = set_option (sdStarted s)"

definition identityAddrs :: "shared_identity \<Rightarrow> addr set" where
  "identityAddrs i = (\<Union>e \<in> set_option (siEvent i). eventAddrs e) \<union> set_option (siRaw i)"

fun updateAddrs :: "shared_update \<Rightarrow> addr set" where
  "updateAddrs (SharedQueueUpdate ob s c) = snapshotAddrs (sbEvent ob) \<union> queueStateAddrs s"
| "updateAddrs (SharedAgentUpdate ob s c) = changeAddrs (sbEvent ob)"
| "updateAddrs (SharedAdherenceUpdate ob s c) = checkAddrs (sbEvent ob) \<union> adherenceStateAddrs s"

lemmas cells = numberAt_def nameAt_def instantAt_def namesAt_def bytesAt_def clonePointer_def cloneNames_def cloneBytes_def
  allocCell_def extends_def map_option_case

interpretation snapshot: cloning snapshotAt snapshotAddrs cloneQueueSnapshot
  by unfold_locales (auto simp: snapshotAt_def snapshotAddrs_def cloneQueueSnapshot_def cells split: option.splits)

lemma clonePointer_fresh:
  assumes "set_option p \<subseteq> below h" and "clonePointer p h = (p', h')"
  shows "extends h h'" and "set_option p' \<subseteq> newIn h h'"
    and "map_option (numberAt h') p' = map_option (numberAt h) p" "map_option (nameAt h') p' = map_option (nameAt h) p"
    "map_option (instantAt h') p' = map_option (instantAt h) p"
  using assms by (auto simp: cells split: option.splits)

lemma cloneNames_fresh:
  assumes "cloneNames p h = (p', h')"
  shows "extends h h'" and "set_option p' \<subseteq> newIn h h'" and "namesAt h' p' = namesAt h p"
  using assms by (auto simp: cloneNames_def allocCell_def extends_def namesAt_def split: if_splits)

lemma cloneBytes_fresh:
  assumes "cloneBytes p h = (p', h')"
  shows "extends h h'" and "set_option p' \<subseteq> newIn h h'" and "bytesAt h' p' = bytesAt h p"
  using assms by (auto simp: cloneBytes_def allocCell_def extends_def bytesAt_def split: if_splits)

lemma pointers_local:
  assumes "\<forall>a \<in> set_option p. hpCells h' a = hpCells h a"
  shows "map_option (numberAt h') p = map_option (numberAt h) p" "map_option (nameAt h') p = map_option (nameAt h) p"
    "map_option (instantAt h') p = map_option (instantAt h) p" "namesAt h' p = namesAt h p" "bytesAt h' p = bytesAt h p"
  using assms by (cases p; simp add: cells)+

lemma pointers_stable:
  assumes "extends h h'" and "set_option p \<subseteq> below h"
  shows "map_option (numberAt h') p = map_option (numberAt h) p" "map_option (nameAt h') p = map_option (nameAt h) p"
    "map_option (instantAt h') p = map_option (instantAt h) p" "namesAt h' p = namesAt h p" "bytesAt h' p = bytesAt h p"
  by (rule pointers_local; use assms in \<open>auto simp: extends_def\<close>)+

lemma newIn_below: "A \<subseteq> newIn h h' \<Longrightarrow> A \<subseteq> below h'"
  by auto

interpretation change: cloning changeAt changeAddrs cloneAgentStateChange
proof
  fix x and h' h :: heap assume "\<And>a. a \<in> changeAddrs x \<Longrightarrow> hpCells h' a = hpCells h a"
  then have l: "\<forall>a \<in> set_option (scPrevious x). hpCells h' a = hpCells h a"
    "\<forall>a \<in> set_option (scDuration x). hpCells h' a = hpCells h a"
    "\<forall>a \<in> set_option (scQueues x). hpCells h' a = hpCells h a" by (simp_all add: changeAddrs_def)
  from pointers_local(2) [OF l(1)] pointers_local(1) [OF l(2)] pointers_local(4) [OF l(3)]
  show "changeAt h' x = changeAt h x" by (simp add: changeAt_def)
next
  fix x h x' h' assume b: "changeAddrs x \<subseteq> below h" and c: "cloneAgentStateChange x h = (x', h')"
  obtain p h1 d h2 q where s: "clonePointer (scPrevious x) h = (p, h1)" "clonePointer (scDuration x) h1 = (d, h2)"
    "cloneNames (scQueues x) h2 = (q, h')" "x' = x\<lparr>scPrevious := p, scDuration := d, scQueues := q\<rparr>"
    using c by (auto simp: cloneAgentStateChange_def split: prod.splits)
  have in_h: "set_option (scPrevious x) \<subseteq> below h" "set_option (scDuration x) \<subseteq> below h" "set_option (scQueues x) \<subseteq> below h"
    using b by (simp_all add: changeAddrs_def)
  note p = clonePointer_fresh [OF in_h(1) s(1)]
  note d = clonePointer_fresh [OF extends_below [OF p(1) in_h(2)] s(2)]
  note q = cloneNames_fresh [OF s(3)]
  note h2 = extends_trans [OF p(1) d(1)] and h' = extends_trans [OF d(1) q(1)]
  have "changeAt h' x' = changeAt h x"
    using pointers_stable(2) [OF h' newIn_below [OF p(2)]] p(4) pointers_stable(1) [OF q(1) newIn_below [OF d(2)]] d(3)
      pointers_stable(1) [OF p(1) in_h(2)] q(3) pointers_stable(4) [OF h2 in_h(3)]
    by (simp add: changeAt_def s(4))
  moreover have "changeAddrs x' \<subseteq> newIn h h'"
    using newIn_later [OF h' p(2)] newIn_mono [OF p(1) newIn_later [OF q(1) d(2)]] newIn_mono [OF h2 q(2)]
    by (simp add: changeAddrs_def s(4))
  ultimately show "extends h h' \<and> changeAddrs x' \<subseteq> newIn h h' \<and> changeAt h' x' = changeAt h x"
    using extends_trans [OF h2 q(1)] by simp
qed

interpretation check: cloning checkAt checkAddrs cloneAdherenceCheck
proof
  fix x and h' h :: heap assume "\<And>a. a \<in> checkAddrs x \<Longrightarrow> hpCells h' a = hpCells h a"
  then have l: "\<forall>a \<in> set_option (skStarted x). hpCells h' a = hpCells h a"
    "\<forall>a \<in> set_option (skQueues x). hpCells h' a = hpCells h a" by (simp_all add: checkAddrs_def)
  from pointers_local(3) [OF l(1)] pointers_local(4) [OF l(2)]
  show "checkAt h' x = checkAt h x" by (simp add: checkAt_def)
next
  fix x h x' h' assume b: "checkAddrs x \<subseteq> below h" and c: "cloneAdherenceCheck x h = (x', h')"
  obtain p h1 q where s: "clonePointer (skStarted x) h = (p, h1)" "cloneNames (skQueues x) h1 = (q, h')"
    "x' = x\<lparr>skStarted := p, skQueues := q\<rparr>"
    using c by (auto simp: cloneAdherenceCheck_def split: prod.splits)
  have in_h: "set_option (skStarted x) \<subseteq> below h" "set_option (skQueues x) \<subseteq> below h" using b by (simp_all add: checkAddrs_def)
  note p = clonePointer_fresh [OF in_h(1) s(1)]
  note q = cloneNames_fresh [OF s(2)]
  have "checkAt h' x' = checkAt h x"
    using pointers_stable(3) [OF q(1) newIn_below [OF p(2)]] p(5) q(3) pointers_stable(4) [OF p(1) in_h(2)]
    by (simp add: checkAt_def s(3))
  moreover have "checkAddrs x' \<subseteq> newIn h h'"
    using newIn_later [OF q(1) p(2)] newIn_mono [OF p(1) q(2)] by (simp add: checkAddrs_def s(3))
  ultimately show "extends h h' \<and> checkAddrs x' \<subseteq> newIn h h' \<and> checkAt h' x' = checkAt h x"
    using extends_trans [OF p(1) q(1)] by simp
qed

interpretation queue_state: cloning queueStateAt queueStateAddrs cloneQueueState
  by unfold_locales (auto simp: queueStateAt_def queueStateAddrs_def cloneQueueState_def cells split: option.splits)

interpretation adherence_state: cloning adherenceStateAt adherenceStateAddrs cloneAdherenceState
  by unfold_locales (auto simp: adherenceStateAt_def adherenceStateAddrs_def cloneAdherenceState_def cells split: option.splits)

definition observationAt :: "(heap \<Rightarrow> 'e \<Rightarrow> 'v) \<Rightarrow> heap \<Rightarrow> 'e shared_observation \<Rightarrow> provenance \<times> 'v" where
  "observationAt at h ob = (sbProvenance ob, at h (sbEvent ob))"

context cloning
begin

lemma cloneObservation_fresh:
  assumes "addrs (sbEvent ob) \<subseteq> below h" and "cloneObservation clone ob h = (ob', h')"
  shows "extends h h' \<and> addrs (sbEvent ob') \<subseteq> newIn h h' \<and> observationAt valueAt h' ob' = observationAt valueAt h ob"
proof -
  obtain e where e: "clone (sbEvent ob) h = (e, h')" "ob' = ob\<lparr>sbEvent := e\<rparr>"
    using assms(2) by (auto simp: cloneObservation_def split: prod.splits)
  from clone_fresh [OF assms(1) e(1)] show ?thesis by (simp add: e(2) observationAt_def)
qed

lemma observed_fresh:
  assumes "addrs e \<subseteq> below h" and "observed clone ao e h = (ob', h')"
  shows "extends h h' \<and> addrs (sbEvent ob') \<subseteq> newIn h h' \<and> observationAt valueAt h' ob' = (provenanceOf ao, valueAt h e)"
proof -
  obtain e' where e: "clone e h = (e', h')" "ob' = \<lparr>sbProvenance = provenanceOf ao, sbEvent = e'\<rparr>"
    using assms(2) by (auto simp: observed_def split: prod.splits)
  from clone_fresh [OF assms(1) e(1)] show ?thesis by (simp add: e(2) observationAt_def)
qed

end

interpretation queue_observations: cloning queueObservationAt "\<lambda>ob. snapshotAddrs (sbEvent ob)" "cloneObservation cloneQueueSnapshot"
proof
  fix x :: "shared_snapshot shared_observation" and h' h :: heap
  assume "\<And>a. a \<in> snapshotAddrs (sbEvent x) \<Longrightarrow> hpCells h' a = hpCells h a"
  then have "snapshotAt h' (sbEvent x) = snapshotAt h (sbEvent x)" by (rule snapshot.value_local)
  then show "queueObservationAt h' x = queueObservationAt h x" by (simp add: queueObservationAt_def)
qed (drule (1) snapshot.cloneObservation_fresh, simp add: queueObservationAt_def observationAt_def)

interpretation agent_observations: cloning agentObservationAt "\<lambda>ob. changeAddrs (sbEvent ob)" "cloneObservation cloneAgentStateChange"
proof
  fix x :: "shared_change shared_observation" and h' h :: heap
  assume "\<And>a. a \<in> changeAddrs (sbEvent x) \<Longrightarrow> hpCells h' a = hpCells h a"
  then have "changeAt h' (sbEvent x) = changeAt h (sbEvent x)" by (rule change.value_local)
  then show "agentObservationAt h' x = agentObservationAt h x" by (simp add: agentObservationAt_def)
qed (drule (1) change.cloneObservation_fresh, simp add: agentObservationAt_def observationAt_def)

interpretation adherence_observations: cloning adherenceObservationAt "\<lambda>ob. checkAddrs (sbEvent ob)" "cloneObservation cloneAdherenceCheck"
proof
  fix x :: "shared_check shared_observation" and h' h :: heap
  assume "\<And>a. a \<in> checkAddrs (sbEvent x) \<Longrightarrow> hpCells h' a = hpCells h a"
  then have "checkAt h' (sbEvent x) = checkAt h (sbEvent x)" by (rule check.value_local)
  then show "adherenceObservationAt h' x = adherenceObservationAt h x" by (simp add: adherenceObservationAt_def)
qed (drule (1) check.cloneObservation_fresh, simp add: adherenceObservationAt_def observationAt_def)

subsection \<open>Events and identities\<close>

definition optionalAddrs :: "shared_event option \<Rightarrow> addr set" where
  "optionalAddrs ev = (\<Union>e \<in> set_option ev. eventAddrs e)"

lemma optionalAddrs_simps [simp]: "optionalAddrs None = {}" "optionalAddrs (Some e) = eventAddrs e"
  by (simp_all add: optionalAddrs_def)

lemma event_stable: "extends h h' \<Longrightarrow> eventAddrs e \<subseteq> below h \<Longrightarrow> eventAt h' e = eventAt h e"
  by (cases e) (simp_all add: snapshot.value_stable change.value_stable check.value_stable)

lemma optional_stable: "extends h h' \<Longrightarrow> optionalAddrs ev \<subseteq> below h \<Longrightarrow> map_option (eventAt h') ev = map_option (eventAt h) ev"
  by (cases ev) (simp_all add: event_stable)

lemma cloneEvent_fresh:
  assumes "optionalAddrs ev \<subseteq> below h" and "cloneEvent ev h = (ev', h')"
  shows "extends h h' \<and> optionalAddrs ev' \<subseteq> newIn h h' \<and>
    map_option (eventAt h') ev' = (case map_option (eventAt h) ev of Some (OtherEvent _) \<Rightarrow> None | e \<Rightarrow> e)"
proof (cases ev)
  case (Some e)
  show ?thesis
  proof (cases e)
    case (SharedSnapshot x)
    then obtain y where "cloneQueueSnapshot x h = (y, h')" "ev' = Some (SharedSnapshot y)"
      using assms(2) Some by (cases "cloneQueueSnapshot x h") (auto simp: cloneEvent_def)
    with snapshot.clone_fresh [OF _ this(1)] assms(1) Some SharedSnapshot show ?thesis by simp
  next
    case (SharedChange x)
    then obtain y where "cloneAgentStateChange x h = (y, h')" "ev' = Some (SharedChange y)"
      using assms(2) Some by (cases "cloneAgentStateChange x h") (auto simp: cloneEvent_def)
    with change.clone_fresh [OF _ this(1)] assms(1) Some SharedChange show ?thesis by simp
  next
    case (SharedCheck x)
    then obtain y where "cloneAdherenceCheck x h = (y, h')" "ev' = Some (SharedCheck y)"
      using assms(2) Some by (cases "cloneAdherenceCheck x h") (auto simp: cloneEvent_def)
    with check.clone_fresh [OF _ this(1)] assms(1) Some SharedCheck show ?thesis by simp
  next
    case (SharedOther i)
    with assms(2) Some show ?thesis by (simp add: cloneEvent_def)
  qed
qed (use assms(2) in \<open>simp add: cloneEvent_def\<close>)

lemma occurrenceAddrs_eq: "occurrenceAddrs ao = optionalAddrs (soEvent ao) \<union> set_option (soRaw ao)"
  by (simp add: occurrenceAddrs_def optionalAddrs_def)

lemma identityAddrs_eq: "identityAddrs i = optionalAddrs (siEvent i) \<union> set_option (siRaw i)"
  by (simp add: identityAddrs_def optionalAddrs_def)

lemma identity_stable: "extends h h' \<Longrightarrow> identityAddrs i \<subseteq> below h \<Longrightarrow> identityAt h' i = identityAt h i"
  by (simp add: identityAt_def identityAddrs_eq optional_stable pointers_stable(5))

lemma occurrence_stable: "extends h h' \<Longrightarrow> occurrenceAddrs ao \<subseteq> below h \<Longrightarrow> occurrenceAt h' ao = occurrenceAt h ao"
  by (simp add: occurrenceAt_def occurrenceAddrs_eq optional_stable pointers_stable(5))

lemma sharedIdentityOf_fresh:
  assumes b: "occurrenceAddrs ao \<subseteq> below h" and i: "sharedIdentityOf ao h = (i, h')"
  shows "extends h h' \<and> identityAddrs i \<subseteq> newIn h h' \<and> identityAt h' i = identityOf (occurrenceAt h ao)"
proof -
  obtain e h1 r where s: "cloneEvent (soEvent ao) h = (e, h1)" "cloneBytes (soRaw ao) h1 = (r, h')"
    "i = \<lparr>siValue = identityOf (soValue ao), siEvent = e, siRaw = r\<rparr>"
    using i by (auto simp: sharedIdentityOf_def split: prod.splits)
  have in_h: "optionalAddrs (soEvent ao) \<subseteq> below h" "set_option (soRaw ao) \<subseteq> below h"
    using b by (simp_all add: occurrenceAddrs_eq)
  note e = cloneEvent_fresh [OF in_h(1) s(1)]
  note r = cloneBytes_fresh [OF s(2)]
  have e1: "extends h h1" "optionalAddrs e \<subseteq> newIn h h1" using e by simp_all
  have "identityAddrs i \<subseteq> newIn h h'"
    using newIn_later [OF r(1) e1(2)] newIn_mono [OF e1(1) r(2)] by (simp add: identityAddrs_eq s(3))
  moreover have "identityAt h' i = identityOf (occurrenceAt h ao)"
    using e r(3) optional_stable [OF r(1) newIn_below [OF e1(2)]] pointers_stable(5) [OF e1(1) in_h(2)]
    by (simp add: identityAt_def s(3) identityOf_def occurrenceAt_def)
  ultimately show ?thesis using extends_trans [OF e1(1) r(1)] by simp
qed

subsection \<open>The builder\<close>

definition stateAddrs :: "shared_builder \<Rightarrow> addr set" where
  "stateAddrs b = (\<Union>s \<in> ran (bdQueues b). queueStateAddrs s) \<union> (\<Union>s \<in> ran (bdAdherence b). adherenceStateAddrs s)"

definition observationAddrs :: "('e \<Rightarrow> addr set) \<Rightarrow> (string \<Rightarrow> 'e shared_observation list) \<Rightarrow> addr set" where
  "observationAddrs addrs hist = (\<Union>k. \<Union>ob \<in> set (hist k). addrs (sbEvent ob))"

definition builderAddrs :: "shared_builder \<Rightarrow> addr set" where
  "builderAddrs b = stateAddrs b \<union> observationAddrs snapshotAddrs (bdQueueHistory b) \<union>
     observationAddrs changeAddrs (bdAgentHistory b) \<union> observationAddrs checkAddrs (bdAdherenceHistory b) \<union>
     (\<Union>i \<in> ran (bdOccurrences b). identityAddrs i)"

lemma observationAddrs_in: "ob \<in> set (hist k) \<Longrightarrow> addrs (sbEvent ob) \<subseteq> observationAddrs addrs hist"
  unfolding observationAddrs_def by blast

lemma observationAddrs_snoc: "observationAddrs addrs (hist(k := hist k @ [ob])) = observationAddrs addrs hist \<union> addrs (sbEvent ob)"
proof (intro equalityI subsetI)
  fix a assume "a \<in> observationAddrs addrs (hist(k := hist k @ [ob]))"
  then obtain j x where x: "x \<in> set ((hist(k := hist k @ [ob])) j)" "a \<in> addrs (sbEvent x)" by (auto simp: observationAddrs_def)
  from x(1) have "x = ob \<or> x \<in> set (hist j)" by (auto split: if_splits)
  with x(2) observationAddrs_in [of x hist j addrs] show "a \<in> observationAddrs addrs hist \<union> addrs (sbEvent ob)" by blast
next
  fix a assume "a \<in> observationAddrs addrs hist \<union> addrs (sbEvent ob)"
  then obtain j x where x: "x \<in> set ((hist(k := hist k @ [ob])) j)" "a \<in> addrs (sbEvent x)"
  proof
    assume "a \<in> observationAddrs addrs hist"
    then obtain j x where "x \<in> set (hist j)" "a \<in> addrs (sbEvent x)" by (auto simp: observationAddrs_def)
    then show thesis by (intro that [of x j]) auto
  qed (rule that [of ob k], simp_all)
  with observationAddrs_in [of x "hist(k := hist k @ [ob])" j addrs] show "a \<in> observationAddrs addrs (hist(k := hist k @ [ob]))" by blast
qed

lemma builderAddrs_parts:
  "stateAddrs b \<subseteq> builderAddrs b" "observationAddrs snapshotAddrs (bdQueueHistory b) \<subseteq> builderAddrs b"
  "observationAddrs changeAddrs (bdAgentHistory b) \<subseteq> builderAddrs b"
  "observationAddrs checkAddrs (bdAdherenceHistory b) \<subseteq> builderAddrs b"
  by (simp_all add: builderAddrs_def le_supI1 le_supI2)

lemma builderAddrs_in:
  "bdQueues b k = Some s \<Longrightarrow> queueStateAddrs s \<subseteq> builderAddrs b"
  "bdAdherence b k = Some a \<Longrightarrow> adherenceStateAddrs a \<subseteq> builderAddrs b"
  "q \<in> set (bdQueueHistory b k) \<Longrightarrow> snapshotAddrs (sbEvent q) \<subseteq> builderAddrs b"
  "c \<in> set (bdAgentHistory b k) \<Longrightarrow> changeAddrs (sbEvent c) \<subseteq> builderAddrs b"
  "d \<in> set (bdAdherenceHistory b k) \<Longrightarrow> checkAddrs (sbEvent d) \<subseteq> builderAddrs b"
  "bdOccurrences b k = Some i \<Longrightarrow> identityAddrs i \<subseteq> builderAddrs b"
proof -
  show "queueStateAddrs s \<subseteq> builderAddrs b" if "bdQueues b k = Some s"
    by (rule order_trans [OF _ builderAddrs_parts(1)], unfold stateAddrs_def) (rule le_supI1, rule UN_upper, rule ranI, rule that)
  show "adherenceStateAddrs a \<subseteq> builderAddrs b" if "bdAdherence b k = Some a"
    by (rule order_trans [OF _ builderAddrs_parts(1)], unfold stateAddrs_def) (rule le_supI2, rule UN_upper, rule ranI, rule that)
  show "identityAddrs i \<subseteq> builderAddrs b" if "bdOccurrences b k = Some i"
    unfolding builderAddrs_def by (rule le_supI2, rule UN_upper, rule ranI, rule that)
qed (rule order_trans [OF observationAddrs_in builderAddrs_parts(2)] order_trans [OF observationAddrs_in builderAddrs_parts(3)]
  order_trans [OF observationAddrs_in builderAddrs_parts(4)], assumption)+

lemma event_agree: "\<forall>a \<in> eventAddrs e. hpCells h' a = hpCells h a \<Longrightarrow> eventAt h' e = eventAt h e"
  by (cases e) (simp_all add: snapshot.value_agree change.value_agree check.value_agree)

lemma identity_agree:
  assumes "\<forall>a \<in> identityAddrs i. hpCells h' a = hpCells h a"
  shows "identityAt h' i = identityAt h i"
proof -
  have "map_option (eventAt h') (siEvent i) = map_option (eventAt h) (siEvent i)"
    using assms by (cases "siEvent i") (simp_all add: identityAddrs_eq event_agree)
  moreover have "bytesAt h' (siRaw i) = bytesAt h (siRaw i)"
    by (rule pointers_local(5)) (use assms in \<open>simp add: identityAddrs_eq\<close>)
  ultimately show ?thesis by (simp add: identityAt_def)
qed

lemma builder_agree:
  assumes same: "\<forall>a \<in> builderAddrs b. hpCells h' a = hpCells h a"
  shows "builderAt h' b = builderAt h b"
proof -
  have l: "\<forall>a \<in> A. hpCells h' a = hpCells h a" if "A \<subseteq> builderAddrs b" for A using same that by blast
  have "map_option (queueStateAt h') (bdQueues b k) = map_option (queueStateAt h) (bdQueues b k)" for k
    by (cases "bdQueues b k") (simp_all add: queue_state.value_agree [OF l [OF builderAddrs_in(1)]])
  moreover have "map_option (adherenceStateAt h') (bdAdherence b k) = map_option (adherenceStateAt h) (bdAdherence b k)" for k
    by (cases "bdAdherence b k") (simp_all add: adherence_state.value_agree [OF l [OF builderAddrs_in(2)]])
  moreover have "map (queueObservationAt h') (bdQueueHistory b k) = map (queueObservationAt h) (bdQueueHistory b k)" for k
    by (simp add: queue_observations.value_agree [OF l [OF builderAddrs_in(3)]])
  moreover have "map (agentObservationAt h') (bdAgentHistory b k) = map (agentObservationAt h) (bdAgentHistory b k)" for k
    by (simp add: agent_observations.value_agree [OF l [OF builderAddrs_in(4)]])
  moreover have "map (adherenceObservationAt h') (bdAdherenceHistory b k) = map (adherenceObservationAt h) (bdAdherenceHistory b k)" for k
    by (simp add: adherence_observations.value_agree [OF l [OF builderAddrs_in(5)]])
  moreover have "map_option (identityAt h') (bdOccurrences b k) = map_option (identityAt h) (bdOccurrences b k)" for k
    by (cases "bdOccurrences b k") (simp_all add: identity_agree [OF l [OF builderAddrs_in(6)]])
  ultimately show ?thesis unfolding builderAt_def comp_def by presburger
qed

lemma builder_stable: "extends h h' \<Longrightarrow> builderAddrs b \<subseteq> below h \<Longrightarrow> builderAt h' b = builderAt h b"
  by (rule builder_agree) (auto simp: extends_def)

lemma builderAddrs_queue:
  "builderAddrs (b\<lparr>bdQueueHistory := (bdQueueHistory b)(k := bdQueueHistory b k @ [ob])\<rparr>) = builderAddrs b \<union> snapshotAddrs (sbEvent ob)"
  by (simp add: builderAddrs_def stateAddrs_def observationAddrs_snoc Un_ac)

lemma builderAddrs_agent:
  "builderAddrs (b\<lparr>bdAgentHistory := (bdAgentHistory b)(k := bdAgentHistory b k @ [ob])\<rparr>) = builderAddrs b \<union> changeAddrs (sbEvent ob)"
  by (simp add: builderAddrs_def stateAddrs_def observationAddrs_snoc Un_ac)

lemma builderAddrs_adherence:
  "builderAddrs (b\<lparr>bdAdherenceHistory := (bdAdherenceHistory b)(k := bdAdherenceHistory b k @ [ob])\<rparr>) = builderAddrs b \<union> checkAddrs (sbEvent ob)"
  by (simp add: builderAddrs_def stateAddrs_def observationAddrs_snoc Un_ac)

lemma ran_update: "ran (m(k \<mapsto> v)) \<subseteq> insert v (ran m)"
  by (auto simp: ran_def)

lemma UN_ran_update: "(\<Union>x \<in> ran (m(k \<mapsto> v)). f x) \<subseteq> f v \<union> (\<Union>x \<in> ran m. f x)"
  using ran_update [of m k v] by (auto simp only: UN_iff Un_iff insert_iff)

lemma union_grows:
  "Q' \<subseteq> x \<union> Q \<Longrightarrow> Q' \<union> A \<union> H \<union> G \<union> F \<union> I \<subseteq> Q \<union> A \<union> H \<union> G \<union> F \<union> I \<union> x"
  "A' \<subseteq> x \<union> A \<Longrightarrow> Q \<union> A' \<union> H \<union> G \<union> F \<union> I \<subseteq> Q \<union> A \<union> H \<union> G \<union> F \<union> I \<union> x"
  "I' \<subseteq> x \<union> I \<Longrightarrow> Q \<union> A \<union> H \<union> G \<union> F \<union> I' \<subseteq> Q \<union> A \<union> H \<union> G \<union> F \<union> I \<union> x"
  by blast+

lemma builderAddrs_states:
  "builderAddrs (b\<lparr>bdQueues := (bdQueues b)(k \<mapsto> s)\<rparr>) \<subseteq> builderAddrs b \<union> queueStateAddrs s"
  "builderAddrs (b\<lparr>bdAgents := ags\<rparr>) = builderAddrs b"
  "builderAddrs (b\<lparr>bdAdherence := (bdAdherence b)(k \<mapsto> a)\<rparr>) \<subseteq> builderAddrs b \<union> adherenceStateAddrs a"
  "builderAddrs (b\<lparr>bdOccurrences := (bdOccurrences b)(k \<mapsto> i), bdAdmissions := ads, bdLastPosition := n\<rparr>) \<subseteq>
     builderAddrs b \<union> identityAddrs i"
proof -
  let ?Q = "\<lambda>m. \<Union>s \<in> ran m. queueStateAddrs s" and ?A = "\<lambda>m. \<Union>s \<in> ran m. adherenceStateAddrs s"
  let ?I = "\<lambda>m. \<Union>i \<in> ran m. identityAddrs i"
  let ?all = "\<lambda>q a i. ?Q q \<union> ?A a \<union> observationAddrs snapshotAddrs (bdQueueHistory b) \<union>
    observationAddrs changeAddrs (bdAgentHistory b) \<union> observationAddrs checkAddrs (bdAdherenceHistory b) \<union> ?I i"
  have b: "builderAddrs b = ?all (bdQueues b) (bdAdherence b) (bdOccurrences b)"
    by (simp add: builderAddrs_def stateAddrs_def)
  have "builderAddrs (b\<lparr>bdQueues := q\<rparr>) = ?all q (bdAdherence b) (bdOccurrences b)"
    "builderAddrs (b\<lparr>bdAdherence := d\<rparr>) = ?all (bdQueues b) d (bdOccurrences b)"
    "builderAddrs (b\<lparr>bdOccurrences := oc, bdAdmissions := ads, bdLastPosition := n\<rparr>) = ?all (bdQueues b) (bdAdherence b) oc"
    for q d oc by (simp_all add: builderAddrs_def stateAddrs_def)
  note eqs = this b
  show "builderAddrs (b\<lparr>bdQueues := (bdQueues b)(k \<mapsto> s)\<rparr>) \<subseteq> builderAddrs b \<union> queueStateAddrs s"
    unfolding eqs by (rule union_grows(1), rule UN_ran_update)
  show "builderAddrs (b\<lparr>bdAdherence := (bdAdherence b)(k \<mapsto> a)\<rparr>) \<subseteq> builderAddrs b \<union> adherenceStateAddrs a"
    unfolding eqs by (rule union_grows(2), rule UN_ran_update)
  show "builderAddrs (b\<lparr>bdOccurrences := (bdOccurrences b)(k \<mapsto> i), bdAdmissions := ads, bdLastPosition := n\<rparr>) \<subseteq>
     builderAddrs b \<union> identityAddrs i"
    unfolding eqs by (rule union_grows(3), rule UN_ran_update)
qed (simp add: builderAddrs_def stateAddrs_def)

lemma builderAt_simps:
  "builderAt h (b\<lparr>bdQueueHistory := qh\<rparr>) = (builderAt h b)\<lparr>queueHistory := map (queueObservationAt h) \<circ> qh\<rparr>"
  "builderAt h (b\<lparr>bdAgentHistory := gh\<rparr>) = (builderAt h b)\<lparr>agentHistory := map (agentObservationAt h) \<circ> gh\<rparr>"
  "builderAt h (b\<lparr>bdAdherenceHistory := dh\<rparr>) = (builderAt h b)\<lparr>adherenceHistory := map (adherenceObservationAt h) \<circ> dh\<rparr>"
  "builderAt h (b\<lparr>bdQueues := q\<rparr>) = (builderAt h b)\<lparr>queues := map_option (queueStateAt h) \<circ> q\<rparr>"
  "builderAt h (b\<lparr>bdAgents := g\<rparr>) = (builderAt h b)\<lparr>agents := g\<rparr>"
  "builderAt h (b\<lparr>bdAdherence := d\<rparr>) = (builderAt h b)\<lparr>adherence := map_option (adherenceStateAt h) \<circ> d\<rparr>"
  "builderAt h (b\<lparr>bdOccurrences := oc\<rparr>) = (builderAt h b)\<lparr>occurrences := map_option (identityAt h) \<circ> oc\<rparr>"
  "builderAt h (b\<lparr>bdAdmissions := ads\<rparr>) = (builderAt h b)\<lparr>admissions := ads\<rparr>"
  "builderAt h (b\<lparr>bdLastPosition := n\<rparr>) = (builderAt h b)\<lparr>lastPosition := n\<rparr>"
  by (simp_all add: builderAt_def)

lemma builderAt_sel:
  "queues (builderAt h b) = map_option (queueStateAt h) \<circ> bdQueues b" "agents (builderAt h b) = bdAgents b"
  "adherence (builderAt h b) = map_option (adherenceStateAt h) \<circ> bdAdherence b"
  "queueHistory (builderAt h b) = map (queueObservationAt h) \<circ> bdQueueHistory b"
  "agentHistory (builderAt h b) = map (agentObservationAt h) \<circ> bdAgentHistory b"
  "adherenceHistory (builderAt h b) = map (adherenceObservationAt h) \<circ> bdAdherenceHistory b"
  "occurrences (builderAt h b) = map_option (identityAt h) \<circ> bdOccurrences b"
  "admissions (builderAt h b) = bdAdmissions b" "lastPosition (builderAt h b) = bdLastPosition b"
  by (simp_all add: builderAt_def)

text \<open>The memory of the builder holds the same after the heap has grown.\<close>

lemma held_stable:
  assumes "extends h h'" and "builderAddrs b \<subseteq> below h"
  shows "map_option (queueStateAt h') \<circ> bdQueues b = map_option (queueStateAt h) \<circ> bdQueues b"
    "map_option (adherenceStateAt h') \<circ> bdAdherence b = map_option (adherenceStateAt h) \<circ> bdAdherence b"
    "map (queueObservationAt h') \<circ> bdQueueHistory b = map (queueObservationAt h) \<circ> bdQueueHistory b"
    "map (agentObservationAt h') \<circ> bdAgentHistory b = map (agentObservationAt h) \<circ> bdAgentHistory b"
    "map (adherenceObservationAt h') \<circ> bdAdherenceHistory b = map (adherenceObservationAt h) \<circ> bdAdherenceHistory b"
    "map_option (identityAt h') \<circ> bdOccurrences b = map_option (identityAt h) \<circ> bdOccurrences b"
    "map (queueObservationAt h') (bdQueueHistory b k) = map (queueObservationAt h) (bdQueueHistory b k)"
    "map (agentObservationAt h') (bdAgentHistory b k) = map (agentObservationAt h) (bdAgentHistory b k)"
    "map (adherenceObservationAt h') (bdAdherenceHistory b k) = map (adherenceObservationAt h) (bdAdherenceHistory b k)"
    "builderAt h' b = builderAt h b"
  using builder_stable [OF assms] by (simp_all add: builderAt_def fun_eq_iff)

subsection \<open>Building\<close>

text \<open>What building a queue, agent or adherence update does: new memory only, and the value of the
  result is that of the builder on values.\<close>

definition builds ::
  "shared_builder \<Rightarrow> heap \<Rightarrow> builder \<times> source_update \<Rightarrow> shared_builder \<Rightarrow> shared_update \<Rightarrow> heap \<Rightarrow> bool"
where
  "builds b h result b' u h' \<longleftrightarrow> extends h h' \<and> builderAddrs b' \<subseteq> builderAddrs b \<union> newIn h h' \<and>
     updateAddrs u \<subseteq> below h' \<and> (builderAt h' b', updateAt h' u) = result"

lemma queueObservationAt_eq: "queueObservationAt h ob = \<lparr>qoProvenance = fst (observationAt snapshotAt h ob), qoSnapshot = snd (observationAt snapshotAt h ob)\<rparr>"
  by (simp add: queueObservationAt_def observationAt_def)

lemma agentObservationAt_eq: "agentObservationAt h ob = \<lparr>aoProvenance = fst (observationAt changeAt h ob), aoChange = snd (observationAt changeAt h ob)\<rparr>"
  by (simp add: agentObservationAt_def observationAt_def)

lemma adherenceObservationAt_eq: "adherenceObservationAt h ob = \<lparr>adProvenance = fst (observationAt checkAt h ob), adCheck = snd (observationAt checkAt h ob)\<rparr>"
  by (simp add: adherenceObservationAt_def observationAt_def)

lemma sharedBuildQueue_builds:
  assumes B: "builderAddrs b \<subseteq> below h" and S: "snapshotAddrs s \<subseteq> below h"
    and r: "sharedBuildQueue b ao s h = (b', u, h')"
  shows "builds b h (buildQueue (builderAt h b) ao (snapshotAt h s)) b' u h'"
proof -
  let ?k = "qsQueueID (snValue s)"
  obtain ob h1 where ob: "observed cloneQueueSnapshot ao s h = (ob, h1)" by fastforce
  obtain p h2 where p: "clonePointer (snForecast s) h1 = (p, h2)" by fastforce
  let ?b1 = "b\<lparr>bdQueueHistory := (bdQueueHistory b)(?k := bdQueueHistory b ?k @ [ob])\<rparr>"
  let ?cand = "\<lparr>sqValue = queueCandidate ao (snValue s), sqForecast = p\<rparr>"
  have o1: "extends h h1" "snapshotAddrs (sbEvent ob) \<subseteq> newIn h h1" "observationAt snapshotAt h1 ob = (provenanceOf ao, snapshotAt h s)"
    using snapshot.observed_fresh [OF S ob] by simp_all
  have sf: "set_option (snForecast s) \<subseteq> below h" using S by (simp add: snapshotAddrs_def)
  note p2 = clonePointer_fresh [OF extends_below [OF o1(1) sf] p]
  have h2: "extends h h2" by (rule extends_trans [OF o1(1) p2(1)])
  define changed where "changed \<longleftrightarrow> (case bdQueues b ?k of None \<Rightarrow> True
    | Some cur \<Rightarrow> newer (quProvenance (sqValue ?cand)) (quProvenance (sqValue cur)))"
  define current where "current = (if changed then ?cand else the (bdQueues b ?k))"
  obtain out h3 where out: "cloneQueueState current h2 = (out, h3)" by fastforce
  have res: "b' = (if changed then ?b1\<lparr>bdQueues := (bdQueues b)(?k \<mapsto> ?cand)\<rparr> else ?b1)" "u = SharedQueueUpdate ob out changed" "h' = h3"
    using r out by (auto simp: sharedBuildQueue_def Let_def ob p changed_def current_def split: option.splits if_splits)
  have "set_option p \<subseteq> below h2" by (rule newIn_below [OF p2(2)])
  moreover have "\<not> changed \<Longrightarrow> queueStateAddrs (the (bdQueues b ?k)) \<subseteq> below h2"
    using order_trans [OF builderAddrs_in(1) extends_below [OF h2 B], of ?k] by (auto simp: changed_def split: option.splits)
  ultimately have "queueStateAddrs current \<subseteq> below h2" by (auto simp: current_def queueStateAddrs_def)
  note c = queue_state.clone_fresh [OF this out]
  have h3: "extends h2 h3" and h': "extends h h3" "extends h1 h3" using c extends_trans [OF h2] extends_trans [OF p2(1)] by blast+
  have cand: "queueStateAt h2 ?cand = queueCandidate ao (snapshotAt h s)"
    using p2(3) pointers_stable(1) [OF o1(1) sf] by (simp add: queueStateAt_def queueCandidate_def snapshotAt_def)
  have "set_option p \<subseteq> below h2" by (rule newIn_below [OF p2(2)])
  then have cand3: "queueStateAt h3 ?cand = queueCandidate ao (snapshotAt h s)"
    using queue_state.value_stable [OF h3, of ?cand] cand by (simp add: queueStateAddrs_def)
  have ob3: "queueObservationAt h3 ob = queueObservation ao (snapshotAt h s)"
    using queue_observations.value_stable [OF h'(2) newIn_below [OF o1(2)]] o1(3)
    by (simp add: queueObservationAt_eq queueObservation_def)
  have old: "builderAt h3 b = builderAt h b" by (rule builder_stable [OF h'(1) B])
  have cur: "queueStateAt h3 out = (if changed then queueCandidate ao (snapshotAt h s) else queueStateAt h (the (bdQueues b ?k)))"
  proof (cases changed)
    case True
    with c cand show ?thesis by (simp add: current_def)
  next
    case False
    then obtain s0 where s0: "bdQueues b ?k = Some s0" by (auto simp: changed_def split: option.splits)
    with c False queue_state.value_stable [OF h2 order_trans [OF builderAddrs_in(1) [OF s0] B]]
    show ?thesis by (simp add: current_def)
  qed
  have key: "qsQueueID (snapshotAt h s) = ?k" by (simp add: snapshotAt_def)
  have prov: "quProvenance (sqValue ?cand) = quProvenance (queueCandidate ao (snapshotAt h s))" by (simp add: queueCandidate_def)
  have val: "(builderAt h3 b', updateAt h3 u) = buildQueue (builderAt h b) ao (snapshotAt h s)"
  proof (cases "bdQueues b ?k")
    case None
    then show ?thesis using cand3 ob3 cur
      by (simp add: res changed_def builderAt_simps builderAt_sel buildQueue_def key Let_def fun_upd_comp held_stable [OF h'(1) B])
  next
    case (Some s0)
    have "quProvenance (sqValue s0) = quProvenance (queueStateAt h s0)" by (simp add: queueStateAt_def)
    with prov have ch: "changed \<longleftrightarrow> newer (quProvenance (queueCandidate ao (snapshotAt h s))) (quProvenance (queueStateAt h s0))"
      using Some by (simp add: changed_def)
    show ?thesis using cand3 ob3 cur Some
      by (simp add: res ch builderAt_simps builderAt_sel buildQueue_def key Let_def fun_upd_comp held_stable [OF h'(1) B])
  qed
  have "builderAddrs ?b1 \<subseteq> builderAddrs b \<union> newIn h h3"
    using newIn_later [OF h'(2) o1(2)] unfolding builderAddrs_queue by blast
  moreover have "queueStateAddrs ?cand \<subseteq> newIn h h3"
    using newIn_later [OF h3 newIn_mono [OF o1(1) p2(2)]] by (simp add: queueStateAddrs_def)
  ultimately have "builderAddrs b' \<subseteq> builderAddrs b \<union> newIn h h3"
    using builderAddrs_states(1) [of ?b1 ?k ?cand] by (auto simp: res(1))
  moreover have "updateAddrs u \<subseteq> below h3"
    using newIn_below [OF newIn_later [OF h'(2) o1(2)]] c by (auto simp: res(2))
  ultimately show ?thesis using h'(1) val by (simp add: builds_def res(3))
qed

lemma sharedBuildAgentState_builds:
  assumes B: "builderAddrs b \<subseteq> below h" and S: "changeAddrs c \<subseteq> below h"
    and r: "sharedBuildAgentState b ao c h = (b', u, h')"
  shows "builds b h (buildAgentState (builderAt h b) ao (changeAt h c)) b' u h'"
proof -
  let ?k = "asAgentID (scValue c)" and ?cand = "agentCandidate ao (scValue c)"
  obtain ob h1 where ob: "observed cloneAgentStateChange ao c h = (ob, h1)" by fastforce
  let ?b1 = "b\<lparr>bdAgentHistory := (bdAgentHistory b)(?k := bdAgentHistory b ?k @ [ob])\<rparr>"
  have o1: "extends h h1" "changeAddrs (sbEvent ob) \<subseteq> newIn h h1" "observationAt changeAt h1 ob = (provenanceOf ao, changeAt h c)"
    using change.observed_fresh [OF S ob] by simp_all
  have res: "h' = h1" "\<exists>ags. b' = ?b1\<lparr>bdAgents := ags\<rparr> \<or> b' = ?b1" "\<exists>cur changed. u = SharedAgentUpdate ob cur changed"
    using r by (auto simp: sharedBuildAgentState_def Let_def ob split: option.splits if_splits)
  have ob1: "agentObservationAt h1 ob = agentObservation ao (changeAt h c)"
    using o1(3) by (simp add: agentObservationAt_eq agentObservation_def)
  have key: "asAgentID (changeAt h c) = ?k" "agentCandidate ao (changeAt h c) = ?cand"
    by (simp_all add: changeAt_def agentCandidate_def)
  have "(builderAt h1 b', updateAt h1 u) = buildAgentState (builderAt h b) ao (changeAt h c)"
    using r ob1 by (auto simp: sharedBuildAgentState_def Let_def ob builderAt_simps builderAt_sel buildAgentState_def key fun_upd_comp
        held_stable [OF o1(1) [folded res(1)] B] split: option.splits if_splits)
  moreover have "builderAddrs b' \<subseteq> builderAddrs b \<union> newIn h h1"
    using res(2) o1(2) builderAddrs_agent [of b ?k ob] builderAddrs_states(2) [where b = ?b1] by auto
  moreover have "updateAddrs u \<subseteq> below h1" using res(3) newIn_below [OF o1(2)] by auto
  ultimately show ?thesis using o1(1) by (simp add: builds_def res(1))
qed

lemma sharedBuildAdherence_builds:
  assumes B: "builderAddrs b \<subseteq> below h" and S: "checkAddrs s \<subseteq> below h"
    and r: "sharedBuildAdherence b ao s h = (b', u, h')"
  shows "builds b h (buildAdherence (builderAt h b) ao (checkAt h s)) b' u h'"
proof -
  let ?k = "acAgentID (skValue s)" and ?prior = "adherence (builderAt h b) (acAgentID (skValue s))"
  obtain ob h1 where ob: "observed cloneAdherenceCheck ao s h = (ob, h1)" by fastforce
  obtain p h2 where p: "clonePointer (skStarted s) h1 = (p, h2)" by fastforce
  let ?b1 = "b\<lparr>bdAdherenceHistory := (bdAdherenceHistory b)(?k := bdAdherenceHistory b ?k @ [ob])\<rparr>"
  let ?cand = "\<lparr>sdValue = adherenceCandidate ao (checkAt h1 s) (map_option sdValue (bdAdherence b ?k)), sdStarted = p\<rparr>"
  let ?val = "adherenceCandidate ao (checkAt h s) ?prior"
  have o1: "extends h h1" "checkAddrs (sbEvent ob) \<subseteq> newIn h h1" "observationAt checkAt h1 ob = (provenanceOf ao, checkAt h s)"
    using check.observed_fresh [OF S ob] by simp_all
  have sf: "set_option (skStarted s) \<subseteq> below h" using S by (simp add: checkAddrs_def)
  note p2 = clonePointer_fresh [OF extends_below [OF o1(1) sf] p]
  have h2: "extends h h2" by (rule extends_trans [OF o1(1) p2(1)])
  define changed where "changed \<longleftrightarrow> (case bdAdherence b ?k of None \<Rightarrow> True
    | Some cur \<Rightarrow> newer (ahProvenance (sdValue ?cand)) (ahProvenance (sdValue cur)))"
  define current where "current = (if changed then ?cand else the (bdAdherence b ?k))"
  obtain out h3 where out: "cloneAdherenceState current h2 = (out, h3)" by fastforce
  have res: "b' = (if changed then ?b1\<lparr>bdAdherence := (bdAdherence b)(?k \<mapsto> ?cand)\<rparr> else ?b1)"
    "u = SharedAdherenceUpdate ob out changed" "h' = h3"
    using r out by (auto simp: sharedBuildAdherence_def Let_def ob p changed_def current_def split: option.splits if_splits)
  have pin: "set_option p \<subseteq> below h2" by (rule newIn_below [OF p2(2)])
  moreover have "\<not> changed \<Longrightarrow> adherenceStateAddrs (the (bdAdherence b ?k)) \<subseteq> below h2"
    using order_trans [OF builderAddrs_in(2) extends_below [OF h2 B], of ?k] by (auto simp: changed_def split: option.splits)
  ultimately have "adherenceStateAddrs current \<subseteq> below h2" by (auto simp: current_def adherenceStateAddrs_def)
  note c = adherence_state.clone_fresh [OF this out]
  have h3: "extends h2 h3" and h': "extends h h3" "extends h1 h3" using c extends_trans [OF h2] extends_trans [OF p2(1)] by blast+
  have check1: "checkAt h1 s = checkAt h s" by (rule check.value_stable [OF o1(1) S])
  have since: "violationSince ao e (map_option sdValue m) = violationSince ao e (map_option (adherenceStateAt h) m)" for e m
    by (cases m; cases "acViolationStartedAt e") (simp_all add: violationSince_def adherenceStateAt_def)
  have cand: "adherenceStateAt h2 ?cand = ?val"
    using p2(5) pointers_stable(3) [OF o1(1) sf]
    by (simp add: adherenceStateAt_def adherenceCandidate_def check1 since builderAt_sel) (simp add: checkAt_def)
  have cand3: "adherenceStateAt h3 ?cand = ?val"
    using adherence_state.value_stable [OF h3, of ?cand] cand pin by (simp add: adherenceStateAddrs_def)
  have ob3: "adherenceObservationAt h3 ob = adherenceObservation ao (checkAt h s)"
    using adherence_observations.value_stable [OF h'(2) newIn_below [OF o1(2)]] o1(3)
    by (simp add: adherenceObservationAt_eq adherenceObservation_def)
  have cur: "adherenceStateAt h3 out = (if changed then ?val else adherenceStateAt h (the (bdAdherence b ?k)))"
  proof (cases changed)
    case True
    with c cand show ?thesis by (simp add: current_def)
  next
    case False
    then obtain s0 where s0: "bdAdherence b ?k = Some s0" by (auto simp: changed_def split: option.splits)
    with c False adherence_state.value_stable [OF h2 order_trans [OF builderAddrs_in(2) [OF s0] B]]
    show ?thesis by (simp add: current_def)
  qed
  have key: "acAgentID (checkAt h s) = ?k" by (simp add: checkAt_def)
  have prov: "ahProvenance (sdValue ?cand) = ahProvenance ?val" by (simp add: adherenceCandidate_def)
  have val: "(builderAt h3 b', updateAt h3 u) = buildAdherence (builderAt h b) ao (checkAt h s)"
  proof (cases "bdAdherence b ?k")
    case None
    then show ?thesis using cand3 ob3 cur
      by (simp add: res changed_def builderAt_simps builderAt_sel buildAdherence_def key Let_def fun_upd_comp held_stable [OF h'(1) B])
  next
    case (Some s0)
    have "ahProvenance (sdValue s0) = ahProvenance (adherenceStateAt h s0)" by (simp add: adherenceStateAt_def)
    with prov have ch: "changed \<longleftrightarrow> newer (ahProvenance ?val) (ahProvenance (adherenceStateAt h s0))"
      using Some by (simp add: changed_def)
    show ?thesis using cand3 ob3 cur Some
      by (simp add: res ch builderAt_simps builderAt_sel buildAdherence_def key Let_def fun_upd_comp held_stable [OF h'(1) B])
  qed
  have "builderAddrs ?b1 \<subseteq> builderAddrs b \<union> newIn h h3"
    using newIn_later [OF h'(2) o1(2)] unfolding builderAddrs_adherence by blast
  moreover have "adherenceStateAddrs ?cand \<subseteq> newIn h h3"
    using newIn_later [OF h3 newIn_mono [OF o1(1) p2(2)]] by (simp add: adherenceStateAddrs_def)
  ultimately have "builderAddrs b' \<subseteq> builderAddrs b \<union> newIn h h3"
    using builderAddrs_states(3) [of ?b1 ?k ?cand] by (auto simp: res(1))
  moreover have "updateAddrs u \<subseteq> below h3"
    using newIn_below [OF newIn_later [OF h'(2) o1(2)]] c by (auto simp: res(2))
  ultimately show ?thesis using h'(1) val by (simp add: builds_def res(3))
qed

text \<open>The update that is returned is in memory of its own.\<close>

lemma cloneUpdate_fresh:
  assumes "updateAddrs u \<subseteq> below h" and "cloneUpdate u h = (u', h')"
  shows "extends h h' \<and> updateAddrs u' \<subseteq> newIn h h' \<and> updateAt h' u' = updateAt h u"
proof (cases u)
  case (SharedQueueUpdate ob s ch)
  obtain ob1 h1 s1 where c: "cloneObservation cloneQueueSnapshot ob h = (ob1, h1)" "cloneQueueState s h1 = (s1, h')"
    "u' = SharedQueueUpdate ob1 s1 ch"
    using assms(2) SharedQueueUpdate by (auto split: prod.splits)
  have in_h: "snapshotAddrs (sbEvent ob) \<subseteq> below h" "queueStateAddrs s \<subseteq> below h" using assms(1) SharedQueueUpdate by simp_all
  note o1 = queue_observations.clone_fresh [OF in_h(1) c(1)]
  then have e1: "extends h h1" "snapshotAddrs (sbEvent ob1) \<subseteq> newIn h h1" by simp_all
  note s1 = queue_state.clone_fresh [OF extends_below [OF e1(1) in_h(2)] c(2)]
  then have e2: "extends h1 h'" "queueStateAddrs s1 \<subseteq> newIn h1 h'" by simp_all
  show ?thesis
    using o1 s1 queue_observations.value_stable [OF e2(1) newIn_below [OF e1(2)]] queue_state.value_stable [OF e1(1) in_h(2)]
      extends_trans [OF e1(1) e2(1)] newIn_later [OF e2(1) e1(2)] newIn_mono [OF e1(1) e2(2)]
    by (simp add: c(3) SharedQueueUpdate)
next
  case (SharedAgentUpdate ob s ch)
  obtain ob1 where c: "cloneObservation cloneAgentStateChange ob h = (ob1, h')" "u' = SharedAgentUpdate ob1 s ch"
    using assms(2) SharedAgentUpdate by (auto split: prod.splits)
  with agent_observations.clone_fresh [OF _ c(1)] assms(1) SharedAgentUpdate show ?thesis by simp
next
  case (SharedAdherenceUpdate ob s ch)
  obtain ob1 h1 s1 where c: "cloneObservation cloneAdherenceCheck ob h = (ob1, h1)" "cloneAdherenceState s h1 = (s1, h')"
    "u' = SharedAdherenceUpdate ob1 s1 ch"
    using assms(2) SharedAdherenceUpdate by (auto split: prod.splits)
  have in_h: "checkAddrs (sbEvent ob) \<subseteq> below h" "adherenceStateAddrs s \<subseteq> below h" using assms(1) SharedAdherenceUpdate by simp_all
  note o1 = adherence_observations.clone_fresh [OF in_h(1) c(1)]
  then have e1: "extends h h1" "checkAddrs (sbEvent ob1) \<subseteq> newIn h h1" by simp_all
  note s1 = adherence_state.clone_fresh [OF extends_below [OF e1(1) in_h(2)] c(2)]
  then have e2: "extends h1 h'" "adherenceStateAddrs s1 \<subseteq> newIn h1 h'" by simp_all
  show ?thesis
    using o1 s1 adherence_observations.value_stable [OF e2(1) newIn_below [OF e1(2)]] adherence_state.value_stable [OF e1(1) in_h(2)]
      extends_trans [OF e1(1) e2(1)] newIn_later [OF e2(1) e1(2)] newIn_mono [OF e1(1) e2(2)]
    by (simp add: c(3) SharedAdherenceUpdate)
qed

fun answerAddrs :: "build_error + bool \<times> shared_update \<Rightarrow> addr set" where
  "answerAddrs (Inl err) = {}"
| "answerAddrs (Inr (d, u)) = updateAddrs u"

fun answerAt :: "heap \<Rightarrow> build_error + bool \<times> shared_update \<Rightarrow> build_error + update" where
  "answerAt h (Inl err) = Inl err"
| "answerAt h (Inr (d, u)) = Inr \<lparr>upDuplicate = d, upSource = updateAt h u\<rparr>"

text \<open>A call of the builder: new memory only, none of what is returned is kept, and the values are
  those of the builder on values.\<close>

definition isolated ::
  "shared_builder \<Rightarrow> heap \<Rightarrow> builder \<times> (build_error + update) \<Rightarrow> shared_builder \<times> (build_error + bool \<times> shared_update) \<times> heap \<Rightarrow> bool"
where
  "isolated b h result out = (case out of (b', answer, h') \<Rightarrow> extends h h' \<and>
     builderAddrs b' \<subseteq> builderAddrs b \<union> newIn h h' \<and> answerAddrs answer \<subseteq> newIn h h' \<and>
     builderAddrs b' \<inter> answerAddrs answer = {} \<and> (builderAt h' b', answerAt h' answer) = result)"

lemma returned_isolated:
  assumes "extends h h1" and "builderAddrs b' \<subseteq> builderAddrs b \<union> newIn h h1" and "updateAddrs u \<subseteq> below h1"
    and "builderAddrs b \<subseteq> below h" and "(builderAt h1 b', \<lparr>upDuplicate = d, upSource = updateAt h1 u\<rparr>) = (vb, vu)"
  shows "isolated b h (vb, Inr vu) (returned d b' u h1)"
proof -
  obtain u' h2 where c: "cloneUpdate u h1 = (u', h2)" by fastforce
  note f = cloneUpdate_fresh [OF assms(3) c]
  then have e: "extends h1 h2" "updateAddrs u' \<subseteq> newIn h1 h2" by simp_all
  have b': "builderAddrs b' \<subseteq> below h1" using assms(2) extends_below [OF assms(1,4)] by auto
  moreover have "builderAddrs b' \<subseteq> builderAddrs b \<union> newIn h h2"
    using assms(2) newIn_later [OF e(1) subset_refl, of h] by blast
  moreover have "builderAddrs b' \<inter> updateAddrs u' = {}" using b' e(2) by force
  ultimately show ?thesis
    using f builder_stable [OF e(1) b'] extends_trans [OF assms(1) e(1)] newIn_mono [OF assms(1) e(2)] assms(5)
    by (auto simp: isolated_def returned_def c)
qed

lemma refused_isolated: "extends h h1 \<Longrightarrow> builderAddrs b \<subseteq> below h \<Longrightarrow> isolated b h (builderAt h b, Inl err) (b, Inl err, h1)"
  by (auto simp: isolated_def builder_stable)

lemma occurrenceAt_sel [simp]:
  "aoID (occurrenceAt h ao) = aoID (soValue ao)" "aoSource (occurrenceAt h ao) = aoSource (soValue ao)"
  "aoIdempotencyKey (occurrenceAt h ao) = aoIdempotencyKey (soValue ao)"
  "aoIngestPosition (occurrenceAt h ao) = aoIngestPosition (soValue ao)"
  "aoEvent (occurrenceAt h ao) = map_option (eventAt h) (soEvent ao)"
  "provenanceOf (occurrenceAt h ao) = provenanceOf (soValue ao)" "aoEffectiveAt (occurrenceAt h ao) = aoEffectiveAt (soValue ao)"
  by (simp_all add: occurrenceAt_def provenanceOf_def)

lemma build_on_value [simp]:
  "queueObservation (occurrenceAt h ao) e = queueObservation (soValue ao) e" "queueCandidate (occurrenceAt h ao) e = queueCandidate (soValue ao) e"
  "agentObservation (occurrenceAt h ao) f = agentObservation (soValue ao) f" "agentCandidate (occurrenceAt h ao) f = agentCandidate (soValue ao) f"
  "adherenceObservation (occurrenceAt h ao) g = adherenceObservation (soValue ao) g"
  "adherenceCandidate (occurrenceAt h ao) g m = adherenceCandidate (soValue ao) g m"
  "buildQueue b (occurrenceAt h ao) e = buildQueue b (soValue ao) e"
  "buildAgentState b (occurrenceAt h ao) f = buildAgentState b (soValue ao) f"
  "buildAdherence b (occurrenceAt h ao) g = buildAdherence b (soValue ao) g"
proof -
  have since: "violationSince (occurrenceAt h ao) g m = violationSince (soValue ao) g m" for m
    by (simp add: violationSince_def split: option.split)
  show *: "queueObservation (occurrenceAt h ao) e = queueObservation (soValue ao) e" "queueCandidate (occurrenceAt h ao) e = queueCandidate (soValue ao) e"
    "agentObservation (occurrenceAt h ao) f = agentObservation (soValue ao) f" "agentCandidate (occurrenceAt h ao) f = agentCandidate (soValue ao) f"
    "adherenceObservation (occurrenceAt h ao) g = adherenceObservation (soValue ao) g"
    by (simp_all add: queueObservation_def queueCandidate_def agentObservation_def agentCandidate_def adherenceObservation_def)
  have cand: "adherenceCandidate (occurrenceAt h ao) g m = adherenceCandidate (soValue ao) g m" for m
    by (simp add: adherenceCandidate_def since)
  then show "adherenceCandidate (occurrenceAt h ao) g m = adherenceCandidate (soValue ao) g m" .
  show "buildQueue b (occurrenceAt h ao) e = buildQueue b (soValue ao) e"
    "buildAgentState b (occurrenceAt h ao) f = buildAgentState b (soValue ao) f"
    "buildAdherence b (occurrenceAt h ao) g = buildAdherence b (soValue ao) g"
    by (simp_all add: buildQueue_def buildAgentState_def buildAdherence_def * cand)
qed

lemma sharedDuplicate_value:
  assumes B: "builderAddrs b \<subseteq> below h" and O: "occurrenceAddrs ao \<subseteq> below h" and d: "sharedDuplicate b ao h = (r, h')"
  shows "extends h h' \<and> (case r of Inl err \<Rightarrow> duplicateOf (builderAt h b) (occurrenceAt h ao) = Inl err
    | Inr u \<Rightarrow> updateAddrs u \<subseteq> below h' \<and> duplicateOf (builderAt h b) (occurrenceAt h ao) = Inr \<lparr>upDuplicate = True, upSource = updateAt h' u\<rparr>)"
proof (cases "soEvent ao")
  case None
  with d show ?thesis by (auto simp: sharedDuplicate_def duplicateOf_def)
next
  case (Some e)
  note ev = Some
  show ?thesis
  proof (cases e)
    case (SharedSnapshot s)
    have key: "qsQueueID (snapshotAt h0 s) = qsQueueID (snValue s)" for h0 by (simp add: snapshotAt_def)
    show ?thesis
    proof (cases "bdQueues b (qsQueueID (snValue s))")
      case None
      with d ev SharedSnapshot show ?thesis by (auto simp: sharedDuplicate_def duplicateOf_def builderAt_sel key)
    next
      case (Some cur)
      obtain ob h1 out where c: "observed cloneQueueSnapshot (soValue ao) s h = (ob, h1)" "cloneQueueState cur h1 = (out, h')"
        "r = Inr (SharedQueueUpdate ob out False)"
        using d ev SharedSnapshot Some by (auto simp: sharedDuplicate_def split: prod.splits)
      have in_h: "snapshotAddrs s \<subseteq> below h" "queueStateAddrs cur \<subseteq> below h"
        using O ev SharedSnapshot builderAddrs_in(1) [OF Some] B by (auto simp: occurrenceAddrs_eq)
      note o1 = snapshot.observed_fresh [OF in_h(1) c(1)]
      then have e1: "extends h h1" "snapshotAddrs (sbEvent ob) \<subseteq> newIn h h1" by simp_all
      note s1 = queue_state.clone_fresh [OF extends_below [OF e1(1) in_h(2)] c(2)]
      then have e2: "extends h1 h'" "queueStateAddrs out \<subseteq> newIn h1 h'" by simp_all
      have "queueObservationAt h' ob = queueObservation (soValue ao) (snapshotAt h s)"
        using queue_observations.value_stable [OF e2(1) newIn_below [OF e1(2)]] o1 by (simp add: queueObservationAt_eq queueObservation_def)
      moreover have "queueStateAt h' out = queueStateAt h cur" using s1 queue_state.value_stable [OF e1(1) in_h(2)] by simp
      ultimately show ?thesis
        using ev SharedSnapshot Some c(3) key extends_trans [OF e1(1) e2(1)] newIn_below [OF newIn_later [OF e2(1) e1(2)]] newIn_below [OF e2(2)]
        by (simp add: duplicateOf_def builderAt_sel)
    qed
  next
    case (SharedChange s)
    have key: "asAgentID (changeAt h0 s) = asAgentID (scValue s)" for h0 by (simp add: changeAt_def)
    show ?thesis
    proof (cases "bdAgents b (asAgentID (scValue s))")
      case None
      with d ev SharedChange show ?thesis by (auto simp: sharedDuplicate_def duplicateOf_def builderAt_sel key)
    next
      case (Some cur)
      obtain ob where c: "observed cloneAgentStateChange (soValue ao) s h = (ob, h')" "r = Inr (SharedAgentUpdate ob cur False)"
        using d ev SharedChange Some by (auto simp: sharedDuplicate_def split: prod.splits)
      have in_h: "changeAddrs s \<subseteq> below h" using O ev SharedChange by (auto simp: occurrenceAddrs_eq)
      note o1 = change.observed_fresh [OF in_h(1) c(1)]
      then have "agentObservationAt h' ob = agentObservation (soValue ao) (changeAt h s)"
        by (simp add: agentObservationAt_eq agentObservation_def)
      then show ?thesis using ev SharedChange Some c(2) key o1 by (auto simp: duplicateOf_def builderAt_sel)
    qed
  next
    case (SharedCheck s)
    have key: "acAgentID (checkAt h0 s) = acAgentID (skValue s)" for h0 by (simp add: checkAt_def)
    show ?thesis
    proof (cases "bdAdherence b (acAgentID (skValue s))")
      case None
      with d ev SharedCheck show ?thesis by (auto simp: sharedDuplicate_def duplicateOf_def builderAt_sel key)
    next
      case (Some cur)
      obtain ob h1 out where c: "observed cloneAdherenceCheck (soValue ao) s h = (ob, h1)" "cloneAdherenceState cur h1 = (out, h')"
        "r = Inr (SharedAdherenceUpdate ob out False)"
        using d ev SharedCheck Some by (auto simp: sharedDuplicate_def split: prod.splits)
      have in_h: "checkAddrs s \<subseteq> below h" "adherenceStateAddrs cur \<subseteq> below h"
        using O ev SharedCheck builderAddrs_in(2) [OF Some] B by (auto simp: occurrenceAddrs_eq)
      note o1 = check.observed_fresh [OF in_h(1) c(1)]
      then have e1: "extends h h1" "checkAddrs (sbEvent ob) \<subseteq> newIn h h1" by simp_all
      note s1 = adherence_state.clone_fresh [OF extends_below [OF e1(1) in_h(2)] c(2)]
      then have e2: "extends h1 h'" "adherenceStateAddrs out \<subseteq> newIn h1 h'" by simp_all
      have "adherenceObservationAt h' ob = adherenceObservation (soValue ao) (checkAt h s)"
        using adherence_observations.value_stable [OF e2(1) newIn_below [OF e1(2)]] o1 by (simp add: adherenceObservationAt_eq adherenceObservation_def)
      moreover have "adherenceStateAt h' out = adherenceStateAt h cur" using s1 adherence_state.value_stable [OF e1(1) in_h(2)] by simp
      ultimately show ?thesis
        using ev SharedCheck Some c(3) key extends_trans [OF e1(1) e2(1)] newIn_below [OF newIn_later [OF e2(1) e1(2)]] newIn_below [OF e2(2)]
        by (simp add: duplicateOf_def builderAt_sel)
    qed
  next
    case (SharedOther i)
    with d ev show ?thesis by (auto simp: sharedDuplicate_def duplicateOf_def)
  qed
qed

lemma sharedBuild_isolated:
  assumes B: "builderAddrs b \<subseteq> below h" and A: "occurrenceAddrs ao \<subseteq> below h"
  shows "isolated b h (Build (builderAt h b) (occurrenceAt h ao)) (sharedBuild b ao h)"
proof (cases "validateOccurrence (occurrenceAt h ao)")
  case (Some err)
  with refused_isolated [OF extends_refl B] show ?thesis by (simp add: Build_def sharedBuild_def)
next
  case None
  note valid = None
  let ?o = "soValue ao" and ?vb = "builderAt h b" and ?vo = "occurrenceAt h ao"
  obtain i h1 where i: "sharedIdentityOf ao h = (i, h1)" by fastforce
  note f = sharedIdentityOf_fresh [OF A i]
  then have e1: "extends h h1" "identityAddrs i \<subseteq> newIn h h1" "identityAt h1 i = identityOf ?vo" by simp_all
  note B1 = extends_below [OF e1(1) B] and A1 = extends_below [OF e1(1) A]
  note same = builder_stable [OF e1(1) B] occurrence_stable [OF e1(1) A]
  note refuse = refused_isolated [OF e1(1) B]
  show ?thesis
  proof (cases "bdOccurrences b (aoID ?o)")
    case (Some prior)
    have prior: "identityAt h1 prior = identityAt h prior"
      by (rule identity_stable [OF e1(1) order_trans [OF builderAddrs_in(6) [OF Some] B]])
    show ?thesis
    proof (cases "sameIdentity (identityAt h prior) (identityOf ?vo)")
      case False
      with refuse [of "ConflictingIdentity (aoID ?o)"] valid Some prior e1(3) i show ?thesis
        by (simp add: Build_def sharedBuild_def Let_def builderAt_sel)
    next
      case True
      obtain r h2 where d: "sharedDuplicate b ao h1 = (r, h2)" by fastforce
      note dup = sharedDuplicate_value [OF B1 A1 d, unfolded same]
      have e2: "extends h h2" using extends_trans [OF e1(1)] dup by blast
      have out: "sharedBuild b ao h = (case r of Inl err \<Rightarrow> (b, Inl err, h2) | Inr u \<Rightarrow> returned True b u h2)"
        "Build ?vb ?vo = (?vb, duplicateOf ?vb ?vo)"
        using valid Some prior e1(3) i True d by (simp_all add: Build_def sharedBuild_def Let_def builderAt_sel split: sum.split)
      show ?thesis
      proof (cases r)
        case (Inl err)
        with dup refused_isolated [OF e2 B] show ?thesis by (simp add: out)
      next
        case (Inr u)
        with dup have u: "updateAddrs u \<subseteq> below h2" "duplicateOf ?vb ?vo = Inr \<lparr>upDuplicate = True, upSource = updateAt h2 u\<rparr>"
          by simp_all
        have "isolated b h (?vb, Inr \<lparr>upDuplicate = True, upSource = updateAt h2 u\<rparr>) (returned True b u h2)"
          by (rule returned_isolated [OF e2 _ u(1) B]) (simp_all add: builder_stable [OF e2 B])
        then show ?thesis by (simp add: out Inr u(2))
      qed
    qed
  next
    case None
    note fresh = None
    show ?thesis
    proof (cases "bdAdmissions b (aoSource ?o, aoIdempotencyKey ?o) \<noteq> None \<or> aoIngestPosition ?o \<le> bdLastPosition b")
      case True
      with refuse valid fresh i show ?thesis by (auto simp: Build_def sharedBuild_def Let_def builderAt_sel split: option.split)
    next
      case False
      then have admit: "bdAdmissions b (aoSource ?o, aoIdempotencyKey ?o) = None" "\<not> aoIngestPosition ?o \<le> bdLastPosition b" by simp_all
      let ?noted = "\<lambda>b1. b1\<lparr>bdOccurrences := (bdOccurrences b1)(aoID ?o \<mapsto> i),
        bdAdmissions := (bdAdmissions b1)((aoSource ?o, aoIdempotencyKey ?o) \<mapsto> aoID ?o), bdLastPosition := aoIngestPosition ?o\<rparr>"
      let ?vnoted = "\<lambda>b1. b1\<lparr>occurrences := (occurrences b1)(aoID ?o \<mapsto> identityOf ?vo),
        admissions := (admissions b1)((aoSource ?o, aoIdempotencyKey ?o) \<mapsto> aoID ?o), lastPosition := aoIngestPosition ?o\<rparr>"
      have finish: "isolated b h (case result of (b1, u) \<Rightarrow> (?vnoted b1, Inr \<lparr>upDuplicate = False, upSource = u\<rparr>))
          (returned False (?noted b1) u h2)" if "builds b h1 result b1 u h2" for result b1 u h2
      proof -
        have b1: "extends h1 h2" "builderAddrs b1 \<subseteq> builderAddrs b \<union> newIn h1 h2" "updateAddrs u \<subseteq> below h2"
          "result = (builderAt h2 b1, updateAt h2 u)" using that by (simp_all add: builds_def)
        have "builderAddrs (?noted b1) \<subseteq> builderAddrs b \<union> newIn h h2"
          using builderAddrs_states(4) [where b = b1 and k = "aoID ?o" and i = i] b1(2) newIn_mono [OF e1(1) subset_refl, of h2] newIn_later [OF b1(1) e1(2)]
          by blast
        moreover have "builderAt h2 (?noted b1) = ?vnoted (builderAt h2 b1)"
          using identity_stable [OF b1(1) newIn_below [OF e1(2)]] e1(3) by (simp add: builderAt_simps builderAt_sel fun_upd_comp)
        ultimately show ?thesis
          using returned_isolated [OF extends_trans [OF e1(1) b1(1)] _ b1(3) B] by (simp add: b1(4))
      qed
      show ?thesis
      proof (cases "soEvent ao")
        case None
        with refuse valid fresh admit i show ?thesis by (simp add: Build_def sharedBuild_def Let_def builderAt_sel)
      next
        case (Some e)
        note ev = Some
        show ?thesis
        proof (cases e)
          case (SharedSnapshot s)
          obtain b1 u h2 where r: "sharedBuildQueue b ?o s h1 = (b1, u, h2)" by (rule prod_cases3)
          have s: "snapshotAddrs s \<subseteq> below h" using A ev SharedSnapshot by (simp add: occurrenceAddrs_eq)
          from sharedBuildQueue_builds [OF B1 extends_below [OF e1(1) s] r]
          have "builds b h1 (buildQueue ?vb ?o (snapshotAt h s)) b1 u h2" by (simp add: same(1) snapshot.value_stable [OF e1(1) s])
          from finish [OF this] show ?thesis using valid fresh admit i ev SharedSnapshot r
            by (simp add: Build_def sharedBuild_def Let_def builderAt_sel split: prod.splits)
        next
          case (SharedChange s)
          obtain b1 u h2 where r: "sharedBuildAgentState b ?o s h1 = (b1, u, h2)" by (rule prod_cases3)
          have s: "changeAddrs s \<subseteq> below h" using A ev SharedChange by (simp add: occurrenceAddrs_eq)
          from sharedBuildAgentState_builds [OF B1 extends_below [OF e1(1) s] r]
          have "builds b h1 (buildAgentState ?vb ?o (changeAt h s)) b1 u h2" by (simp add: same(1) change.value_stable [OF e1(1) s])
          from finish [OF this] show ?thesis using valid fresh admit i ev SharedChange r
            by (simp add: Build_def sharedBuild_def Let_def builderAt_sel split: prod.splits)
        next
          case (SharedCheck s)
          obtain b1 u h2 where r: "sharedBuildAdherence b ?o s h1 = (b1, u, h2)" by (rule prod_cases3)
          have s: "checkAddrs s \<subseteq> below h" using A ev SharedCheck by (simp add: occurrenceAddrs_eq)
          from sharedBuildAdherence_builds [OF B1 extends_below [OF e1(1) s] r]
          have "builds b h1 (buildAdherence ?vb ?o (checkAt h s)) b1 u h2" by (simp add: same(1) check.value_stable [OF e1(1) s])
          from finish [OF this] show ?thesis using valid fresh admit i ev SharedCheck r
            by (simp add: Build_def sharedBuild_def Let_def builderAt_sel split: prod.splits)
        next
          case (SharedOther x)
          with refuse valid fresh admit i ev show ?thesis by (simp add: Build_def sharedBuild_def Let_def builderAt_sel)
        qed
      qed
    qed
  qed
qed

subsection \<open>Callers\<close>

text \<open>What a caller can do: write anything into memory that it knows, allocate, submit an occurrence
  that it knows all of, and read. It gets to know what it allocates and what is returned.\<close>

datatype caller_op = Poke addr cell | Make cell | Submit shared_occurrence | AskQueue string | AskAgent string | AskAdherence string
  | AskQueueHistory string | AskAgentHistory string | AskAdherenceHistory string

datatype builder_query = QBuild accepted_occurrence | QQueue string | QAgent string | QAdherence string
  | QQueueHistory string | QAgentHistory string | QAdherenceHistory string

datatype builder_answer = ABuild "build_error + update" | AQueue "queue_state option" | AAgent "agent_source_state option"
  | AAdherence "adherence_state option" | AQueueHistory "queue_observation list"
  | AAgentHistory "agent_state_observation list" | AAdherenceHistory "adherence_observation list"

text \<open>The builder on values.\<close>

fun valueStep :: "builder \<Rightarrow> builder_query \<Rightarrow> builder \<times> builder_answer list" where
  "valueStep b (QBuild ao) = (case Build b ao of (b', r) \<Rightarrow> (b', [ABuild r]))"
| "valueStep b (QQueue i) = (b, [AQueue (Queue b i)])"
| "valueStep b (QAgent i) = (b, [AAgent (Agent b i)])"
| "valueStep b (QAdherence i) = (b, [AAdherence (Adherence b i)])"
| "valueStep b (QQueueHistory i) = (b, [AQueueHistory (QueueHistory b i)])"
| "valueStep b (QAgentHistory i) = (b, [AAgentHistory (AgentStateHistory b i)])"
| "valueStep b (QAdherenceHistory i) = (b, [AAdherenceHistory (AdherenceHistory b i)])"

record caller_state =
  csHeap :: heap
  csBuilder :: shared_builder
  csKnown :: "addr set"

text \<open>Handing out a result: it is logged with the question, in values, and its memory becomes known.\<close>

definition handOut ::
  "builder_query \<Rightarrow> builder_answer \<Rightarrow> addr set \<Rightarrow> shared_builder \<Rightarrow> heap \<Rightarrow> caller_state
     \<Rightarrow> caller_state \<times> (builder_query \<times> builder_answer) list"
where
  "handOut q a known b h s = (\<lparr>csHeap = h, csBuilder = b, csKnown = csKnown s \<union> known\<rparr>, [(q, a)])"

fun callerStep :: "caller_state \<Rightarrow> caller_op \<Rightarrow> caller_state \<times> (builder_query \<times> builder_answer) list" where
  "callerStep s (Poke a c) = (if a \<in> csKnown s then s\<lparr>csHeap := (csHeap s)\<lparr>hpCells := (hpCells (csHeap s))(a := c)\<rparr>\<rparr> else s, [])"
| "callerStep s (Make c) = (case allocCell c (csHeap s) of (a, h) \<Rightarrow> (s\<lparr>csHeap := h, csKnown := insert a (csKnown s)\<rparr>, []))"
| "callerStep s (Submit ao) =
     (if occurrenceAddrs ao \<subseteq> csKnown s
      then (case sharedBuild (csBuilder s) ao (csHeap s) of (b, r, h) \<Rightarrow>
        handOut (QBuild (occurrenceAt (csHeap s) ao)) (ABuild (answerAt h r)) (answerAddrs r) b h s)
      else (s, []))"
| "callerStep s (AskQueue i) = (case sharedQueue (csBuilder s) i (csHeap s) of (r, h) \<Rightarrow>
     handOut (QQueue i) (AQueue (map_option (queueStateAt h) r)) (\<Union>x \<in> set_option r. queueStateAddrs x) (csBuilder s) h s)"
| "callerStep s (AskAgent i) = handOut (QAgent i) (AAgent (bdAgents (csBuilder s) i)) {} (csBuilder s) (csHeap s) s"
| "callerStep s (AskAdherence i) = (case sharedAdherence (csBuilder s) i (csHeap s) of (r, h) \<Rightarrow>
     handOut (QAdherence i) (AAdherence (map_option (adherenceStateAt h) r)) (\<Union>x \<in> set_option r. adherenceStateAddrs x) (csBuilder s) h s)"
| "callerStep s (AskQueueHistory i) = (case sharedQueueHistory (csBuilder s) i (csHeap s) of (r, h) \<Rightarrow>
     handOut (QQueueHistory i) (AQueueHistory (map (queueObservationAt h) r)) (\<Union>x \<in> set r. snapshotAddrs (sbEvent x)) (csBuilder s) h s)"
| "callerStep s (AskAgentHistory i) = (case sharedAgentHistory (csBuilder s) i (csHeap s) of (r, h) \<Rightarrow>
     handOut (QAgentHistory i) (AAgentHistory (map (agentObservationAt h) r)) (\<Union>x \<in> set r. changeAddrs (sbEvent x)) (csBuilder s) h s)"
| "callerStep s (AskAdherenceHistory i) = (case sharedAdherenceHistory (csBuilder s) i (csHeap s) of (r, h) \<Rightarrow>
     handOut (QAdherenceHistory i) (AAdherenceHistory (map (adherenceObservationAt h) r)) (\<Union>x \<in> set r. checkAddrs (sbEvent x)) (csBuilder s) h s)"

definition newSharedBuilder :: shared_builder where
  "newSharedBuilder = \<lparr>bdQueues = Map.empty, bdAgents = Map.empty, bdAdherence = Map.empty, bdQueueHistory = (\<lambda>_. []),
     bdAgentHistory = (\<lambda>_. []), bdAdherenceHistory = (\<lambda>_. []), bdOccurrences = Map.empty, bdAdmissions = Map.empty,
     bdLastPosition = 0\<rparr>"

definition callerStart :: caller_state where
  "callerStart = \<lparr>csHeap = \<lparr>hpCells = (\<lambda>_. Number 0), hpNext = 0\<rparr>, csBuilder = newSharedBuilder, csKnown = {}\<rparr>"

text \<open>What the builder keeps and what the caller knows are apart.\<close>

definition apart :: "caller_state \<Rightarrow> bool" where
  "apart s \<longleftrightarrow> builderAddrs (csBuilder s) \<subseteq> below (csHeap s) \<and> csKnown s \<subseteq> below (csHeap s) \<and>
     builderAddrs (csBuilder s) \<inter> csKnown s = {}"

definition heldValue :: "caller_state \<Rightarrow> builder" where
  "heldValue s = builderAt (csHeap s) (csBuilder s)"

definition follows_values :: "caller_state \<Rightarrow> caller_state \<times> (builder_query \<times> builder_answer) list \<Rightarrow> bool" where
  "follows_values s out \<longleftrightarrow> apart (fst out) \<and> run valueStep (heldValue s) (map fst (snd out)) = (heldValue (fst out), map snd (snd out))"

lemma handOut_follows:
  assumes ap: "apart s" and e: "extends (csHeap s) h" and known: "known \<subseteq> newIn (csHeap s) h"
    and b: "builderAddrs b \<subseteq> builderAddrs (csBuilder s) \<union> newIn (csHeap s) h" "builderAddrs b \<inter> known = {}"
    and v: "valueStep (heldValue s) q = (builderAt h b, [a])"
  shows "follows_values s (handOut q a known b h s)"
proof -
  have k: "csKnown s \<subseteq> below (csHeap s)" "builderAddrs (csBuilder s) \<subseteq> below (csHeap s)" "builderAddrs (csBuilder s) \<inter> csKnown s = {}"
    using ap by (simp_all add: apart_def)
  have old: "newIn (csHeap s) h \<inter> csKnown s = {}" using k(1) by force
  have "builderAddrs b \<inter> (csKnown s \<union> known) = {}" using b old k(3) by blast
  moreover have "csKnown s \<union> known \<subseteq> below h" using extends_below [OF e k(1)] newIn_below [OF known] by blast
  moreover have "builderAddrs b \<subseteq> below h" using b(1) extends_below [OF e k(2)] newIn_below [OF subset_refl] by blast
  ultimately show ?thesis using v by (simp add: follows_values_def handOut_def apart_def heldValue_def)
qed

lemma read_follows:
  assumes ap: "apart s" and f: "extends (csHeap s) h \<and> known \<subseteq> newIn (csHeap s) h"
    and v: "valueStep (heldValue s) q = (heldValue s, [a])"
  shows "follows_values s (handOut q a known (csBuilder s) h s)"
proof (rule handOut_follows [OF ap])
  have b: "builderAddrs (csBuilder s) \<subseteq> below (csHeap s)" using ap by (simp add: apart_def)
  then show "builderAddrs (csBuilder s) \<inter> known = {}" using f by force
  show "valueStep (heldValue s) q = (builderAt h (csBuilder s), [a])"
    using v builder_stable [OF _ b, of h] f by (simp add: heldValue_def)
qed (use f in auto)

lemma callerStep_follows:
  assumes ap: "apart s"
  shows "follows_values s (callerStep s op)"
proof (cases op)
  case (Poke a c)
  have "builderAt ((csHeap s)\<lparr>hpCells := (hpCells (csHeap s))(a := c)\<rparr>) (csBuilder s) = builderAt (csHeap s) (csBuilder s)"
    if "a \<in> csKnown s"
    by (rule builder_agree) (use ap that in \<open>auto simp: apart_def\<close>)
  with ap Poke show ?thesis by (auto simp: follows_values_def heldValue_def apart_def)
next
  case (Make c)
  let ?h = "snd (allocCell c (csHeap s))"
  have "extends (csHeap s) ?h" by (simp add: extends_def allocCell_def)
  moreover have "builderAddrs (csBuilder s) \<subseteq> below (csHeap s)" using ap by (simp add: apart_def)
  ultimately have "builderAt ?h (csBuilder s) = builderAt (csHeap s) (csBuilder s)" by (rule builder_stable)
  moreover have "hpNext (csHeap s) \<notin> builderAddrs (csBuilder s)" using ap by (auto simp: apart_def)
  ultimately show ?thesis using ap Make by (auto simp: follows_values_def heldValue_def apart_def allocCell_def)
next
  case (Submit ao)
  show ?thesis
  proof (cases "occurrenceAddrs ao \<subseteq> csKnown s")
    case True
    have B: "builderAddrs (csBuilder s) \<subseteq> below (csHeap s)" using ap by (simp add: apart_def)
    have A: "occurrenceAddrs ao \<subseteq> below (csHeap s)" using ap True by (auto simp: apart_def)
    obtain b r h where r: "sharedBuild (csBuilder s) ao (csHeap s) = (b, r, h)" by (rule prod_cases3)
    from sharedBuild_isolated [OF B A] have iso: "extends (csHeap s) h" "answerAddrs r \<subseteq> newIn (csHeap s) h"
      "builderAddrs b \<subseteq> builderAddrs (csBuilder s) \<union> newIn (csHeap s) h" "builderAddrs b \<inter> answerAddrs r = {}"
      "Build (heldValue s) (occurrenceAt (csHeap s) ao) = (builderAt h b, answerAt h r)"
      by (simp_all add: isolated_def r heldValue_def)
    have "valueStep (heldValue s) (QBuild (occurrenceAt (csHeap s) ao)) = (builderAt h b, [ABuild (answerAt h r)])"
      by (simp add: iso(5))
    from handOut_follows [OF ap iso(1-4) this] show ?thesis by (simp add: Submit True r)
  next
    case False
    with ap Submit show ?thesis by (simp add: follows_values_def)
  qed
next
  case (AskQueue i)
  have B: "builderAddrs (csBuilder s) \<subseteq> below (csHeap s)" using ap by (simp add: apart_def)
  obtain r h where r: "sharedQueue (csBuilder s) i (csHeap s) = (r, h)" by fastforce
  have "(\<Union>x \<in> set_option (bdQueues (csBuilder s) i). queueStateAddrs x) \<subseteq> below (csHeap s)"
    using builderAddrs_in(1) [of "csBuilder s" i] B by (cases "bdQueues (csBuilder s) i") auto
  note f = queue_state.clone_optional_fresh [OF this r [unfolded sharedQueue_def]]
  then have v: "valueStep (heldValue s) (QQueue i) = (heldValue s, [AQueue (map_option (queueStateAt h) r)])"
    by (simp add: Queue_def heldValue_def builderAt_sel)
  from f have f': "extends (csHeap s) h \<and> (\<Union>x \<in> set_option r. queueStateAddrs x) \<subseteq> newIn (csHeap s) h" by blast
  from read_follows [OF ap f' v] show ?thesis by (simp add: AskQueue r)
next
  case (AskAgent i)
  have "valueStep (heldValue s) (QAgent i) = (heldValue s, [AAgent (bdAgents (csBuilder s) i)])"
    by (simp add: Agent_def heldValue_def builderAt_sel)
  from read_follows [OF ap _ this, of "csHeap s" "{}"] show ?thesis by (simp add: AskAgent)
next
  case (AskAdherence i)
  have B: "builderAddrs (csBuilder s) \<subseteq> below (csHeap s)" using ap by (simp add: apart_def)
  obtain r h where r: "sharedAdherence (csBuilder s) i (csHeap s) = (r, h)" by fastforce
  have "(\<Union>x \<in> set_option (bdAdherence (csBuilder s) i). adherenceStateAddrs x) \<subseteq> below (csHeap s)"
    using builderAddrs_in(2) [of "csBuilder s" i] B by (cases "bdAdherence (csBuilder s) i") auto
  note f = adherence_state.clone_optional_fresh [OF this r [unfolded sharedAdherence_def]]
  then have v: "valueStep (heldValue s) (QAdherence i) = (heldValue s, [AAdherence (map_option (adherenceStateAt h) r)])"
    by (simp add: Adherence_def heldValue_def builderAt_sel)
  from f have f': "extends (csHeap s) h \<and> (\<Union>x \<in> set_option r. adherenceStateAddrs x) \<subseteq> newIn (csHeap s) h" by blast
  from read_follows [OF ap f' v] show ?thesis by (simp add: AskAdherence r)
next
  case (AskQueueHistory i)
  have B: "builderAddrs (csBuilder s) \<subseteq> below (csHeap s)" using ap by (simp add: apart_def)
  obtain r h where r: "sharedQueueHistory (csBuilder s) i (csHeap s) = (r, h)" by fastforce
  have "(\<Union>x \<in> set (bdQueueHistory (csBuilder s) i). snapshotAddrs (sbEvent x)) \<subseteq> below (csHeap s)"
    using builderAddrs_in(3) [of _ "csBuilder s" i] B by blast
  note f = queue_observations.clone_all_fresh [OF this r [unfolded sharedQueueHistory_def cloneQueueObservations_def]]
  then have v: "valueStep (heldValue s) (QQueueHistory i) = (heldValue s, [AQueueHistory (map (queueObservationAt h) r)])"
    by (simp add: QueueHistory_def heldValue_def builderAt_sel)
  from f have f': "extends (csHeap s) h \<and> (\<Union>x \<in> set r. snapshotAddrs (sbEvent x)) \<subseteq> newIn (csHeap s) h" by blast
  from read_follows [OF ap f' v] show ?thesis by (simp add: AskQueueHistory r)
next
  case (AskAgentHistory i)
  have B: "builderAddrs (csBuilder s) \<subseteq> below (csHeap s)" using ap by (simp add: apart_def)
  obtain r h where r: "sharedAgentHistory (csBuilder s) i (csHeap s) = (r, h)" by fastforce
  have "(\<Union>x \<in> set (bdAgentHistory (csBuilder s) i). changeAddrs (sbEvent x)) \<subseteq> below (csHeap s)"
    using builderAddrs_in(4) [of _ "csBuilder s" i] B by blast
  note f = agent_observations.clone_all_fresh [OF this r [unfolded sharedAgentHistory_def cloneAgentObservations_def]]
  then have v: "valueStep (heldValue s) (QAgentHistory i) = (heldValue s, [AAgentHistory (map (agentObservationAt h) r)])"
    by (simp add: AgentStateHistory_def heldValue_def builderAt_sel)
  from f have f': "extends (csHeap s) h \<and> (\<Union>x \<in> set r. changeAddrs (sbEvent x)) \<subseteq> newIn (csHeap s) h" by blast
  from read_follows [OF ap f' v] show ?thesis by (simp add: AskAgentHistory r)
next
  case (AskAdherenceHistory i)
  have B: "builderAddrs (csBuilder s) \<subseteq> below (csHeap s)" using ap by (simp add: apart_def)
  obtain r h where r: "sharedAdherenceHistory (csBuilder s) i (csHeap s) = (r, h)" by fastforce
  have "(\<Union>x \<in> set (bdAdherenceHistory (csBuilder s) i). checkAddrs (sbEvent x)) \<subseteq> below (csHeap s)"
    using builderAddrs_in(5) [of _ "csBuilder s" i] B by blast
  note f = adherence_observations.clone_all_fresh [OF this r [unfolded sharedAdherenceHistory_def cloneAdherenceObservations_def]]
  then have v: "valueStep (heldValue s) (QAdherenceHistory i) = (heldValue s, [AAdherenceHistory (map (adherenceObservationAt h) r)])"
    by (simp add: AdherenceHistory_def heldValue_def builderAt_sel)
  from f have f': "extends (csHeap s) h \<and> (\<Union>x \<in> set r. checkAddrs (sbEvent x)) \<subseteq> newIn (csHeap s) h" by blast
  from read_follows [OF ap f' v] show ?thesis by (simp add: AskAdherenceHistory r)
qed

lemma run_follows: "apart s \<Longrightarrow> follows_values s (run callerStep s ops)"
proof (induction ops arbitrary: s)
  case (Cons op ops)
  note one = callerStep_follows [OF Cons.prems, of op]
  then have "apart (fst (callerStep s op))" by (simp add: follows_values_def)
  from Cons.IH [OF this] one show ?case
    by (simp add: follows_values_def case_prod_beta Let_def run_append)
qed (simp add: follows_values_def)

lemma callerStart_apart: "apart callerStart"
  by (simp add: apart_def callerStart_def newSharedBuilder_def builderAddrs_def stateAddrs_def observationAddrs_def)

lemma callerStart_value: "heldValue callerStart = NewBuilder"
  by (simp add: heldValue_def callerStart_def newSharedBuilder_def builderAt_def NewBuilder_def comp_def)

text \<open>C7. The builder is isolated from its callers: whatever they write, at any time, into the memory that
  they passed in, that they allocated or that the builder handed out to them, every answer of
  the builder is the one that the builder on values gives to the values that were passed in.\<close>

theorem callers_cannot_reach_builder:
  "let log = snd (run callerStep callerStart ops) in snd (run valueStep NewBuilder (map fst log)) = map snd log"
  using run_follows [OF callerStart_apart, of ops] by (simp add: follows_values_def callerStart_value Let_def)

end
