(* ===== verification/Spec2Isabelle.thy ===== *)
theory Spec2Isabelle
  imports AlertsProps NotificationsProps RulesProps RulesJsonProps ProjectionsProps EvaluationProps EventsProps
    PreviewProps ReplayProps RuleFormsProps TimerQueueProps RunSite CommandsProps TextBoundaryProps
    TimeTextProps SharedProjectionsProps
begin

text \<open>
  Watchtower watches a support operation. It reads a stream of events (queue snapshots, agent
  state changes, adherence checks), judges rules about queues and agents on them, opens and
  recovers alerts, notifies audiences, keeps all of this in PostgreSQL and shows it on a
  dashboard. This development models the Go program under \<^verbatim>\<open>src/\<close>: the reducers,
  the rule language, the event boundary, the in-memory preview, the storage adapters, the durable
  replay over all tables, and the web application on top of them.

  \<^bold>\<open>How the parts interact.\<close> An event line is read and decoded strictly
  (\<^verbatim>\<open>internal/events\<close>) and admitted as an occurrence (\<^verbatim>\<open>internal/app\<close>,
  \<^verbatim>\<open>internal/storage/db.go\<close>). A projection builder (\<^verbatim>\<open>internal/projections\<close>)
  keeps the live state and history of every source. The evaluation runtime
  (\<^verbatim>\<open>internal/evaluation\<close>) compiles the active rules (\<^verbatim>\<open>internal/rules\<close>),
  evaluates those that select the subject of the occurrence, and feeds the verdicts to one
  condition reducer per rule (\<^verbatim>\<open>internal/conditions\<close>), a state machine of pending and
  active phases with logical timers. Its transitions drive the alert reducer
  (\<^verbatim>\<open>internal/alerts\<close>), whose transitions are planned into notification intents and
  delivered (\<^verbatim>\<open>internal/notifications\<close>). \<^verbatim>\<open>Replay\<close>
  (\<^verbatim>\<open>internal/runtime/preview.go\<close>) composes this in memory. \<^verbatim>\<open>Run\<close>
  (\<^verbatim>\<open>internal/runtime/replay.go\<close>) composes it with the database, one transaction per line.
  \<^verbatim>\<open>Site\<close>, \<^verbatim>\<open>API\<close>, the handlers of \<^verbatim>\<open>internal/web\<close> and the
  commands of \<^verbatim>\<open>cmd/watchtower\<close> read and write the same tables.

  \<^bold>\<open>Reducers and rules.\<close>
  \<^item> \<open>Prelude\<close>: times, words, text, Go's maps and \<^verbatim>\<open>sort.Slice\<close>, runs of a
    step function, and the locales of identifier schemes, sort keys and machines with an
    invariant, a journal or a clock. Every locale is interpreted on definitions of the model.
  \<^item> \<open>Conditions\<close> (\<^verbatim>\<open>internal/conditions/conditions.go\<close>) with
    \<open>ConditionsInv\<close>, \<open>ConditionsOrigin\<close>, \<open>ConditionsProps\<close>: observations, phases,
    timers, episodes. The lemmas show that the journal of every key is a sequence of closed
    episodes with at most one open, that timers fire when they are due and in order, and that a
    cancelled timer never fires.
  \<^item> \<open>Alerts\<close> (\<^verbatim>\<open>internal/alerts/alerts.go\<close>) with \<open>AlertsInv\<close>,
    \<open>AlertsProps\<close>: an alert is open exactly while an episode contributes to it, and opens
    and recovers at the edges. \<open>AlertFlow\<close> feeds it with transitions of conditions.
  \<^item> \<open>Notifications\<close>, \<open>NotificationsProps\<close>
    (\<^verbatim>\<open>internal/notifications/notifications.go\<close>): planning once per transition, and the
    delivery machine with claims that are fenced by a token and a lease.
  \<^item> \<open>Rules\<close>, \<open>RulesProps\<close> (\<^verbatim>\<open>internal/rules\<close>): durations, definitions,
    validation against a declarative typing judgement, compilation, and three-valued evaluation;
    \<open>Json\<close>, \<open>RulesJson\<close>, \<open>RulesDecode\<close>, \<open>RulesJsonProps\<close>: the wire form and its
    round trips.
  \<^item> \<open>App\<close> (\<^verbatim>\<open>internal/app/contracts.go\<close>): occurrences, requests, results and
    commits with their validation.
  \<^item> \<open>Projections\<close>, \<open>ProjectionsProps\<close>
    (\<^verbatim>\<open>internal/projections/projections.go\<close>): the live state of a source is its latest
    observation.
  \<^item> \<open>Evaluation\<close> with \<open>EvaluationInv\<close>, \<open>EvaluationObs\<close>, \<open>EvaluationProps\<close>,
    \<open>RuntimeJournal\<close> (\<^verbatim>\<open>internal/evaluation/runtime.go\<close>): activation, the global
    order of timers as the merge of the reducers, evaluation and application of occurrences, and
    the journal of the runtime as that of its reducers.
  \<^item> \<open>Events\<close>, \<open>EventsProps\<close> (\<^verbatim>\<open>internal/events/events.go\<close>): the strict
    decoder and the line reader.
  \<^item> \<open>Preview\<close>, \<open>PreviewInv\<close>, \<open>PreviewProps\<close>
    (\<^verbatim>\<open>internal/runtime/preview.go\<close>): alerts and notifications follow the conditions, and
    behind the boundary nothing fails. \<open>ReplayEvidence\<close>, \<open>ReplayProps\<close>: preview and
    durable replay judge on the same evidence.
  \<^item> \<open>RuleForms\<close>, \<open>RuleFormsProps\<close> (\<^verbatim>\<open>internal/runtime/rules.go\<close> and the
    templates of \<^verbatim>\<open>internal/web/web.go\<close>): the guided definitions.

  \<^bold>\<open>Storage.\<close>
  A table is the list of its rows in the order of insertion, or a map where only the primary key
  matters; a statement is the change it makes, with the checks, unique constraints and foreign
  keys of \<^verbatim>\<open>internal/storage/migrations\<close> as errors. Identity columns count up.
  Transactions run one after the other; rows that others hold locked are an argument of the
  statements that skip them. \<^verbatim>\<open>TIMESTAMPTZ\<close> holds microseconds (\<open>micros\<close>) and
  \<^verbatim>\<open>BIGINT\<close> 64 bits.
  \<^item> \<open>Storage\<close>: transactions, and the locale of machines in which something happens once.
  \<^item> \<open>TimerQueue\<close>, \<open>TimerQueueProps\<close> (\<^verbatim>\<open>internal/storage/work.go\<close>): one live
    timer per condition, stale ones fenced, claims exclusive, completed once.
  \<^item> \<open>OccurrenceStore\<close>, \<open>OccurrenceStoreProps\<close> (\<^verbatim>\<open>internal/storage/db.go\<close>,
    \<^verbatim>\<open>clock.go\<close>): idempotent admission, handing out once, the runtime clock.
  \<^item> \<open>ObservationStore\<close>, \<open>DurableProjections\<close>, \<open>DurableProjectionsProps\<close>: the
    observation tables refine the projection builder.
  \<^item> \<open>IntentStore\<close>, \<open>IntentStoreProps\<close> (\<^verbatim>\<open>work.go\<close>): one intent per
    transition and audience, delivered at most once.
  \<^item> \<open>AlertStore\<close>, \<open>AlertStoreProps\<close> (\<^verbatim>\<open>persistAlert\<close>): the alert tables
    refine the alert reducer.
  \<^item> \<open>RuleStore\<close>, \<open>RuleStoreProps\<close> (\<^verbatim>\<open>SaveRule\<close>, \<^verbatim>\<open>seedRules\<close>,
    \<^verbatim>\<open>activeFromDB\<close>): immutable revisions, one active.
  \<^item> \<open>Migrate\<close>, \<open>MigrateProps\<close> (\<^verbatim>\<open>migrate.go\<close>): the schema is its recorded
    history.

  \<^bold>\<open>The whole program.\<close>
  \<^item> \<open>ReplayRun\<close>: \<^verbatim>\<open>Run\<close> over all tables. The variables its closures share are
    the fields of \<open>replay_state\<close>. \<open>RunInv\<close>: what one line does. \<open>RunProps\<close>: no run
    leaves anything pending, a repeated run changes nothing, and the tables are the journals of
    the reducers.
  \<^item> \<open>Site\<close>, \<open>Web\<close>, \<open>WebProps\<close>: queries, view models, routes and handlers; links
    that open what they name, posted rules that come back, previews that write nothing.
    \<open>RunSite\<close>: what the pages show of a replayed database.
  \<^item> \<open>Commands\<close>: \<^verbatim>\<open>main\<close>, \<^verbatim>\<open>replay\<close> and the start of
    \<^verbatim>\<open>serve\<close>.

  \<^bold>\<open>Loops and widths.\<close> The timer loop of \<^verbatim>\<open>Advance\<close> is a partial function
  into \<^verbatim>\<open>option\<close> and proved to return on every reachable runtime: each round fires a
  pending timer, and firing schedules none. The line reader recurses on the rest of its input, all
  other loops on lists. There is no fuel. Go's \<^verbatim>\<open>uint64\<close> counters are words; statements
  about runs in which a counter would wrap carry the hypothesis that it does not, which needs
  2 to the power of 64 steps. Conversions to 64 and 32 bits wrap as in Go.

  \<^bold>\<open>Arguments of the model.\<close> What the program takes from elsewhere is an argument: the
  JSON parser and printer, group resolvers and field lookups, the digest, what
  \<^verbatim>\<open>JSONB\<close> does to a text or value, the wall clock and the collation of the database,
  locked rows, files and the environment, the text of a time stamp, the effect of an SQL file on
  the schema. \<^verbatim>\<open>Run\<close> gets them as the record \<open>platform\<close>, the handlers as the
  record \<open>server\<close>. Hypotheses on them are documented behaviour, such as that \<^verbatim>\<open>JSONB\<close> keeps
  the members of an object, and their witnesses use concrete functions.

  \<^bold>\<open>Not modelled.\<close>
  \<^item> The HTML of the pages, \<^verbatim>\<open>formatTime\<close> and the style sheet: text that the standard
    template package produces. A page is its view model after the defaults.
  \<^item> The scanner of \<^verbatim>\<open>encoding/json\<close>: decoders start from the JSON value.
  \<^item> The connection pool, pings, contexts and failures of the connection, so the error branches
    that only wrap such a failure; a commit that fails is one of them.
  \<^item> Parsing command lines, signals, the HTTP server, headers, and the cleaning of paths in the
    multiplexer: standard library. Requests have clean paths, and redirect targets are not escaped.
  \<^item> The SQL of the migration files beyond the constraints that the adapters meet.
\<close>

end
